(* ===== verification/Prelude.thy ===== *)
theory Prelude
  imports Main "HOL-Library.Word" "HOL-Library.Monad_Syntax"
begin

text \<open>
  Shared vocabulary of the development: the machine integers of the kernel, C strings and
  C arrays, and the lemmas on words, bits, lists and loops that several components use.

  A C object of type \<open>uint8_t\<close>, \<open>uint16_t\<close>, \<open>uint32_t\<close> or \<open>uint64_t\<close> is a word of that
  width, with wrap-around arithmetic.  A C string is the list of its bytes before the
  terminating NUL.  A result of type \<open>'a option\<close> is \<open>None\<close> where the C program
  has undefined behaviour (an access outside an object, a null dereference) and \<open>Some\<close>
  of the value otherwise, unless a component says differently.
\<close>

unbundle bit_operations_syntax

type_synonym u8 = "8 word"
type_synonym u16 = "16 word"
type_synonym u32 = "32 word"
type_synonym u64 = "64 word"

named_theorems page_simps "facts on 4 KiB pages and page masks"
named_theorems frame_simps "fields an operation leaves alone"

section \<open>Words and bits\<close>

lemma bit_of_test: "(w AND push_bit k 1 \<noteq> 0) = bit w k" if "k < LENGTH('a)" for w :: "'a::len word"
proof
  assume *: "w AND push_bit k 1 \<noteq> 0"
  have "\<exists>n. bit (w AND push_bit k 1) n"
  proof (rule ccontr)
    assume "\<not> ?thesis"
    then have "w AND push_bit k 1 = 0" by (intro bit_word_eqI) simp
    with * show False by simp
  qed
  then show "bit w k" by (auto simp: bit_simps)
next
  assume "bit w k"
  then have "bit (w AND push_bit k 1) k" using that by (auto simp: bit_simps)
  then show "w AND push_bit k 1 \<noteq> 0" by (metis bit_0_eq bot_bool_def bot_apply)
qed

lemma bit_word_set: "bit (w OR push_bit k 1) j = (bit w j \<or> j = k)" if "k < LENGTH('a)" for w :: "'a::len word"
  using that by (auto simp: bit_simps)

lemma bit_word_clear: "bit (w AND NOT (push_bit k 1)) j = (bit w j \<and> j \<noteq> k)" for w :: "'a::len word"
  by (auto simp: bit_simps dest: bit_imp_le_length)

text \<open>The simplifier writes \<open>1 << k\<close> as a power of two.\<close>

lemmas bit_of_test_power = bit_of_test [unfolded push_bit_of_1]
lemmas bit_word_set_power = bit_word_set [unfolded push_bit_of_1]
lemmas bit_word_clear_power = bit_word_clear [unfolded push_bit_of_1]

lemma bit_255: "bit (255 :: u8) k = (k < 8)"
proof -
  have "(255 :: u8) = mask 8" by (simp add: mask_eq_exp_minus_1)
  then show ?thesis by (simp only: bit_mask_iff possible_bit_word) simp
qed

lemma eq_255_iff: "w = 255 \<longleftrightarrow> (\<forall>k<8. bit w k)" for w :: u8
  by (simp only: bit_eq_iff [of w] bit_255 possible_bit_word) (auto dest: bit_imp_le_length)

section \<open>Pages\<close>

text \<open>The mask \<open>& ~0xFFF\<close> rounds an address down to its page, \<open>& 0xFFF\<close> keeps the offset.\<close>

lemma page_mask_div [page_simps]: "x AND NOT 4095 = x div 4096 * 4096" for x :: u64
proof -
  have "(4095 :: u64) = mask 12" by (simp add: mask_eq_exp_minus_1)
  then have "x AND NOT 4095 = push_bit 12 (drop_bit 12 x)" by (auto simp: bit_eq_iff bit_simps)
  then show ?thesis unfolding push_bit_eq_mult drop_bit_eq_div by simp
qed

lemma page_offset_mod [page_simps]: "x AND 4095 = x mod 4096" for x :: u64
proof -
  have "(4095 :: u64) = mask 12" by (simp add: mask_eq_exp_minus_1)
  then have "x AND 4095 = take_bit 12 x" by (simp only: take_bit_eq_mask)
  then show ?thesis by (simp add: take_bit_eq_mod)
qed

lemma unat_page_mask: "unat (x AND NOT 4095) = unat x div 4096 * 4096" for x :: u64
proof -
  have "unat x div 4096 * 4096 \<le> unat x" by simp
  also have "\<dots> < 2 ^ 64" using unsigned_less [of x] by simp
  finally have "unat x div 4096 * 4096 < 2 ^ 64" .
  then show ?thesis unfolding page_mask_div by (simp add: unat_word_ariths)
qed

lemma unat_page_mask_neg: "unat (x AND - 4096) = unat x div 4096 * 4096" for x :: u64
  using unat_page_mask [of x] by simp

lemma unat_page_offset: "unat (x AND 4095) = unat x mod 4096" for x :: u64
  unfolding page_offset_mod by (simp add: unat_mod)

lemma below_4G_mask: "p < 0x100000000 \<Longrightarrow> p AND 0xFFFFFFFF = p" for p :: u64
proof -
  assume "p < 0x100000000"
  then have "take_bit 32 p = p" by (simp add: take_bit_eq_mod word_less_nat_alt word_unat_eq_iff unat_mod)
  moreover have "(0xFFFFFFFF :: u64) = mask 32" by (simp add: mask_eq_exp_minus_1)
  ultimately show ?thesis by (simp only: take_bit_eq_mask)
qed
lemma low_page_address_mask: "p < 0x100000000 \<Longrightarrow> p AND 0xFFF = 0 \<Longrightarrow> p AND 0x000FFFFFFFFFF000 = p" for p :: u64
proof -
  assume "p < 0x100000000" and 2: "p AND 0xFFF = 0"
  then have 1: "p AND 0xFFFFFFFF = p" by (intro below_4G_mask)
  have "p AND 0x000FFFFFFFFFF000 = (p AND 0xFFFFFFFF) AND 0x000FFFFFFFFFF000" by (simp only: 1)
  also have "\<dots> = p AND 0xFFFFF000" by (simp add: and.assoc)
  also have "\<dots> = (p AND 0xFFF) OR (p AND 0xFFFFF000)" by (simp add: 2)
  also have "\<dots> = p AND (0xFFF OR 0xFFFFF000)" by (simp only: bit.conj_disj_distrib)
  also have "\<dots> = p" using 1 by simp
  finally show ?thesis .
qed

lemma or_outside_mask: "b AND m = 0 \<Longrightarrow> (a OR b) AND m = a AND m" for a :: "'a::len word"
  by (simp add: bit.conj_disj_distrib2)

lemma div_mod_add_small:
  fixes a d i :: nat
  assumes "a mod d + i < d"
  shows "(a + i) div d = a div d" "(a + i) mod d = a mod d + i"
proof -
  have qr: "(d * q + r) div d = q" "(d * q + r) mod d = r" if "r < d" for q r :: nat
    using that by simp_all
  have "a + i = d * (a div d) + (a mod d + i)" by simp
  then show "(a + i) div d = a div d" "(a + i) mod d = a mod d + i"
    using qr [OF assms, of "a div d"] by (simp_all only:)
qed

section \<open>Natural numbers as words\<close>

lemma unat_less_power: "unat (w :: 'a::len word) < 2 ^ LENGTH('a)"
  by (rule unsigned_less)

lemma unat_ucast_small:
  "unat w < 2 ^ LENGTH('b) \<Longrightarrow> unat (ucast w :: 'b::len word) = unat w" for w :: "'a::len word"
  by (simp add: unsigned_ucast_eq take_bit_nat_eq_self)

lemma unat_ucast_up:
  "LENGTH('a) \<le> LENGTH('b) \<Longrightarrow> unat (ucast w :: 'b::len word) = unat w" for w :: "'a::len word"
proof (rule unat_ucast_small)
  assume "LENGTH('a) \<le> LENGTH('b)"
  then have "(2::nat) ^ LENGTH('a) \<le> 2 ^ LENGTH('b)" by (intro power_increasing) simp_all
  then show "unat w < 2 ^ LENGTH('b)" using unat_less_power [of w] by linarith
qed

lemma unat_of_nat_small: "n < 2 ^ LENGTH('a) \<Longrightarrow> unat (of_nat n :: 'a::len word) = n"
  by (simp add: unat_of_nat take_bit_nat_eq_self)

lemma unat_Suc_below: "a < b \<Longrightarrow> unat (a + 1) = Suc (unat a)" for a b :: "'a::len word"
proof -
  assume "a < b"
  then have "a \<noteq> - 1" by (metis not_less word_order.extremum word_n1_ge)
  then have "a + 1 \<noteq> 0" by (metis add.commute eq_neg_iff_add_eq_0)
  then show "unat (a + 1) = Suc (unat a)" by (metis add.commute unatSuc)
qed

lemma sint_of_small:
  "n < 2 ^ 31 \<Longrightarrow> sint (of_nat n :: u32) = int n"
  by (simp add: signed_of_nat signed_take_bit_int_eq_self)

text \<open>The bytes of a word.\<close>

lemma and_255: "w AND 0xFF = take_bit 8 w" for w :: "'a::len word"
  by (simp add: take_bit_eq_mask mask_eq_exp_minus_1)

lemma ucast_of_nat: "(ucast w :: 'b::len word) = of_nat (unat w)" for w :: "'a::len word"
  by (simp add: word_unat_eq_iff unsigned_ucast_eq unat_of_nat take_bit_eq_mod)

lemma low_byte: "(ucast (w AND 0xFF) :: u8) = of_nat (unat w mod 256)" for w :: "'a::len word"
  unfolding and_255 word_unat_eq_iff unsigned_ucast_eq unsigned_take_bit_eq unat_of_nat
  by (simp add: take_bit_eq_mod)

lemma second_byte: "(ucast (drop_bit 8 w AND 0xFF) :: u8) = of_nat (unat w div 256)" for w :: "'a::len word"
proof -
  have m: "(of_nat (n mod 256) :: u8) = of_nat n" for n by (simp add: word_unat_eq_iff unat_of_nat)
  show ?thesis unfolding low_byte m unat_drop_bit_eq by (simp add: drop_bit_eq_div)
qed

text \<open>The signed and the unsigned value of a 64-bit word.\<close>

lemma uint_signed: "uint w = (if sint w < 0 then sint w + 2 ^ 64 else sint w)" for w :: u64
proof -
  have b: "- (2 ^ 63) \<le> sint w" "sint w < 2 ^ 63" using sint_greater_eq [of w] sint_less [of w] by simp_all
  have "(sint w + 2 ^ 64) mod 2 ^ 64 = sint w + 2 ^ 64" if "sint w < 0"
    using that b(1) by (intro mod_pos_pos_trivial) simp_all
  moreover have "sint w mod 2 ^ 64 = sint w" if "\<not> sint w < 0"
    using that b(2) by (intro mod_pos_pos_trivial) simp_all
  ultimately show ?thesis using uint_sint [of w] by (simp add: take_bit_eq_mod)
qed

end
