(* ===== verification/Frame_Allocator.thy ===== *)
theory Frame_Allocator
  imports Prelude
begin

text \<open>
  The contract between the physical frame allocators of \<open>core/mm.c\<close> and their callers,
  and what a caller that takes several frames may conclude from it.
\<close>

text \<open>What a client of an allocator relies on: the free frames are a set of addresses without
  0, an allocation takes one of them if there is one and answers 0 otherwise, and freeing a
  valid address puts the frame of that address back.\<close>

locale frame_allocator =
  fixes alloc :: "'s \<Rightarrow> u64 \<times> 's"
    and free :: "'s \<Rightarrow> u64 \<Rightarrow> 's"
    and frames :: "'s \<Rightarrow> u64 set"
    and inv :: "'s \<Rightarrow> bool"
    and valid :: "u64 \<Rightarrow> bool"
  assumes frames_nonzero: "inv s \<Longrightarrow> 0 \<notin> frames s"
    and frames_finite: "finite (frames s)"
    and frames_valid: "inv s \<Longrightarrow> a \<in> frames s \<Longrightarrow> valid a"
    and alloc_some: "inv s \<Longrightarrow> frames s \<noteq> {} \<Longrightarrow>
      fst (alloc s) \<in> frames s \<and> frames (snd (alloc s)) = frames s - {fst (alloc s)} \<and> inv (snd (alloc s))"
    and alloc_none: "frames s = {} \<Longrightarrow> alloc s = (0, s)"
    and free_insert: "inv s \<Longrightarrow> valid a \<Longrightarrow> frames (free s a) = insert a (frames s) \<and> inv (free s a)"
begin

lemma alloc_zero_iff: "inv s \<Longrightarrow> fst (alloc s) = 0 \<longleftrightarrow> frames s = {}"
  using alloc_some alloc_none frames_nonzero by (metis fst_conv)

lemma alloc_frames: "inv s \<Longrightarrow> frames (snd (alloc s)) = frames s - {fst (alloc s)}"
  using alloc_some alloc_none by (metis Diff_empty Diff_insert0 empty_iff snd_conv)

lemma alloc_inv: "inv s \<Longrightarrow> inv (snd (alloc s))"
  using alloc_some alloc_none by (metis snd_conv)

text \<open>A client that asks for \<open>n\<close> frames one after the other.\<close>

primrec alloc_n :: "nat \<Rightarrow> 's \<Rightarrow> u64 list \<times> 's" where
  "alloc_n 0 s = ([], s)"
| "alloc_n (Suc n) s =
     (case alloc s of (a, s') \<Rightarrow> case alloc_n n s' of (as, s'') \<Rightarrow> (a # as, s''))"

lemma alloc_n_spec:
  "inv s \<Longrightarrow> alloc_n n s = (as, s') \<Longrightarrow>
     length as = n \<and> inv s' \<and> frames s' = frames s - set as \<and>
     (n \<le> card (frames s) \<longrightarrow> distinct as \<and> set as \<subseteq> frames s)"
proof (induction n arbitrary: s as)
  case (Suc n)
  obtain a s1 where a: "alloc s = (a, s1)" by (cases "alloc s")
  obtain bs where bs: "alloc_n n s1 = (bs, s')" "as = a # bs"
    using Suc.prems(2) a by (auto split: prod.splits)
  have s1: "inv s1" "frames s1 = frames s - {a}"
    using alloc_inv [OF Suc.prems(1)] alloc_frames [OF Suc.prems(1)] a by auto
  have "a \<in> frames s" if "Suc n \<le> card (frames s)"
  proof -
    from that have "frames s \<noteq> {}" by auto
    then show ?thesis using alloc_some [OF Suc.prems(1)] a by simp
  qed
  note a_free = this
  from Suc.IH [OF s1(1) bs(1)]
  have IH: "length bs = n" "inv s'" "frames s' = frames s - {a} - set bs"
      "n \<le> card (frames s1) \<Longrightarrow> distinct bs \<and> set bs \<subseteq> frames s - {a}"
    by (simp_all add: s1(2))
  have "distinct as \<and> set as \<subseteq> frames s" if n: "Suc n \<le> card (frames s)"
  proof -
    have "card (frames s1) = card (frames s) - 1"
      using a_free [OF n] frames_finite [of s] by (simp add: s1(2))
    then have "n \<le> card (frames s1)" using n by linarith
    from IH(4) [OF this] show ?thesis using a_free [OF n] bs(2) by auto
  qed
  moreover have "frames s' = frames s - set as" using IH(3) bs(2) by auto
  ultimately show ?case using IH(1,2) bs(2) by simp
qed simp

lemma alloc_n_distinct:
  "inv s \<Longrightarrow> n \<le> card (frames s) \<Longrightarrow> distinct (fst (alloc_n n s)) \<and> 0 \<notin> set (fst (alloc_n n s))"
  using alloc_n_spec [of s n "fst (alloc_n n s)" "snd (alloc_n n s)"] frames_nonzero [of s] by auto

lemma free_alloc:
  assumes "inv s" "a \<in> frames s"
  shows "frames (free s a) = frames s"
  using free_insert [OF assms(1) frames_valid [OF assms]] assms(2) by auto

end

end
