(* ===== verification/PhysMem.thy ===== *)
theory PhysMem
  imports Frame_Allocator
begin

text \<open>
  The physical frame allocator of \<open>core/mm.c\<close>: two bitmaps, one for memory below 4 GiB
  (\<open>low_bitmap\<close>) and one for memory from 4 GiB up (\<open>bitmap\<close>), a set bit meaning "used",
  their counters, and \<open>mm_init\<close>, which places the bitmaps and frees the usable regions of the
  boot loader's memory map.

  The contents of a bitmap is a function from the byte index to the byte; its address is
  kept apart; what a store to memory does to the bytes of the bitmaps is \<open>mm_memset\<close> in \<open>MemInit\<close>.  The
  console messages of the C code are left out.
\<close>

section \<open>Bitmaps\<close>

definition PAGE_SIZE :: u64 where "PAGE_SIZE = 4096"

definition MAX_PAGES :: nat where "MAX_PAGES = 1024 * 1024 * 2"

definition BITMAP_SIZE :: nat where "BITMAP_SIZE = MAX_PAGES div 8"

type_synonym bitmap = "nat \<Rightarrow> u8"

definition bitmap_set_used :: "bitmap \<Rightarrow> nat \<Rightarrow> bitmap" where
  "bitmap_set_used bmap index =
     bmap(index div 8 := bmap (index div 8) OR push_bit (index mod 8) 1)"

definition bitmap_set_free :: "bitmap \<Rightarrow> nat \<Rightarrow> bitmap" where
  "bitmap_set_free bmap index =
     bmap(index div 8 := bmap (index div 8) AND NOT (push_bit (index mod 8) 1))"

definition bitmap_is_free :: "bitmap \<Rightarrow> nat \<Rightarrow> bool" where
  "bitmap_is_free bmap index \<longleftrightarrow> bmap (index div 8) AND push_bit (index mod 8) 1 = 0"

section \<open>State\<close>

record pfa =
  low_bits :: bitmap          \<comment> \<open>\<open>*low_bitmap\<close>\<close>
  high_bits :: bitmap         \<comment> \<open>\<open>*bitmap\<close>\<close>
  low_bitmap_at :: u64        \<comment> \<open>the pointers themselves, 0 for NULL\<close>
  bitmap_at :: u64
  bitmap_base :: u64
  free_pages_count :: u64
  total_pages_count :: u64
  low_free_count :: u64
  low_total_count :: u64
  next_mmio_addr :: u64

definition addr_to_index :: "pfa \<Rightarrow> u64 \<Rightarrow> u64" where
  "addr_to_index s paddr = (paddr - bitmap_base s) div PAGE_SIZE"

section \<open>Operations\<close>

definition pfa_free :: "pfa \<Rightarrow> u64 \<Rightarrow> pfa" where
  "pfa_free s paddr =
     (if paddr = 0 then s
      else if paddr < 0x100000000 then
        let index = paddr div PAGE_SIZE in
        if unat index \<ge> MAX_PAGES then s
        else if \<not> bitmap_is_free (low_bits s) (unat index) then
          s\<lparr>low_bits := bitmap_set_free (low_bits s) (unat index),
            low_free_count := low_free_count s + 1,
            low_total_count := low_total_count s + 1\<rparr>
        else s
      else if paddr < bitmap_base s then s
      else
        let index = addr_to_index s paddr in
        if unat index \<ge> MAX_PAGES then s
        else if \<not> bitmap_is_free (high_bits s) (unat index) then
          s\<lparr>high_bits := bitmap_set_free (high_bits s) (unat index),
            free_pages_count := free_pages_count s + 1,
            total_pages_count := total_pages_count s + 1\<rparr>
        else s)"

text \<open>The inner loop, over the bits of one byte, and the outer loop, over the bytes; both
  allocation functions run them.\<close>

function scan_bits :: "bitmap \<Rightarrow> nat \<Rightarrow> nat \<Rightarrow> nat option" where
  "scan_bits bmap byte k =
     (if k < 8 then
        let index = byte * 8 + k in
        if index \<ge> MAX_PAGES then None
        else if bitmap_is_free bmap index then Some index
        else scan_bits bmap byte (k + 1)
      else None)"
  by pat_completeness auto
termination by (relation "measure (\<lambda>(_, _, k). 8 - k)") auto

function scan_bytes :: "bitmap \<Rightarrow> nat \<Rightarrow> nat option" where
  "scan_bytes bmap byte =
     (if byte < BITMAP_SIZE then
        if bmap byte = 0xFF then scan_bytes bmap (byte + 1)
        else case scan_bits bmap byte 0 of
               Some index \<Rightarrow> Some index
             | None \<Rightarrow> scan_bytes bmap (byte + 1)
      else None)"
  by pat_completeness auto
termination by (relation "measure (\<lambda>(_, byte). BITMAP_SIZE - byte)") auto

declare scan_bits.simps [simp del] scan_bytes.simps [simp del]

definition pfa_alloc_low :: "pfa \<Rightarrow> u64 \<times> pfa" where
  "pfa_alloc_low s =
     (case scan_bytes (low_bits s) 0 of
        Some index \<Rightarrow>
          (of_nat index * PAGE_SIZE,
           s\<lparr>low_bits := bitmap_set_used (low_bits s) index,
             low_free_count := low_free_count s - 1\<rparr>)
      | None \<Rightarrow> (0, s))"

definition pfa_alloc :: "pfa \<Rightarrow> u64 \<times> pfa" where
  "pfa_alloc s =
     (case scan_bytes (high_bits s) 0 of
        Some index \<Rightarrow>
          (bitmap_base s + of_nat index * PAGE_SIZE,
           s\<lparr>high_bits := bitmap_set_used (high_bits s) index,
             free_pages_count := free_pages_count s - 1\<rparr>)
      | None \<Rightarrow> (0, s))"

definition mm_get_total_memory :: "pfa \<Rightarrow> u64" where
  "mm_get_total_memory s = (total_pages_count s + low_total_count s) * PAGE_SIZE"

definition mm_get_free_memory :: "pfa \<Rightarrow> u64" where
  "mm_get_free_memory s = (free_pages_count s + low_free_count s) * PAGE_SIZE"

section \<open>What the bitmaps say\<close>

definition free_frames :: "bitmap \<Rightarrow> nat set" where
  "free_frames bmap = {i. i < MAX_PAGES \<and> bitmap_is_free bmap i}"

lemma finite_free_frames [simp]: "finite (free_frames bmap)"
  by (rule finite_subset [of _ "{..<MAX_PAGES}"]) (auto simp: free_frames_def)

lemma free_frames_iff: "i < MAX_PAGES \<Longrightarrow> i \<in> free_frames bmap \<longleftrightarrow> bitmap_is_free bmap i"
  by (simp add: free_frames_def)

lemma bitmap_is_free_bit: "bitmap_is_free bmap i \<longleftrightarrow> \<not> bit (bmap (i div 8)) (i mod 8)"
  using bit_of_test_power [of "i mod 8" "bmap (i div 8)"] by (auto simp: bitmap_is_free_def)

lemma same_cell: "i div 8 = j div 8 \<and> i mod 8 = j mod 8 \<longleftrightarrow> i = j" for i j :: nat
  by (metis div_mult_mod_eq)

lemma bitmap_is_free_set_used [page_simps]:
  "bitmap_is_free (bitmap_set_used bmap i) j \<longleftrightarrow> bitmap_is_free bmap j \<and> j \<noteq> i"
  using same_cell [of i j] same_cell [of j i]
  by (auto simp: bitmap_is_free_bit bitmap_set_used_def bit_word_set_power)

lemma bitmap_is_free_set_free [page_simps]:
  "bitmap_is_free (bitmap_set_free bmap i) j \<longleftrightarrow> bitmap_is_free bmap j \<or> j = i"
  using same_cell [of i j] same_cell [of j i]
  by (auto simp: bitmap_is_free_bit bitmap_set_free_def bit_word_clear_power)

lemma free_frames_set_used [page_simps]: "free_frames (bitmap_set_used bmap i) = free_frames bmap - {i}"
  by (auto simp: free_frames_def page_simps)

lemma free_frames_set_free [page_simps]:
  "i < MAX_PAGES \<Longrightarrow> free_frames (bitmap_set_free bmap i) = insert i (free_frames bmap)"
  by (auto simp: free_frames_def page_simps)

lemma full_byte_no_free:
  assumes "bmap byte = 0xFF" "byte * 8 \<le> j" "j < byte * 8 + 8"
  shows "\<not> bitmap_is_free bmap j"
proof -
  have "j div 8 = byte" using assms by simp
  then show ?thesis using assms(1) bit_255 [of "j mod 8"] by (simp add: bitmap_is_free_bit)
qed

lemma free_frames_full: "free_frames (\<lambda>_. 0xFF) = {}"
  using full_byte_no_free [of "\<lambda>_. 0xFF" "i div 8" i for i] by (auto simp: free_frames_def)

section \<open>The scans find the least free frame\<close>

lemma scan_bits_step:
  "k < 8 \<Longrightarrow> byte * 8 + k < MAX_PAGES \<Longrightarrow> \<not> bitmap_is_free bmap (byte * 8 + k) \<Longrightarrow>
     scan_bits bmap byte k = scan_bits bmap byte (k + 1)"
  by (subst scan_bits.simps) simp

lemma scan_bits_stop:
  "\<not> (k < 8 \<and> byte * 8 + k < MAX_PAGES \<and> \<not> bitmap_is_free bmap (byte * 8 + k)) \<Longrightarrow>
     scan_bits bmap byte k =
       (if k < 8 \<and> byte * 8 + k < MAX_PAGES then Some (byte * 8 + k) else None)"
  by (subst scan_bits.simps) (auto simp: Let_def)

lemma scan_bits_Some:
  "scan_bits bmap byte k = Some i \<Longrightarrow>
     i < MAX_PAGES \<and> bitmap_is_free bmap i \<and> byte * 8 + k \<le> i \<and> i < byte * 8 + 8 \<and>
     (\<forall>j. byte * 8 + k \<le> j \<and> j < i \<longrightarrow> \<not> bitmap_is_free bmap j)"
proof (induction "8 - k" arbitrary: k rule: less_induct)
  case less
  show ?case
  proof (cases "k < 8 \<and> byte * 8 + k < MAX_PAGES \<and> \<not> bitmap_is_free bmap (byte * 8 + k)")
    case True
    then have "scan_bits bmap byte (k + 1) = Some i" using less.prems scan_bits_step [of k byte bmap] by simp
    with less.hyps [of "k + 1"] True
    have *: "i < MAX_PAGES" "bitmap_is_free bmap i" "byte * 8 + (k + 1) \<le> i" "i < byte * 8 + 8"
        "\<And>j. byte * 8 + (k + 1) \<le> j \<Longrightarrow> j < i \<Longrightarrow> \<not> bitmap_is_free bmap j"
      by auto
    moreover have "\<not> bitmap_is_free bmap j" if "byte * 8 + k \<le> j" "j < i" for j
    proof (cases "j = byte * 8 + k")
      case False
      with that show ?thesis by (intro *(5)) auto
    qed (use True in simp)
    ultimately show ?thesis by auto
  next
    case False
    with less.prems show ?thesis by (auto simp: scan_bits_stop split: if_splits)
  qed
qed

lemma scan_bits_None:
  "scan_bits bmap byte k = None \<Longrightarrow> byte * 8 + k \<le> j \<Longrightarrow> j < byte * 8 + 8 \<Longrightarrow> j < MAX_PAGES \<Longrightarrow>
     \<not> bitmap_is_free bmap j"
proof (induction "8 - k" arbitrary: k rule: less_induct)
  case less
  then have k: "k < 8" "byte * 8 + k < MAX_PAGES" by auto
  have *: "\<not> bitmap_is_free bmap (byte * 8 + k)"
    using less.prems(1) k by (auto simp: scan_bits_stop)
  show ?case
  proof (cases "j = byte * 8 + k")
    case False
    have "scan_bits bmap byte (k + 1) = None" using less.prems(1) k * scan_bits_step [of k byte bmap] by simp
    then show ?thesis using less.hyps [of "k + 1"] less.prems False k by simp
  qed (use * in simp)
qed

lemma MAX_PAGES_bytes: "MAX_PAGES = BITMAP_SIZE * 8"
  by (simp add: MAX_PAGES_def BITMAP_SIZE_def)

lemma scan_bytes_Some:
  "scan_bytes bmap byte = Some i \<Longrightarrow>
     i < MAX_PAGES \<and> bitmap_is_free bmap i \<and>
     (\<forall>j. byte * 8 \<le> j \<and> j < i \<longrightarrow> \<not> bitmap_is_free bmap j)"
proof (induction bmap byte rule: scan_bytes.induct)
  case (1 bmap byte)
  have byte: "byte < BITMAP_SIZE" using 1(3) by (subst (asm) scan_bytes.simps) (simp split: if_splits)
  show ?case
  proof (cases "bmap byte \<noteq> 0xFF \<and> scan_bits bmap byte 0 \<noteq> None")
    case True
    with 1(3) byte have "scan_bits bmap byte 0 = Some i" by (subst (asm) scan_bytes.simps) auto
    from scan_bits_Some [OF this] show ?thesis by simp
  next
    case False
    have none: "\<not> bitmap_is_free bmap j" if "byte * 8 \<le> j" "j < byte * 8 + 8" for j
      using False that full_byte_no_free [of bmap byte j] scan_bits_None [of bmap byte 0 j] byte MAX_PAGES_bytes
      by auto
    have "scan_bytes bmap (byte + 1) = Some i"
      using 1(3) False byte by (subst (asm) scan_bytes.simps) (auto split: if_splits)
    then have "i < MAX_PAGES \<and> bitmap_is_free bmap i \<and>
        (\<forall>j. (byte + 1) * 8 \<le> j \<and> j < i \<longrightarrow> \<not> bitmap_is_free bmap j)"
      using 1(1,2) False byte by (cases "bmap byte = 0xFF") auto
    moreover have "(byte + 1) * 8 \<le> j \<or> j < byte * 8 + 8" for j by auto
    ultimately show ?thesis using none by blast
  qed
qed

lemma scan_bytes_None:
  "scan_bytes bmap byte = None \<Longrightarrow> byte * 8 \<le> j \<Longrightarrow> j < MAX_PAGES \<Longrightarrow> \<not> bitmap_is_free bmap j"
proof (induction bmap byte rule: scan_bytes.induct)
  case (1 bmap byte)
  have byte: "byte < BITMAP_SIZE" using 1(4,5) MAX_PAGES_bytes by auto
  have next_byte: "scan_bytes bmap (byte + 1) = None" and this_byte: "bmap byte = 0xFF \<or> scan_bits bmap byte 0 = None"
    using 1(3) byte by (subst (asm) scan_bytes.simps, auto split: if_splits option.splits)+
  show ?case
  proof (cases "j < byte * 8 + 8")
    case True
    then show ?thesis
      using this_byte 1(4,5) full_byte_no_free [of bmap byte j] scan_bits_None [of bmap byte 0 j] by auto
  next
    case False
    then have "(byte + 1) * 8 \<le> j" by simp
    with 1(1,2,5) next_byte this_byte byte show ?thesis by (cases "bmap byte = 0xFF") auto
  qed
qed

lemma scan_bytes_least:
  "scan_bytes bmap 0 = (if free_frames bmap = {} then None else Some (Min (free_frames bmap)))"
proof (cases "scan_bytes bmap 0")
  case None
  with scan_bytes_None [of bmap 0] have "free_frames bmap = {}" by (auto simp: free_frames_def)
  with None show ?thesis by simp
next
  case (Some i)
  from scan_bytes_Some [OF this] have i: "i \<in> free_frames bmap" "\<forall>j<i. j \<notin> free_frames bmap"
    by (auto simp: free_frames_def)
  then have "Min (free_frames bmap) = i" by (intro Min_eqI) (auto simp: not_less [symmetric])
  with Some i show ?thesis by auto
qed

section \<open>The two allocators\<close>

definition low_frames :: "pfa \<Rightarrow> u64 set" where
  "low_frames s = (\<lambda>i. of_nat i * PAGE_SIZE) ` free_frames (low_bits s)"

definition high_frames :: "pfa \<Rightarrow> u64 set" where
  "high_frames s = (\<lambda>i. 0x100000000 + of_nat i * PAGE_SIZE) ` free_frames (high_bits s)"

definition low_page :: "u64 \<Rightarrow> bool" where
  "low_page a \<longleftrightarrow> a AND 0xFFF = 0 \<and> PAGE_SIZE \<le> a \<and> a < 0x100000000"

definition high_page :: "u64 \<Rightarrow> bool" where
  "high_page a \<longleftrightarrow> a AND 0xFFF = 0 \<and> 0x100000000 \<le> a \<and> a < 0x100000000 + 0x200000000"

text \<open>The invariant: the free counters are the numbers of free frames, no low frame from
  4 GiB up and not frame 0 is free, and the high bitmap starts at 4 GiB.\<close>

definition pfa_inv :: "pfa \<Rightarrow> bool" where
  "pfa_inv s \<longleftrightarrow>
     bitmap_base s = 0x100000000 \<and>
     free_frames (low_bits s) \<subseteq> {0<..<1048576} \<and>
     low_free_count s = of_nat (card (free_frames (low_bits s))) \<and>
     free_pages_count s = of_nat (card (free_frames (high_bits s)))"

lemma unat_frame: "i < 2 ^ 52 \<Longrightarrow> unat (of_nat i * PAGE_SIZE) = i * 4096"
proof -
  assume "i < 2 ^ 52"
  then have i: "i * 4096 < (2::nat) ^ LENGTH(64)" by simp
  have "of_nat i * PAGE_SIZE = of_nat (i * 4096)" by (simp add: PAGE_SIZE_def)
  then show ?thesis using i by (simp only: unat_of_nat_small)
qed

lemma unat_high_frame: "i < MAX_PAGES \<Longrightarrow> unat (0x100000000 + of_nat i * PAGE_SIZE :: u64) = 4294967296 + i * 4096"
proof -
  assume "i < MAX_PAGES"
  then have i: "4294967296 + i * 4096 < (2::nat) ^ LENGTH(64)" by (simp add: MAX_PAGES_def)
  have "0x100000000 + of_nat i * PAGE_SIZE = (of_nat (4294967296 + i * 4096) :: u64)"
    by (simp add: PAGE_SIZE_def)
  then show ?thesis using i by (simp only: unat_of_nat_small)
qed

lemma frame_inj: "i < MAX_PAGES \<Longrightarrow> j < MAX_PAGES \<Longrightarrow>
    (of_nat i * PAGE_SIZE = of_nat j * PAGE_SIZE) = (i = j)"
  by (auto dest: arg_cong [where f = unat] simp: unat_frame MAX_PAGES_def)

lemma high_frame_inj: "i < MAX_PAGES \<Longrightarrow> j < MAX_PAGES \<Longrightarrow>
    (0x100000000 + of_nat i * PAGE_SIZE = (0x100000000 + of_nat j * PAGE_SIZE :: u64)) = (i = j)"
  by (simp add: frame_inj)

lemma page_frame: "a AND 0xFFF = 0 \<Longrightarrow> a = of_nat (unat (a div PAGE_SIZE)) * PAGE_SIZE"
  using div_mult_mod_eq [of a 4096] by (simp add: PAGE_SIZE_def page_offset_mod)

lemma unat_div_page: "unat (a div PAGE_SIZE) = unat a div 4096"
  by (simp add: PAGE_SIZE_def unat_div)

lemma low_page_index:
  "low_page a \<Longrightarrow> 0 < unat (a div PAGE_SIZE) \<and> unat (a div PAGE_SIZE) < 1048576"
  unfolding unat_div_page by (auto simp: low_page_def PAGE_SIZE_def word_le_nat_alt word_less_nat_alt)

lemma high_page_index:
  assumes "high_page a"
  shows "unat ((a - 0x100000000) div PAGE_SIZE) < MAX_PAGES"
    and "a = 0x100000000 + of_nat (unat ((a - 0x100000000) div PAGE_SIZE)) * PAGE_SIZE"
proof -
  from assms have a: "0x100000000 \<le> a" "a AND 0xFFF = 0" "unat a < 4294967296 + 8589934592"
    by (auto simp: high_page_def word_less_nat_alt)
  then have u: "unat (a - 0x100000000) = unat a - 4294967296" by (simp add: unat_sub)
  with a show "unat ((a - 0x100000000) div PAGE_SIZE) < MAX_PAGES"
    by (simp add: unat_div_page MAX_PAGES_def)
  have "unat a mod 4096 = 0" using a(2) unat_page_offset [of a] by simp
  moreover have "4294967296 \<le> unat a" using a(1) by (simp add: word_le_nat_alt)
  ultimately have "unat (a - 0x100000000) mod 4096 = 0" using u
    by (simp add: mod_eq_0_iff_dvd dvd_diff_nat)
  then have "(a - 0x100000000) AND 0xFFF = 0" using unat_page_offset [of "a - 0x100000000"]
    by (simp add: unat_eq_0)
  from page_frame [OF this] show "a = 0x100000000 + of_nat (unat ((a - 0x100000000) div PAGE_SIZE)) * PAGE_SIZE"
    by (simp add: algebra_simps)
qed

subsection \<open>Allocation and release on the free sets\<close>

lemmas alloc_defs = pfa_alloc_low_def pfa_alloc_def scan_bytes_least

lemma pfa_free_low:
  assumes "low_page a"
  shows "pfa_free s a =
    (let i = unat (a div PAGE_SIZE) in
     if i \<in> free_frames (low_bits s) then s
     else s\<lparr>low_bits := bitmap_set_free (low_bits s) i,
            low_free_count := low_free_count s + 1,
            low_total_count := low_total_count s + 1\<rparr>)"
proof -
  have "a \<noteq> 0" "a < 0x100000000" using assms by (auto simp: low_page_def PAGE_SIZE_def)
  moreover have "unat (a div PAGE_SIZE) < MAX_PAGES"
    using low_page_index [OF assms] by (simp add: MAX_PAGES_def)
  ultimately show ?thesis by (simp add: pfa_free_def Let_def free_frames_iff)
qed

lemma pfa_free_high:
  assumes "high_page a" "bitmap_base s = 0x100000000"
  shows "pfa_free s a =
    (let i = unat ((a - 0x100000000) div PAGE_SIZE) in
     if i \<in> free_frames (high_bits s) then s
     else s\<lparr>high_bits := bitmap_set_free (high_bits s) i,
            free_pages_count := free_pages_count s + 1,
            total_pages_count := total_pages_count s + 1\<rparr>)"
proof -
  have "a \<noteq> 0" "\<not> a < 0x100000000" using assms(1) by (auto simp: high_page_def)
  with high_page_index(1) [OF assms(1)] assms(2) show ?thesis
    by (simp add: pfa_free_def Let_def free_frames_iff addr_to_index_def)
qed

lemma of_nat_card_remove:
  "free_frames bmap \<noteq> {} \<Longrightarrow>
     of_nat (card (free_frames bmap) - Suc 0) = (of_nat (card (free_frames bmap)) - 1 :: u64)"
  by (simp add: card_gt_0_iff Suc_le_eq of_nat_diff)

lemma Min_free_frames: "free_frames bmap \<noteq> {} \<Longrightarrow> Min (free_frames bmap) \<in> free_frames bmap"
  by (rule Min_in) simp_all

lemma pfa_alloc_low_step:
  assumes "pfa_inv s" "free_frames (low_bits s) \<noteq> {}"
  shows "pfa_inv (snd (pfa_alloc_low s))"
    and "fst (pfa_alloc_low s) \<in> low_frames s"
    and "low_frames (snd (pfa_alloc_low s)) = low_frames s - {fst (pfa_alloc_low s)}"
    and "high_frames (snd (pfa_alloc_low s)) = high_frames s"
proof -
  let ?F = "free_frames (low_bits s)"
  have m: "Min ?F \<in> ?F" using assms(2) by (rule Min_free_frames)
  show "pfa_inv (snd (pfa_alloc_low s))" using assms m
    by (auto simp: pfa_inv_def alloc_defs page_simps of_nat_card_remove)
  show "fst (pfa_alloc_low s) \<in> low_frames s" using assms m by (auto simp: low_frames_def alloc_defs)
  have "inj_on (\<lambda>i. of_nat i * PAGE_SIZE) ?F"
    by (rule inj_onI) (simp add: frame_inj free_frames_def)
  with m have "(\<lambda>i. of_nat i * PAGE_SIZE) ` (?F - {Min ?F}) =
      (\<lambda>i. of_nat i * PAGE_SIZE) ` ?F - {of_nat (Min ?F) * PAGE_SIZE}"
    by (simp add: inj_on_image_set_diff)
  then show "low_frames (snd (pfa_alloc_low s)) = low_frames s - {fst (pfa_alloc_low s)}"
    using assms(2) by (simp add: low_frames_def alloc_defs page_simps)
  show "high_frames (snd (pfa_alloc_low s)) = high_frames s"
    using assms(2) by (simp add: high_frames_def alloc_defs)
qed

lemma pfa_alloc_step:
  assumes "pfa_inv s" "free_frames (high_bits s) \<noteq> {}"
  shows "pfa_inv (snd (pfa_alloc s))"
    and "fst (pfa_alloc s) \<in> high_frames s"
    and "high_frames (snd (pfa_alloc s)) = high_frames s - {fst (pfa_alloc s)}"
    and "low_frames (snd (pfa_alloc s)) = low_frames s"
proof -
  let ?F = "free_frames (high_bits s)"
  let ?f = "\<lambda>i. 0x100000000 + of_nat i * PAGE_SIZE"
  have m: "Min ?F \<in> ?F" using assms(2) by (rule Min_free_frames)
  have base: "bitmap_base s = 0x100000000" using assms(1) by (simp add: pfa_inv_def)
  show "pfa_inv (snd (pfa_alloc s))" using assms m
    by (auto simp: pfa_inv_def alloc_defs page_simps of_nat_card_remove)
  show "fst (pfa_alloc s) \<in> high_frames s" using assms m base by (auto simp: high_frames_def alloc_defs)
  have "inj_on ?f ?F"
    by (rule inj_onI) (simp add: frame_inj free_frames_def)
  with m have "?f ` (?F - {Min ?F}) = ?f ` ?F - {?f (Min ?F)}"
    by (simp add: inj_on_image_set_diff)
  then show "high_frames (snd (pfa_alloc s)) = high_frames s - {fst (pfa_alloc s)}"
    using assms(2) base by (simp add: high_frames_def alloc_defs page_simps)
  show "low_frames (snd (pfa_alloc s)) = low_frames s"
    using assms(2) by (simp add: low_frames_def alloc_defs)
qed

lemma pfa_free_low_step:
  assumes "pfa_inv s" "low_page a"
  shows "pfa_inv (pfa_free s a)" "low_frames (pfa_free s a) = insert a (low_frames s)"
    "high_frames (pfa_free s a) = high_frames s"
proof -
  let ?i = "unat (a div PAGE_SIZE)"
  have i: "0 < ?i" "?i < 1048576" "?i < MAX_PAGES" using low_page_index [OF assms(2)] by (auto simp: MAX_PAGES_def)
  show "pfa_inv (pfa_free s a)" using assms(1) i
    by (auto simp: pfa_free_low [OF assms(2)] pfa_inv_def Let_def page_simps)
  have a: "a = of_nat ?i * PAGE_SIZE" using assms(2) by (intro page_frame) (simp add: low_page_def)
  have "low_frames (pfa_free s a) = insert (of_nat ?i * PAGE_SIZE) (low_frames s)"
    by (auto simp: pfa_free_low [OF assms(2)] low_frames_def Let_def page_simps i(3) intro: rev_image_eqI)
  then show "low_frames (pfa_free s a) = insert a (low_frames s)" by (simp only: a [symmetric])
  show "high_frames (pfa_free s a) = high_frames s"
    by (simp add: pfa_free_low [OF assms(2)] high_frames_def Let_def)
qed

lemma pfa_free_high_step:
  assumes "pfa_inv s" "high_page a"
  shows "pfa_inv (pfa_free s a)" "high_frames (pfa_free s a) = insert a (high_frames s)"
    "low_frames (pfa_free s a) = low_frames s"
proof -
  let ?i = "unat ((a - 0x100000000) div PAGE_SIZE)"
  note i = high_page_index [OF assms(2)]
  have base: "bitmap_base s = 0x100000000" using assms(1) by (simp add: pfa_inv_def)
  note free = pfa_free_high [OF assms(2) base]
  show "pfa_inv (pfa_free s a)" using assms(1) i(1) by (auto simp: free pfa_inv_def Let_def page_simps)
  have "high_frames (pfa_free s a) = insert (0x100000000 + of_nat ?i * PAGE_SIZE) (high_frames s)"
    by (auto simp: free high_frames_def Let_def page_simps i(1) intro: rev_image_eqI)
  then show "high_frames (pfa_free s a) = insert a (high_frames s)" by (simp only: i(2) [symmetric])
  show "low_frames (pfa_free s a) = low_frames s" by (simp add: free low_frames_def Let_def)
qed

subsection \<open>Both allocators meet the contract\<close>

lemma low_frames_zero: "pfa_inv s \<Longrightarrow> 0 \<notin> low_frames s"
proof
  assume inv: "pfa_inv s" and "0 \<in> low_frames s"
  then obtain i where i: "i \<in> free_frames (low_bits s)" "of_nat i * PAGE_SIZE = 0"
    by (auto simp: low_frames_def)
  from inv i(1) have "0 < i" "i < 2 ^ 52" by (auto simp: pfa_inv_def)
  with i(2) unat_frame [of i] show False by simp
qed

lemma low_frames_page: "pfa_inv s \<Longrightarrow> a \<in> low_frames s \<Longrightarrow> low_page a"
proof -
  assume inv: "pfa_inv s" and "a \<in> low_frames s"
  then obtain i where i: "i \<in> free_frames (low_bits s)" "a = of_nat i * PAGE_SIZE"
    by (auto simp: low_frames_def)
  from inv i(1) have b: "0 < i" "i < 1048576" by (auto simp: pfa_inv_def)
  with i(2) have u: "unat a = i * 4096" by (simp add: unat_frame)
  then have "unat (a AND 0xFFF) = 0" by (simp add: unat_page_offset)
  with u b show ?thesis
    by (simp add: low_page_def word_less_nat_alt word_le_nat_alt PAGE_SIZE_def unat_eq_0)
qed

lemma high_frames_page: "a \<in> high_frames s \<Longrightarrow> high_page a"
proof -
  assume "a \<in> high_frames s"
  then obtain i where i: "i < MAX_PAGES" "a = 0x100000000 + of_nat i * PAGE_SIZE"
    by (auto simp: high_frames_def free_frames_def)
  then have u: "unat a = 4294967296 + i * 4096" by (simp add: unat_high_frame)
  have "4294967296 + i * 4096 = (1048576 + i) * 4096" by simp
  then have "unat (a AND 0xFFF) = 0" using u by (metis mod_mult_self2_is_0 unat_page_offset)
  with u i(1) show ?thesis
    by (simp add: high_page_def word_less_nat_alt word_le_nat_alt unat_eq_0 MAX_PAGES_def)
qed

interpretation low: frame_allocator pfa_alloc_low pfa_free low_frames pfa_inv low_page
proof
  fix s :: pfa and a
  show "finite (low_frames s)" by (simp add: low_frames_def)
  show "low_frames s = {} \<Longrightarrow> pfa_alloc_low s = (0, s)" by (auto simp: low_frames_def alloc_defs)
  assume inv: "pfa_inv s"
  show "0 \<notin> low_frames s" using inv by (rule low_frames_zero)
  show "a \<in> low_frames s \<Longrightarrow> low_page a" using inv by (rule low_frames_page)
  show "low_page a \<Longrightarrow> low_frames (pfa_free s a) = insert a (low_frames s) \<and> pfa_inv (pfa_free s a)"
    using pfa_free_low_step [OF inv] by simp
  assume "low_frames s \<noteq> {}"
  then have "free_frames (low_bits s) \<noteq> {}" by (auto simp: low_frames_def)
  from pfa_alloc_low_step [OF inv this]
  show "fst (pfa_alloc_low s) \<in> low_frames s \<and>
      low_frames (snd (pfa_alloc_low s)) = low_frames s - {fst (pfa_alloc_low s)} \<and>
      pfa_inv (snd (pfa_alloc_low s))" by simp
qed

interpretation high: frame_allocator pfa_alloc pfa_free high_frames pfa_inv high_page
proof
  fix s :: pfa and a
  show "finite (high_frames s)" by (simp add: high_frames_def)
  show "high_frames s = {} \<Longrightarrow> pfa_alloc s = (0, s)" by (auto simp: high_frames_def alloc_defs)
  show page: "a \<in> high_frames s \<Longrightarrow> high_page a" for a by (rule high_frames_page)
  assume inv: "pfa_inv s"
  show "0 \<notin> high_frames s" using page [of 0] by (auto simp: high_page_def)
  show "high_page a \<Longrightarrow> high_frames (pfa_free s a) = insert a (high_frames s) \<and> pfa_inv (pfa_free s a)"
    using pfa_free_high_step [OF inv] by simp
  assume "high_frames s \<noteq> {}"
  then have "free_frames (high_bits s) \<noteq> {}" by (auto simp: high_frames_def)
  from pfa_alloc_step [OF inv this]
  show "fst (pfa_alloc s) \<in> high_frames s \<and>
      high_frames (snd (pfa_alloc s)) = high_frames s - {fst (pfa_alloc s)} \<and>
      pfa_inv (snd (pfa_alloc s))" by simp
qed

end
