(* ===== verification/MemInit.thy ===== *)
theory MemInit
  imports PhysMem
begin

text \<open>
  \<open>mm_init\<close> of \<open>core/mm.c\<close>: it places the two bitmaps in the first usable region of the boot
  loader's memory map that has 32 free pages and releases every page of the usable regions
  outside these 32 pages.  The memory map is the list of entries of the response, or \<open>None\<close>
  when the loader gave no response.  The second half follows the allocator from there through
  every sequence of allocations and releases.
\<close>

section \<open>The memory map\<close>

record limine_memmap_entry =
  entry_base :: u64
  entry_length :: u64
  entry_type :: u64

definition usable :: "limine_memmap_entry \<Rightarrow> bool" where
  "usable e \<longleftrightarrow> entry_type e = 0 \<or> entry_type e = 5"

definition first_page :: "limine_memmap_entry \<Rightarrow> u64" where
  "first_page e = (entry_base e + PAGE_SIZE - 1) AND NOT (PAGE_SIZE - 1)"

definition last_page :: "limine_memmap_entry \<Rightarrow> u64" where
  "last_page e = (entry_base e + entry_length e) AND NOT (PAGE_SIZE - 1)"

section \<open>\<open>mm_init\<close>\<close>

text \<open>The pass that looks for room for the bitmaps.\<close>

fun place_bitmaps :: "u64 \<Rightarrow> limine_memmap_entry list \<Rightarrow> u64 \<Rightarrow> u64" where
  "place_bitmaps req_size [] placement = placement"
| "place_bitmaps req_size (e # es) placement =
     (if \<not> usable e then place_bitmaps req_size es placement
      else let region_start = first_page e; region_end = last_page e in
        if region_end > region_start \<and> region_end - region_start \<ge> req_size
        then place_bitmaps req_size es (if placement = 0 then region_start else placement)
        else place_bitmaps req_size es placement)"

fun is_reserved :: "(u64 \<times> u64) list \<Rightarrow> u64 \<Rightarrow> bool" where
  "is_reserved [] p = False"
| "is_reserved ((start, stop) # rs) p =
     (if p < stop \<and> p + PAGE_SIZE > start then True else is_reserved rs p)"

text \<open>The loop over the pages of one region, from its last page down.  With both bounds on page
  boundaries \<open>p > first\<close> implies the second test, which keeps the recursion well-founded
  for other arguments.\<close>

function release_pages :: "(u64 \<times> u64) list \<Rightarrow> u64 \<Rightarrow> u64 \<Rightarrow> pfa \<Rightarrow> pfa" where
  "release_pages reserved first p s =
     (if p > first \<and> PAGE_SIZE \<le> p then
        let p' = p - PAGE_SIZE in
        if p' = 0 then release_pages reserved first p' s
        else if is_reserved reserved p' then release_pages reserved first p' s
        else release_pages reserved first p' (pfa_free s p')
      else s)"
  by pat_completeness auto
termination
  by (relation "measure (\<lambda>(_, _, p, _). unat p)")
    (auto simp: PAGE_SIZE_def word_less_nat_alt word_le_nat_alt unat_sub)

declare release_pages.simps [simp del]

fun release_regions :: "(u64 \<times> u64) list \<Rightarrow> limine_memmap_entry list \<Rightarrow> pfa \<Rightarrow> pfa" where
  "release_regions reserved [] s = s"
| "release_regions reserved (e # es) s =
     (if \<not> usable e then release_regions reserved es s
      else release_regions reserved es (release_pages reserved (first_page e) (last_page e) s))"

definition req_size :: u64 where "req_size = 32 * PAGE_SIZE"

definition mm_init :: "u64 \<Rightarrow> limine_memmap_entry list option \<Rightarrow> pfa \<Rightarrow> pfa" where
  "mm_init hhdm_offset response s =
     (case response of
        None \<Rightarrow> s
      | Some es \<Rightarrow>
          let s = s\<lparr>bitmap_base := 0x100000000\<rparr>;
              placement = place_bitmaps req_size es 0 in
          if placement = 0 then s
          else
            let s = s\<lparr>low_bitmap_at := placement + hhdm_offset,
                      bitmap_at := placement + of_nat BITMAP_SIZE + hhdm_offset,
                      high_bits := (\<lambda>_. 0xFF), low_bits := (\<lambda>_. 0xFF)\<rparr>;
                s = release_regions [(placement, placement + req_size)] es s
            in s\<lparr>next_mmio_addr := 0xFFFFFFFF80000000\<rparr>)"

text \<open>The statics of \<open>mm.c\<close> before \<open>mm_init\<close>.\<close>

definition pfa_boot :: pfa where
  "pfa_boot = \<lparr>low_bits = (\<lambda>_. 0), high_bits = (\<lambda>_. 0), low_bitmap_at = 0, bitmap_at = 0, bitmap_base = 0,
     free_pages_count = 0, total_pages_count = 0, low_free_count = 0, low_total_count = 0,
     next_mmio_addr = 0\<rparr>"

section \<open>Which frames \<open>mm_init\<close> frees\<close>

definition page_aligned :: "u64 \<Rightarrow> bool" where "page_aligned a \<longleftrightarrow> a AND 0xFFF = 0"

lemma page_aligned_unat: "page_aligned a \<longleftrightarrow> unat a mod 4096 = 0"
  using unat_page_offset [of a] by (auto simp: page_aligned_def unat_eq_0)

lemma page_aligned_mask: "page_aligned (a AND NOT (PAGE_SIZE - 1))"
  by (simp add: page_aligned_unat PAGE_SIZE_def unat_page_mask_neg)

lemma page_aligned_bounds [simp]: "page_aligned (first_page e)" "page_aligned (last_page e)"
  by (simp_all add: first_page_def last_page_def page_aligned_mask)

lemma page_aligned_minus:
  assumes "page_aligned p" "PAGE_SIZE \<le> p"
  shows "page_aligned (p - PAGE_SIZE)"
proof -
  have "unat (p - PAGE_SIZE) = unat p - 4096" "4096 \<le> unat p"
    using assms(2) by (simp_all add: PAGE_SIZE_def word_le_nat_alt unat_sub)
  with assms(1) show ?thesis by (simp add: page_aligned_unat mod_eq_0_iff_dvd dvd_diff_nat)
qed

lemma aligned_gap:
  assumes "page_aligned a" "page_aligned p" "a < p"
  shows "PAGE_SIZE \<le> p" "a \<le> p - PAGE_SIZE"
proof -
  from assms obtain k m where km: "unat a = 4096 * k" "unat p = 4096 * m" "k < m"
    by (auto simp: page_aligned_unat mod_eq_0_iff_dvd dvd_def word_less_nat_alt)
  then show *: "PAGE_SIZE \<le> p" by (simp add: PAGE_SIZE_def word_le_nat_alt)
  then have "unat (p - PAGE_SIZE) = 4096 * m - 4096"
    using km by (simp add: PAGE_SIZE_def unat_sub)
  with km show "a \<le> p - PAGE_SIZE" by (simp add: word_le_nat_alt)
qed

lemma high_page_alt: "high_page a \<longleftrightarrow> page_aligned a \<and> 0x100000000 \<le> a \<and> a < 0x300000000"
  by (simp add: high_page_def page_aligned_def)

lemma low_page_alt: "low_page a \<longleftrightarrow> page_aligned a \<and> a \<noteq> 0 \<and> a < 0x100000000"
proof -
  have "PAGE_SIZE \<le> a" if "page_aligned a" "a \<noteq> 0"
    using aligned_gap(1) [of 0 a] that by (simp add: page_aligned_def word_gt_0)
  then show ?thesis by (auto simp: low_page_def page_aligned_def PAGE_SIZE_def)
qed

lemma pfa_free_beyond:
  assumes "page_aligned a" "0x300000000 \<le> a" "bitmap_base s = 0x100000000"
  shows "pfa_free s a = s"
proof -
  have a: "12884901888 \<le> unat a" using assms(2) by (simp add: word_le_nat_alt)
  then have ge: "0x100000000 \<le> a" by (simp add: word_le_nat_alt)
  then have "unat (a - 0x100000000) = unat a - 4294967296" by (simp add: unat_sub)
  then have "MAX_PAGES \<le> unat (addr_to_index s a)"
    using a assms(3) unfolding addr_to_index_def unat_div_page by (simp add: MAX_PAGES_def)
  with ge show ?thesis using assms(3) by (auto simp: pfa_free_def Let_def)
qed

lemma pfa_free_aligned:
  assumes "pfa_inv s" "page_aligned a" "a \<noteq> 0"
  shows "pfa_inv (pfa_free s a)"
    and "low_frames (pfa_free s a) = low_frames s \<union> {b. b = a \<and> low_page b}"
    and "high_frames (pfa_free s a) = high_frames s \<union> {b. b = a \<and> high_page b}"
proof -
  have excl: "low_page a \<Longrightarrow> \<not> high_page a" by (auto simp: low_page_def high_page_def)
  have "low_page a \<or> high_page a \<or> pfa_free s a = s \<and> \<not> low_page a \<and> \<not> high_page a"
  proof -
    consider "a < 0x100000000" | "0x100000000 \<le> a" "a < 0x300000000" | "0x300000000 \<le> a" by (metis not_le)
    then show ?thesis
    proof cases
      case 3
      then have "0x100000000 \<le> a" by (simp add: word_le_nat_alt)
      with 3 show ?thesis using pfa_free_beyond [of a s] assms
        by (simp add: low_page_alt high_page_alt pfa_inv_def leD)
    qed (use assms in \<open>simp_all add: low_page_alt high_page_alt\<close>)
  qed
  then show "pfa_inv (pfa_free s a)"
    "low_frames (pfa_free s a) = low_frames s \<union> {b. b = a \<and> low_page b}"
    "high_frames (pfa_free s a) = high_frames s \<union> {b. b = a \<and> high_page b}"
    using pfa_free_low_step [OF assms(1)] pfa_free_high_step [OF assms(1)] excl assms(1) by auto
qed

definition released :: "(u64 \<times> u64) list \<Rightarrow> u64 \<Rightarrow> u64 \<Rightarrow> u64 set" where
  "released reserved first p =
     {a. page_aligned a \<and> a \<noteq> 0 \<and> first \<le> a \<and> a < p \<and> \<not> is_reserved reserved a}"

lemma released_step:
  assumes "page_aligned first" "page_aligned p" "first < p"
  shows "released reserved first p =
    released reserved first (p - PAGE_SIZE) \<union>
    {a. a = p - PAGE_SIZE \<and> a \<noteq> 0 \<and> \<not> is_reserved reserved a}"
proof -
  note p = aligned_gap [OF assms]
  have "page_aligned (p - PAGE_SIZE)" using assms(2) p(1) by (rule page_aligned_minus)
  moreover have "a < p \<longleftrightarrow> a < p - PAGE_SIZE \<or> a = p - PAGE_SIZE" if "page_aligned a" for a
  proof
    assume "a < p"
    from aligned_gap(2) [OF that assms(2) this] show "a < p - PAGE_SIZE \<or> a = p - PAGE_SIZE" by auto
  next
    have "p - PAGE_SIZE < p" using p(1) by (simp add: PAGE_SIZE_def word_less_nat_alt word_le_nat_alt unat_sub)
    then show "a < p - PAGE_SIZE \<or> a = p - PAGE_SIZE \<Longrightarrow> a < p" by auto
  qed
  ultimately show ?thesis using p(2) by (auto simp: released_def)
qed

lemma release_pages_spec:
  "pfa_inv s \<Longrightarrow> page_aligned first \<Longrightarrow> page_aligned p \<Longrightarrow>
     pfa_inv (release_pages reserved first p s) \<and>
     low_frames (release_pages reserved first p s) = low_frames s \<union> {a \<in> released reserved first p. low_page a} \<and>
     high_frames (release_pages reserved first p s) = high_frames s \<union> {a \<in> released reserved first p. high_page a}"
proof (induction "unat p" arbitrary: p s rule: less_induct)
  case less
  show ?case
  proof (cases "first < p")
    case False
    then have "release_pages reserved first p s = s" "released reserved first p = {}"
      by (simp add: release_pages.simps, auto simp: released_def dest: le_less_trans)
    with less.prems show ?thesis by simp
  next
    case True
    note p = aligned_gap [OF less.prems(2,3) True]
    let ?p = "p - PAGE_SIZE"
    let ?free = "?p \<noteq> 0 \<and> \<not> is_reserved reserved ?p"
    have smaller: "unat ?p < unat p" using p(1) by (simp add: PAGE_SIZE_def word_le_nat_alt unat_sub)
    have al: "page_aligned ?p" using less.prems(3) p(1) by (rule page_aligned_minus)
    define s' where "s' = (if ?free then pfa_free s ?p else s)"
    have step: "release_pages reserved first p s = release_pages reserved first ?p s'"
      using True p(1) by (subst release_pages.simps) (auto simp: s'_def Let_def)
    have s': "pfa_inv s'" "low_frames s' = low_frames s \<union> {b. b = ?p \<and> ?free \<and> low_page b}"
        "high_frames s' = high_frames s \<union> {b. b = ?p \<and> ?free \<and> high_page b}"
      using pfa_free_aligned [OF less.prems(1) al] less.prems(1) by (auto simp: s'_def)
    from less.hyps [OF smaller s'(1) less.prems(2) al]
    show ?thesis unfolding step released_step [OF less.prems(2,3) True] s'(2,3) by auto
  qed
qed

lemma release_regions_spec:
  "pfa_inv s \<Longrightarrow>
     pfa_inv (release_regions reserved es s) \<and>
     low_frames (release_regions reserved es s) = low_frames s \<union>
       {a. low_page a \<and> (\<exists>e \<in> set es. usable e \<and> a \<in> released reserved (first_page e) (last_page e))} \<and>
     high_frames (release_regions reserved es s) = high_frames s \<union>
       {a. high_page a \<and> (\<exists>e \<in> set es. usable e \<and> a \<in> released reserved (first_page e) (last_page e))}"
proof (induction es arbitrary: s)
  case (Cons e es)
  show ?case
  proof (cases "usable e")
    case True
    note r = release_pages_spec [OF Cons.prems, of "first_page e" "last_page e" reserved, simplified]
    from Cons.IH [of "release_pages reserved (first_page e) (last_page e) s"] r True
    show ?thesis by auto
  qed (use Cons in auto)
qed simp

section \<open>The state \<open>mm_init\<close> leaves\<close>

definition placement_of :: "limine_memmap_entry list \<Rightarrow> u64" where
  "placement_of es = place_bitmaps req_size es 0"

definition released_frames :: "limine_memmap_entry list \<Rightarrow> u64 set" where
  "released_frames es =
     {a. page_aligned a \<and> a \<noteq> 0 \<and>
         (\<exists>e \<in> set es. usable e \<and> first_page e \<le> a \<and> a < last_page e) \<and>
         \<not> (a < placement_of es + req_size \<and> placement_of es < a + PAGE_SIZE)}"

lemma full_bitmaps_inv:
  "pfa_inv (pfa_boot\<lparr>bitmap_base := 0x100000000, low_bitmap_at := a, bitmap_at := b,
      high_bits := (\<lambda>_. 0xFF), low_bits := (\<lambda>_. 0xFF)\<rparr>)"
  by (simp add: pfa_inv_def pfa_boot_def free_frames_full)

lemma pfa_free_at [frame_simps]:
  "low_bitmap_at (pfa_free s a) = low_bitmap_at s" "bitmap_at (pfa_free s a) = bitmap_at s"
  by (simp_all add: pfa_free_def Let_def)

lemma release_pages_at [frame_simps]:
  "low_bitmap_at (release_pages r first p s) = low_bitmap_at s \<and> bitmap_at (release_pages r first p s) = bitmap_at s"
proof (induction r first p s rule: release_pages.induct)
  case (1 reserved first p s)
  then show ?case by (subst (1 2) release_pages.simps) (simp add: frame_simps Let_def)
qed

lemma release_regions_at [frame_simps]:
  "low_bitmap_at (release_regions r es s) = low_bitmap_at s \<and> bitmap_at (release_regions r es s) = bitmap_at s"
  by (induction es arbitrary: s) (simp_all add: frame_simps)

lemma mm_init_state:
  fixes hhdm :: u64
  assumes "placement_of es \<noteq> 0"
  defines "s \<equiv> mm_init hhdm (Some es) pfa_boot"
  shows "pfa_inv s"
    and "low_frames s = {a \<in> released_frames es. low_page a}"
    and "high_frames s = {a \<in> released_frames es. high_page a}"
    and "low_bitmap_at s = placement_of es + hhdm"
    and "bitmap_at s = placement_of es + of_nat BITMAP_SIZE + hhdm"
proof -
  let ?s0 = "pfa_boot\<lparr>bitmap_base := 0x100000000, low_bitmap_at := placement_of es + hhdm,
      bitmap_at := placement_of es + of_nat BITMAP_SIZE + hhdm, high_bits := (\<lambda>_. 0xFF), low_bits := (\<lambda>_. 0xFF)\<rparr>"
  let ?r = "[(placement_of es, placement_of es + req_size)]"
  have s: "s = release_regions ?r es ?s0\<lparr>next_mmio_addr := 0xFFFFFFFF80000000\<rparr>"
    using assms by (simp add: s_def mm_init_def placement_of_def Let_def)
  note spec = release_regions_spec [OF full_bitmaps_inv [where a = "placement_of es + hhdm"
    and b = "placement_of es + of_nat BITMAP_SIZE + hhdm"], of ?r es]
  have empty: "low_frames ?s0 = {}" "high_frames ?s0 = {}"
    by (simp_all add: low_frames_def high_frames_def free_frames_full)
  show "pfa_inv s" using spec unfolding s by (simp add: pfa_inv_def)
  have rel: "(\<exists>e \<in> set es. usable e \<and> a \<in> released ?r (first_page e) (last_page e)) \<longleftrightarrow> a \<in> released_frames es" for a
    by (auto simp: released_def released_frames_def)
  show "low_frames s = {a \<in> released_frames es. low_page a}"
    using spec unfolding s empty rel by (auto simp: low_frames_def)
  show "high_frames s = {a \<in> released_frames es. high_page a}"
    using spec unfolding s empty rel by (auto simp: high_frames_def)
  show "low_bitmap_at s = placement_of es + hhdm" "bitmap_at s = placement_of es + of_nat BITMAP_SIZE + hhdm"
    unfolding s by (simp_all add: frame_simps)
qed

section \<open>The allocator in use\<close>

text \<open>The bitmaps are bytes of the memory the allocator hands out.  \<open>custom_memset\<close> of \<open>n\<close> bytes from the virtual
  address \<open>p\<close> on, as far as it meets them.\<close>

definition mm_memset :: "u64 \<Rightarrow> u8 \<Rightarrow> nat \<Rightarrow> pfa \<Rightarrow> pfa" where
  "mm_memset p c n s =
     s\<lparr>low_bits := (\<lambda>k. if k < BITMAP_SIZE \<and> unat (low_bitmap_at s + of_nat k - p) < n then c else low_bits s k),
       high_bits := (\<lambda>k. if k < BITMAP_SIZE \<and> unat (bitmap_at s + of_nat k - p) < n then c else high_bits s k)\<rparr>"

definition frame_virt :: "u64 \<Rightarrow> u64 \<Rightarrow> u64" where "frame_virt hhdm paddr = paddr + hhdm"

text \<open>One step of the callers, with the frames they hold and those they have written to: an allocation hands
  out a frame, a caller releases a frame it holds, or fills a part of one through the direct map.\<close>

inductive mm_step :: "u64 \<Rightarrow> pfa \<times> u64 set \<times> u64 set \<Rightarrow> pfa \<times> u64 set \<times> u64 set \<Rightarrow> bool" for hhdm where
  alloc_low: "pfa_alloc_low s = (a, s') \<Longrightarrow> mm_step hhdm (s, owned, wr) (s', if a = 0 then owned else insert a owned, wr)"
| alloc_high: "pfa_alloc s = (a, s') \<Longrightarrow> mm_step hhdm (s, owned, wr) (s', if a = 0 then owned else insert a owned, wr)"
| release: "a \<in> owned \<Longrightarrow> mm_step hhdm (s, owned, wr) (pfa_free s a, owned - {a}, wr)"
| fill: "a \<in> owned \<Longrightarrow> off + n \<le> 4096 \<Longrightarrow>
    mm_step hhdm (s, owned, wr) (mm_memset (frame_virt hhdm a + of_nat off) c n s, owned, insert a wr)"

inductive_cases mm_stepE: "mm_step hhdm (s, owned, wr) t"

inductive mm_reachable :: "u64 \<Rightarrow> limine_memmap_entry list \<Rightarrow> pfa \<times> u64 set \<times> u64 set \<Rightarrow> bool" for hhdm es where
  boot: "mm_reachable hhdm es (mm_init hhdm (Some es) pfa_boot, {}, {})"
| step: "mm_reachable hhdm es t \<Longrightarrow> mm_step hhdm t u \<Longrightarrow> mm_reachable hhdm es u"

text \<open>The frames with bytes of the bitmaps.\<close>

definition bitmap_frames :: "limine_memmap_entry list \<Rightarrow> u64 set" where
  "bitmap_frames es = {a. \<exists>k < 2 * BITMAP_SIZE. unat (placement_of es + of_nat k - a) < 4096}"

definition all_frames :: "pfa \<Rightarrow> u64 set" where "all_frames s = low_frames s \<union> high_frames s"

definition mm_conserved :: "u64 \<Rightarrow> limine_memmap_entry list \<Rightarrow> u64 set \<Rightarrow> pfa \<times> u64 set \<times> u64 set \<Rightarrow> bool" where
  "mm_conserved hhdm es F t \<longleftrightarrow>
     (case t of (s, owned, wr) \<Rightarrow>
        pfa_inv s \<and> owned \<inter> all_frames s = {} \<and> owned \<union> all_frames s = F \<and>
        low_bitmap_at s = placement_of es + hhdm \<and> bitmap_at s = placement_of es + of_nat BITMAP_SIZE + hhdm)"

lemma alloc_at [frame_simps]:
  "pfa_alloc_low s = (a, s') \<Longrightarrow> low_bitmap_at s' = low_bitmap_at s \<and> bitmap_at s' = bitmap_at s"
  "pfa_alloc s = (a, s') \<Longrightarrow> low_bitmap_at s' = low_bitmap_at s \<and> bitmap_at s' = bitmap_at s"
  by (auto simp: pfa_alloc_low_def pfa_alloc_def split: option.splits)

text \<open>A store to a frame without bytes of the bitmaps does not meet them.\<close>

lemma far_bytes:
  assumes "a \<notin> bitmap_frames es" "off + n \<le> 4096" "k < 2 * BITMAP_SIZE"
  shows "\<not> unat (placement_of es + of_nat k + hhdm - (frame_virt hhdm a + of_nat off)) < n"
proof -
  let ?d = "placement_of es + of_nat k - a"
  have "\<not> unat ?d < 4096" using assms(1,3) unfolding bitmap_frames_def by blast
  then have d: "4096 \<le> unat ?d" by simp
  have o: "unat (of_nat off :: u64) = off" using assms(2) by (intro unat_of_nat_small) simp
  then have "(of_nat off :: u64) \<le> ?d" using d assms(2) by (simp add: word_le_nat_alt)
  then have "unat (?d - of_nat off) = unat ?d - off" by (simp add: unat_sub o)
  moreover have eq: "placement_of es + of_nat k + hhdm - (frame_virt hhdm a + of_nat off) = ?d - of_nat off"
    by (simp add: frame_virt_def)
  ultimately show ?thesis using d assms(2) unfolding eq by simp
qed

lemma memset_elsewhere:
  assumes "a \<notin> bitmap_frames es" "off + n \<le> 4096"
    and "low_bitmap_at s = placement_of es + hhdm" "bitmap_at s = placement_of es + of_nat BITMAP_SIZE + hhdm"
  shows "mm_memset (frame_virt hhdm a + of_nat off) c n s = s"
proof -
  have low: "\<not> unat (low_bitmap_at s + of_nat k - (frame_virt hhdm a + of_nat off)) < n" if "k < BITMAP_SIZE" for k
    using far_bytes [OF assms(1,2), of k hhdm] that by (simp add: assms(3) algebra_simps)
  have high: "\<not> unat (bitmap_at s + of_nat k - (frame_virt hhdm a + of_nat off)) < n" if "k < BITMAP_SIZE" for k
    using far_bytes [OF assms(1,2), of "BITMAP_SIZE + k" hhdm] that by (simp add: assms(4) algebra_simps)
  have "(\<lambda>k. if k < BITMAP_SIZE \<and> unat (low_bitmap_at s + of_nat k - (frame_virt hhdm a + of_nat off)) < n then c else low_bits s k) = low_bits s"
    "(\<lambda>k. if k < BITMAP_SIZE \<and> unat (bitmap_at s + of_nat k - (frame_virt hhdm a + of_nat off)) < n then c else high_bits s k) = high_bits s"
    using low high by (auto simp: fun_eq_iff)
  then show ?thesis by (simp add: mm_memset_def)
qed

lemma low_high_disjoint: "pfa_inv s \<Longrightarrow> a \<in> low_frames s \<Longrightarrow> b \<in> high_frames s \<Longrightarrow> a \<noteq> b"
  using low_frames_page [of s a] high_frames_page [of b s] by (auto simp: low_page_def high_page_def)

lemma low_high_Int: "pfa_inv s \<Longrightarrow> low_frames s \<inter> high_frames s = {}"
  using low_high_disjoint by blast

lemma alloc_low_frames:
  assumes "pfa_inv s" "pfa_alloc_low s = (a, s')"
  shows "pfa_inv s'" and "a = 0 \<longrightarrow> all_frames s' = all_frames s"
    and "a \<noteq> 0 \<longrightarrow> a \<in> all_frames s \<and> all_frames s' = all_frames s - {a}"
proof -
  show "pfa_inv s'" using low.alloc_inv [OF assms(1)] assms(2) by simp
  have z: "a = 0 \<longleftrightarrow> low_frames s = {}" using low.alloc_zero_iff [OF assms(1)] assms(2) by simp
  show "a = 0 \<longrightarrow> all_frames s' = all_frames s" using z low.alloc_none [of s] assms(2) by auto
  have "a \<in> low_frames s \<and> low_frames s' = low_frames s - {a} \<and> high_frames s' = high_frames s" if "a \<noteq> 0"
  proof -
    from that z have "free_frames (low_bits s) \<noteq> {}" by (auto simp: low_frames_def)
    from pfa_alloc_low_step [OF assms(1) this] assms(2) show ?thesis by simp
  qed
  then show "a \<noteq> 0 \<longrightarrow> a \<in> all_frames s \<and> all_frames s' = all_frames s - {a}"
    using low_high_disjoint [OF assms(1)] by (auto simp: all_frames_def)
qed

lemma alloc_high_frames:
  assumes "pfa_inv s" "pfa_alloc s = (a, s')"
  shows "pfa_inv s'" and "a = 0 \<longrightarrow> all_frames s' = all_frames s"
    and "a \<noteq> 0 \<longrightarrow> a \<in> all_frames s \<and> all_frames s' = all_frames s - {a}"
proof -
  show "pfa_inv s'" using high.alloc_inv [OF assms(1)] assms(2) by simp
  have z: "a = 0 \<longleftrightarrow> high_frames s = {}" using high.alloc_zero_iff [OF assms(1)] assms(2) by simp
  show "a = 0 \<longrightarrow> all_frames s' = all_frames s" using z high.alloc_none [of s] assms(2) by auto
  have "a \<in> high_frames s \<and> high_frames s' = high_frames s - {a} \<and> low_frames s' = low_frames s" if "a \<noteq> 0"
  proof -
    from that z have "free_frames (high_bits s) \<noteq> {}" by (auto simp: high_frames_def)
    from pfa_alloc_step [OF assms(1) this] assms(2) show ?thesis by simp
  qed
  then show "a \<noteq> 0 \<longrightarrow> a \<in> all_frames s \<and> all_frames s' = all_frames s - {a}"
    using low_high_disjoint [OF assms(1)] by (auto simp: all_frames_def)
qed

lemma free_all_frames:
  assumes "pfa_inv s" "low_page a \<or> high_page a"
  shows "pfa_inv (pfa_free s a)" "all_frames (pfa_free s a) = insert a (all_frames s)"
proof -
  show "pfa_inv (pfa_free s a)"
    using assms pfa_free_low_step(1) pfa_free_high_step(1) by blast
  have "low_frames (pfa_free s a) = insert a (low_frames s) \<and> high_frames (pfa_free s a) = high_frames s \<or>
        high_frames (pfa_free s a) = insert a (high_frames s) \<and> low_frames (pfa_free s a) = low_frames s"
    using assms pfa_free_low_step(2,3) pfa_free_high_step(2,3) by blast
  then show "all_frames (pfa_free s a) = insert a (all_frames s)" unfolding all_frames_def by auto
qed

lemma mm_step_conserved:
  assumes "mm_conserved hhdm es F (s, owned, wr)" "mm_step hhdm (s, owned, wr) u" "\<forall>a\<in>F. low_page a \<or> high_page a"
    and "snd (snd u) \<inter> bitmap_frames es = {}"
  shows "mm_conserved hhdm es F u"
proof -
  note c = assms(1) [unfolded mm_conserved_def, simplified]
  then have inv: "pfa_inv s" by blast
  from assms(2) show ?thesis
  proof (rule mm_stepE)
    fix a s'
    assume *: "pfa_alloc_low s = (a, s')" and u: "u = (s', if a = 0 then owned else insert a owned, wr)"
    show ?thesis unfolding u using alloc_low_frames [OF inv *] alloc_at(1) [OF *] c by (auto simp: mm_conserved_def)
  next
    fix a s'
    assume *: "pfa_alloc s = (a, s')" and u: "u = (s', if a = 0 then owned else insert a owned, wr)"
    show ?thesis unfolding u using alloc_high_frames [OF inv *] alloc_at(2) [OF *] c by (auto simp: mm_conserved_def)
  next
    fix a
    assume a: "a \<in> owned" and u: "u = (pfa_free s a, owned - {a}, wr)"
    then have "low_page a \<or> high_page a" using assms(3) c by blast
    from free_all_frames [OF inv this] a c show ?thesis unfolding u by (auto simp: mm_conserved_def frame_simps)
  next
    fix a off n k
    assume a: "a \<in> owned" "off + n \<le> 4096" and u: "u = (mm_memset (frame_virt hhdm a + of_nat off) k n s, owned, insert a wr)"
    then have "a \<notin> bitmap_frames es" using assms(4) by auto
    then have "mm_memset (frame_virt hhdm a + of_nat off) k n s = s" using a(2) c by (intro memset_elsewhere) auto
    then show ?thesis using assms(1) unfolding u by (simp add: mm_conserved_def)
  qed
qed

lemma mm_reachable_conserved:
  assumes "mm_reachable hhdm es t" "placement_of es \<noteq> 0" "snd (snd t) \<inter> bitmap_frames es = {}"
  shows "mm_conserved hhdm es {a \<in> released_frames es. low_page a \<or> high_page a} t"
  using assms(1,3)
proof induction
  case boot
  show ?case using mm_init_state [OF assms(2), of hhdm] by (auto simp: mm_conserved_def all_frames_def)
next
  case (step t u)
  obtain s owned wr where t: "t = (s, owned, wr)" by (cases t)
  have "snd (snd t) \<subseteq> snd (snd u)" using step.hyps(2) unfolding t by (auto elim!: mm_stepE)
  then have "mm_conserved hhdm es {a \<in> released_frames es. low_page a \<or> high_page a} t" using step.IH step.prems by blast
  then show ?case using mm_step_conserved [of hhdm es _ s owned wr u] step.hyps(2) step.prems unfolding t by simp
qed

lemma card_all_frames:
  assumes "pfa_inv s"
  shows "card (all_frames s) = card (free_frames (low_bits s)) + card (free_frames (high_bits s))"
proof -
  have "card (low_frames s) = card (free_frames (low_bits s))"
    unfolding low_frames_def by (intro card_image inj_onI) (simp add: frame_inj free_frames_def)
  moreover have "card (high_frames s) = card (free_frames (high_bits s))"
    unfolding high_frames_def by (intro card_image inj_onI) (simp add: frame_inj free_frames_def)
  ultimately show ?thesis unfolding all_frames_def
    using low_high_Int [OF assms] low.frames_finite [of s] high.frames_finite [of s]
    by (simp add: card_Un_disjoint)
qed

lemma low_least:
  assumes "pfa_inv s" "b \<in> low_frames s"
  shows "fst (pfa_alloc_low s) \<le> b"
proof -
  obtain i where i: "i \<in> free_frames (low_bits s)" "b = of_nat i * PAGE_SIZE"
    using assms(2) by (auto simp: low_frames_def)
  let ?m = "Min (free_frames (low_bits s))"
  have "?m \<in> free_frames (low_bits s)" by (rule Min_free_frames) (use i in blast)
  then have m: "?m \<le> i" "?m \<in> free_frames (low_bits s)" using i by simp_all
  have "i < 2 ^ 52" "?m < 2 ^ 52" using i(1) m(2) by (auto simp: free_frames_def MAX_PAGES_def)
  then have "of_nat ?m * PAGE_SIZE \<le> b" using m(1) i(2) by (simp add: word_le_nat_alt unat_frame)
  then show ?thesis using i(1) by (auto simp: alloc_defs)
qed

section \<open>Properties\<close>

text \<open>C34. After \<open>mm_init\<close> the free low and high frames are exactly the pages other than page 0
  that lie in a usable region (usable RAM or reclaimable loader memory, its ends rounded to pages) and do not
  touch the 32 pages from the bitmaps on, and the two free counters are the numbers of
  these frames.\<close>

theorem mm_init_frees_usable_pages:
  assumes "placement_of es \<noteq> 0"
  shows "let s = mm_init hhdm (Some es) pfa_boot;
             F = {a. a AND 0xFFF = 0 \<and> a \<noteq> 0 \<and>
                     (\<exists>e \<in> set es. usable e \<and> first_page e \<le> a \<and> a < last_page e) \<and>
                     \<not> (a < placement_of es + req_size \<and> placement_of es < a + PAGE_SIZE)}
         in low_frames s = {a \<in> F. a < 0x100000000} \<and>
            high_frames s = {a \<in> F. 0x100000000 \<le> a \<and> a < 0x300000000} \<and>
            pfa_inv s"
proof -
  note s = mm_init_state [OF assms, of hhdm]
  have "{a \<in> released_frames es. low_page a} = {a \<in> released_frames es. a < 0x100000000}"
    "{a \<in> released_frames es. high_page a} = {a \<in> released_frames es. 0x100000000 \<le> a \<and> a < 0x300000000}"
    by (auto simp: low_page_alt high_page_alt released_frames_def)
  with s(1,2,3) show ?thesis by (simp add: Let_def released_frames_def page_aligned_def)
qed

definition demo_map :: "limine_memmap_entry list" where
  "demo_map = [\<lparr>entry_base = 0, entry_length = 0x9F000, entry_type = 1\<rparr>,
               \<lparr>entry_base = 0x100000, entry_length = 0x4000000, entry_type = 0\<rparr>]"

lemma demo_map_facts:
  "placement_of demo_map = 0x100000" "first_page (demo_map ! 1) = 0x100000" "last_page (demo_map ! 1) = 0x4100000"
  "usable (demo_map ! 1)" "demo_map ! 1 \<in> set demo_map" "\<not> usable (demo_map ! 0)"
  by (simp_all add: placement_of_def demo_map_def usable_def first_page_def last_page_def PAGE_SIZE_def req_size_def Let_def)

theorem mm_init_frees_usable_pages_witness:
  "pfa_inv (mm_init 0xFFFF800000000000 (Some demo_map) pfa_boot)"
  using mm_init_frees_usable_pages [of demo_map "0xFFFF800000000000"] demo_map_facts by (simp add: Let_def)

text \<open>C7. From the boot on, in every sequence of \<open>pfa_alloc_low\<close>, \<open>pfa_alloc\<close>, \<open>pfa_free\<close> of frames the
  callers hold and stores of the callers to frames they hold, as long as none of the frames they have written to holds bytes of the bitmaps:
  no frame a caller holds is free (so none is handed out twice), no frame is lost, and the two
  counters add up to the number of free frames.  The condition on the stores is needed, since \<open>mm_init\<close> releases frames with bytes of the bitmaps:
  \<open>held_frame_handed_out_again\<close> below.\<close>

theorem mm_frames_conserved:
  assumes "mm_reachable hhdm es (s, owned, wr)" "placement_of es \<noteq> 0" "wr \<inter> bitmap_frames es = {}"
  shows "owned \<inter> all_frames s = {} \<and>
    owned \<union> all_frames s = all_frames (mm_init hhdm (Some es) pfa_boot) \<and>
    free_pages_count s + low_free_count s = of_nat (card (all_frames s))"
proof -
  have c: "mm_conserved hhdm es {a \<in> released_frames es. low_page a \<or> high_page a} (s, owned, wr)"
    using assms by (intro mm_reachable_conserved) simp_all
  then have inv: "pfa_inv s" by (simp add: mm_conserved_def)
  moreover have "owned \<union> all_frames s = all_frames (mm_init hhdm (Some es) pfa_boot)"
    using c mm_init_state [OF assms(2), of hhdm] by (auto simp: mm_conserved_def all_frames_def)
  ultimately show ?thesis
    using c card_all_frames [OF inv] by (simp add: pfa_inv_def mm_conserved_def)
qed

lemma demo_low_frame: "0x120000 \<in> low_frames (mm_init hhdm (Some demo_map) pfa_boot)"
proof -
  have "page_aligned 0x120000" "low_page 0x120000" by (simp_all add: page_aligned_def low_page_def PAGE_SIZE_def)
  moreover have "0x120000 \<in> released_frames demo_map"
    unfolding released_frames_def mem_Collect_eq
    using demo_map_facts by (auto simp: page_aligned_def req_size_def PAGE_SIZE_def intro!: bexI [of _ "demo_map ! 1"])
  ultimately show ?thesis using mm_init_state(2) [of demo_map hhdm] demo_map_facts by simp
qed

text \<open>A memory map with four usable pages before the region that takes the bitmaps: the first frame handed out is
  filled by its holder, and is not free afterwards.\<close>

definition demo_map2 :: "limine_memmap_entry list" where
  "demo_map2 = [\<lparr>entry_base = 0x1000, entry_length = 0x4000, entry_type = 0\<rparr>,
                \<lparr>entry_base = 0x100000, entry_length = 0x4000000, entry_type = 0\<rparr>]"

lemma demo_map2_facts:
  "placement_of demo_map2 = 0x100000" "first_page (demo_map2 ! 0) = 0x1000" "last_page (demo_map2 ! 0) = 0x5000"
  "usable (demo_map2 ! 0)" "demo_map2 ! 0 \<in> set demo_map2"
  by (simp_all add: placement_of_def demo_map2_def usable_def first_page_def last_page_def PAGE_SIZE_def req_size_def Let_def)

lemma demo_map2_first:
  "fst (pfa_alloc_low (mm_init hhdm (Some demo_map2) pfa_boot)) = 0x1000" "0x1000 \<notin> bitmap_frames demo_map2"
proof -
  let ?s = "mm_init hhdm (Some demo_map2) pfa_boot"
  have inv: "pfa_inv ?s" using mm_init_state(1) [of demo_map2 hhdm] demo_map2_facts by simp
  have "page_aligned 0x1000" "low_page 0x1000" by (simp_all add: page_aligned_def low_page_def PAGE_SIZE_def)
  moreover have "0x1000 \<in> released_frames demo_map2"
    unfolding released_frames_def mem_Collect_eq
    using demo_map2_facts by (auto simp: page_aligned_def req_size_def PAGE_SIZE_def intro!: bexI [of _ "demo_map2 ! 0"])
  ultimately have m: "0x1000 \<in> low_frames ?s" using mm_init_state(2) [of demo_map2 hhdm] demo_map2_facts by simp
  have "fst (pfa_alloc_low ?s) \<in> low_frames ?s"
    using pfa_alloc_low_step(2) [OF inv] m by (auto simp: low_frames_def)
  then have "PAGE_SIZE \<le> fst (pfa_alloc_low ?s)" using low_frames_page [OF inv] by (simp add: low_page_def)
  then show "fst (pfa_alloc_low ?s) = 0x1000" using low_least [OF inv m] by (simp add: PAGE_SIZE_def)
  have "\<not> unat (0x100000 + of_nat k - 0x1000 :: u64) < 4096" if "k < 524288" for k
  proof -
    have "0x100000 + of_nat k - 0x1000 = (of_nat (0xFF000 + k) :: u64)" by simp
    moreover have "unat (of_nat (0xFF000 + k) :: u64) = 0xFF000 + k" using that by (intro unat_of_nat_small) simp
    ultimately show ?thesis by (simp only:)
  qed
  then show "0x1000 \<notin> bitmap_frames demo_map2"
    by (auto simp: bitmap_frames_def demo_map2_facts BITMAP_SIZE_def MAX_PAGES_def)
qed

theorem mm_frames_conserved_witness:
  "let s = snd (pfa_alloc_low (mm_init 0 (Some demo_map2) pfa_boot)); s' = mm_memset 0x1000 0 4096 s
   in 0x1000 \<notin> all_frames s' \<and> free_pages_count s' + low_free_count s' = of_nat (card (all_frames s'))"
proof -
  let ?s = "snd (pfa_alloc_low (mm_init 0 (Some demo_map2) pfa_boot))"
  have "mm_reachable 0 demo_map2 (?s, {0x1000}, {})"
    using mm_reachable.step [OF mm_reachable.boot, of 0 demo_map2]
      mm_step.alloc_low [OF surjective_pairing, of 0 "mm_init 0 (Some demo_map2) pfa_boot" "{}" "{}"] demo_map2_first(1) [of 0] by simp
  from mm_reachable.step [OF this mm_step.fill [of "0x1000" _ 0 4096 0 _ _ 0]]
  have "mm_reachable 0 demo_map2 (mm_memset 0x1000 0 4096 ?s, {0x1000}, {0x1000})" by (simp add: frame_virt_def)
  from mm_frames_conserved [OF this] demo_map2_first(2) demo_map2_facts(1)
  show ?thesis by (simp add: Let_def)
qed

text \<open>A free frame is handed out after some number of allocations, while the callers keep what they hold.\<close>

lemma high_frame_comes:
  assumes "mm_reachable hhdm es (s, owned, wr)" "i \<in> free_frames (high_bits s)" "bitmap_base s = 0x100000000"
  shows "\<exists>s' owned'. mm_reachable hhdm es (s', owned', wr) \<and> owned \<subseteq> owned' \<and> fst (pfa_alloc s') = 0x100000000 + of_nat i * PAGE_SIZE \<and>
    bitmap_base s' = 0x100000000 \<and> low_bits s' = low_bits s \<and> low_bitmap_at s' = low_bitmap_at s \<and> bitmap_at s' = bitmap_at s"
  using assms
proof (induction "card (free_frames (high_bits s))" arbitrary: s owned rule: less_induct)
  case less
  let ?m = "Min (free_frames (high_bits s))"
  have ne: "free_frames (high_bits s) \<noteq> {}" using less.prems(2) by blast
  note m = Min_free_frames [OF ne]
  let ?s = "s\<lparr>high_bits := bitmap_set_used (high_bits s) ?m, free_pages_count := free_pages_count s - 1\<rparr>"
  let ?a = "0x100000000 + of_nat ?m * PAGE_SIZE"
  have run: "pfa_alloc s = (?a, ?s)" using ne less.prems(3) by (simp add: alloc_defs)
  show ?case
  proof (cases "i = ?m")
    case True
    then show ?thesis using less.prems run by (intro exI [of _ s] exI [of _ owned]) simp
  next
    case False
    have "mm_reachable hhdm es (?s, if ?a = 0 then owned else insert ?a owned, wr)"
      using mm_reachable.step [OF less.prems(1) mm_step.alloc_high [OF run]] .
    moreover have fr: "free_frames (high_bits ?s) = free_frames (high_bits s) - {?m}" by (simp add: page_simps)
    then have "card (free_frames (high_bits ?s)) < card (free_frames (high_bits s))" "i \<in> free_frames (high_bits ?s)"
      using card_Diff1_less [OF finite_free_frames m] m False less.prems(2) by (simp_all del: card_Diff_insert)
    moreover have "bitmap_base ?s = 0x100000000" using less.prems(3) by simp
    ultimately obtain s' owned' where s': "mm_reachable hhdm es (s', owned', wr)" "(if ?a = 0 then owned else insert ?a owned) \<subseteq> owned'"
      "fst (pfa_alloc s') = 0x100000000 + of_nat i * PAGE_SIZE" "bitmap_base s' = 0x100000000" "low_bits s' = low_bits ?s"
      "low_bitmap_at s' = low_bitmap_at ?s" "bitmap_at s' = bitmap_at ?s"
      using less.hyps [of ?s "if ?a = 0 then owned else insert ?a owned"] by blast
    then have "owned \<subseteq> owned'" by (auto split: if_splits)
    then show ?thesis using s' by (intro exI [of _ s'] exI [of _ owned']) simp
  qed
qed

lemma low_frame_comes:
  assumes "mm_reachable hhdm es (s, owned, wr)" "i \<in> free_frames (low_bits s)"
  shows "\<exists>s' owned'. mm_reachable hhdm es (s', owned', wr) \<and> owned \<subseteq> owned' \<and> fst (pfa_alloc_low s') = of_nat i * PAGE_SIZE \<and>
    bitmap_base s' = bitmap_base s \<and> high_bits s' = high_bits s \<and> low_bitmap_at s' = low_bitmap_at s \<and> bitmap_at s' = bitmap_at s"
  using assms
proof (induction "card (free_frames (low_bits s))" arbitrary: s owned rule: less_induct)
  case less
  let ?m = "Min (free_frames (low_bits s))"
  have ne: "free_frames (low_bits s) \<noteq> {}" using less.prems(2) by blast
  note m = Min_free_frames [OF ne]
  let ?s = "s\<lparr>low_bits := bitmap_set_used (low_bits s) ?m, low_free_count := low_free_count s - 1\<rparr>"
  let ?a = "of_nat ?m * PAGE_SIZE"
  have run: "pfa_alloc_low s = (?a, ?s)" using ne by (simp add: alloc_defs)
  show ?case
  proof (cases "i = ?m")
    case True
    then show ?thesis using less.prems run by (intro exI [of _ s] exI [of _ owned]) simp
  next
    case False
    have "mm_reachable hhdm es (?s, if ?a = 0 then owned else insert ?a owned, wr)"
      using mm_reachable.step [OF less.prems(1) mm_step.alloc_low [OF run]] .
    moreover have fr: "free_frames (low_bits ?s) = free_frames (low_bits s) - {?m}" by (simp add: page_simps)
    then have "card (free_frames (low_bits ?s)) < card (free_frames (low_bits s))" "i \<in> free_frames (low_bits ?s)"
      using card_Diff1_less [OF finite_free_frames m] m False less.prems(2) by (simp_all del: card_Diff_insert)
    ultimately obtain s' owned' where s': "mm_reachable hhdm es (s', owned', wr)" "(if ?a = 0 then owned else insert ?a owned) \<subseteq> owned'"
      "fst (pfa_alloc_low s') = of_nat i * PAGE_SIZE" "bitmap_base s' = bitmap_base ?s" "high_bits s' = high_bits ?s"
      "low_bitmap_at s' = low_bitmap_at ?s" "bitmap_at s' = bitmap_at ?s"
      using less.hyps [of ?s "if ?a = 0 then owned else insert ?a owned"] by blast
    then have "owned \<subseteq> owned'" by (auto split: if_splits)
    then show ?thesis using s' by (intro exI [of _ s'] exI [of _ owned']) simp
  qed
qed

text \<open>Once a frame with bytes of the main bitmap has been handed out and cleared, as \<open>map_page\<close> clears each new table, a frame
  from 4 GiB up that a caller still holds is handed out a second time.\<close>

theorem held_frame_handed_out_again:
  assumes "placement_of es \<noteq> 0" "i < MAX_PAGES" "j < MAX_PAGES"
    and "0x100000000 + of_nat i * PAGE_SIZE \<in> high_frames (mm_init hhdm (Some es) pfa_boot)"
    and "of_nat j * PAGE_SIZE \<in> low_frames (mm_init hhdm (Some es) pfa_boot)"
    and "unat (placement_of es + of_nat (BITMAP_SIZE + i div 8) - of_nat j * PAGE_SIZE) < 4096"
  shows "\<exists>s owned wr. mm_reachable hhdm es (s, owned, wr) \<and> 0x100000000 + of_nat i * PAGE_SIZE \<in> owned \<and>
    fst (pfa_alloc s) = 0x100000000 + of_nat i * PAGE_SIZE"
proof -
  let ?s0 = "mm_init hhdm (Some es) pfa_boot" and ?h = "0x100000000 + of_nat i * PAGE_SIZE :: u64" and ?p = "of_nat j * PAGE_SIZE :: u64"
  note st = mm_init_state [OF assms(1), of hhdm]
  have base: "bitmap_base ?s0 = 0x100000000" using st(1) by (simp add: pfa_inv_def)
  have fi: "i \<in> free_frames (high_bits ?s0)"
    using assms(2,4) by (auto simp: high_frames_def frame_inj free_frames_def)
  have fj: "j \<in> free_frames (low_bits ?s0)"
    using assms(3,5) by (auto simp: low_frames_def frame_inj free_frames_def)
  have "0 < i * 4096 + 4294967296" by simp
  then have h0: "?h \<noteq> 0" using unat_high_frame [OF assms(2)] by (metis add.commute unat_0 less_irrefl)
  have p0: "?p \<noteq> 0" using assms(5) low_frames_zero [OF st(1)] by metis
  obtain s1 o1 where 1: "mm_reachable hhdm es (s1, o1, {})" "fst (pfa_alloc s1) = ?h" "bitmap_base s1 = 0x100000000"
      "low_bits s1 = low_bits ?s0" "low_bitmap_at s1 = low_bitmap_at ?s0" "bitmap_at s1 = bitmap_at ?s0"
    using high_frame_comes [OF mm_reachable.boot fi base] by blast
  let ?s2 = "snd (pfa_alloc s1)"
  have 2: "mm_reachable hhdm es (?s2, insert ?h o1, {})"
    using mm_reachable.step [OF 1(1) mm_step.alloc_high [OF surjective_pairing]] 1(2) h0 by simp
  have "bitmap_base ?s2 = bitmap_base s1" "low_bits ?s2 = low_bits s1"
    by (simp_all add: pfa_alloc_def split: option.split)
  with alloc_at(2) [OF surjective_pairing, of s1] 1 fj
  have b2: "bitmap_base ?s2 = 0x100000000" "j \<in> free_frames (low_bits ?s2)" "bitmap_at ?s2 = bitmap_at ?s0" by simp_all
  obtain s3 o3 where 3: "mm_reachable hhdm es (s3, o3, {})" "insert ?h o1 \<subseteq> o3" "fst (pfa_alloc_low s3) = ?p" "bitmap_base s3 = 0x100000000"
      "bitmap_at s3 = bitmap_at ?s0"
    using low_frame_comes [OF 2 b2(2)] b2 by auto
  let ?s4 = "snd (pfa_alloc_low s3)"
  have 4: "mm_reachable hhdm es (?s4, insert ?p o3, {})"
    using mm_reachable.step [OF 3(1) mm_step.alloc_low [OF surjective_pairing]] 3(3) p0 by simp
  have "bitmap_base ?s4 = bitmap_base s3" by (simp add: pfa_alloc_low_def split: option.split)
  with alloc_at(1) [OF surjective_pairing, of s3] 3 st(5)
  have b4: "bitmap_base ?s4 = 0x100000000" "bitmap_at ?s4 = placement_of es + of_nat BITMAP_SIZE + hhdm" by simp_all
  let ?s5 = "mm_memset (frame_virt hhdm ?p + of_nat 0) 0 4096 ?s4"
  have 5: "mm_reachable hhdm es (?s5, insert ?p o3, {?p})"
    using mm_reachable.step [OF 4 mm_step.fill [of ?p _ 0 4096]] by simp
  have "i div 8 < BITMAP_SIZE" using assms(2) by (simp add: MAX_PAGES_bytes less_mult_imp_div_less)
  moreover have "bitmap_at ?s4 + of_nat (i div 8) - (frame_virt hhdm ?p + of_nat 0) = placement_of es + of_nat (BITMAP_SIZE + i div 8) - ?p"
    by (simp add: b4(2) frame_virt_def)
  ultimately have "high_bits ?s5 (i div 8) = 0" using assms(6) by (simp add: mm_memset_def del: of_nat_add)
  then have "i \<in> free_frames (high_bits ?s5)" using assms(2) by (simp add: free_frames_def bitmap_is_free_def)
  moreover have "bitmap_base ?s5 = 0x100000000" using b4(1) by (simp add: mm_memset_def)
  ultimately obtain s6 o6 where "mm_reachable hhdm es (s6, o6, {?p})" "insert ?p o3 \<subseteq> o6" "fst (pfa_alloc s6) = ?h"
    using high_frame_comes [OF 5] by blast
  then show ?thesis using 3(2) by blast
qed

definition demo_map3 :: "limine_memmap_entry list" where
  "demo_map3 = demo_map @ [\<lparr>entry_base = 0x100000000, entry_length = 0x10000000, entry_type = 0\<rparr>]"

theorem held_frame_handed_out_again_witness:
  "\<exists>s owned wr. mm_reachable 0 demo_map3 (s, owned, wr) \<and> 0x100000000 \<in> owned \<and> fst (pfa_alloc s) = 0x100000000"
proof -
  have map: "placement_of demo_map3 = 0x100000" "first_page (demo_map3 ! 1) = 0x100000" "last_page (demo_map3 ! 1) = 0x4100000"
    "usable (demo_map3 ! 1)" "demo_map3 ! 1 \<in> set demo_map3" "first_page (demo_map3 ! 2) = 0x100000000"
    "last_page (demo_map3 ! 2) = 0x110000000" "usable (demo_map3 ! 2)" "demo_map3 ! 2 \<in> set demo_map3"
    by (simp_all add: placement_of_def demo_map3_def demo_map_def usable_def first_page_def last_page_def PAGE_SIZE_def req_size_def Let_def)
  have pages: "page_aligned 0x140000" "low_page 0x140000" "page_aligned 0x100000000" "high_page 0x100000000"
    by (simp_all add: page_aligned_def low_page_def high_page_def PAGE_SIZE_def)
  have "0x140000 \<in> released_frames demo_map3" "0x100000000 \<in> released_frames demo_map3"
    unfolding released_frames_def mem_Collect_eq
    by (use map pages in \<open>auto simp: req_size_def PAGE_SIZE_def intro: bexI [of _ "demo_map3 ! 1"] bexI [of _ "demo_map3 ! 2"]\<close>)
  then have "0x140000 \<in> low_frames (mm_init 0 (Some demo_map3) pfa_boot)" "0x100000000 \<in> high_frames (mm_init 0 (Some demo_map3) pfa_boot)"
    using mm_init_state(2,3) [of demo_map3 0] map(1) pages by simp_all
  with held_frame_handed_out_again [of demo_map3 0 "0x140" 0] map(1) show ?thesis
    by (simp add: MAX_PAGES_def BITMAP_SIZE_def PAGE_SIZE_def)
qed

text \<open>While low memory is left, \<open>pfa_alloc_low\<close> returns the lowest free frame, a page below
  4 GiB other than page 0, and takes exactly that frame; otherwise it returns 0 and changes
  nothing.\<close>

theorem pfa_alloc_low_first_fit:
  assumes "pfa_inv s" "pfa_alloc_low s = (a, s')"
  shows "if low_frames s = {} then a = 0 \<and> s' = s
         else a \<in> low_frames s \<and> (\<forall>b. b \<in> low_frames s \<longrightarrow> a \<le> b) \<and> low_page a \<and>
              low_frames s' = low_frames s - {a} \<and> high_frames s' = high_frames s \<and> pfa_inv s'"
proof (cases "low_frames s = {}")
  case True
  then show ?thesis using low.alloc_none [of s] assms(2) by simp
next
  case False
  then have "free_frames (low_bits s) \<noteq> {}" by (auto simp: low_frames_def)
  from pfa_alloc_low_step [OF assms(1) this] low_least [OF assms(1)] low_frames_page [OF assms(1)] False assms(2)
  show ?thesis by simp
qed

theorem pfa_alloc_low_first_fit_witness:
  "low_page (fst (pfa_alloc_low (mm_init 0 (Some demo_map) pfa_boot)))"
proof -
  let ?s = "mm_init 0 (Some demo_map) pfa_boot"
  have ne: "low_frames ?s \<noteq> {}" using demo_low_frame [of 0] by auto
  have "pfa_inv ?s" using mm_init_state(1) [of demo_map 0] demo_map_facts by simp
  from pfa_alloc_low_first_fit [OF this surjective_pairing] ne show ?thesis by simp
qed

text \<open>Releasing a frame that was just allocated restores the free frames and the amount of
  free memory, but \<open>pfa_free\<close> also counts the page a second time as installed memory:
  \<open>mm_get_total_memory\<close> grows by one page with each such pair.\<close>

theorem total_memory_drifts:
  assumes "pfa_inv s" "low_frames s \<noteq> {}"
  shows "let (a, s1) = pfa_alloc_low s; s2 = pfa_free s1 a
         in low_frames s2 = low_frames s \<and> high_frames s2 = high_frames s \<and>
            mm_get_free_memory s2 = mm_get_free_memory s \<and>
            mm_get_total_memory s2 = mm_get_total_memory s + PAGE_SIZE"
proof -
  obtain a s1 where a: "pfa_alloc_low s = (a, s1)" by (cases "pfa_alloc_low s")
  from assms(2) have ne: "free_frames (low_bits s) \<noteq> {}" by (auto simp: low_frames_def)
  note step = pfa_alloc_low_step [OF assms(1) ne, unfolded a fst_conv snd_conv]
  have page: "low_page a" using low_frames_page [OF assms(1) step(2)] .
  note released = pfa_free_low_step [OF step(1) page]
  have "unat (a div PAGE_SIZE) \<notin> free_frames (low_bits s1)"
  proof
    assume "unat (a div PAGE_SIZE) \<in> free_frames (low_bits s1)"
    then have "of_nat (unat (a div PAGE_SIZE)) * PAGE_SIZE \<in> low_frames s1" unfolding low_frames_def by (rule imageI)
    then have "a \<in> low_frames s1" using page_frame [of a] page by (simp add: low_page_def)
    with step(3) show False by simp
  qed
  then have counts: "low_free_count (pfa_free s1 a) = low_free_count s1 + 1"
    "low_total_count (pfa_free s1 a) = low_total_count s1 + 1"
    "free_pages_count (pfa_free s1 a) = free_pages_count s1" "total_pages_count (pfa_free s1 a) = total_pages_count s1"
    by (simp_all add: pfa_free_low [OF page] Let_def)
  have s1: "s1 = s\<lparr>low_bits := low_bits s1, low_free_count := low_free_count s - 1\<rparr>"
    using a ne by (auto simp: alloc_defs)
  have "low_free_count s1 = low_free_count s - 1" "low_total_count s1 = low_total_count s"
    "free_pages_count s1 = free_pages_count s" "total_pages_count s1 = total_pages_count s"
    by (subst s1, simp)+
  then show ?thesis unfolding a using step released counts
    by (auto simp: mm_get_free_memory_def mm_get_total_memory_def algebra_simps)
qed

theorem total_memory_drifts_witness:
  "let s = mm_init 0 (Some demo_map) pfa_boot; (a, s1) = pfa_alloc_low s
   in mm_get_total_memory (pfa_free s1 a) = mm_get_total_memory s + PAGE_SIZE"
  using total_memory_drifts [of "mm_init 0 (Some demo_map) pfa_boot"] demo_low_frame [of 0]
    mm_init_state(1) [of demo_map 0] demo_map_facts by (auto simp: Let_def split_beta)

text \<open>The two bitmaps take 128 pages but \<open>mm_init\<close> keeps only 32 away from the allocator: a
  usable page right behind these 32 is free afterwards although it holds bytes of
  \<open>low_bitmap\<close>.\<close>

theorem bitmap_storage_is_allocatable:
  assumes "placement_of es \<noteq> 0" "e \<in> set es" "usable e"
    and "page_aligned (placement_of es)"
    and "placement_of es \<le> 0xF0000000"
    and "first_page e \<le> placement_of es + req_size" "placement_of es + req_size < last_page e"
  shows "let s = mm_init hhdm (Some es) pfa_boot; p = placement_of es + req_size
         in p \<in> low_frames s \<and> unat ((p + hhdm) - low_bitmap_at s) < BITMAP_SIZE"
proof -
  let ?p = "placement_of es + req_size"
  have le: "unat (placement_of es) \<le> 4026531840" using assms(5) by (simp add: word_le_nat_alt)
  then have u: "unat ?p = unat (placement_of es) + 131072"
    by (simp add: req_size_def PAGE_SIZE_def unat_word_ariths)
  then have al: "page_aligned ?p" using assms(4) by (simp add: page_aligned_unat mod_eq_0_iff_dvd)
  have nz: "?p \<noteq> 0" using u by auto
  have "?p < 0x100000000" using u le by (simp add: word_less_nat_alt)
  then have "low_page ?p" using al nz by (simp add: low_page_alt)
  moreover have "?p \<in> released_frames es" using assms al nz by (auto simp: released_frames_def)
  ultimately have "?p \<in> low_frames (mm_init hhdm (Some es) pfa_boot)" using mm_init_state(2) [OF assms(1)] by simp
  moreover have "unat ((?p + hhdm) - low_bitmap_at (mm_init hhdm (Some es) pfa_boot)) < BITMAP_SIZE"
    by (simp add: mm_init_state(4) [OF assms(1)] req_size_def PAGE_SIZE_def BITMAP_SIZE_def MAX_PAGES_def)
  ultimately show ?thesis by (simp add: Let_def)
qed

theorem bitmap_storage_is_allocatable_witness:
  "0x120000 \<in> low_frames (mm_init 0 (Some demo_map) pfa_boot)"
  using bitmap_storage_is_allocatable [of demo_map "demo_map ! 1" 0] demo_map_facts
  by (simp add: Let_def page_aligned_def req_size_def PAGE_SIZE_def)

end
