(* ===== verification/VirtMem.thy ===== *)
theory VirtMem
  imports PhysMem
begin

text \<open>
  The page-table code of \<open>core/mm.c\<close>: \<open>map_page\<close>, \<open>mmio_map_low\<close>, \<open>mmio_remap\<close>,
  \<open>phys_to_virt\<close>, \<open>virt_to_phys\<close>.  The memory that holds page tables is a function from
  the virtual address of an 8-byte cell in the direct map to its contents; register \<open>cr3\<close>
  and \<open>hhdm_offset\<close> are fields of the state.  The fence and the TLB flush at the end of
  \<open>map_page\<close> have no counterpart.
\<close>

section \<open>State and address translation in the direct map\<close>

record vm =
  vm_pfa :: pfa
  vm_mem :: "u64 \<Rightarrow> u64"
  cr3 :: u64
  hhdm_offset :: u64

definition PAGE_PRESENT :: u64 where "PAGE_PRESENT = 1"
definition PAGE_RW :: u64 where "PAGE_RW = 2"
definition PAGE_USER :: u64 where "PAGE_USER = 4"
definition PAGE_PWT :: u64 where "PAGE_PWT = 8"
definition PAGE_PCD :: u64 where "PAGE_PCD = 16"
definition PAGE_NO_EXEC :: u64 where "PAGE_NO_EXEC = 0x8000000000000000"
definition PADDR_MASK :: u64 where "PADDR_MASK = 0x000FFFFFFFFFF000"

lemmas flag_defs = PAGE_PRESENT_def PAGE_RW_def PAGE_USER_def PAGE_PWT_def PAGE_PCD_def

definition phys_to_virt :: "vm \<Rightarrow> u64 \<Rightarrow> u64" where
  "phys_to_virt v paddr = paddr + hhdm_offset v"

definition virt_to_phys :: "vm \<Rightarrow> u64 \<Rightarrow> u64" where
  "virt_to_phys v addr = (if addr \<ge> hhdm_offset v then addr - hhdm_offset v else addr)"

section \<open>\<open>map_page\<close>\<close>

text \<open>\<open>custom_memset(p, 0, PAGE_SIZE)\<close> on the cells of a page.\<close>

definition zero_page :: "(u64 \<Rightarrow> u64) \<Rightarrow> u64 \<Rightarrow> u64 \<Rightarrow> u64" where
  "zero_page m p = (\<lambda>a. if a - p < PAGE_SIZE then 0 else m a)"

text \<open>The block that \<open>map_page\<close> repeats for the levels PML4, PDPT and PDT: make the entry
  \<open>i\<close> of the table at physical address \<open>t\<close> point to a table, allocating one if the entry
  is not present, and return the physical address of that table.\<close>

definition next_table :: "u64 \<Rightarrow> u64 \<Rightarrow> u64 \<Rightarrow> vm \<Rightarrow> u64 option \<times> vm" where
  "next_table flags t i v =
     (let caching_flags = flags AND (PAGE_PWT OR PAGE_PCD);
          cell = phys_to_virt v t + 8 * i in
      if vm_mem v cell AND PAGE_PRESENT = 0 then
        case pfa_alloc_low (vm_pfa v) of (p, pfa') \<Rightarrow>
          if p = 0 then (None, v\<lparr>vm_pfa := pfa'\<rparr>)
          else
            let m = zero_page (vm_mem v) (phys_to_virt v p);
                m = m(cell := p OR PAGE_PRESENT OR PAGE_RW OR (flags AND PAGE_USER) OR caching_flags)
            in (Some (m cell AND PADDR_MASK), v\<lparr>vm_pfa := pfa', vm_mem := m\<rparr>)
      else
        let m = (vm_mem v)(cell := vm_mem v cell OR ((flags AND PAGE_USER) OR caching_flags))
        in (Some (m cell AND PADDR_MASK), v\<lparr>vm_mem := m\<rparr>))"

definition map_page :: "u64 \<Rightarrow> u64 \<Rightarrow> u64 \<Rightarrow> vm \<Rightarrow> vm" where
  "map_page phys_addr virt_addr flags v =
     (let pml4_index = drop_bit 39 virt_addr AND 0x1FF;
          pdpt_index = drop_bit 30 virt_addr AND 0x1FF;
          pdt_index = drop_bit 21 virt_addr AND 0x1FF;
          pt_index = drop_bit 12 virt_addr AND 0x1FF in
      case next_table flags (cr3 v AND PADDR_MASK) pml4_index v of
        (None, v) \<Rightarrow> v
      | (Some pdpt, v) \<Rightarrow>
      (case next_table flags pdpt pdpt_index v of
        (None, v) \<Rightarrow> v
      | (Some pdt, v) \<Rightarrow>
      (case next_table flags pdt pdt_index v of
        (None, v) \<Rightarrow> v
      | (Some pt, v) \<Rightarrow>
          v\<lparr>vm_mem := (vm_mem v)(phys_to_virt v pt + 8 * pt_index := phys_addr OR flags)\<rparr>)))"

section \<open>MMIO windows\<close>

definition mmio_flags :: u64 where
  "mmio_flags = PAGE_PRESENT OR PAGE_RW OR PAGE_PCD OR PAGE_PWT OR PAGE_NO_EXEC"

definition pages_needed :: "u64 \<Rightarrow> u64 \<Rightarrow> u64" where
  "pages_needed physical_addr sz =
     (let n = (sz + (physical_addr AND 0xFFF) + PAGE_SIZE - 1) div PAGE_SIZE;
          n = (if n = 0 then 1 else n)
      in if n > 64 then 64 else n)"

text \<open>The loop \<open>for (i = 0; i < pages_needed; i++)\<close> with \<open>n\<close> rounds left.\<close>

primrec map_pages :: "nat \<Rightarrow> u64 \<Rightarrow> u64 \<Rightarrow> u64 \<Rightarrow> u64 \<Rightarrow> vm \<Rightarrow> vm" where
  "map_pages 0 i phys_base virt_base flags v = v"
| "map_pages (Suc n) i phys_base virt_base flags v =
     map_pages n (i + 1) phys_base virt_base flags
       (map_page (phys_base + i * PAGE_SIZE) (virt_base + i * PAGE_SIZE) flags v)"

definition mmio_remap :: "u64 \<Rightarrow> u64 \<Rightarrow> vm \<Rightarrow> u64 \<times> vm" where
  "mmio_remap physical_addr sz v =
     (let phys_base = physical_addr AND NOT 0xFFF;
          offset = physical_addr AND 0xFFF;
          n = pages_needed physical_addr sz;
          virt_base = next_mmio_addr (vm_pfa v);
          v = map_pages (unat n) 0 phys_base virt_base mmio_flags v;
          v = v\<lparr>vm_pfa := (vm_pfa v)\<lparr>next_mmio_addr := next_mmio_addr (vm_pfa v) + n * PAGE_SIZE\<rparr>\<rparr>
      in (virt_base + offset, v))"

text \<open>\<open>mmio_map_low\<close> has the same body (its log line aside); nothing calls it.\<close>

definition mmio_map_low :: "u64 \<Rightarrow> u64 \<Rightarrow> vm \<Rightarrow> u64 \<times> vm" where
  "mmio_map_low physical_addr sz v =
     (let phys_base = physical_addr AND NOT 0xFFF;
          offset = physical_addr AND 0xFFF;
          n = pages_needed physical_addr sz;
          virt_base = next_mmio_addr (vm_pfa v);
          v = map_pages (unat n) 0 phys_base virt_base mmio_flags v;
          v = v\<lparr>vm_pfa := (vm_pfa v)\<lparr>next_mmio_addr := next_mmio_addr (vm_pfa v) + n * PAGE_SIZE\<rparr>\<rparr>
      in (virt_base + offset, v))"

section \<open>The hardware's walk\<close>

definition present :: "u64 \<Rightarrow> bool" where "present e \<longleftrightarrow> e AND PAGE_PRESENT \<noteq> 0"

definition entry :: "vm \<Rightarrow> u64 \<Rightarrow> u64 \<Rightarrow> u64" where
  "entry v t i = vm_mem v (phys_to_virt v t + 8 * i)"

definition table_index :: "nat \<Rightarrow> u64 \<Rightarrow> u64" where
  "table_index k va = drop_bit (3 + 9 * k) va AND 0x1FF"

text \<open>The level-1 entry that the processor reaches from the table \<open>t\<close> of level \<open>k\<close>.  The kernel maps pages of 4 KiB only; an entry
  for a large page (bit 7), which only the loader can have made, is followed like a table.\<close>

fun walk :: "nat \<Rightarrow> vm \<Rightarrow> u64 \<Rightarrow> u64 \<Rightarrow> u64 option" where
  "walk 0 v t va = None"
| "walk (Suc 0) v t va = (let e = entry v t (table_index 1 va) in if present e then Some e else None)"
| "walk (Suc (Suc k)) v t va =
     (let e = entry v t (table_index (Suc (Suc k)) va)
      in if present e then walk (Suc k) v (e AND PADDR_MASK) va else None)"

definition translate :: "vm \<Rightarrow> u64 \<Rightarrow> u64 option" where
  "translate v va = walk 4 v (cr3 v AND PADDR_MASK) va"

definition same_page :: "u64 \<Rightarrow> u64 \<Rightarrow> bool" where
  "same_page va vb \<longleftrightarrow> drop_bit 12 va AND 0xFFFFFFFFF = drop_bit 12 vb AND 0xFFFFFFFFF"

section \<open>Cells of aligned tables\<close>

definition table_page :: "u64 \<Rightarrow> bool" where
  "table_page t \<longleftrightarrow> t AND 0xFFF = 0 \<and> t AND PADDR_MASK = t"

lemma page_multiple:
  fixes t :: u64
  assumes "t AND 0xFFF = 0"
  obtains k where "unat t = 4096 * k" "4096 * k + 4096 \<le> 2 ^ 64"
proof -
  have "unat t mod 4096 = 0" using assms unat_page_offset [of t] by simp
  then obtain k where k: "unat t = 4096 * k" by (metis mod_eq_0_iff_dvd dvdE)
  have "4096 * k < 2 ^ 64" using unat_less_power [of t] k by simp
  then have "k < 2 ^ 52" by simp
  then have "4096 * k + 4096 \<le> 2 ^ 64" by simp
  with k show ?thesis by (rule that)
qed

lemma unat_cell:
  fixes t i :: u64
  assumes "t AND 0xFFF = 0" "unat i < 512"
  shows "unat (t + 8 * i) = unat t + 8 * unat i" and "unat t + 8 * unat i < 2 ^ 64"
proof -
  obtain k where "unat t = 4096 * k" "4096 * k + 4096 \<le> 2 ^ 64" using assms(1) by (rule page_multiple)
  with assms(2) show lt: "unat t + 8 * unat i < 2 ^ 64" by linarith
  have "t + 8 * i = of_nat (unat t + 8 * unat i)" by simp
  also have "unat (of_nat (unat t + 8 * unat i) :: u64) = unat t + 8 * unat i"
    using lt by (intro unat_of_nat_small) simp
  finally show "unat (t + 8 * i) = unat t + 8 * unat i" .
qed

lemma cell_inj:
  fixes t u i j h :: u64
  assumes "t AND 0xFFF = 0" "u AND 0xFFF = 0" "unat i < 512" "unat j < 512"
  shows "t + h + 8 * i = u + h + 8 * j \<longleftrightarrow> t = u \<and> i = j"
proof
  assume "t + h + 8 * i = u + h + 8 * j"
  then have "(t + 8 * i) + h = (u + 8 * j) + h" by (simp add: algebra_simps)
  then have "t + 8 * i = u + 8 * j" by simp
  then have eq: "unat t + 8 * unat i = unat u + 8 * unat j"
    using unat_cell(1) [OF assms(1,3)] unat_cell(1) [OF assms(2,4)] by simp
  obtain k where k: "unat t = 4096 * k" using assms(1) by (rule page_multiple)
  obtain m where m: "unat u = 4096 * m" using assms(2) by (rule page_multiple)
  have "k = (unat t + 8 * unat i) div 4096" "m = (unat u + 8 * unat j) div 4096"
    using assms(3,4) by (simp_all add: k m)
  with eq have "k = m" by simp
  then have tu: "unat t = unat u" using k m by (simp only:)
  moreover have "unat i = unat j" using eq tu by linarith
  ultimately show "t = u \<and> i = j" by (simp only: word_unat_eq_iff)
qed simp

lemma table_index_bound [simp]: "unat (table_index k va) < 512"
proof -
  have "table_index k va \<le> 0x1FF" unfolding table_index_def by (rule word_and_le1)
  then show ?thesis by (simp add: word_le_nat_alt)
qed

lemma in_page_iff:
  fixes t p i h :: u64
  assumes "t AND 0xFFF = 0" "p AND 0xFFF = 0" "unat i < 512"
  shows "(t + h + 8 * i) - (p + h) < PAGE_SIZE \<longleftrightarrow> t = p"
proof -
  obtain k where k: "unat t = 4096 * k" using assms(1) by (rule page_multiple)
  obtain m where m: "unat p = 4096 * m" "4096 * m + 4096 \<le> 2 ^ 64" using assms(2) by (rule page_multiple)
  note m2 = m(2) and m = m(1)
  note u = unat_cell [OF assms(1,3), unfolded k]
  have tp: "t = p \<longleftrightarrow> k = m" using k m by (simp add: word_unat_eq_iff)
  have lt: "(t + h + 8 * i) - (p + h) < PAGE_SIZE \<longleftrightarrow> unat (t + 8 * i - p) < 4096"
    by (simp add: PAGE_SIZE_def word_less_nat_alt add_diff_eq)
  consider "k < m" | "k = m" | "m < k" by linarith
  then show ?thesis
  proof cases
    case 1
    then have less: "4096 * k + 8 * unat i < 4096 * m" using assms(3) by linarith
    then have "unat (t + 8 * i - p) = 2 ^ 64 + (4096 * k + 8 * unat i) - 4096 * m"
      using u(1) m by (simp add: unat_sub_if')
    with m2 1 less show ?thesis unfolding lt tp by simp
  next
    case 2
    then have "unat (t + 8 * i - p) = 8 * unat i" using u(1) m by (simp add: unat_sub_if')
    with 2 assms(3) show ?thesis unfolding lt tp by simp
  next
    case 3
    then have "unat (t + 8 * i - p) = 4096 * k + 8 * unat i - 4096 * m" "4096 * m + 4096 \<le> 4096 * k"
      using u(1) m by (simp_all add: unat_sub_if')
    with 3 show ?thesis unfolding lt tp by simp
  qed
qed

section \<open>Well-formed page tables\<close>

text \<open>A level assignment \<open>L\<close> gives every page that is a table its level, 4 for the PML4.  The
  tables form a tree: a present entry of a table of level above 1 points to a table of the level
  below, and no two entries point to the same table.  No table is a free frame.\<close>

definition vm_ok :: "(u64 \<rightharpoonup> nat) \<Rightarrow> vm \<Rightarrow> bool" where
  "vm_ok L v \<longleftrightarrow>
     pfa_inv (vm_pfa v) \<and>
     L (cr3 v AND PADDR_MASK) = Some 4 \<and>
     (\<forall>t k. L t = Some k \<longrightarrow> table_page t \<and> t \<notin> low_frames (vm_pfa v)) \<and>
     (\<forall>t k i. L t = Some (Suc (Suc k)) \<longrightarrow> unat i < 512 \<longrightarrow> present (entry v t i) \<longrightarrow>
        L (entry v t i AND PADDR_MASK) = Some (Suc k)) \<and>
     (\<forall>t k i u m j. L t = Some (Suc (Suc k)) \<longrightarrow> L u = Some (Suc (Suc m)) \<longrightarrow> unat i < 512 \<longrightarrow> unat j < 512 \<longrightarrow>
        present (entry v t i) \<longrightarrow> present (entry v u j) \<longrightarrow>
        entry v t i AND PADDR_MASK = entry v u j AND PADDR_MASK \<longrightarrow> t = u \<and> i = j)"

lemma vm_okD:
  assumes "vm_ok L v"
  shows "pfa_inv (vm_pfa v)" "L (cr3 v AND PADDR_MASK) = Some 4"
    and "L t = Some k \<Longrightarrow> table_page t" "L t = Some k \<Longrightarrow> t \<notin> low_frames (vm_pfa v)"
    and "L t = Some (Suc (Suc k)) \<Longrightarrow> unat i < 512 \<Longrightarrow> present (entry v t i) \<Longrightarrow>
        L (entry v t i AND PADDR_MASK) = Some (Suc k)"
    and "L t = Some (Suc (Suc k)) \<Longrightarrow> L u = Some (Suc (Suc m)) \<Longrightarrow> unat i < 512 \<Longrightarrow> unat j < 512 \<Longrightarrow>
        present (entry v t i) \<Longrightarrow> present (entry v u j) \<Longrightarrow>
        entry v t i AND PADDR_MASK = entry v u j AND PADDR_MASK \<Longrightarrow> t = u \<and> i = j"
  using assms unfolding vm_ok_def by blast+

lemma table_page_aligned: "table_page t \<Longrightarrow> t AND 0xFFF = 0"
  by (simp add: table_page_def)

lemma low_page_table: "low_page p \<Longrightarrow> table_page p"
  unfolding table_page_def low_page_def PADDR_MASK_def by (simp add: low_page_address_mask)

lemma table_entry_bits:
  fixes flags :: u64
  defines "m \<equiv> (flags AND PAGE_USER) OR (flags AND (PAGE_PWT OR PAGE_PCD))"
  shows "(e OR m) AND PADDR_MASK = e AND PADDR_MASK" "present (e OR m) = present e"
    and "table_page p \<Longrightarrow> (p OR PAGE_PRESENT OR PAGE_RW OR m) AND PADDR_MASK = p"
    and "present (p OR PAGE_PRESENT OR PAGE_RW OR m)"
proof -
  have m: "m AND PADDR_MASK = 0" "m AND PAGE_PRESENT = 0"
    by (simp_all add: m_def flag_defs PADDR_MASK_def bit.conj_disj_distrib2 and.assoc)
  then show "(e OR m) AND PADDR_MASK = e AND PADDR_MASK" by (rule_tac or_outside_mask)
  have "(e OR m) AND PAGE_PRESENT = e AND PAGE_PRESENT" using m(2) by (rule or_outside_mask)
  then show "present (e OR m) = present e" by (simp add: present_def)
  have "(PAGE_PRESENT OR PAGE_RW OR m) AND PADDR_MASK = 0"
    using m(1) by (simp add: bit.conj_disj_distrib2 flag_defs PADDR_MASK_def)
  then have "(p OR (PAGE_PRESENT OR PAGE_RW OR m)) AND PADDR_MASK = p AND PADDR_MASK" by (rule or_outside_mask)
  then show "table_page p \<Longrightarrow> (p OR PAGE_PRESENT OR PAGE_RW OR m) AND PADDR_MASK = p"
    by (simp add: table_page_def)
  have "PAGE_PRESENT AND (p OR PAGE_PRESENT OR PAGE_RW OR m) = PAGE_PRESENT"
    by (simp add: or.left_commute [of p])
  then show "present (p OR PAGE_PRESENT OR PAGE_RW OR m)"
    by (simp add: present_def and.commute [of PAGE_PRESENT]) (simp add: PAGE_PRESENT_def)
qed

lemma entry_write:
  assumes "table_page t" "table_page u" "unat i < 512" "unat j < 512"
  shows "entry (v\<lparr>vm_mem := (vm_mem v)(phys_to_virt v t + 8 * i := x)\<rparr>) u j =
    (if u = t \<and> j = i then x else entry v u j)"
  using cell_inj [of u t j i "hhdm_offset v"] assms
  by (simp add: entry_def phys_to_virt_def table_page_aligned)

lemma entry_zero:
  assumes "table_page p" "table_page u" "unat j < 512"
  shows "entry (v\<lparr>vm_mem := zero_page (vm_mem v) (phys_to_virt v p)\<rparr>) u j =
    (if u = p then 0 else entry v u j)"
  using in_page_iff [of u p j "hhdm_offset v"] assms
  by (simp add: entry_def phys_to_virt_def zero_page_def table_page_aligned)

lemma entry_pfa [simp]: "entry (v\<lparr>vm_pfa := a\<rparr>) t i = entry v t i"
  by (simp add: entry_def phys_to_virt_def)

text \<open>What one level of \<open>map_page\<close> does to the entry \<open>i\<close> of the table \<open>t\<close>.\<close>

definition table_step :: "(u64 \<rightharpoonup> nat) \<Rightarrow> vm \<Rightarrow> u64 \<Rightarrow> nat \<Rightarrow> u64 \<Rightarrow> u64 \<Rightarrow> (u64 \<rightharpoonup> nat) \<Rightarrow> vm \<Rightarrow> bool" where
  "table_step L v t k i n L' v' \<longleftrightarrow>
     L \<subseteq>\<^sub>m L' \<and> vm_ok L' v' \<and> L' n = Some (Suc k) \<and> cr3 v' = cr3 v \<and> hhdm_offset v' = hhdm_offset v \<and>
     present (entry v' t i) \<and> entry v' t i AND PADDR_MASK = n \<and>
     (\<forall>u m j. L u = Some m \<longrightarrow> unat j < 512 \<longrightarrow> (u, j) \<noteq> (t, i) \<longrightarrow> entry v' u j = entry v u j) \<and>
     (present (entry v t i) \<longrightarrow> n = entry v t i AND PADDR_MASK) \<and>
     (\<not> present (entry v t i) \<longrightarrow> (\<forall>j. unat j < 512 \<longrightarrow> \<not> present (entry v' n j))) \<and>
     card (low_frames (vm_pfa v)) \<le> card (low_frames (vm_pfa v')) + 1"

lemma next_table_present:
  assumes ok: "vm_ok L v" and t: "L t = Some (Suc (Suc k))" and i: "unat i < 512"
    and p: "present (entry v t i)"
  shows "\<exists>v'. next_table flags t i v = (Some (entry v t i AND PADDR_MASK), v') \<and>
    table_step L v t k i (entry v t i AND PADDR_MASK) L v'"
proof -
  let ?m = "(flags AND PAGE_USER) OR (flags AND (PAGE_PWT OR PAGE_PCD))"
  let ?e = "entry v t i OR ?m"
  let ?v = "v\<lparr>vm_mem := (vm_mem v)(phys_to_virt v t + 8 * i := ?e)\<rparr>"
  note bits = table_entry_bits(1,2) [of "entry v t i" flags]
  have entry: "entry ?v u j = (if u = t \<and> j = i then ?e else entry v u j)"
    if "L u = Some m" "unat j < 512" for u m j
    using entry_write [of t u i j v ?e] vm_okD(3) [OF ok] that t i by blast
  have same: "present (entry ?v u j) = present (entry v u j)"
    "entry ?v u j AND PADDR_MASK = entry v u j AND PADDR_MASK" if "L u = Some m" "unat j < 512" for u m j
    using entry [OF that] bits by auto
  have run: "next_table flags t i v = (Some (entry v t i AND PADDR_MASK), ?v)"
    using p bits(1) by (simp add: next_table_def Let_def present_def entry_def)
  have "vm_ok L ?v"
    unfolding vm_ok_def using ok same by (simp add: vm_okD)
  moreover have "entry ?v u j = entry v u j" if "L u = Some m" "unat j < 512" "(u, j) \<noteq> (t, i)" for u m j
    using entry [OF that(1,2)] that(3) by auto
  moreover have "present (entry ?v t i)" "entry ?v t i AND PADDR_MASK = entry v t i AND PADDR_MASK"
    using same [OF t i] p by simp_all
  ultimately have "table_step L v t k i (entry v t i AND PADDR_MASK) L ?v"
    unfolding table_step_def using vm_okD(5) [OF ok t i p] p
    by (intro conjI allI impI) (assumption | simp | blast)+
  with run show ?thesis by blast
qed

lemma next_table_oom:
  assumes "low_frames (vm_pfa v) = {}" "\<not> present (entry v t i)"
  shows "next_table flags t i v = (None, v)"
  using assms low.alloc_none [of "vm_pfa v"]
  by (simp add: next_table_def Let_def present_def entry_def)

lemma next_table_absent:
  assumes ok: "vm_ok L v" and t: "L t = Some (Suc (Suc k))" and i: "unat i < 512"
    and p: "\<not> present (entry v t i)" and frames: "low_frames (vm_pfa v) \<noteq> {}"
  shows "\<exists>n L' v'. next_table flags t i v = (Some n, v') \<and> table_step L v t k i n L' v'"
proof -
  let ?m = "(flags AND PAGE_USER) OR (flags AND (PAGE_PWT OR PAGE_PCD))"
  obtain n pfa' where alloc: "pfa_alloc_low (vm_pfa v) = (n, pfa')" by (cases "pfa_alloc_low (vm_pfa v)")
  have inv: "pfa_inv (vm_pfa v)" using ok by (rule vm_okD)
  note n = low.alloc_some [OF inv frames, unfolded alloc fst_conv snd_conv]
  have page: "table_page n" using low_page_table low_frames_page [OF inv] n by blast
  have nz: "n \<noteq> 0" using low_frames_zero [OF inv] n by metis
  have fresh: "L n = None" using vm_okD(4) [OF ok, of n] n by (cases "L n") auto
  let ?e = "n OR PAGE_PRESENT OR PAGE_RW OR ?m"
  note bits = table_entry_bits(3) [OF page, of flags] table_entry_bits(4) [of n flags]
  define z where "z = v\<lparr>vm_pfa := pfa', vm_mem := zero_page (vm_mem v) (phys_to_virt v n)\<rparr>"
  define v' where "v' = z\<lparr>vm_mem := (vm_mem z)(phys_to_virt z t + 8 * i := ?e)\<rparr>"
  define L' where "L' = L(n \<mapsto> Suc k)"
  have tn: "t \<noteq> n" using t fresh by auto
  have pt: "table_page t" using vm_okD(3) [OF ok t] .
  have zero: "entry z u j = (if u = n then 0 else entry v u j)" if "table_page u" "unat j < 512" for u j
    using entry_zero [OF page that, of "v\<lparr>vm_pfa := pfa'\<rparr>"] by (simp add: z_def phys_to_virt_def)
  have entry: "entry v' u j = (if u = t \<and> j = i then ?e else if u = n then 0 else entry v u j)"
    if "table_page u" "unat j < 512" for u j
    using entry_write [OF pt that(1) i that(2), of z ?e] zero [OF that] unfolding v'_def by auto
  have L'D: "table_page u" if "L' u = Some m" for u m
    using that page vm_okD(3) [OF ok] by (auto simp: L'_def split: if_splits)
  have new: "\<not> present (entry v' n j)" if "unat j < 512" for j
    using entry [OF page that] tn by (simp add: present_def)
  have old: "entry v' u j = entry v u j" if "L u = Some m" "unat j < 512" "(u, j) \<noteq> (t, i)" for u j m
    using entry [OF vm_okD(3) [OF ok that(1)] that(2)] that fresh by auto
  have here: "entry v' t i = ?e" using entry [OF pt i] by simp
  have step: "next_table flags t i v = (Some n, v')"
    using p alloc nz bits here
    by (simp add: next_table_def Let_def present_def entry_def v'_def z_def phys_to_virt_def)
  have child: "L (entry v u j AND PADDR_MASK) = Some (Suc m)"
    if "L' u = Some (Suc (Suc m))" "unat j < 512" "present (entry v' u j)" "(u, j) \<noteq> (t, i)" for u m j
  proof -
    have "u \<noteq> n" using new that by auto
    then have u: "L u = Some (Suc (Suc m))" using that(1) by (simp add: L'_def)
    show ?thesis using vm_okD(5) [OF ok u that(2)] old [OF u that(2,4)] that(3) by simp
  qed
  have ok': "vm_ok L' v'"
    unfolding vm_ok_def
  proof (intro conjI allI impI)
    show "pfa_inv (vm_pfa v')" using n by (simp add: v'_def z_def)
    show "L' (cr3 v' AND PADDR_MASK) = Some 4"
      using vm_okD(2) [OF ok] fresh by (auto simp: v'_def z_def L'_def)
    fix u m assume u: "L' u = Some m"
    show "table_page u" using L'D [OF u] .
    show "u \<notin> low_frames (vm_pfa v')"
      using u n vm_okD(4) [OF ok, of u] by (auto simp: v'_def z_def L'_def split: if_splits)
  next
    fix u m j assume u: "L' u = Some (Suc (Suc m))" "unat j < 512" "present (entry v' u j)"
    show "L' (entry v' u j AND PADDR_MASK) = Some (Suc m)"
    proof (cases "(u, j) = (t, i)")
      case True
      then show ?thesis using here bits t u(1) tn by (simp add: L'_def)
    next
      case False
      have "u \<noteq> n" using new u by auto
      then have "L u = Some (Suc (Suc m))" using u(1) by (simp add: L'_def)
      from old [OF this u(2) False] child [OF u False] fresh show ?thesis by (auto simp: L'_def)
    qed
  next
    fix u m j u' m' j'
    assume u: "L' u = Some (Suc (Suc m))" and u': "L' u' = Some (Suc (Suc m'))"
      and j: "unat j < 512" and j': "unat j' < 512"
      and pr: "present (entry v' u j)" and pr': "present (entry v' u' j')"
      and eq: "entry v' u j AND PADDR_MASK = entry v' u' j' AND PADDR_MASK"
    have un: "u \<noteq> n" "u' \<noteq> n" using new j j' pr pr' by auto
    then have L: "L u = Some (Suc (Suc m))" "L u' = Some (Suc (Suc m'))" using u u' by (simp_all add: L'_def)
    consider "(u, j) = (t, i)" "(u', j') = (t, i)" | "(u, j) \<noteq> (t, i)" "(u', j') = (t, i)"
      | "(u, j) = (t, i)" "(u', j') \<noteq> (t, i)" | "(u, j) \<noteq> (t, i)" "(u', j') \<noteq> (t, i)" by blast
    then have "u = u' \<and> j = j'"
    proof cases
      case 2
      with child [OF u j pr] old [OF L(1) j] eq here bits fresh show ?thesis by simp
    next
      case 3
      with child [OF u' j' pr'] old [OF L(2) j'] eq here bits fresh show ?thesis by simp
    next
      case 4
      from vm_okD(6) [OF ok L j j'] pr pr' eq old [OF L(1) j 4(1)] old [OF L(2) j' 4(2)] show ?thesis by simp
    qed simp
    then show "u = u'" "j = j'" by simp_all
  qed
  have card: "card (low_frames (vm_pfa v)) \<le> card (low_frames (vm_pfa v')) + 1"
    using n low.frames_finite [of "vm_pfa v"] by (simp add: v'_def z_def)
  have le: "L \<subseteq>\<^sub>m L'" using fresh by (simp add: L'_def map_le_def dom_def)
  have "table_step L v t k i n L' v'"
    unfolding table_step_def using le ok' here bits old new p card
    by (auto simp: L'_def v'_def z_def)
  with step show ?thesis by blast
qed

lemma next_table_cases:
  assumes "vm_ok L v" "L t = Some (Suc (Suc k))" "unat i < 512"
  obtains (oom) "next_table flags t i v = (None, v)" "low_frames (vm_pfa v) = {}"
  | (step) n L' v' where "next_table flags t i v = (Some n, v')" "table_step L v t k i n L' v'"
  using next_table_present [OF assms, of flags] next_table_absent [OF assms, of flags] next_table_oom [of v t i flags]
  by (cases "present (entry v t i)"; cases "low_frames (vm_pfa v) = {}") blast+

section \<open>Adding a table changes no translation\<close>

lemma table_stepD:
  assumes "table_step L v t k i n L' v'"
  shows "L \<subseteq>\<^sub>m L'" "vm_ok L' v'" "L' n = Some (Suc k)" "cr3 v' = cr3 v" "hhdm_offset v' = hhdm_offset v"
    and "present (entry v' t i)" "entry v' t i AND PADDR_MASK = n"
    and "L u = Some m \<Longrightarrow> unat j < 512 \<Longrightarrow> (u, j) \<noteq> (t, i) \<Longrightarrow> entry v' u j = entry v u j"
    and "present (entry v t i) \<Longrightarrow> n = entry v t i AND PADDR_MASK"
    and "\<not> present (entry v t i) \<Longrightarrow> unat j < 512 \<Longrightarrow> \<not> present (entry v' n j)"
    and "card (low_frames (vm_pfa v)) \<le> card (low_frames (vm_pfa v')) + 1"
  using assms unfolding table_step_def by blast+

lemma table_step_walk:
  assumes s: "table_step L v t k i n L' v'" and ok: "vm_ok L v" and t: "L t = Some (Suc (Suc k))" and i: "unat i < 512"
  shows "L u = Some m \<Longrightarrow> walk m v' u va = walk m v u va"
proof (induction m arbitrary: u)
  case (Suc m)
  let ?j = "table_index (Suc m) va"
  show ?case
  proof (cases m)
    case 0
    then have "u \<noteq> t" using Suc.prems t by auto
    then have "entry v' u ?j = entry v u ?j" using table_stepD(8) [OF s Suc.prems] by simp
    with 0 show ?thesis by (simp add: Let_def)
  next
    case (Suc l)
    have down: "walk m v' (entry v u ?j AND PADDR_MASK) va = walk m v (entry v u ?j AND PADDR_MASK) va"
      if "present (entry v u ?j)"
      using Suc.IH [of "entry v u ?j AND PADDR_MASK"] vm_okD(5) [OF ok, of u l ?j] that Suc.prems Suc by simp
    show ?thesis
    proof (cases "(u, ?j) = (t, i)")
      case False
      from table_stepD(8) [OF s Suc.prems _ this] have "entry v' u ?j = entry v u ?j" by simp
      with down show ?thesis using Suc by (simp add: Let_def)
    next
      case True
      have to: "present (entry v' u ?j)" "entry v' u ?j AND PADDR_MASK = n"
        using table_stepD(6,7) [OF s] True by auto
      show ?thesis
      proof (cases "present (entry v t i)")
        case p: True
        then have "n = entry v u ?j AND PADDR_MASK" using table_stepD(9) [OF s] True by auto
        with to down p True show ?thesis using Suc by (simp add: Let_def)
      next
        case False
        then have "walk m v' n va = None"
          using table_stepD(10) [OF s, of "table_index m va"] Suc by (cases l) (auto simp: Let_def)
        with to False True show ?thesis using Suc by (simp add: Let_def)
      qed
    qed
  qed
qed simp

lemma table_step_translate:
  assumes "table_step L v t k i n L' v'" "vm_ok L v" "L t = Some (Suc (Suc k))" "unat i < 512"
  shows "translate v' va = translate v va"
  using table_step_walk [OF assms vm_okD(2) [OF assms(2)], of va] assms(1)
  by (simp add: translate_def table_step_def)

section \<open>The level-1 table of an address\<close>

fun reach :: "nat \<Rightarrow> vm \<Rightarrow> u64 \<Rightarrow> u64 \<Rightarrow> u64 option" where
  "reach 0 v t va = None"
| "reach (Suc 0) v t va = Some t"
| "reach (Suc (Suc k)) v t va =
     (let e = entry v t (table_index (Suc (Suc k)) va)
      in if present e then reach (Suc k) v (e AND PADDR_MASK) va else None)"

lemma walk_reach:
  "walk (Suc k) v t va =
     (case reach (Suc k) v t va of
        None \<Rightarrow> None
      | Some p \<Rightarrow> let e = entry v p (table_index 1 va) in if present e then Some e else None)"
  by (induction k arbitrary: t) (simp_all add: Let_def)

lemma reach_level: "vm_ok L v \<Longrightarrow> L t = Some (Suc k) \<Longrightarrow> reach (Suc k) v t va = Some p \<Longrightarrow> L p = Some 1"
proof (induction k arbitrary: t)
  case (Suc k)
  let ?e = "entry v t (table_index (Suc (Suc k)) va)"
  have e: "present ?e" "reach (Suc k) v (?e AND PADDR_MASK) va = Some p"
    using Suc.prems(3) by (auto simp: Let_def split: if_splits)
  from Suc.IH [OF Suc.prems(1) vm_okD(5) [OF Suc.prems(1,2) _ e(1)] e(2)] show ?case by simp
qed simp

lemma reach_inj:
  "vm_ok L v \<Longrightarrow> L t = Some (Suc k) \<Longrightarrow> L u = Some (Suc k) \<Longrightarrow>
     reach (Suc k) v t va = Some p \<Longrightarrow> reach (Suc k) v u vb = Some p \<Longrightarrow>
     t = u \<and> (\<forall>m. 2 \<le> m \<and> m \<le> Suc k \<longrightarrow> table_index m va = table_index m vb)"
proof (induction k arbitrary: t u)
  case (Suc k)
  let ?e = "entry v t (table_index (Suc (Suc k)) va)"
  let ?f = "entry v u (table_index (Suc (Suc k)) vb)"
  have e: "present ?e" "reach (Suc k) v (?e AND PADDR_MASK) va = Some p"
    and f: "present ?f" "reach (Suc k) v (?f AND PADDR_MASK) vb = Some p"
    using Suc.prems(4,5) by (auto simp: Let_def split: if_splits)
  have L: "L (?e AND PADDR_MASK) = Some (Suc k)" "L (?f AND PADDR_MASK) = Some (Suc k)"
    using vm_okD(5) [OF Suc.prems(1,2)] vm_okD(5) [OF Suc.prems(1,3)] e(1) f(1) by auto
  from Suc.IH [OF Suc.prems(1) L e(2) f(2)]
  have eq: "?e AND PADDR_MASK = ?f AND PADDR_MASK"
    and idx: "\<And>m. 2 \<le> m \<Longrightarrow> m \<le> Suc k \<Longrightarrow> table_index m va = table_index m vb" by auto
  from vm_okD(6) [OF Suc.prems(1-3) _ _ e(1) f(1) eq]
  have "t = u" "table_index (Suc (Suc k)) va = table_index (Suc (Suc k)) vb" by auto
  with idx show ?case by (metis le_Suc_eq)
qed auto

lemma same_page_index:
  assumes "table_index 1 va = table_index 1 vb" "table_index 2 va = table_index 2 vb"
    "table_index 3 va = table_index 3 vb" "table_index 4 va = table_index 4 vb"
  shows "same_page va vb"
  unfolding same_page_def
proof (rule bit_word_eqI)
  fix n
  have mask: "(0xFFFFFFFFF :: u64) = mask 36" "(0x1FF :: u64) = mask 9" by (simp_all add: mask_eq_exp_minus_1)
  have idx: "bit va (3 + 9 * k + j) = bit vb (3 + 9 * k + j)" if "table_index k va = table_index k vb" "j < 9" for k j
    using arg_cong [OF that(1), where f = "\<lambda>w. bit w j"] that(2)
    unfolding table_index_def mask by (simp add: bit_simps add.commute)
  have "bit va (12 + n) = bit vb (12 + n)" if n: "n < 36"
  proof -
    consider "n < 9" | "9 \<le> n" "n < 18" | "18 \<le> n" "n < 27" | "27 \<le> n" using n by linarith
    then show ?thesis
    proof cases
      case 1 then show ?thesis using idx [OF assms(1), of n] by simp
    next
      case 2 then show ?thesis using idx [OF assms(2), of "n - 9"] by simp
    next
      case 3 then show ?thesis using idx [OF assms(3), of "n - 18"] by simp
    next
      case 4 then show ?thesis using idx [OF assms(4), of "n - 27"] n by simp
    qed
  qed
  then show "bit (drop_bit 12 va AND 0xFFFFFFFFF) n = bit (drop_bit 12 vb AND 0xFFFFFFFFF) n"
    unfolding mask by (auto simp: bit_simps)
qed

lemma leaf_write:
  fixes e :: u64
  assumes ok: "vm_ok L v" and reach: "reach 4 v (cr3 v AND PADDR_MASK) va = Some pt"
  defines "w \<equiv> v\<lparr>vm_mem := (vm_mem v)(phys_to_virt v pt + 8 * table_index 1 va := e)\<rparr>"
  shows "vm_ok L w" "translate w va = (if present e then Some e else None)"
    and "\<not> same_page va vb \<Longrightarrow> translate w vb = translate v vb"
proof -
  have root: "L (cr3 v AND PADDR_MASK) = Some (Suc 3)" using vm_okD(2) [OF ok] by simp
  have r: "reach (Suc 3) v (cr3 v AND PADDR_MASK) va = Some pt" using reach by (simp add: numeral_eq_Suc)
  have pt: "L pt = Some 1" using reach_level [OF ok root r] .
  have entry: "entry w u j = (if u = pt \<and> j = table_index 1 va then e else entry v u j)"
    if "L u = Some m" "unat j < 512" for u m j
    using entry_write [of pt u "table_index 1 va" j v e] vm_okD(3) [OF ok] pt that by (simp add: w_def)
  have same: "entry w u j = entry v u j" if "L u = Some (Suc (Suc m))" "unat j < 512" for u m j
    using entry [OF that] pt that by auto
  have fields: "cr3 w = cr3 v" "vm_pfa w = vm_pfa v" by (simp_all add: w_def)
  show "vm_ok L w"
    unfolding vm_ok_def fields using ok same by (simp add: vm_okD)
  have reach_w: "reach (Suc k) w u vb = reach (Suc k) v u vb" if "L u = Some (Suc k)" for k u vb
    using that
  proof (induction k arbitrary: u)
    case (Suc k)
    then show ?case using same [OF Suc.prems, of "table_index (Suc (Suc k)) vb"] vm_okD(5) [OF ok Suc.prems, of "table_index (Suc (Suc k)) vb"]
      by (simp add: Let_def)
  qed simp
  have tr: "translate w vb = (case reach (Suc 3) v (cr3 v AND PADDR_MASK) vb of
      None \<Rightarrow> None | Some p \<Rightarrow> let e = entry w p (table_index 1 vb) in if present e then Some e else None)" for vb
    using walk_reach [of 3 w "cr3 v AND PADDR_MASK" vb] reach_w [OF root, of vb] by (simp add: translate_def fields)
  show "translate w va = (if present e then Some e else None)"
    unfolding tr r using entry [OF pt, of "table_index 1 va"] by (simp add: Let_def)
  show "translate w vb = translate v vb" if "\<not> same_page va vb"
  proof (cases "reach (Suc 3) v (cr3 v AND PADDR_MASK) vb")
    case None
    then show ?thesis unfolding tr using walk_reach [of 3 v "cr3 v AND PADDR_MASK" vb] by (simp add: translate_def)
  next
    case (Some p)
    have p: "L p = Some 1" using reach_level [OF ok root Some] .
    have "\<not> (p = pt \<and> table_index 1 vb = table_index 1 va)"
      using reach_inj [OF ok root root r, of vb] Some that same_page_index [of va vb] by auto
    then have "entry w p (table_index 1 vb) = entry v p (table_index 1 vb)" using entry [OF p, of "table_index 1 vb"] by auto
    then show ?thesis unfolding tr using Some walk_reach [of 3 v "cr3 v AND PADDR_MASK" vb] by (simp add: translate_def)
  qed
qed

section \<open>\<open>map_page\<close> as a whole\<close>

lemma map_page_alt:
  "map_page phys va flags v =
     (case next_table flags (cr3 v AND PADDR_MASK) (table_index 4 va) v of
        (None, v) \<Rightarrow> v
      | (Some pdpt, v) \<Rightarrow> (case next_table flags pdpt (table_index 3 va) v of
        (None, v) \<Rightarrow> v
      | (Some pdt, v) \<Rightarrow> (case next_table flags pdt (table_index 2 va) v of
        (None, v) \<Rightarrow> v
      | (Some pt, v) \<Rightarrow> v\<lparr>vm_mem := (vm_mem v)(phys_to_virt v pt + 8 * table_index 1 va := phys OR flags)\<rparr>)))"
proof -
  have idx: "table_index 4 va = drop_bit 39 va AND 0x1FF" "table_index 3 va = drop_bit 30 va AND 0x1FF"
    "table_index 2 va = drop_bit 21 va AND 0x1FF" "table_index 1 va = drop_bit 12 va AND 0x1FF"
    by (simp_all add: table_index_def)
  show ?thesis unfolding map_page_def Let_def idx ..
qed

lemma map_leD: "L \<subseteq>\<^sub>m L' \<Longrightarrow> L t = Some k \<Longrightarrow> L' t = Some k"
  by (auto simp: map_le_def dom_def)

text \<open>Either the frames ran out and no translation has changed, or exactly the page of the
  address is mapped.\<close>

definition map_result :: "(u64 \<rightharpoonup> nat) \<Rightarrow> vm \<Rightarrow> u64 \<Rightarrow> u64 \<Rightarrow> (u64 \<rightharpoonup> nat) \<Rightarrow> vm \<Rightarrow> bool" where
  "map_result L v va e L' w \<longleftrightarrow>
     L \<subseteq>\<^sub>m L' \<and> vm_ok L' w \<and> card (low_frames (vm_pfa v)) \<le> card (low_frames (vm_pfa w)) + 3 \<and>
     (3 \<le> card (low_frames (vm_pfa v)) \<or> translate w va \<noteq> translate v va \<longrightarrow>
        translate w va = (if present e then Some e else None)) \<and>
     (\<forall>vb. \<not> same_page va vb \<longrightarrow> translate w vb = translate v vb)"

lemma map_page_result:
  assumes ok: "vm_ok L v"
  shows "\<exists>L'. map_result L v va (phys OR flags) L' (map_page phys va flags v)"
proof -
  let ?root = "cr3 v AND PADDR_MASK"
  have root: "L ?root = Some (Suc (Suc 2))" using vm_okD(2) [OF ok] by simp
  show ?thesis
  proof (cases rule: next_table_cases [OF ok root table_index_bound, of flags 4 va])
    case 1
    then show ?thesis using ok by (intro exI [of _ L]) (simp add: map_result_def map_page_alt)
  next
    case (2 t3 L1 v1)
    note s1 = 2(2) and d1 = table_stepD [OF 2(2)]
    note tr1 = table_step_translate [OF s1 ok root table_index_bound]
    have t3: "L1 t3 = Some (Suc (Suc 1))" using d1(3) by simp
    show ?thesis
    proof (cases rule: next_table_cases [OF d1(2) t3 table_index_bound, of flags 3 va])
      case 1
      then show ?thesis using 2(1) d1 tr1
        by (intro exI [of _ L1]) (simp add: map_result_def map_page_alt)
    next
      case (2 t2 L2 v2)
      note run1 = \<open>next_table flags ?root (table_index 4 va) v = (Some t3, v1)\<close>
      note s2 = 2(2) and d2 = table_stepD [OF 2(2)]
      note tr2 = table_step_translate [OF s2 d1(2) t3 table_index_bound]
      have t2: "L2 t2 = Some (Suc (Suc 0))" using d2(3) by simp
      show ?thesis
      proof (cases rule: next_table_cases [OF d2(2) t2 table_index_bound, of flags 2 va])
        case 1
        moreover have "L \<subseteq>\<^sub>m L2" using d1(1) d2(1) by (rule map_le_trans)
        ultimately show ?thesis using 2(1) run1 d1 d2 tr1 tr2
          by (intro exI [of _ L2]) (simp add: map_result_def map_page_alt)
      next
        case (2 t1 L3 v3)
        note run2 = \<open>next_table flags t3 (table_index 3 va) v1 = (Some t2, v2)\<close>
        note d3 = table_stepD [OF 2(2)]
        note tr3 = table_step_translate [OF 2(2) d2(2) t2 table_index_bound]
        define w where "w = v3\<lparr>vm_mem := (vm_mem v3)(phys_to_virt v3 t1 + 8 * table_index 1 va := phys OR flags)\<rparr>"
        have run: "map_page phys va flags v = w"
          using run1 run2 2(1) by (simp add: map_page_alt w_def)
        have r1: "L1 ?root = Some (Suc (Suc 2))" using map_leD [OF d1(1) root] .
        have r2: "L2 ?root = Some (Suc (Suc 2))" using map_leD [OF d2(1) r1] .
        have L2t3: "L2 t3 = Some (Suc (Suc 1))" using map_leD [OF d2(1) t3] .
        have ne: "?root \<noteq> t3" "?root \<noteq> t2" "t3 \<noteq> t2" using r1 t3 r2 L2t3 t2 by auto
        have e4: "entry v3 ?root (table_index 4 va) = entry v1 ?root (table_index 4 va)"
          using d3(8) [OF r2] d2(8) [OF r1] ne by simp
        have e3: "entry v3 t3 (table_index 3 va) = entry v2 t3 (table_index 3 va)"
          using d3(8) [OF L2t3] ne by simp
        have "reach 4 v3 (cr3 v3 AND PADDR_MASK) va = Some t1"
          using e4 e3 d1(4,6,7) d2(4,6,7) d3(4,6,7) by (simp add: eval_nat_numeral Let_def)
        note leaf = leaf_write [OF d3(2) this, where e = "phys OR flags", folded w_def]
        have "L \<subseteq>\<^sub>m L3" using d1(1) d2(1) d3(1) map_le_trans by blast
        moreover have "card (low_frames (vm_pfa v)) \<le> card (low_frames (vm_pfa w)) + 3"
          using d1(11) d2(11) d3(11) by (simp add: w_def)
        ultimately show ?thesis unfolding run
          using leaf tr1 tr2 tr3 by (intro exI [of _ L3]) (simp add: map_result_def)
      qed
    qed
  qed
qed

lemma next_table_mmio [frame_simps]:
  "next_mmio_addr (vm_pfa (snd (next_table flags t i v))) = next_mmio_addr (vm_pfa v)"
  by (auto simp: next_table_def Let_def pfa_alloc_low_def split: prod.splits option.splits)

lemma map_page_mmio [frame_simps]:
  "next_mmio_addr (vm_pfa (map_page phys va flags v)) = next_mmio_addr (vm_pfa v)"
proof -
  have "next_mmio_addr (vm_pfa w') = next_mmio_addr (vm_pfa w)" if "next_table f t i w = (r, w')" for f t i w r w'
    using next_table_mmio [of f t i w] that by simp
  then show ?thesis unfolding map_page_alt by (auto split: prod.split option.split)
qed

lemma map_pages_mmio [frame_simps]:
  "next_mmio_addr (vm_pfa (map_pages n i phys va flags v)) = next_mmio_addr (vm_pfa v)"
  by (induction n arbitrary: i v) (simp_all add: frame_simps)

lemma present_bit: "present e = bit e 0"
  by (simp add: present_def PAGE_PRESENT_def and_one_eq bit_0 even_iff_mod_2_eq_zero)

lemma present_or: "present e \<or> present f \<Longrightarrow> present (e OR f)"
  unfolding present_bit bit_or_iff .

lemma map_pages_result:
  assumes "present flags"
  shows "vm_ok L v \<Longrightarrow> 3 * n \<le> card (low_frames (vm_pfa v)) \<Longrightarrow>
    (\<And>j k. j < n \<Longrightarrow> k < n \<Longrightarrow> j \<noteq> k \<Longrightarrow>
       \<not> same_page (va + (i + of_nat j) * PAGE_SIZE) (va + (i + of_nat k) * PAGE_SIZE)) \<Longrightarrow>
    \<exists>L'. vm_ok L' (map_pages n i phys va flags v) \<and>
      (\<forall>j<n. translate (map_pages n i phys va flags v) (va + (i + of_nat j) * PAGE_SIZE) =
               Some (phys + (i + of_nat j) * PAGE_SIZE OR flags)) \<and>
      (\<forall>vb. (\<forall>j<n. \<not> same_page (va + (i + of_nat j) * PAGE_SIZE) vb) \<longrightarrow>
              translate (map_pages n i phys va flags v) vb = translate v vb)"
proof (induction n arbitrary: i v L)
  case (Suc n)
  let ?p = "\<lambda>j::nat. va + (i + of_nat j) * PAGE_SIZE"
  let ?e = "phys + i * PAGE_SIZE OR flags"
  let ?v = "map_page (phys + i * PAGE_SIZE) (va + i * PAGE_SIZE) flags v"
  let ?w = "map_pages n (i + 1) phys va flags ?v"
  obtain L1 where r: "map_result L v (va + i * PAGE_SIZE) ?e L1 ?v"
    using map_page_result [OF Suc.prems(1)] by blast
  then have ok: "vm_ok L1 ?v" and frames: "3 * n \<le> card (low_frames (vm_pfa ?v))"
    and first: "translate ?v (?p 0) = Some ?e"
    and others: "\<And>vb. \<not> same_page (?p 0) vb \<Longrightarrow> translate ?v vb = translate v vb"
    using Suc.prems(2) present_or [of "phys + i * PAGE_SIZE" flags] assms by (simp_all add: map_result_def)
  have shift: "i + 1 + of_nat j = i + of_nat (Suc j)" for j by simp
  have "\<not> same_page (va + (i + 1 + of_nat j) * PAGE_SIZE) (va + (i + 1 + of_nat k) * PAGE_SIZE)"
    if "j < n" "k < n" "j \<noteq> k" for j k
    unfolding shift by (rule Suc.prems(3)) (use that in simp_all)
  from Suc.IH [OF ok frames this] obtain L2 where ok2: "vm_ok L2 ?w"
    and rest: "\<And>j. j < n \<Longrightarrow> translate ?w (?p (Suc j)) = Some (phys + (i + of_nat (Suc j)) * PAGE_SIZE OR flags)"
    and keep: "\<And>vb. (\<forall>j<n. \<not> same_page (?p (Suc j)) vb) \<Longrightarrow> translate ?w vb = translate ?v vb"
    unfolding shift by auto
  have "translate ?w (?p 0) = translate ?v (?p 0)"
  proof (rule keep, intro allI impI)
    fix j assume "j < n"
    with Suc.prems(3) [of "Suc j" 0] show "\<not> same_page (?p (Suc j)) (?p 0)" by simp
  qed
  with first have "translate ?w (?p 0) = Some (phys + (i + of_nat 0) * PAGE_SIZE OR flags)" by simp
  with rest have "translate ?w (?p j) = Some (phys + (i + of_nat j) * PAGE_SIZE OR flags)" if "j < Suc n" for j
    using that by (cases j) auto
  moreover have "translate ?w vb = translate v vb" if "\<forall>j<Suc n. \<not> same_page (?p j) vb" for vb
  proof -
    have "\<not> same_page (?p 0) vb" "\<forall>j<n. \<not> same_page (?p (Suc j)) vb"
      using that [rule_format, of 0] that [rule_format, of "Suc j" for j] by blast+
    then show ?thesis using keep others by simp
  qed
  ultimately show ?case using ok2 by auto
qed auto

lemma same_page_unat:
  "same_page va vb \<longleftrightarrow> unat va div 4096 mod 2 ^ 36 = unat vb div 4096 mod 2 ^ 36"
proof -
  have "(0xFFFFFFFFF :: u64) = mask 36" by (simp add: mask_eq_exp_minus_1)
  then have "unat (drop_bit 12 va AND 0xFFFFFFFFF) = unat va div 4096 mod 2 ^ 36" for va :: u64
    by (simp only: take_bit_eq_mask [symmetric]) (simp add: take_bit_eq_mod drop_bit_eq_div unat_mod unat_div)
  then show ?thesis by (simp add: same_page_def word_unat_eq_iff)
qed

lemma add_mod_inj:
  fixes a j k m :: nat
  assumes "(a + j) mod m = (a + k) mod m" "j < m" "k < m"
  shows "j = k"
proof (rule ccontr)
  assume "j \<noteq> k"
  have "m dvd (a + max j k) - (a + min j k)"
    using assms(1) by (intro mod_eq_dvd_iff_nat [THEN iffD1]) (auto simp: max_def min_def)
  with \<open>j \<noteq> k\<close> have "m \<le> max j k - min j k" by (intro dvd_imp_le) (auto simp: max_def min_def)
  with assms(2,3) show False by (auto simp: max_def min_def split: if_splits)
qed

lemma window_pages_differ:
  assumes "unat va + n * 4096 \<le> 2 ^ 64" "n \<le> 64" "j < n" "k < n" "j \<noteq> k"
  shows "\<not> same_page (va + of_nat j * PAGE_SIZE) (va + of_nat k * PAGE_SIZE)"
proof
  assume same: "same_page (va + of_nat j * PAGE_SIZE) (va + of_nat k * PAGE_SIZE)"
  have u: "unat (va + of_nat l * PAGE_SIZE) = unat va + l * 4096" if "l < n" for l
  proof -
    have "unat va + l * 4096 < 2 ^ 64" using assms(1) that by linarith
    then have "unat (of_nat (unat va + l * 4096) :: u64) = unat va + l * 4096"
      by (intro unat_of_nat_small) simp
    then show ?thesis by (simp add: PAGE_SIZE_def)
  qed
  have "(unat va div 4096 + j) mod 2 ^ 36 = (unat va div 4096 + k) mod 2 ^ 36"
    using same unfolding same_page_unat u [OF assms(3)] u [OF assms(4)] by (simp add: add.commute)
  then have "j = k" by (rule add_mod_inj) (use assms in simp_all)
  with assms(5) show False by simp
qed

lemma pages_needed_bounds: "1 \<le> unat (pages_needed a n)" "unat (pages_needed a n) \<le> 64"
proof -
  have "pages_needed a n \<noteq> 0" "\<not> pages_needed a n > 64" by (simp_all add: pages_needed_def Let_def)
  then show "1 \<le> unat (pages_needed a n)" "unat (pages_needed a n) \<le> 64"
    by (simp_all add: unat_gt_0 Suc_le_eq word_less_nat_alt)
qed

section \<open>A machine to try\<close>

text \<open>The PML4 is page 1 and empty; pages 2, 3 and 4 are free.\<close>

definition demo_pfa :: pfa where
  "demo_pfa = \<lparr>low_bits = bitmap_set_free (bitmap_set_free (bitmap_set_free (\<lambda>_. 0xFF) 2) 3) 4,
     high_bits = (\<lambda>_. 0xFF), low_bitmap_at = 0, bitmap_at = 0, bitmap_base = 0x100000000,
     free_pages_count = 0, total_pages_count = 0, low_free_count = 3, low_total_count = 3,
     next_mmio_addr = 0xFFFFFFFF80000000\<rparr>"

definition demo_vm :: vm where
  "demo_vm = \<lparr>vm_pfa = demo_pfa, vm_mem = (\<lambda>_. 0), cr3 = 0x1000, hhdm_offset = 0xFFFF800000000000\<rparr>"

lemma demo_free: "free_frames (low_bits demo_pfa) = {2, 3, 4}" "free_frames (high_bits demo_pfa) = {}"
  by (auto simp: demo_pfa_def free_frames_set_free free_frames_full MAX_PAGES_def)

lemma demo_inv: "pfa_inv demo_pfa"
  unfolding pfa_inv_def demo_free by (simp add: demo_pfa_def)

lemma demo_low_frames: "low_frames demo_pfa = {0x2000, 0x3000, 0x4000}"
  unfolding low_frames_def demo_free by (simp add: PAGE_SIZE_def)

lemma demo_vm_ok: "vm_ok [0x1000 \<mapsto> 4] demo_vm"
  using demo_inv demo_low_frames
  by (simp add: vm_ok_def demo_vm_def PADDR_MASK_def table_page_def entry_def present_def)

section \<open>Properties\<close>

text \<open>C2. In a machine whose page tables form a tree of frames that are not free, \<open>map_page\<close>
  with at least three free low frames makes the processor translate exactly the page of
  \<open>virt_addr\<close> to the new entry: every address outside that page is translated as before, the
  tables stay a tree, and at most three frames are taken.  When the frames run out no
  translation changes.\<close>

theorem map_page_maps_one_page:
  assumes "vm_ok L v"
  shows "\<exists>L'. vm_ok L' (map_page phys va flags v) \<and>
    card (low_frames (vm_pfa v)) \<le> card (low_frames (vm_pfa (map_page phys va flags v))) + 3 \<and>
    (3 \<le> card (low_frames (vm_pfa v)) \<or> translate (map_page phys va flags v) va \<noteq> translate v va \<longrightarrow>
       translate (map_page phys va flags v) va = (if present (phys OR flags) then Some (phys OR flags) else None)) \<and>
    (\<forall>vb. \<not> same_page va vb \<longrightarrow> translate (map_page phys va flags v) vb = translate v vb)"
  using map_page_result [OF assms, of va phys flags] unfolding map_result_def by blast

theorem map_page_maps_one_page_witness:
  "translate (map_page 0xB8000 0xFFFFFFFF80000000 3 demo_vm) 0xFFFFFFFF80000000 = Some 0xB8003"
proof -
  have "card (low_frames (vm_pfa demo_vm)) = 3" "present (0xB8000 OR 3)"
    using demo_low_frames by (simp_all add: demo_vm_def present_def PAGE_PRESENT_def)
  with map_page_maps_one_page [OF demo_vm_ok, where phys = "0xB8000" and va = "0xFFFFFFFF80000000" and flags = 3] show ?thesis by auto
qed

text \<open>\<open>mmio_remap\<close> returns the address in the new window that corresponds to
  \<open>physical_addr\<close>; with three free low frames per page, each page of the window translates to
  the matching physical page, uncached and not executable, no address outside the window is
  translated differently, and the next window starts right behind this one.  The window has
  at most 64 pages whatever the size asked for.\<close>

theorem mmio_remap_maps_window:
  assumes "vm_ok L v" "n = unat (pages_needed physical_addr sz)"
    and "3 * n \<le> card (low_frames (vm_pfa v))"
    and "unat (next_mmio_addr (vm_pfa v)) + n * 4096 \<le> 2 ^ 64"
  shows "case mmio_remap physical_addr sz v of (va, w) \<Rightarrow>
    (let base = next_mmio_addr (vm_pfa v) in
      va = base + (physical_addr AND 0xFFF) \<and> n \<le> 64 \<and>
      next_mmio_addr (vm_pfa w) = base + of_nat n * PAGE_SIZE \<and>
      (\<forall>j<n. translate w (base + of_nat j * PAGE_SIZE) =
              Some ((physical_addr AND NOT 0xFFF) + of_nat j * PAGE_SIZE OR mmio_flags)) \<and>
      (\<forall>vb. (\<forall>j<n. \<not> same_page (base + of_nat j * PAGE_SIZE) vb) \<longrightarrow> translate w vb = translate v vb))"
proof -
  let ?base = "next_mmio_addr (vm_pfa v)"
  let ?w = "map_pages n 0 (physical_addr AND NOT 0xFFF) ?base mmio_flags v"
  have n: "n \<le> 64" unfolding assms(2) by (rule pages_needed_bounds)
  have "present mmio_flags" by (simp add: present_def mmio_flags_def flag_defs PAGE_NO_EXEC_def)
  from map_pages_result [OF this assms(1,3), of ?base 0 "physical_addr AND NOT 0xFFF"]
  have w: "\<forall>j<n. translate ?w (?base + of_nat j * PAGE_SIZE) =
              Some ((physical_addr AND NOT 0xFFF) + of_nat j * PAGE_SIZE OR mmio_flags)"
    "\<forall>vb. (\<forall>j<n. \<not> same_page (?base + of_nat j * PAGE_SIZE) vb) \<longrightarrow> translate ?w vb = translate v vb"
    using window_pages_differ [OF assms(4) n] by auto
  have tr: "translate (x\<lparr>vm_pfa := y\<rparr>) vb = translate x vb" for x y vb
  proof -
    have "walk k (x\<lparr>vm_pfa := y\<rparr>) t vb = walk k x t vb" for k t
      by (induction k x t vb rule: walk.induct) (simp_all add: Let_def)
    then show ?thesis by (simp add: translate_def)
  qed
  have "of_nat n = pages_needed physical_addr sz" by (simp add: assms(2))
  then show ?thesis using w n
    by (simp add: mmio_remap_def Let_def assms(2) [symmetric] frame_simps tr)
qed

theorem mmio_remap_maps_window_witness:
  "case mmio_remap 0xFEE00030 16 demo_vm of (va, w) \<Rightarrow>
     va = 0xFFFFFFFF80000030 \<and> translate w 0xFFFFFFFF80000000 = Some (0xFEE00000 OR mmio_flags)"
proof -
  have n: "1 = unat (pages_needed 0xFEE00030 16)" by (simp add: pages_needed_def PAGE_SIZE_def Let_def)
  have "card (low_frames (vm_pfa demo_vm)) = 3" "next_mmio_addr (vm_pfa demo_vm) = 0xFFFFFFFF80000000"
    using demo_low_frames by (simp_all add: demo_vm_def demo_pfa_def)
  with mmio_remap_maps_window [OF demo_vm_ok n] show ?thesis by (simp add: split_beta Let_def)
qed

end
