(* ===== verification/CString.thy ===== *)
theory CString
  imports Prelude "HOL-Library.Char_ord"
begin

text \<open>
  C strings and byte buffers.  A string is the list of its characters before the NUL, so
  reading \<open>*s\<close> at the end of the list yields 0.  Several components carry their own copy
  of \<open>strcmp\<close>; what their callers need of it, that two strings are equal exactly when the
  comparison says so, is the locale \<open>c_string_equality\<close>.
\<close>

section \<open>The string functions of \<open>fs/vfs.c\<close>\<close>

primrec my_strlen :: "string \<Rightarrow> nat" where
  "my_strlen [] = 0"
| "my_strlen (c # s) = Suc (my_strlen s)"

definition char_at :: "string \<Rightarrow> int" where
  "char_at s = (case s of [] \<Rightarrow> 0 | c # _ \<Rightarrow> of_char c)"

fun my_strcmp :: "string \<Rightarrow> string \<Rightarrow> int" where
  "my_strcmp (a # s) (b # t) = (if a = b then my_strcmp s t else of_char a - of_char b)"
| "my_strcmp s t = char_at s - char_at t"

fun my_strncmp :: "string \<Rightarrow> string \<Rightarrow> nat \<Rightarrow> int" where
  "my_strncmp s t 0 = 0"
| "my_strncmp (a # s) (b # t) (Suc n) = (if a = b then my_strncmp s t n else of_char a - of_char b)"
| "my_strncmp s t n = char_at s - char_at t"

text \<open>The string in the destination after \<open>my_strncpy(dest, src, n); dest[n] = 0\<close>, the way
  every caller uses it.\<close>

definition my_strncpy :: "string \<Rightarrow> nat \<Rightarrow> string" where
  "my_strncpy src n = take n src"

text \<open>No C string contains the NUL character.\<close>

definition c_string :: "string \<Rightarrow> bool" where
  "c_string s \<longleftrightarrow> CHR 0x00 \<notin> set s"

lemma c_string_simps [simp]:
  "c_string []" "c_string (c # s) \<longleftrightarrow> c \<noteq> CHR 0x00 \<and> c_string s" "c_string (s @ t) \<longleftrightarrow> c_string s \<and> c_string t"
  by (auto simp: c_string_def)

lemma c_string_take: "c_string s \<Longrightarrow> c_string (take n s)"
  by (auto simp: c_string_def dest: in_set_takeD)

lemma of_char_zero_iff [simp]: "(of_char c :: int) = 0 \<longleftrightarrow> c = CHR 0x00"
  using of_char_eq_iff [where ?'a = int, of c "CHR 0x00"] by simp

lemma my_strlen_length [simp]: "my_strlen s = length s"
  by (induction s) simp_all

section \<open>Equality of strings\<close>

locale c_string_equality =
  fixes same :: "string \<Rightarrow> string \<Rightarrow> bool"
  assumes same_iff: "c_string s \<Longrightarrow> c_string t \<Longrightarrow> same s t \<longleftrightarrow> s = t"
begin

text \<open>The first entry of a table with a given name, the search every registry of the kernel
  makes.\<close>

fun first_named :: "(string \<times> 'v) list \<Rightarrow> string \<Rightarrow> 'v option" where
  "first_named [] name = None"
| "first_named ((n, v) # xs) name = (if same n name then Some v else first_named xs name)"

lemma first_named_map_of:
  "c_string name \<Longrightarrow> (\<forall>n \<in> fst ` set xs. c_string n) \<Longrightarrow> first_named xs name = map_of xs name"
  by (induction xs name rule: first_named.induct) (auto simp: same_iff)

lemma first_named_append_new:
  assumes "c_string name" "\<forall>n \<in> fst ` set xs. c_string n" "name \<notin> fst ` set xs"
  shows "first_named (xs @ [(name, v)]) name = Some v"
proof -
  have "map_of xs name = None" using assms(3) by (simp add: map_of_eq_None_iff)
  then show ?thesis using assms by (subst first_named_map_of) (auto simp: map_add_def)
qed

end

lemma my_strcmp_zero: "c_string s \<Longrightarrow> c_string t \<Longrightarrow> my_strcmp s t = 0 \<longleftrightarrow> s = t"
  by (induction s t rule: my_strcmp.induct) (auto simp: char_at_def split: list.splits)

interpretation strcmp: c_string_equality "\<lambda>s t. my_strcmp s t = 0"
  by unfold_locales (rule my_strcmp_zero)

lemma my_strncmp_take:
  "c_string s \<Longrightarrow> c_string t \<Longrightarrow> my_strncmp s t n = 0 \<longleftrightarrow> take n s = take n t"
  by (induction s t n rule: my_strncmp.induct) (auto simp: char_at_def split: list.splits)

section \<open>Byte buffers\<close>

primrec store_bytes :: "(u64 \<Rightarrow> u8) \<Rightarrow> u64 \<Rightarrow> u8 list \<Rightarrow> u64 \<Rightarrow> u8" where
  "store_bytes m a [] = m"
| "store_bytes m a (b # bs) = store_bytes (m(a := b)) (a + 1) bs"

definition load_bytes :: "(u64 \<Rightarrow> u8) \<Rightarrow> u64 \<Rightarrow> nat \<Rightarrow> u8 list" where
  "load_bytes m a n = map (\<lambda>i. m (a + of_nat i)) [0..<n]"

lemma length_load_bytes [simp]: "length (load_bytes m a n) = n"
  by (simp add: load_bytes_def)

lemma nth_load_bytes [simp]: "i < n \<Longrightarrow> load_bytes m a n ! i = m (a + of_nat i)"
  by (simp add: load_bytes_def)

lemma store_bytes_apply:
  "length bs \<le> 2 ^ 64 \<Longrightarrow>
     store_bytes m a bs x = (if unat (x - a) < length bs then bs ! unat (x - a) else m x)"
proof (induction bs arbitrary: m a)
  case (Cons b bs)
  show ?case
  proof (cases "x = a")
    case True
    have "unat (x - (a + 1)) = 2 ^ 64 - 1" using True
      by (simp add: unsigned_minus_1_eq_mask mask_eq_exp_minus_1)
    with Cons show ?thesis using True by simp
  next
    case False
    then have "unat (x - a) = Suc (unat (x - (a + 1)))"
    proof -
      have "x - a = (x - (a + 1)) + 1" by simp
      moreover have "x - (a + 1) + 1 \<noteq> 0" using False by (simp add: algebra_simps)
      ultimately show ?thesis by (metis unatSuc add.commute)
    qed
    with Cons False show ?thesis by simp
  qed
qed simp

text \<open>Reading back what was stored, and what lies apart from it.\<close>

lemma load_store_same: "length bs \<le> 2 ^ 64 \<Longrightarrow> n = length bs \<Longrightarrow> load_bytes (store_bytes m a bs) a n = bs"
proof (rule nth_equalityI)
  assume b: "length bs \<le> 2 ^ 64" "n = length bs"
  then show "length (load_bytes (store_bytes m a bs) a n) = length bs" by simp
  fix i assume "i < length (load_bytes (store_bytes m a bs) a n)"
  then have i: "i < length bs" using b by simp
  then have "unat (of_nat i :: u64) = i" using b(1) by (intro unat_of_nat_small) simp
  then show "load_bytes (store_bytes m a bs) a n ! i = bs ! i" using i b by (simp add: store_bytes_apply)
qed

lemma load_store_other:
  assumes "length bs \<le> 2 ^ 64" "\<forall>i < n. length bs \<le> unat (c + of_nat i - a)"
  shows "load_bytes (store_bytes m a bs) c n = load_bytes m c n"
  using assms by (intro nth_equalityI) (auto simp: store_bytes_apply)

text \<open>Characters as bytes.\<close>

lemma unat_of_char: "unat (of_char c :: u8) = of_char c"
proof -
  have "(of_char c :: nat) < 256" by simp
  then have "unat (of_nat (of_char c) :: u8) = of_char c" by (intro unat_of_nat_small) simp
  moreover have "(of_nat (of_char c) :: u8) = of_char c" by (rule of_nat_of_char)
  ultimately show ?thesis by (simp only:)
qed

lemma bytes_of_string [simp]: "map (\<lambda>b. char_of (unat b)) (map (of_char :: char \<Rightarrow> u8) s) = s"
  by (induction s) (simp_all add: unat_of_char)

end
