(* ===== verification/VfsState.thy ===== *)
theory VfsState
  imports CString PhysMem
begin

text \<open>
  The data the virtual file system shares with the file systems below it (\<open>vfs.h\<close> and the
  static tables of \<open>fs/vfs.c\<close>, \<open>fs/ramfs.c\<close>, \<open>fs/devfs.c\<close>, \<open>fs/procfs.c\<close>).

  Every \<open>vfs_node\<close> lives in a static pool, so a node pointer is the name of a cell of a pool
  (\<open>None\<close> for NULL).  A function pointer of a node is the file system whose function it is
  (\<open>None\<close> for NULL); the calls through it are resolved in theory \<open>Vfs\<close>.  The pool arrays are
  functions from the index.
\<close>

datatype node_id = RamfsNode nat | DevfsRoot | DevfsNode nat | ProcfsRoot | ProcfsNode nat

datatype fs_kind = RamfsFs | DevfsFs | ProcfsFs | Fat32Fs

text \<open>What \<open>fs_data\<close> points to: nothing, a directory block of ramfs, a file block of ramfs, the
  data of a device, or a text of procfs.\<close>

datatype fs_data = NoData | DirData nat | FileData nat | DeviceData u64 | TextData nat

definition VFS_FILE :: u32 where "VFS_FILE = 0x01"
definition VFS_DIRECTORY :: u32 where "VFS_DIRECTORY = 0x02"
definition VFS_MOUNTPOINT :: u32 where "VFS_MOUNTPOINT = 0x40"
definition O_CREAT :: u32 where "O_CREAT = 0x0100"
definition O_APPEND :: u32 where "O_APPEND = 0x0400"

lemmas vfs_flag_defs = VFS_FILE_def VFS_DIRECTORY_def VFS_MOUNTPOINT_def

record vfs_node =
  node_name :: string
  inode :: u32
  node_size :: u32
  node_flags :: u32
  op_open :: "fs_kind option"
  op_close :: "fs_kind option"
  op_read :: "fs_kind option"
  op_write :: "fs_kind option"
  op_readdir :: "fs_kind option"
  op_finddir :: "fs_kind option"
  op_create :: "fs_kind option"
  op_unlink :: "fs_kind option"
  op_mkdir :: "fs_kind option"
  node_data :: fs_data
  node_mount :: "nat option"     \<comment> \<open>the index in \<open>g_mounts\<close> it points to\<close>

text \<open>A node of a zeroed pool.\<close>

definition zero_node :: vfs_node where
  "zero_node = \<lparr>node_name = [], inode = 0, node_size = 0, node_flags = 0, op_open = None, op_close = None,
     op_read = None, op_write = None, op_readdir = None, op_finddir = None, op_create = None,
     op_unlink = None, op_mkdir = None, node_data = NoData, node_mount = None\<rparr>"

record mount_point =
  mp_path :: string
  mp_root :: "node_id option"
  mp_refcount :: int

record file_descriptor =
  fd_node :: "node_id option"
  fd_offset :: u64
  fd_flags :: u32
  fd_refcount :: int

record filesystem_type =
  fst_name :: string
  fst_mount :: "fs_kind option"
  fst_unmount :: "fs_kind option"

record fs_world =
  nodes :: "node_id \<Rightarrow> vfs_node"
  g_mounts :: "nat \<Rightarrow> mount_point"
  g_mount_count :: nat
  g_fds :: "nat \<Rightarrow> file_descriptor"
  g_fs_types :: "nat \<Rightarrow> filesystem_type"
  g_fs_type_count :: nat
  g_vfs_root :: "node_id option"
  ramfs_children :: "nat \<Rightarrow> nat \<Rightarrow> node_id option"    \<comment> \<open>\<open>ramfs_data_pool[i].children[j]\<close>\<close>
  ramfs_child_names :: "nat \<Rightarrow> nat \<Rightarrow> string"
  ramfs_node_count :: nat
  file_pages :: "nat \<Rightarrow> nat \<Rightarrow> u64"                      \<comment> \<open>\<open>file_data_pool[i].pages[j]\<close>\<close>
  file_num_pages :: "nat \<Rightarrow> u32"
  file_data_count :: nat
  devfs_children :: "nat \<Rightarrow> node_id"
  devfs_node_count :: nat
  procfs_children :: "nat \<Rightarrow> node_id"
  procfs_content :: "nat \<Rightarrow> string"
  procfs_node_count :: nat
  fs_pfa :: pfa
  ram :: "u64 \<Rightarrow> u8"
  fs_hhdm :: u64

definition set_node :: "node_id \<Rightarrow> vfs_node \<Rightarrow> fs_world \<Rightarrow> fs_world" where
  "set_node n x w = w\<lparr>nodes := (nodes w)(n := x)\<rparr>"

definition is_dir :: "vfs_node \<Rightarrow> bool" where
  "is_dir x \<longleftrightarrow> node_flags x AND VFS_DIRECTORY \<noteq> 0"

lemma set_node_simps [simp]:
  "nodes (set_node n x w) = (nodes w)(n := x)"
  "fs_pfa (set_node n x w) = fs_pfa w" "ram (set_node n x w) = ram w" "fs_hhdm (set_node n x w) = fs_hhdm w"
  "file_pages (set_node n x w) = file_pages w" "file_num_pages (set_node n x w) = file_num_pages w"
  "file_data_count (set_node n x w) = file_data_count w"
  "ramfs_children (set_node n x w) = ramfs_children w" "ramfs_child_names (set_node n x w) = ramfs_child_names w"
  "ramfs_node_count (set_node n x w) = ramfs_node_count w"
  "g_mounts (set_node n x w) = g_mounts w" "g_mount_count (set_node n x w) = g_mount_count w"
  "g_fds (set_node n x w) = g_fds w" "g_vfs_root (set_node n x w) = g_vfs_root w"
  "devfs_children (set_node n x w) = devfs_children w" "devfs_node_count (set_node n x w) = devfs_node_count w"
  "procfs_children (set_node n x w) = procfs_children w" "procfs_node_count (set_node n x w) = procfs_node_count w"
  "procfs_content (set_node n x w) = procfs_content w"
  by (simp_all add: set_node_def)

text \<open>An empty system, for examples.\<close>

definition empty_world :: fs_world where
  "empty_world = \<lparr>nodes = (\<lambda>_. zero_node), g_mounts = (\<lambda>_. \<lparr>mp_path = [], mp_root = None, mp_refcount = 0\<rparr>), g_mount_count = 0,
     g_fds = (\<lambda>_. \<lparr>fd_node = None, fd_offset = 0, fd_flags = 0, fd_refcount = 0\<rparr>),
     g_fs_types = (\<lambda>_. \<lparr>fst_name = [], fst_mount = None, fst_unmount = None\<rparr>), g_fs_type_count = 0, g_vfs_root = None,
     ramfs_children = (\<lambda>_ _. None), ramfs_child_names = (\<lambda>_ _. []), ramfs_node_count = 0,
     file_pages = (\<lambda>_ _. 0), file_num_pages = (\<lambda>_. 0), file_data_count = 0,
     devfs_children = (\<lambda>_. DevfsRoot), devfs_node_count = 0,
     procfs_children = (\<lambda>_. ProcfsRoot), procfs_content = (\<lambda>_. []), procfs_node_count = 0,
     fs_pfa = \<lparr>low_bits = (\<lambda>_. 0xFF), high_bits = (\<lambda>_. 0xFF), low_bitmap_at = 0, bitmap_at = 0, bitmap_base = 0x100000000,
       free_pages_count = 0, total_pages_count = 0, low_free_count = 0, low_total_count = 0, next_mmio_addr = 0\<rparr>,
     ram = (\<lambda>_. 0), fs_hhdm = 0xFFFF800000000000\<rparr>"

end
