(* ===== verification/Ramfs.thy ===== *)
theory Ramfs
  imports VfsState
begin

text \<open>
  \<open>fs/ramfs.c\<close>: directories with 64 slots, files of at most 128 pages taken from
  \<open>pfa_alloc_low\<close>, all in static pools.  A result \<open>None\<close> is an access outside
  \<open>pages[128]\<close>.  The byte count that \<open>ramfs_write\<close> returns is its \<open>uint32_t\<close> read as
  an \<open>int\<close>.
\<close>

section \<open>Nodes\<close>

definition RAMFS_MAX_CHILDREN :: nat where "RAMFS_MAX_CHILDREN = 64"
definition MAX_RAMFS_NODES :: nat where "MAX_RAMFS_NODES = 64"
definition MAX_RAMFS_FILES :: nat where "MAX_RAMFS_FILES = 64"

definition ramfs_alloc_node :: "string \<Rightarrow> u32 \<Rightarrow> fs_world \<Rightarrow> node_id option \<times> fs_world" where
  "ramfs_alloc_node name flags w =
     (if ramfs_node_count w \<ge> MAX_RAMFS_NODES then (None, w)
      else
        let index = ramfs_node_count w;
            node = zero_node\<lparr>node_name := take 255 name, node_flags := flags, node_size := 0,
              node_data := (if flags AND VFS_DIRECTORY \<noteq> 0 then DirData index else NoData)\<rparr>
        in (Some (RamfsNode index),
            (set_node (RamfsNode index) node w)
              \<lparr>ramfs_node_count := index + 1,
               ramfs_children := (ramfs_children w)(index := (\<lambda>i. if i < RAMFS_MAX_CHILDREN then None else ramfs_children w index i)),
               ramfs_child_names := (ramfs_child_names w)(index := (\<lambda>i. if i < RAMFS_MAX_CHILDREN then [] else ramfs_child_names w index i))\<rparr>))"

section \<open>Writing a file\<close>

text \<open>The loop that allocates the missing pages; \<open>False\<close> when it returns early.\<close>

function alloc_file_pages :: "nat \<Rightarrow> u32 \<Rightarrow> u32 \<Rightarrow> fs_world \<Rightarrow> bool \<times> fs_world" where
  "alloc_file_pages fd page_idx end_page w =
     (if page_idx \<le> end_page \<and> page_idx < 128 then
        case pfa_alloc_low (fs_pfa w) of (page_addr, p) \<Rightarrow>
          let w = w\<lparr>fs_pfa := p\<rparr> in
          if page_addr = 0 then (False, w)
          else alloc_file_pages fd (page_idx + 1) end_page
                 (w\<lparr>file_pages := (file_pages w)(fd := (file_pages w fd)(unat page_idx := page_addr + fs_hhdm w))\<rparr>)
      else (True, w))"
  by pat_completeness auto
termination
  by (relation "measure (\<lambda>(_, page_idx, _, _). 128 - unat page_idx)")
    (auto simp: word_less_nat_alt unat_word_ariths)

declare alloc_file_pages.simps [simp del]

definition chunk :: "u64 \<Rightarrow> u32 \<Rightarrow> u32" where
  "chunk current_offset remaining =
     (let page_offset = ucast (current_offset mod 4096) :: u32
      in if 4096 - page_offset < remaining then 4096 - page_offset else remaining)"

lemma chunk_bounds:
  assumes "0 < remaining"
  shows "0 < chunk off remaining" "chunk off remaining \<le> remaining"
    and "unat (off mod 4096) + unat (chunk off remaining) \<le> 4096"
proof -
  have m: "unat (off mod 4096) < 4096" by (simp add: unat_mod)
  then have u: "unat (ucast (off mod 4096) :: u32) = unat (off mod 4096)"
    by (intro unat_ucast_small) simp
  then have d: "unat (4096 - (ucast (off mod 4096) :: u32)) = 4096 - unat (off mod 4096)"
    using m by (subst unat_sub) (simp_all add: word_le_nat_alt)
  show "0 < chunk off remaining" "chunk off remaining \<le> remaining"
    using assms d m by (auto simp: chunk_def Let_def word_less_nat_alt word_le_nat_alt)
  show "unat (off mod 4096) + unat (chunk off remaining) \<le> 4096"
    using d m by (auto simp: chunk_def Let_def word_less_nat_alt)
qed

lemma chunk_decreases [simp]: "0 < remaining \<Longrightarrow> unat (remaining - chunk off remaining) < unat remaining"
  using chunk_bounds(1,2) [of remaining off]
  by (subst unat_sub) (auto simp: word_less_nat_alt word_le_nat_alt)

text \<open>The copy loop of \<open>ramfs_write\<close>.  It returns the number of bytes written.\<close>

function write_pages :: "nat \<Rightarrow> u64 \<Rightarrow> u32 \<Rightarrow> u32 \<Rightarrow> u8 list \<Rightarrow> fs_world \<Rightarrow> (u32 \<times> fs_world) option" where
  "write_pages fd current_offset written remaining data w =
     (if remaining > 0 then
        let page_idx = ucast (current_offset div 4096) :: u32;
            page_offset = current_offset mod 4096;
            n = chunk current_offset remaining in
        if page_idx \<ge> file_num_pages w fd then Some (written, w)
        else if page_idx \<ge> 128 then None
        else if file_pages w fd (unat page_idx) = 0 then Some (written, w)
        else write_pages fd (current_offset + ucast n) (written + n) (remaining - n) data
               (w\<lparr>ram := store_bytes (ram w) (file_pages w fd (unat page_idx) + page_offset)
                          (take (unat n) (drop (unat written) data))\<rparr>)
      else Some (written, w))"
  by pat_completeness auto
termination
  by (relation "measure (\<lambda>(_, _, _, remaining, _, _). unat remaining)") simp_all

declare write_pages.simps [simp del]

definition ramfs_write :: "node_id \<Rightarrow> u64 \<Rightarrow> u8 list \<Rightarrow> fs_world \<Rightarrow> (int \<times> fs_world) option" where
  "ramfs_write node offset data w =
     (let sz = of_nat (length data) :: u32 in
      if is_dir (nodes w node) then Some (- 1, w)
      else
        case (case node_data (nodes w node) of
                FileData fd \<Rightarrow> Some (fd, w)
              | _ \<Rightarrow>
                  if file_data_count w \<ge> MAX_RAMFS_FILES then None
                  else let fd = file_data_count w in
                    Some (fd, (set_node node ((nodes w node)\<lparr>node_data := FileData fd\<rparr>) w)
                      \<lparr>file_data_count := fd + 1,
                       file_num_pages := (file_num_pages w)(fd := 0),
                       file_pages := (file_pages w)(fd := (\<lambda>i. if i < 128 then 0 else file_pages w fd i))\<rparr>)) of
          None \<Rightarrow> Some (- 1, w)
        | Some (fd, w) \<Rightarrow>
            let end_page = ucast ((offset + ucast sz - 1) div 4096) :: u32 in
            (case alloc_file_pages fd (file_num_pages w fd) end_page w of
              (False, w) \<Rightarrow> Some (- 1, w)
            | (True, w) \<Rightarrow>
                (let w = (if end_page \<ge> file_num_pages w fd
                         then w\<lparr>file_num_pages := (file_num_pages w)(fd := end_page + 1)\<rparr> else w) in
                (case write_pages fd offset 0 sz data w of
                  None \<Rightarrow> None
                | Some (written, w) \<Rightarrow>
                    let w = (if offset + ucast written > ucast (node_size (nodes w node))
                             then set_node node ((nodes w node)\<lparr>node_size := ucast (offset + ucast written)\<rparr>) w else w)
                    in Some (sint written, w)))))"

section \<open>Reading a file\<close>

function read_pages :: "nat \<Rightarrow> u32 \<Rightarrow> u64 \<Rightarrow> u32 \<Rightarrow> u8 list \<Rightarrow> fs_world \<Rightarrow> u8 list option" where
  "read_pages fd file_size current_offset remaining acc w =
     (if remaining > 0 \<and> current_offset < ucast file_size then
        let page_idx = ucast (current_offset div 4096) :: u32;
            page_offset = current_offset mod 4096;
            n = chunk current_offset remaining in
        if page_idx \<ge> file_num_pages w fd then Some acc
        else if page_idx \<ge> 128 then None
        else if file_pages w fd (unat page_idx) = 0 then Some acc
        else read_pages fd file_size (current_offset + ucast n) (remaining - n)
               (acc @ load_bytes (ram w) (file_pages w fd (unat page_idx) + page_offset) (unat n)) w
      else Some acc)"
  by pat_completeness auto
termination
  by (relation "measure (\<lambda>(_, _, _, remaining, _, _). unat remaining)") simp_all

declare read_pages.simps [simp del]

text \<open>The bytes stored in the caller's buffer; their number is the value the function returns.\<close>

definition ramfs_read :: "node_id \<Rightarrow> u64 \<Rightarrow> u32 \<Rightarrow> fs_world \<Rightarrow> (int \<times> u8 list) option" where
  "ramfs_read node offset sz w =
     (let x = nodes w node in
      if is_dir x then Some (- 1, [])
      else case node_data x of
        FileData fd \<Rightarrow>
          if offset \<ge> ucast (node_size x) then Some (0, [])
          else
            let sz = (if offset + ucast sz > ucast (node_size x) then node_size x - ucast offset else sz) in
            (case read_pages fd (node_size x) offset sz [] w of
               None \<Rightarrow> None
             | Some bytes \<Rightarrow> Some (sint (of_nat (length bytes) :: u32), bytes))
      | _ \<Rightarrow> Some (0, []))"

section \<open>Directories\<close>

text \<open>The comparison loop of \<open>ramfs_finddir\<close>.\<close>

fun ramfs_name_match :: "string \<Rightarrow> string \<Rightarrow> bool" where
  "ramfs_name_match (a # s) (b # t) = (if a \<noteq> b then False else ramfs_name_match s t)"
| "ramfs_name_match s t = (s = [] \<and> t = [])"

primrec find_child :: "nat \<Rightarrow> nat \<Rightarrow> nat \<Rightarrow> string \<Rightarrow> fs_world \<Rightarrow> node_id option" where
  "find_child 0 i d name w = None"
| "find_child (Suc n) i d name w =
     (case ramfs_children w d i of
        Some c \<Rightarrow> if ramfs_name_match name (ramfs_child_names w d i) then Some c
                  else find_child n (Suc i) d name w
      | None \<Rightarrow> find_child n (Suc i) d name w)"

definition ramfs_finddir :: "node_id \<Rightarrow> string \<Rightarrow> fs_world \<Rightarrow> node_id option" where
  "ramfs_finddir node name w =
     (if \<not> is_dir (nodes w node) then None
      else case node_data (nodes w node) of
        DirData d \<Rightarrow> find_child RAMFS_MAX_CHILDREN 0 d name w
      | _ \<Rightarrow> None)"

primrec nth_child :: "nat \<Rightarrow> nat \<Rightarrow> nat \<Rightarrow> nat \<Rightarrow> nat \<Rightarrow> fs_world \<Rightarrow> node_id option" where
  "nth_child 0 i count d index w = None"
| "nth_child (Suc n) i count d index w =
     (case ramfs_children w d i of
        Some c \<Rightarrow> if count = index then Some c else nth_child n (Suc i) (Suc count) d index w
      | None \<Rightarrow> nth_child n (Suc i) count d index w)"

definition ramfs_readdir :: "node_id \<Rightarrow> u32 \<Rightarrow> fs_world \<Rightarrow> node_id option" where
  "ramfs_readdir node index w =
     (if \<not> is_dir (nodes w node) then None
      else case node_data (nodes w node) of
        DirData d \<Rightarrow> nth_child RAMFS_MAX_CHILDREN 0 0 d (unat index) w
      | _ \<Rightarrow> None)"

primrec free_slot :: "nat \<Rightarrow> nat \<Rightarrow> nat \<Rightarrow> fs_world \<Rightarrow> nat option" where
  "free_slot 0 i d w = None"
| "free_slot (Suc n) i d w = (if ramfs_children w d i = None then Some i else free_slot n (Suc i) d w)"

definition ramfs_create :: "node_id \<Rightarrow> string \<Rightarrow> u32 \<Rightarrow> fs_world \<Rightarrow> int \<times> fs_world" where
  "ramfs_create parent name flags w =
     (if \<not> is_dir (nodes w parent) then (- 1, w)
      else case node_data (nodes w parent) of
        DirData d \<Rightarrow>
          (case free_slot RAMFS_MAX_CHILDREN 0 d w of
             None \<Rightarrow> (- 1, w)
           | Some slot \<Rightarrow>
               (case ramfs_alloc_node name flags w of
                  (None, w) \<Rightarrow> (- 1, w)
                | (Some new_node, w) \<Rightarrow>
                    let x = (nodes w new_node)
                          \<lparr>op_finddir := Some RamfsFs, op_readdir := Some RamfsFs, op_create := Some RamfsFs,
                           op_mkdir := Some RamfsFs, op_read := Some RamfsFs, op_write := Some RamfsFs\<rparr> in
                    (0, (set_node new_node x w)
                      \<lparr>ramfs_children := (ramfs_children w)(d := (ramfs_children w d)(slot := Some new_node)),
                       ramfs_child_names := (ramfs_child_names w)(d := (ramfs_child_names w d)(slot := take 31 name))\<rparr>)))
      | _ \<Rightarrow> (- 1, w))"

definition ramfs_mkdir_op :: "node_id \<Rightarrow> string \<Rightarrow> fs_world \<Rightarrow> int \<times> fs_world" where
  "ramfs_mkdir_op parent name w = ramfs_create parent name VFS_DIRECTORY w"

text \<open>\<open>ramfs_mount_op\<close>: the root node, stored in the mount point \<open>mp\<close>.\<close>

definition ramfs_mount_op :: "nat \<Rightarrow> fs_world \<Rightarrow> int \<times> fs_world" where
  "ramfs_mount_op mp w =
     (case ramfs_alloc_node ''/'' VFS_DIRECTORY w of
        (None, w) \<Rightarrow> (- 1, w)
      | (Some root, w) \<Rightarrow>
          let x = (nodes w root)
                \<lparr>inode := 0, op_readdir := Some RamfsFs, op_finddir := Some RamfsFs, op_create := Some RamfsFs,
                 op_mkdir := Some RamfsFs, op_read := Some RamfsFs, op_write := Some RamfsFs\<rparr> in
          (0, (set_node root x w)\<lparr>g_mounts := (g_mounts w)(mp := (g_mounts w mp)\<lparr>mp_root := Some root\<rparr>)\<rparr>))"

end
