(* ===== verification/RamfsFiles.thy ===== *)
theory RamfsFiles
  imports Ramfs
begin

text \<open>
  The files of ramfs as lists of bytes.  \<open>contents\<close> reads a file of a state off its pages;
  the theorems say that \<open>ramfs_read\<close> returns a section of that list and that
  \<open>ramfs_write\<close> overwrites a section of it and leaves every other file alone.  The
  invariant \<open>pages_inv\<close> keeps the pages of all files apart from each other and from the
  free frames.
\<close>

section \<open>Addresses inside pages\<close>

lemma page_multiple':
  fixes P :: u64
  assumes "unat P mod 4096 = 0"
  obtains k where "unat P = 4096 * k" "4096 * k + 4096 \<le> 2 ^ 64"
proof -
  obtain k where k: "unat P = 4096 * k" using assms by (metis mod_eq_0_iff_dvd dvdE)
  have "4096 * k < 2 ^ 64" using unat_less_power [of P] k by simp
  then have "k < 2 ^ 52" by simp
  then have "4096 * k + 4096 \<le> 2 ^ 64" by simp
  with k show ?thesis by (rule that)
qed

lemma unat_page_plus:
  fixes P :: u64
  assumes "unat P mod 4096 = 0" "j < 4096"
  shows "unat (P + of_nat j) = unat P + j"
proof -
  obtain k where k: "unat P = 4096 * k" "4096 * k + 4096 \<le> 2 ^ 64" using assms(1) by (rule page_multiple')
  then have "unat P + j < 2 ^ 64" using assms(2) by linarith
  then have "unat (of_nat (unat P + j) :: u64) = unat P + j" by (intro unat_of_nat_small) simp
  then show ?thesis by simp
qed

lemma page_distance:
  fixes P Q :: u64
  assumes "unat P mod 4096 = 0" "unat Q mod 4096 = 0" "j < 4096" "off + n \<le> 4096"
  shows "unat ((Q + of_nat j) - (P + of_nat off)) < n \<longleftrightarrow> Q = P \<and> off \<le> j \<and> j < off + n"
    and "Q = P \<Longrightarrow> off \<le> j \<Longrightarrow> unat ((Q + of_nat j) - (P + of_nat off)) = j - off"
proof -
  obtain k where k: "unat P = 4096 * k" "4096 * k + 4096 \<le> 2 ^ 64" using assms(1) by (rule page_multiple')
  obtain m where m: "unat Q = 4096 * m" using assms(2) by (rule page_multiple')
  have QP: "Q = P \<longleftrightarrow> m = k" using k(1) m by (simp add: word_unat_eq_iff)
  have uQ: "unat (Q + of_nat j) = 4096 * m + j" using unat_page_plus [OF assms(2,3)] m by simp
  have uP: "unat (P + of_nat off) = 4096 * k + off" if "0 < n"
    using unat_page_plus [OF assms(1), of off] k assms(4) that by simp
  show dist: "unat ((Q + of_nat j) - (P + of_nat off)) = j - off" if "Q = P" "off \<le> j"
  proof -
    have "(Q + of_nat j) - (P + of_nat off) = (of_nat (j - off) :: u64)" using that by (simp add: of_nat_diff)
    then show ?thesis using assms(3) by (simp add: unat_of_nat_small)
  qed
  show "unat ((Q + of_nat j) - (P + of_nat off)) < n \<longleftrightarrow> Q = P \<and> off \<le> j \<and> j < off + n"
  proof (cases "n = 0")
    case False
    note uP = uP [OF False [unfolded neq0_conv]]
    consider "m < k" | "m = k" "j < off" | "m = k" "off \<le> j" | "k < m" by linarith
    then show ?thesis
    proof cases
      case 1
      then have "4096 * m + j < 4096 * k + off" "4096 * m + 4096 \<le> 4096 * k" using assms(3) by linarith+
      then have "unat ((Q + of_nat j) - (P + of_nat off)) = 2 ^ 64 + (4096 * m + j) - (4096 * k + off)"
        using uQ uP by (simp add: unat_sub_if')
      moreover have "4096 * k + 4096 \<le> 2 ^ 64" by fact
      ultimately show ?thesis using 1 QP assms(4) \<open>4096 * m + 4096 \<le> 4096 * k\<close> k(2) by simp
    next
      case 2
      then have "unat ((Q + of_nat j) - (P + of_nat off)) = 2 ^ 64 + (4096 * m + j) - (4096 * k + off)"
        using uQ uP by (simp add: unat_sub_if')
      with 2 assms(3,4) show ?thesis using QP k(2) by simp
    next
      case 3
      with dist QP show ?thesis by auto
    next
      case 4
      then have "4096 * k + off \<le> 4096 * m + j" "4096 * k + 4096 \<le> 4096 * m" using assms(4) False by linarith+
      then have "unat ((Q + of_nat j) - (P + of_nat off)) = (4096 * m + j) - (4096 * k + off)"
        using uQ uP by (simp add: unat_sub_if')
      with 4 assms(4) \<open>4096 * k + 4096 \<le> 4096 * m\<close> QP show ?thesis by simp
    qed
  qed simp
qed

section \<open>The page invariant\<close>

definition hhdm_ok :: "u64 \<Rightarrow> bool" where
  "hhdm_ok h \<longleftrightarrow> unat h mod 4096 = 0 \<and> unat h + 2 ^ 32 \<le> 2 ^ 64"

text \<open>\<open>B fd\<close> is the number of valid pages of the file block \<open>fd\<close>.\<close>

definition pages_inv :: "(nat \<Rightarrow> nat) \<Rightarrow> fs_world \<Rightarrow> bool" where
  "pages_inv B w \<longleftrightarrow>
     pfa_inv (fs_pfa w) \<and> hhdm_ok (fs_hhdm w) \<and> (\<forall>fd. B fd \<le> 128) \<and>
     (\<forall>fd p. p < B fd \<longrightarrow> (\<exists>a. low_page a \<and> a \<notin> low_frames (fs_pfa w) \<and> file_pages w fd p = a + fs_hhdm w)) \<and>
     (\<forall>fd p fd' p'. p < B fd \<longrightarrow> p' < B fd' \<longrightarrow> file_pages w fd p = file_pages w fd' p' \<longrightarrow> fd = fd' \<and> p = p')"

lemma pages_invD:
  assumes "pages_inv B w"
  shows "pfa_inv (fs_pfa w)" "hhdm_ok (fs_hhdm w)" "B fd \<le> 128"
    and "p < B fd \<Longrightarrow> \<exists>a. low_page a \<and> a \<notin> low_frames (fs_pfa w) \<and> file_pages w fd p = a + fs_hhdm w"
    and "p < B fd \<Longrightarrow> p' < B fd' \<Longrightarrow> file_pages w fd p = file_pages w fd' p' \<Longrightarrow> fd = fd' \<and> p = p'"
  using assms unfolding pages_inv_def by blast+

lemma low_page_virtual:
  assumes "low_page a" "hhdm_ok h"
  shows "unat (a + h) mod 4096 = 0" "a + h \<noteq> 0"
proof -
  have a: "unat a mod 4096 = 0" "0 < unat a" "unat a < 2 ^ 32"
    using assms(1) unat_page_offset [of a] by (auto simp: low_page_def word_less_nat_alt word_le_nat_alt PAGE_SIZE_def)
  have "unat (a + h) = unat a + unat h"
    using a(3) assms(2) by (intro unat_add_lem [THEN iffD1]) (simp add: hhdm_ok_def)
  with a assms(2) show "unat (a + h) mod 4096 = 0" "a + h \<noteq> 0"
    by (auto simp: hhdm_ok_def mod_eq_0_iff_dvd)
qed

lemma file_page_aligned:
  assumes "pages_inv B w" "p < B fd"
  shows "unat (file_pages w fd p) mod 4096 = 0" "file_pages w fd p \<noteq> 0"
  using pages_invD(4) [OF assms(1), of p fd] assms(2) low_page_virtual pages_invD(2) [OF assms(1)] by auto

definition fbyte :: "fs_world \<Rightarrow> nat \<Rightarrow> nat \<Rightarrow> u8" where
  "fbyte w fd off = ram w (file_pages w fd (off div 4096) + of_nat (off mod 4096))"

section \<open>Allocating pages\<close>

lemma alloc_file_pages_fields:
  "alloc_file_pages fd k e w = (b, w') \<Longrightarrow>
     nodes w' = nodes w \<and> file_num_pages w' = file_num_pages w \<and> file_data_count w' = file_data_count w \<and>
     ram w' = ram w \<and> fs_hhdm w' = fs_hhdm w \<and> (\<forall>fd'. fd' \<noteq> fd \<longrightarrow> file_pages w' fd' = file_pages w fd') \<and>
     (\<forall>p. p < unat k \<longrightarrow> file_pages w' fd p = file_pages w fd p)"
proof (induction fd k e w rule: alloc_file_pages.induct)
  case (1 fd k e w)
  show ?case
  proof (cases "k \<le> e \<and> k < 128")
    case False
    then show ?thesis using 1(2) by (subst (asm) alloc_file_pages.simps) auto
  next
    case True
    obtain a p where a: "pfa_alloc_low (fs_pfa w) = (a, p)" by (cases "pfa_alloc_low (fs_pfa w)")
    let ?w = "w\<lparr>fs_pfa := p, file_pages := (file_pages w)(fd := (file_pages w fd)(unat k := a + fs_hhdm w))\<rparr>"
    have k1: "unat (k + 1) = Suc (unat k)" using True by (simp add: word_less_nat_alt unat_word_ariths)
    show ?thesis
    proof (cases "a = 0")
      case True': True
      then show ?thesis using 1(2) True a by (subst (asm) alloc_file_pages.simps) auto
    next
      case False
      then have "alloc_file_pages fd (k + 1) e ?w = (b, w')"
        using 1(2) True a by (subst (asm) alloc_file_pages.simps) (simp add: Let_def)
      from 1(1) [OF True a [symmetric] refl False] this show ?thesis
        by (auto simp: k1)
    qed
  qed
qed

lemma add_page_inv:
  assumes inv: "pages_inv B w" and fd: "B fd = k" "k < 128"
    and a: "pfa_alloc_low (fs_pfa w) = (a, p)" "a \<noteq> 0"
  shows "pages_inv (B(fd := Suc k))
    (w\<lparr>fs_pfa := p, file_pages := (file_pages w)(fd := (file_pages w fd)(k := a + fs_hhdm w))\<rparr>)"
    and "card (low_frames (fs_pfa w)) = Suc (card (low_frames p))"
proof -
  let ?w = "w\<lparr>fs_pfa := p, file_pages := (file_pages w)(fd := (file_pages w fd)(k := a + fs_hhdm w))\<rparr>"
  let ?B = "B(fd := Suc k)"
  have pi: "pfa_inv (fs_pfa w)" using inv by (rule pages_invD)
  have ne: "low_frames (fs_pfa w) \<noteq> {}" using low.alloc_none [of "fs_pfa w"] a by auto
  note step = low.alloc_some [OF pi ne, unfolded a fst_conv snd_conv]
  show "card (low_frames (fs_pfa w)) = Suc (card (low_frames p))"
    using step low.frames_finite [of "fs_pfa w"] ne by (simp add: card_gt_0_iff)
  have page: "low_page a" using low_frames_page [OF pi] step by blast
  have old: "\<exists>a. low_page a \<and> a \<notin> low_frames (fs_pfa w) \<and> file_pages w fd' q = a + fs_hhdm w" if "q < B fd'" for fd' q
    using pages_invD(4) [OF inv that] .
  have new: "file_pages w fd' q \<noteq> a + fs_hhdm w" if q: "q < B fd'" for fd' q
  proof -
    obtain b where "b \<notin> low_frames (fs_pfa w)" "file_pages w fd' q = b + fs_hhdm w" using old [OF q] by blast
    moreover have "a \<in> low_frames (fs_pfa w)" using step by blast
    ultimately show ?thesis by (metis add_right_cancel)
  qed
  have val: "file_pages ?w fd' q = (if fd' = fd \<and> q = k then a + fs_hhdm w else file_pages w fd' q)" for fd' q by simp
  have lt: "q < B fd'" if "q < ?B fd'" "\<not> (fd' = fd \<and> q = k)" for fd' q
    using that fd(1) by (cases "fd' = fd") simp_all
  show "pages_inv ?B ?w"
    unfolding pages_inv_def
  proof (intro conjI allI impI)
    show "pfa_inv (fs_pfa ?w)" "hhdm_ok (fs_hhdm ?w)" using step pages_invD(2) [OF inv] by simp_all
    show "?B fd' \<le> 128" for fd' using pages_invD(3) [OF inv] fd by simp
    show "\<exists>b. low_page b \<and> b \<notin> low_frames (fs_pfa ?w) \<and> file_pages ?w fd' q = b + fs_hhdm ?w" if "q < ?B fd'" for fd' q
    proof (cases "fd' = fd \<and> q = k")
      case True
      with page step show ?thesis by auto
    next
      case False
      with old [OF lt [OF that False]] step show ?thesis unfolding val by auto
    qed
    fix f q f' q'
    assume q: "q < ?B f" and q': "q' < ?B f'" and eq: "file_pages ?w f q = file_pages ?w f' q'"
    have "f = f' \<and> q = q'"
    proof (cases "f = fd \<and> q = k"; cases "f' = fd \<and> q' = k")
      assume 1: "f = fd \<and> q = k" and 2: "\<not> (f' = fd \<and> q' = k)"
      from new [OF lt [OF q' 2]] eq 1 2 show ?thesis unfolding val by auto
    next
      assume 1: "\<not> (f = fd \<and> q = k)" and 2: "f' = fd \<and> q' = k"
      from new [OF lt [OF q 1]] eq 1 2 show ?thesis unfolding val by auto
    next
      assume 1: "\<not> (f = fd \<and> q = k)" and 2: "\<not> (f' = fd \<and> q' = k)"
      from pages_invD(5) [OF inv lt [OF q 1] lt [OF q' 2]] eq 1 2 show ?thesis unfolding val by auto
    qed simp
    then show "f = f'" "q = q'" by simp_all
  qed
qed

lemma alloc_file_pages_inv:
  "pages_inv B w \<Longrightarrow> B fd = unat k \<Longrightarrow> 128 \<le> card (low_frames (fs_pfa w)) + unat k \<Longrightarrow>
     \<exists>w'. alloc_file_pages fd k e w = (True, w') \<and>
       pages_inv (B(fd := max (unat k) (min (Suc (unat e)) 128))) w'"
proof (induction "128 - unat k" arbitrary: k w B rule: less_induct)
  case less
  show ?case
  proof (cases "k \<le> e \<and> k < 128")
    case False
    then have "max (unat k) (min (Suc (unat e)) 128) = unat k"
      by (auto simp: word_le_nat_alt word_less_nat_alt)
    moreover have "B(fd := unat k) = B" using less.prems(2) by auto
    ultimately show ?thesis using False less.prems(1) by (subst alloc_file_pages.simps) auto
  next
    case True
    then have k: "unat k < 128" "unat k \<le> unat e" by (auto simp: word_less_nat_alt word_le_nat_alt)
    then have k1: "unat (k + 1) = Suc (unat k)" by (simp add: unat_word_ariths)
    obtain a p where a: "pfa_alloc_low (fs_pfa w) = (a, p)" by (cases "pfa_alloc_low (fs_pfa w)")
    have "low_frames (fs_pfa w) \<noteq> {}" using less.prems(3) k by auto
    then have nz: "a \<noteq> 0" using low.alloc_zero_iff [OF pages_invD(1) [OF less.prems(1)]] a by simp
    let ?w = "w\<lparr>fs_pfa := p, file_pages := (file_pages w)(fd := (file_pages w fd)(unat k := a + fs_hhdm w))\<rparr>"
    note add = add_page_inv [OF less.prems(1,2) k(1) a nz]
    have "\<exists>w'. alloc_file_pages fd (k + 1) e ?w = (True, w') \<and>
        pages_inv ((B(fd := Suc (unat k)))(fd := max (unat (k + 1)) (min (Suc (unat e)) 128))) w'"
      by (rule less.hyps) (use k k1 add less.prems(3) in simp_all)
    moreover have "max (unat (k + 1)) (min (Suc (unat e)) 128) = max (unat k) (min (Suc (unat e)) 128)"
      using k k1 by auto
    moreover have "alloc_file_pages fd k e w = alloc_file_pages fd (k + 1) e ?w"
      using True a nz by (subst alloc_file_pages.simps) (simp add: Let_def)
    ultimately show ?thesis by simp
  qed
qed

section \<open>The copy loops\<close>

lemma store_in_page:
  assumes inv: "pages_inv B w" and fd: "p < B fd" and fd': "o' < B fd' * 4096"
    and off: "off + length bs \<le> 4096" "length bs > 0"
  defines "w' \<equiv> w\<lparr>ram := store_bytes (ram w) (file_pages w fd p + of_nat off) bs\<rparr>"
  shows "fbyte w' fd' o' =
    (if fd' = fd \<and> p * 4096 + off \<le> o' \<and> o' < p * 4096 + off + length bs
     then bs ! (o' - (p * 4096 + off)) else fbyte w fd' o')"
proof -
  let ?P = "file_pages w fd p" and ?Q = "file_pages w fd' (o' div 4096)" and ?j = "o' mod 4096"
  have q: "o' div 4096 < B fd'" using fd' by (simp add: less_mult_imp_div_less)
  have al: "unat ?P mod 4096 = 0" "unat ?Q mod 4096 = 0" using file_page_aligned(1) [OF inv] fd q by auto
  have j: "?j < 4096" by simp
  note dist = page_distance [OF al j off(1)]
  have same: "?Q = ?P \<longleftrightarrow> fd' = fd \<and> o' div 4096 = p" using pages_invD(5) [OF inv q fd] by auto
  have "length bs \<le> 2 ^ 64" using off(1) by simp
  then have byte: "fbyte w' fd' o' = (if unat ((?Q + of_nat ?j) - (?P + of_nat off)) < length bs
      then bs ! unat ((?Q + of_nat ?j) - (?P + of_nat off)) else fbyte w fd' o')"
    by (simp add: fbyte_def w'_def store_bytes_apply)
  have pos: "o' div 4096 = p \<and> off \<le> ?j \<and> ?j < off + length bs \<longleftrightarrow>
      p * 4096 + off \<le> o' \<and> o' < p * 4096 + off + length bs"
  proof -
    have split: "o' = o' div 4096 * 4096 + ?j" by simp
    have "o' div 4096 = p" if "p * 4096 + off \<le> o'" "o' < p * 4096 + off + length bs"
      using that off(1) by (intro div_nat_eqI) simp_all
    moreover have "off \<le> ?j \<and> ?j < off + length bs \<longleftrightarrow> p * 4096 + off \<le> o' \<and> o' < p * 4096 + off + length bs"
      if "o' div 4096 = p"
      using split [unfolded that] by linarith
    ultimately show ?thesis by blast
  qed
  show ?thesis
  proof (cases "fd' = fd \<and> o' div 4096 = p \<and> off \<le> ?j \<and> ?j < off + length bs")
    case True
    have "o' - (p * 4096 + off) = ?j - off" using True by (metis add_diff_cancel_left div_mult_mod_eq)
    then show ?thesis using True byte dist same pos by auto
  next
    case False
    then show ?thesis using byte dist(1) same pos by auto
  qed
qed

text \<open>Storing bytes leaves the page tables alone.\<close>

lemma pages_inv_ram [simp]: "pages_inv B (w\<lparr>ram := r\<rparr>) = pages_inv B w"
  by (simp add: pages_inv_def)

lemma pages_inv_cong:
  "fs_pfa v = fs_pfa w \<Longrightarrow> fs_hhdm v = fs_hhdm w \<Longrightarrow> file_pages v = file_pages w \<Longrightarrow>
     pages_inv B v = pages_inv B w"
  by (simp add: pages_inv_def)

lemma chunk_unat:
  assumes "0 < remaining"
  shows "unat (chunk off remaining) = min (4096 - unat off mod 4096) (unat remaining)"
proof -
  have m: "unat (off mod 4096) = unat off mod 4096" "unat off mod 4096 < 4096" by (simp_all add: unat_mod)
  then have u: "unat (ucast (off mod 4096) :: u32) = unat off mod 4096" by (subst unat_ucast_small) simp_all
  then have "unat (4096 - (ucast (off mod 4096) :: u32)) = 4096 - unat off mod 4096"
    using m by (subst unat_sub) (simp_all add: word_le_nat_alt)
  then show ?thesis by (auto simp: chunk_def Let_def word_less_nat_alt)
qed

lemma page_index_unat:
  fixes off :: u64
  assumes "unat off < 524288"
  shows "unat (ucast (off div 4096) :: u32) = unat off div 4096"
  using assms by (subst unat_ucast_small) (simp_all add: unat_div)

lemma write_pages_spec:
  assumes "pages_inv B w" "B fd = unat (file_num_pages w fd)"
    and "unat off + unat remaining \<le> B fd * 4096"
    and "length data = unat written + unat remaining" "unat written + unat remaining < 2 ^ 32"
  shows "\<exists>r. write_pages fd off written remaining data w = Some (written + remaining, w\<lparr>ram := r\<rparr>) \<and>
    (\<forall>fd' o'. o' < B fd' * 4096 \<longrightarrow>
       fbyte (w\<lparr>ram := r\<rparr>) fd' o' =
         (if fd' = fd \<and> unat off \<le> o' \<and> o' < unat off + unat remaining
          then data ! (unat written + (o' - unat off)) else fbyte w fd' o'))"
  using assms
proof (induction "unat remaining" arbitrary: off written remaining w rule: less_induct)
  case less
  show ?case
  proof (cases "remaining = 0")
    case True
    then show ?thesis by (intro exI [of _ "ram w"]) (subst write_pages.simps, auto)
  next
    case False
    then have pos: "0 < remaining" by (simp add: word_gt_0)
    let ?n = "chunk off remaining"
    let ?o = "unat off" and ?m = "unat off mod 4096" and ?p = "unat off div 4096"
    have B: "B fd \<le> 128" using less.prems(1) by (rule pages_invD)
    have rpos: "0 < unat remaining" using pos by (simp add: word_less_nat_alt)
    have small: "?o < 524288" using less.prems(3) B rpos by linarith
    note idx = page_index_unat [OF small]
    have n: "unat ?n = min (4096 - ?m) (unat remaining)" using chunk_unat [OF pos] .
    have npos: "0 < unat ?n" and nle: "unat ?n \<le> unat remaining" and nm: "?m + unat ?n \<le> 4096"
      using n rpos by (auto simp: min_def)
    have p: "?p < B fd" using less.prems(3) rpos by (intro less_mult_imp_div_less) simp
    let ?bs = "take (unat ?n) (drop (unat written) data)"
    have len: "length ?bs = unat ?n" using less.prems(4) nle by simp
    let ?addr = "file_pages w fd ?p + of_nat ?m"
    let ?w = "w\<lparr>ram := store_bytes (ram w) ?addr ?bs\<rparr>"
    have mm: "off mod 4096 = of_nat ?m" by (simp add: word_unat_eq_iff unat_mod unat_of_nat_small)
    have run: "write_pages fd off written remaining data w =
        write_pages fd (off + ucast ?n) (written + ?n) (remaining - ?n) data ?w"
      using pos idx p B less.prems(2) file_page_aligned(2) [OF less.prems(1) p]
      by (subst write_pages.simps) (simp add: Let_def word_le_nat_alt mm)
    have un: "unat (ucast ?n :: u64) = unat ?n" using unat_less_power [of ?n] by (intro unat_ucast_small) simp
    have off': "unat (off + ucast ?n) = ?o + unat ?n"
      using small nle un less.prems(3) B by (intro trans [OF unat_add_lem [THEN iffD1]]) simp_all
    have rem': "unat (remaining - ?n) = unat remaining - unat ?n" using nle by (simp add: unat_sub word_le_nat_alt)
    have wr': "unat (written + ?n) = unat written + unat ?n"
      using less.prems(5) nle by (intro unat_add_lem [THEN iffD1]) simp
    have store: "fbyte ?w fd' o' = (if fd' = fd \<and> ?o \<le> o' \<and> o' < ?o + unat ?n
        then data ! (unat written + (o' - ?o)) else fbyte w fd' o')" if "o' < B fd' * 4096" for fd' o'
      using store_in_page [OF less.prems(1) p that, of ?m ?bs] len nm npos less.prems(4) nle
      by (auto simp: algebra_simps)
    have "\<exists>r. write_pages fd (off + ucast ?n) (written + ?n) (remaining - ?n) data ?w =
          Some (written + ?n + (remaining - ?n), ?w\<lparr>ram := r\<rparr>) \<and>
        (\<forall>fd' o'. o' < B fd' * 4096 \<longrightarrow>
           fbyte (?w\<lparr>ram := r\<rparr>) fd' o' =
             (if fd' = fd \<and> unat (off + ucast ?n) \<le> o' \<and> o' < unat (off + ucast ?n) + unat (remaining - ?n)
              then data ! (unat (written + ?n) + (o' - unat (off + ucast ?n))) else fbyte ?w fd' o'))"
      by (rule less.hyps) (use less.prems npos nle off' rem' wr' in simp_all)
    then obtain r where r: "write_pages fd off written remaining data w = Some (written + remaining, w\<lparr>ram := r\<rparr>)"
      and bytes: "\<And>fd' o'. o' < B fd' * 4096 \<Longrightarrow> fbyte (w\<lparr>ram := r\<rparr>) fd' o' =
             (if fd' = fd \<and> ?o + unat ?n \<le> o' \<and> o' < ?o + unat remaining
              then data ! (unat written + unat ?n + (o' - (?o + unat ?n))) else fbyte ?w fd' o')"
      unfolding run off' rem' wr' using nle by auto
    have "fbyte (w\<lparr>ram := r\<rparr>) fd' o' = (if fd' = fd \<and> ?o \<le> o' \<and> o' < ?o + unat remaining
          then data ! (unat written + (o' - ?o)) else fbyte w fd' o')" if "o' < B fd' * 4096" for fd' o'
      unfolding bytes [OF that] store [OF that] using nle by auto
    with r show ?thesis by blast
  qed
qed

lemma read_pages_spec:
  assumes "pages_inv B w" "B fd = unat (file_num_pages w fd)"
    and "unat off + unat remaining \<le> unat file_size" "unat file_size \<le> B fd * 4096"
  shows "read_pages fd file_size off remaining acc w =
    Some (acc @ map (fbyte w fd) [unat off ..< unat off + unat remaining])"
  using assms
proof (induction "unat remaining" arbitrary: off remaining acc rule: less_induct)
  case less
  show ?case
  proof (cases "remaining = 0")
    case True
    then show ?thesis by (subst read_pages.simps) simp
  next
    case False
    then have pos: "0 < remaining" by (simp add: word_gt_0)
    let ?n = "chunk off remaining"
    let ?o = "unat off" and ?m = "unat off mod 4096" and ?p = "unat off div 4096"
    have B: "B fd \<le> 128" using less.prems(1) by (rule pages_invD)
    have rpos: "0 < unat remaining" using pos by (simp add: word_less_nat_alt)
    have small: "?o < 524288" using less.prems(3,4) B rpos by linarith
    note idx = page_index_unat [OF small]
    have n: "unat ?n = min (4096 - ?m) (unat remaining)" using chunk_unat [OF pos] .
    have npos: "0 < unat ?n" and nle: "unat ?n \<le> unat remaining" and nm: "?m + unat ?n \<le> 4096"
      using n rpos by (auto simp: min_def)
    have p: "?p < B fd" using less.prems(3,4) rpos by (intro less_mult_imp_div_less) simp
    have mm: "off mod 4096 = of_nat ?m" by (simp add: word_unat_eq_iff unat_mod unat_of_nat_small)
    have in_size: "off < ucast file_size"
      using less.prems(3) rpos unat_less_power [of file_size]
      by (simp add: word_less_nat_alt unat_ucast_small)
    let ?bs = "load_bytes (ram w) (file_pages w fd ?p + of_nat ?m) (unat ?n)"
    have run: "read_pages fd file_size off remaining acc w =
        read_pages fd file_size (off + ucast ?n) (remaining - ?n) (acc @ ?bs) w"
      using pos in_size idx p B less.prems(2) file_page_aligned(2) [OF less.prems(1) p]
      by (subst read_pages.simps) (simp add: Let_def word_le_nat_alt mm)
    have un: "unat (ucast ?n :: u64) = unat ?n" using unat_less_power [of ?n] by (intro unat_ucast_small) simp
    have off': "unat (off + ucast ?n) = ?o + unat ?n"
      using small nle un less.prems(3,4) B by (intro trans [OF unat_add_lem [THEN iffD1]]) simp_all
    have rem': "unat (remaining - ?n) = unat remaining - unat ?n" using nle by (simp add: unat_sub word_le_nat_alt)
    have bs: "?bs = map (fbyte w fd) [?o ..< ?o + unat ?n]"
    proof (rule nth_equalityI)
      fix i assume "i < length ?bs"
      then have i: "i < unat ?n" by simp
      have "(?o + i) div 4096 = ?p" "(?o + i) mod 4096 = ?m + i"
        using div_mod_add_small [of ?o 4096 i] i nm by linarith+
      then show "?bs ! i = map (fbyte w fd) [?o ..< ?o + unat ?n] ! i"
        using i by (simp add: fbyte_def algebra_simps)
    qed simp
    have "read_pages fd file_size (off + ucast ?n) (remaining - ?n) (acc @ ?bs) w =
        Some ((acc @ ?bs) @ map (fbyte w fd) [unat (off + ucast ?n) ..< unat (off + ucast ?n) + unat (remaining - ?n)])"
      by (rule less.hyps) (use less.prems npos nle off' rem' in simp_all)
    also have "(acc @ ?bs) @ map (fbyte w fd) [unat (off + ucast ?n) ..< unat (off + ucast ?n) + unat (remaining - ?n)] =
        acc @ map (fbyte w fd) [?o ..< ?o + unat remaining]"
      unfolding bs off' rem' using nle upt_add_eq_append [of ?o "?o + unat ?n" "unat remaining - unat ?n"] by simp
    finally show ?thesis unfolding run .
  qed
qed

section \<open>Files as lists of bytes\<close>

definition pages_bound :: "fs_world \<Rightarrow> nat \<Rightarrow> nat" where
  "pages_bound w fd = (if fd < file_data_count w then unat (file_num_pages w fd) else 0)"

definition ramfs_ok :: "fs_world \<Rightarrow> bool" where
  "ramfs_ok w \<longleftrightarrow>
     pages_inv (pages_bound w) w \<and>
     (\<forall>n fd. node_data (nodes w n) = FileData fd \<longrightarrow>
        fd < file_data_count w \<and> unat (node_size (nodes w n)) \<le> unat (file_num_pages w fd) * 4096) \<and>
     (\<forall>n m fd. node_data (nodes w n) = FileData fd \<longrightarrow> node_data (nodes w m) = FileData fd \<longrightarrow> n = m) \<and>
     (\<forall>n. node_data (nodes w n) = NoData \<longrightarrow> \<not> is_dir (nodes w n) \<longrightarrow> node_size (nodes w n) = 0)"

definition contents :: "fs_world \<Rightarrow> node_id \<Rightarrow> u8 list" where
  "contents w n =
     (case node_data (nodes w n) of
        FileData fd \<Rightarrow> map (fbyte w fd) [0 ..< unat (node_size (nodes w n))]
      | _ \<Rightarrow> [])"

lemma ramfs_okD:
  assumes "ramfs_ok w"
  shows "pages_inv (pages_bound w) w"
    and "node_data (nodes w n) = FileData fd \<Longrightarrow> fd < file_data_count w"
    and "node_data (nodes w n) = FileData fd \<Longrightarrow> unat (node_size (nodes w n)) \<le> unat (file_num_pages w fd) * 4096"
    and "node_data (nodes w n) = FileData fd \<Longrightarrow> node_data (nodes w m) = FileData fd \<Longrightarrow> n = m"
    and "node_data (nodes w n) = NoData \<Longrightarrow> \<not> is_dir (nodes w n) \<Longrightarrow> node_size (nodes w n) = 0"
  using assms unfolding ramfs_ok_def by blast+

lemma file_size_bound:
  assumes "ramfs_ok w" "node_data (nodes w n) = FileData fd"
  shows "unat (node_size (nodes w n)) \<le> 524288" "pages_bound w fd = unat (file_num_pages w fd)"
proof -
  show b: "pages_bound w fd = unat (file_num_pages w fd)"
    using ramfs_okD(2) [OF assms] by (simp add: pages_bound_def)
  have "pages_bound w fd \<le> 128" using pages_invD(3) [OF ramfs_okD(1) [OF assms(1)]] .
  with b ramfs_okD(3) [OF assms] show "unat (node_size (nodes w n)) \<le> 524288" by simp
qed

lemma ramfs_read_section:
  assumes ok: "ramfs_ok w" and reg: "\<not> is_dir (nodes w n)"
  shows "ramfs_read n off sz w =
    (let bytes = take (unat sz) (drop (unat off) (contents w n)) in Some (int (length bytes), bytes))"
proof (cases "node_data (nodes w n)")
  case (FileData fd)
  let ?s = "node_size (nodes w n)"
  note b = file_size_bound [OF ok FileData]
  have us: "unat (ucast ?s :: u64) = unat ?s" using unat_less_power [of ?s] by (intro unat_ucast_small) simp
  show ?thesis
  proof (cases "ucast ?s \<le> off")
    case True
    then have "unat ?s \<le> unat off" using us by (simp add: word_le_nat_alt)
    with True FileData reg show ?thesis by (simp add: ramfs_read_def contents_def Let_def)
  next
    case False
    then have lt: "unat off < unat ?s" using us by (simp add: word_le_nat_alt)
    have sz64: "unat (ucast sz :: u64) = unat sz" using unat_less_power [of sz] by (intro unat_ucast_small) simp
    have "unat off + unat sz < 2 ^ 64" using lt b(1) unat_less_power [of sz] by simp
    then have sum: "unat (off + ucast sz) = unat off + unat sz"
      using sz64 by (intro trans [OF unat_add_lem [THEN iffD1]]) simp_all
    define sz' where "sz' = (if off + ucast sz > ucast ?s then ?s - ucast off else sz)"
    have o32: "unat (ucast off :: u32) = unat off" using lt b(1) by (intro unat_ucast_small) simp
    have usz': "unat sz' = min (unat sz) (unat ?s - unat off)"
      using sum us o32 lt by (auto simp: sz'_def word_less_nat_alt unat_sub word_le_nat_alt)
    define bytes where "bytes = take (unat sz) (drop (unat off) (contents w n))"
    have "read_pages fd ?s off sz' [] w = Some ([] @ map (fbyte w fd) [unat off ..< unat off + unat sz'])"
      by (rule read_pages_spec [OF ramfs_okD(1) [OF ok] b(2)])
        (use usz' lt b ramfs_okD(3) [OF ok FileData] in auto)
    moreover have "map (fbyte w fd) [unat off ..< unat off + unat sz'] = bytes"
      using usz' lt by (simp add: bytes_def contents_def FileData drop_map take_map min_def)
    ultimately have "read_pages fd ?s off sz' [] w = Some bytes" by simp
    then have "ramfs_read n off sz w = Some (sint (of_nat (length bytes) :: u32), bytes)"
      using False FileData reg by (simp add: ramfs_read_def Let_def sz'_def)
    moreover have "length bytes \<le> 524288" using b(1) by (simp add: bytes_def contents_def FileData)
    then have "sint (of_nat (length bytes) :: u32) = int (length bytes)" by (intro sint_of_small) simp
    ultimately show ?thesis by (simp add: Let_def bytes_def)
  qed
qed (use reg in \<open>simp_all add: ramfs_read_def contents_def Let_def\<close>)

text \<open>The state once a file block is attached to the node.\<close>

definition attach_block :: "node_id \<Rightarrow> fs_world \<Rightarrow> nat \<times> fs_world" where
  "attach_block node w =
     (case node_data (nodes w node) of
        FileData fd \<Rightarrow> (fd, w)
      | _ \<Rightarrow> (let fd = file_data_count w in
          (fd, (set_node node ((nodes w node)\<lparr>node_data := FileData fd\<rparr>) w)
            \<lparr>file_data_count := fd + 1, file_num_pages := (file_num_pages w)(fd := 0),
             file_pages := (file_pages w)(fd := (\<lambda>i. if i < 128 then 0 else file_pages w fd i))\<rparr>)))"

lemma attach_block_ok:
  assumes ok: "ramfs_ok w" and reg: "\<not> is_dir (nodes w n)"
    and data: "node_data (nodes w n) = NoData \<or> (\<exists>fd. node_data (nodes w n) = FileData fd)"
    and at: "attach_block n w = (fd, w1)"
  shows "ramfs_ok w1" "node_data (nodes w1 n) = FileData fd" "\<not> is_dir (nodes w1 n)"
    "contents w1 m = contents w m" "m \<noteq> n \<Longrightarrow> nodes w1 m = nodes w m"
    "fs_pfa w1 = fs_pfa w" "node_size (nodes w1 n) = node_size (nodes w n)"
proof -
  have "ramfs_ok w1 \<and> node_data (nodes w1 n) = FileData fd \<and> \<not> is_dir (nodes w1 n) \<and>
    contents w1 m = contents w m \<and> (m \<noteq> n \<longrightarrow> nodes w1 m = nodes w m) \<and>
    fs_pfa w1 = fs_pfa w \<and> node_size (nodes w1 n) = node_size (nodes w n)"
  proof (cases "node_data (nodes w n)")
    case (FileData fd')
    then show ?thesis using at ok reg by (simp add: attach_block_def)
  next
    case NoData
    let ?c = "file_data_count w"
    have fd: "fd = ?c" and w1: "w1 = (set_node n ((nodes w n)\<lparr>node_data := FileData ?c\<rparr>) w)
            \<lparr>file_data_count := ?c + 1, file_num_pages := (file_num_pages w)(?c := 0),
             file_pages := (file_pages w)(?c := (\<lambda>i. if i < 128 then 0 else file_pages w ?c i))\<rparr>"
      using at NoData by (auto simp: attach_block_def Let_def)
    have bound: "pages_bound w1 = pages_bound w" by (auto simp: pages_bound_def w1)
    have lt: "fd' < ?c" if "p < pages_bound w fd'" for p fd'
      using that by (cases "fd' < ?c") (simp_all add: pages_bound_def)
    then have pages: "file_pages w1 fd' p = file_pages w fd' p" if "p < pages_bound w fd'" for fd' p
      using that by (auto simp: w1)
    have f: "fs_pfa w1 = fs_pfa w" "fs_hhdm w1 = fs_hhdm w" "ram w1 = ram w" by (simp_all add: w1)
    have inv: "pages_inv (pages_bound w1) w1"
      using ramfs_okD(1) [OF ok] unfolding pages_inv_def bound f by (simp add: pages cong: conj_cong)
    have sz: "node_size (nodes w n) = 0" using ramfs_okD(5) [OF ok NoData reg] .
    have used: "fd' < ?c" if "node_data (nodes w m) = FileData fd'" for m fd' using ramfs_okD(2) [OF ok that] .
    have "ramfs_ok w1"
      unfolding ramfs_ok_def
    proof (intro conjI allI impI)
      show "pages_inv (pages_bound w1) w1" by (rule inv)
      fix k fd' assume *: "node_data (nodes w1 k) = FileData fd'"
      show "fd' < file_data_count w1" using * used [of k fd'] by (auto simp: w1 split: if_splits)
      show "unat (node_size (nodes w1 k)) \<le> unat (file_num_pages w1 fd') * 4096"
        using * used [of k fd'] ramfs_okD(3) [OF ok, of k fd'] sz by (auto simp: w1 split: if_splits)
      show "k = m" if "node_data (nodes w1 m) = FileData fd'" for m
        using * that used [of k fd'] used [of m fd'] ramfs_okD(4) [OF ok, of k fd' m]
        by (auto simp: w1 split: if_splits)
    next
      fix k assume "node_data (nodes w1 k) = NoData" "\<not> is_dir (nodes w1 k)"
      then show "node_size (nodes w1 k) = 0" using ramfs_okD(5) [OF ok, of k] by (auto simp: w1 split: if_splits)
    qed
    moreover have "contents w1 m = contents w m"
    proof (cases "m = n")
      case True
      then show ?thesis using NoData sz by (simp add: contents_def w1)
    next
      case False
      then have same: "nodes w1 m = nodes w m" by (simp add: w1)
      have "fbyte w1 fd' = fbyte w fd'" if "node_data (nodes w m) = FileData fd'" for fd'
        using used [OF that] by (auto simp: fbyte_def w1)
      then show ?thesis by (simp add: contents_def same split: fs_data.split)
    qed
    ultimately show ?thesis using reg by (simp add: w1 fd is_dir_def)
  qed (use data in auto)
  then show "ramfs_ok w1" "node_data (nodes w1 n) = FileData fd" "\<not> is_dir (nodes w1 n)"
    "contents w1 m = contents w m" "m \<noteq> n \<Longrightarrow> nodes w1 m = nodes w m"
    "fs_pfa w1 = fs_pfa w" "node_size (nodes w1 n) = node_size (nodes w n)" by simp_all
qed

section \<open>What a write does\<close>

lemma ramfs_write_attach:
  assumes "\<not> is_dir (nodes w n)" "attach_block n w = (fd, w1)"
    and "node_data (nodes w n) = NoData \<and> file_data_count w < MAX_RAMFS_FILES \<or> (\<exists>fd. node_data (nodes w n) = FileData fd)"
  shows "ramfs_write n offset data w =
    (let sz = of_nat (length data) :: u32; end_page = ucast ((offset + ucast sz - 1) div 4096) :: u32 in
      (case alloc_file_pages fd (file_num_pages w1 fd) end_page w1 of
              (False, w) \<Rightarrow> Some (- 1, w)
            | (True, w) \<Rightarrow>
                (let w = (if end_page \<ge> file_num_pages w fd
                         then w\<lparr>file_num_pages := (file_num_pages w)(fd := end_page + 1)\<rparr> else w) in
                (case write_pages fd offset 0 sz data w of
                  None \<Rightarrow> None
                | Some (written, w) \<Rightarrow>
                    let w = (if offset + ucast written > ucast (node_size (nodes w n))
                             then set_node n ((nodes w n)\<lparr>node_size := ucast (offset + ucast written)\<rparr>) w else w)
                    in Some (sint written, w)))))"
  using assms(1,3) assms(2) [symmetric]
  by (auto simp: ramfs_write_def attach_block_def Let_def)

lemma splice_bytes:
  fixes f g :: "nat \<Rightarrow> u8"
  assumes "\<And>i. i < max s (off + length data) \<Longrightarrow>
      g i = (if off \<le> i \<and> i < off + length data then data ! (i - off) else f i)"
  shows "map g [0 ..< max s (off + length data)] =
    take off (map f [0 ..< s] @ map f [s ..< off]) @ data @ drop (off + length data) (map f [0 ..< s])"
proof (rule nth_equalityI)
  have gap: "min s off + (off - s) = off" by simp
  fix i assume "i < length (map g [0 ..< max s (off + length data)])"
  then have i: "i < max s (off + length data)" by simp
  show "map g [0 ..< max s (off + length data)] ! i =
      (take off (map f [0 ..< s] @ map f [s ..< off]) @ data @ drop (off + length data) (map f [0 ..< s])) ! i"
    using i assms [OF i] gap by (auto simp: nth_append not_less)
qed auto

lemma ramfs_write_splice:
  assumes ok: "ramfs_ok w" and reg: "\<not> is_dir (nodes w n)"
    and kind: "node_data (nodes w n) = NoData \<and> file_data_count w < MAX_RAMFS_FILES \<or> (\<exists>fd. node_data (nodes w n) = FileData fd)"
    and data: "data \<noteq> []" "unat off + length data \<le> 524288"
    and frames: "128 \<le> card (low_frames (fs_pfa w))"
  shows "\<exists>w' hole. ramfs_write n off data w = Some (int (length data), w') \<and> ramfs_ok w' \<and>
    length hole = unat off - length (contents w n) \<and>
    contents w' n = take (unat off) (contents w n @ hole) @ data @ drop (unat off + length data) (contents w n) \<and>
    (\<forall>m. m \<noteq> n \<longrightarrow> contents w' m = contents w m \<and> nodes w' m = nodes w m)"
proof -
  obtain fd w1 where at: "attach_block n w = (fd, w1)" by (cases "attach_block n w")
  note a = attach_block_ok [OF ok reg _ at]
  have a': "ramfs_ok w1" "node_data (nodes w1 n) = FileData fd" "\<not> is_dir (nodes w1 n)"
    "\<And>m. contents w1 m = contents w m" "\<And>m. m \<noteq> n \<Longrightarrow> nodes w1 m = nodes w m" "fs_pfa w1 = fs_pfa w"
    using a kind by blast+
  let ?L = "length data" and ?o = "unat off" and ?k = "unat (file_num_pages w1 fd)"
  let ?sz = "of_nat (length data) :: u32"
  let ?ep = "ucast ((off + ucast ?sz - 1) div 4096) :: u32"
  have L: "0 < ?L" using data(1) by simp
  have sz: "unat ?sz = ?L" using data(2) by (intro unat_of_nat_small) simp
  have sz64: "unat (ucast ?sz :: u64) = ?L" using data(2) sz by (subst unat_ucast_small) simp_all
  have sum: "unat (off + ucast ?sz) = ?o + ?L"
    using data(2) sz64 by (intro trans [OF unat_add_lem [THEN iffD1]]) simp_all
  have "1 \<le> off + ucast ?sz" by (simp only: word_le_nat_alt sum unat_1) (use L in linarith)
  from unat_sub [OF this] have "unat (off + ucast ?sz - 1) = ?o + ?L - 1" by (simp only: sum unat_1)
  moreover have "(?o + ?L - 1) div 4096 < 128" using data(2) L by (intro less_mult_imp_div_less) simp
  ultimately have pe: "unat ?ep = (?o + ?L - 1) div 4096" "unat ?ep < 128"
    by (subst unat_ucast_small; simp add: unat_div)+
  have fd: "fd < file_data_count w1" using ramfs_okD(2) [OF a'(1,2)] .
  note bound = file_size_bound [OF a'(1,2)]
  have inv1: "pages_inv (pages_bound w1) w1" using a'(1) by (rule ramfs_okD)
  from alloc_file_pages_inv [OF inv1 bound(2), of ?ep] frames a'(6)
  obtain w2 where al: "alloc_file_pages fd (file_num_pages w1 fd) ?ep w1 = (True, w2)"
    and inv2: "pages_inv ((pages_bound w1)(fd := max ?k (Suc (unat ?ep)))) w2"
    using pe(2) by (auto simp: min_def)
  note f2 = alloc_file_pages_fields [OF al]
  let ?w3 = "if ?ep \<ge> file_num_pages w2 fd then w2\<lparr>file_num_pages := (file_num_pages w2)(fd := ?ep + 1)\<rparr> else w2"
  define w3 where "w3 = ?w3"
  have num2: "file_num_pages w2 = file_num_pages w1" using f2 by simp
  have f3: "nodes w3 = nodes w1" "file_data_count w3 = file_data_count w1" "\<And>fd'. fd' \<noteq> fd \<Longrightarrow> file_num_pages w3 fd' = file_num_pages w1 fd'"
    "fs_pfa w3 = fs_pfa w2" "fs_hhdm w3 = fs_hhdm w2" "file_pages w3 = file_pages w2" "ram w3 = ram w2"
    using f2 by (simp_all add: w3_def)
  have e1: "unat (?ep + 1) = Suc (unat ?ep)" using pe(2) by (simp add: unat_word_ariths)
  have num3: "unat (file_num_pages w3 fd) = max ?k (Suc (unat ?ep))"
  proof (cases "?ep \<ge> file_num_pages w1 fd")
    case True
    then have "?k \<le> unat ?ep" by (simp only: word_le_nat_alt)
    with True show ?thesis unfolding w3_def num2 by (simp only: if_True) (simp add: e1)
  next
    case False
    then have "unat ?ep < ?k" by (simp only: word_le_nat_alt not_le)
    with False show ?thesis unfolding w3_def num2 by (simp only: if_False num2)
  qed
  have bound3: "pages_bound w3 = (pages_bound w1)(fd := max ?k (Suc (unat ?ep)))"
    using num3 f3 fd by (auto simp: pages_bound_def)
  have inv3: "pages_inv (pages_bound w3) w3"
    unfolding bound3 using inv2 pages_inv_cong [OF f3(4,5,6)] by blast
  have fit: "?o + ?L \<le> max ?k (Suc (unat ?ep)) * 4096"
  proof -
    have "?o + ?L - 1 < Suc ((?o + ?L - 1) div 4096) * 4096"
      using dividend_less_div_times [of 4096 "?o + ?L - 1"] by simp
    moreover have "a - 1 < b \<Longrightarrow> a \<le> b" for a b :: nat by linarith
    ultimately have "?o + ?L \<le> Suc (unat ?ep) * 4096" unfolding pe(1) by blast
    also have "\<dots> \<le> max ?k (Suc (unat ?ep)) * 4096" by (intro mult_right_mono) simp_all
    finally show ?thesis .
  qed
  have b3: "pages_bound w3 fd = unat (file_num_pages w3 fd)" using bound3 num3 by simp
  from write_pages_spec [OF inv3 b3, of off ?sz data 0]
  obtain r where wr: "write_pages fd off 0 ?sz data w3 = Some (?sz, w3\<lparr>ram := r\<rparr>)"
    and bytes: "\<And>fd' o'. o' < pages_bound w3 fd' * 4096 \<Longrightarrow>
       fbyte (w3\<lparr>ram := r\<rparr>) fd' o' =
         (if fd' = fd \<and> ?o \<le> o' \<and> o' < ?o + ?L then data ! (o' - ?o) else fbyte w3 fd' o')"
    using fit sz num3 b3 data(2) by auto
  define w4 where "w4 = w3\<lparr>ram := r\<rparr>"
  have nodes4: "nodes w4 = nodes w1" using f3 by (simp add: w4_def)
  define s where "s = node_size (nodes w1 n)"
  define w5 where "w5 = (if off + ucast ?sz > ucast s then set_node n ((nodes w4 n)\<lparr>node_size := ucast (off + ucast ?sz)\<rparr>) w4 else w4)"
  have run: "ramfs_write n off data w = Some (int ?L, w5)"
    using al wr [unfolded w3_def] nodes4 sint_of_small [of ?L] data(2)
    by (simp add: ramfs_write_attach [OF reg at kind] Let_def w5_def w4_def w3_def s_def)
  have us: "unat (ucast s :: u64) = unat s" using unat_less_power [of s] by (intro unat_ucast_small) simp
  have osz: "unat (ucast (off + ucast ?sz) :: u32) = ?o + ?L" using sum data(2) by (subst unat_ucast_small) simp_all
  have size5: "unat (node_size (nodes w5 n)) = max (unat s) (?o + ?L)"
    using sum us osz nodes4 by (auto simp: w5_def word_less_nat_alt s_def)
  have n5: "node_data (nodes w5 n) = FileData fd" "\<And>m. m \<noteq> n \<Longrightarrow> nodes w5 m = nodes w1 m"
    "is_dir (nodes w5 n) = is_dir (nodes w1 n)"
    using nodes4 a'(2) by (auto simp: w5_def is_dir_def)
  have f5: "file_num_pages w5 = file_num_pages w3" "file_data_count w5 = file_data_count w1" "pages_bound w5 = pages_bound w3"
    "fbyte w5 = fbyte (w3\<lparr>ram := r\<rparr>)"
    using f3 by (auto simp: w5_def w4_def pages_bound_def fbyte_def fun_eq_iff)
  have bd: "pages_bound w1 fd' \<le> pages_bound w3 fd'" for fd' unfolding bound3 by (simp add: bound(2))
  have keep: "fbyte w5 fd' o' = fbyte w1 fd' o'" if "fd' \<noteq> fd" "o' < pages_bound w1 fd' * 4096" for fd' o'
  proof -
    have "o' < pages_bound w3 fd' * 4096" using that(2) bd [of fd'] by (meson less_le_trans mult_le_mono1)
    from bytes [OF this] that(1) have "fbyte w5 fd' o' = fbyte w3 fd' o'" unfolding f5(4) by simp
    also have "\<dots> = fbyte w1 fd' o'" using f2 that(1) by (simp add: fbyte_def f3)
    finally show ?thesis .
  qed
  have here: "fbyte w5 fd o' = (if ?o \<le> o' \<and> o' < ?o + ?L then data ! (o' - ?o) else fbyte w3 fd o')"
    if "o' < max (unat s) (?o + ?L)" for o'
  proof -
    have "unat s \<le> ?k * 4096" using ramfs_okD(3) [OF a'(1,2)] by (simp add: s_def)
    also have "\<dots> \<le> max ?k (Suc (unat ?ep)) * 4096" by (intro mult_right_mono) simp_all
    finally have "max (unat s) (?o + ?L) \<le> pages_bound w3 fd * 4096" using fit by (simp add: b3 num3)
    with that have "o' < pages_bound w3 fd * 4096" by linarith
    from bytes [OF this] show ?thesis unfolding f5(4) by simp
  qed
  have same: "fbyte w3 fd o' = fbyte w1 fd o'" if "o' < unat s" for o'
  proof -
    have "o' div 4096 < ?k" using that ramfs_okD(3) [OF a'(1,2)] by (intro less_mult_imp_div_less) (simp add: s_def)
    then show ?thesis using f2 by (simp add: fbyte_def f3)
  qed
  have c1: "contents w n = map (fbyte w1 fd) [0 ..< unat s]"
    using a'(2) a'(4) [of n] by (simp add: contents_def s_def)
  also have "\<dots> = map (fbyte w3 fd) [0 ..< unat s]" using same by simp
  finally have c3: "contents w n = map (fbyte w3 fd) [0 ..< unat s]" .
  define hole where "hole = map (fbyte w3 fd) [unat s ..< ?o]"
  have "contents w5 n = map (fbyte w5 fd) [0 ..< max (unat s) (?o + ?L)]"
    using n5(1) size5 by (simp add: contents_def)
  also have "\<dots> = take ?o (contents w n @ hole) @ data @ drop (?o + ?L) (contents w n)"
    unfolding c3 hole_def by (rule splice_bytes [OF here])
  finally have c5: "contents w5 n = take ?o (contents w n @ hole) @ data @ drop (?o + ?L) (contents w n)" .
  have others: "contents w5 m = contents w m" if "m \<noteq> n" for m
  proof -
    have "contents w5 m = contents w1 m"
    proof (cases "node_data (nodes w1 m)")
      case (FileData fd')
      have ne: "fd' \<noteq> fd" using ramfs_okD(4) [OF a'(1,2), of m] FileData that by auto
      have "fbyte w5 fd' o' = fbyte w1 fd' o'" if "o' < unat (node_size (nodes w1 m))" for o'
        using keep [OF ne, of o'] that ramfs_okD(3) [OF a'(1) FileData] file_size_bound(2) [OF a'(1) FileData] by simp
      then show ?thesis using FileData n5(2) [OF that] by (simp add: contents_def)
    qed (simp_all add: contents_def n5(2) [OF that])
    then show ?thesis using a'(4) by simp
  qed
  have ok5: "ramfs_ok w5"
    unfolding ramfs_ok_def
  proof (intro conjI allI impI)
    have "fs_pfa w5 = fs_pfa w3" "fs_hhdm w5 = fs_hhdm w3" "file_pages w5 = file_pages w3"
      by (simp_all add: w5_def w4_def)
    from pages_inv_cong [OF this] inv3 show "pages_inv (pages_bound w5) w5" unfolding f5(3) by blast
    fix m fd' assume m: "node_data (nodes w5 m) = FileData fd'"
    have m1: "node_data (nodes w1 m) = FileData fd'" using m n5 a'(2) by (cases "m = n") auto
    show "fd' < file_data_count w5" using ramfs_okD(2) [OF a'(1) m1] by (simp add: f5)
    show "unat (node_size (nodes w5 m)) \<le> unat (file_num_pages w5 fd') * 4096"
    proof (cases "m = n")
      case True
      then have "fd' = fd" using m n5(1) by simp
      moreover have "unat s \<le> max ?k (Suc (unat ?ep)) * 4096"
      proof (rule order_trans)
        show "unat s \<le> ?k * 4096" using ramfs_okD(3) [OF a'(1,2)] by (simp add: s_def)
        show "?k * 4096 \<le> max ?k (Suc (unat ?ep)) * 4096" by (intro mult_right_mono) simp_all
      qed
      ultimately show ?thesis using True size5 fit by (simp add: f5 num3)
    next
      case False
      then have "fd' \<noteq> fd" using m1 ramfs_okD(4) [OF a'(1) _ a'(2), of m] by auto
      then show ?thesis using ramfs_okD(3) [OF a'(1) m1] n5(2) [OF False] by (simp add: f5 f3)
    qed
    show "m = k" if "node_data (nodes w5 k) = FileData fd'" for k
    proof -
      have "node_data (nodes w1 k) = FileData fd'" using that n5 a'(2) by (cases "k = n") auto
      then show ?thesis using ramfs_okD(4) [OF a'(1) m1] by blast
    qed
  next
    fix m assume "node_data (nodes w5 m) = NoData" "\<not> is_dir (nodes w5 m)"
    then show "node_size (nodes w5 m) = 0" using n5 ramfs_okD(5) [OF a'(1), of m] by (cases "m = n") auto
  qed
  have "length hole = ?o - length (contents w n)" by (simp add: hole_def c3)
  with run ok5 c5 others n5(2) a'(5) show ?thesis by (intro exI [of _ w5] exI [of _ hole]) simp
qed

lemma ramfs_write_empty:
  assumes ok: "ramfs_ok w" and reg: "\<not> is_dir (nodes w n)" and fd: "node_data (nodes w n) = FileData fd"
    and frames: "128 \<le> card (low_frames (fs_pfa w))"
  shows "\<exists>w'. ramfs_write n 0 [] w = Some (0, w') \<and> nodes w' = nodes w \<and> file_num_pages w' fd = 0"
proof -
  have at: "attach_block n w = (fd, w)" using fd by (simp add: attach_block_def)
  have bound: "pages_bound w fd = unat (file_num_pages w fd)" using file_size_bound(2) [OF ok fd] .
  from alloc_file_pages_inv [OF ramfs_okD(1) [OF ok] bound, of "0xFFFFFFFF"] frames
  obtain w2 where al: "alloc_file_pages fd (file_num_pages w fd) 0xFFFFFFFF w = (True, w2)" by auto
  note f2 = alloc_file_pages_fields [OF al]
  have ge: "file_num_pages w2 fd \<le> 0xFFFFFFFF"
    using unat_less_power [of "file_num_pages w2 fd"] by (simp add: word_le_nat_alt)
  let ?w3 = "w2\<lparr>file_num_pages := (file_num_pages w2)(fd := 0)\<rparr>"
  have e: "(ucast ((0 + ucast (of_nat (length ([]::u8 list)) :: u32) - 1 :: u64) div 4096) :: u32) = 0xFFFFFFFF"
    by simp
  have wrap: "(4294967296 :: u32) = 0" by simp
  have "write_pages fd 0 0 0 [] ?w3 = Some (0, ?w3)" by (subst write_pages.simps) simp
  moreover have kind: "node_data (nodes w n) = NoData \<and> file_data_count w < MAX_RAMFS_FILES \<or>
      (\<exists>fd. node_data (nodes w n) = FileData fd)" using fd by simp
  ultimately have "ramfs_write n 0 [] w = Some (0, ?w3)"
    unfolding ramfs_write_attach [OF reg at kind] Let_def e
    using al ge f2 by (simp add: wrap)
  then show ?thesis using f2 by (intro exI [of _ ?w3]) simp
qed

section \<open>A small file system to try\<close>

text \<open>Frames 1 to 255 are free; node 1 is an empty regular file.\<close>

definition demo_pfa256 :: pfa where
  "demo_pfa256 = \<lparr>low_bits = (\<lambda>i. if i = 0 then 1 else if i < 32 then 0 else 0xFF), high_bits = (\<lambda>_. 0xFF),
     low_bitmap_at = 0, bitmap_at = 0, bitmap_base = 0x100000000, free_pages_count = 0, total_pages_count = 0,
     low_free_count = 255, low_total_count = 255, next_mmio_addr = 0\<rparr>"

definition demo_fs :: fs_world where
  "demo_fs = \<lparr>nodes = (\<lambda>_. zero_node)(RamfsNode 1 := zero_node\<lparr>node_name := ''a'', node_flags := VFS_FILE\<rparr>),
     g_mounts = (\<lambda>_. \<lparr>mp_path = [], mp_root = None, mp_refcount = 0\<rparr>), g_mount_count = 0,
     g_fds = (\<lambda>_. \<lparr>fd_node = None, fd_offset = 0, fd_flags = 0, fd_refcount = 0\<rparr>),
     g_fs_types = (\<lambda>_. \<lparr>fst_name = [], fst_mount = None, fst_unmount = None\<rparr>), g_fs_type_count = 0, g_vfs_root = None,
     ramfs_children = (\<lambda>_ _. None), ramfs_child_names = (\<lambda>_ _. []), ramfs_node_count = 2,
     file_pages = (\<lambda>_ _. 0), file_num_pages = (\<lambda>_. 0), file_data_count = 0,
     devfs_children = (\<lambda>_. DevfsRoot), devfs_node_count = 0,
     procfs_children = (\<lambda>_. ProcfsRoot), procfs_content = (\<lambda>_. []), procfs_node_count = 0,
     fs_pfa = demo_pfa256, ram = (\<lambda>_. 0xAA), fs_hhdm = 0xFFFF800000000000\<rparr>"

lemma demo256_free: "free_frames (low_bits demo_pfa256) = {1..<256}" "free_frames (high_bits demo_pfa256) = {}"
proof -
  have "bitmap_is_free (low_bits demo_pfa256) i \<longleftrightarrow> 1 \<le> i \<and> i < 256" if "i < MAX_PAGES" for i
  proof -
    consider "i div 8 = 0" | "i div 8 \<noteq> 0" "i div 8 < 32" | "\<not> i div 8 < 32" by blast
    then show ?thesis
    proof cases
      case 1
      then have "i < 8" by simp
      then show ?thesis by (auto simp: bitmap_is_free_bit demo_pfa256_def bit_1_iff)
    next
      case 2
      then have "1 \<le> i" "i < 256" by auto
      with 2 show ?thesis by (simp add: bitmap_is_free_bit demo_pfa256_def)
    next
      case 3
      then have "\<not> i < 256" by auto
      with 3 show ?thesis using bit_255 [of "i mod 8"] by (simp add: bitmap_is_free_bit demo_pfa256_def)
    qed
  qed
  then show "free_frames (low_bits demo_pfa256) = {1..<256}"
    by (auto simp: free_frames_def MAX_PAGES_def)
  show "free_frames (high_bits demo_pfa256) = {}" by (simp add: demo_pfa256_def free_frames_full)
qed

lemma demo256_inv: "pfa_inv demo_pfa256"
  unfolding pfa_inv_def demo256_free by (auto simp: demo_pfa256_def)

lemma demo256_card: "card (low_frames demo_pfa256) = 255"
proof -
  have "inj_on (\<lambda>i. of_nat i * PAGE_SIZE) {1..<256::nat}"
    by (rule inj_onI) (simp add: frame_inj MAX_PAGES_def)
  from card_image [OF this] show ?thesis by (simp add: low_frames_def demo256_free)
qed

lemma demo_fs_ok: "ramfs_ok demo_fs"
  using demo256_inv
  by (auto simp: ramfs_ok_def demo_fs_def pages_inv_def hhdm_ok_def pages_bound_def zero_node_def split: if_splits)

lemma demo_fs_node:
  "node_data (nodes demo_fs (RamfsNode 1)) = NoData" "\<not> is_dir (nodes demo_fs (RamfsNode 1))"
  "file_data_count demo_fs < MAX_RAMFS_FILES" "128 \<le> card (low_frames (fs_pfa demo_fs))"
  "contents demo_fs n = []"
  by (simp_all add: demo_fs_def zero_node_def is_dir_def vfs_flag_defs MAX_RAMFS_FILES_def demo256_card contents_def
      split: fs_data.split)

text \<open>The same with a file of five bytes in frame 256.\<close>

definition demo_fs_file :: fs_world where
  "demo_fs_file = (set_node (RamfsNode 1) ((nodes demo_fs (RamfsNode 1))\<lparr>node_data := FileData 0, node_size := 5\<rparr>) demo_fs)
     \<lparr>file_data_count := 1, file_num_pages := (\<lambda>_. 1), file_pages := (\<lambda>_ _. 0xFFFF800000100000)\<rparr>"

lemma demo_fs_file_ok: "ramfs_ok demo_fs_file"
proof -
  have page: "low_page 0x100000" by (simp add: low_page_def PAGE_SIZE_def)
  have "0x100000 \<notin> low_frames demo_pfa256"
  proof
    assume "0x100000 \<in> low_frames demo_pfa256"
    then obtain i where i: "i < 256" "0x100000 = of_nat i * PAGE_SIZE" by (auto simp: low_frames_def demo256_free)
    then have "unat (0x100000 :: u64) = i * 4096" using unat_frame [of i] by simp
    with i show False by simp
  qed
  with page have page: "\<exists>a. low_page a \<and> a \<notin> low_frames demo_pfa256 \<and> (0xFFFF800000100000 :: u64) = a + 0xFFFF800000000000"
    by (intro exI [of _ "0x100000"]) simp
  have "pages_inv (pages_bound demo_fs_file) demo_fs_file"
    using demo256_inv page
    by (auto simp: pages_inv_def pages_bound_def demo_fs_file_def demo_fs_def hhdm_ok_def split: if_splits)
  then show ?thesis
    by (auto simp: ramfs_ok_def demo_fs_file_def demo_fs_def zero_node_def split: if_splits)
qed

section \<open>Properties\<close>

text \<open>\<open>ramfs_read\<close> of a regular file returns the bytes of the file from the offset on, at
  most as many as asked for and never past the end of the file, and their number.\<close>

theorem ramfs_read_returns_section:
  assumes "ramfs_ok w" "\<not> is_dir (nodes w n)"
  shows "ramfs_read n off sz w =
    Some (int (min (unat sz) (length (contents w n) - unat off)), take (unat sz) (drop (unat off) (contents w n)))"
  using ramfs_read_section [OF assms] by (simp add: Let_def min.commute)

theorem ramfs_read_returns_section_witness:
  "ramfs_read (RamfsNode 1) 0 16 demo_fs = Some (0, [])"
  using ramfs_read_returns_section [OF demo_fs_ok demo_fs_node(2), of 0 16] by (simp add: demo_fs_node)

text \<open>C4. A write of at least one byte that stays within 512 KiB, with a file block and 128 low
  frames left, overwrites exactly its section of the file (growing it if needed; a gap before the
  section holds whatever the new pages held), returns the number of bytes, keeps the
  invariant and changes neither the contents nor the node of any other file.\<close>

theorem ramfs_write_refines_splice:
  assumes "ramfs_ok w" "\<not> is_dir (nodes w n)"
    and "node_data (nodes w n) = NoData \<and> file_data_count w < MAX_RAMFS_FILES \<or> (\<exists>fd. node_data (nodes w n) = FileData fd)"
    and "data \<noteq> []" "unat off + length data \<le> 524288"
    and "128 \<le> card (low_frames (fs_pfa w))"
  shows "\<exists>w' gap. ramfs_write n off data w = Some (int (length data), w') \<and> ramfs_ok w' \<and>
    length gap = unat off - length (contents w n) \<and>
    contents w' n = take (unat off) (contents w n @ gap) @ data @ drop (unat off + length data) (contents w n) \<and>
    (\<forall>m. m \<noteq> n \<longrightarrow> contents w' m = contents w m \<and> nodes w' m = nodes w m)"
  using ramfs_write_splice [OF assms] .

theorem ramfs_write_refines_splice_witness:
  "\<exists>w'. ramfs_write (RamfsNode 1) 0 [1, 2, 3] demo_fs = Some (3, w') \<and> contents w' (RamfsNode 1) = [1, 2, 3]"
proof -
  have "\<exists>w' gap. ramfs_write (RamfsNode 1) 0 [1, 2, 3] demo_fs = Some (int (length [1, 2, 3 :: u8]), w') \<and> ramfs_ok w' \<and>
    length gap = unat (0 :: u64) - length (contents demo_fs (RamfsNode 1)) \<and>
    contents w' (RamfsNode 1) = take (unat (0 :: u64)) (contents demo_fs (RamfsNode 1) @ gap) @ [1, 2, 3] @
      drop (unat (0 :: u64) + length [1, 2, 3 :: u8]) (contents demo_fs (RamfsNode 1)) \<and>
    (\<forall>m. m \<noteq> RamfsNode 1 \<longrightarrow> contents w' m = contents demo_fs m \<and> nodes w' m = nodes demo_fs m)"
    by (rule ramfs_write_refines_splice [OF demo_fs_ok demo_fs_node(2)]) (use demo_fs_node in simp_all)
  then show ?thesis by (auto simp: demo_fs_node)
qed

text \<open>C39. A write of zero bytes at offset 0 loses the file: \<open>(offset + size - 1) / 4096\<close> wraps
  to the largest page number, so the call takes frames until the block has 128 pages and then
  wraps the page count to 0.  Every later read of the file returns nothing although the size
  in its node is unchanged.\<close>

theorem ramfs_empty_write_loses_file:
  assumes "ramfs_ok w" "\<not> is_dir (nodes w n)" "node_data (nodes w n) = FileData fd"
    and "128 \<le> card (low_frames (fs_pfa w))"
  shows "\<exists>w'. ramfs_write n 0 [] w = Some (0, w') \<and> node_size (nodes w' n) = node_size (nodes w n) \<and>
    (\<forall>off sz. ramfs_read n off sz w' = Some (0, []))"
proof -
  obtain w' where w': "ramfs_write n 0 [] w = Some (0, w')" "nodes w' = nodes w" "file_num_pages w' fd = 0"
    using ramfs_write_empty [OF assms] by blast
  have "read_pages fd s off r [] w' = Some []" for s off r
    using w'(3) by (subst read_pages.simps) (simp add: Let_def)
  then have "ramfs_read n off sz w' = Some (0, [])" for off sz
    using assms(2,3) w'(2) by (simp add: ramfs_read_def Let_def)
  with w' show ?thesis by (intro exI [of _ w']) simp
qed

theorem ramfs_empty_write_loses_file_witness:
  "\<exists>w'. ramfs_write (RamfsNode 1) 0 [] demo_fs_file = Some (0, w') \<and> node_size (nodes w' (RamfsNode 1)) = 5 \<and>
     ramfs_read (RamfsNode 1) 0 5 w' = Some (0, [])"
  using ramfs_empty_write_loses_file [OF demo_fs_file_ok, of "RamfsNode 1" 0]
  by (auto simp: demo_fs_file_def demo_fs_def zero_node_def is_dir_def vfs_flag_defs demo256_card)

end
