(* ===== verification/DevProcFs.thy ===== *)
theory DevProcFs
  imports VfsState
begin

text \<open>
  \<open>fs/devfs.c\<close> and \<open>fs/procfs.c\<close>: a flat root directory over a static table of at most 16
  nodes.  The two files search their table with the same loop.
\<close>

section \<open>The search loop\<close>

text \<open>\<open>while (*n && *t) ...; match && *n == *t\<close>\<close>

fun table_name_match :: "string \<Rightarrow> string \<Rightarrow> bool" where
  "table_name_match (a # s) (b # t) = (if a \<noteq> b then False else table_name_match s t)"
| "table_name_match s t = (char_at s = char_at t)"

lemma table_name_match_iff: "c_string s \<Longrightarrow> c_string t \<Longrightarrow> table_name_match s t \<longleftrightarrow> s = t"
  by (induction s t rule: table_name_match.induct) (auto simp: char_at_def split: list.splits)

interpretation table_match: c_string_equality table_name_match
  by unfold_locales (rule table_name_match_iff)

section \<open>devfs\<close>

definition MAX_DEVFS_NODES :: nat where "MAX_DEVFS_NODES = 16"

primrec devfs_scan :: "nat \<Rightarrow> nat \<Rightarrow> string \<Rightarrow> fs_world \<Rightarrow> node_id option" where
  "devfs_scan 0 i name w = None"
| "devfs_scan (Suc n) i name w =
     (if table_name_match (node_name (nodes w (devfs_children w i))) name then Some (devfs_children w i)
      else devfs_scan n (Suc i) name w)"

definition devfs_finddir :: "node_id \<Rightarrow> string \<Rightarrow> fs_world \<Rightarrow> node_id option" where
  "devfs_finddir node name w = devfs_scan (devfs_node_count w) 0 name w"

definition devfs_readdir :: "node_id \<Rightarrow> u32 \<Rightarrow> fs_world \<Rightarrow> node_id option" where
  "devfs_readdir node index w =
     (if index \<ge> of_nat (devfs_node_count w) then None else Some (devfs_children w (unat index)))"

definition devfs_mount_op :: "nat \<Rightarrow> fs_world \<Rightarrow> int \<times> fs_world" where
  "devfs_mount_op mp w =
     (let x = (nodes w DevfsRoot)\<lparr>node_flags := VFS_DIRECTORY, node_data := NoData,
            op_finddir := Some DevfsFs, op_readdir := Some DevfsFs\<rparr>
      in (0, (set_node DevfsRoot x w)\<lparr>g_mounts := (g_mounts w)(mp := (g_mounts w mp)\<lparr>mp_root := Some DevfsRoot\<rparr>)\<rparr>))"

definition devfs_add_device :: "string \<Rightarrow> u64 \<Rightarrow> fs_world \<Rightarrow> fs_world" where
  "devfs_add_device name device_data w =
     (if devfs_node_count w \<ge> MAX_DEVFS_NODES then w
      else
        let i = devfs_node_count w; node = DevfsNode i;
            x = (nodes w node)\<lparr>node_name := take 31 name, node_flags := VFS_FILE,
                  node_data := DeviceData device_data, node_size := 0\<rparr>
        in (set_node node x w)\<lparr>devfs_children := (devfs_children w)(i := node), devfs_node_count := i + 1\<rparr>)"

section \<open>procfs\<close>

definition MAX_PROCFS_NODES :: nat where "MAX_PROCFS_NODES = 16"

primrec procfs_scan :: "nat \<Rightarrow> nat \<Rightarrow> string \<Rightarrow> fs_world \<Rightarrow> node_id option" where
  "procfs_scan 0 i name w = None"
| "procfs_scan (Suc n) i name w =
     (if table_name_match (node_name (nodes w (procfs_children w i))) name then Some (procfs_children w i)
      else procfs_scan n (Suc i) name w)"

definition procfs_finddir :: "node_id \<Rightarrow> string \<Rightarrow> fs_world \<Rightarrow> node_id option" where
  "procfs_finddir node name w = procfs_scan (procfs_node_count w) 0 name w"

definition procfs_readdir :: "node_id \<Rightarrow> u32 \<Rightarrow> fs_world \<Rightarrow> node_id option" where
  "procfs_readdir node index w =
     (if index \<ge> of_nat (procfs_node_count w) then None else Some (procfs_children w (unat index)))"

text \<open>The copy loop of \<open>procfs_read\<close>, with \<open>n\<close> rounds left and the rounds done in \<open>i\<close>.\<close>

primrec procfs_copy :: "nat \<Rightarrow> u64 \<Rightarrow> u64 \<Rightarrow> string \<Rightarrow> u8 list" where
  "procfs_copy 0 i offset content = []"
| "procfs_copy (Suc n) i offset content =
     (if offset + i \<ge> of_nat (length content) then []
      else of_char (content ! unat (offset + i)) # procfs_copy n (i + 1) offset content)"

definition procfs_read :: "node_id \<Rightarrow> u64 \<Rightarrow> u32 \<Rightarrow> fs_world \<Rightarrow> int \<times> u8 list" where
  "procfs_read node offset count w =
     (case node_data (nodes w node) of
        TextData t \<Rightarrow>
          let content = procfs_content w t in
          if offset \<ge> of_nat (length content) then (0, [])
          else let bytes = procfs_copy (unat count) 0 offset content in (int (length bytes), bytes)
      | _ \<Rightarrow> (0, []))"

definition procfs_mount_op :: "nat \<Rightarrow> fs_world \<Rightarrow> int \<times> fs_world" where
  "procfs_mount_op mp w =
     (let x = (nodes w ProcfsRoot)\<lparr>node_flags := VFS_DIRECTORY, node_data := NoData,
            op_finddir := Some ProcfsFs, op_readdir := Some ProcfsFs\<rparr>
      in (0, (set_node ProcfsRoot x w)\<lparr>g_mounts := (g_mounts w)(mp := (g_mounts w mp)\<lparr>mp_root := Some ProcfsRoot\<rparr>)\<rparr>))"

definition procfs_add_entry :: "string \<Rightarrow> string \<Rightarrow> fs_world \<Rightarrow> fs_world" where
  "procfs_add_entry name content w =
     (if procfs_node_count w \<ge> MAX_PROCFS_NODES then w
      else
        let i = procfs_node_count w; node = ProcfsNode i; store = take 255 content;
            x = (nodes w node)\<lparr>node_name := take 31 name, node_flags := VFS_FILE, node_data := TextData i,
                  node_size := of_nat (length store), op_read := Some ProcfsFs\<rparr>
        in (set_node node x w)
             \<lparr>procfs_content := (procfs_content w)(i := store),
              procfs_children := (procfs_children w)(i := node), procfs_node_count := i + 1\<rparr>)"

section \<open>Lookups\<close>

lemma procfs_scan_find:
  "procfs_scan n i name w =
     map_option (procfs_children w)
       (List.find (\<lambda>j. table_name_match (node_name (nodes w (procfs_children w j))) name) [i ..< i + n])"
  by (induction n arbitrary: i) (simp_all add: upt_conv_Cons del: upt_Suc)

lemma devfs_scan_find:
  "devfs_scan n i name w =
     map_option (devfs_children w)
       (List.find (\<lambda>j. table_name_match (node_name (nodes w (devfs_children w j))) name) [i ..< i + n])"
  by (induction n arbitrary: i) (simp_all add: upt_conv_Cons del: upt_Suc)

lemma find_upt_last:
  assumes "P n" "\<forall>j < n. \<not> P j"
  shows "List.find P [0 ..< Suc n] = Some n"
proof -
  have "List.find P [0 ..< n] = None" using assms(2) by (simp add: find_None_iff)
  moreover have "List.find P (xs @ [y]) = (case List.find P xs of None \<Rightarrow> (if P y then Some y else None) | r \<Rightarrow> r)"
    for xs and y :: nat by (induction xs) auto
  ultimately show ?thesis using assms(1) by simp
qed

lemma procfs_copy_take:
  assumes "unat offset + unat i \<le> length content" "length content < 2 ^ 63"
  shows "procfs_copy n i offset content =
    take n (drop (unat offset + unat i) (map of_char content))"
  using assms
proof (induction n arbitrary: i)
  case (Suc n)
  have sum: "unat (offset + i) = unat offset + unat i"
    using Suc.prems by (intro unat_add_lem [THEN iffD1]) simp
  have len: "unat (of_nat (length content) :: u64) = length content"
    using Suc.prems(2) by (intro unat_of_nat_small) simp
  show ?case
  proof (cases "unat offset + unat i < length content")
    case False
    then have "offset + i \<ge> of_nat (length content)" using sum len by (simp add: word_le_nat_alt)
    with False show ?thesis by simp
  next
    case True
    then have lt: "\<not> offset + i \<ge> of_nat (length content)" using sum len by (simp add: word_le_nat_alt)
    have i1: "unat (i + 1) = unat i + 1"
      using True Suc.prems(2) by (intro trans [OF unat_add_lem [THEN iffD1]]) simp_all
    have "procfs_copy n (i + 1) offset content = take n (drop (unat offset + unat (i + 1)) (map of_char content))"
      by (rule Suc.IH) (use True Suc.prems(2) i1 in simp_all)
    moreover have "drop (unat offset + unat i) (map of_char content :: u8 list) =
        of_char (content ! (unat offset + unat i)) # drop (Suc (unat offset + unat i)) (map of_char content)"
      using True by (simp add: Cons_nth_drop_Suc [symmetric])
    ultimately show ?thesis using lt i1 sum by simp
  qed
qed simp

section \<open>Properties\<close>

text \<open>A text added to procfs while the table has room and no entry of that name (names are
  shorter than 32 characters) can be looked up by its name, and reading the node found returns
  the first 255 characters of the text from the offset on.\<close>

theorem procfs_add_then_read:
  assumes "procfs_node_count w < MAX_PROCFS_NODES" "length name < 32" "c_string name"
    and "\<forall>i < procfs_node_count w. procfs_children w i = ProcfsNode i \<and>
           node_name (nodes w (ProcfsNode i)) \<noteq> name \<and> c_string (node_name (nodes w (ProcfsNode i)))"
  shows "let w' = procfs_add_entry name content w in
    (\<exists>n. procfs_finddir ProcfsRoot name w' = Some n \<and>
      procfs_read n offset count w' =
        (let bytes = take (unat count) (drop (unat offset) (map of_char (take 255 content))) in (int (length bytes), bytes)))"
proof -
  let ?i = "procfs_node_count w" and ?w = "procfs_add_entry name content w"
  have room: "\<not> ?i \<ge> MAX_PROCFS_NODES" using assms(1) by simp
  have cnt: "procfs_node_count ?w = Suc ?i" using room by (simp add: procfs_add_entry_def Let_def)
  have name: "node_name (nodes ?w (procfs_children ?w j)) = (if j = ?i then name else node_name (nodes w (ProcfsNode j)))"
    if "j \<le> ?i" for j
    using room assms(2,4) that by (auto simp: procfs_add_entry_def Let_def)
  have "List.find (\<lambda>j. table_name_match (node_name (nodes ?w (procfs_children ?w j))) name) [0 ..< Suc ?i] = Some ?i"
    by (rule find_upt_last) (use assms(3,4) in \<open>simp_all add: name table_name_match_iff\<close>)
  then have "procfs_finddir ProcfsRoot name ?w = Some (procfs_children ?w ?i)"
    by (simp only: procfs_finddir_def procfs_scan_find cnt add_0 option.map)
  moreover have "procfs_children ?w ?i = ProcfsNode ?i" "node_data (nodes ?w (ProcfsNode ?i)) = TextData ?i"
    "procfs_content ?w ?i = take 255 content"
    using room by (simp_all add: procfs_add_entry_def Let_def)
  moreover have len: "unat (of_nat (length (take 255 content)) :: u64) = length (take 255 content)"
    by (intro unat_of_nat_small) simp
  moreover have "procfs_copy (unat count) 0 offset (take 255 content) =
      take (unat count) (drop (unat offset) (map of_char (take 255 content)))"
    if "\<not> offset \<ge> of_nat (length (take 255 content))"
  proof -
    have "unat offset \<le> length (take 255 content)" using that len unfolding word_le_nat_alt by linarith
    moreover have "length (take 255 content) < 2 ^ 63" by simp
    ultimately show ?thesis using procfs_copy_take [of offset 0 "take 255 content" "unat count"] by simp
  qed
  ultimately show ?thesis
    by (auto simp: procfs_read_def Let_def word_le_nat_alt)
qed

theorem procfs_add_then_read_witness:
  "let w' = procfs_add_entry ''version'' ''Rhoudveine'' empty_world in
    (\<exists>n. procfs_finddir ProcfsRoot ''version'' w' = Some n \<and>
      procfs_read n 2 4 w' = (4, map of_char ''oudv''))"
  using procfs_add_then_read [of empty_world "''version''" "''Rhoudveine''" 2 4]
  by (simp add: empty_world_def MAX_PROCFS_NODES_def Let_def)

end
