(* ===== verification/Vfs.thy ===== *)
theory Vfs
  imports RamfsFiles DevProcFs
begin

text \<open>
  \<open>fs/vfs.c\<close>: the filesystem registry, the mount table, path resolution, the descriptor
  table and the operations on paths and descriptors.  The call through a function pointer of a
  node is a case distinction over the file system the pointer belongs to; only the functions
  the three file systems on static pools install appear there.  A result \<open>None\<close> is undefined behaviour:
  a NULL pointer dereferenced, or the undefined case of the file system called.
\<close>

section \<open>Calls through the nodes\<close>

definition call_finddir :: "fs_kind \<Rightarrow> node_id \<Rightarrow> string \<Rightarrow> fs_world \<Rightarrow> node_id option" where
  "call_finddir k n name w =
     (case k of RamfsFs \<Rightarrow> ramfs_finddir n name w | DevfsFs \<Rightarrow> devfs_finddir n name w
      | ProcfsFs \<Rightarrow> procfs_finddir n name w | Fat32Fs \<Rightarrow> None)"

definition call_readdir :: "fs_kind \<Rightarrow> node_id \<Rightarrow> u32 \<Rightarrow> fs_world \<Rightarrow> node_id option" where
  "call_readdir k n index w =
     (case k of RamfsFs \<Rightarrow> ramfs_readdir n index w | DevfsFs \<Rightarrow> devfs_readdir n index w
      | ProcfsFs \<Rightarrow> procfs_readdir n index w | Fat32Fs \<Rightarrow> None)"

definition call_read :: "fs_kind \<Rightarrow> node_id \<Rightarrow> u64 \<Rightarrow> u32 \<Rightarrow> fs_world \<Rightarrow> (int \<times> u8 list) option" where
  "call_read k n offset sz w =
     (case k of RamfsFs \<Rightarrow> ramfs_read n offset sz w | DevfsFs \<Rightarrow> None
      | ProcfsFs \<Rightarrow> Some (procfs_read n offset sz w) | Fat32Fs \<Rightarrow> None)"

definition call_write :: "fs_kind \<Rightarrow> node_id \<Rightarrow> u64 \<Rightarrow> u8 list \<Rightarrow> fs_world \<Rightarrow> (int \<times> fs_world) option" where
  "call_write k n offset data w =
     (case k of RamfsFs \<Rightarrow> ramfs_write n offset data w | DevfsFs \<Rightarrow> None | ProcfsFs \<Rightarrow> None | Fat32Fs \<Rightarrow> None)"

definition call_create :: "fs_kind \<Rightarrow> node_id \<Rightarrow> string \<Rightarrow> u32 \<Rightarrow> fs_world \<Rightarrow> (int \<times> fs_world) option" where
  "call_create k n name flags w =
     (case k of RamfsFs \<Rightarrow> Some (ramfs_create n name flags w) | DevfsFs \<Rightarrow> None | ProcfsFs \<Rightarrow> None | Fat32Fs \<Rightarrow> None)"

definition call_mkdir :: "fs_kind \<Rightarrow> node_id \<Rightarrow> string \<Rightarrow> fs_world \<Rightarrow> (int \<times> fs_world) option" where
  "call_mkdir k n name w =
     (case k of RamfsFs \<Rightarrow> Some (ramfs_mkdir_op n name w) | DevfsFs \<Rightarrow> None | ProcfsFs \<Rightarrow> None | Fat32Fs \<Rightarrow> None)"

text \<open>\<open>fat32_mount\<close> as the repository configures it, without \<open>CONFIG_AHCI\<close>: it takes two pages, clears the 120
  bytes of the first one's structure, and gives both back.  No node of FAT32 ever exists then; the calls
  above have no case for it.  With a disk the file system is modelled in theory \<open>Fat32\<close>.\<close>

definition fat32_mount_without_disk :: "fs_world \<Rightarrow> int \<times> fs_world" where
  "fat32_mount_without_disk w =
     (case pfa_alloc (fs_pfa w) of (fs, p) \<Rightarrow>
        let w = w\<lparr>fs_pfa := p\<rparr> in
        if fs = 0 then (- 1, w)
        else
          let w = w\<lparr>ram := store_bytes (ram w) fs (replicate 120 0)\<rparr> in
          (case pfa_alloc (fs_pfa w) of (boot_sector, p) \<Rightarrow>
             if boot_sector = 0 then (- 1, w\<lparr>fs_pfa := pfa_free p fs\<rparr>)
             else (- 1, w\<lparr>fs_pfa := pfa_free (pfa_free p boot_sector) fs\<rparr>)))"

definition call_mount :: "fs_kind \<Rightarrow> nat \<Rightarrow> fs_world \<Rightarrow> int \<times> fs_world" where
  "call_mount k mp w =
     (case k of RamfsFs \<Rightarrow> ramfs_mount_op mp w | DevfsFs \<Rightarrow> devfs_mount_op mp w
      | ProcfsFs \<Rightarrow> procfs_mount_op mp w | Fat32Fs \<Rightarrow> fat32_mount_without_disk w)"

section \<open>Tables\<close>

definition MAX_MOUNTS :: nat where "MAX_MOUNTS = 16"
definition MAX_FDS :: nat where "MAX_FDS = 256"
definition MAX_FS_TYPES :: nat where "MAX_FS_TYPES = 16"

definition vfs_init :: "fs_world \<Rightarrow> fs_world" where
  "vfs_init w = w
     \<lparr>g_mounts := (\<lambda>i. if i < MAX_MOUNTS then \<lparr>mp_path = [], mp_root = None, mp_refcount = 0\<rparr> else g_mounts w i),
      g_fds := (\<lambda>i. if i < MAX_FDS then \<lparr>fd_node = None, fd_offset = 0, fd_flags = 0, fd_refcount = 0\<rparr> else g_fds w i),
      g_fs_types := (\<lambda>i. if i < MAX_FS_TYPES then \<lparr>fst_name = [], fst_mount = None, fst_unmount = None\<rparr> else g_fs_types w i),
      g_mount_count := 0, g_fs_type_count := 0, g_vfs_root := None\<rparr>"

definition vfs_register_filesystem :: "string \<Rightarrow> fs_kind \<Rightarrow> fs_kind \<Rightarrow> fs_world \<Rightarrow> int \<times> fs_world" where
  "vfs_register_filesystem name mount unmount w =
     (if g_fs_type_count w \<ge> MAX_FS_TYPES then (- 1, w)
      else (0, w\<lparr>g_fs_types := (g_fs_types w)(g_fs_type_count w :=
                   \<lparr>fst_name = my_strncpy name 31, fst_mount = Some mount, fst_unmount = Some unmount\<rparr>),
                 g_fs_type_count := g_fs_type_count w + 1\<rparr>))"

primrec scan_fs_types :: "nat \<Rightarrow> nat \<Rightarrow> string \<Rightarrow> fs_world \<Rightarrow> nat option" where
  "scan_fs_types 0 i name w = None"
| "scan_fs_types (Suc n) i name w =
     (if my_strcmp (fst_name (g_fs_types w i)) name = 0 then Some i else scan_fs_types n (Suc i) name w)"

definition find_fs_type :: "string \<Rightarrow> fs_world \<Rightarrow> nat option" where
  "find_fs_type name w = scan_fs_types (g_fs_type_count w) 0 name w"

text \<open>\<open>ramfs_register\<close>, \<open>devfs_register\<close>, \<open>procfs_register\<close> and \<open>fat32_register\<close>.\<close>

definition ramfs_register :: "fs_world \<Rightarrow> fs_world" where
  "ramfs_register w = snd (vfs_register_filesystem ''ramfs'' RamfsFs RamfsFs w)"

definition devfs_register :: "fs_world \<Rightarrow> fs_world" where
  "devfs_register w = snd (vfs_register_filesystem ''DeviceFS'' DevfsFs DevfsFs w)"

definition procfs_register :: "fs_world \<Rightarrow> fs_world" where
  "procfs_register w = snd (vfs_register_filesystem ''ProcessFS'' ProcfsFs ProcfsFs w)"

definition fat32_register :: "fs_world \<Rightarrow> fs_world" where
  "fat32_register w = snd (vfs_register_filesystem ''fat32'' Fat32Fs Fat32Fs w)"

section \<open>Paths\<close>

definition slash :: char where "slash = CHR ''/''"

text \<open>The index of the last slash, the scan shared by \<open>vfs_basename\<close> and \<open>vfs_dirname\<close>.\<close>

primrec last_slash :: "nat \<Rightarrow> nat option \<Rightarrow> string \<Rightarrow> nat option" where
  "last_slash i acc [] = acc"
| "last_slash i acc (c # p) = last_slash (Suc i) (if c = slash then Some i else acc) p"

definition vfs_basename :: "string \<Rightarrow> string" where
  "vfs_basename path = (case last_slash 0 None path of None \<Rightarrow> path | Some i \<Rightarrow> drop (Suc i) path)"

definition vfs_dirname :: "string \<Rightarrow> nat \<Rightarrow> string" where
  "vfs_dirname path out_size =
     (case last_slash 0 None path of
        None \<Rightarrow> my_strncpy ''.'' out_size
      | Some len \<Rightarrow>
          let len = (if len = 0 then 1 else len);
              len = (if len \<ge> out_size then out_size - 1 else len)
          in my_strncpy path len)"

text \<open>The inner loop of \<open>vfs_resolve_path\<close>: at most 255 characters up to the next slash.\<close>

definition next_component :: "string \<Rightarrow> string" where
  "next_component p = take 255 (takeWhile (\<lambda>c. c \<noteq> slash) p)"

text \<open>Where the pointer stands after the component and the slash behind it.\<close>

definition after_component :: "string \<Rightarrow> string" where
  "after_component p =
     (case drop (length (next_component p)) p of [] \<Rightarrow> [] | c # q \<Rightarrow> if c = slash then q else c # q)"

lemma after_component_shorter [simp]:
  assumes "p \<noteq> []"
  shows "length (after_component p) < length p"
proof (cases "next_component p = []")
  case True
  then obtain c q where "p = c # q" "c = slash" using assms
    by (cases p) (auto simp: next_component_def split: if_splits)
  with True show ?thesis by (simp add: after_component_def)
next
  case False
  then have "length (drop (length (next_component p)) p) < length p" using assms by (cases p) auto
  moreover have "length (after_component p) \<le> length (drop (length (next_component p)) p)"
    by (simp add: after_component_def split: list.split del: length_drop)
  ultimately show ?thesis by simp
qed

function resolve_loop :: "node_id option \<Rightarrow> string \<Rightarrow> fs_world \<Rightarrow> node_id option option" where
  "resolve_loop current p w =
     (if p = [] then Some current
      else
        let component = next_component p in
        if component = [] then resolve_loop current (after_component p) w
        else case current of
          None \<Rightarrow> None
        | Some n \<Rightarrow>
            (case op_finddir (nodes w n) of
               None \<Rightarrow> Some None
             | Some k \<Rightarrow>
                 (case call_finddir k n component w of
                    None \<Rightarrow> Some None
                  | Some next \<Rightarrow>
                      (let x = nodes w next in
                       if node_flags x AND VFS_MOUNTPOINT \<noteq> 0 \<and> node_mount x \<noteq> None
                       then resolve_loop (mp_root (g_mounts w (the (node_mount x)))) (after_component p) w
                       else resolve_loop (Some next) (after_component p) w))))"
  by pat_completeness auto
termination
  by (relation "measure (\<lambda>(_, p, _). length p)") simp_all

declare resolve_loop.simps [simp del]

definition vfs_resolve_path :: "string \<Rightarrow> fs_world \<Rightarrow> node_id option option" where
  "vfs_resolve_path path w =
     (case g_vfs_root w of
        None \<Rightarrow> Some None
      | Some root \<Rightarrow>
          (case path of
             [] \<Rightarrow> Some None
           | c # p \<Rightarrow>
               if c \<noteq> slash then Some None
               else if p = [] then Some (Some root)
               else resolve_loop (Some root) p w))"

section \<open>Mounting\<close>

text \<open>A failed mount after \<open>fs->mount\<close> keeps what the file system allocated.\<close>

definition vfs_mount :: "string \<Rightarrow> string \<Rightarrow> fs_world \<Rightarrow> (int \<times> fs_world) option" where
  "vfs_mount path fstype w =
     (if g_mount_count w \<ge> MAX_MOUNTS then Some (- 1, w)
      else case find_fs_type fstype w of
        None \<Rightarrow> Some (- 1, w)
      | Some t \<Rightarrow>
          (let mp = g_mount_count w;
               w = w\<lparr>g_mounts := (g_mounts w)(mp := \<lparr>mp_path = my_strncpy path 255, mp_root = None, mp_refcount = 0\<rparr>)\<rparr> in
           case fst_mount (g_fs_types w t) of
             None \<Rightarrow> None
           | Some k \<Rightarrow>
               (case call_mount k mp w of
                  (r, w) \<Rightarrow>
                    if r \<noteq> 0 then Some (- 1, w)
                    else if my_strcmp path ''/'' = 0 then
                      (case mp_root (g_mounts w mp) of
                         None \<Rightarrow> None
                       | Some root \<Rightarrow>
                           let x = nodes w root;
                               w = (set_node root (x\<lparr>node_flags := node_flags x OR VFS_MOUNTPOINT, node_mount := Some mp\<rparr>) w)
                                     \<lparr>g_vfs_root := Some root\<rparr>
                           in Some (0, w\<lparr>g_mount_count := g_mount_count w + 1\<rparr>))
                    else
                      (case vfs_resolve_path path w of
                         None \<Rightarrow> None
                       | Some None \<Rightarrow> Some (- 1, w)
                       | Some (Some mount_node) \<Rightarrow>
                           let x = nodes w mount_node in
                           if \<not> is_dir x then Some (- 1, w)
                           else let w = set_node mount_node (x\<lparr>node_flags := node_flags x OR VFS_MOUNTPOINT, node_mount := Some mp\<rparr>) w
                             in Some (0, w\<lparr>g_mount_count := g_mount_count w + 1\<rparr>)))))"

text \<open>The shift \<open>g_mounts[j] = g_mounts[j + 1]\<close> for \<open>i \<le> j < g_mount_count - 1\<close>, ascending.\<close>

primrec shift_mounts :: "nat \<Rightarrow> nat \<Rightarrow> (nat \<Rightarrow> mount_point) \<Rightarrow> nat \<Rightarrow> mount_point" where
  "shift_mounts 0 j m = m"
| "shift_mounts (Suc n) j m = shift_mounts n (Suc j) (m(j := m (Suc j)))"

primrec unmount_scan :: "nat \<Rightarrow> nat \<Rightarrow> string \<Rightarrow> fs_world \<Rightarrow> int \<times> fs_world" where
  "unmount_scan 0 i path w = (- 1, w)"
| "unmount_scan (Suc n) i path w =
     (if my_strcmp (mp_path (g_mounts w i)) path = 0 then
        if mp_refcount (g_mounts w i) > 0 then (- 1, w)
        else (0, w\<lparr>g_mounts := shift_mounts n i (g_mounts w), g_mount_count := g_mount_count w - 1\<rparr>)
      else unmount_scan n (Suc i) path w)"

definition vfs_unmount :: "string \<Rightarrow> fs_world \<Rightarrow> int \<times> fs_world" where
  "vfs_unmount path w = unmount_scan (g_mount_count w) 0 path w"

section \<open>Creating and removing\<close>

definition vfs_create :: "string \<Rightarrow> fs_world \<Rightarrow> (int \<times> fs_world) option" where
  "vfs_create path w =
     (case vfs_resolve_path (vfs_dirname path 256) w of
        None \<Rightarrow> None
      | Some None \<Rightarrow> Some (- 1, w)
      | Some (Some parent) \<Rightarrow>
          (case op_create (nodes w parent) of
             None \<Rightarrow> Some (- 1, w)
           | Some k \<Rightarrow> call_create k parent (vfs_basename path) VFS_FILE w))"

text \<open>None of the three file systems installs \<open>unlink\<close>, so the call itself has no case.\<close>

definition vfs_unlink :: "string \<Rightarrow> fs_world \<Rightarrow> (int \<times> fs_world) option" where
  "vfs_unlink path w =
     (case vfs_resolve_path (vfs_dirname path 256) w of
        None \<Rightarrow> None
      | Some None \<Rightarrow> Some (- 1, w)
      | Some (Some parent) \<Rightarrow>
          (case op_unlink (nodes w parent) of None \<Rightarrow> Some (- 1, w) | Some k \<Rightarrow> None))"

definition vfs_mkdir :: "string \<Rightarrow> fs_world \<Rightarrow> (int \<times> fs_world) option" where
  "vfs_mkdir path w =
     (case vfs_resolve_path (vfs_dirname path 256) w of
        None \<Rightarrow> None
      | Some None \<Rightarrow> Some (- 1, w)
      | Some (Some parent) \<Rightarrow>
          (case op_mkdir (nodes w parent) of
             None \<Rightarrow> Some (- 1, w)
           | Some k \<Rightarrow> call_mkdir k parent (vfs_basename path) w))"

section \<open>Descriptors\<close>

primrec free_fd :: "nat \<Rightarrow> nat \<Rightarrow> fs_world \<Rightarrow> nat option" where
  "free_fd 0 i w = None"
| "free_fd (Suc n) i w = (if fd_refcount (g_fds w i) = 0 then Some i else free_fd n (Suc i) w)"

definition set_fd :: "nat \<Rightarrow> file_descriptor \<Rightarrow> fs_world \<Rightarrow> fs_world" where
  "set_fd fd f w = w\<lparr>g_fds := (g_fds w)(fd := f)\<rparr>"

text \<open>The part of \<open>vfs_open\<close> behind the lookup.  No file system installs \<open>open\<close>.\<close>

definition open_node :: "node_id \<Rightarrow> u32 \<Rightarrow> fs_world \<Rightarrow> (int \<times> fs_world) option" where
  "open_node node flags w =
     (case free_fd (MAX_FDS - 3) 3 w of
        None \<Rightarrow> Some (- 1, w)
      | Some fd \<Rightarrow>
          (case op_open (nodes w node) of
             Some k \<Rightarrow> None
           | None \<Rightarrow>
               Some (int fd, set_fd fd
                 \<lparr>fd_node = Some node,
                  fd_offset = (if flags AND O_APPEND \<noteq> 0 then ucast (node_size (nodes w node)) else 0),
                  fd_flags = flags, fd_refcount = 1\<rparr> w)))"

definition vfs_open :: "string \<Rightarrow> u32 \<Rightarrow> fs_world \<Rightarrow> (int \<times> fs_world) option" where
  "vfs_open path flags w =
     (case vfs_resolve_path path w of
        None \<Rightarrow> None
      | Some (Some node) \<Rightarrow> open_node node flags w
      | Some None \<Rightarrow>
          if flags AND O_CREAT = 0 then Some (- 1, w)
          else (case vfs_create path w of
                  None \<Rightarrow> None
                | Some (r, w) \<Rightarrow>
                    if r \<noteq> 0 then Some (- 1, w)
                    else (case vfs_resolve_path path w of
                            None \<Rightarrow> None
                          | Some None \<Rightarrow> Some (- 1, w)
                          | Some (Some node) \<Rightarrow> open_node node flags w)))"

text \<open>The check \<open>fd < 0 || fd >= MAX_FDS || g_fds[fd].refcount == 0\<close>.\<close>

definition bad_fd :: "int \<Rightarrow> fs_world \<Rightarrow> bool" where
  "bad_fd fd w \<longleftrightarrow> fd < 0 \<or> fd \<ge> int MAX_FDS \<or> fd_refcount (g_fds w (nat fd)) = 0"

text \<open>No file system installs \<open>close\<close>.\<close>

definition vfs_close :: "int \<Rightarrow> fs_world \<Rightarrow> (int \<times> fs_world) option" where
  "vfs_close fd w =
     (if bad_fd fd w then Some (- 1, w)
      else
        let f = g_fds w (nat fd); rc = fd_refcount f - 1 in
        if rc = 0 then
          (case fd_node f of
             Some n \<Rightarrow> (case op_close (nodes w n) of
                 Some k \<Rightarrow> None
               | None \<Rightarrow> Some (0, set_fd (nat fd) (f\<lparr>fd_refcount := rc, fd_node := None\<rparr>) w))
           | None \<Rightarrow> Some (0, set_fd (nat fd) (f\<lparr>fd_refcount := rc, fd_node := None\<rparr>) w))
        else Some (0, set_fd (nat fd) (f\<lparr>fd_refcount := rc\<rparr>) w))"

text \<open>The bytes stored in the caller's buffer are returned beside the result.  The \<open>size_t\<close>
  count becomes the \<open>uint32_t\<close> size of the node operation.\<close>

definition vfs_read :: "int \<Rightarrow> u64 \<Rightarrow> fs_world \<Rightarrow> (int \<times> u8 list \<times> fs_world) option" where
  "vfs_read fd count w =
     (if bad_fd fd w then Some (- 1, [], w)
      else
        let f = g_fds w (nat fd) in
        case fd_node f of
          None \<Rightarrow> Some (- 1, [], w)
        | Some n \<Rightarrow>
            (case op_read (nodes w n) of
               None \<Rightarrow> Some (- 1, [], w)
             | Some k \<Rightarrow>
                 (case call_read k n (fd_offset f) (ucast count) w of
                    None \<Rightarrow> None
                  | Some (r, bytes) \<Rightarrow>
                      Some (r, bytes, if r > 0 then set_fd (nat fd) (f\<lparr>fd_offset := fd_offset f + of_int r\<rparr>) w else w))))"

definition vfs_write :: "int \<Rightarrow> u8 list \<Rightarrow> fs_world \<Rightarrow> (int \<times> fs_world) option" where
  "vfs_write fd data w =
     (if bad_fd fd w then Some (- 1, w)
      else
        let f = g_fds w (nat fd) in
        case fd_node f of
          None \<Rightarrow> Some (- 1, w)
        | Some n \<Rightarrow>
            (case op_write (nodes w n) of
               None \<Rightarrow> Some (- 1, w)
             | Some k \<Rightarrow>
                 (case call_write k n (fd_offset f) data w of
                    None \<Rightarrow> None
                  | Some (r, w) \<Rightarrow>
                      Some (r, if r > 0 then set_fd (nat fd) ((g_fds w (nat fd))\<lparr>fd_offset := fd_offset f + of_int r\<rparr>) w else w))))"

definition vfs_seek :: "int \<Rightarrow> u64 \<Rightarrow> int \<Rightarrow> fs_world \<Rightarrow> int \<times> fs_world" where
  "vfs_seek fd offset whence w =
     (if bad_fd fd w then (- 1, w)
      else
        let f = g_fds w (nat fd) in
        if whence = 0 then (0, set_fd (nat fd) (f\<lparr>fd_offset := offset\<rparr>) w)
        else if whence = 1 then (0, set_fd (nat fd) (f\<lparr>fd_offset := fd_offset f + offset\<rparr>) w)
        else if whence = 2 then
          (case fd_node f of
             Some n \<Rightarrow> (0, set_fd (nat fd) (f\<lparr>fd_offset := ucast (node_size (nodes w n)) + offset\<rparr>) w)
           | None \<Rightarrow> (0, w))
        else (- 1, w))"

definition vfs_tell :: "int \<Rightarrow> fs_world \<Rightarrow> u64" where
  "vfs_tell fd w = (if bad_fd fd w then - 1 else fd_offset (g_fds w (nat fd)))"

record dirent =
  de_inode :: u32
  de_name :: string
  de_type :: u8

definition vfs_readdir :: "int \<Rightarrow> fs_world \<Rightarrow> int \<times> dirent option \<times> fs_world" where
  "vfs_readdir fd w =
     (if bad_fd fd w then (- 1, None, w)
      else
        let f = g_fds w (nat fd) in
        case fd_node f of
          None \<Rightarrow> (- 1, None, w)
        | Some n \<Rightarrow>
            (case op_readdir (nodes w n) of
               None \<Rightarrow> (- 1, None, w)
             | Some k \<Rightarrow>
                 (case call_readdir k n (ucast (fd_offset f)) w of
                    None \<Rightarrow> (- 1, None, w)
                  | Some child \<Rightarrow>
                      (0, Some \<lparr>de_inode = inode (nodes w child), de_name = my_strncpy (node_name (nodes w child)) 255,
                                de_type = ucast (node_flags (nodes w child))\<rparr>,
                       set_fd (nat fd) (f\<lparr>fd_offset := fd_offset f + 1\<rparr>) w))))"

end
