(* ===== verification/VfsProps.thy ===== *)
theory VfsProps
  imports Vfs
begin

text \<open>
  Properties of the virtual file system: path resolution against a walk over the names of the
  path, creation against lookup, the descriptor table, the round trip of a file through
  descriptors, and what unmounting does to the nodes other file systems are mounted on.
\<close>

section \<open>Paths as lists of names\<close>

fun split_on :: "char \<Rightarrow> string \<Rightarrow> string list" where
  "split_on d [] = [[]]"
| "split_on d (c # s) =
     (if c = d then [] # split_on d s
      else case split_on d s of x # xs \<Rightarrow> (c # x) # xs | [] \<Rightarrow> [[c]])"

definition path_names :: "string \<Rightarrow> string list" where
  "path_names p = filter (\<lambda>x. x \<noteq> []) (split_on slash p)"

text \<open>One step down: the entry of that name, or the root of what is mounted on it.\<close>

definition enter :: "node_id \<Rightarrow> fs_world \<Rightarrow> node_id option" where
  "enter n w =
     (if node_flags (nodes w n) AND VFS_MOUNTPOINT \<noteq> 0
      then case node_mount (nodes w n) of None \<Rightarrow> Some n | Some m \<Rightarrow> mp_root (g_mounts w m)
      else Some n)"

fun walk_names :: "node_id option \<Rightarrow> string list \<Rightarrow> fs_world \<Rightarrow> node_id option option" where
  "walk_names current [] w = Some current"
| "walk_names None (x # xs) w = None"
| "walk_names (Some n) (x # xs) w =
     (case op_finddir (nodes w n) of
        None \<Rightarrow> Some None
      | Some k \<Rightarrow> (case call_finddir k n x w of None \<Rightarrow> Some None | Some m \<Rightarrow> walk_names (enter m w) xs w))"

lemma split_on_takeWhile:
  "split_on d p = takeWhile (\<lambda>c. c \<noteq> d) p #
     (case dropWhile (\<lambda>c. c \<noteq> d) p of [] \<Rightarrow> [] | _ # q \<Rightarrow> split_on d q)"
  by (induction p) auto

lemma path_names_step:
  "path_names p =
     (if takeWhile (\<lambda>c. c \<noteq> slash) p = [] then [] else [takeWhile (\<lambda>c. c \<noteq> slash) p]) @
     (case dropWhile (\<lambda>c. c \<noteq> slash) p of [] \<Rightarrow> [] | _ # q \<Rightarrow> path_names q)"
  unfolding path_names_def
  by (subst split_on_takeWhile) (simp del: dropWhile_eq_Nil_conv takeWhile_eq_Nil_iff split: list.split)

lemma after_component_short:
  assumes "length (takeWhile (\<lambda>c. c \<noteq> slash) p) \<le> 255"
  shows "next_component p = takeWhile (\<lambda>c. c \<noteq> slash) p"
    and "after_component p = (case dropWhile (\<lambda>c. c \<noteq> slash) p of [] \<Rightarrow> [] | _ # q \<Rightarrow> q)"
proof -
  show c: "next_component p = takeWhile (\<lambda>c. c \<noteq> slash) p" using assms by (simp add: next_component_def)
  have "drop (length (takeWhile (\<lambda>c. c \<noteq> slash) p)) p = dropWhile (\<lambda>c. c \<noteq> slash) p"
    by (simp add: dropWhile_eq_drop)
  then show "after_component p = (case dropWhile (\<lambda>c. c \<noteq> slash) p of [] \<Rightarrow> [] | _ # q \<Rightarrow> q)"
    unfolding after_component_def c
    by (cases "dropWhile (\<lambda>c. c \<noteq> slash) p")
      (auto simp del: dropWhile_eq_Nil_conv dest: dropWhile_eq_Cons_conv [THEN iffD1])
qed

lemma resolve_loop_walk:
  "\<forall>x \<in> set (path_names p). length x \<le> 255 \<Longrightarrow>
     resolve_loop current p w = walk_names current (path_names p) w"
proof (induction "length p" arbitrary: current p rule: less_induct)
  case less
  show ?case
  proof (cases "p = []")
    case True
    then show ?thesis by (simp add: resolve_loop.simps path_names_def)
  next
    case False
    let ?c = "takeWhile (\<lambda>c. c \<noteq> slash) p"
    have short: "length ?c \<le> 255" using less.prems path_names_step [of p] by (cases "?c = []") auto
    note comp = after_component_short [OF short]
    have names: "path_names p = (if ?c = [] then [] else [?c]) @ path_names (after_component p)"
      unfolding comp(2)
      by (subst path_names_step)
        (simp add: path_names_def del: dropWhile_eq_Nil_conv takeWhile_eq_Nil_iff split: list.split)
    have IH: "resolve_loop cur (after_component p) w = walk_names cur (path_names (after_component p)) w" for cur
      by (rule less.hyps) (use False less.prems names in auto)
    show ?thesis
    proof (cases "?c = []")
      case True
      then show ?thesis using IH False comp(1) names by (subst resolve_loop.simps) simp
    next
      case False': False
      then have "next_component p \<noteq> []" using comp(1) by simp
      then show ?thesis using IH False False' comp(1) names
        by (subst resolve_loop.simps)
          (auto simp: Let_def enter_def split: option.split)
    qed
  qed
qed

section \<open>Creating and finding\<close>

lemma ramfs_name_match_iff: "ramfs_name_match s t \<longleftrightarrow> s = t"
  by (induction s t rule: ramfs_name_match.induct) auto

interpretation ramfs_match: c_string_equality ramfs_name_match
  by unfold_locales (simp add: ramfs_name_match_iff)

lemma find_child_spec:
  "find_child n i d name w =
     (case List.find (\<lambda>j. ramfs_children w d j \<noteq> None \<and> ramfs_child_names w d j = name) [i ..< i + n] of
        None \<Rightarrow> None | Some j \<Rightarrow> ramfs_children w d j)"
  by (induction n arbitrary: i)
    (auto simp: upt_conv_Cons ramfs_name_match_iff eq_commute simp del: upt_Suc split: option.split)

lemma free_slot_spec: "free_slot n i d w = List.find (\<lambda>j. ramfs_children w d j = None) [i ..< i + n]"
  by (induction n arbitrary: i) (auto simp: upt_conv_Cons simp del: upt_Suc)

lemma find_upt_range:
  "List.find P [a ..< b] = Some j \<longleftrightarrow> a \<le> j \<and> j < b \<and> P j \<and> (\<forall>i. a \<le> i \<and> i < j \<longrightarrow> \<not> P i)"
proof (induction "b - a" arbitrary: a)
  case (Suc n)
  then have ab: "a < b" by simp
  have IH: "List.find P [Suc a ..< b] = Some j \<longleftrightarrow> Suc a \<le> j \<and> j < b \<and> P j \<and> (\<forall>i. Suc a \<le> i \<and> i < j \<longrightarrow> \<not> P i)"
    by (rule Suc.hyps(1)) (use Suc.hyps(2) in simp)
  show ?case
  proof (cases "P a")
    case True
    then show ?thesis using ab by (auto simp: upt_conv_Cons not_less dest: le_neq_implies_less)
  next
    case False
    then have "(\<forall>i. a \<le> i \<and> i < j \<longrightarrow> \<not> P i) \<longleftrightarrow> (\<forall>i. Suc a \<le> i \<and> i < j \<longrightarrow> \<not> P i)"
      by (metis Suc_leI Suc_leD le_neq_implies_less)
    with False ab IH show ?thesis by (auto simp: upt_conv_Cons Suc_le_eq dest: le_neq_implies_less)
  qed
qed auto

lemma find_upt_Some: "List.find P [0 ..< n] = Some j \<longleftrightarrow> j < n \<and> P j \<and> (\<forall>i < j. \<not> P i)"
  by (simp add: find_upt_range)

lemma ramfs_create_result:
  assumes dir: "is_dir (nodes w (RamfsNode d))" "node_data (nodes w (RamfsNode d)) = DirData d"
    and room: "d < ramfs_node_count w" "ramfs_node_count w < MAX_RAMFS_NODES"
    and slot: "List.find (\<lambda>j. ramfs_children w d j = None) [0 ..< RAMFS_MAX_CHILDREN] = Some s"
  obtains w' where "ramfs_create (RamfsNode d) name flags w = (0, w')"
    "ramfs_children w' d = (ramfs_children w d)(s := Some (RamfsNode (ramfs_node_count w)))"
    "ramfs_child_names w' d = (ramfs_child_names w d)(s := take 31 name)"
    "nodes w' (RamfsNode d) = nodes w (RamfsNode d)"
    "node_flags (nodes w' (RamfsNode (ramfs_node_count w))) = flags"
proof -
  have "free_slot RAMFS_MAX_CHILDREN 0 d w = Some s" using slot by (simp add: free_slot_spec)
  then show ?thesis
    using dir room
    by (intro that [of "snd (ramfs_create (RamfsNode d) name flags w)"])
      (simp_all add: ramfs_create_def ramfs_alloc_node_def Let_def)
qed

lemma ramfs_finddir_spec:
  assumes "is_dir (nodes w n)" "node_data (nodes w n) = DirData d"
  shows "ramfs_finddir n name w =
    (case List.find (\<lambda>j. ramfs_children w d j \<noteq> None \<and> ramfs_child_names w d j = name) [0 ..< RAMFS_MAX_CHILDREN] of
       None \<Rightarrow> None | Some j \<Rightarrow> ramfs_children w d j)"
  using assms by (simp add: ramfs_finddir_def find_child_spec)

section \<open>Descriptors\<close>

lemma free_fd_spec: "free_fd n i w = List.find (\<lambda>j. fd_refcount (g_fds w j) = 0) [i ..< i + n]"
  by (induction n arbitrary: i) (auto simp: upt_conv_Cons simp del: upt_Suc)

lemma free_fd_cases:
  obtains (full) "free_fd (MAX_FDS - 3) 3 w = None" "\<forall>j. 3 \<le> j \<and> j < MAX_FDS \<longrightarrow> fd_refcount (g_fds w j) \<noteq> 0"
  | (slot) fd where "free_fd (MAX_FDS - 3) 3 w = Some fd" "3 \<le> fd" "fd < MAX_FDS" "fd_refcount (g_fds w fd) = 0"
      "\<forall>j. 3 \<le> j \<and> j < fd \<longrightarrow> fd_refcount (g_fds w j) \<noteq> 0"
proof -
  have "3 + (MAX_FDS - 3) = MAX_FDS" by (simp add: MAX_FDS_def)
  then have spec: "free_fd (MAX_FDS - 3) 3 w = List.find (\<lambda>j. fd_refcount (g_fds w j) = 0) [3 ..< MAX_FDS]"
    by (simp only: free_fd_spec)
  show ?thesis
  proof (cases "free_fd (MAX_FDS - 3) 3 w")
    case None
    then have "\<forall>j. 3 \<le> j \<and> j < MAX_FDS \<longrightarrow> fd_refcount (g_fds w j) \<noteq> 0"
      unfolding spec find_None_iff by auto
    with None show ?thesis by (rule full)
  next
    case (Some fd)
    with slot show ?thesis unfolding spec find_upt_range by blast
  qed
qed

section \<open>What a write of ramfs leaves alone\<close>

lemma alloc_file_pages_frame:
  "alloc_file_pages fd k e w = (b, w') \<Longrightarrow> \<exists>p fp. w' = w\<lparr>fs_pfa := p, file_pages := fp\<rparr>"
proof (induction fd k e w rule: alloc_file_pages.induct)
  case (1 fd k e w)
  obtain a p where a: "pfa_alloc_low (fs_pfa w) = (a, p)" by (cases "pfa_alloc_low (fs_pfa w)")
  have same: "w = w\<lparr>fs_pfa := fs_pfa w, file_pages := file_pages w\<rparr>"
    "w\<lparr>fs_pfa := p\<rparr> = w\<lparr>fs_pfa := p, file_pages := file_pages w\<rparr>" by simp_all
  consider "\<not> (k \<le> e \<and> k < 128)" | "k \<le> e \<and> k < 128" "a = 0" | "k \<le> e \<and> k < 128" "a \<noteq> 0" by blast
  then show ?case
  proof cases
    case 1
    then have "w' = w" using "1.prems" by (subst (asm) alloc_file_pages.simps) auto
    with same(1) show ?thesis by blast
  next
    case 2
    then have "w' = w\<lparr>fs_pfa := p\<rparr>" using "1.prems" a by (subst (asm) alloc_file_pages.simps) auto
    with same(2) show ?thesis by blast
  next
    case 3
    let ?w = "w\<lparr>fs_pfa := p, file_pages := (file_pages w)(fd := (file_pages w fd)(unat k := a + fs_hhdm w))\<rparr>"
    have "alloc_file_pages fd (k + 1) e ?w = (b, w')"
      using "1.prems" 3 a by (subst (asm) alloc_file_pages.simps) (simp add: Let_def)
    from "1.IH" [OF 3(1) a [symmetric] refl 3(2)] this show ?thesis by auto
  qed
qed

lemma write_pages_frame:
  "write_pages fd off written remaining data w = Some (n, w') \<Longrightarrow> \<exists>r. w' = w\<lparr>ram := r\<rparr>"
proof (induction fd off written remaining data w rule: write_pages.induct)
  case (1 fd off written remaining data w)
  have same: "w = w\<lparr>ram := ram w\<rparr>" by simp
  let ?i = "ucast (off div 4096) :: u32"
  show ?case
  proof (cases "remaining > 0 \<and> \<not> file_num_pages w fd \<le> ?i \<and> \<not> 128 \<le> ?i \<and> file_pages w fd (unat ?i) \<noteq> 0")
    case False
    then have "w' = w" using "1.prems" by (subst (asm) write_pages.simps) (auto simp: Let_def split: if_splits)
    with same show ?thesis by blast
  next
    case True
    then show ?thesis using "1.prems" "1.IH" [OF _ refl refl refl]
      by (subst (asm) write_pages.simps) (auto simp: Let_def)
  qed
qed

lemma ramfs_write_frame:
  assumes w: "ramfs_write n off data w = Some (r, w')" and reg: "\<not> is_dir (nodes w n)"
    and kind: "node_data (nodes w n) = NoData \<and> file_data_count w < MAX_RAMFS_FILES \<or> (\<exists>fd. node_data (nodes w n) = FileData fd)"
  shows "g_fds w' = g_fds w \<and> op_read (nodes w' n) = op_read (nodes w n) \<and>
    op_write (nodes w' n) = op_write (nodes w n) \<and> node_flags (nodes w' n) = node_flags (nodes w n)"
proof -
  obtain fd w1 where at: "attach_block n w = (fd, w1)" by (cases "attach_block n w")
  have f1: "g_fds w1 = g_fds w" "op_read (nodes w1 n) = op_read (nodes w n)"
    "op_write (nodes w1 n) = op_write (nodes w n)" "node_flags (nodes w1 n) = node_flags (nodes w n)"
    using at by (auto simp: attach_block_def Let_def split: fs_data.splits)
  let ?sz = "of_nat (length data) :: u32"
  let ?ep = "ucast ((off + ucast ?sz - 1) div 4096) :: u32"
  obtain b w2 where al: "alloc_file_pages fd (file_num_pages w1 fd) ?ep w1 = (b, w2)"
    by (cases "alloc_file_pages fd (file_num_pages w1 fd) ?ep w1")
  have f2: "g_fds w2 = g_fds w1" "nodes w2 = nodes w1" using alloc_file_pages_frame [OF al] by auto
  show ?thesis
  proof (cases b)
    case False
    then have "w' = w2" using w unfolding ramfs_write_attach [OF reg at kind] by (simp add: Let_def al)
    with f1 f2 show ?thesis by simp
  next
    case True
    define w3 where "w3 = (if ?ep \<ge> file_num_pages w2 fd then w2\<lparr>file_num_pages := (file_num_pages w2)(fd := ?ep + 1)\<rparr> else w2)"
    have f3: "g_fds w3 = g_fds w1" "nodes w3 = nodes w1" using f2 by (simp_all add: w3_def)
    obtain m w4 where wr: "write_pages fd off 0 ?sz data w3 = Some (m, w4)"
      and w': "w' = (if off + ucast m > ucast (node_size (nodes w4 n))
                 then set_node n ((nodes w4 n)\<lparr>node_size := ucast (off + ucast m)\<rparr>) w4 else w4)"
      using w True unfolding ramfs_write_attach [OF reg at kind]
      by (auto simp: Let_def al w3_def split: option.splits)
    have "g_fds w4 = g_fds w3" "nodes w4 = nodes w3" using write_pages_frame [OF wr] by auto
    with f1 f3 show ?thesis by (simp add: w')
  qed
qed

lemma ramfs_ok_fds [simp]: "ramfs_ok (set_fd i f w) = ramfs_ok w"
proof -
  have "pages_bound (set_fd i f w) = pages_bound w" by (simp add: pages_bound_def set_fd_def fun_eq_iff)
  moreover have "pages_inv B (set_fd i f w) = pages_inv B w" for B
    by (rule pages_inv_cong) (simp_all add: set_fd_def)
  ultimately show ?thesis by (simp add: ramfs_ok_def) (simp add: set_fd_def)
qed

lemma contents_fds [simp]: "contents (set_fd i f w) n = contents w n"
proof -
  have 1: "fbyte (set_fd i f w) = fbyte w" by (simp add: fbyte_def set_fd_def fun_eq_iff)
  have 2: "nodes (set_fd i f w) = nodes w" by (simp add: set_fd_def)
  show ?thesis unfolding contents_def 1 2 ..
qed

section \<open>Properties\<close>

text \<open>C5. For a path whose names have at most 255 characters, \<open>vfs_resolve_path\<close> walks down
  the names between the slashes, empty names ignored, crossing into the root of what is
  mounted on a node whenever it reaches such a node.\<close>

theorem resolve_path_walks_names:
  assumes "g_vfs_root w = Some root" "\<forall>x \<in> set (path_names p). length x \<le> 255"
  shows "vfs_resolve_path (slash # p) w = walk_names (Some root) (path_names p) w"
proof (cases "p = []")
  case True
  then show ?thesis using assms(1) by (simp add: vfs_resolve_path_def path_names_def)
next
  case False
  with assms resolve_loop_walk [OF assms(2)] show ?thesis by (simp add: vfs_resolve_path_def)
qed

theorem resolve_path_walks_names_witness:
  "vfs_resolve_path ''//proc//'' (empty_world\<lparr>g_vfs_root := Some DevfsRoot\<rparr>) = Some None"
proof -
  let ?w = "empty_world\<lparr>g_vfs_root := Some DevfsRoot\<rparr>"
  have names: "path_names ''/proc//'' = [''proc'']" by (simp add: path_names_def slash_def)
  have "vfs_resolve_path (slash # ''/proc//'') ?w = walk_names (Some DevfsRoot) (path_names ''/proc//'') ?w"
    by (rule resolve_path_walks_names) (simp_all add: names)
  then show ?thesis unfolding names by (simp add: slash_def empty_world_def zero_node_def)
qed

text \<open>In a ramfs directory with a free slot and no entry of that name, creating a name
  succeeds; the name is found afterwards and leads to the new node if it has at most 31
  characters, and is never found if it is longer, because the entry keeps only 31 of them.
  Every other name is found as before.\<close>

theorem ramfs_create_then_find:
  assumes "is_dir (nodes w (RamfsNode d))" "node_data (nodes w (RamfsNode d)) = DirData d"
    and "d < ramfs_node_count w" "ramfs_node_count w < MAX_RAMFS_NODES"
    and "\<exists>j < RAMFS_MAX_CHILDREN. ramfs_children w d j = None"
    and "\<forall>j < RAMFS_MAX_CHILDREN. ramfs_children w d j \<noteq> None \<longrightarrow>
           length (ramfs_child_names w d j) \<le> 31 \<and> ramfs_child_names w d j \<noteq> take 31 name"
  shows "\<exists>w'. ramfs_create (RamfsNode d) name flags w = (0, w') \<and>
    ramfs_finddir (RamfsNode d) name w' =
      (if length name \<le> 31 then Some (RamfsNode (ramfs_node_count w)) else None) \<and>
    (\<forall>other. other \<noteq> take 31 name \<longrightarrow> ramfs_finddir (RamfsNode d) other w' = ramfs_finddir (RamfsNode d) other w)"
proof -
  let ?N = RAMFS_MAX_CHILDREN
  obtain s where s: "List.find (\<lambda>j. ramfs_children w d j = None) [0 ..< ?N] = Some s"
    using assms(5) by (cases "List.find (\<lambda>j. ramfs_children w d j = None) [0 ..< ?N]") (auto simp: find_None_iff)
  then have free: "s < ?N" "ramfs_children w d s = None" by (auto simp: find_upt_Some)
  obtain w' where w': "ramfs_create (RamfsNode d) name flags w = (0, w')"
    and ch: "ramfs_children w' d = (ramfs_children w d)(s := Some (RamfsNode (ramfs_node_count w)))"
    and nm: "ramfs_child_names w' d = (ramfs_child_names w d)(s := take 31 name)"
    and nd: "nodes w' (RamfsNode d) = nodes w (RamfsNode d)"
    using ramfs_create_result [OF assms(1-4) s, of name flags] by blast
  note find = ramfs_finddir_spec [of w' "RamfsNode d" d, unfolded nd, OF assms(1,2)]
    and find0 = ramfs_finddir_spec [OF assms(1,2)]
  have "List.find (\<lambda>j. ramfs_children w' d j \<noteq> None \<and> ramfs_child_names w' d j = name) [0 ..< ?N] =
      (if length name \<le> 31 then Some s else None)"
  proof (cases "length name \<le> 31")
    case True
    have "\<not> (ramfs_children w d j \<noteq> None \<and> ramfs_child_names w d j = name)" if "j < s" for j
      using assms(6) [rule_format, of j] that free(1) True by auto
    with True free show ?thesis by (auto simp: find_upt_Some ch nm)
  next
    case False
    have "\<not> (ramfs_children w' d j \<noteq> None \<and> ramfs_child_names w' d j = name)" if "j < ?N" for j
      using assms(6) that False by (auto simp: ch nm)
    with False show ?thesis by (auto simp: find_None_iff)
  qed
  then have "ramfs_finddir (RamfsNode d) name w' = (if length name \<le> 31 then Some (RamfsNode (ramfs_node_count w)) else None)"
    by (simp add: find ch)
  moreover have "ramfs_finddir (RamfsNode d) other w' = ramfs_finddir (RamfsNode d) other w" if "other \<noteq> take 31 name" for other
  proof -
    have same: "(\<lambda>j. ramfs_children w' d j \<noteq> None \<and> ramfs_child_names w' d j = other) =
        (\<lambda>j. ramfs_children w d j \<noteq> None \<and> ramfs_child_names w d j = other)"
      using that free by (auto simp: ch nm fun_eq_iff)
    show ?thesis
    proof (cases "List.find (\<lambda>j. ramfs_children w d j \<noteq> None \<and> ramfs_child_names w d j = other) [0 ..< ?N]")
      case (Some j)
      then have "j \<noteq> s" using free(2) unfolding find_upt_Some by blast
      with Some show ?thesis unfolding find find0 same by (simp add: ch)
    next
      case None
      then show ?thesis unfolding find find0 same by simp
    qed
  qed
  ultimately show ?thesis using w' by blast
qed

definition demo_dir :: fs_world where
  "demo_dir = snd (ramfs_alloc_node ''/'' VFS_DIRECTORY empty_world)"

theorem ramfs_create_then_find_witness:
  "\<exists>w'. ramfs_create (RamfsNode 0) ''init'' VFS_FILE demo_dir = (0, w') \<and>
     ramfs_finddir (RamfsNode 0) ''init'' w' = Some (RamfsNode 1)"
proof -
  have f: "is_dir (nodes demo_dir (RamfsNode 0))" "node_data (nodes demo_dir (RamfsNode 0)) = DirData 0"
    "ramfs_node_count demo_dir = 1" "ramfs_children demo_dir 0 j = None" for j
    by (simp_all add: demo_dir_def ramfs_alloc_node_def empty_world_def is_dir_def vfs_flag_defs MAX_RAMFS_NODES_def Let_def)
  have "\<exists>w'. ramfs_create (RamfsNode 0) ''init'' VFS_FILE demo_dir = (0, w') \<and>
    ramfs_finddir (RamfsNode 0) ''init'' w' =
      (if length ''init'' \<le> 31 then Some (RamfsNode (ramfs_node_count demo_dir)) else None) \<and>
    (\<forall>other. other \<noteq> take 31 ''init'' \<longrightarrow> ramfs_finddir (RamfsNode 0) other w' = ramfs_finddir (RamfsNode 0) other demo_dir)"
    by (rule ramfs_create_then_find)
      (use f in \<open>auto simp: MAX_RAMFS_NODES_def RAMFS_MAX_CHILDREN_def intro: exI [of _ 0]\<close>)
  then show ?thesis by (auto simp: f)
qed

text \<open>Opening a path that resolves to a node takes the lowest descriptor from 3 on that is
  not in use, at offset 0 or at the end of the file with \<open>O_APPEND\<close>, and changes no other
  descriptor; when all are in use it fails and changes nothing.  Closing that descriptor frees
  it again.\<close>

theorem vfs_open_takes_lowest_fd:
  assumes "vfs_resolve_path path w = Some (Some n)" "op_open (nodes w n) = None" "op_close (nodes w n) = None"
  shows "\<exists>r w'. vfs_open path flags w = Some (r, w') \<and>
    (if \<forall>j. 3 \<le> j \<and> j < MAX_FDS \<longrightarrow> fd_refcount (g_fds w j) \<noteq> 0 then r = - 1 \<and> w' = w
     else \<exists>fd. r = int fd \<and> 3 \<le> fd \<and> fd < MAX_FDS \<and> fd_refcount (g_fds w fd) = 0 \<and>
       (\<forall>j. 3 \<le> j \<and> j < fd \<longrightarrow> fd_refcount (g_fds w j) \<noteq> 0) \<and>
       w' = w\<lparr>g_fds := (g_fds w)(fd := \<lparr>fd_node = Some n,
                fd_offset = (if flags AND O_APPEND \<noteq> 0 then ucast (node_size (nodes w n)) else 0),
                fd_flags = flags, fd_refcount = 1\<rparr>)\<rparr> \<and>
       (\<exists>w''. vfs_close r w' = Some (0, w'') \<and> bad_fd r w''))"
proof (cases w rule: free_fd_cases)
  case full
  then show ?thesis using assms by (auto simp: vfs_open_def open_node_def)
next
  case (slot fd)
  then have "\<not> (\<forall>j. 3 \<le> j \<and> j < MAX_FDS \<longrightarrow> fd_refcount (g_fds w j) \<noteq> 0)" by auto
  with slot assms show ?thesis
    by (auto simp: vfs_open_def open_node_def set_fd_def vfs_close_def bad_fd_def Let_def)
qed

theorem vfs_open_takes_lowest_fd_witness:
  "\<exists>w'. vfs_open ''/'' 0 (empty_world\<lparr>g_vfs_root := Some ProcfsRoot\<rparr>) = Some (3, w')"
proof -
  let ?w = "empty_world\<lparr>g_vfs_root := Some ProcfsRoot\<rparr>"
  have 0: "fd_refcount (g_fds ?w j) = 0" for j by (simp add: empty_world_def)
  have "\<not> (\<forall>j. 3 \<le> j \<and> j < MAX_FDS \<longrightarrow> fd_refcount (g_fds ?w j) \<noteq> 0)" unfolding 0 MAX_FDS_def
    by (auto intro: exI [of _ 3])
  moreover have "vfs_resolve_path ''/'' ?w = Some (Some ProcfsRoot)" by (simp add: vfs_resolve_path_def slash_def)
  moreover have "op_open (nodes ?w ProcfsRoot) = None" "op_close (nodes ?w ProcfsRoot) = None"
    by (simp_all add: empty_world_def zero_node_def)
  moreover note vfs_open_takes_lowest_fd [of "''/''" ?w ProcfsRoot 0]
  ultimately obtain r' w' where r': "vfs_open ''/'' 0 ?w = Some (r', w')"
    "\<exists>fd. r' = int fd \<and> 3 \<le> fd \<and> fd < MAX_FDS \<and> fd_refcount (g_fds ?w fd) = 0 \<and>
       (\<forall>j. 3 \<le> j \<and> j < fd \<longrightarrow> fd_refcount (g_fds ?w j) \<noteq> 0)" by (simp only: if_False) blast
  then obtain fd where r: "vfs_open ''/'' 0 ?w = Some (int fd, w')" "3 \<le> fd"
      "\<forall>j. 3 \<le> j \<and> j < fd \<longrightarrow> fd_refcount (g_fds ?w j) \<noteq> 0" by blast
  have "fd = 3" using r(2) r(3) [rule_format, of 3] 0 [of 3] by (cases "fd = 3") auto
  with r(1) show ?thesis by simp
qed

text \<open>C3. Bytes written through a descriptor of a ramfs file are read back: after
  \<open>vfs_write\<close> and a seek to the offset where the write began, \<open>vfs_read\<close> of as many bytes
  returns exactly the bytes written, and the descriptor stands behind them again.\<close>

theorem vfs_write_seek_read:
  assumes "ramfs_ok w" "\<not> bad_fd fd w" "fd_node (g_fds w (nat fd)) = Some n" "fd_offset (g_fds w (nat fd)) = off"
    and "op_read (nodes w n) = Some RamfsFs" "op_write (nodes w n) = Some RamfsFs"
    and "\<not> is_dir (nodes w n)"
    and "node_data (nodes w n) = NoData \<and> file_data_count w < MAX_RAMFS_FILES \<or> (\<exists>fd. node_data (nodes w n) = FileData fd)"
    and "data \<noteq> []" "unat off + length data \<le> 524288" "128 \<le> card (low_frames (fs_pfa w))"
  shows "\<exists>w1 w2 w3. vfs_write fd data w = Some (int (length data), w1) \<and>
    vfs_seek fd off 0 w1 = (0, w2) \<and>
    vfs_read fd (of_nat (length data)) w2 = Some (int (length data), data, w3) \<and>
    vfs_tell fd w3 = off + of_nat (length data)"
proof -
  let ?f = "g_fds w (nat fd)" and ?L = "length data"
  from ramfs_write_splice [OF assms(1,7-11)] obtain w' gap
    where wr: "ramfs_write n off data w = Some (int ?L, w')" and ok: "ramfs_ok w'"
      and gap: "length gap = unat off - length (contents w n)"
      and c: "contents w' n = take (unat off) (contents w n @ gap) @ data @ drop (unat off + ?L) (contents w n)" by blast
  note fr = ramfs_write_frame [OF wr assms(7,8)]
  define f' where "f' = ?f\<lparr>fd_offset := off + of_nat ?L\<rparr>"
  define w1 where "w1 = set_fd (nat fd) f' w'"
  define w2 where "w2 = set_fd (nat fd) (f'\<lparr>fd_offset := off\<rparr>) w1"
  have L: "0 < int ?L" using assms(9) by simp
  have wrote: "vfs_write fd data w = Some (int ?L, w1)"
    using assms(2-6) wr L fr by (simp add: vfs_write_def Let_def call_write_def w1_def f'_def)
  have bad: "\<not> bad_fd fd w1" "\<not> bad_fd fd w2"
    using assms(2) by (simp_all add: bad_fd_def w1_def w2_def set_fd_def f'_def)
  have seek: "vfs_seek fd off 0 w1 = (0, w2)"
    using bad(1) by (simp add: vfs_seek_def Let_def w2_def) (simp add: w1_def set_fd_def)
  have ok2: "ramfs_ok w2" "contents w2 n = contents w' n" using ok by (simp_all add: w2_def w1_def)
  have nodes2: "nodes w2 = nodes w'" by (simp add: w2_def w1_def set_fd_def)
  have u: "unat (of_nat ?L :: u32) = ?L" using assms(10) by (intro unat_of_nat_small) simp
  have u64: "unat (of_nat ?L :: u64) = ?L" using assms(10) by (intro unat_of_nat_small) simp
  then have "unat (ucast (of_nat ?L :: u64) :: u32) = ?L" using assms(10) by (subst unat_ucast_small) simp_all
  then have cast: "(ucast (of_nat ?L :: u64) :: u32) = of_nat ?L" by (simp only: word_unat_eq_iff u)
  have "take ?L (drop (unat off) (contents w' n)) = data" using gap by (simp add: c)
  moreover have "\<not> is_dir (nodes w2 n)" using fr assms(7) by (simp add: is_dir_def nodes2)
  ultimately have read: "call_read RamfsFs n off (of_nat ?L) w2 = Some (int ?L, data)"
    using ramfs_read_section [OF ok2(1), of n off "of_nat ?L"] by (simp add: call_read_def u ok2(2) Let_def)
  have g2: "g_fds w2 (nat fd) = f'\<lparr>fd_offset := off\<rparr>" by (simp add: w2_def set_fd_def)
  define w3 where "w3 = set_fd (nat fd) (f'\<lparr>fd_offset := off + of_nat ?L\<rparr>) w2"
  have "vfs_read fd (of_nat ?L) w2 = Some (int ?L, data, w3)"
    using bad(2) assms(3,5) L fr read by (simp add: vfs_read_def Let_def g2 f'_def nodes2 cast w3_def)
  moreover have "vfs_tell fd w3 = off + of_nat ?L"
    using bad(2) by (simp add: vfs_tell_def bad_fd_def w3_def set_fd_def g2)
  ultimately show ?thesis using wrote seek by blast
qed

text \<open>\<open>demo_fs\<close> with descriptor 3 open on its file.\<close>

definition demo_open :: fs_world where
  "demo_open = set_fd 3 \<lparr>fd_node = Some (RamfsNode 1), fd_offset = 0, fd_flags = 2, fd_refcount = 1\<rparr>
     (set_node (RamfsNode 1) ((nodes demo_fs (RamfsNode 1))\<lparr>op_read := Some RamfsFs, op_write := Some RamfsFs\<rparr>) demo_fs)"

lemma demo_open_ok: "ramfs_ok demo_open"
proof -
  let ?w = "set_node (RamfsNode 1) ((nodes demo_fs (RamfsNode 1))\<lparr>op_read := Some RamfsFs, op_write := Some RamfsFs\<rparr>) demo_fs"
  have "pages_bound ?w = pages_bound demo_fs" by (simp add: pages_bound_def fun_eq_iff)
  moreover have "pages_inv B ?w = pages_inv B demo_fs" for B by (rule pages_inv_cong) simp_all
  ultimately have "ramfs_ok ?w" using demo_fs_ok
    by (simp add: ramfs_ok_def) (simp add: demo_fs_def zero_node_def)
  then show ?thesis by (simp add: demo_open_def)
qed

theorem vfs_write_seek_read_witness:
  "\<exists>w1 w2 w3. vfs_write 3 [7, 8] demo_open = Some (2, w1) \<and> vfs_seek 3 0 0 w1 = (0, w2) \<and>
     vfs_read 3 2 w2 = Some (2, [7, 8], w3)"
proof -
  have f: "nodes demo_open (RamfsNode 1) = (nodes demo_fs (RamfsNode 1))\<lparr>op_read := Some RamfsFs, op_write := Some RamfsFs\<rparr>"
    "file_data_count demo_open = file_data_count demo_fs" "fs_pfa demo_open = fs_pfa demo_fs"
    "g_fds demo_open 3 = \<lparr>fd_node = Some (RamfsNode 1), fd_offset = 0, fd_flags = 2, fd_refcount = 1\<rparr>"
    by (simp_all add: demo_open_def set_fd_def)
  have "\<exists>w1 w2 w3. vfs_write 3 [7, 8] demo_open = Some (int (length [7, 8 :: u8]), w1) \<and>
    vfs_seek 3 0 0 w1 = (0, w2) \<and>
    vfs_read 3 (of_nat (length [7, 8 :: u8])) w2 = Some (int (length [7, 8 :: u8]), [7, 8], w3) \<and>
    vfs_tell 3 w3 = 0 + of_nat (length [7, 8 :: u8])"
    by (rule vfs_write_seek_read [where n = "RamfsNode 1", OF demo_open_ok])
      (use demo_fs_node in \<open>simp_all add: f [simplified] bad_fd_def MAX_FDS_def is_dir_def\<close>)
  then show ?thesis by simp blast
qed

text \<open>Unmounting shifts the mount table under the nodes that point into it: after
  \<open>vfs_unmount\<close> of entry \<open>i\<close>, a node on which entry \<open>i\<close> was mounted is not released but
  leads into the file system that was mounted as entry \<open>i + 1\<close>.\<close>

theorem unmount_redirects_nodes:
  assumes "c_string path" "\<forall>j < g_mount_count w. c_string (mp_path (g_mounts w j))"
    and "Suc i < g_mount_count w" "mp_path (g_mounts w i) = path" "\<forall>j < i. mp_path (g_mounts w j) \<noteq> path"
    and "mp_refcount (g_mounts w i) \<le> 0"
    and "node_flags (nodes w n) AND VFS_MOUNTPOINT \<noteq> 0" "node_mount (nodes w n) = Some i"
  shows "\<exists>w'. vfs_unmount path w = (0, w') \<and> g_mount_count w' = g_mount_count w - 1 \<and>
    enter n w' = mp_root (g_mounts w (Suc i))"
proof -
  have shift: "shift_mounts m j f k = (if j \<le> k \<and> k < j + m then f (Suc k) else f k)" for m j f k
    by (induction m arbitrary: j f) auto
  have scan: "unmount_scan m j path w =
      (0, w\<lparr>g_mounts := shift_mounts (g_mount_count w - Suc i) i (g_mounts w), g_mount_count := g_mount_count w - 1\<rparr>)"
    if "j \<le> i" "j + m = g_mount_count w" for m j
    using that
  proof (induction m arbitrary: j)
    case (Suc m)
    show ?case
    proof (cases "j = i")
      case True
      then have "m = g_mount_count w - Suc i" using Suc.prems by simp
      with True show ?thesis using assms(1,4,6) by (simp add: my_strcmp_zero)
    next
      case False
      then have "mp_path (g_mounts w j) \<noteq> path" "c_string (mp_path (g_mounts w j))" using Suc.prems assms(2,3,5) by auto
      with Suc.IH [of "Suc j"] Suc.prems False show ?thesis by (simp add: my_strcmp_zero assms(1))
    qed
  qed (use assms(3) in simp)
  let ?w = "w\<lparr>g_mounts := shift_mounts (g_mount_count w - Suc i) i (g_mounts w), g_mount_count := g_mount_count w - 1\<rparr>"
  have "vfs_unmount path w = (0, ?w)" using scan [of 0 "g_mount_count w"] by (simp add: vfs_unmount_def)
  moreover have "enter n ?w = mp_root (g_mounts w (Suc i))"
    using assms(3,7,8) by (auto simp: enter_def shift)
  ultimately show ?thesis by (intro exI [of _ ?w]) simp
qed

text \<open>devfs on node 1 as entry 0, procfs on node 2 as entry 1.\<close>

definition demo_mounts :: fs_world where
  "demo_mounts = empty_world
     \<lparr>nodes := (\<lambda>_. zero_node)(RamfsNode 1 := zero_node\<lparr>node_flags := VFS_DIRECTORY OR VFS_MOUNTPOINT, node_mount := Some 0\<rparr>,
                   RamfsNode 2 := zero_node\<lparr>node_flags := VFS_DIRECTORY OR VFS_MOUNTPOINT, node_mount := Some 1\<rparr>),
      g_mounts := (\<lambda>i. if i = 0 then \<lparr>mp_path = ''/dev'', mp_root = Some DevfsRoot, mp_refcount = 0\<rparr>
                       else \<lparr>mp_path = ''/proc'', mp_root = Some ProcfsRoot, mp_refcount = 0\<rparr>),
      g_mount_count := 2\<rparr>"

theorem unmount_redirects_nodes_witness:
  "enter (RamfsNode 1) demo_mounts = Some DevfsRoot \<and>
   (\<exists>w'. vfs_unmount ''/dev'' demo_mounts = (0, w') \<and> enter (RamfsNode 1) w' = Some ProcfsRoot)"
proof -
  have "\<forall>j < g_mount_count demo_mounts. c_string (mp_path (g_mounts demo_mounts j))"
    by (simp add: demo_mounts_def)
  from unmount_redirects_nodes [OF _ this, of "''/dev''" 0 "RamfsNode 1"]
  show ?thesis by (auto simp: demo_mounts_def enter_def vfs_flag_defs)
qed

text \<open>\<open>vfs_dirname\<close> and \<open>vfs_basename\<close> split a path at its last slash: the base name has
  no slash, and when the slash is not the first character and its position fits in the buffer, directory,
  slash and base name joined are the path.  For a path whose only slash is the first
  character the directory is \<open>/\<close>.\<close>

theorem dirname_basename_split:
  assumes "slash \<in> set path"
  shows "slash \<notin> set (vfs_basename path) \<and>
    (\<exists>dir. path = dir @ [slash] @ vfs_basename path \<and>
      (dir = [] \<longrightarrow> 2 \<le> size_out \<longrightarrow> vfs_dirname path size_out = [slash]) \<and>
      (dir \<noteq> [] \<longrightarrow> length dir < size_out \<longrightarrow> vfs_dirname path size_out = dir))"
proof -
  obtain dir base where p: "path = dir @ slash # base" "slash \<notin> set base"
    using assms split_list_last [of slash path] by blast
  have none: "last_slash i acc s = acc" if "slash \<notin> set s" for i acc s
    using that by (induction s arbitrary: i acc) auto
  have last: "last_slash i acc (d @ slash # base) = Some (i + length d)" for i acc d
    by (induction d arbitrary: i acc) (simp_all add: none p(2))
  have "vfs_basename path = base" by (simp add: vfs_basename_def p(1) last)
  moreover have "vfs_dirname path size_out = [slash]" if "dir = []" "2 \<le> size_out"
    using that by (simp add: vfs_dirname_def p(1) last [of 0 None "[]", simplified] my_strncpy_def)
  moreover have "vfs_dirname path size_out = dir" if "dir \<noteq> []" "length dir < size_out"
    using that by (simp add: vfs_dirname_def p(1) last my_strncpy_def)
  ultimately show ?thesis using p by auto
qed

theorem dirname_basename_split_witness:
  "slash \<notin> set (vfs_basename ''/etc/motd'')"
  using dirname_basename_split [of "''/etc/motd''" 256] by (simp add: slash_def)

end
