(* ===== verification/Chain.thy ===== *)
theory Chain
  imports Prelude
begin

text \<open>
  Singly linked lists.  \<open>nxt\<close> reads the \<open>next\<close> pointer of a node and \<open>None\<close> is the null
  pointer.  \<open>seg nxt p xs q\<close> says that following \<open>nxt\<close> from \<open>p\<close> passes the nodes \<open>xs\<close> and
  arrives at \<open>q\<close>.  The loops that walk a list to its end are partial functions: their value is
  \<open>None\<close> when the list is cyclic and the loop does not end.  The scheduler (sched.c) and the
  block layer (blk.c) rest on this theory.
\<close>

primrec seg :: "('p \<Rightarrow> 'p option) \<Rightarrow> 'p option \<Rightarrow> 'p list \<Rightarrow> 'p option \<Rightarrow> bool" where
  "seg nxt p [] q \<longleftrightarrow> p = q"
| "seg nxt p (x # xs) q \<longleftrightarrow> p = Some x \<and> seg nxt (nxt x) xs q"

abbreviation chain :: "('p \<Rightarrow> 'p option) \<Rightarrow> 'p option \<Rightarrow> 'p list \<Rightarrow> bool" where
  "chain nxt p xs \<equiv> seg nxt p xs None"

lemma seg_append: "seg nxt p (xs @ ys) q \<longleftrightarrow> (\<exists>r. seg nxt p xs r \<and> seg nxt r ys q)"
  by (induction xs arbitrary: p) auto

lemma seg_cong: "(\<And>x. x \<in> set xs \<Longrightarrow> nxt x = nxt' x) \<Longrightarrow> seg nxt p xs q = seg nxt' p xs q"
  by (induction xs arbitrary: p) auto

lemma seg_upd [simp]: "x \<notin> set xs \<Longrightarrow> seg (nxt(x := v)) p xs q = seg nxt p xs q"
  by (rule seg_cong) auto

lemma chain_None [simp]: "chain nxt None xs \<longleftrightarrow> xs = []"
  by (cases xs) auto

lemma chain_Some: "chain nxt (Some x) xs \<longleftrightarrow> (\<exists>ys. xs = x # ys \<and> chain nxt (nxt x) ys)"
  by (cases xs) auto

lemma chain_unique: "chain nxt p xs \<Longrightarrow> chain nxt p ys \<Longrightarrow> xs = ys"
proof (induction xs arbitrary: p ys)
  case (Cons x xs)
  then show ?case by (cases ys) auto
qed auto

lemma chain_distinct: "chain nxt p xs \<Longrightarrow> distinct xs"
proof (induction xs arbitrary: p)
  case (Cons x xs)
  have "x \<notin> set xs"
  proof
    assume "x \<in> set xs"
    then obtain as bs where xs: "xs = as @ x # bs" by (meson split_list)
    with Cons.prems have "chain nxt (nxt x) xs" "chain nxt (nxt x) bs" by (auto simp: seg_append)
    from chain_unique [OF this] xs show False by (metis append_is_Nil_conv length_append
      list.size(4) not_add_less2 add_Suc_right lessI less_add_Suc2 add.commute append_eq_conv_conj)
  qed
  with Cons show ?case by auto
qed simp

text \<open>Linking a new node behind the node \<open>x\<close> of a list.\<close>

lemma chain_insert_after:
  assumes "chain nxt p (as @ x # bs)" "n \<notin> set (as @ x # bs)"
  shows "chain (nxt(n := nxt x, x := Some n)) p (as @ x # n # bs)"
  using assms chain_distinct [OF assms(1)] by (auto simp: seg_append)

section \<open>Walking a list\<close>

partial_function (option) count_from :: "('p \<Rightarrow> 'p option) \<Rightarrow> 'p option \<Rightarrow> nat \<Rightarrow> nat option" where
  "count_from nxt p n = (case p of None \<Rightarrow> Some n | Some x \<Rightarrow> count_from nxt (nxt x) (Suc n))"

partial_function (option) last_from :: "('p \<Rightarrow> 'p option) \<Rightarrow> 'p \<Rightarrow> 'p option" where
  "last_from nxt x = (case nxt x of None \<Rightarrow> Some x | Some y \<Rightarrow> last_from nxt y)"

lemma count_from_chain: "chain nxt p xs \<Longrightarrow> count_from nxt p n = Some (n + length xs)"
  by (induction xs arbitrary: p n) (subst count_from.simps; simp)+

lemma last_from_chain: "chain nxt (Some x) (x # xs) \<Longrightarrow> last_from nxt x = Some (last (x # xs))"
  by (induction xs arbitrary: x) (subst last_from.simps; auto)+

end
