(* ===== verification/Sched.thy ===== *)
theory Sched
  imports Chain CString
begin

text \<open>
  The multi-core scheduler of core/sched.c.  Tasks live in two pools, named by \<open>task_ref\<close>; a
  run queue is a linked list through \<open>t_next\<close>.  The build selects \<open>CONFIG_SMP\<close> and
  \<open>CONFIG_SMT_SCHED\<close> (autoconf.h).  An operation whose loop does not end, or that stores a
  name past the 64 bytes of \<open>task.name\<close>, has the value \<open>None\<close>.
\<close>

section \<open>State\<close>

definition MAX_CPUS :: nat where "MAX_CPUS = 64"
definition MAX_TASKS :: nat where "MAX_TASKS = 256"
definition TASK_READY :: u32 where "TASK_READY = 1"

datatype task_ref = PoolTask nat | IdleTask nat

record task =
  t_id :: u32
  t_state :: u32
  t_cpu_id :: u32
  t_slice :: u64
  t_runtime :: u64
  t_next :: "task_ref option"
  t_name :: string

record cpu_info =
  c_id :: u32
  c_apic_id :: u32
  c_is_bsp :: bool
  c_is_smt :: bool
  c_core_id :: u32
  c_package_id :: u32
  c_online :: bool
  c_current :: "task_ref option"
  c_run_queue :: "task_ref option"
  c_idle_time :: u64

record sched =
  cpus :: "nat \<Rightarrow> cpu_info"
  cpu_count :: nat
  tasks :: "task_ref \<Rightarrow> task"
  next_task_id :: nat
  smt_aware :: int

definition zero_task :: task where
  "zero_task = \<lparr>t_id = 0, t_state = 0, t_cpu_id = 0, t_slice = 0, t_runtime = 0, t_next = None, t_name = ''''\<rparr>"

definition zero_cpu :: cpu_info where
  "zero_cpu = \<lparr>c_id = 0, c_apic_id = 0, c_is_bsp = False, c_is_smt = False, c_core_id = 0,
     c_package_id = 0, c_online = False, c_current = None, c_run_queue = None, c_idle_time = 0\<rparr>"

abbreviation next_of :: "sched \<Rightarrow> task_ref \<Rightarrow> task_ref option" where
  "next_of s \<equiv> \<lambda>t. t_next (tasks s t)"

definition set_task :: "task_ref \<Rightarrow> task \<Rightarrow> sched \<Rightarrow> sched" where
  "set_task t x s = s\<lparr>tasks := (tasks s)(t := x)\<rparr>"

definition set_cpu :: "nat \<Rightarrow> cpu_info \<Rightarrow> sched \<Rightarrow> sched" where
  "set_cpu i c s = s\<lparr>cpus := (cpus s)(i := c)\<rparr>"

lemma sched_upd_simps [simp]:
  "tasks (set_task t x s) = (tasks s)(t := x)" "cpus (set_task t x s) = cpus s"
  "cpu_count (set_task t x s) = cpu_count s" "next_task_id (set_task t x s) = next_task_id s"
  "smt_aware (set_task t x s) = smt_aware s"
  "cpus (set_cpu i c s) = (cpus s)(i := c)" "tasks (set_cpu i c s) = tasks s"
  "cpu_count (set_cpu i c s) = cpu_count s" "next_task_id (set_cpu i c s) = next_task_id s"
  "smt_aware (set_cpu i c s) = smt_aware s"
  by (simp_all add: set_task_def set_cpu_def)

section \<open>Operations\<close>

text \<open>
  \<open>sched_init\<close> clears the CPUs and the task pool, but neither the idle tasks nor
  \<open>next_task_id\<close>.  \<open>acpi_cpu_count\<close> and \<open>acpi_cpu_apic_ids\<close> come from acpi.c.
\<close>

definition init_cpu :: "nat \<Rightarrow> u32 \<Rightarrow> nat \<Rightarrow> cpu_info" where
  "init_cpu count apic i =
     zero_cpu\<lparr>c_id := of_nat i, c_apic_id := apic, c_is_bsp := (i = 0), c_online := (i = 0),
       c_is_smt := (apic AND 1 \<noteq> 0 \<and> count > 1), c_core_id := drop_bit 1 apic\<rparr>"

definition init_idle :: "nat \<Rightarrow> task \<Rightarrow> task" where
  "init_idle i t = t\<lparr>t_id := 0xFFFF0000 OR of_nat i, t_state := TASK_READY, t_cpu_id := of_nat i, t_name := ''idle''\<rparr>"

primrec init_cpus :: "nat \<Rightarrow> nat \<Rightarrow> (nat \<Rightarrow> u32) \<Rightarrow> sched \<Rightarrow> sched" where
  "init_cpus 0 i apic s = s"
| "init_cpus (Suc n) i apic s =
     init_cpus n (Suc i) apic
       (set_task (IdleTask i) (init_idle i (tasks s (IdleTask i)))
         (set_cpu i (init_cpu (cpu_count s) (apic i) i) s))"

definition sched_init :: "int \<Rightarrow> (nat \<Rightarrow> u32) \<Rightarrow> sched \<Rightarrow> sched" where
  "sched_init acpi_cpu_count acpi_cpu_apic_ids s =
     (let count = (if acpi_cpu_count > 0 then nat acpi_cpu_count else 1);
          count = (if count > MAX_CPUS then MAX_CPUS else count) in
      init_cpus count 0 acpi_cpu_apic_ids
        (s\<lparr>cpus := (\<lambda>_. zero_cpu),
           tasks := (\<lambda>t. case t of PoolTask _ \<Rightarrow> zero_task | IdleTask _ \<Rightarrow> tasks s t),
           cpu_count := count\<rparr>))"

definition sched_cpu_count :: "sched \<Rightarrow> nat" where
  "sched_cpu_count s = cpu_count s"

definition sched_get_cpu :: "int \<Rightarrow> sched \<Rightarrow> cpu_info option" where
  "sched_get_cpu i s = (if i < 0 \<or> i \<ge> int (cpu_count s) then None else Some (cpus s (nat i)))"

text \<open>The CPUs the placement loop of \<open>sched_create_task\<close> looks at, and the loop.\<close>

definition eligible :: "sched \<Rightarrow> nat \<Rightarrow> bool" where
  "eligible s i \<longleftrightarrow> c_online (cpus s i) \<and> \<not> (smt_aware s \<noteq> 0 \<and> c_is_smt (cpus s i))"

primrec least_loaded :: "nat \<Rightarrow> nat \<Rightarrow> nat \<Rightarrow> nat \<Rightarrow> sched \<Rightarrow> nat option" where
  "least_loaded 0 i target min_load s = Some target"
| "least_loaded (Suc n) i target min_load s =
     (if \<not> eligible s i then least_loaded n (Suc i) target min_load s
      else case count_from (next_of s) (c_run_queue (cpus s i)) 0 of
        None \<Rightarrow> None
      | Some load \<Rightarrow>
          if load < min_load then least_loaded n (Suc i) i load s
          else least_loaded n (Suc i) target min_load s)"

text \<open>The result is \<open>None\<close> for the null pointer of a full pool.\<close>

definition sched_create_task :: "string \<Rightarrow> sched \<Rightarrow> (task_ref option \<times> sched) option" where
  "sched_create_task nm s =
     (if next_task_id s \<ge> MAX_TASKS then Some (None, s)
      else if length nm \<ge> 64 then None
      else
        let t = PoolTask (next_task_id s);
            s = s\<lparr>next_task_id := next_task_id s + 1\<rparr>;
            s = set_task t ((tasks s t)\<lparr>t_id := of_nat (next_task_id s), t_state := TASK_READY,
                  t_slice := 10, t_runtime := 0, t_name := nm\<rparr>) s in
        (case least_loaded (cpu_count s) 0 0 0x7FFFFFFF s of
           None \<Rightarrow> None
         | Some target \<Rightarrow>
             let s = set_task t ((tasks s t)\<lparr>t_cpu_id := of_nat target, t_next := c_run_queue (cpus s target)\<rparr>) s
             in Some (Some t, set_cpu target ((cpus s target)\<lparr>c_run_queue := Some t\<rparr>) s)))"

definition sched_schedule :: "sched \<Rightarrow> sched option" where
  "sched_schedule s =
     (let cpu = cpus s 0 in
      case c_run_queue cpu of
        None \<Rightarrow> Some (set_cpu 0 (cpu\<lparr>c_current := Some (IdleTask 0)\<rparr>) s)
      | Some t \<Rightarrow>
          if t_state (tasks s t) = TASK_READY then
            let q = t_next (tasks s t);
                s = set_task t ((tasks s t)\<lparr>t_next := None\<rparr>)
                      (set_cpu 0 (cpu\<lparr>c_current := Some t, c_run_queue := q\<rparr>) s) in
            (case q of
               None \<Rightarrow> Some (set_cpu 0 ((cpus s 0)\<lparr>c_run_queue := Some t\<rparr>) s)
             | Some h \<Rightarrow>
                 (case last_from (next_of s) h of
                    None \<Rightarrow> None
                  | Some tail \<Rightarrow> Some (set_task tail ((tasks s tail)\<lparr>t_next := Some t\<rparr>) s)))
          else Some s)"

definition sched_yield :: "sched \<Rightarrow> sched option" where
  "sched_yield s = sched_schedule s"

definition tick_task :: "task \<Rightarrow> task" where
  "tick_task t =
     (if t_slice t > 0 then
        let t = t\<lparr>t_slice := t_slice t - 1, t_runtime := t_runtime t + 1\<rparr> in
        if t_slice t = 0 then t\<lparr>t_slice := 10\<rparr> else t
      else t)"

primrec tick_cpus :: "nat \<Rightarrow> nat \<Rightarrow> sched \<Rightarrow> sched" where
  "tick_cpus 0 i s = s"
| "tick_cpus (Suc n) i s =
     tick_cpus n (Suc i)
       (if c_online (cpus s i) then
          (case c_current (cpus s i) of
             None \<Rightarrow> s
           | Some t \<Rightarrow> set_task t (tick_task (tasks s t)) s)
        else s)"

definition sched_tick :: "sched \<Rightarrow> sched" where
  "sched_tick s = tick_cpus (cpu_count s) 0 s"

definition sched_set_smt_aware :: "int \<Rightarrow> sched \<Rightarrow> sched" where
  "sched_set_smt_aware enabled s = s\<lparr>smt_aware := enabled\<rparr>"

end
