(* ===== verification/SchedProps.thy ===== *)
theory SchedProps
  imports Sched
begin

text \<open>
  Correctness of the scheduler.  \<open>queues_ok s q\<close> relates the linked run queues to the abstract
  queues \<open>q\<close>, one list of tasks per CPU; every operation keeps it and acts on \<open>q\<close> as the
  abstract operation does (push at the head of the least loaded CPU, rotation of CPU 0).
\<close>

definition queues_ok :: "sched \<Rightarrow> (nat \<Rightarrow> task_ref list) \<Rightarrow> bool" where
  "queues_ok s q \<longleftrightarrow>
     (\<forall>i. chain (next_of s) (c_run_queue (cpus s i)) (q i)) \<and>
     (\<forall>i j. i \<noteq> j \<longrightarrow> set (q i) \<inter> set (q j) = {}) \<and>
     (\<Union>i. set (q i)) = PoolTask ` {..<next_task_id s} \<and>
     (\<forall>k < next_task_id s. t_state (tasks s (PoolTask k)) = TASK_READY) \<and>
     next_task_id s \<le> MAX_TASKS"

lemma queues_okD:
  assumes "queues_ok s q"
  shows "chain (next_of s) (c_run_queue (cpus s i)) (q i)" "i \<noteq> j \<Longrightarrow> t \<in> set (q i) \<Longrightarrow> t \<notin> set (q j)"
    and "t \<in> set (q i) \<Longrightarrow> \<exists>k < next_task_id s. t = PoolTask k \<and> t_state (tasks s t) = TASK_READY"
    and "distinct (q i)" "next_task_id s \<le> MAX_TASKS"
proof -
  show c: "chain (next_of s) (c_run_queue (cpus s i)) (q i)" and "next_task_id s \<le> MAX_TASKS"
    using assms by (simp_all add: queues_ok_def)
  then show "distinct (q i)" by (intro chain_distinct)
  show "i \<noteq> j \<Longrightarrow> t \<in> set (q i) \<Longrightarrow> t \<notin> set (q j)" using assms unfolding queues_ok_def by blast
  assume t: "t \<in> set (q i)"
  have "(\<Union>i. set (q i)) = PoolTask ` {..<next_task_id s}" using assms by (simp add: queues_ok_def)
  with t obtain k where "k < next_task_id s" "t = PoolTask k" by blast
  then show "\<exists>k < next_task_id s. t = PoolTask k \<and> t_state (tasks s t) = TASK_READY"
    using assms by (auto simp: queues_ok_def)
qed

lemma queue_length:
  assumes "queues_ok s q"
  shows "length (q i) \<le> MAX_TASKS"
proof -
  have "set (q i) \<subseteq> PoolTask ` {..<next_task_id s}" using queues_okD(3) [OF assms] by blast
  then have "card (set (q i)) \<le> next_task_id s"
    using card_mono [of "PoolTask ` {..<next_task_id s}"] card_image_le [of "{..<next_task_id s}" PoolTask]
    by (metis card_lessThan finite_imageI finite_lessThan le_trans)
  then show ?thesis using queues_okD(4,5) [OF assms] by (simp add: distinct_card)
qed

lemma next_of_upd:
  "(\<lambda>u. t_next (((tasks s)(t := x)) u)) = (next_of s)(t := t_next x)"
  by auto

section \<open>Placement\<close>

lemma least_loaded_spec:
  assumes "\<And>j. chain (next_of s) (c_run_queue (cpus s j)) (q j)"
  shows "\<exists>r. least_loaded n i target m s = Some r \<and>
    (r = target \<and> (\<forall>j. i \<le> j \<longrightarrow> j < i + n \<longrightarrow> eligible s j \<longrightarrow> m \<le> length (q j)) \<or>
     i \<le> r \<and> r < i + n \<and> eligible s r \<and> length (q r) < m \<and>
       (\<forall>j. i \<le> j \<longrightarrow> j < i + n \<longrightarrow> eligible s j \<longrightarrow> length (q r) \<le> length (q j)))"
proof (induction n arbitrary: i target m)
  case (Suc n)
  note cnt = count_from_chain [OF assms, of i 0]
  have step: "i \<le> j \<Longrightarrow> j < i + Suc n \<longleftrightarrow> j = i \<or> Suc i \<le> j \<and> j < Suc i + n" for j by auto
  have split: "(\<forall>j. i \<le> j \<longrightarrow> j < i + Suc n \<longrightarrow> P j) \<longleftrightarrow> P i \<and> (\<forall>j. Suc i \<le> j \<longrightarrow> j < Suc i + n \<longrightarrow> P j)" for P
    by (auto simp: step) (metis Suc_leI le_neq_implies_less step)
  show ?case
  proof (cases "eligible s i \<and> length (q i) < m")
    case True
    from Suc.IH [of "Suc i" i "length (q i)"] obtain r where
      r: "least_loaded n (Suc i) i (length (q i)) s = Some r"
      "r = i \<and> (\<forall>j. Suc i \<le> j \<longrightarrow> j < Suc i + n \<longrightarrow> eligible s j \<longrightarrow> length (q i) \<le> length (q j)) \<or>
       Suc i \<le> r \<and> r < Suc i + n \<and> eligible s r \<and> length (q r) < length (q i) \<and>
       (\<forall>j. Suc i \<le> j \<longrightarrow> j < Suc i + n \<longrightarrow> eligible s j \<longrightarrow> length (q r) \<le> length (q j))" by blast
    have "least_loaded (Suc n) i target m s = Some r" using r(1) True cnt by simp
    with r(2) True show ?thesis unfolding split by (intro exI [of _ r]) auto
  next
    case False
    from Suc.IH [of "Suc i" target m] obtain r where
      r: "least_loaded n (Suc i) target m s = Some r"
      "r = target \<and> (\<forall>j. Suc i \<le> j \<longrightarrow> j < Suc i + n \<longrightarrow> eligible s j \<longrightarrow> m \<le> length (q j)) \<or>
       Suc i \<le> r \<and> r < Suc i + n \<and> eligible s r \<and> length (q r) < m \<and>
       (\<forall>j. Suc i \<le> j \<longrightarrow> j < Suc i + n \<longrightarrow> eligible s j \<longrightarrow> length (q r) \<le> length (q j))" by blast
    have "least_loaded (Suc n) i target m s = Some r" using r(1) False cnt by auto
    with r(2) False show ?thesis unfolding split by (intro exI [of _ r]) auto
  qed
qed simp

text \<open>The CPU a new task goes to: a least loaded one of those that qualify, else CPU 0.\<close>

definition best_cpu :: "sched \<Rightarrow> (nat \<Rightarrow> task_ref list) \<Rightarrow> nat \<Rightarrow> bool" where
  "best_cpu s q r \<longleftrightarrow>
     (if \<exists>j < cpu_count s. eligible s j
      then r < cpu_count s \<and> eligible s r \<and> (\<forall>j < cpu_count s. eligible s j \<longrightarrow> length (q r) \<le> length (q j))
      else r = 0)"

lemma least_loaded_best:
  assumes "queues_ok s q" and eq: "cpus s' = cpus s" "cpu_count s' = cpu_count s" "smt_aware s' = smt_aware s"
    and chains: "\<And>j. chain (next_of s') (c_run_queue (cpus s' j)) (q j)"
  shows "\<exists>r. least_loaded (cpu_count s') 0 0 0x7FFFFFFF s' = Some r \<and> best_cpu s q r"
proof -
  have el: "eligible s' = eligible s" by (simp add: eligible_def eq fun_eq_iff)
  have "length (q j) < 0x7FFFFFFF" for j using queue_length [OF assms(1), of j] by (simp add: MAX_TASKS_def)
  then have big: "\<not> 0x7FFFFFFF \<le> length (q j)" for j by (simp add: not_le)
  from least_loaded_spec [OF chains, of "cpu_count s" 0 0 "0x7FFFFFFF"] obtain r where
    r: "least_loaded (cpu_count s) 0 0 0x7FFFFFFF s' = Some r"
      "r = 0 \<and> (\<forall>j. 0 \<le> j \<longrightarrow> j < 0 + cpu_count s \<longrightarrow> eligible s' j \<longrightarrow> 0x7FFFFFFF \<le> length (q j)) \<or>
       0 \<le> r \<and> r < 0 + cpu_count s \<and> eligible s' r \<and> length (q r) < 0x7FFFFFFF \<and>
       (\<forall>j. 0 \<le> j \<longrightarrow> j < 0 + cpu_count s \<longrightarrow> eligible s' j \<longrightarrow> length (q r) \<le> length (q j))" by (elim exE conjE) (rule that)
  from r(2) have r2: "(\<forall>j < cpu_count s. \<not> eligible s j) \<and> r = 0 \<or>
      r < cpu_count s \<and> eligible s r \<and> (\<forall>j < cpu_count s. eligible s j \<longrightarrow> length (q r) \<le> length (q j))"
    by (simp add: big el) blast
  have "best_cpu s q r" using r2 unfolding best_cpu_def by (cases "\<exists>j < cpu_count s. eligible s j") auto
  with r(1) eq(2) show ?thesis by auto
qed

lemma create_task_queues:
  assumes ok: "queues_ok s q" and room: "next_task_id s < MAX_TASKS" "length nm < 64"
  shows "\<exists>r s'. sched_create_task nm s = Some (Some (PoolTask (next_task_id s)), s') \<and>
    best_cpu s q r \<and> queues_ok s' (q(r := PoolTask (next_task_id s) # q r)) \<and>
    next_task_id s' = Suc (next_task_id s) \<and> t_cpu_id (tasks s' (PoolTask (next_task_id s))) = of_nat r \<and>
    t_name (tasks s' (PoolTask (next_task_id s))) = nm \<and> (\<forall>i. c_current (cpus s' i) = c_current (cpus s i))"
proof -
  let ?t = "PoolTask (next_task_id s)"
  define s1 where "s1 = set_task ?t ((tasks s ?t)\<lparr>t_id := of_nat (Suc (next_task_id s)), t_state := TASK_READY,
       t_slice := 10, t_runtime := 0, t_name := nm\<rparr>) (s\<lparr>next_task_id := Suc (next_task_id s)\<rparr>)"
  have fresh: "?t \<notin> set (q i)" for i using queues_okD(3) [OF ok, of ?t i] by auto
  have s1: "cpus s1 = cpus s" "cpu_count s1 = cpu_count s" "smt_aware s1 = smt_aware s"
      "next_task_id s1 = Suc (next_task_id s)"
    by (simp_all add: s1_def)
  have n1: "next_of s1 = next_of s" by (auto simp: s1_def)
  have "chain (next_of s1) (c_run_queue (cpus s1 j)) (q j)" for j
    unfolding n1 s1(1) by (rule queues_okD(1) [OF ok])
  from least_loaded_best [OF ok s1(1-3) this] obtain r where
    r: "least_loaded (cpu_count s1) 0 0 0x7FFFFFFF s1 = Some r" "best_cpu s q r" by blast
  define x where "x = (tasks s1 ?t)\<lparr>t_cpu_id := of_nat r, t_next := c_run_queue (cpus s r)\<rparr>"
  define s2 where "s2 = set_cpu r ((cpus s r)\<lparr>c_run_queue := Some ?t\<rparr>) (set_task ?t x s1)"
  have run: "sched_create_task nm s = Some (Some ?t, s2)"
    using room r(1) by (simp add: sched_create_task_def Let_def s1_def s2_def x_def)
  have n2: "next_of s2 = (next_of s)(?t := c_run_queue (cpus s r))"
    unfolding n1 [symmetric] by (auto simp: s2_def x_def)
  let ?q = "q(r := ?t # q r)"
  have "chain (next_of s2) (c_run_queue (cpus s2 i)) (?q i)" for i
    using fresh queues_okD(1) [OF ok, of i] queues_okD(1) [OF ok, of r]
    unfolding n2 by (auto simp: s2_def s1)
  moreover have "i \<noteq> j \<Longrightarrow> set (?q i) \<inter> set (?q j) = {}" for i j
    using fresh queues_okD(2) [OF ok] by auto
  moreover have "(\<Union>i. set (?q i)) = insert ?t (\<Union>i. set (q i))"
    by (auto split: if_splits)
  then have "(\<Union>i. set (?q i)) = PoolTask ` {..<Suc (next_task_id s)}"
    using ok by (simp add: queues_ok_def lessThan_Suc)
  moreover have "t_state (tasks s2 (PoolTask k)) = TASK_READY" if "k < Suc (next_task_id s)" for k
    using that ok by (auto simp: s2_def x_def s1_def queues_ok_def less_Suc_eq)
  ultimately have "queues_ok s2 ?q"
    using room(1) by (simp add: queues_ok_def s2_def s1)
  then show ?thesis using run r(2)
    by (intro exI [of _ r] exI [of _ s2]) (simp add: s2_def x_def s1 s1_def)
qed

section \<open>Rotation\<close>

lemma schedule_empty:
  assumes "c_run_queue (cpus s 0) = None"
  shows "sched_schedule s = Some (set_cpu 0 ((cpus s 0)\<lparr>c_current := Some (IdleTask 0)\<rparr>) s)"
  using assms by (simp add: sched_schedule_def)

lemma schedule_rotates:
  assumes ok: "queues_ok s q" and q0: "q 0 = t # ts"
  shows "\<exists>s'. sched_schedule s = Some s' \<and> queues_ok s' (q(0 := ts @ [t])) \<and>
    c_current (cpus s' 0) = Some t \<and> next_task_id s' = next_task_id s"
proof -
  have c: "chain (next_of s) (c_run_queue (cpus s 0)) (t # ts)"
    using queues_okD(1) [OF ok, of 0] q0 by simp
  have head: "c_run_queue (cpus s 0) = Some t" and rest: "chain (next_of s) (next_of s t) ts" using c by auto
  have t: "t \<notin> set ts" using chain_distinct [OF c] by simp
  have ready: "t_state (tasks s t) = TASK_READY" using queues_okD(3) [OF ok, of t 0] q0 by auto
  have other: "i \<noteq> 0 \<Longrightarrow> t \<notin> set (q i) \<and> set (q i) \<inter> set ts = {}" for i
    using queues_okD(2) [OF ok, of 0 i] q0 by auto
  define s1 where "s1 = set_task t ((tasks s t)\<lparr>t_next := None\<rparr>)
      (set_cpu 0 ((cpus s 0)\<lparr>c_current := Some t, c_run_queue := next_of s t\<rparr>) s)"
  have n1: "next_of s1 = (next_of s)(t := None)" by (auto simp: s1_def)
  have sets: "set ((q(0 := ts @ [t])) i) = set (q i)" for i using q0 by simp
  have inv: "queues_ok s' (q(0 := ts @ [t]))"
    if "\<And>i. chain (next_of s') (c_run_queue (cpus s' i)) ((q(0 := ts @ [t])) i)"
      "next_task_id s' = next_task_id s" "\<And>k. t_state (tasks s' k) = t_state (tasks s k)" for s'
    using that ok unfolding queues_ok_def sets by simp
  show ?thesis
  proof (cases ts)
    case Nil
    with rest have none: "next_of s t = None" by simp
    let ?s = "set_cpu 0 ((cpus s1 0)\<lparr>c_run_queue := Some t\<rparr>) s1"
    have "sched_schedule s = Some ?s"
      using head ready none by (simp add: sched_schedule_def Let_def s1_def)
    moreover have "chain (next_of ?s) (c_run_queue (cpus ?s i)) ((q(0 := ts @ [t])) i)" for i
    proof -
      have n: "next_of ?s = (next_of s)(t := None)" by (simp add: n1)
      show ?thesis using other [of i] queues_okD(1) [OF ok, of i] Nil unfolding n by (auto simp: s1_def)
    qed
    then have "queues_ok ?s (q(0 := ts @ [t]))" by (rule inv) (auto simp: s1_def)
    ultimately show ?thesis by (intro exI [of _ ?s]) (simp add: s1_def)
  next
    case (Cons h hs)
    with rest have h: "next_of s t = Some h" by simp
    have c1: "chain (next_of s1) (Some h) ts" using rest t h by (simp add: n1)
    from last_from_chain [of "next_of s1" h hs] c1 Cons
    have tail: "last_from (next_of s1) h = Some (last ts)" by simp
    define s2 where "s2 = set_task (last ts) ((tasks s1 (last ts))\<lparr>t_next := Some t\<rparr>) s1"
    have run: "sched_schedule s = Some s2"
      using head ready h tail by (simp add: sched_schedule_def Let_def s1_def s2_def)
    have bl: "butlast ts @ last ts # [] = ts" using Cons by (metis append_butlast_last_id list.distinct(1))
    have n2: "next_of s2 = (next_of s1)(t := next_of s1 (last ts), last ts := Some t)"
    proof -
      have "chain (next_of s1) (Some h) (butlast ts @ last ts # [])" unfolding bl by (rule c1)
      then have "next_of s1 (last ts) = None" by (auto simp: seg_append)
      then show ?thesis by (auto simp: s2_def n1 fun_eq_iff s1_def)
    qed
    have "chain (next_of s2) (Some h) (ts @ [t])"
    proof -
      have "chain (next_of s1) (Some h) (butlast ts @ last ts # [])" unfolding bl by (rule c1)
      from chain_insert_after [OF this, of t] t Cons
      show ?thesis unfolding n2 by (metis append_butlast_last_id append_Cons append_Nil append_assoc list.simps(3))
    qed
    moreover have "last ts \<notin> set (q i)" if "i \<noteq> 0" for i using other [OF that] Cons last_in_set [of ts] by blast
    then have "chain (next_of s2) (c_run_queue (cpus s2 i)) (q i)" if "i \<noteq> 0" for i
      using that other [of i] queues_okD(1) [OF ok, of i] unfolding n2 n1 by (simp add: s2_def s1_def)
    ultimately have "chain (next_of s2) (c_run_queue (cpus s2 i)) ((q(0 := ts @ [t])) i)" for i
      using h by (auto simp: s2_def s1_def)
    then have "queues_ok s2 (q(0 := ts @ [t]))" by (rule inv) (auto simp: s2_def s1_def)
    with run show ?thesis by (intro exI [of _ s2]) (simp add: s2_def s1_def)
  qed
qed

section \<open>Reachable states\<close>

lemma init_cpus_state:
  "cpus (init_cpus n i apic s) = (\<lambda>j. if i \<le> j \<and> j < i + n then init_cpu (cpu_count s) (apic j) j else cpus s j)"
  "tasks (init_cpus n i apic s) (PoolTask k) = tasks s (PoolTask k)"
  "next_task_id (init_cpus n i apic s) = next_task_id s" "cpu_count (init_cpus n i apic s) = cpu_count s"
  by (induction n arbitrary: i s) (auto simp: fun_eq_iff)

lemma sched_init_queues:
  assumes "next_task_id s = 0"
  shows "queues_ok (sched_init n apic s) (\<lambda>_. [])"
  using assms
  by (simp add: queues_ok_def sched_init_def Let_def init_cpus_state init_cpu_def zero_cpu_def)

lemma tick_cpus_frame:
  "cpus (tick_cpus n i s) = cpus s" "next_task_id (tick_cpus n i s) = next_task_id s"
  "t_next (tasks (tick_cpus n i s) t) = t_next (tasks s t)" "t_state (tasks (tick_cpus n i s) t) = t_state (tasks s t)"
  by (induction n arbitrary: i s) (auto simp: tick_task_def Let_def split: option.splits)

lemma queues_ok_cong:
  assumes "queues_ok s q" "\<And>i. c_run_queue (cpus s' i) = c_run_queue (cpus s i)" "next_of s' = next_of s"
    "\<And>t. t_state (tasks s' t) = t_state (tasks s t)" "next_task_id s' = next_task_id s"
  shows "queues_ok s' q"
  using assms(1) unfolding queues_ok_def assms(2-5) .

inductive sched_reachable :: "sched \<Rightarrow> bool" where
  boot: "next_task_id s = 0 \<Longrightarrow> sched_reachable (sched_init n apic s)"
| create: "sched_reachable s \<Longrightarrow> sched_create_task nm s = Some (r, s') \<Longrightarrow> sched_reachable s'"
| schedule: "sched_reachable s \<Longrightarrow> sched_schedule s = Some s' \<Longrightarrow> sched_reachable s'"
| tick: "sched_reachable s \<Longrightarrow> sched_reachable (sched_tick s)"
| set_smt: "sched_reachable s \<Longrightarrow> sched_reachable (sched_set_smt_aware e s)"

lemma schedule_total:
  assumes ok: "queues_ok s q"
  shows "\<exists>s' q'. sched_schedule s = Some s' \<and> queues_ok s' q' \<and> next_task_id s' = next_task_id s"
proof (cases "q 0")
  case Nil
  then have none: "c_run_queue (cpus s 0) = None" using queues_okD(1) [OF ok, of 0] by simp
  let ?s = "set_cpu 0 ((cpus s 0)\<lparr>c_current := Some (IdleTask 0)\<rparr>) s"
  have "queues_ok ?s q" by (rule queues_ok_cong [OF ok]) auto
  with schedule_empty [OF none] show ?thesis by (intro exI [of _ ?s] exI [of _ q]) simp
next
  case (Cons t ts)
  from schedule_rotates [OF ok this] show ?thesis by blast
qed

lemma reachable_queues: "sched_reachable s \<Longrightarrow> \<exists>q. queues_ok s q"
proof (induction rule: sched_reachable.induct)
  case (boot s n apic)
  then show ?case using sched_init_queues by blast
next
  case (create s nm r s')
  then obtain q where q: "queues_ok s q" by blast
  show ?case
  proof (cases "next_task_id s < MAX_TASKS \<and> length nm < 64")
    case True
    from create_task_queues [OF q] True create.hyps(2) show ?thesis by fastforce
  next
    case False
    with create.hyps(2) q show ?thesis by (auto simp: sched_create_task_def split: if_splits)
  qed
next
  case (schedule s s')
  then obtain q where "queues_ok s q" by blast
  from schedule_total [OF this] schedule.hyps(2) show ?case by auto
next
  case (tick s)
  then obtain q where "queues_ok s q" by blast
  then have "queues_ok (sched_tick s) q"
    by (rule queues_ok_cong) (simp_all add: sched_tick_def tick_cpus_frame)
  then show ?case by blast
next
  case (set_smt s e)
  then obtain q where "queues_ok s q" by blast
  then have "queues_ok (sched_set_smt_aware e s) q"
    by (rule queues_ok_cong) (simp_all add: sched_set_smt_aware_def)
  then show ?case by blast
qed

primrec schedule_n :: "nat \<Rightarrow> sched \<Rightarrow> sched option" where
  "schedule_n 0 s = Some s"
| "schedule_n (Suc n) s = (case schedule_n n s of None \<Rightarrow> None | Some s \<Rightarrow> sched_schedule s)"

lemma schedule_n_rotate:
  assumes "queues_ok s q" "q 0 \<noteq> []"
  shows "\<exists>s'. schedule_n n s = Some s' \<and> queues_ok s' (q(0 := rotate n (q 0)))"
proof (induction n)
  case 0
  then show ?case using assms(1) by simp
next
  case (Suc n)
  then obtain s' where s': "schedule_n n s = Some s'" "queues_ok s' (q(0 := rotate n (q 0)))" by blast
  obtain t ts where t: "rotate n (q 0) = t # ts" using assms(2) by (metis list.exhaust rotate_is_Nil_conv)
  from schedule_rotates [OF s'(2), of t ts] t obtain s'' where
    s'': "sched_schedule s' = Some s''" "queues_ok s'' (q(0 := ts @ [t]))" by auto
  have rot: "rotate (Suc n) (q 0) = ts @ [t]" using t by (simp add: rotate_def)
  have "schedule_n (Suc n) s = Some s''" using s'(1) s''(1) by simp
  moreover have "queues_ok s'' (q(0 := rotate (Suc n) (q 0)))" unfolding rot by (rule s''(2))
  ultimately show ?case by blast
qed

section \<open>Properties\<close>

text \<open>C8. In every reachable state each created task is on exactly one run queue, the run
  queues are acyclic, and so \<open>sched_schedule\<close> and \<open>sched_create_task\<close> (with a name that fits)
  end.\<close>

theorem sched_tasks_on_one_queue:
  assumes "sched_reachable s"
  shows "(\<exists>q. (\<forall>i. chain (next_of s) (c_run_queue (cpus s i)) (q i) \<and> distinct (q i)) \<and>
           (\<forall>k. (\<exists>!i. PoolTask k \<in> set (q i)) = (k < next_task_id s))) \<and>
         sched_schedule s \<noteq> None \<and> (length nm < 64 \<longrightarrow> sched_create_task nm s \<noteq> None)"
proof -
  obtain q where q: "queues_ok s q" using reachable_queues [OF assms] by blast
  have u: "(\<Union>i. set (q i)) = PoolTask ` {..<next_task_id s}" using q by (simp add: queues_ok_def)
  have "(\<exists>!i. PoolTask k \<in> set (q i)) = (k < next_task_id s)" for k
  proof
    assume "\<exists>!i. PoolTask k \<in> set (q i)"
    then show "k < next_task_id s" using queues_okD(3) [OF q, of "PoolTask k"] by auto
  next
    assume "k < next_task_id s"
    then obtain i where "PoolTask k \<in> set (q i)" using u by blast
    then show "\<exists>!i. PoolTask k \<in> set (q i)" using queues_okD(2) [OF q] by blast
  qed
  moreover have "length nm < 64 \<longrightarrow> sched_create_task nm s \<noteq> None"
    using create_task_queues [OF q, of nm] by (cases "next_task_id s < MAX_TASKS") (auto simp: sched_create_task_def)
  ultimately show ?thesis
    using queues_okD(1,4) [OF q] schedule_total [OF q] by (intro conjI exI [of _ q]) auto
qed

definition demo_sched :: sched where
  "demo_sched = sched_init 4 (\<lambda>i. of_nat i) \<lparr>cpus = (\<lambda>_. zero_cpu), cpu_count = 0, tasks = (\<lambda>_. zero_task), next_task_id = 0, smt_aware = 1\<rparr>"

definition demo_two :: sched where
  "demo_two = snd (the (sched_create_task ''b'' (snd (the (sched_create_task ''a'' demo_sched)))))"

lemma demo_sched_reachable: "sched_reachable demo_sched"
  unfolding demo_sched_def by (rule boot) simp

lemma demo_sched_queues: "queues_ok demo_sched (\<lambda>_. [])"
  unfolding demo_sched_def by (rule sched_init_queues) simp

lemma demo_sched_facts:
  "next_task_id demo_sched = 0" "cpu_count demo_sched = 4" "smt_aware demo_sched = 1"
  "c_online (cpus demo_sched i) \<longleftrightarrow> i = 0" "\<not> c_is_smt (cpus demo_sched 0)"
proof -
  have "smt_aware (init_cpus n i apic s) = smt_aware s" for n i apic s
    by (induction n arbitrary: i s) simp_all
  then show "next_task_id demo_sched = 0" "cpu_count demo_sched = 4" "smt_aware demo_sched = 1"
    "c_online (cpus demo_sched i) \<longleftrightarrow> i = 0" "\<not> c_is_smt (cpus demo_sched 0)"
    by (auto simp: demo_sched_def sched_init_def Let_def init_cpus_state init_cpu_def zero_cpu_def MAX_CPUS_def)
qed

lemma demo_eligible: "c_online (cpus demo_sched i) \<and> eligible demo_sched i \<longleftrightarrow> i = 0"
  by (auto simp: eligible_def demo_sched_facts)

theorem sched_tasks_on_one_queue_witness:
  "sched_schedule demo_sched \<noteq> None \<and> sched_create_task ''init'' demo_sched \<noteq> None"
  using sched_tasks_on_one_queue [OF demo_sched_reachable, of "''init''"] by simp

text \<open>A new task goes to the head of the run queue of a least loaded online CPU (of those
  that are no hyperthread when the scheduler is SMT aware), the other queues stay as they are.\<close>

theorem create_task_balances:
  assumes "queues_ok s q" "next_task_id s < MAX_TASKS" "length nm < 64"
  shows "\<exists>r s'. sched_create_task nm s = Some (Some (PoolTask (next_task_id s)), s') \<and>
    (if \<exists>j < cpu_count s. eligible s j
     then r < cpu_count s \<and> eligible s r \<and> (\<forall>j < cpu_count s. eligible s j \<longrightarrow> length (q r) \<le> length (q j))
     else r = 0) \<and>
    queues_ok s' (q(r := PoolTask (next_task_id s) # q r)) \<and>
    t_cpu_id (tasks s' (PoolTask (next_task_id s))) = of_nat r"
  using create_task_queues [OF assms] unfolding best_cpu_def by blast

theorem create_task_balances_witness:
  "\<exists>s'. sched_create_task ''init'' demo_sched = Some (Some (PoolTask 0), s') \<and>
     queues_ok s' ((\<lambda>_. [])(0 := [PoolTask 0])) \<and> t_cpu_id (tasks s' (PoolTask 0)) = 0"
proof -
  have el: "\<exists>j < cpu_count demo_sched. eligible demo_sched j" "eligible demo_sched r \<longleftrightarrow> r = 0" for r
    by (auto simp: eligible_def demo_sched_facts)
  from create_task_balances [OF demo_sched_queues, of "''init''"]
  show ?thesis by (auto simp: demo_sched_facts MAX_TASKS_def el)
qed

text \<open>C9. Round robin: when \<open>n\<close> tasks wait on CPU 0, the call number \<open>k + 1\<close> of
  \<open>sched_schedule\<close> runs the task number \<open>k mod n\<close> of the queue, so every task runs again after
  \<open>n\<close> calls; the queue is rotated.\<close>

theorem schedule_round_robin:
  assumes "sched_reachable s" "chain (next_of s) (c_run_queue (cpus s 0)) ts" "ts \<noteq> []"
  shows "\<exists>s'. schedule_n (Suc k) s = Some s' \<and> c_current (cpus s' 0) = Some (ts ! (k mod length ts)) \<and>
    chain (next_of s') (c_run_queue (cpus s' 0)) (rotate (Suc k) ts)"
proof -
  obtain q where q: "queues_ok s q" using reachable_queues [OF assms(1)] by blast
  have q0: "q 0 = ts" using chain_unique [OF queues_okD(1) [OF q, of 0] assms(2)] .
  from schedule_n_rotate [OF q, of k] q0 assms(3) obtain s1 where
    s1: "schedule_n k s = Some s1" "queues_ok s1 (q(0 := rotate k ts))" by auto
  obtain t ts' where t: "rotate k ts = t # ts'" using assms(3) by (metis list.exhaust rotate_is_Nil_conv)
  have hd: "t = ts ! (k mod length ts)" using hd_rotate_conv_nth [OF assms(3), of k] t by simp
  from schedule_rotates [OF s1(2), of t ts'] t obtain s' where
    s': "sched_schedule s1 = Some s'" "queues_ok s' (q(0 := ts' @ [t]))" "c_current (cpus s' 0) = Some t" by auto
  have "rotate (Suc k) ts = ts' @ [t]" using t by (simp add: rotate_def)
  then show ?thesis using s1(1) s' hd queues_okD(1) [OF s'(2), of 0] by simp
qed

lemma demo_two_queue:
  "sched_reachable demo_two" "chain (next_of demo_two) (c_run_queue (cpus demo_two 0)) [PoolTask 1, PoolTask 0]"
proof -
  have only0: "best_cpu s q r \<Longrightarrow> r = 0" if "\<And>i. eligible s i \<longleftrightarrow> i = 0" for s q r
    using that unfolding best_cpu_def by (auto split: if_splits)
  have el: "eligible demo_sched i \<longleftrightarrow> i = 0" for i by (auto simp: eligible_def demo_sched_facts)
  from create_task_queues [OF demo_sched_queues, of "''a''"] only0 [OF el] obtain s1 where
    s1: "sched_create_task ''a'' demo_sched = Some (Some (PoolTask 0), s1)" "next_task_id s1 = 1"
      "queues_ok s1 ((\<lambda>_. [])(0 := [PoolTask 0]))"
    by (fastforce simp: demo_sched_facts MAX_TASKS_def)
  have "eligible s1 i \<longleftrightarrow> i = 0" for i
    using s1(1) el [of i] by (auto simp: eligible_def sched_create_task_def Let_def demo_sched_facts split: if_splits option.splits)
  from create_task_queues [OF s1(3), of "''b''"] only0 [OF this] obtain s2 where
    s2: "sched_create_task ''b'' s1 = Some (Some (PoolTask 1), s2)" "queues_ok s2 ((\<lambda>_. [])(0 := [PoolTask 1, PoolTask 0]))"
    by (fastforce simp: s1(2) MAX_TASKS_def)
  have two: "demo_two = s2" using s1(1) s2(1) by (simp add: demo_two_def)
  show "sched_reachable demo_two" unfolding two
    using sched_reachable.create [OF sched_reachable.create [OF demo_sched_reachable s1(1)] s2(1)] .
  show "chain (next_of demo_two) (c_run_queue (cpus demo_two 0)) [PoolTask 1, PoolTask 0]"
    using queues_okD(1) [OF s2(2), of 0] two by simp
qed

theorem schedule_round_robin_witness:
  "\<exists>s'. schedule_n 3 demo_two = Some s' \<and> c_current (cpus s' 0) = Some (PoolTask 1)"
  using schedule_round_robin [OF demo_two_queue, of 2] by (auto simp: numeral_3_eq_3 numeral_2_eq_2)

end
