(* ===== verification/Blk.thy ===== *)
theory Blk
  imports Chain "HOL-Library.Multiset"
begin

text \<open>
  The block layer of core/blk.c.  A request is caller memory named by a number; the read and
  the write queue are linked lists through \<open>b_next\<close>.  The build enables all three schedulers
  and \<open>blk_init\<close> selects mq-deadline; kyber and bfq delegate to it.
\<close>

section \<open>State and operations\<close>

record blk_request =
  b_sector :: u64
  b_count :: u32
  b_buffer :: u64
  b_read :: int
  b_priority :: int
  b_deadline :: u64
  b_next :: "nat option"

datatype iosched = MqDeadline | Kyber | Bfq

record blk =
  reqs :: "nat \<Rightarrow> blk_request"
  read_queue :: "nat option"
  write_queue :: "nat option"
  current_scheduler :: "iosched option"

definition set_next :: "nat \<Rightarrow> nat option \<Rightarrow> blk \<Rightarrow> blk" where
  "set_next n p s = s\<lparr>reqs := (reqs s)(n := (reqs s n)\<lparr>b_next := p\<rparr>)\<rparr>"

abbreviation req_next :: "blk \<Rightarrow> nat \<Rightarrow> nat option" where
  "req_next s \<equiv> \<lambda>n. b_next (reqs s n)"

text \<open>The loop that looks for the node behind which a request goes.\<close>

partial_function (option) deadline_slot :: "blk \<Rightarrow> u64 \<Rightarrow> nat \<Rightarrow> nat option" where
  "deadline_slot s d node =
     (case b_next (reqs s node) of
        None \<Rightarrow> Some node
      | Some n \<Rightarrow> if b_deadline (reqs s n) \<le> d then deadline_slot s d n else Some node)"

definition mq_deadline_add :: "nat \<Rightarrow> blk \<Rightarrow> blk option" where
  "mq_deadline_add req s =
     (let is_read = (b_read (reqs s req) \<noteq> 0);
          queue = (if is_read then read_queue s else write_queue s);
          push = (\<lambda>s. if is_read then s\<lparr>read_queue := Some req\<rparr> else s\<lparr>write_queue := Some req\<rparr>) in
      case queue of
        None \<Rightarrow> Some (push (set_next req None s))
      | Some h \<Rightarrow>
          if b_deadline (reqs s req) < b_deadline (reqs s h) then Some (push (set_next req (Some h) s))
          else (case deadline_slot s (b_deadline (reqs s req)) h of
                  None \<Rightarrow> None
                | Some node \<Rightarrow>
                    let s = set_next req (b_next (reqs s node)) s in Some (set_next node (Some req) s)))"

definition mq_deadline_get_next :: "blk \<Rightarrow> nat option \<times> blk" where
  "mq_deadline_get_next s =
     (case read_queue s of
        Some r \<Rightarrow> (Some r, s\<lparr>read_queue := b_next (reqs s r)\<rparr>)
      | None \<Rightarrow>
          (case write_queue s of
             Some w \<Rightarrow> (Some w, s\<lparr>write_queue := b_next (reqs s w)\<rparr>)
           | None \<Rightarrow> (None, s)))"

definition kyber_add :: "nat \<Rightarrow> blk \<Rightarrow> blk option" where
  "kyber_add req s = mq_deadline_add req s"

definition kyber_get_next :: "blk \<Rightarrow> nat option \<times> blk" where
  "kyber_get_next s = mq_deadline_get_next s"

definition bfq_add :: "nat \<Rightarrow> blk \<Rightarrow> blk option" where
  "bfq_add req s = mq_deadline_add req s"

definition bfq_get_next :: "blk \<Rightarrow> nat option \<times> blk" where
  "bfq_get_next s = mq_deadline_get_next s"

definition blk_init :: "blk \<Rightarrow> blk" where
  "blk_init s = s\<lparr>current_scheduler := Some MqDeadline\<rparr>"

definition blk_submit_request :: "nat \<Rightarrow> blk \<Rightarrow> blk option" where
  "blk_submit_request req s =
     (case current_scheduler s of
        None \<Rightarrow> Some s
      | Some MqDeadline \<Rightarrow> mq_deadline_add req s
      | Some Kyber \<Rightarrow> kyber_add req s
      | Some Bfq \<Rightarrow> bfq_add req s)"

definition blk_dispatch :: "blk \<Rightarrow> nat option \<times> blk" where
  "blk_dispatch s =
     (case current_scheduler s of
        None \<Rightarrow> (None, s)
      | Some MqDeadline \<Rightarrow> mq_deadline_get_next s
      | Some Kyber \<Rightarrow> kyber_get_next s
      | Some Bfq \<Rightarrow> bfq_get_next s)"

section \<open>Insertion behind equal keys\<close>

definition insert_by :: "('a \<Rightarrow> 'k::linorder) \<Rightarrow> 'a \<Rightarrow> 'a list \<Rightarrow> 'a list" where
  "insert_by f x xs = takeWhile (\<lambda>y. f y \<le> f x) xs @ x # dropWhile (\<lambda>y. f y \<le> f x) xs"

lemma set_insert_by [simp]: "set (insert_by f x xs) = insert x (set xs)"
proof -
  have "set (takeWhile P xs) \<union> set (dropWhile P xs) = set xs" for P
    by (metis set_append takeWhile_dropWhile_id)
  then show ?thesis by (auto simp: insert_by_def)
qed

lemma mset_insert_by [simp]: "mset (insert_by f x xs) = add_mset x (mset xs)"
proof -
  have "mset (takeWhile P xs) + mset (dropWhile P xs) = mset xs" for P
    by (metis mset_append takeWhile_dropWhile_id)
  then show ?thesis by (simp add: insert_by_def)
qed

lemma insert_by_Cons:
  "insert_by f x (y # ys) = (if f x < f y then x # y # ys else y # insert_by f x ys)"
  by (auto simp: insert_by_def)

lemma sorted_insert_by: "sorted (map f xs) \<Longrightarrow> sorted (map f (insert_by f x xs))"
proof (induction xs)
  case (Cons y ys)
  then show ?case by (auto simp: insert_by_Cons) 
qed (simp add: insert_by_def)

lemma filter_insert_by:
  "sorted (map f xs) \<Longrightarrow>
     filter (\<lambda>y. k = f y) (insert_by f x xs) = filter (\<lambda>y. k = f y) (xs @ [x])"
proof (induction xs)
  case (Cons y ys)
  then have "filter (\<lambda>z. k = f z) (y # ys) = []" if "f x < f y" "k = f x"
    using that by (auto simp: filter_empty_conv)
  with Cons show ?case by (auto simp: insert_by_Cons)
qed (simp add: insert_by_def)

lemma insert_by_sort_key: "insert_by f x (sort_key f xs) = sort_key f (xs @ [x])"
proof (rule properties_for_sort_key [symmetric])
  show "mset (insert_by f x (sort_key f xs)) = mset (xs @ [x])" by simp
  show "sorted (map f (insert_by f x (sort_key f xs)))" by (rule sorted_insert_by) simp
  show "filter (\<lambda>y. f k = f y) (insert_by f x (sort_key f xs)) = filter (\<lambda>y. f k = f y) (xs @ [x])" for k
    by (subst filter_insert_by) (simp_all add: sort_key_stable eq_commute [of "f k"])
qed

end
