(* ===== verification/BlkProps.thy ===== *)
theory BlkProps
  imports Blk
begin

text \<open>
  The interface of an I/O scheduler, \<open>struct iosched\<close> of core/blk.c, as a locale: what its
  two callbacks promise about the abstract queues \<open>rs\<close> (reads) and \<open>ws\<close> (writes).  The
  client lemmas are proved from the promises; mq-deadline and the block layer on top of it
  are its interpretations.
\<close>

locale io_scheduler =
  fixes add :: "nat \<Rightarrow> 's \<Rightarrow> 's option"
    and get_next :: "'s \<Rightarrow> nat option \<times> 's"
    and view :: "'s \<Rightarrow> nat list \<Rightarrow> nat list \<Rightarrow> bool"
    and is_read :: "'s \<Rightarrow> nat \<Rightarrow> bool"
    and deadline :: "'s \<Rightarrow> nat \<Rightarrow> u64"
  assumes add_law: "view s rs ws \<Longrightarrow> n \<notin> set rs \<Longrightarrow> n \<notin> set ws \<Longrightarrow>
      \<exists>s'. add n s = Some s' \<and> deadline s' = deadline s \<and> is_read s' = is_read s \<and>
        (if is_read s n then view s' (insert_by (deadline s) n rs) ws
         else view s' rs (insert_by (deadline s) n ws))"
    and get_read: "view s (r # rs) ws \<Longrightarrow> \<exists>s'. get_next s = (Some r, s') \<and> view s' rs ws"
    and get_write: "view s [] (w # ws) \<Longrightarrow> \<exists>s'. get_next s = (Some w, s') \<and> view s' [] ws"
    and get_none: "view s [] [] \<Longrightarrow> get_next s = (None, s)"
begin

primrec submit_all :: "nat list \<Rightarrow> 's \<Rightarrow> 's option" where
  "submit_all [] s = Some s"
| "submit_all (n # ns) s = (case add n s of None \<Rightarrow> None | Some s \<Rightarrow> submit_all ns s)"

primrec drain :: "nat \<Rightarrow> 's \<Rightarrow> nat option list" where
  "drain 0 s = []"
| "drain (Suc k) s = (case get_next s of (r, s) \<Rightarrow> r # drain k s)"

lemma submit_all_append:
  "submit_all (ns @ ms) s = (case submit_all ns s of None \<Rightarrow> None | Some s \<Rightarrow> submit_all ms s)"
  by (induction ns arbitrary: s) (auto split: option.splits)

lemma submit_all_sorted:
  assumes "view s [] []" "distinct ns"
  shows "\<exists>s'. submit_all ns s = Some s' \<and> deadline s' = deadline s \<and> is_read s' = is_read s \<and>
    view s' (sort_key (deadline s) (filter (is_read s) ns)) (sort_key (deadline s) (filter (\<lambda>n. \<not> is_read s n) ns))"
  using assms(2)
proof (induction ns rule: rev_induct)
  case Nil
  then show ?case using assms(1) by simp
next
  case (snoc n ns)
  then obtain s1 where s1: "submit_all ns s = Some s1" "deadline s1 = deadline s" "is_read s1 = is_read s"
    "view s1 (sort_key (deadline s) (filter (is_read s) ns)) (sort_key (deadline s) (filter (\<lambda>n. \<not> is_read s n) ns))"
    by auto
  from add_law [OF s1(4), of n, unfolded s1(2,3)] snoc.prems obtain s2 where
    s2: "add n s1 = Some s2" "deadline s2 = deadline s" "is_read s2 = is_read s"
    "if is_read s n
     then view s2 (insert_by (deadline s) n (sort_key (deadline s) (filter (is_read s) ns)))
            (sort_key (deadline s) (filter (\<lambda>n. \<not> is_read s n) ns))
     else view s2 (sort_key (deadline s) (filter (is_read s) ns))
            (insert_by (deadline s) n (sort_key (deadline s) (filter (\<lambda>n. \<not> is_read s n) ns)))"
    by auto
  have "submit_all (ns @ [n]) s = Some s2" using s1(1) s2(1) by (simp add: submit_all_append)
  with s2 show ?case unfolding insert_by_sort_key by (cases "is_read s n") simp_all
qed

lemma drain_view: "view s rs ws \<Longrightarrow> drain (length rs + length ws) s = map Some (rs @ ws)"
proof (induction "length rs + length ws" arbitrary: s rs ws)
  case (Suc k)
  show ?case
  proof (cases rs)
    case (Cons r rs')
    with get_read Suc.prems obtain s' where "get_next s = (Some r, s')" "view s' rs' ws" by blast
    with Suc.hyps Cons show ?thesis by simp
  next
    case Nil
    with Suc.hyps(2) obtain w ws' where w: "ws = w # ws'" by (cases ws) auto
    with get_write Suc.prems Nil obtain s' where "get_next s = (Some w, s')" "view s' [] ws'" by blast
    with Suc.hyps(1) [of "[]" ws' s'] Suc.hyps(2) Nil w show ?thesis by simp
  qed
qed simp

lemma drain_submitted:
  assumes "view s [] []" "distinct ns"
  shows "\<exists>s'. submit_all ns s = Some s' \<and>
    drain (length ns) s' = map Some (sort_key (deadline s) (filter (is_read s) ns) @ sort_key (deadline s) (filter (\<lambda>n. \<not> is_read s n) ns))"
proof -
  from submit_all_sorted [OF assms] obtain s' where s': "submit_all ns s = Some s'"
    "view s' (sort_key (deadline s) (filter (is_read s) ns)) (sort_key (deadline s) (filter (\<lambda>n. \<not> is_read s n) ns))"
    by blast
  have "length (filter (is_read s) ns) + length (filter (\<lambda>n. \<not> is_read s n) ns) = length ns"
    by (rule sum_length_filter_compl)
  with drain_view [OF s'(2)] s'(1) show ?thesis by auto
qed

end

section \<open>mq-deadline\<close>

definition blk_view :: "blk \<Rightarrow> nat list \<Rightarrow> nat list \<Rightarrow> bool" where
  "blk_view s rs ws \<longleftrightarrow> chain (req_next s) (read_queue s) rs \<and> chain (req_next s) (write_queue s) ws \<and>
     set rs \<inter> set ws = {}"

definition blk_is_read :: "blk \<Rightarrow> nat \<Rightarrow> bool" where
  "blk_is_read s n \<longleftrightarrow> b_read (reqs s n) \<noteq> 0"

definition blk_deadline :: "blk \<Rightarrow> nat \<Rightarrow> u64" where
  "blk_deadline s n = b_deadline (reqs s n)"

lemma set_next_frame [simp]:
  "read_queue (set_next n p s) = read_queue s" "write_queue (set_next n p s) = write_queue s"
  "current_scheduler (set_next n p s) = current_scheduler s"
  "b_read (reqs (set_next n p s) m) = b_read (reqs s m)" "b_deadline (reqs (set_next n p s) m) = b_deadline (reqs s m)"
  by (simp_all add: set_next_def)

lemma set_next_at [simp]:
  "b_next (reqs (set_next n p s) n) = p" "m \<noteq> n \<Longrightarrow> b_next (reqs (set_next n p s) m) = b_next (reqs s m)"
  by (simp_all add: set_next_def)

lemma req_next_set_next: "req_next (set_next n p s) = (req_next s)(n := p)"
  by (auto simp: set_next_def)

lemma deadline_slot_chain:
  "chain (req_next s) (Some h) (h # xs) \<Longrightarrow>
     deadline_slot s d h = Some (last (h # takeWhile (\<lambda>n. blk_deadline s n \<le> d) xs))"
proof (induction xs arbitrary: h)
  case Nil
  then show ?case by (subst deadline_slot.simps) simp
next
  case (Cons x xs)
  then have "b_next (reqs s h) = Some x" by simp
  with Cons show ?case by (subst deadline_slot.simps) (simp add: blk_deadline_def)
qed

text \<open>The two queue updates of \<open>mq_deadline_add\<close>, at the head and inside.\<close>

lemma chain_behind_slot:
  assumes c: "chain (req_next s) p (h # xs)" and n: "n \<notin> set (h # xs)" and d: "blk_deadline s h \<le> blk_deadline s n"
    and x: "x = last (h # takeWhile (\<lambda>m. blk_deadline s m \<le> blk_deadline s n) xs)"
  shows "chain ((req_next s)(n := req_next s x, x := Some n)) p (insert_by (blk_deadline s) n (h # xs))"
proof -
  let ?tw = "takeWhile (\<lambda>m. blk_deadline s m \<le> blk_deadline s n) xs"
  let ?dw = "dropWhile (\<lambda>m. blk_deadline s m \<le> blk_deadline s n) xs"
  have split: "h # ?tw = butlast (h # ?tw) @ [x]" unfolding x by (rule append_butlast_last_id [symmetric]) simp
  have xs: "h # xs = butlast (h # ?tw) @ x # ?dw"
    by (metis append_Cons append_Nil append_assoc split takeWhile_dropWhile_id)
  have "chain ((req_next s)(n := req_next s x, x := Some n)) p (butlast (h # ?tw) @ x # n # ?dw)"
    by (rule chain_insert_after) (use c n xs in simp_all)
  moreover have "insert_by (blk_deadline s) n (h # xs) = butlast (h # ?tw) @ x # n # ?dw"
    using d split by (simp add: insert_by_def)
  ultimately show ?thesis by simp
qed

lemma mq_deadline_add_law:
  assumes v: "blk_view s rs ws" and n: "n \<notin> set rs" "n \<notin> set ws"
  shows "\<exists>s'. mq_deadline_add n s = Some s' \<and> blk_deadline s' = blk_deadline s \<and> blk_is_read s' = blk_is_read s \<and>
    current_scheduler s' = current_scheduler s \<and>
    (if blk_is_read s n then blk_view s' (insert_by (blk_deadline s) n rs) ws
     else blk_view s' rs (insert_by (blk_deadline s) n ws))"
proof -
  define xs where "xs = (if blk_is_read s n then rs else ws)"
  define ys where "ys = (if blk_is_read s n then ws else rs)"
  define p where "p = (if blk_is_read s n then read_queue s else write_queue s)"
  define oq where "oq = (if blk_is_read s n then write_queue s else read_queue s)"
  have c: "chain (req_next s) p xs" "chain (req_next s) oq ys" "set xs \<inter> set ys = {}" "n \<notin> set xs" "n \<notin> set ys"
    using v n by (auto simp: blk_view_def xs_def ys_def p_def oq_def split: if_splits)
  have goal: ?thesis if "mq_deadline_add n s = Some s'" "\<And>m. b_deadline (reqs s' m) = b_deadline (reqs s m)"
    "\<And>m. b_read (reqs s' m) = b_read (reqs s m)" "current_scheduler s' = current_scheduler s"
    "(if blk_is_read s n then read_queue s' else write_queue s') = p'"
    "(if blk_is_read s n then write_queue s' else read_queue s') = oq"
    "chain (req_next s') p' (insert_by (blk_deadline s) n xs)" "chain (req_next s') oq ys" for s' p'
    using that c(3,5) n
    by (intro exI [of _ s']) (auto simp: blk_view_def blk_is_read_def blk_deadline_def fun_eq_iff xs_def ys_def split: if_splits)
  let ?push = "\<lambda>s. if blk_is_read s n then s\<lparr>read_queue := Some n\<rparr> else s\<lparr>write_queue := Some n\<rparr>"
  show ?thesis
  proof (cases xs)
    case Nil
    with c(1) have p: "p = None" by (cases p) auto
    let ?s = "?push (set_next n None s)"
    have "mq_deadline_add n s = Some ?s" using p by (auto simp: mq_deadline_add_def Let_def p_def blk_is_read_def)
    then show ?thesis
      by (rule goal [where p' = "Some n"]) (use c Nil in \<open>auto simp: oq_def req_next_set_next insert_by_def blk_is_read_def\<close>)
  next
    case (Cons h hs)
    with c(1) have p: "p = Some h" by simp
    show ?thesis
    proof (cases "b_deadline (reqs s n) < b_deadline (reqs s h)")
      case True
      let ?s = "?push (set_next n (Some h) s)"
      have "mq_deadline_add n s = Some ?s" using p True by (auto simp: mq_deadline_add_def Let_def p_def blk_is_read_def)
      then show ?thesis
        by (rule goal [where p' = "Some n"])
          (use c Cons True p in \<open>auto simp: oq_def req_next_set_next insert_by_Cons blk_is_read_def blk_deadline_def\<close>)
    next
      case False
      define x where "x = last (h # takeWhile (\<lambda>m. blk_deadline s m \<le> blk_deadline s n) hs)"
      have slot: "deadline_slot s (b_deadline (reqs s n)) h = Some x"
        using deadline_slot_chain [of s h hs "blk_deadline s n"] c(1) Cons p unfolding x_def by (simp add: blk_deadline_def)
      let ?s = "set_next x (Some n) (set_next n (b_next (reqs s x)) s)"
      have run: "mq_deadline_add n s = Some ?s"
        using p False slot by (auto simp: mq_deadline_add_def Let_def p_def blk_is_read_def)
      have "x \<in> set (h # hs)" unfolding x_def
        by (metis last_ConsL last_ConsR last_in_set list.set_intros set_takeWhileD)
      then have x: "x \<in> set xs" using Cons by simp
      have nx: "req_next ?s = (req_next s)(n := req_next s x, x := Some n)" by (simp add: req_next_set_next)
      have "chain (req_next ?s) p (insert_by (blk_deadline s) n xs)"
        unfolding nx Cons by (rule chain_behind_slot [OF _ _ _ x_def])
          (use c Cons False in \<open>simp_all add: blk_deadline_def\<close>)
      moreover have "chain (req_next ?s) oq ys" proof -
        have "x \<notin> set ys" using c(3) x by blast
        with c(2,5) show ?thesis unfolding nx by simp
      qed
      ultimately show ?thesis
        using goal [OF run, of p] by (simp add: p_def oq_def)
    qed
  qed
qed

lemma mq_deadline_get_laws:
  "blk_view s (r # rs) ws \<Longrightarrow> \<exists>s'. mq_deadline_get_next s = (Some r, s') \<and> blk_view s' rs ws \<and> current_scheduler s' = current_scheduler s"
  "blk_view s [] (w # ws) \<Longrightarrow> \<exists>s'. mq_deadline_get_next s = (Some w, s') \<and> blk_view s' [] ws \<and> current_scheduler s' = current_scheduler s"
  "blk_view s [] [] \<Longrightarrow> mq_deadline_get_next s = (None, s)"
  by (auto simp: blk_view_def mq_deadline_get_next_def)

interpretation mq: io_scheduler mq_deadline_add mq_deadline_get_next blk_view blk_is_read blk_deadline
proof
  show "\<exists>s'. mq_deadline_add n s = Some s' \<and> blk_deadline s' = blk_deadline s \<and> blk_is_read s' = blk_is_read s \<and>
    (if blk_is_read s n then blk_view s' (insert_by (blk_deadline s) n rs) ws
     else blk_view s' rs (insert_by (blk_deadline s) n ws))"
    if "blk_view s rs ws" "n \<notin> set rs" "n \<notin> set ws" for s rs ws n
    using mq_deadline_add_law [OF that] by blast
qed (use mq_deadline_get_laws in \<open>blast+\<close>)

text \<open>The block layer with any scheduler selected.\<close>

definition layer_view :: "blk \<Rightarrow> nat list \<Rightarrow> nat list \<Rightarrow> bool" where
  "layer_view s rs ws \<longleftrightarrow> current_scheduler s \<noteq> None \<and> blk_view s rs ws"

lemma layer_is_mq:
  assumes "current_scheduler s \<noteq> None"
  shows "blk_submit_request n s = mq_deadline_add n s" "blk_dispatch s = mq_deadline_get_next s"
  using assms
  by (auto simp: blk_submit_request_def blk_dispatch_def kyber_add_def bfq_add_def kyber_get_next_def bfq_get_next_def
      split: iosched.splits option.splits)

interpretation layer: io_scheduler blk_submit_request blk_dispatch layer_view blk_is_read blk_deadline
proof
  show "\<exists>s'. blk_submit_request n s = Some s' \<and> blk_deadline s' = blk_deadline s \<and> blk_is_read s' = blk_is_read s \<and>
    (if blk_is_read s n then layer_view s' (insert_by (blk_deadline s) n rs) ws
     else layer_view s' rs (insert_by (blk_deadline s) n ws))"
    if "layer_view s rs ws" "n \<notin> set rs" "n \<notin> set ws" for s rs ws n
    using mq_deadline_add_law [of s rs ws n] that by (auto simp: layer_view_def layer_is_mq)
  show "\<exists>s'. blk_dispatch s = (Some r, s') \<and> layer_view s' rs ws" if "layer_view s (r # rs) ws" for s r rs ws
    using mq_deadline_get_laws(1) [of s r rs ws] that by (auto simp: layer_view_def layer_is_mq)
  show "\<exists>s'. blk_dispatch s = (Some w, s') \<and> layer_view s' [] ws" if "layer_view s [] (w # ws)" for s w ws
    using mq_deadline_get_laws(2) [of s w ws] that by (auto simp: layer_view_def layer_is_mq)
  show "blk_dispatch s = (None, s)" if "layer_view s [] []" for s
    using mq_deadline_get_laws(3) [of s] that by (auto simp: layer_view_def layer_is_mq)
qed

section \<open>Properties\<close>

primrec blk_submit_all :: "nat list \<Rightarrow> blk \<Rightarrow> blk option" where
  "blk_submit_all [] s = Some s"
| "blk_submit_all (n # ns) s = (case blk_submit_request n s of None \<Rightarrow> None | Some s \<Rightarrow> blk_submit_all ns s)"

primrec blk_drain :: "nat \<Rightarrow> blk \<Rightarrow> nat option list" where
  "blk_drain 0 s = []"
| "blk_drain (Suc k) s = (case blk_dispatch s of (r, s) \<Rightarrow> r # blk_drain k s)"

lemma blk_layer_eq: "layer.submit_all ns s = blk_submit_all ns s" "layer.drain k s = blk_drain k s"
proof -
  show "layer.submit_all ns s = blk_submit_all ns s"
    by (induction ns arbitrary: s) (simp_all cong: option.case_cong)
  show "layer.drain k s = blk_drain k s"
    by (induction k arbitrary: s) (simp_all split: prod.splits)
qed

text \<open>C10. The block layer never loses or repeats a request: the requests submitted to empty
  queues are dispatched in full, the reads before the writes, each group by deadline and, at
  equal deadlines, in the order of submission.\<close>

theorem blk_dispatch_order:
  assumes "current_scheduler s \<noteq> None" "read_queue s = None" "write_queue s = None" "distinct ns"
  shows "\<exists>s'. blk_submit_all ns s = Some s' \<and>
    blk_drain (length ns) s' =
      map Some (sort_key (blk_deadline s) (filter (blk_is_read s) ns) @
                sort_key (blk_deadline s) (filter (\<lambda>n. \<not> blk_is_read s n) ns))"
proof -
  have "layer_view s [] []" using assms(1-3) by (simp add: layer_view_def blk_view_def)
  from layer.drain_submitted [OF this assms(4)] show ?thesis by (simp only: blk_layer_eq)
qed

definition demo_blk :: blk where
  "demo_blk = blk_init \<lparr>reqs = (\<lambda>n. \<lparr>b_sector = of_nat n, b_count = 8, b_buffer = 0, b_read = (if n = 2 then 0 else 1),
     b_priority = 0, b_deadline = (if n = 1 then 50 else 20), b_next = None\<rparr>),
     read_queue = None, write_queue = None, current_scheduler = None\<rparr>"

theorem blk_dispatch_order_witness:
  "\<exists>s'. blk_submit_all [1, 2, 3, 4] demo_blk = Some s' \<and> blk_drain 4 s' = [Some 3, Some 4, Some 1, Some 2]"
proof -
  have s: "current_scheduler demo_blk \<noteq> None" "read_queue demo_blk = None" "write_queue demo_blk = None"
    "blk_is_read demo_blk = (\<lambda>n. n \<noteq> 2)" "blk_deadline demo_blk = (\<lambda>n. if n = 1 then 50 else 20)"
    by (auto simp: demo_blk_def blk_init_def blk_is_read_def blk_deadline_def fun_eq_iff)
  have k: "length [1::nat, 2, 3, 4] = 4" "distinct [1::nat, 2, 3, 4]" by simp_all
  have "sort_key (blk_deadline demo_blk) (filter (blk_is_read demo_blk) [1, 2, 3, 4]) @
      sort_key (blk_deadline demo_blk) (filter (\<lambda>n. \<not> blk_is_read demo_blk n) [1, 2, 3, 4]) = [3, 4, 1, 2]"
    unfolding s by simp
  from blk_dispatch_order [OF s(1-3) k(2), unfolded k(1) this] show ?thesis by simp
qed

end
