(* ===== verification/Timer.thy ===== *)
theory Timer
  imports Prelude
begin

text \<open>
  The interval timer of core/timer.c: the tick counter, the PIT programming and the sleep.  The
  state keeps the bytes written to the ports, latest first.  While the CPU is halted in
  \<open>timer_sleep_ms\<close> the interrupt handler \<open>timer_irq_handler\<close> runs once per \<open>hlt\<close>.
\<close>

definition PIT_CHANNEL0 :: u16 where "PIT_CHANNEL0 = 0x40"
definition PIT_COMMAND :: u16 where "PIT_COMMAND = 0x43"
definition PIT_BASE_FREQ :: u32 where "PIT_BASE_FREQ = 1193182"

record timer =
  ticks :: u64
  frequency :: u32
  port_log :: "(u16 \<times> u8) list"

definition outb :: "u16 \<Rightarrow> u8 \<Rightarrow> timer \<Rightarrow> timer" where
  "outb port b s = s\<lparr>port_log := (port, b) # port_log s\<rparr>"

definition timer_irq_handler :: "timer \<Rightarrow> timer" where
  "timer_irq_handler s = s\<lparr>ticks := ticks s + 1\<rparr>"

definition pit_init :: "u32 \<Rightarrow> timer \<Rightarrow> timer" where
  "pit_init frequency_hz s =
     (let hz = (if frequency_hz = 0 \<or> frequency_hz > PIT_BASE_FREQ then 100 else frequency_hz);
          s = s\<lparr>frequency := hz\<rparr>;
          divisor = PIT_BASE_FREQ div hz;
          clamped = (divisor > 65535);
          divisor = (if clamped then 65535 else divisor);
          s = (if clamped then s\<lparr>frequency := PIT_BASE_FREQ div divisor\<rparr> else s);
          s = outb PIT_COMMAND 0x34 s;
          s = outb PIT_CHANNEL0 (ucast (divisor AND 0xFF)) s in
      outb PIT_CHANNEL0 (ucast ((drop_bit 8 divisor) AND 0xFF)) s)"

definition timer_get_ticks :: "timer \<Rightarrow> u64" where
  "timer_get_ticks s = ticks s"

definition timer_get_uptime_ms :: "timer \<Rightarrow> u64" where
  "timer_get_uptime_ms s = (if frequency s = 0 then 0 else ticks s * 1000 div ucast (frequency s))"

definition timer_get_frequency :: "timer \<Rightarrow> u32" where
  "timer_get_frequency s = frequency s"

text \<open>The loop \<open>while (g_timer_ticks < target_ticks) hlt\<close>, with one tick at each \<open>hlt\<close>.  A tick between the test and the \<open>hlt\<close>,
  which would make the last wait one tick longer, is not represented.\<close>

function halt_until :: "u64 \<Rightarrow> timer \<Rightarrow> timer" where
  "halt_until target s = (if ticks s < target then halt_until target (timer_irq_handler s) else s)"
  by pat_completeness auto
termination
proof (relation "measure (\<lambda>(target, s). unat target - unat (ticks s))")
  fix target :: u64 and s :: timer
  assume less: "ticks s < target"
  from unat_Suc_below [OF less] less show "((target, timer_irq_handler s), target, s) \<in> measure (\<lambda>(target, s). unat target - unat (ticks s))"
    by (auto simp: timer_irq_handler_def word_less_nat_alt)
qed simp

definition timer_sleep_ms :: "u32 \<Rightarrow> timer \<Rightarrow> timer" where
  "timer_sleep_ms ms s =
     (if frequency s = 0 then s
      else halt_until (ticks s + ucast ms * ucast (frequency s) div 1000) s)"

declare halt_until.simps [simp del]

lemma halt_until_ticks: "halt_until t s = s\<lparr>ticks := max t (ticks s)\<rparr>"
proof (induction t s rule: halt_until.induct)
  case (1 t s)
  show ?case
  proof (cases "ticks s < t")
    case True
    have "max t (ticks s + 1) = t"
      using unat_Suc_below [OF True] True by (auto simp: max_def word_less_nat_alt word_le_nat_alt word_unat_eq_iff)
    then show ?thesis using 1 [OF True] True
      by (subst halt_until.simps) (simp add: timer_irq_handler_def max_def)
  next
    case False
    then show ?thesis by (subst halt_until.simps) (simp add: max_def)
  qed
qed

section \<open>Properties\<close>

text \<open>\<open>pit_init\<close> writes the mode byte and then the low and the high byte of a divisor
  between 1 and 65535; the hardware rate \<open>PIT_BASE_FREQ / d\<close> is never below the frequency that
  is recorded, and above it by less than one step of the divisor (or the clamp to 18 Hz).\<close>

theorem pit_init_programs_divisor:
  "\<exists>d. 1 \<le> d \<and> d \<le> (65535 :: nat) \<and>
     port_log (pit_init hz s) = (PIT_CHANNEL0, of_nat (d div 256)) # (PIT_CHANNEL0, of_nat (d mod 256)) #
       (PIT_COMMAND, 0x34) # port_log s \<and>
     d * unat (frequency (pit_init hz s)) \<le> 1193182 \<and> frequency (pit_init hz s) \<noteq> 0 \<and>
     (1193182 < (d + 1) * unat (frequency (pit_init hz s)) \<or> d = 65535 \<and> frequency (pit_init hz s) = 18)"
proof -
  define f where "f = (if hz = 0 \<or> hz > PIT_BASE_FREQ then 100 else hz)"
  have f: "0 < unat f" "unat f \<le> 1193182"
    by (auto simp: f_def PIT_BASE_FREQ_def unat_gt_0 word_le_nat_alt not_less)
  define d where "d = (if PIT_BASE_FREQ div f > 65535 then 65535 else PIT_BASE_FREQ div f)"
  have q: "unat (PIT_BASE_FREQ div f) = 1193182 div unat f" by (simp add: unat_div PIT_BASE_FREQ_def)
  have d_nat: "unat d = min 65535 (1193182 div unat f)"
    by (simp add: d_def word_less_nat_alt q min_def)
  have d_le: "unat d \<le> 65535" by (simp add: d_nat)
  have d_ge: "1 \<le> unat d" using f by (simp add: d_nat div_greater_zero_iff Suc_le_eq)
  have freq: "frequency (pit_init hz s) = (if PIT_BASE_FREQ div f > 65535 then 18 else f)"
    by (simp add: pit_init_def Let_def outb_def f_def) (simp add: PIT_BASE_FREQ_def)
  have log: "port_log (pit_init hz s) = (PIT_CHANNEL0, of_nat (unat d div 256)) # (PIT_CHANNEL0, of_nat (unat d mod 256)) #
       (PIT_COMMAND, 0x34) # port_log s"
    by (simp only: second_byte [symmetric] low_byte [symmetric]) (simp add: pit_init_def Let_def outb_def f_def d_def)
  have rate: "unat d * unat (frequency (pit_init hz s)) \<le> 1193182 \<and> frequency (pit_init hz s) \<noteq> 0 \<and>
     (1193182 < (unat d + 1) * unat (frequency (pit_init hz s)) \<or> unat d = 65535 \<and> frequency (pit_init hz s) = 18)"
  proof (cases "PIT_BASE_FREQ div f > 65535")
    case True
    then show ?thesis by (simp add: freq d_def)
  next
    case False
    then have d: "unat d = 1193182 div unat f" by (simp add: d_def q)
    have "1193182 < (1193182 div unat f + 1) * unat f"
      using dividend_less_times_div [OF f(1), of 1193182] by (simp add: algebra_simps)
    then show ?thesis using False f by (simp add: freq d unat_gt_0)
  qed
  show ?thesis using d_ge d_le log rate by blast
qed

text \<open>C40. While the CPU takes the timer interrupts, \<open>timer_sleep_ms\<close> returns after exactly
  \<open>ms * frequency / 1000\<close> of them, rounded down (a sleep shorter than a tick returns at once).\<close>

theorem timer_sleep_waits:
  assumes "frequency s \<noteq> 0" "unat (ticks s) + unat ms * unat (frequency s) div 1000 < 2 ^ 64"
  shows "timer_sleep_ms ms s = s\<lparr>ticks := ticks s + of_nat (unat ms * unat (frequency s) div 1000)\<rparr> \<and>
    unat (ticks (timer_sleep_ms ms s)) = unat (ticks s) + unat ms * unat (frequency s) div 1000"
proof -
  let ?n = "unat ms * unat (frequency s) div 1000"
  have "unat ms * unat (frequency s) < 2 ^ 32 * 2 ^ 32"
    using unsigned_less [of ms] unsigned_less [of "frequency s"] by (intro mult_strict_mono) auto
  then have "unat (ucast ms * ucast (frequency s) :: u64) = unat ms * unat (frequency s)"
    by (simp add: unat_word_ariths unat_ucast_up)
  note prod = this
  have small: "?n < 2 ^ 64" using assms(2) by linarith
  then have w: "(ucast ms * ucast (frequency s) div 1000 :: u64) = of_nat ?n"
    by (simp add: word_unat_eq_iff unat_div prod unat_of_nat_small del: of_nat_div)
  have u: "unat (ticks s + of_nat ?n) = unat (ticks s) + ?n"
    using assms(2) small by (simp add: unat_word_ariths unat_of_nat_small)
  then have "max (ticks s + of_nat ?n) (ticks s) = ticks s + of_nat ?n"
    by (simp add: max_def word_le_nat_alt)
  with u show ?thesis using assms(1) by (simp add: timer_sleep_ms_def w halt_until_ticks)
qed

definition demo_timer :: timer where
  "demo_timer = pit_init 100 \<lparr>ticks = 7, frequency = 0, port_log = []\<rparr>"

theorem timer_sleep_waits_witness: "ticks (timer_sleep_ms 255 demo_timer) = 32"
proof -
  have s: "frequency demo_timer = 100" "ticks demo_timer = 7"
    by (simp_all add: demo_timer_def pit_init_def Let_def outb_def PIT_BASE_FREQ_def)
  from timer_sleep_waits [of demo_timer 255] show ?thesis by (simp add: s)
qed

end
