(* ===== verification/Input.thy ===== *)
theory Input
  imports CString
begin

text \<open>
  Keyboard input: the shared ring buffer and the PS/2 driver (drivers/ps2.c) and the decoder of
  USB boot-protocol reports (drivers/usb_hid.c).  Characters are bytes.  The ports of the i8042
  are an environment \<open>hw\<close>: \<open>hw k port\<close> is the byte the \<open>k\<close>-th port read returns; the bytes
  written are logged, latest first.  The flags of the driver are 0/1 integers in C and booleans
  here; \<open>nvec_toggle\<close> and \<open>nvec_suppress_console\<close> (drivers/nvec.c) act on the display mode.
\<close>

section \<open>State\<close>

record input =
  in_head :: u32
  in_tail :: u32
  in_buf :: "nat \<Rightarrow> u8"
  in_count :: nat
  out_log :: "(u16 \<times> u8) list"
  g_ready :: bool
  g_graphics :: bool
  g_i8042_present :: bool
  k_shift :: bool
  k_caps :: bool
  k_numlock :: bool
  k_leds :: u32
  k_extended :: bool
  k_ctrl :: bool
  k_alt :: bool
  kbd_modifiers :: u8
  prev_keycodes :: "u8 list"

definition boot_input :: input where
  "boot_input = \<lparr>in_head = 0, in_tail = 0, in_buf = (\<lambda>_. 0), in_count = 0, out_log = [], g_ready = False,
     g_graphics = False, g_i8042_present = False, k_shift = False, k_caps = False, k_numlock = False, k_leds = 0,
     k_extended = False, k_ctrl = False, k_alt = False, kbd_modifiers = 0, prev_keycodes = replicate 6 0\<rparr>"

section \<open>The ring buffer\<close>

definition input_add_char :: "u8 \<Rightarrow> input \<Rightarrow> input" where
  "input_add_char c s =
     (let nxt = (in_head s + 1) AND 255 in
      if nxt \<noteq> in_tail s then s\<lparr>in_buf := (in_buf s)(unat (in_head s) := c), in_head := nxt\<rparr> else s)"

text \<open>The last lines of \<open>ps2_getchar\<close> and \<open>try_getchar\<close>.\<close>

definition take_char :: "input \<Rightarrow> u8 \<times> input" where
  "take_char s = (in_buf s (unat (in_tail s)), s\<lparr>in_tail := (in_tail s + 1) AND 255\<rparr>)"

section \<open>Ports and the i8042\<close>

definition KBD_DATA_PORT :: u16 where "KBD_DATA_PORT = 0x60"
definition KBD_STATUS_PORT :: u16 where "KBD_STATUS_PORT = 0x64"
definition KBD_CMD_PORT :: u16 where "KBD_CMD_PORT = 0x64"

type_synonym ports = "nat \<Rightarrow> u16 \<Rightarrow> u8"

definition inb_ps2 :: "ports \<Rightarrow> u16 \<Rightarrow> input \<Rightarrow> u8 \<times> input" where
  "inb_ps2 hw port s = (hw (in_count s) port, s\<lparr>in_count := in_count s + 1\<rparr>)"

definition outb_ps2 :: "u16 \<Rightarrow> u8 \<Rightarrow> input \<Rightarrow> input" where
  "outb_ps2 port b s = s\<lparr>out_log := (port, b) # out_log s\<rparr>"

text \<open>The bounded waits.  The argument is the counter \<open>t\<close> before \<open>--t\<close>, the result its value
  behind the loop.\<close>

primrec wait_write :: "nat \<Rightarrow> ports \<Rightarrow> input \<Rightarrow> nat \<times> input" where
  "wait_write 0 hw s = (0, s)"
| "wait_write (Suc t) hw s =
     (if t = 0 then (0, s)
      else let (status, s) = inb_ps2 hw KBD_STATUS_PORT s in
        if status AND 2 \<noteq> 0 then wait_write t hw s else (t, s))"

primrec wait_read :: "nat \<Rightarrow> ports \<Rightarrow> input \<Rightarrow> nat \<times> input" where
  "wait_read 0 hw s = (0, s)"
| "wait_read (Suc t) hw s =
     (if t = 0 then (0, s)
      else let (status, s) = inb_ps2 hw KBD_STATUS_PORT s in
        if status AND 1 = 0 then wait_read t hw s else (t, s))"

definition i8042_wait_write :: "ports \<Rightarrow> input \<Rightarrow> nat \<times> input" where
  "i8042_wait_write hw s = wait_write 100000 hw s"

definition i8042_wait_read :: "ports \<Rightarrow> input \<Rightarrow> nat \<times> input" where
  "i8042_wait_read hw s = wait_read 100000 hw s"

text \<open>Flushing the output buffer, at most \<open>n\<close> bytes.\<close>

primrec flush :: "nat \<Rightarrow> ports \<Rightarrow> input \<Rightarrow> input" where
  "flush 0 hw s = s"
| "flush (Suc n) hw s =
     (let (status, s) = inb_ps2 hw KBD_STATUS_PORT s in
      if status AND 1 \<noteq> 0 then flush n hw (snd (inb_ps2 hw KBD_DATA_PORT s)) else s)"

definition i8042_probe :: "ports \<Rightarrow> input \<Rightarrow> bool \<times> input" where
  "i8042_probe hw s =
     (let s = flush 16 hw s; (t, s) = i8042_wait_write hw s in
      if t = 0 then (False, s)
      else
        let s = outb_ps2 KBD_CMD_PORT 0xAA s; (t, s) = i8042_wait_read hw s in
        if t = 0 then (False, s)
        else let (resp, s) = inb_ps2 hw KBD_DATA_PORT s in (resp = 0x55 \<or> resp = 0xFC, s))"

definition send :: "ports \<Rightarrow> u16 \<Rightarrow> u8 \<Rightarrow> input \<Rightarrow> input" where
  "send hw port b s = outb_ps2 port b (snd (i8042_wait_write hw s))"

definition eat_reply :: "ports \<Rightarrow> input \<Rightarrow> input" where
  "eat_reply hw s =
     (let (t, s) = i8042_wait_read hw s in if t \<noteq> 0 then snd (inb_ps2 hw KBD_DATA_PORT s) else s)"

definition ps2_init :: "ports \<Rightarrow> input \<Rightarrow> input" where
  "ps2_init hw s =
     (let (present, s) = i8042_probe hw s; s = s\<lparr>g_i8042_present := present\<rparr> in
      if \<not> present then s
      else
        let s = send hw KBD_CMD_PORT 0xAD s;
            s = send hw KBD_CMD_PORT 0xA7 s;
            s = flush 16 hw s;
            s = send hw KBD_CMD_PORT 0xAE s;
            s = send hw KBD_DATA_PORT 0xFF s;
            s = eat_reply hw s;
            s = eat_reply hw s;
            s = send hw KBD_DATA_PORT 0xF4 s
        in eat_reply hw s)"

section \<open>Scancodes\<close>

definition nvec_toggle :: "input \<Rightarrow> input" where
  "nvec_toggle s = (if g_ready s then s\<lparr>g_graphics := \<not> g_graphics s\<rparr> else s)"

definition nvec_suppress_console :: "input \<Rightarrow> bool" where
  "nvec_suppress_console s = g_graphics s"

definition scancode_map :: "u8 list" where
  "scancode_map =
     [0, 27] @ map of_char ''1234567890-='' @ [8, 9] @ map of_char ''qwertyuiop[]'' @ [10, 0] @
     map of_char ''asdfghjkl;'' @ [0x27, 0x60, 0, 0x5C] @ map of_char ''zxcvbnm,./'' @ [0, 0x2A, 0, 0x20] @
     replicate 70 0"

definition scancode_shift_map :: "u8 list" where
  "scancode_shift_map =
     [0, 0] @ map of_char ''!@#$%^&*()_+'' @ [0, 0] @ map of_char ''QWERTYUIOP{}'' @ [10, 0] @
     map of_char ''ASDFGHJKL:'' @ [0x22, 0x7E, 0, 0x7C] @ map of_char ''ZXCVBNM<>?'' @ [0, 0x2A, 0, 0x20] @
     replicate 70 0"

definition keypad_num_map :: "u8 list" where
  "keypad_num_map = map of_char ''789-456+1230.''"

definition set_leds :: "ports \<Rightarrow> input \<Rightarrow> input" where
  "set_leds hw s = send hw KBD_DATA_PORT (ucast (k_leds s)) (send hw KBD_DATA_PORT 0xED s)"

text \<open>\<open>ps2_handle_interrupt\<close> behind the read of the scan code \<open>sc\<close>.\<close>

definition handle_scancode :: "ports \<Rightarrow> u8 \<Rightarrow> input \<Rightarrow> input" where
  "handle_scancode hw sc s =
     (if sc = 0xFA \<or> sc = 0xFE then s
      else if sc AND 0x80 \<noteq> 0 then
        let code = sc AND 0x7F;
            s = (if code = 0x2A \<or> code = 0x36 then s\<lparr>k_shift := False\<rparr> else s);
            s = (if code = 0x1D then s\<lparr>k_ctrl := False\<rparr> else s);
            s = (if code = 0x38 then s\<lparr>k_alt := False\<rparr> else s)
        in s\<lparr>k_extended := False\<rparr>
      else if sc = 0xE0 then s\<lparr>k_extended := True\<rparr>
      else if sc = 0x2A \<or> sc = 0x36 then s\<lparr>k_shift := True\<rparr>
      else if sc = 0x1D then s\<lparr>k_ctrl := True\<rparr>
      else if sc = 0x38 then s\<lparr>k_alt := True\<rparr>
      else if sc = 0x44 \<and> k_ctrl s \<and> k_alt s then (nvec_toggle s)\<lparr>k_extended := False\<rparr>
      else if nvec_suppress_console s then s\<lparr>k_extended := False\<rparr>
      else if sc = 0x3A then
        let s = s\<lparr>k_caps := \<not> k_caps s\<rparr>
        in set_leds hw (s\<lparr>k_leds := (k_leds s AND NOT 0x04) OR (if k_caps s then 0x04 else 0)\<rparr>)
      else if sc = 0x77 then
        let s = s\<lparr>k_numlock := \<not> k_numlock s\<rparr>
        in set_leds hw (s\<lparr>k_leds := (k_leds s AND NOT 0x02) OR (if k_numlock s then 0x02 else 0)\<rparr>)
      else if sc \<ge> 0x47 \<and> sc \<le> 0x53 then
        if k_numlock s then input_add_char (keypad_num_map ! unat (sc - 0x47)) s else s
      else
        let s = (if sc < 128 then
                   let c = scancode_map ! unat sc; c_shift = scancode_shift_map ! unat sc in
                   if c \<noteq> 0 then
                     let out = (if k_shift s \<and> c_shift \<noteq> 0 then c_shift
                                else if c \<ge> 0x61 \<and> c \<le> 0x7A \<and> k_shift s \<noteq> k_caps s then c - 0x61 + 0x41
                                else c)
                     in input_add_char out s
                   else s
                 else s)
        in s\<lparr>k_extended := False\<rparr>)"

definition ps2_handle_interrupt :: "ports \<Rightarrow> input \<Rightarrow> input" where
  "ps2_handle_interrupt hw s =
     (if \<not> g_i8042_present s then s
      else let (status, s) = inb_ps2 hw KBD_STATUS_PORT s in
        if status AND 1 = 0 then s
        else let (sc, s) = inb_ps2 hw KBD_DATA_PORT s in handle_scancode hw sc s)"

text \<open>One poll of the PS/2 controller from a reader.\<close>

definition ps2_poll :: "ports \<Rightarrow> input \<Rightarrow> input" where
  "ps2_poll hw s =
     (if g_i8042_present s then
        let (status, s) = inb_ps2 hw KBD_STATUS_PORT s in
        if status AND 1 \<noteq> 0 then ps2_handle_interrupt hw s else s
      else s)"

text \<open>\<open>usb k\<close> is what the \<open>k\<close>-th call of \<open>usb_kbd_poll\<close> (drivers/xhci.c) does to the input
  state.  The loop of \<open>ps2_getchar\<close> may run forever.\<close>

partial_function (option) wait_char :: "ports \<Rightarrow> (nat \<Rightarrow> input \<Rightarrow> input) \<Rightarrow> nat \<Rightarrow> input \<Rightarrow> input option" where
  "wait_char hw usb k s =
     (if in_head s \<noteq> in_tail s then Some s
      else if nvec_suppress_console s then wait_char hw usb k (ps2_poll hw s)
      else wait_char hw usb (Suc k) (ps2_poll hw (usb k s)))"

definition ps2_getchar :: "ports \<Rightarrow> (nat \<Rightarrow> input \<Rightarrow> input) \<Rightarrow> input \<Rightarrow> (int \<times> input) option" where
  "ps2_getchar hw usb s =
     (case wait_char hw usb 0 s of
        None \<Rightarrow> None
      | Some s \<Rightarrow> let (c, s) = take_char s in Some (sint c, s))"

definition try_getchar :: "ports \<Rightarrow> (input \<Rightarrow> input) \<Rightarrow> input \<Rightarrow> int \<times> input" where
  "try_getchar hw usb s =
     (let s = ps2_poll hw (usb s) in
      if in_head s = in_tail s then (- 1, s) else let (c, s) = take_char s in (sint c, s))"

section \<open>USB boot-protocol reports\<close>

record hid_report =
  r_modifiers :: u8
  r_keycodes :: "u8 list"

definition hid_to_ascii :: "u8 list" where
  "hid_to_ascii =
     replicate 4 0 @ map of_char ''abcdefghijklmnopqrstuvwxyz'' @ map of_char ''1234567890'' @
     [10, 0x1B, 8, 9, 0x20] @ map of_char ''-=[]'' @ [0x5C, 0, 0x3B, 0x27, 0x60] @ map of_char '',./'' @ replicate 71 0"

definition hid_to_ascii_shift :: "u8 list" where
  "hid_to_ascii_shift =
     replicate 4 0 @ map of_char ''ABCDEFGHIJKLMNOPQRSTUVWXYZ'' @ map of_char ''!@#$%^&*()'' @
     [10, 0x1B, 8, 9, 0x20] @ map of_char ''_+{}'' @ [0x7C, 0, 0x3A, 0x22, 0x7E] @ map of_char ''<>?'' @ replicate 71 0"

text \<open>The character of a key that was not held before.\<close>

definition hid_char :: "u8 \<Rightarrow> u8 \<Rightarrow> u8" where
  "hid_char modifiers kc =
     (let shift_held = (modifiers AND 0x22 \<noteq> 0); ctrl_held = (modifiers AND 0x11 \<noteq> 0) in
      if ctrl_held \<and> kc \<ge> 0x04 \<and> kc \<le> 0x1D then kc - 0x03
      else if kc < 128 then (if shift_held then hid_to_ascii_shift ! unat kc else hid_to_ascii ! unat kc)
      else 0)"

primrec hid_keys :: "u8 list \<Rightarrow> input \<Rightarrow> input" where
  "hid_keys [] s = s"
| "hid_keys (kc # kcs) s =
     hid_keys kcs
       (if kc = 0 \<or> kc = 1 then s
        else if kc \<in> set (prev_keycodes s) then s
        else let c = hid_char (kbd_modifiers s) kc in if c \<noteq> 0 then input_add_char c s else s)"

text \<open>The decoder of the file's branch for \<open>CONFIG_USB_KBD\<close>.  The file does not see that macro as the repository builds it: there the
  body is empty, and what is shown of polling holds for either.\<close>

definition usb_kbd_process_report :: "hid_report \<Rightarrow> input \<Rightarrow> input" where
  "usb_kbd_process_report r s =
     (let s = s\<lparr>kbd_modifiers := r_modifiers r\<rparr>;
          ctrl_held = (kbd_modifiers s AND 0x11 \<noteq> 0);
          f10_now = (0x43 \<in> set (r_keycodes r));
          f10_prev = (0x43 \<in> set (prev_keycodes s));
          s = (if f10_now \<and> \<not> f10_prev \<and> ctrl_held then nvec_toggle s else s) in
      if nvec_suppress_console s then s\<lparr>prev_keycodes := r_keycodes r\<rparr>
      else (hid_keys (r_keycodes r) s)\<lparr>prev_keycodes := r_keycodes r\<rparr>)"

end
