(* ===== verification/InputProps.thy ===== *)
theory InputProps
  imports Input
begin

text \<open>
  The contract of the input queue as a locale: a bounded first-in first-out queue of bytes that
  drops what does not fit.  The ring buffer of drivers/ps2.c is its interpretation, and both
  keyboard decoders are its clients.
\<close>

text \<open>What happens to a queue: a character arrives, or one is asked for.  A reader that finds nothing gets -1.\<close>

datatype key_event = Arrives u8 | Asked

primrec queue_run :: "(u8 \<Rightarrow> 's \<Rightarrow> 's) \<Rightarrow> ('s \<Rightarrow> bool) \<Rightarrow> ('s \<Rightarrow> u8 \<times> 's) \<Rightarrow> key_event list \<Rightarrow> 's \<Rightarrow> int list \<times> 's" where
  "queue_run put nothing get [] s = ([], s)"
| "queue_run put nothing get (ev # evs) s =
     (case ev of
        Arrives c \<Rightarrow> queue_run put nothing get evs (put c s)
      | Asked \<Rightarrow>
          if nothing s then (case queue_run put nothing get evs s of (rs, t) \<Rightarrow> (- 1 # rs, t))
          else (case get s of (c, s) \<Rightarrow> case queue_run put nothing get evs s of (rs, t) \<Rightarrow> (sint c # rs, t)))"

text \<open>The same events for a list of at most \<open>n\<close> characters.\<close>

primrec list_run :: "nat \<Rightarrow> key_event list \<Rightarrow> u8 list \<Rightarrow> int list \<times> u8 list" where
  "list_run n [] q = ([], q)"
| "list_run n (ev # evs) q =
     (case ev of
        Arrives c \<Rightarrow> list_run n evs (if length q < n then q @ [c] else q)
      | Asked \<Rightarrow>
          (case q of
             [] \<Rightarrow> (case list_run n evs [] of (rs, q) \<Rightarrow> (- 1 # rs, q))
           | c # q \<Rightarrow> (case list_run n evs q of (rs, q) \<Rightarrow> (sint c # rs, q))))"

locale char_queue =
  fixes put :: "u8 \<Rightarrow> 's \<Rightarrow> 's" and nothing :: "'s \<Rightarrow> bool" and get :: "'s \<Rightarrow> u8 \<times> 's"
    and contents :: "'s \<Rightarrow> u8 list" and inv :: "'s \<Rightarrow> bool" and capacity :: nat
  assumes put_law: "inv s \<Longrightarrow> inv (put c s) \<and>
      contents (put c s) = (if length (contents s) < capacity then contents s @ [c] else contents s)"
    and empty_law: "inv s \<Longrightarrow> nothing s \<longleftrightarrow> contents s = []"
    and get_law: "inv s \<Longrightarrow> contents s = c # cs \<Longrightarrow>
      fst (get s) = c \<and> contents (snd (get s)) = cs \<and> inv (snd (get s))"
    and bounded: "inv s \<Longrightarrow> length (contents s) \<le> capacity"
begin

lemma put_all: "inv s \<Longrightarrow> inv (fold put cs s) \<and> contents (fold put cs s) = take capacity (contents s @ cs)"
proof (induction cs arbitrary: s)
  case Nil
  then show ?case using bounded [of s] by simp
next
  case (Cons c cs)
  from Cons.IH [of "put c s"] put_law [OF Cons.prems, of c] bounded [OF Cons.prems]
  show ?case by (auto simp: take_Cons')
qed

lemma run_is_list:
  "inv s \<Longrightarrow> inv (snd (queue_run put nothing get evs s)) \<and>
     list_run capacity evs (contents s) = (fst (queue_run put nothing get evs s), contents (snd (queue_run put nothing get evs s)))"
proof (induction evs arbitrary: s)
  case (Cons ev evs)
  show ?case
  proof (cases ev)
    case (Arrives c)
    then show ?thesis using Cons.IH [of "put c s"] put_law [OF Cons.prems, of c] by simp
  next
    case Asked
    show ?thesis
    proof (cases "contents s")
      case Nil
      then show ?thesis using Cons.IH [OF Cons.prems] Asked Cons.prems empty_law [OF Cons.prems] by (simp add: split_beta)
    next
      case (Cons c cs)
      note g = get_law [OF Cons.prems this]
      show ?thesis using Cons.IH [of "snd (get s)"] g Asked Cons empty_law [OF \<open>inv s\<close>] by (simp add: split_beta)
    qed
  qed
qed simp

end

section \<open>The ring buffer\<close>

definition ring_inv :: "input \<Rightarrow> bool" where
  "ring_inv s \<longleftrightarrow> unat (in_head s) < 256 \<and> unat (in_tail s) < 256"

definition ring :: "input \<Rightarrow> u8 list" where
  "ring s = map (\<lambda>k. in_buf s ((unat (in_tail s) + k) mod 256))
     [0..<(unat (in_head s) + 256 - unat (in_tail s)) mod 256]"

lemma unat_ring_index: "unat w < 256 \<Longrightarrow> unat ((w + 1) AND 255) = (unat w + 1) mod 256" for w :: u32
proof -
  assume "unat w < 256"
  then have "unat (w + 1) = unat w + 1" by (simp add: unat_word_ariths)
  then show ?thesis unfolding and_255 unsigned_take_bit_eq by (simp add: take_bit_eq_mod)
qed

lemma ring_step:
  fixes h t :: nat
  assumes "h < 256" "t < 256"
  shows "(h + 1) mod 256 \<noteq> t \<Longrightarrow> (((h + 1) mod 256) + 256 - t) mod 256 = Suc ((h + 256 - t) mod 256)"
    and "(t + (h + 256 - t) mod 256) mod 256 = h"
    and "k < (h + 256 - t) mod 256 \<Longrightarrow> (t + k) mod 256 \<noteq> h"
    and "(h + 1) mod 256 = t \<longleftrightarrow> (h + 256 - t) mod 256 = 255"
proof -
  have n: "(h + 256 - t) mod 256 = (if t \<le> h then h - t else h + 256 - t)"
  proof (cases "t \<le> h")
    case True
    then have "h + 256 - t = (h - t) + 256" by simp
    with assms True show ?thesis by (simp only: mod_add_self2) simp
  qed (use assms in simp)
  have m: "(h + 1) mod 256 = (if h = 255 then 0 else h + 1)" using assms by auto
  have w: "x < 512 \<Longrightarrow> x mod 256 = (if x < 256 then x else x - 256)" for x :: nat
    by (auto simp: mod_if)
  show "(t + (h + 256 - t) mod 256) mod 256 = h" using assms unfolding n by (auto simp: w)
  show "k < (h + 256 - t) mod 256 \<Longrightarrow> (t + k) mod 256 \<noteq> h" using assms unfolding n by (auto simp: w split: if_splits)
  show "(h + 1) mod 256 = t \<longleftrightarrow> (h + 256 - t) mod 256 = 255" using assms unfolding n m by (auto split: if_splits)
  show "(h + 1) mod 256 \<noteq> t \<Longrightarrow> (((h + 1) mod 256) + 256 - t) mod 256 = Suc ((h + 256 - t) mod 256)"
    using assms unfolding n m by (auto simp: w split: if_splits)
qed

lemma length_ring: "length (ring s) = (unat (in_head s) + 256 - unat (in_tail s)) mod 256"
  by (simp add: ring_def)

lemma ring_alt: "ring s = map (\<lambda>k. in_buf s ((unat (in_tail s) + k) mod 256)) [0..<length (ring s)]"
  by (simp only: length_ring) (simp only: ring_def)

lemma ring_put:
  assumes "ring_inv s"
  shows "ring_inv (input_add_char c s) \<and>
    ring (input_add_char c s) = (if length (ring s) < 255 then ring s @ [c] else ring s)"
proof -
  let ?h = "unat (in_head s)" and ?t = "unat (in_tail s)"
  have b: "?h < 256" "?t < 256" using assms by (simp_all add: ring_inv_def)
  note st = ring_step [OF b]
  have nxt: "unat ((in_head s + 1) AND 255) = (?h + 1) mod 256" using unat_ring_index [OF b(1)] .
  then have eq: "(in_head s + 1) AND 255 = in_tail s \<longleftrightarrow> (?h + 1) mod 256 = ?t" by (simp add: word_unat_eq_iff)
  have le: "length (ring s) \<le> 255" by (simp add: length_ring mod_less_divisor flip: less_Suc_eq_le)
  show ?thesis
  proof (cases "(?h + 1) mod 256 = ?t")
    case True
    then have "input_add_char c s = s" using eq by (simp add: input_add_char_def)
    with True st(4) assms show ?thesis by (simp add: length_ring)
  next
    case False
    let ?s = "s\<lparr>in_buf := (in_buf s)(?h := c), in_head := (in_head s + 1) AND 255\<rparr>"
    have r: "input_add_char c s = ?s" using False eq by (simp add: input_add_char_def Let_def)
    have len: "(unat (in_head ?s) + 256 - unat (in_tail ?s)) mod 256 = Suc (length (ring s))"
      using st(1) [OF False] nxt by (simp add: length_ring)
    have "ring ?s = map (\<lambda>k. in_buf ?s ((?t + k) mod 256)) [0..<Suc (length (ring s))]"
      unfolding ring_def len by simp
    also have "\<dots> = map (\<lambda>k. in_buf ?s ((?t + k) mod 256)) [0..<length (ring s)] @ [c]"
      using st(2) by (simp add: length_ring)
    also have "map (\<lambda>k. in_buf ?s ((?t + k) mod 256)) [0..<length (ring s)] = ring s"
      by (subst (2) ring_alt, rule map_cong) (use st(3) length_ring [of s] in auto)
    finally have "ring ?s = ring s @ [c]" .
    moreover have "length (ring s) < 255" using False st(4) le by (auto simp: length_ring)
    moreover have "ring_inv ?s" using b nxt by (simp add: ring_inv_def)
    ultimately show ?thesis by (simp add: r)
  qed
qed

lemma ring_get:
  assumes "ring_inv s" "ring s = c # cs"
  shows "fst (take_char s) = c \<and> ring (snd (take_char s)) = cs \<and> ring_inv (snd (take_char s))"
proof -
  let ?h = "unat (in_head s)" and ?t = "unat (in_tail s)"
  have b: "?h < 256" "?t < 256" using assms by (simp_all add: ring_inv_def)
  let ?s = "s\<lparr>in_tail := (in_tail s + 1) AND 255\<rparr>"
  have t': "unat (in_tail ?s) = (?t + 1) mod 256" using unat_ring_index [OF b(2)] by simp
  obtain n where n: "(?h + 256 - ?t) mod 256 = Suc n" using assms(2) length_ring [of s] by (metis length_Cons)
  have n': "(?h + 256 - (?t + 1) mod 256) mod 256 = n"
  proof -
    have w: "x < 512 \<Longrightarrow> x mod 256 = (if x < 256 then x else x - 256)" for x :: nat by (auto simp: mod_if)
    have "(?t + 1) mod 256 = (if ?t = 255 then 0 else ?t + 1)" using b by auto
    with n b show ?thesis by (auto simp: w split: if_splits)
  qed
  have shift: "((?t + 1) mod 256 + k) mod 256 = (?t + Suc k) mod 256" for k
    by (simp add: mod_simps)
  have "ring s = map (\<lambda>k. in_buf s ((?t + k) mod 256)) (0 # map Suc [0..<n])"
  proof -
    have "[0..<Suc n] = 0 # map Suc [0..<n]" by (simp add: upt_conv_Cons map_Suc_upt del: upt_Suc)
    then show ?thesis unfolding ring_def n by (simp only:)
  qed
  then have "ring s = in_buf s ?t # map (\<lambda>k. in_buf s ((?t + Suc k) mod 256)) [0..<n]"
    using b by (simp add: comp_def)
  moreover have "ring ?s = map (\<lambda>k. in_buf s ((?t + Suc k) mod 256)) [0..<n]"
    using t' by (simp add: ring_def n' [simplified] shift [simplified])
  ultimately show ?thesis using assms(2) b t' by (simp add: take_char_def ring_inv_def)
qed

lemma ring_empty_iff: "ring_inv s \<Longrightarrow> in_head s = in_tail s \<longleftrightarrow> ring s = []"
proof -
  assume "ring_inv s"
  then have b: "unat (in_head s) < 256" "unat (in_tail s) < 256" by (simp_all add: ring_inv_def)
  have "ring s = [] \<longleftrightarrow> (unat (in_head s) + 256 - unat (in_tail s)) mod 256 = 0"
    by (simp flip: length_ring)
  also have "\<dots> \<longleftrightarrow> unat (in_head s) = unat (in_tail s)"
    using ring_step(2) [OF b] b by auto
  finally show ?thesis by (simp add: word_unat_eq_iff)
qed

definition ring_empty :: "input \<Rightarrow> bool" where "ring_empty s \<longleftrightarrow> in_head s = in_tail s"

interpretation kbd_queue: char_queue input_add_char ring_empty take_char ring ring_inv 255
proof
  show "length (ring s) \<le> 255" for s by (simp add: length_ring flip: less_Suc_eq_le)
  show "ring_inv s \<Longrightarrow> ring_empty s \<longleftrightarrow> ring s = []" for s by (simp add: ring_empty_def ring_empty_iff)
qed (use ring_put ring_get in blast)+

text \<open>No store goes behind the 256 characters of the array.\<close>

lemma run_in_array:
  "ring_inv s \<Longrightarrow> 256 \<le> i \<Longrightarrow> in_buf (snd (queue_run input_add_char ring_empty take_char evs s)) i = in_buf s i"
proof (induction evs arbitrary: s)
  case (Cons ev evs)
  note IH = Cons.IH and prems = Cons.prems
  show ?case
  proof (cases ev)
    case (Arrives c)
    have "in_buf (input_add_char c s) i = in_buf s i" using Cons.prems by (auto simp: input_add_char_def Let_def ring_inv_def)
    then show ?thesis using Arrives Cons.IH [of "input_add_char c s"] Cons.prems ring_put by simp
  next
    case Asked
    show ?thesis
    proof (cases "ring s")
      case Nil
      then show ?thesis using Asked IH prems by (simp add: split_beta ring_empty_def ring_empty_iff)
    next
      case (Cons c cs)
      have "ring_inv (snd (take_char s))" using ring_get [OF \<open>ring_inv s\<close> Cons] by blast
      moreover have "in_buf (snd (take_char s)) = in_buf s" "\<not> ring_empty s"
        using \<open>ring_inv s\<close> \<open>ring s = c # cs\<close> by (simp_all add: take_char_def ring_empty_def ring_empty_iff)
      ultimately show ?thesis using Asked IH [of "snd (take_char s)"] prems by (simp add: split_beta)
    qed
  qed
qed simp

section \<open>The decoders\<close>

lemma table_lengths:
  "length scancode_map = 128" "length scancode_shift_map = 128" "length hid_to_ascii = 128"
  "length hid_to_ascii_shift = 128" "length keypad_num_map = 13"
  by (simp_all add: scancode_map_def scancode_shift_map_def hid_to_ascii_def hid_to_ascii_shift_def keypad_num_map_def)

lemma add_char_frame [simp]:
  "g_graphics (input_add_char c s) = g_graphics s" "g_ready (input_add_char c s) = g_ready s"
  "prev_keycodes (input_add_char c s) = prev_keycodes s" "kbd_modifiers (input_add_char c s) = kbd_modifiers s"
  "k_extended (input_add_char c s) = k_extended s"
  by (simp_all add: input_add_char_def Let_def)

text \<open>The keys of a report that are typed, and their characters.\<close>

definition new_chars :: "u8 \<Rightarrow> u8 list \<Rightarrow> u8 list \<Rightarrow> u8 list" where
  "new_chars mods prev kcs =
     filter (\<lambda>c. c \<noteq> 0) (map (hid_char mods) (filter (\<lambda>k. k \<noteq> 0 \<and> k \<noteq> 1 \<and> k \<notin> set prev) kcs))"

lemma hid_keys_fold: "hid_keys kcs s = fold input_add_char (new_chars (kbd_modifiers s) (prev_keycodes s) kcs) s"
  by (induction kcs arbitrary: s) (auto simp: new_chars_def Let_def)

lemma fold_add_frame [simp]:
  "g_graphics (fold input_add_char cs s) = g_graphics s" "g_ready (fold input_add_char cs s) = g_ready s"
  by (induction cs arbitrary: s) simp_all

lemma ring_cong: "in_buf s' = in_buf s \<Longrightarrow> in_head s' = in_head s \<Longrightarrow> in_tail s' = in_tail s \<Longrightarrow>
    ring s' = ring s \<and> ring_inv s' = ring_inv s"
  by (simp add: ring_def ring_inv_def)

lemma report_ring:
  assumes "ring_inv s" "\<not> g_graphics s" "0x43 \<notin> set (r_keycodes r)"
  shows "ring (usb_kbd_process_report r s) =
      take 255 (ring s @ new_chars (r_modifiers r) (prev_keycodes s) (r_keycodes r))"
    and "ring_inv (usb_kbd_process_report r s)" "\<not> g_graphics (usb_kbd_process_report r s)"
    and "prev_keycodes (usb_kbd_process_report r s) = r_keycodes r"
proof -
  let ?s = "s\<lparr>kbd_modifiers := r_modifiers r\<rparr>"
  let ?cs = "new_chars (r_modifiers r) (prev_keycodes s) (r_keycodes r)"
  have c: "ring ?s = ring s" "ring_inv ?s = ring_inv s" using ring_cong [of ?s s] by simp_all
  have r: "usb_kbd_process_report r s = (fold input_add_char ?cs ?s)\<lparr>prev_keycodes := r_keycodes r\<rparr>"
    using assms(2,3) by (simp add: usb_kbd_process_report_def Let_def nvec_suppress_console_def hid_keys_fold)
  have f: "ring (x\<lparr>prev_keycodes := p\<rparr>) = ring x" "ring_inv (x\<lparr>prev_keycodes := p\<rparr>) = ring_inv x" for x p
    using ring_cong [of "x\<lparr>prev_keycodes := p\<rparr>" x] by simp_all
  from kbd_queue.put_all [of ?s ?cs] assms(1)
  show "ring (usb_kbd_process_report r s) = take 255 (ring s @ ?cs)" "ring_inv (usb_kbd_process_report r s)"
    unfolding r f c by simp_all
  show "\<not> g_graphics (usb_kbd_process_report r s)" "prev_keycodes (usb_kbd_process_report r s) = r_keycodes r"
    using assms(2) unfolding r by simp_all
qed

section \<open>Properties\<close>

text \<open>C11. From the boot on, whatever characters arrive and are asked for in whatever order, any number of laps around
  the array: the readers get what a first-in first-out list of at most 255 characters yields (-1 when it is
  empty, and a character that arrives at a full list is dropped), what is left in the array is what is left of
  the list, both indices stay below 256, and nothing is stored behind the array.\<close>

theorem input_ring_fifo:
  "let (results, s) = queue_run input_add_char ring_empty take_char evs boot_input
   in list_run 255 evs [] = (results, ring s) \<and> unat (in_head s) < 256 \<and> unat (in_tail s) < 256 \<and>
      (\<forall>i. in_buf s (256 + i) = in_buf boot_input (256 + i))"
proof -
  have "ring_inv boot_input" "ring boot_input = []" by (simp_all add: ring_inv_def ring_def boot_input_def)
  then show ?thesis using kbd_queue.run_is_list [of boot_input evs] run_in_array [of boot_input _ evs]
    by (simp add: split_beta Let_def ring_inv_def)
qed

text \<open>A report types the characters of the keys that were not held in the report before, in
  the order of the report, and repeating the report types nothing.\<close>

theorem usb_report_types_new_keys:
  assumes "ring_inv s" "\<not> g_graphics s" "0x43 \<notin> set (r_keycodes r)"
  shows "ring (usb_kbd_process_report r s) =
      take 255 (ring s @ filter (\<lambda>c. c \<noteq> 0) (map (hid_char (r_modifiers r))
        (filter (\<lambda>k. k \<noteq> 0 \<and> k \<noteq> 1 \<and> k \<notin> set (prev_keycodes s)) (r_keycodes r)))) \<and>
    ring (usb_kbd_process_report r (usb_kbd_process_report r s)) = ring (usb_kbd_process_report r s)"
proof -
  let ?s = "usb_kbd_process_report r s"
  note r1 = report_ring [OF assms]
  have "new_chars (r_modifiers r) (prev_keycodes ?s) (r_keycodes r) = []"
    unfolding r1(4) new_chars_def by (auto simp: filter_empty_conv)
  with report_ring(1) [OF r1(2,3) assms(3)] kbd_queue.bounded [OF r1(2)] have "ring (usb_kbd_process_report r ?s) = ring ?s"
    by simp
  with r1(1) show ?thesis unfolding new_chars_def by blast
qed

theorem usb_report_types_new_keys_witness:
  "ring (usb_kbd_process_report \<lparr>r_modifiers = 0x02, r_keycodes = [4, 0x1E, 0, 0, 0, 0]\<rparr> boot_input) = [0x41, 0x21]"
proof -
  have s: "ring_inv boot_input" "\<not> g_graphics boot_input" "ring boot_input = []" "prev_keycodes boot_input = replicate 6 0"
    by (simp_all add: ring_inv_def ring_def boot_input_def)
  have k: "hid_char 2 4 = 0x41" "hid_char 2 0x1E = 0x21"
    by (simp_all add: hid_char_def Let_def hid_to_ascii_shift_def nth_append nth_Cons')
  have "0x43 \<notin> set (r_keycodes \<lparr>r_modifiers = 0x02, r_keycodes = [4, 0x1E, 0, 0, 0, 0]\<rparr>)" by simp
  from usb_report_types_new_keys [OF s(1,2) this] show ?thesis by (simp add: s(3,4) k)
qed

text \<open>A USB report switches between shell and graphics exactly on a newly pressed F10 with a
  Ctrl key; the Alt keys, which the comments of the file also require, play no part.\<close>

theorem usb_toggle_needs_ctrl_only:
  "g_graphics (usb_kbd_process_report r s) =
     (if 0x43 \<in> set (r_keycodes r) \<and> 0x43 \<notin> set (prev_keycodes s) \<and> r_modifiers r AND 0x11 \<noteq> 0 \<and> g_ready s
      then \<not> g_graphics s else g_graphics s)"
  by (auto simp: usb_kbd_process_report_def Let_def nvec_toggle_def nvec_suppress_console_def hid_keys_fold)

text \<open>The prefix byte 0xE0 of the extended keys is taken for a break code: it changes
  nothing, no scan code ever sets the \<open>extended\<close> flag, and so an arrow key is decoded as the
  keypad key with the same code.\<close>

theorem ps2_extended_prefix_ignored:
  assumes "\<not> k_extended s"
  shows "handle_scancode hw 0xE0 s = s \<and> \<not> k_extended (handle_scancode hw sc s)"
proof
  show "handle_scancode hw 0xE0 s = s" using assms by (simp add: handle_scancode_def)
  have set_leds: "k_extended (set_leds hw s) = k_extended s" for s
  proof -
    have "k_extended (snd (wait_write n hw s)) = k_extended s" for n s
      by (induction n arbitrary: s) (auto simp: inb_ps2_def Let_def)
    then show ?thesis by (simp add: set_leds_def send_def outb_ps2_def i8042_wait_write_def)
  qed
  have "sc AND 0x80 = 0 \<Longrightarrow> sc \<noteq> 0xE0" by auto
  then show "\<not> k_extended (handle_scancode hw sc s)"
    using assms unfolding handle_scancode_def Let_def by (simp add: set_leds)
qed

theorem ps2_extended_prefix_ignored_witness:
  "handle_scancode (\<lambda>_ _. 0) 0xE0 boot_input = boot_input"
  using ps2_extended_prefix_ignored [of boot_input "\<lambda>_ _. 0"] by (simp add: boot_input_def)

end
