(* ===== verification/Format.thy ===== *)
theory Format
  imports CString "HOL-Library.Signed_Division"
begin

text \<open>
  Number printing and formatted output: \<open>itoa\<close>, \<open>utoa\<close>, \<open>reverse\<close> and \<open>kprintf\<close> of
  core/main.c and \<open>int_to_str\<close> and \<open>sprintf\<close> of lib/stdio.c.  A formatted call is the text it
  sends to \<open>kprint\<close>, to \<open>serial_write\<close> or into the buffer; it is \<open>None\<close> when the code reads past
  the end of the format or takes an argument that is not there.
\<close>

section \<open>Digits\<close>

definition digit_char :: "u64 \<Rightarrow> char" where
  "digit_char d = (if d > 9 then char_of (unat (d - 10) + 65) else char_of (unat d + 48))"

text \<open>The division loop, least significant digit first.  The bases of all calls are 10 and 16.\<close>

function digit_loop :: "u64 \<Rightarrow> u64 \<Rightarrow> string" where
  "digit_loop b n =
     digit_char (n mod b) # (if b \<ge> 2 \<and> n div b > 0 then digit_loop b (n div b) else [])"
  by pat_completeness auto
termination
proof (relation "measure (\<lambda>(b, n). unat n)")
  fix b n :: u64
  assume "b \<ge> 2 \<and> n div b > 0"
  then have "2 \<le> unat b" "0 < unat n div unat b"
    by (auto simp: word_le_nat_alt word_less_nat_alt unat_div)
  then have "unat n div unat b < unat n" by (intro div_less_dividend) (auto intro: Nat.gr0I)
  then show "((b, n div b), b, n) \<in> measure (\<lambda>(b, n). unat n)" by (simp add: unat_div)
qed simp

declare digit_loop.simps [simp del]

text \<open>\<open>reverse\<close>: the two indices move towards each other and the characters are swapped.\<close>

function reverse_loop :: "int \<Rightarrow> int \<Rightarrow> string \<Rightarrow> string" where
  "reverse_loop i j s =
     (if i < j then reverse_loop (i + 1) (j - 1) (s[nat i := s ! nat j, nat j := s ! nat i]) else s)"
  by pat_completeness auto
termination
  by (relation "measure (\<lambda>(i, j, _). nat (j - i))") auto

declare reverse_loop.simps [simp del]

definition reverse :: "string \<Rightarrow> string" where
  "reverse s = reverse_loop 0 (int (length s) - 1) s"

definition utoa :: "u64 \<Rightarrow> u64 \<Rightarrow> string" where
  "utoa n b = reverse (if n = 0 then ''0'' else digit_loop b n)"

definition itoa :: "u64 \<Rightarrow> u64 \<Rightarrow> string" where
  "itoa n b =
     (let sign = (b = 10 \<and> n <s 0);
          un = (if sign then - n else n);
          s = (if un = 0 then ''0'' else digit_loop b un)
      in reverse (s @ (if sign then ''-'' else [])))"

text \<open>\<open>int_to_str\<close> collects the digits in \<open>tmp\<close> and copies them back from the end.\<close>

definition int_to_str :: "u64 \<Rightarrow> bool \<Rightarrow> string" where
  "int_to_str num is_signed =
     (let neg = (is_signed \<and> num <s 0);
          unum = (if neg then - num else num);
          tmp = (if unum = 0 then ''0'' else digit_loop 10 unum)
      in (if neg then ''-'' else []) @ rev tmp)"

section \<open>Formatted output\<close>

datatype arg = NumArg u64 | StrArg string

text \<open>An \<open>int\<close> and an \<open>unsigned int\<close> argument, widened to 64 bits.\<close>

definition as_int :: "u64 \<Rightarrow> u64" where
  "as_int v = scast (ucast v :: u32)"

definition as_uint :: "u64 \<Rightarrow> u64" where
  "as_uint v = ucast (ucast v :: u32)"

text \<open>One conversion of \<open>kprintf\<close>: \<open>il\<close> is the \<open>l\<close> flag and \<open>c\<close> the conversion character.
  Unknown characters print nothing.\<close>

definition kconv :: "bool \<Rightarrow> char \<Rightarrow> arg list \<Rightarrow> (string \<times> arg list) option" where
  "kconv il c args =
     (if c = CHR ''s'' then
        (case args of StrArg s # as \<Rightarrow> Some (s, as) | _ \<Rightarrow> None)
      else if c = CHR ''d'' then
        (case args of NumArg n # as \<Rightarrow> Some (itoa (if il then n else as_int n) 10, as) | _ \<Rightarrow> None)
      else if c = CHR ''u'' then
        (case args of NumArg n # as \<Rightarrow> Some (utoa (if il then n else as_uint n) 10, as) | _ \<Rightarrow> None)
      else if c = CHR ''x'' then
        (case args of NumArg n # as \<Rightarrow> Some (''0x'' @ utoa (if il then n else as_uint n) 16, as) | _ \<Rightarrow> None)
      else if c = CHR ''%'' then Some (''%'', args)
      else Some ([], args))"

fun kprintf :: "string \<Rightarrow> arg list \<Rightarrow> string option" where
  "kprintf [] args = Some []"
| "kprintf (c # f) args =
     (if c \<noteq> CHR ''%'' then map_option (\<lambda>t. c # t) (kprintf f args)
      else
        (case f of
           [] \<Rightarrow> None
         | d # f1 \<Rightarrow>
             if d = CHR ''l'' then
               (case f1 of
                  [] \<Rightarrow> None
                | e # f2 \<Rightarrow>
                    (case kconv True e args of
                       None \<Rightarrow> None
                     | Some (t, as) \<Rightarrow> map_option (\<lambda>r. t @ r) (kprintf f2 as)))
             else
               (case kconv False d args of
                  None \<Rightarrow> None
                | Some (t, as) \<Rightarrow> map_option (\<lambda>r. t @ r) (kprintf f1 as))))"

text \<open>One conversion of \<open>sprintf\<close>.  It knows \<open>i\<close>, but not \<open>x\<close>; unknown characters are copied.\<close>

definition sconv :: "bool \<Rightarrow> char \<Rightarrow> arg list \<Rightarrow> (string \<times> arg list) option" where
  "sconv is_long c args =
     (if c = CHR ''d'' \<or> c = CHR ''i'' then
        (case args of NumArg n # as \<Rightarrow> Some (int_to_str (if is_long then n else as_int n) True, as) | _ \<Rightarrow> None)
      else if c = CHR ''u'' then
        (case args of NumArg n # as \<Rightarrow> Some (int_to_str (if is_long then n else as_uint n) False, as) | _ \<Rightarrow> None)
      else if c = CHR ''s'' then
        (case args of StrArg s # as \<Rightarrow> Some (s, as) | _ \<Rightarrow> None)
      else if c = CHR ''%'' then Some (''%'', args)
      else Some ([CHR ''%'', c], args))"

fun sprintf :: "string \<Rightarrow> arg list \<Rightarrow> string option" where
  "sprintf [] args = Some []"
| "sprintf (c # f) args =
     (if c \<noteq> CHR ''%'' then map_option (\<lambda>t. c # t) (sprintf f args)
      else
        (case f of
           [] \<Rightarrow> None
         | d # f1 \<Rightarrow>
             if d = CHR ''l'' then
               (case f1 of
                  [] \<Rightarrow> None
                | e # f2 \<Rightarrow>
                    (case sconv True e args of
                       None \<Rightarrow> None
                     | Some (t, as) \<Rightarrow> map_option (\<lambda>r. t @ r) (sprintf f2 as)))
             else
               (case sconv False d args of
                  None \<Rightarrow> None
                | Some (t, as) \<Rightarrow> map_option (\<lambda>r. t @ r) (sprintf f1 as))))"

section \<open>Reading numbers back\<close>

definition digit_value :: "char \<Rightarrow> nat" where
  "digit_value c = (let v = of_char c in if v \<ge> 65 then v - 55 else v - 48)"

definition parse :: "nat \<Rightarrow> string \<Rightarrow> nat" where
  "parse b s = foldl (\<lambda>a c. a * b + digit_value c) 0 s"

definition parse_signed :: "string \<Rightarrow> int" where
  "parse_signed s = (case s of c # t \<Rightarrow> if c = CHR ''-'' then - int (parse 10 t) else int (parse 10 s) | [] \<Rightarrow> 0)"

lemma digit_value_char: "unat d < 36 \<Longrightarrow> digit_value (digit_char d) = unat d"
  by (auto simp: digit_value_def digit_char_def Let_def unat_sub word_less_nat_alt word_le_nat_alt)

lemma parse_snoc [simp]: "parse b (s @ [c]) = parse b s * b + digit_value c"
  by (simp add: parse_def)

lemma digit_loop_parse:
  "2 \<le> unat b \<Longrightarrow> unat b \<le> 36 \<Longrightarrow> parse (unat b) (rev (digit_loop b n)) = unat n"
proof (induction b n rule: digit_loop.induct)
  case (1 b n)
  have "unat (n mod b) < unat b" using 1(2) by (simp add: unat_mod)
  then have d: "digit_value (digit_char (n mod b)) = unat n mod unat b"
    using 1(3) by (simp add: digit_value_char unat_mod)
  show ?case
  proof (cases "n div b > 0")
    case True
    then have "b \<ge> 2 \<and> n div b > 0" using 1(2) by (simp add: word_le_nat_alt)
    from 1(1) [OF this 1(2,3)] this d show ?thesis
      by (subst digit_loop.simps) (simp add: unat_div)
  next
    case False
    then have "n div b = 0" using word_gt_0 by metis
    then have "unat n div unat b = 0" by (metis unat_0 unat_div)
    then have "unat n mod unat b = unat n" by (metis add_cancel_right_left div_mult_mod_eq mult_zero_left)
    with False d show ?thesis by (subst digit_loop.simps) (simp add: parse_def)
  qed
qed

lemma digit_loop_length: "unat n < 10 ^ k \<Longrightarrow> length (digit_loop 10 n) \<le> max 1 k"
proof (induction k arbitrary: n)
  case 0
  then show ?case by (subst digit_loop.simps) (simp add: unat_eq_zero word_less_nat_alt unat_div)
next
  case (Suc k)
  from Suc.prems have "unat (n div 10) < 10 ^ k" by (simp add: unat_div less_mult_imp_div_less)
  from Suc.IH [OF this] show ?case
    using Suc.prems by (subst digit_loop.simps) (cases k; auto simp: word_less_nat_alt unat_div)
qed

lemma reverse_loop_nth:
  "0 \<le> i \<Longrightarrow> j < int (length s) \<Longrightarrow> length (reverse_loop i j s) = length s \<and>
     (\<forall>k < length s. reverse_loop i j s ! k = (if i \<le> int k \<and> int k \<le> j then s ! nat (i + j - int k) else s ! k))"
proof (induction i j s rule: reverse_loop.induct)
  case (1 i j s)
  show ?case
  proof (cases "i < j")
    case True
    let ?s = "s[nat i := s ! nat j, nat j := s ! nat i]"
    from 1(1) [OF True] 1(2,3) True have IH: "length (reverse_loop (i + 1) (j - 1) ?s) = length s"
      "\<And>k. k < length s \<Longrightarrow> reverse_loop (i + 1) (j - 1) ?s ! k =
         (if i + 1 \<le> int k \<and> int k \<le> j - 1 then ?s ! nat (i + j - int k) else ?s ! k)" by simp_all
    have "reverse_loop i j s ! k = (if i \<le> int k \<and> int k \<le> j then s ! nat (i + j - int k) else s ! k)" if "k < length s" for k
    proof (cases "i + 1 \<le> int k \<and> int k \<le> j - 1")
      case inner: True
      then have "nat (i + j - int k) \<noteq> nat i" "nat (i + j - int k) \<noteq> nat j" using 1(2) by linarith+
      then show ?thesis using IH(2) [OF that] inner True by (subst reverse_loop.simps) simp
    next
      case outer: False
      consider "k = nat i" | "k = nat j" | "k \<noteq> nat i" "k \<noteq> nat j" by blast
      then show ?thesis
      proof cases
        case 1
        then have "i + j - int k = j" "k \<noteq> nat j" using True \<open>0 \<le> i\<close> by linarith+
        then show ?thesis using IH(2) [OF that] outer True 1 that \<open>0 \<le> i\<close> by (subst reverse_loop.simps) simp
      next
        case 2
        then have "i + j - int k = i" using True \<open>0 \<le> i\<close> by linarith
        then show ?thesis using IH(2) [OF that] outer True 2 that \<open>0 \<le> i\<close> by (subst reverse_loop.simps) simp
      next
        case 3
        then have "\<not> (i \<le> int k \<and> int k \<le> j)" using outer by linarith
        moreover have "\<not> (i + 1 \<le> int k \<and> int k < j)" using outer by linarith
        ultimately show ?thesis using IH(2) [OF that] True 3
          by (subst reverse_loop.simps) (auto split: if_splits)
      qed
    qed
    moreover have "length (reverse_loop i j s) = length s" using IH(1) True by (subst reverse_loop.simps) simp
    ultimately show ?thesis by blast
  next
    case False
    then show ?thesis by (subst (1 2) reverse_loop.simps) (auto intro: arg_cong [where f = "(!) s"])
  qed
qed

lemma reverse_rev [simp]: "reverse s = rev s"
proof (rule nth_equalityI)
  note r = reverse_loop_nth [of 0 "int (length s) - 1" s]
  then show "length (reverse s) = length (rev s)" by (simp add: reverse_def)
  show "reverse s ! k = rev s ! k" if "k < length (reverse s)" for k
  proof -
    have k: "k < length s" using that r by (simp add: reverse_def)
    then have "nat (0 + (int (length s) - 1) - int k) = length s - Suc k" by simp
    with r k show ?thesis by (simp add: reverse_def rev_nth)
  qed
qed

section \<open>Properties\<close>

lemma decimal_loop: "parse 10 (rev (digit_loop 10 n)) = unat n"
  using digit_loop_parse [of 10 n] by simp

lemma decimal_length: "length (digit_loop 10 n) \<le> 20"
proof -
  have "unat n < 10 ^ 20" using unat_less_power [of n] by simp
  from digit_loop_length [OF this] show ?thesis by simp
qed

lemma decimal_no_sign: "digit_loop 10 n \<noteq> [] \<and> CHR ''-'' \<notin> set (digit_loop 10 n)"
proof (induction "10 :: u64" n rule: digit_loop.induct)
  case (1 n)
  have "unat (n mod 10) < 10" by (simp add: unat_mod)
  then have "digit_char (n mod 10) \<noteq> CHR ''-''"
  proof -
    have "of_char (digit_char (n mod 10)) = (unat (n mod 10) + 48 :: nat)"
      using \<open>unat (n mod 10) < 10\<close> by (simp add: digit_char_def word_less_nat_alt)
    then show ?thesis by auto
  qed
  with 1 show ?case by (subst (1 2) digit_loop.simps) auto
qed

lemma un_sint: "n <s 0 \<Longrightarrow> - int (unat (- n)) = sint n" "\<not> n <s 0 \<Longrightarrow> int (unat n) = sint n" for n :: u64
proof -
  assume "n <s 0"
  then have neg: "sint n < 0" by (simp add: word_sless_alt)
  then have "n \<noteq> 0" by auto
  then have "0 < unat n" by (simp add: unat_gt_0)
  then have u: "unat (- n) = 2 ^ 64 - unat n" using unat_sub_if' [of 0 n] by simp
  have "sint n = uint n - 2 ^ 64"
    using neg uint_signed [of n] by simp
  with u unat_less_power [of n] show "- int (unat (- n)) = sint n" by (simp add: of_nat_diff)
next
  assume "\<not> n <s 0"
  then have "0 \<le> sint n" by (simp add: word_sless_alt)
  then show "int (unat n) = sint n" using uint_signed [of n] by simp
qed

lemma decimal_printers: "itoa n 10 = int_to_str n True" "utoa n 10 = int_to_str n False"
  by (auto simp: itoa_def utoa_def int_to_str_def Let_def)

text \<open>C36. The two integer printers of the kernel agree and are exact: reading back the decimal
  text gives the signed or unsigned value, the hexadecimal text the unsigned value, and the
  decimal text fits the 32-byte buffers.\<close>

theorem number_printers_exact:
  "itoa n 10 = int_to_str n True \<and> utoa n 10 = int_to_str n False \<and>
   parse_signed (itoa n 10) = sint n \<and> parse 10 (utoa n 10) = unat n \<and> parse 16 (utoa n 16) = unat n \<and>
   length (itoa n 10) < 32"
proof -
  define d where "d = (\<lambda>m :: u64. if m = 0 then ''0'' else digit_loop 10 m)"
  have d: "parse 10 (rev (d m)) = unat m" "length (d m) \<le> 20" "d m \<noteq> []" "CHR ''-'' \<notin> set (d m)" for m
    using decimal_loop [of m] decimal_length [of m] decimal_no_sign [of m]
    by (auto simp: d_def parse_def digit_value_def)
  have i: "utoa n 10 = rev (d n)" "itoa n 10 = (if n <s 0 then ''-'' @ rev (d (- n)) else rev (d n))"
    by (auto simp: itoa_def utoa_def int_to_str_def Let_def d_def)
  have s: "parse_signed (rev (d m)) = int (unat m)" for m
  proof -
    have "hd (rev (d m)) \<in> set (d m)" using d(3) [of m] by (metis hd_in_set set_rev rev_is_Nil_conv)
    then have "hd (rev (d m)) \<noteq> CHR ''-''" using d(4) by metis
    then show ?thesis using d(1,3) [of m] by (cases "rev (d m)") (auto simp: parse_signed_def)
  qed
  have "parse_signed (itoa n 10) = sint n"
    using s [of n] d(1) [of "- n"] un_sint [of n] by (auto simp: i(2) parse_signed_def)
  moreover have "parse 16 (utoa n 16) = unat n"
    using digit_loop_parse [of 16 n] by (simp add: utoa_def parse_def digit_value_def)
  moreover have "length (itoa n 10) < 32" using d(2) [of n] d(2) [of "- n"] by (simp add: i(2))
  moreover have "parse 10 (utoa n 10) = unat n" by (simp only: i(1) d(1))
  ultimately show ?thesis using decimal_printers by blast
qed

text \<open>The formats whose conversions both functions know.\<close>

definition common_conversion :: "char \<Rightarrow> bool" where
  "common_conversion c \<longleftrightarrow> c \<in> set ''dus%''"

fun common_format :: "string \<Rightarrow> bool" where
  "common_format [] = True"
| "common_format (c # f) =
     (if c \<noteq> CHR ''%'' then common_format f
      else
        (case f of
           [] \<Rightarrow> True
         | d # f1 \<Rightarrow>
             if d = CHR ''l'' then
               (case f1 of [] \<Rightarrow> True | e # f2 \<Rightarrow> common_conversion e \<and> common_format f2)
             else common_conversion d \<and> common_format f1))"

lemma conv_agree: "common_conversion c \<Longrightarrow> kconv l c args = sconv l c args"
  unfolding common_conversion_def kconv_def sconv_def decimal_printers by auto

text \<open>On formats with the conversions both know, \<open>kprintf\<close> prints the text that \<open>sprintf\<close>
  stores, reading the same arguments, and both run past the end of a format that ends in \<open>%\<close>.\<close>

theorem kprintf_agrees_with_sprintf:
  assumes "common_format f"
  shows "kprintf f args = sprintf f args"
  using assms
proof (induction f args rule: kprintf.induct)
  case (2 c f args)
  note IH = "2.IH" and common = "2.prems"
  show ?case
  proof (cases "c = CHR ''%''")
    case False
    then show ?thesis using IH(1) common by simp
  next
    case pc: True
    show ?thesis
    proof (cases f)
      case f: (Cons d f1)
      show ?thesis
      proof (cases "d = CHR ''l''")
        case l: True
        show ?thesis
        proof (cases f1)
          case f1: (Cons e f2)
          have e: "common_conversion e" "common_format f2" using common by (simp_all add: pc f l f1)
          have "kprintf f2 as = sprintf f2 as" if "sconv True e args = Some (t, as)" for t as
            using IH(2) [OF _ f l f1 _ refl] that e conv_agree [OF e(1)] pc by simp
          then show ?thesis using conv_agree [OF e(1), of True args]
            by (simp add: pc f l f1 split: option.splits prod.splits)
        qed (simp add: pc f l)
      next
        case nl: False
        have d: "common_conversion d" "common_format f1" using common nl by (simp_all add: pc f)
        have "kprintf f1 as = sprintf f1 as" if "sconv False d args = Some (t, as)" for t as
          using IH(3) [OF _ f nl _ refl] that d conv_agree [OF d(1)] pc by simp
        then show ?thesis using conv_agree [OF d(1), of False args] nl
          by (simp add: pc f split: option.splits prod.splits)
      qed
    qed (simp add: pc)
  qed
qed simp

theorem kprintf_agrees_with_sprintf_witness:
  "kprintf ''pid %d: %s%%'' [NumArg 0xFFFFFFFF, StrArg ''ok''] = sprintf ''pid %d: %s%%'' [NumArg 0xFFFFFFFF, StrArg ''ok'']"
  by (rule kprintf_agrees_with_sprintf) (simp add: common_conversion_def)

end
