(* ===== verification/Console.thy ===== *)
theory Console
  imports CString
begin

text \<open>
  The framebuffer console of core/main.c (\<open>put_pixel\<close> to \<open>fb_cursor_hide\<close>) and the serial
  port writer of drivers/serial.c.  A buffer is a function from byte offsets; \<open>backbuf\<close> is the
  back buffer, when there is one.  Coordinates are 32-bit words, compared as \<open>int\<close> where the
  code does.  The font table (include/gallant12x22.h) is the argument \<open>font\<close>.
\<close>

section \<open>State\<close>

definition FONT_WIDTH :: u32 where "FONT_WIDTH = 12"
definition FONT_HEIGHT :: u32 where "FONT_HEIGHT = 22"
definition FONT_FIRST_CHAR :: nat where "FONT_FIRST_CHAR = 32"
definition FB_BG_COLOR :: u32 where "FB_BG_COLOR = 0xFF000000"

type_synonym buf = "nat \<Rightarrow> u8"

record console =
  front :: buf
  backbuf :: "buf option"
  fb_mapped :: bool
  fb_pitch :: u32
  fb_width :: u32
  fb_height :: u32
  fb_bpp :: u8
  fb_size :: u32
  cursor_x :: u32
  cursor_y :: u32
  suppress_fb :: bool
  fb_dirty :: bool
  in_graphics :: bool
  serial_out :: string
  cursor_saved :: "nat \<Rightarrow> u32"
  cursor_saved_valid :: bool
  cursor_visible :: bool

definition drawing :: "console \<Rightarrow> buf" where
  "drawing s = (case backbuf s of Some b \<Rightarrow> b | None \<Rightarrow> front s)"

definition set_drawing :: "buf \<Rightarrow> console \<Rightarrow> console" where
  "set_drawing m s = (case backbuf s of Some _ \<Rightarrow> s\<lparr>backbuf := Some m\<rparr> | None \<Rightarrow> s\<lparr>front := m\<rparr>)"

definition store32 :: "nat \<Rightarrow> u32 \<Rightarrow> buf \<Rightarrow> buf" where
  "store32 off c m =
     m(off := ucast c, off + 1 := ucast (drop_bit 8 c), off + 2 := ucast (drop_bit 16 c), off + 3 := ucast (drop_bit 24 c))"

definition load32 :: "nat \<Rightarrow> buf \<Rightarrow> u32" where
  "load32 off m =
     ucast (m off) OR push_bit 8 (ucast (m (off + 1))) OR push_bit 16 (ucast (m (off + 2))) OR push_bit 24 (ucast (m (off + 3)))"

section \<open>Serial output\<close>

definition serial_putc :: "char \<Rightarrow> console \<Rightarrow> console" where
  "serial_putc c s = s\<lparr>serial_out := serial_out s @ [c]\<rparr>"

definition serial_write :: "string \<Rightarrow> console \<Rightarrow> console" where
  "serial_write t s =
     fold (\<lambda>c s. if c = CHR 0x0A then serial_putc (CHR 0x0A) (serial_putc (CHR 0x0D) s) else serial_putc c s) t s"

section \<open>Pixels\<close>

definition put_pixel :: "u32 \<Rightarrow> u32 \<Rightarrow> u32 \<Rightarrow> console \<Rightarrow> console" where
  "put_pixel x y color s =
     (if fb_width s \<le>s x \<or> fb_height s \<le>s y then s
      else
        let off = unat (y * fb_pitch s + x * (ucast (fb_bpp s) div 8))
        in (set_drawing (store32 off color (drawing s)) s)\<lparr>fb_dirty := True\<rparr>)"

text \<open>\<open>fb_flush\<close> copies whole 64-bit words.\<close>

definition fb_flush :: "console \<Rightarrow> console" where
  "fb_flush s =
     (case backbuf s of
        None \<Rightarrow> s
      | Some b \<Rightarrow>
          if \<not> fb_mapped s \<or> \<not> fb_dirty s then s
          else s\<lparr>front := (\<lambda>a. if a < 8 * (unat (fb_size s) div 8) then b a else front s a), fb_dirty := False\<rparr>)"

definition glyph_row :: "(nat \<Rightarrow> u8) \<Rightarrow> nat \<Rightarrow> nat \<Rightarrow> u16" where
  "glyph_row font index row =
     (let off = index * 22 * 2 in push_bit 8 (ucast (font (off + row * 2))) OR ucast (font (off + row * 2 + 1)))"

definition draw_char :: "(nat \<Rightarrow> u8) \<Rightarrow> char \<Rightarrow> u32 \<Rightarrow> u32 \<Rightarrow> u32 \<Rightarrow> console \<Rightarrow> console" where
  "draw_char font c x y color s =
     (if of_char c < FONT_FIRST_CHAR then s
      else
        let index = of_char c - FONT_FIRST_CHAR in
        fold (\<lambda>row s. fold (\<lambda>col s.
            if drop_bit (15 - col) (glyph_row font index row) AND 1 \<noteq> 0
            then put_pixel (x + of_nat col) (y + of_nat row) color s else s) [0..<12] s) [0..<22] s)"

section \<open>Scrolling and printing\<close>

text \<open>The copy loops: 64-bit words upwards, then the remaining bytes.\<close>

primrec copy_words :: "nat \<Rightarrow> nat \<Rightarrow> buf \<Rightarrow> buf" where
  "copy_words 0 src m = m"
| "copy_words (Suc q) src m =
     (let m = copy_words q src m in (\<lambda>a. if 8 * q \<le> a \<and> a < 8 * q + 8 then m (a + src) else m a))"

primrec copy_bytes :: "nat \<Rightarrow> nat \<Rightarrow> nat \<Rightarrow> buf \<Rightarrow> buf" where
  "copy_bytes 0 dst src m = m"
| "copy_bytes (Suc r) dst src m = (let m = copy_bytes r dst src m in m(dst + r := m (dst + src + r)))"

definition fill_words :: "nat \<Rightarrow> nat \<Rightarrow> u32 \<Rightarrow> buf \<Rightarrow> buf" where
  "fill_words base n c m = fold (\<lambda>k m. store32 (base + 4 * k) c m) [0..<n] m"

definition clear_bottom :: "console \<Rightarrow> console" where
  "clear_bottom s =
     fold (\<lambda>y s. fold (\<lambda>x s. put_pixel (of_nat x) (of_nat y) FB_BG_COLOR s) [0..<unat (fb_width s)] s)
       [unat (fb_height s - FONT_HEIGHT)..<unat (fb_height s)] s"

definition scroll_up :: "console \<Rightarrow> console" where
  "scroll_up s =
     (let row_bytes = fb_pitch s;
          rows_to_move = fb_height s - FONT_HEIGHT;
          src = unat (FONT_HEIGHT * row_bytes);
          bytes_to_move = unat rows_to_move * unat row_bytes;
          q = bytes_to_move div 8;
          m = (if bytes_to_move > 0 then copy_bytes (bytes_to_move mod 8) (q * 8) src (copy_words q src (drawing s))
               else drawing s);
          s = set_drawing m s;
          s = (if fb_bpp s = 32 \<and> fb_pitch s mod 4 = 0
               then set_drawing (fill_words (unat ((fb_height s - FONT_HEIGHT) * fb_pitch s))
                      (22 * (unat (fb_pitch s) div 4)) FB_BG_COLOR (drawing s)) s
               else clear_bottom s)
      in s\<lparr>cursor_y := fb_height s - FONT_HEIGHT, fb_dirty := True\<rparr>)"

definition kprint_char :: "(nat \<Rightarrow> u8) \<Rightarrow> u32 \<Rightarrow> char \<Rightarrow> console \<Rightarrow> console" where
  "kprint_char font color c s =
     (if suppress_fb s then s
      else if c = CHR 0x0A then
        let s = s\<lparr>cursor_x := 0, cursor_y := cursor_y s + FONT_HEIGHT\<rparr>
        in if cursor_y s \<ge> fb_height s then scroll_up s else s
      else
        let s = draw_char font c (cursor_x s) (cursor_y s) color s;
            s = s\<lparr>cursor_x := cursor_x s + FONT_WIDTH\<rparr>
        in if cursor_x s \<ge> fb_width s - FONT_WIDTH
           then s\<lparr>cursor_x := 0, cursor_y := cursor_y s + FONT_HEIGHT\<rparr> else s)"

definition kprint :: "(nat \<Rightarrow> u8) \<Rightarrow> string \<Rightarrow> u32 \<Rightarrow> console \<Rightarrow> console" where
  "kprint font t color s =
     (if in_graphics s then serial_write t s
      else fb_flush (serial_write t (fold (kprint_char font color) t s)))"

definition fb_puts :: "(nat \<Rightarrow> u8) \<Rightarrow> string \<Rightarrow> console \<Rightarrow> console" where
  "fb_puts font t s =
     (if in_graphics s then serial_write t s
      else fb_flush ((kprint font t 0xFFFFFFFF (s\<lparr>suppress_fb := False\<rparr>))\<lparr>suppress_fb := suppress_fb s\<rparr>))"

definition fb_putc :: "(nat \<Rightarrow> u8) \<Rightarrow> char \<Rightarrow> console \<Rightarrow> console" where
  "fb_putc font c s =
     (if in_graphics s then serial_putc c s
      else fb_flush ((kprint font (if c = CHR 0x00 then [] else [c]) 0xFFFFFFFF (s\<lparr>suppress_fb := False\<rparr>))\<lparr>suppress_fb := suppress_fb s\<rparr>))"

text \<open>\<open>for_cell\<close> runs over the 22 rows and 12 columns of a character cell.\<close>

definition for_cell :: "(u32 \<Rightarrow> u32 \<Rightarrow> console \<Rightarrow> console) \<Rightarrow> console \<Rightarrow> console" where
  "for_cell f s = fold (\<lambda>y s. fold (\<lambda>x s. f (of_nat x) (of_nat y) s) [0..<12] s) [0..<22] s"

definition fb_backspace :: "console \<Rightarrow> console" where
  "fb_backspace s =
     (if in_graphics s then s
      else
        let erase = (\<lambda>s.
          serial_putc (CHR 0x08) (serial_putc (CHR '' '') (serial_putc (CHR 0x08) (fb_flush
            (for_cell (\<lambda>x y s. put_pixel (cursor_x s + x) (cursor_y s + y) FB_BG_COLOR s) s))))) in
        if cursor_x s \<ge> FONT_WIDTH then erase (s\<lparr>cursor_x := cursor_x s - FONT_WIDTH\<rparr>)
        else if cursor_y s \<ge> FONT_HEIGHT then
          erase (s\<lparr>cursor_y := cursor_y s - FONT_HEIGHT, cursor_x := fb_width s - FONT_WIDTH\<rparr>)
        else s\<lparr>cursor_x := 0\<rparr>)"

definition cell_offset :: "u32 \<Rightarrow> u32 \<Rightarrow> console \<Rightarrow> nat" where
  "cell_offset x y s =
     unat (ucast (cursor_y s + y) * ucast (fb_pitch s) + ucast ((cursor_x s + x) * (ucast (fb_bpp s) div 8)) :: u64)"

definition fb_cursor_show :: "console \<Rightarrow> console" where
  "fb_cursor_show s =
     (if suppress_fb s \<or> in_graphics s then s
      else if cursor_visible s \<or> \<not> fb_mapped s then s
      else
        let s = for_cell (\<lambda>x y s.
              let off = cell_offset x y s; p = load32 off (drawing s) in
              set_drawing (store32 off ((NOT p AND 0x00FFFFFF) OR (p AND 0xFF000000)) (drawing s))
                (s\<lparr>cursor_saved := (cursor_saved s)(unat (y * FONT_WIDTH + x) := p)\<rparr>)) s
        in fb_flush (s\<lparr>cursor_saved_valid := True, cursor_visible := True\<rparr>))"

definition fb_cursor_hide :: "console \<Rightarrow> console" where
  "fb_cursor_hide s =
     (if suppress_fb s \<or> in_graphics s then s
      else if \<not> cursor_visible s \<or> \<not> fb_mapped s \<or> \<not> cursor_saved_valid s then s
      else
        let s = for_cell (\<lambda>x y s.
              set_drawing (store32 (cell_offset x y s) (cursor_saved s (unat (y * FONT_WIDTH + x))) (drawing s)) s) s
        in fb_flush (s\<lparr>cursor_visible := False\<rparr>))"

end
