(* ===== verification/ConsoleProps.thy ===== *)
theory ConsoleProps
  imports Console
begin

text \<open>
  Correctness of the framebuffer console: what a line feed on the last line does to the pixels,
  and what happens to a line that is wider than the screen.
\<close>

lemma drawing_set [simp]: "drawing (set_drawing m s) = m"
  by (auto simp: drawing_def set_drawing_def split: option.splits)

lemma set_drawing_frame [simp]:
  "fb_pitch (set_drawing m s) = fb_pitch s" "fb_height (set_drawing m s) = fb_height s"
  "fb_width (set_drawing m s) = fb_width s" "fb_bpp (set_drawing m s) = fb_bpp s"
  "cursor_x (set_drawing m s) = cursor_x s" "cursor_y (set_drawing m s) = cursor_y s"
  "suppress_fb (set_drawing m s) = suppress_fb s" "in_graphics (set_drawing m s) = in_graphics s"
  by (simp_all add: set_drawing_def split: option.splits)

lemma drawing_upd [simp]:
  "drawing (s\<lparr>cursor_x := a\<rparr>) = drawing s" "drawing (s\<lparr>cursor_y := b\<rparr>) = drawing s"
  "drawing (s\<lparr>fb_dirty := d\<rparr>) = drawing s" "drawing (s\<lparr>serial_out := t\<rparr>) = drawing s"
  by (simp_all add: drawing_def split: option.splits)

section \<open>The copy loops\<close>

lemma copy_words_eq: "copy_words q src m = (\<lambda>a. if a < 8 * q then m (a + src) else m a)"
  by (induction q) (auto simp: Let_def fun_eq_iff)

lemma copy_bytes_eq: "copy_bytes r dst src m = (\<lambda>a. if dst \<le> a \<and> a < dst + r then m (a + src) else m a)"
  by (induction r) (auto simp: Let_def fun_eq_iff algebra_simps)

lemma copy_all:
  "copy_bytes (n mod 8) (n div 8 * 8) src (copy_words (n div 8) src m) = (\<lambda>a. if a < n then m (a + src) else m a)"
proof -
  have "n div 8 * 8 + n mod 8 = n" by simp
  then show ?thesis by (auto simp: copy_words_eq copy_bytes_eq fun_eq_iff mult.commute)
qed

definition byte_of :: "u32 \<Rightarrow> nat \<Rightarrow> u8" where
  "byte_of c k = ucast (drop_bit (8 * k) c)"

lemma store32_eq: "store32 off c m = (\<lambda>a. if off \<le> a \<and> a < off + 4 then byte_of c (a - off) else m a)"
proof
  fix a
  consider "a = off" | "a = off + 1" | "a = off + 2" | "a = off + 3" | "a < off" | "off + 4 \<le> a" by linarith
  then show "store32 off c m a = (if off \<le> a \<and> a < off + 4 then byte_of c (a - off) else m a)"
    by cases (simp_all add: store32_def byte_of_def)
qed

lemma fill_words_eq:
  "fill_words base n c m = (\<lambda>a. if base \<le> a \<and> a < base + 4 * n then byte_of c ((a - base) mod 4) else m a)"
proof (induction n)
  case 0
  then show ?case by (auto simp: fill_words_def fun_eq_iff)
next
  case (Suc n)
  have "fill_words base (Suc n) c m = store32 (base + 4 * n) c (fill_words base n c m)"
    by (simp add: fill_words_def)
  moreover have "(a - base) mod 4 = a - (base + 4 * n)" if "base + 4 * n \<le> a" "a < base + 4 * n + 4" for a
  proof -
    have "a - base = 4 * n + (a - (base + 4 * n))" using that by simp
    then show ?thesis using that by (metis add.commute less_diff_conv2 mod_less mod_mult_self2)
  qed
  ultimately show ?case unfolding Suc store32_eq by (auto simp: fun_eq_iff)
qed

section \<open>Serial output and flushing leave the drawing alone\<close>

lemma serial_write_frame [simp]:
  "drawing (serial_write t s) = drawing s" "cursor_y (serial_write t s) = cursor_y s"
  by (induction t arbitrary: s) (simp_all add: serial_write_def serial_putc_def)

lemma fb_flush_frame [simp]: "cursor_y (fb_flush s) = cursor_y s" "drawing (fb_flush s) = drawing s"
  by (simp_all add: fb_flush_def drawing_def split: option.splits)

section \<open>Below the screen\<close>

lemma sint_small: "unat w < 2 ^ 31 \<Longrightarrow> sint w = uint w" for w :: u32
proof -
  assume "unat w < 2 ^ 31"
  then have "uint w < 2 ^ 31" using of_nat_less_iff [of "unat w" "2 ^ 31", where ?'a = int] by simp
  moreover have "0 \<le> uint w" by simp
  ultimately have "signed_take_bit 31 (uint w) = uint w" by (intro signed_take_bit_int_eq_self) linarith+
  then show ?thesis by (simp add: sint_uint)
qed

lemma put_pixel_below:
  assumes "unat (fb_height s) \<le> unat y" "unat y < 2 ^ 31"
  shows "put_pixel x y c s = s"
proof -
  have "sint (fb_height s) = uint (fb_height s)" "sint y = uint y"
    using assms by (intro sint_small; linarith)+
  then have "fb_height s \<le>s y" using assms(1) by (simp add: word_sle_eq word_le_nat_alt [symmetric] word_le_def)
  then show ?thesis by (simp add: put_pixel_def)
qed

lemma draw_char_below:
  assumes "unat (fb_height s) \<le> unat y" "unat y + 22 < 2 ^ 31"
  shows "draw_char font c x y color s = s"
proof -
  have p: "put_pixel x' (y + of_nat row) color s = s" if "row < 22" for x' row
  proof (rule put_pixel_below)
    have "unat (of_nat row :: u32) = row" using that by (intro unat_of_nat_small) simp
    then have "unat (y + of_nat row) = unat y + row" using assms(2) that by (simp add: unat_word_ariths)
    then show "unat (fb_height s) \<le> unat (y + of_nat row)" "unat (y + of_nat row) < 2 ^ 31" using assms that by linarith+
  qed
  have f: "fold g xs s = s" if "\<And>v. v \<in> set xs \<Longrightarrow> g v s = s" for g :: "nat \<Rightarrow> console \<Rightarrow> console" and xs
    using that by (induction xs) auto
  show ?thesis unfolding draw_char_def Let_def
    by (auto intro!: f simp: p)
qed

lemma kprint_below:
  assumes "CHR 0x0A \<notin> set t" "unat (fb_height s) \<le> unat (cursor_y s)" "unat (cursor_y s) + 22 * length t + 22 < 2 ^ 31"
  shows "drawing (fold (kprint_char font color) t s) = drawing s \<and>
    unat (cursor_y s) \<le> unat (cursor_y (fold (kprint_char font color) t s))"
  using assms
proof (induction t arbitrary: s)
  case (Cons c t)
  let ?s = "kprint_char font color c s"
  have d: "draw_char font c (cursor_x s) (cursor_y s) color s = s"
    using Cons.prems by (intro draw_char_below) simp_all
  have y: "unat (cursor_y s + FONT_HEIGHT) = unat (cursor_y s) + 22"
    using Cons.prems(3) by (simp add: FONT_HEIGHT_def unat_word_ariths)
  have "drawing ?s = drawing s \<and> unat (cursor_y s) \<le> unat (cursor_y ?s) \<and> unat (cursor_y ?s) \<le> unat (cursor_y s) + 22 \<and>
      fb_height ?s = fb_height s"
    using Cons.prems(1) y by (auto simp: kprint_char_def Let_def d)
  then show ?case using Cons.IH [of ?s] Cons.prems by auto
qed simp

section \<open>Properties\<close>

text \<open>A line feed on the last text line moves every pixel row up by one text line and
  fills the last text line with the background; the cursor stands at its start.\<close>

theorem kprint_newline_scrolls:
  assumes "\<not> suppress_fb s" "unat (fb_height s) \<le> unat (cursor_y s) + 22" "unat (cursor_y s) < unat (fb_height s)"
    and "22 \<le> unat (fb_height s)" "fb_bpp s = 32" "unat (fb_pitch s) mod 4 = 0"
    and "unat (fb_height s) * unat (fb_pitch s) < 2 ^ 32" "unat (fb_height s) < 2 ^ 31"
    and "kprint_char font color (CHR 0x0A) s = s'"
  shows "cursor_x s' = 0 \<and> unat (cursor_y s') = unat (fb_height s) - 22 \<and>
    (\<forall>a. drawing s' a =
      (if a < (unat (fb_height s) - 22) * unat (fb_pitch s) then drawing s (a + 22 * unat (fb_pitch s))
       else if a < unat (fb_height s) * unat (fb_pitch s) then (if a mod 4 = 3 then 0xFF else 0)
       else drawing s a))"
proof -
  define h where "h = unat (fb_height s)"
  define p where "p = unat (fb_pitch s)"
  let ?B = "(h - 22) * p"
  have small: "22 * p \<le> h * p" "h * p < 2 ^ 32" "?B + 22 * p = h * p"
    using assms(4,7) by (simp_all add: h_def p_def flip: add_mult_distrib)
  have top: "unat (fb_height s - FONT_HEIGHT) = h - 22"
    using assms(4) by (simp add: h_def FONT_HEIGHT_def unat_sub word_le_nat_alt)
  have src: "unat (FONT_HEIGHT * fb_pitch s) = 22 * p"
    using small by (simp add: FONT_HEIGHT_def p_def unat_word_ariths)
  have base: "unat ((fb_height s - FONT_HEIGHT) * fb_pitch s) = ?B"
    using small by (simp add: unat_word_ariths top p_def)
  have y: "unat (cursor_y s + FONT_HEIGHT) = unat (cursor_y s) + 22"
    using assms(3,8) by (simp add: FONT_HEIGHT_def unat_word_ariths)
  have scroll: "fb_height s \<le> cursor_y s + FONT_HEIGHT" using y assms(2) by (simp add: word_le_nat_alt)
  have p4: "fb_pitch s mod 4 = 0" "p mod 4 = 0"
    using assms(6) by (simp_all add: word_unat_eq_iff unat_mod p_def)
  define m where "m = (\<lambda>a. if a < ?B then drawing s (a + 22 * p) else drawing s a)"
  have B0: "22 < h \<longrightarrow> p = 0 \<Longrightarrow> m = drawing s" by (auto simp: m_def fun_eq_iff)
  have s': "drawing s' = fill_words ?B (22 * (p div 4)) FB_BG_COLOR m" "cursor_x s' = 0" "cursor_y s' = fb_height s - FONT_HEIGHT"
    using assms(1,5,9) scroll B0 [unfolded m_def]
    by (auto simp: kprint_char_def scroll_up_def Let_def top src base p4 copy_all h_def [symmetric] p_def [symmetric] m_def)
  have B4: "?B mod 4 = 0" using p4(2) by (metis mod_mult_right_eq mult_0_right mod_0)
  have e: "?B + 4 * (22 * (p div 4)) = h * p" using small(3) p4(2) by (metis add.commute mult.left_commute mult_div_mod_eq add_0_right)
  have bg: "byte_of FB_BG_COLOR ((a - ?B) mod 4) = (if a mod 4 = 3 then 0xFF else 0)" if "?B \<le> a" for a
  proof -
    have "(a - ?B) mod 4 = a mod 4" using B4 that by (metis le_add_diff_inverse mod_add_left_eq add_0)
    moreover have "a mod 4 = 0 \<or> a mod 4 = 1 \<or> a mod 4 = 2 \<or> a mod 4 = 3" by presburger
    ultimately show ?thesis by (auto simp: byte_of_def FB_BG_COLOR_def)
  qed
  have "drawing s' a = (if a < ?B then drawing s (a + 22 * p) else if a < h * p then (if a mod 4 = 3 then 0xFF else 0) else drawing s a)" for a
    using bg [of a] unfolding s'(1) fill_words_eq e by (auto simp: m_def)
  with s'(2,3) top show ?thesis by (simp add: h_def p_def)
qed

text \<open>A long line on the last text line never scrolls: once the wrapped cursor is below the
  screen, text without line feeds changes no pixel and leaves the cursor below the screen, so
  it is lost to the viewer.\<close>

theorem kprint_below_screen_lost:
  assumes "CHR 0x0A \<notin> set t" "\<not> in_graphics s"
    and "unat (fb_height s) \<le> unat (cursor_y s)" "unat (cursor_y s) + 22 * length t + 22 < 2 ^ 31"
  shows "drawing (kprint font t color s) = drawing s \<and> unat (fb_height s) \<le> unat (cursor_y (kprint font t color s))"
  using kprint_below [OF assms(1,3,4), of font color] assms(2,3) by (auto simp: kprint_def)

definition demo_console :: console where
  "demo_console = \<lparr>front = (\<lambda>a. of_nat a), backbuf = None, fb_mapped = True, fb_pitch = 256, fb_width = 64, fb_height = 44,
     fb_bpp = 32, fb_size = 11264, cursor_x = 60, cursor_y = 30, suppress_fb = False, fb_dirty = False,
     in_graphics = False, serial_out = '''', cursor_saved = (\<lambda>_. 0), cursor_saved_valid = False, cursor_visible = False\<rparr>"

theorem kprint_newline_scrolls_witness:
  "\<exists>s'. kprint_char (\<lambda>_. 0) 0xFF (CHR 0x0A) demo_console = s' \<and> cursor_x s' = 0 \<and> unat (cursor_y s') = 22 \<and>
     drawing s' 5 = drawing demo_console (5 + 5632) \<and> drawing s' 5635 = 0xFF"
proof -
  have s: "\<not> suppress_fb demo_console" "unat (fb_height demo_console) \<le> unat (cursor_y demo_console) + 22"
    "unat (cursor_y demo_console) < unat (fb_height demo_console)" "22 \<le> unat (fb_height demo_console)"
    "fb_bpp demo_console = 32" "unat (fb_pitch demo_console) mod 4 = 0"
    "unat (fb_height demo_console) * unat (fb_pitch demo_console) < 2 ^ 32" "unat (fb_height demo_console) < 2 ^ 31"
    "unat (fb_height demo_console) = 44" "unat (fb_pitch demo_console) = 256"
    by (simp_all add: demo_console_def)
  from kprint_newline_scrolls [OF s(1-8) refl, where font = "\<lambda>_. 0" and color = 255] show ?thesis by (simp add: s(9,10))
qed

theorem kprint_below_screen_lost_witness:
  "drawing (kprint (\<lambda>_. 0) ''lost'' 0xFF (demo_console\<lparr>cursor_y := 52\<rparr>)) = drawing demo_console"
  using kprint_below_screen_lost [of "''lost''" "demo_console\<lparr>cursor_y := 52\<rparr>", where font = "\<lambda>_. 0" and color = 255]
  by (simp add: demo_console_def drawing_def)

end
