(* ===== verification/Tar.thy ===== *)
theory Tar
  imports Vfs
begin

text \<open>
  The tar reader of core/tar_extract.c and the callback of core/main.c that unpacks the root
  file system through the VFS.  The archive is a list of bytes.  A data pointer handed to the
  callback is the list of the archive's bytes from there on; reading beyond the archive has the
  value \<open>None\<close>.
\<close>

section \<open>The archive reader\<close>

text \<open>\<open>octal_to_uint64\<close> on the first \<open>len\<close> characters.\<close>

primrec octal_loop :: "nat \<Rightarrow> u64 \<Rightarrow> u8 list \<Rightarrow> u64" where
  "octal_loop 0 result str = result"
| "octal_loop (Suc n) result str =
     (case str of [] \<Rightarrow> result
      | c # cs \<Rightarrow>
          if 0x30 \<le>s c \<and> c \<le>s 0x37 then octal_loop n (push_bit 3 result OR ucast (c - 0x30)) cs else result)"

definition octal_to_uint64 :: "u8 list \<Rightarrow> nat \<Rightarrow> u64" where
  "octal_to_uint64 str len = octal_loop len 0 str"

text \<open>The C string at the start of a byte list; there is none without a NUL.\<close>

definition c_string_of :: "u8 list \<Rightarrow> string option" where
  "c_string_of bs = (if 0 \<in> set bs then Some (map (\<lambda>b. char_of (unat b)) (takeWhile (\<lambda>b. b \<noteq> 0) bs)) else None)"

text \<open>The fields of \<open>struct tar_header\<close> that the reader uses, by their offsets.\<close>

definition h_name :: "u8 list \<Rightarrow> string option" where "h_name hdr = c_string_of hdr"
definition h_size :: "u8 list \<Rightarrow> u8 list" where "h_size hdr = drop 124 hdr"
definition h_typeflag :: "u8 list \<Rightarrow> u8" where "h_typeflag hdr = hdr ! 156"
definition h_magic :: "u8 list \<Rightarrow> u8 list" where "h_magic hdr = drop 257 hdr"

type_synonym 's callback = "string \<Rightarrow> u8 list option \<Rightarrow> u64 \<Rightarrow> 's \<Rightarrow> (int \<times> 's) option"

definition ustar :: "u8 list" where "ustar = map of_char ''ustar''"

partial_function (option) tar_loop :: "u8 list \<Rightarrow> u64 \<Rightarrow> 's callback \<Rightarrow> u64 \<Rightarrow> 's \<Rightarrow> (int \<times> 's) option" where
  "tar_loop data tar_size callback offset s =
     (if offset + 512 \<le> tar_size then
        let hdr = drop (unat offset) data in
        if hdr ! 0 = 0 then Some (0, s)
        else if take 5 (h_magic hdr) \<noteq> ustar \<and> (\<forall>b \<in> set (take 512 hdr). b = 0) then Some (0, s)
        else
          let file_size = octal_to_uint64 (h_size hdr) 11;
              offset = offset + 512;
              padded_size = ((file_size + 511) div 512) * 512 in
          (case (if h_typeflag hdr = 0x30 \<or> h_typeflag hdr = 0 then
                   (case h_name hdr of None \<Rightarrow> None
                    | Some nm \<Rightarrow> callback nm (Some (drop (unat offset) data)) file_size s)
                 else if h_typeflag hdr = 0x35 then
                   (case h_name hdr of None \<Rightarrow> None | Some nm \<Rightarrow> callback nm None 0 s)
                 else Some (0, s)) of
             None \<Rightarrow> None
           | Some (result, s) \<Rightarrow>
               if result \<noteq> 0 then Some (result, s)
               else tar_loop data tar_size callback (offset + padded_size) s)
      else Some (0, s))"

definition tar_extract_all :: "u8 list \<Rightarrow> 's callback \<Rightarrow> 's \<Rightarrow> (int \<times> 's) option" where
  "tar_extract_all data callback s =
     (let tar_size = of_nat (length data) :: u64 in
      if tar_size < 512 then Some (- 1, s) else tar_loop data tar_size callback 0 s)"

section \<open>Unpacking the root file system\<close>

record tar_extract_context =
  file_count :: int
  dir_count :: int
  error_count :: int

definition abs_path :: "string \<Rightarrow> string" where
  "abs_path filename =
     (let filename = (if take 2 filename = ''./'' then drop 2 filename else filename) in
      if take 1 filename = ''/'' then take 511 filename else CHR ''/'' # take 510 filename)"

definition strip_slash :: "string \<Rightarrow> string" where
  "strip_slash p = (if p \<noteq> [] \<and> last p = CHR ''/'' then butlast p else p)"

text \<open>The parent directory that is created first; there is none for a path below the root.\<close>

definition parent_path :: "string \<Rightarrow> string option" where
  "parent_path p =
     (case last_slash 0 None p of
        None \<Rightarrow> None
      | Some i \<Rightarrow> if i = 0 then None else Some (take i p))"

definition rootfs_extract_callback ::
    "string \<Rightarrow> u8 list option \<Rightarrow> u64 \<Rightarrow> tar_extract_context \<times> fs_world \<Rightarrow> (int \<times> (tar_extract_context \<times> fs_world)) option" where
  "rootfs_extract_callback filename data sz cw =
     (case cw of (ctx, w) \<Rightarrow>
      if filename = [] then Some (0, cw)
      else if filename = ''.'' \<or> filename = ''./'' then Some (0, cw)
      else
        let abspath = abs_path filename in
        (case data of
           None \<Rightarrow>
             (let dirname = strip_slash (take 255 abspath) in
              if dirname \<noteq> [] \<and> dirname \<noteq> ''.'' \<and> dirname \<noteq> ''/'' then
                (case vfs_mkdir dirname w of
                   None \<Rightarrow> None
                 | Some (r, w) \<Rightarrow> Some (0, (if r = 0 then ctx\<lparr>dir_count := dir_count ctx + 1\<rparr> else ctx, w)))
              else Some (0, cw))
         | Some bytes \<Rightarrow>
             (case (case parent_path (take 255 abspath) of
                      None \<Rightarrow> Some w
                    | Some p \<Rightarrow> map_option snd (vfs_mkdir p w)) of
                None \<Rightarrow> None
              | Some w \<Rightarrow>
                  (case vfs_open abspath 0x0101 w of
                     None \<Rightarrow> None
                   | Some (fd, w) \<Rightarrow>
                       if fd \<ge> 0 then
                         if unat sz > length bytes then None
                         else
                           (case vfs_write fd (take (unat sz) bytes) w of
                              None \<Rightarrow> None
                            | Some (written, w) \<Rightarrow>
                                (case vfs_close fd w of
                                   None \<Rightarrow> None
                                 | Some (r, w) \<Rightarrow>
                                     if written = sint (ucast sz :: u32)
                                     then Some (0, (ctx\<lparr>file_count := file_count ctx + 1\<rparr>, w))
                                     else Some (0, (ctx\<lparr>error_count := error_count ctx + 1\<rparr>, w))))
                       else Some (0, (ctx\<lparr>error_count := error_count ctx + 1\<rparr>, w))))))"

section \<open>Well-formed archives\<close>

record tar_entry =
  te_name :: "u8 list"
  te_rest :: "u8 list"
  te_type :: u8
  te_data :: "u8 list"

text \<open>An entry as its writer lays it out: the name field of 100 bytes, 24 bytes of modes, the
  size of the data in 11 octal digits, the most significant first, 21 bytes up to the type flag, the rest of the header with the magic
  at offset 257, and the data, padded to whole blocks.\<close>

primrec octal_field :: "nat \<Rightarrow> nat \<Rightarrow> u8 list" where
  "octal_field 0 n = []"
| "octal_field (Suc k) n = octal_field k (n div 8) @ [of_nat (48 + n mod 8)]"

definition entry_ok :: "tar_entry \<Rightarrow> bool" where
  "entry_ok e \<longleftrightarrow> te_name e \<noteq> [] \<and> length (te_name e) < 100 \<and> 0 \<notin> set (te_name e) \<and>
     length (te_data e) < 8 ^ 11 \<and>
     length (te_rest e) = 355 \<and> take 5 (drop 100 (te_rest e)) = ustar \<and>
     te_type e \<in> {0x30, 0, 0x35}"

definition header_bytes :: "tar_entry \<Rightarrow> u8 list" where
  "header_bytes e =
     (te_name e @ replicate (100 - length (te_name e)) 0) @ replicate 24 0x30 @ octal_field 11 (length (te_data e)) @
     replicate 21 0 @ [te_type e] @ te_rest e"

definition entry_bytes :: "tar_entry \<Rightarrow> u8 list" where
  "entry_bytes e = header_bytes e @ te_data e @ replicate ((512 - length (te_data e) mod 512) mod 512) 0"

definition archive :: "tar_entry list \<Rightarrow> u8 list" where
  "archive es = concat (map entry_bytes es) @ replicate 1024 0"

definition entry_name :: "tar_entry \<Rightarrow> string" where
  "entry_name e = map (\<lambda>b. char_of (unat b)) (te_name e)"

lemma length_octal_field [simp]: "length (octal_field k n) = k"
  by (induction k arbitrary: n) simp_all

lemma octal_loop_digits:
  "\<forall>c \<in> set ds. 0x30 \<le>s c \<and> c \<le>s 0x37 \<Longrightarrow>
     octal_loop (length ds + n) res (ds @ r) = octal_loop n (octal_loop (length ds) res ds) r"
  by (induction ds arbitrary: res) simp_all

lemma octal_digit:
  assumes "d < 8"
  shows "0x30 \<le>s (of_nat (48 + d) :: u8)" "(of_nat (48 + d) :: u8) \<le>s 0x37" "ucast ((of_nat (48 + d) :: u8) - 0x30) = (of_nat d :: u64)"
proof -
  have "d \<in> {0, 1, 2, 3, 4, 5, 6, 7}" using assms by auto
  then show "0x30 \<le>s (of_nat (48 + d) :: u8)" "(of_nat (48 + d) :: u8) \<le>s 0x37" "ucast ((of_nat (48 + d) :: u8) - 0x30) = (of_nat d :: u64)"
    by (auto simp: word_sle_eq)
qed

lemma octal_field_digits: "c \<in> set (octal_field k n) \<Longrightarrow> 0x30 \<le>s c \<and> c \<le>s 0x37"
  by (induction k arbitrary: n) (auto simp del: of_nat_add simp: octal_digit)

lemma drop_bit_push_bit_id: "drop_bit k (push_bit k (a::nat)) = a"
  by (simp add: push_bit_eq_mult drop_bit_eq_div)

lemma octal_step:
  assumes "d < 8"
  shows "push_bit 3 (of_nat a) OR of_nat d = (of_nat (8 * a + d) :: u64)"
proof -
  have "push_bit 3 a OR d = 8 * a + d"
  proof -
    have "take_bit 3 (push_bit 3 a OR d) = d"
      using assms by (simp add: take_bit_or take_bit_nat_eq_self take_bit_push_bit)
    moreover have "drop_bit 3 (push_bit 3 a OR d) = a" 
    proof -
      have "drop_bit 3 d = 0" using assms by (simp add: drop_bit_eq_div)
      then show ?thesis by (simp only: drop_bit_or or.right_neutral drop_bit_push_bit_id)
    qed
    ultimately have "push_bit 3 a OR d = push_bit 3 a + d" using bits_ident [of 3 "push_bit 3 a OR d"] by simp
    then show ?thesis by (simp add: push_bit_eq_mult)
  qed
  then have "(of_nat (8 * a + d) :: u64) = of_nat (push_bit 3 a OR d)" by simp
  also have "\<dots> = push_bit 3 (of_nat a) OR of_nat d" by (simp only: of_nat_or_eq push_bit_of_nat)
  finally show ?thesis by simp
qed
lemma octal_value: "n < 8 ^ k \<Longrightarrow> octal_loop k 0 (octal_field k n) = of_nat n"
proof (induction k arbitrary: n)
  case (Suc k)
  then have IH: "octal_loop k 0 (octal_field k (n div 8)) = of_nat (n div 8)" by simp
  have "octal_loop (Suc k) 0 (octal_field (Suc k) n) = octal_loop 1 (octal_loop k 0 (octal_field k (n div 8))) [of_nat (48 + n mod 8)]"
    using octal_loop_digits [of "octal_field k (n div 8)" 1 0 "[of_nat (48 + n mod 8)]"] octal_field_digits by (simp del: of_nat_add)
  also have "\<dots> = push_bit 3 (of_nat (n div 8)) OR of_nat (n mod 8)"
    using octal_digit [of "n mod 8"] unfolding IH by (simp del: of_nat_add of_nat_div)
  also have "\<dots> = of_nat n" using octal_step [of "n mod 8" "n div 8"] by (simp del: of_nat_add of_nat_div of_nat_mult)
  finally show ?case .
qed simp

lemma header_length: "entry_ok e \<Longrightarrow> length (header_bytes e) = 512"
  by (simp add: entry_ok_def header_bytes_def)

lemma padded: "L + (512 - L mod 512) mod 512 = (L + 511) div 512 * 512" for L :: nat
proof -
  have "L = 512 * (L div 512) + L mod 512" by simp
  then obtain q r where L: "L = 512 * q + r" "r < 512" by (metis mod_less_divisor zero_less_numeral)
  show ?thesis
  proof (cases "r = 0")
    case True
    then show ?thesis using L by simp
  next
    case False
    then have "(L + 511) div 512 = q + 1" using L by simp
    then show ?thesis using L False by simp
  qed
qed

lemma entry_length: "entry_ok e \<Longrightarrow> length (entry_bytes e) = 512 + (length (te_data e) + 511) div 512 * 512"
  using padded [of "length (te_data e)"] by (simp add: entry_bytes_def header_length)

lemma octal_loop_append: "length cs = n \<Longrightarrow> octal_loop n res (cs @ r) = octal_loop n res cs"
  by (induction n arbitrary: cs res) (auto simp: length_Suc_conv)

lemma c_string_append:
  assumes "0 \<notin> set n"
  shows "c_string_of (n @ 0 # r) = Some (map (\<lambda>b. char_of (unat b)) n)"
proof -
  have "takeWhile (\<lambda>b. b \<noteq> 0) (n @ 0 # r) = n" using assms by (induction n) auto
  then show ?thesis by (simp only: c_string_of_def) simp
qed

lemma header_fields:
  assumes "entry_ok e"
  shows "(header_bytes e @ r) ! 0 \<noteq> 0" "take 5 (h_magic (header_bytes e @ r)) = ustar"
    and "octal_to_uint64 (h_size (header_bytes e @ r)) 11 = of_nat (length (te_data e))"
    and "h_typeflag (header_bytes e @ r) = te_type e" "h_name (header_bytes e @ r) = Some (entry_name e)"
proof -
  note ok = assms [unfolded entry_ok_def]
  obtain c cs where n: "te_name e = c # cs" using ok by (cases "te_name e") auto
  then show "(header_bytes e @ r) ! 0 \<noteq> 0" using ok by (simp add: header_bytes_def)
  show "take 5 (h_magic (header_bytes e @ r)) = ustar"
    using ok by (simp add: h_magic_def header_bytes_def)
  have size: "h_size (header_bytes e @ r) = octal_field 11 (length (te_data e)) @ (replicate 21 0 @ te_type e # te_rest e @ r)"
    using ok by (simp add: h_size_def header_bytes_def del: octal_field.simps)
  show "octal_to_uint64 (h_size (header_bytes e @ r)) 11 = of_nat (length (te_data e))"
    unfolding size octal_to_uint64_def octal_loop_append [OF length_octal_field] by (rule octal_value) (use ok in simp)
  have "header_bytes e @ r = (te_name e @ replicate (100 - length (te_name e)) 0 @ replicate 24 0x30 @ octal_field 11 (length (te_data e)) @
     replicate 21 0) @ te_type e # te_rest e @ r" by (simp add: header_bytes_def)
  moreover have "length (te_name e @ replicate (100 - length (te_name e)) 0 @ replicate 24 0x30 @ octal_field 11 (length (te_data e)) @
     replicate 21 (0 :: u8)) = 156" using ok by simp
  ultimately show "h_typeflag (header_bytes e @ r) = te_type e"
    unfolding h_typeflag_def by (metis nth_append_length)
  obtain k where "100 - length (te_name e) = Suc k" using ok by (metis Suc_diff_Suc)
  then have eq: "header_bytes e @ r = te_name e @ 0 # (replicate k 0 @ replicate 24 0x30 @ octal_field 11 (length (te_data e)) @
     replicate 21 0 @ te_type e # te_rest e @ r)" by (simp add: header_bytes_def)
  show "h_name (header_bytes e @ r) = Some (entry_name e)"
    unfolding h_name_def eq entry_name_def by (rule c_string_append) (use ok in blast)
qed

section \<open>Unpacking well-formed archives\<close>

definition deliver :: "'s callback \<Rightarrow> tar_entry \<Rightarrow> 's \<Rightarrow> (int \<times> 's) option" where
  "deliver callback e s =
     (if te_type e = 0x35 then callback (entry_name e) None 0 s
      else callback (entry_name e) (Some (te_data e)) (of_nat (length (te_data e))) s)"

primrec unpack :: "'s callback \<Rightarrow> tar_entry list \<Rightarrow> 's \<Rightarrow> (int \<times> 's) option" where
  "unpack callback [] s = Some (0, s)"
| "unpack callback (e # es) s =
     (case deliver callback e s of
        None \<Rightarrow> None
      | Some (result, s) \<Rightarrow> if result \<noteq> 0 then Some (result, s) else unpack callback es s)"

text \<open>What the reader needs of its callback: that it reads no more than \<open>size\<close> bytes.\<close>

locale archive_consumer =
  fixes callback :: "'s callback"
  assumes reads_data: "unat sz \<le> length bs \<Longrightarrow>
    callback nm (Some bs) sz s = callback nm (Some (take (unat sz) bs)) sz s"
begin

lemma tar_loop_entries:
  assumes "\<forall>e \<in> set es. entry_ok e" "length pre + length (archive es) < 2 ^ 63"
  shows "tar_loop (pre @ archive es) (of_nat (length (pre @ archive es))) callback (of_nat (length pre)) s = unpack callback es s"
  using assms
proof (induction es arbitrary: pre s)
  case Nil
  have "unat (of_nat (length pre) + 512 :: u64) = length pre + 512"
    using Nil.prems(2) by (simp add: archive_def unat_word_ariths unat_of_nat_small)
  moreover have "unat (of_nat (length pre) :: u64) = length pre"
    using Nil.prems(2) by (intro unat_of_nat_small) simp
  moreover have "unat (of_nat (length (pre @ archive [])) :: u64) = length pre + 1024"
    using Nil.prems(2) by (subst unat_of_nat_small) (simp_all add: archive_def)
  ultimately show ?case
    by (subst tar_loop.simps) (simp add: archive_def word_le_nat_alt Let_def)
next
  case (Cons e es)
  let ?data = "pre @ archive (e # es)" and ?L = "length (te_data e)"
  let ?pad = "replicate ((512 - ?L mod 512) mod 512) (0 :: u8)"
  have ok: "entry_ok e" using Cons.prems(1) by simp
  have arch: "archive (e # es) = header_bytes e @ te_data e @ ?pad @ archive es"
    by (simp add: archive_def entry_bytes_def)
  have elen: "length (entry_bytes e) = 512 + (?L + 511) div 512 * 512" by (rule entry_length [OF ok])
  have total: "length (archive (e # es)) = length (entry_bytes e) + length (archive es)"
    by (simp add: archive_def)
  have fits: "length pre + 512 + (?L + 511) div 512 * 512 + length (archive es) < 2 ^ 63"
    using Cons.prems(2) total elen by simp
  then have L: "?L < 2 ^ 63" using padded [of ?L] by linarith
  have un: "n < 2 ^ 63 \<Longrightarrow> unat (of_nat n :: u64) = n" for n by (intro unat_of_nat_small) simp
  have off: "unat (of_nat (length pre) :: u64) = length pre" using fits by (intro un) linarith
  have off': "(of_nat (length pre) + 512 :: u64) = of_nat (length pre + 512)" by simp
  have off512: "unat (of_nat (length pre) + 512 :: u64) = length pre + 512"
    unfolding off' using fits by (intro un) linarith
  have le: "(of_nat (length pre) + 512 :: u64) \<le> of_nat (length ?data)"
    unfolding word_le_nat_alt off512 using total elen Cons.prems(2) by (subst un) simp_all
  have hdr: "drop (unat (of_nat (length pre) :: u64)) ?data = header_bytes e @ te_data e @ ?pad @ archive es"
    unfolding off arch by simp
  have body: "drop (unat (of_nat (length pre) + 512 :: u64)) ?data = te_data e @ ?pad @ archive es"
    unfolding off512 arch using header_length [OF ok] by simp
  define fs where "fs = (of_nat ?L :: u64)"
  have fs1: "unat fs = ?L" using un [OF L] by (simp add: fs_def)
  then have fs: "unat fs = ?L" "fs = of_nat ?L" using un [OF L] by (simp_all add: word_unat_eq_iff)
  have next_off: "of_nat (length pre) + 512 + (fs + 511) div 512 * 512 = (of_nat (length (pre @ entry_bytes e)) :: u64)"
  proof -
    have "unat (fs + 511) = ?L + 511" unfolding fs(2) using L un [of "?L + 511"]
      by (simp add: unat_word_ariths un)
    then have "unat ((fs + 511) div 512) = (?L + 511) div 512" by (simp add: unat_div)
    moreover have "(?L + 511) div 512 < 2 ^ 63" using L by linarith
    ultimately have "(fs + 511) div 512 = of_nat ((?L + 511) div 512)"
      by (simp add: word_unat_eq_iff un del: of_nat_div)
    then show ?thesis by (simp add: elen del: of_nat_div)
  qed
  have deliv: "(if te_type e = 0x30 \<or> te_type e = 0
      then callback (entry_name e) (Some (te_data e @ ?pad @ archive es)) fs s
      else callback (entry_name e) None 0 s) = deliver callback e s"
    using reads_data [of fs "te_data e @ ?pad @ archive es" "entry_name e" s] fs ok
    by (auto simp: deliver_def entry_ok_def)
  have "archive (e # es) = entry_bytes e @ archive es" by (simp add: archive_def)
  then have IH: "tar_loop ?data (of_nat (length ?data)) callback (of_nat (length (pre @ entry_bytes e))) s' = unpack callback es s'" for s'
    using Cons.IH [of "pre @ entry_bytes e" s'] Cons.prems total by simp
  have ty: "te_type e = 0x30 \<or> te_type e = 0 \<or> te_type e = 0x35" using ok by (simp add: entry_ok_def)
  note hf = header_fields [OF ok, of "te_data e @ ?pad @ archive es"]
  have "tar_loop ?data (of_nat (length ?data)) callback (of_nat (length pre)) s =
      (case deliver callback e s of None \<Rightarrow> None
       | Some (result, s) \<Rightarrow> if result \<noteq> 0 then Some (result, s)
           else tar_loop ?data (of_nat (length ?data)) callback (of_nat (length (pre @ entry_bytes e))) s)"
    using le ty hf unfolding deliv [symmetric]
    by (subst tar_loop.simps) (simp only: Let_def hdr body hf fs_def [symmetric] next_off if_True option.case; auto)
  then show ?case unfolding IH by simp
qed

lemma extracts:
  assumes "\<forall>e \<in> set es. entry_ok e" "length (archive es) < 2 ^ 63"
  shows "tar_extract_all (archive es) callback s = unpack callback es s"
proof -
  have "\<not> (of_nat (length (archive es)) :: u64) < 512"
  proof -
    have "512 \<le> length (archive es)" by (simp add: archive_def)
    moreover have "unat (of_nat (length (archive es)) :: u64) = length (archive es)"
      using assms(2) by (intro unat_of_nat_small) simp
    ultimately show ?thesis by (simp add: word_less_nat_alt)
  qed
  with tar_loop_entries [of es "[]" s] assms show ?thesis by (simp add: tar_extract_all_def Let_def)
qed

end

interpretation rootfs: archive_consumer rootfs_extract_callback
  by unfold_locales (auto simp: rootfs_extract_callback_def Let_def split: prod.splits option.splits)

end
