(* ===== verification/Bytes.thy ===== *)
theory Bytes
  imports Prelude
begin

text \<open>
  Structures in byte buffers: little-endian fields of packed structures, as the x86 reads and
  writes them through a cast pointer, and the update of a part of a buffer.  The FAT file
  system and the ELF loader rest on this theory.
\<close>

section \<open>Little-endian integers\<close>

primrec le_value :: "u8 list \<Rightarrow> nat" where
  "le_value [] = 0"
| "le_value (b # bs) = unat b + 256 * le_value bs"

primrec le_bytes :: "nat \<Rightarrow> nat \<Rightarrow> u8 list" where
  "le_bytes 0 v = []"
| "le_bytes (Suc n) v = of_nat v # le_bytes n (v div 256)"

lemma length_le_bytes [simp]: "length (le_bytes n v) = n"
  by (induction n arbitrary: v) simp_all

lemma le_value_bytes [simp]: "le_value (le_bytes n v) = v mod 256 ^ n"
proof (induction n arbitrary: v)
  case (Suc n)
  have "unat (of_nat v :: u8) = v mod 256" by (simp add: unat_of_nat take_bit_eq_mod)
  with Suc show ?case by (simp add: mod_mult2_eq mult.commute)
qed simp

lemma le_value_less: "le_value bs < 256 ^ length bs"
proof (induction bs)
  case (Cons b bs)
  have b: "unat b < 256" using unat_less_power [of b] by simp
  have "le_value bs + 1 \<le> 256 ^ length bs" using Cons by simp
  then have "256 * (le_value bs + 1) \<le> 256 * 256 ^ length bs" by (rule mult_le_mono2)
  then show ?case using b by simp
qed simp

lemma le_bytes_value [simp]: "length bs = n \<Longrightarrow> le_bytes n (le_value bs) = bs"
proof (induction bs arbitrary: n)
  case (Cons b bs)
  have b: "unat b < 256" using unat_less_power [of b] by simp
  have "(of_nat (unat b + 256 * le_value bs) :: u8) = b"
  proof -
    have "unat (of_nat (unat b + 256 * le_value bs) :: u8) = (unat b + 256 * le_value bs) mod 2 ^ 8"
      by (simp only: unat_of_nat take_bit_eq_mod) simp
    also have "\<dots> = unat b" using b by simp
    finally show ?thesis by (simp only: word_unat_eq_iff)
  qed
  moreover have "(unat b + 256 * le_value bs) div 256 = le_value bs" using b by simp
  ultimately show ?case using Cons by auto
qed simp

section \<open>Parts of a buffer\<close>

definition slice :: "nat \<Rightarrow> nat \<Rightarrow> 'a list \<Rightarrow> 'a list" where
  "slice i n bs = take n (drop i bs)"

definition overlay :: "nat \<Rightarrow> 'a list \<Rightarrow> 'a list \<Rightarrow> 'a list" where
  "overlay i xs bs = take i bs @ xs @ drop (i + length xs) bs"

lemma length_slice [simp]: "i + n \<le> length bs \<Longrightarrow> length (slice i n bs) = n"
  by (simp add: slice_def)

lemma nth_slice: "k < n \<Longrightarrow> i + n \<le> length bs \<Longrightarrow> slice i n bs ! k = bs ! (i + k)"
  by (simp add: slice_def)

lemma length_overlay [simp]: "i + length xs \<le> length bs \<Longrightarrow> length (overlay i xs bs) = length bs"
  by (simp add: overlay_def)

lemma slice_overlay_same:
  "i + length xs \<le> length bs \<Longrightarrow> n = length xs \<Longrightarrow> slice i n (overlay i xs bs) = xs"
  by (simp add: slice_def overlay_def)

lemma nth_overlay:
  assumes "i + length xs \<le> length bs" "k < length bs"
  shows "overlay i xs bs ! k = (if i \<le> k \<and> k < i + length xs then xs ! (k - i) else bs ! k)"
  using assms by (auto simp: overlay_def nth_append)

lemma slice_overlay_other:
  assumes "j + n \<le> i \<or> i + length xs \<le> j" "i + length xs \<le> length bs" "j + n \<le> length bs"
  shows "slice j n (overlay i xs bs) = slice j n bs"
  using assms by (intro nth_equalityI) (auto simp: slice_def nth_overlay)

lemma overlay_slice: "i + n \<le> length bs \<Longrightarrow> overlay i (slice i n bs) bs = bs"
  by (rule nth_equalityI) (auto simp: nth_overlay slice_def)

section \<open>Fields\<close>

text \<open>The field at an offset inside the buffer, and the bytes of a field.\<close>

definition field8 :: "nat \<Rightarrow> u8 list \<Rightarrow> u8" where "field8 i bs = bs ! i"
definition field16 :: "nat \<Rightarrow> u8 list \<Rightarrow> u16" where "field16 i bs = of_nat (le_value (slice i 2 bs))"
definition field32 :: "nat \<Rightarrow> u8 list \<Rightarrow> u32" where "field32 i bs = of_nat (le_value (slice i 4 bs))"
definition field64 :: "nat \<Rightarrow> u8 list \<Rightarrow> u64" where "field64 i bs = of_nat (le_value (slice i 8 bs))"

definition bytes16 :: "u16 \<Rightarrow> u8 list" where "bytes16 v = le_bytes 2 (unat v)"
definition bytes32 :: "u32 \<Rightarrow> u8 list" where "bytes32 v = le_bytes 4 (unat v)"
definition bytes64 :: "u64 \<Rightarrow> u8 list" where "bytes64 v = le_bytes 8 (unat v)"

lemma length_bytes [simp]: "length (bytes16 v) = 2" "length (bytes32 w) = 4" "length (bytes64 x) = 8"
  by (simp_all add: bytes16_def bytes32_def bytes64_def)

lemma field32_overlay: "i + 4 \<le> length bs \<Longrightarrow> field32 i (overlay i (bytes32 v) bs) = v"
  using unat_less_power [of v]
  by (simp add: field32_def slice_overlay_same bytes32_def)

lemma field32_overlay_other:
  "j + 4 \<le> i \<or> i + 4 \<le> j \<Longrightarrow> i + 4 \<le> length bs \<Longrightarrow> j + 4 \<le> length bs \<Longrightarrow>
     field32 j (overlay i (bytes32 v) bs) = field32 j bs"
  by (simp add: field32_def slice_overlay_other)

lemma field16_bytes: "field16 0 (bytes16 v @ bs) = v"
  using unat_less_power [of v] by (simp add: field16_def slice_def bytes16_def)

lemma field_append:
  "i = length as \<Longrightarrow> field16 i (as @ bs) = field16 0 bs"
  "i = length as \<Longrightarrow> field32 i (as @ bs) = field32 0 bs"
  "i = length as \<Longrightarrow> field64 i (as @ bs) = field64 0 bs"
  by (simp_all add: field16_def field32_def field64_def slice_def)

end
