(* ===== verification/FatNames.thy ===== *)
theory FatNames
  imports Bytes
begin

text \<open>
  Names in a FAT directory (\<open>fs/fat32_vfs.c\<close>): the 8.3 form, the generated short name, its
  checksum, and the long name spread over directory entries.  A name is the list of its bytes
  before the NUL; a directory entry is its 32 bytes.  The C type \<open>char\<close> is signed on the
  target, which the comparisons and the widening below keep.
\<close>

section \<open>Characters\<close>

definition upper :: "u8 \<Rightarrow> u8" where
  "upper c = (if 0x61 \<le>s c \<and> c \<le>s 0x7A then c - 32 else c)"

definition lower :: "u8 \<Rightarrow> u8" where
  "lower c = (if 0x41 \<le>s c \<and> c \<le>s 0x5A then c + 32 else c)"

definition char_or_nul :: "u8 list \<Rightarrow> u8" where
  "char_or_nul s = (case s of [] \<Rightarrow> 0 | c # _ \<Rightarrow> c)"

fun my_strcasecmp :: "u8 list \<Rightarrow> u8 list \<Rightarrow> int" where
  "my_strcasecmp (a # s) (b # t) =
     (let c1 = upper a; c2 = upper b in if c1 \<noteq> c2 then sint c1 - sint c2 else my_strcasecmp s t)"
| "my_strcasecmp s t = sint (char_or_nul s) - sint (char_or_nul t)"

section \<open>The 8.3 form\<close>

text \<open>The C string in the output buffer: the loop copies up to the first space, a zero byte ends it.\<close>

definition fat32_to_normal_name :: "u8 list \<Rightarrow> u8 list" where
  "fat32_to_normal_name fat_name =
     takeWhile (\<lambda>c. c \<noteq> 0)
       (map lower (takeWhile (\<lambda>c. c \<noteq> 0x20) (slice 0 8 fat_name)) @
        (if fat_name ! 8 \<noteq> 0x20
         then 0x2E # map lower (takeWhile (\<lambda>c. c \<noteq> 0x20) (slice 8 3 fat_name)) else []))"

definition pad :: "nat \<Rightarrow> u8 list \<Rightarrow> u8 list" where
  "pad n s = s @ replicate (n - length s) 0x20"

definition fat32_to_fat_name :: "u8 list \<Rightarrow> u8 list" where
  "fat32_to_fat_name normal =
     (let base = take 8 (takeWhile (\<lambda>c. c \<noteq> 0x2E) normal);
          ext = take 3 (drop 1 (dropWhile (\<lambda>c. c \<noteq> 0x2E) normal))
      in pad 8 (map upper base) @ pad 3 (map upper ext))"

definition lfn_checksum :: "u8 list \<Rightarrow> u8" where
  "lfn_checksum short_name =
     fold (\<lambda>c sum. (push_bit 7 (sum AND 1) OR drop_bit 1 (sum AND 0xFE)) + c) (take 11 short_name) 0"

text \<open>Up to six characters of the name before its first dot, \<open>~1\<close>, and what follows the last dot.\<close>

definition after_last_dot :: "u8 list \<Rightarrow> u8 list" where
  "after_last_dot s = (if 0x2E \<in> set s then rev (takeWhile (\<lambda>c. c \<noteq> 0x2E) (rev s)) else [])"

definition make_short_name :: "u8 list \<Rightarrow> u8 list" where
  "make_short_name long_name =
     pad 6 (take 6 (filter (\<lambda>c. c \<noteq> 0x20 \<and> c \<noteq> 0x2E) (map upper (takeWhile (\<lambda>c. c \<noteq> 0x2E) long_name))))
     @ [0x7E, 0x31] @ pad 3 (map upper (take 3 (after_last_dot long_name)))"

section \<open>Long names\<close>

text \<open>Writing: the \<open>i\<close>-th of \<open>lfn_entries\<close> entries, counted from 1, holds 13 characters.  A
  \<open>char\<close> is widened with its sign.\<close>

definition lfn_char :: "u8 list \<Rightarrow> nat \<Rightarrow> u16" where
  "lfn_char part k = (if k < length part then scast (part ! k) else if k = length part then 0 else 0xFFFF)"

definition lfn_entry :: "nat \<Rightarrow> nat \<Rightarrow> u8 \<Rightarrow> u8 list \<Rightarrow> u8 list" where
  "lfn_entry i lfn_entries chksum name =
     (let part = slice ((i - 1) * 13) 13 name;
          chars = (\<lambda>ks. concat (map (\<lambda>k. bytes16 (lfn_char part k)) ks))
      in [of_nat i OR (if i = lfn_entries then 0x40 else 0)] @ chars [0..<5] @
         [0x0F, 0, chksum] @ chars [5..<11] @ [0, 0] @ chars [11..<13])"

text \<open>Reading: \<open>lfn_buf\<close> with its 256 bytes and \<open>lfn_checksum\<close>, which is -1 for none.\<close>

record lfn_state =
  lfn_buf :: "u8 list"
  lfn_sum :: int

definition no_lfn :: lfn_state where
  "no_lfn = \<lparr>lfn_buf = replicate 256 0, lfn_sum = - 1\<rparr>"

definition e_attr :: "u8 list \<Rightarrow> u8" where "e_attr e = e ! 11"
definition e_first_cluster :: "u8 list \<Rightarrow> u32" where
  "e_first_cluster e = push_bit 16 (ucast (field16 20 e)) OR ucast (field16 26 e)"
definition e_size :: "u8 list \<Rightarrow> u32" where "e_size e = field32 28 e"

text \<open>The 13 characters of an entry: \<open>name1\<close>, \<open>name2\<close> and \<open>name3\<close>.\<close>

definition lfn_units :: "u8 list \<Rightarrow> u16 list" where
  "lfn_units e = map (\<lambda>k. field16 (1 + 2 * k) e) [0..<5] @ map (\<lambda>k. field16 (14 + 2 * k) e) [0..<6] @
     map (\<lambda>k. field16 (28 + 2 * k) e) [0..<2]"

definition lfn_add :: "u8 list \<Rightarrow> lfn_state \<Rightarrow> lfn_state" where
  "lfn_add e st =
     (let order = e ! 0;
          st = (if order AND 0x40 \<noteq> 0 then \<lparr>lfn_buf = replicate 256 0, lfn_sum = uint (e ! 13)\<rparr> else st);
          idx = (uint (order AND 0x3F) - 1) * 13
      in if idx \<ge> 0 \<and> idx < 242
         then st\<lparr>lfn_buf := overlay (nat idx) (map (\<lambda>c. if c < 0x80 then ucast c else 0x3F) (lfn_units e)) (lfn_buf st)\<rparr>
         else st)"

text \<open>The test for a deleted entry compares a signed \<open>char\<close> with 0xE5.\<close>

definition deleted :: "u8 list \<Rightarrow> bool" where
  "deleted e \<longleftrightarrow> sint (e ! 0) = 0xE5"

text \<open>What \<open>fat32_finddir\<close> and \<open>fat32_readdir\<close> do with one entry before they look at its name.\<close>

datatype dir_step = DirEnd | Skip lfn_state | Entry

definition scan_entry :: "u8 list \<Rightarrow> lfn_state \<Rightarrow> dir_step" where
  "scan_entry e st =
     (if e ! 0 = 0 then DirEnd
      else if deleted e then Skip no_lfn
      else if e_attr e AND 0x0F = 0x0F then Skip (lfn_add e st)
      else if e_attr e AND 0x08 \<noteq> 0 then Skip (st\<lparr>lfn_sum := - 1\<rparr>)
      else Entry)"

definition has_lfn :: "u8 list \<Rightarrow> lfn_state \<Rightarrow> bool" where
  "has_lfn e st \<longleftrightarrow> lfn_buf st ! 0 \<noteq> 0 \<and> uint (lfn_checksum e) = lfn_sum st"

definition c_bytes :: "u8 list \<Rightarrow> u8 list" where
  "c_bytes bs = takeWhile (\<lambda>c. c \<noteq> 0) bs"

definition name_matches :: "u8 list \<Rightarrow> u8 list \<Rightarrow> lfn_state \<Rightarrow> bool" where
  "name_matches name e st \<longleftrightarrow>
     has_lfn e st \<and> my_strcasecmp name (c_bytes (lfn_buf st)) = 0
     \<or> my_strcasecmp name (fat32_to_normal_name e) = 0"

definition child_name :: "u8 list \<Rightarrow> lfn_state \<Rightarrow> u8 list" where
  "child_name e st = (if has_lfn e st then take 127 (c_bytes (lfn_buf st)) else fat32_to_normal_name e)"

end
