(* ===== verification/Fat32.thy ===== *)
theory Fat32
  imports FatNames PhysMem
begin

text \<open>
  The FAT32 file system of \<open>fs/fat32_vfs.c\<close>: the cached FAT, cluster chains, reading and
  writing of files, directories, creation and mounting.

  Memory is the contents of the pages that \<open>pfa_alloc\<close> hands out, each a list of 4096 bytes at
  its address, and the disk is an array of sectors of 512 bytes.  Without an initialised driver (and in a
  build without \<open>CONFIG_AHCI\<close>) a transfer answers -1.  With one it copies the sectors and answers 0, unless the
  disk goes wrong on these sectors: then it answers what \<open>port_read\<close> or \<open>port_write\<close> answers (-1 for a missing slot, a
  busy port, a task-file error; 0 for a transfer that was given up, see \<open>Ahci\<close>), after a part of the bytes.
  A result \<open>None\<close> is an access outside a page or through a null pointer, or a loop over a
  cyclic cluster chain that does not end.  The console messages are left out.
\<close>

section \<open>State\<close>

record fat_sys =
  fat_pfa :: pfa
  page :: "u64 \<Rightarrow> u8 list"
  disk :: "u64 \<Rightarrow> u8 list"
  ahci_ready :: bool
  read_fault :: "u64 \<Rightarrow> u32 \<Rightarrow> (int \<times> u8 list) option"   \<comment> \<open>the answer, and the bytes that did arrive\<close>
  write_fault :: "u64 \<Rightarrow> u32 \<Rightarrow> (int \<times> nat) option"     \<comment> \<open>the answer, and how many sectors were written\<close>

record fat32_boot_sector =
  bytes_per_sector :: u16
  sectors_per_cluster :: u8
  reserved_sectors :: u16
  num_fats :: u8
  total_sectors_32 :: u32
  fat_size_32 :: u32
  root_cluster :: u32
  volume_id :: u32

record fat32_fs =
  bs :: fat32_boot_sector
  fat_start_sector :: u32
  data_start_sector :: u32
  root_dir_cluster :: u32
  fat_cache :: u64
  fat_cache_valid :: bool

text \<open>A node with its \<open>fat32_node_data\<close>; \<open>n_at\<close> and \<open>n_data\<close> are the addresses of the two.\<close>

record fat_node =
  n_at :: u64
  n_data :: u64
  n_name :: "u8 list"
  n_size :: u32
  n_flags :: u32
  first_cluster :: u32
  parent_cluster :: u32

section \<open>Sectors and pages\<close>

definition ahci_read_sectors :: "u64 \<Rightarrow> u32 \<Rightarrow> u64 \<Rightarrow> fat_sys \<Rightarrow> (int \<times> fat_sys) option" where
  "ahci_read_sectors lba count buf s =
     (if \<not> ahci_ready s then Some (- 1, s)
      else if buf = 0 \<or> count = 0 \<or> count > 8 then None
      else
        let sectors = concat (map (\<lambda>i. disk s (lba + of_nat i)) [0..<unat count]);
            (r, xs) = (case read_fault s lba count of None \<Rightarrow> (0, sectors) | Some (r, xs) \<Rightarrow> (r, take (length sectors) xs))
        in Some (r, s\<lparr>page := (page s)(buf := overlay 0 xs (page s buf))\<rparr>))"

definition ahci_write_sectors :: "u64 \<Rightarrow> u32 \<Rightarrow> u64 \<Rightarrow> fat_sys \<Rightarrow> (int \<times> fat_sys) option" where
  "ahci_write_sectors lba count buf s =
     (if \<not> ahci_ready s then Some (- 1, s)
      else if buf = 0 \<or> count = 0 \<or> count > 8 then None
      else
        let (r, n) = (case write_fault s lba count of None \<Rightarrow> (0, unat count) | Some (r, n) \<Rightarrow> (r, min n (unat count)))
        in Some (r, s\<lparr>disk := (\<lambda>l. if unat (l - lba) < n
                                 then slice (512 * unat (l - lba)) 512 (page s buf) else disk s l)\<rparr>))"

definition alloc_page :: "fat_sys \<Rightarrow> u64 \<times> fat_sys" where
  "alloc_page s = (case pfa_alloc (fat_pfa s) of (a, p) \<Rightarrow> (a, s\<lparr>fat_pfa := p\<rparr>))"

definition free_page :: "u64 \<Rightarrow> fat_sys \<Rightarrow> fat_sys" where
  "free_page a s = s\<lparr>fat_pfa := pfa_free (fat_pfa s) a\<rparr>"

definition load_page :: "u64 \<Rightarrow> nat \<Rightarrow> nat \<Rightarrow> fat_sys \<Rightarrow> u8 list option" where
  "load_page a off n s = (if a = 0 \<or> off + n > 4096 then None else Some (slice off n (page s a)))"

definition store_page :: "u64 \<Rightarrow> nat \<Rightarrow> u8 list \<Rightarrow> fat_sys \<Rightarrow> fat_sys option" where
  "store_page a off xs s =
     (if a = 0 \<or> off + length xs > 4096 then None
      else Some (s\<lparr>page := (page s)(a := overlay off xs (page s a))\<rparr>))"

section \<open>The FAT\<close>

definition EOC :: u32 where "EOC = 0x0FFFFFF8"

definition fat32_get_fat_entry :: "fat32_fs \<Rightarrow> u32 \<Rightarrow> fat_sys \<Rightarrow> u32 option" where
  "fat32_get_fat_entry fs cluster s =
     (if \<not> fat_cache_valid fs then Some 0x0FFFFFFF
      else if unat cluster < 1024
      then Some (field32 (4 * unat cluster) (page s (fat_cache fs)) AND 0x0FFFFFFF) else None)"

definition fat32_set_fat_entry :: "fat32_fs \<Rightarrow> u32 \<Rightarrow> u32 \<Rightarrow> fat_sys \<Rightarrow> fat_sys option" where
  "fat32_set_fat_entry fs cluster v s =
     (if \<not> fat_cache_valid fs then Some s
      else if unat cluster < 1024
      then Some (s\<lparr>page := (page s)(fat_cache fs :=
             overlay (4 * unat cluster)
               (bytes32 (field32 (4 * unat cluster) (page s (fat_cache fs)) AND 0xF0000000 OR v AND 0x0FFFFFFF))
               (page s (fat_cache fs)))\<rparr>)
      else None)"

definition spc :: "fat32_fs \<Rightarrow> u32" where "spc fs = ucast (sectors_per_cluster (bs fs))"

definition cluster_size :: "fat32_fs \<Rightarrow> u32" where
  "cluster_size fs = ucast (bytes_per_sector (bs fs)) * spc fs"

definition fat32_cluster_to_sector :: "fat32_fs \<Rightarrow> u32 \<Rightarrow> u32" where
  "fat32_cluster_to_sector fs cluster = data_start_sector fs + (cluster - 2) * spc fs"

text \<open>The search for a free cluster; 0 for none.  The division is undefined for 0 sectors per
  cluster.\<close>

definition write_fat :: "fat32_fs \<Rightarrow> fat_sys \<Rightarrow> (int \<times> fat_sys) option" where
  "write_fat fs s = ahci_write_sectors (ucast (fat_start_sector fs)) (fat_size_32 (bs fs)) (fat_cache fs) s"

function alloc_scan :: "fat32_fs \<Rightarrow> u32 \<Rightarrow> u32 \<Rightarrow> fat_sys \<Rightarrow> (u32 \<times> fat_sys) option" where
  "alloc_scan fs total_clusters i s =
     (if i < total_clusters then
        case fat32_get_fat_entry fs i s of
          None \<Rightarrow> None
        | Some e \<Rightarrow>
            if e = 0 then
              do {
                s \<leftarrow> fat32_set_fat_entry fs i 0x0FFFFFFF s;
                (r, s) \<leftarrow> write_fat fs s;
                Some (if r \<noteq> 0 then 0 else i, s)
              }
            else alloc_scan fs total_clusters (i + 1) s
      else Some (0, s))"
  by pat_completeness auto
termination
  by (relation "measure (\<lambda>(_, total_clusters, i, _). unat total_clusters - unat i)")
    (auto simp: unat_Suc_below word_less_nat_alt)

declare alloc_scan.simps [simp del]

definition fat32_alloc_cluster :: "fat32_fs \<Rightarrow> fat_sys \<Rightarrow> (u32 \<times> fat_sys) option" where
  "fat32_alloc_cluster fs s =
     (if \<not> fat_cache_valid fs then Some (0, s)
      else if sectors_per_cluster (bs fs) = 0 then None
      else alloc_scan fs (total_sectors_32 (bs fs) div spc fs) 2 s)"

definition fat32_extend_chain :: "fat32_fs \<Rightarrow> u32 \<Rightarrow> fat_sys \<Rightarrow> (u32 \<times> fat_sys) option" where
  "fat32_extend_chain fs last_cluster s =
     do {
       (new_cluster, s) \<leftarrow> fat32_alloc_cluster fs s;
       if new_cluster = 0 then Some (0, s)
       else do {
         s \<leftarrow> fat32_set_fat_entry fs last_cluster new_cluster s;
         (r, s) \<leftarrow> write_fat fs s;
         Some (new_cluster, s)
       }
     }"

definition fat32_read_cluster :: "fat32_fs \<Rightarrow> u32 \<Rightarrow> u64 \<Rightarrow> fat_sys \<Rightarrow> (int \<times> fat_sys) option" where
  "fat32_read_cluster fs cluster buf s =
     ahci_read_sectors (ucast (fat32_cluster_to_sector fs cluster)) (spc fs) buf s"

definition fat32_write_cluster :: "fat32_fs \<Rightarrow> u32 \<Rightarrow> u64 \<Rightarrow> fat_sys \<Rightarrow> (int \<times> fat_sys) option" where
  "fat32_write_cluster fs cluster buf s =
     ahci_write_sectors (ucast (fat32_cluster_to_sector fs cluster)) (spc fs) buf s"

section \<open>Reading a file\<close>

text \<open>Skipping clusters; \<open>None\<close> inside for the end of the chain.\<close>

primrec skip_read :: "fat32_fs \<Rightarrow> nat \<Rightarrow> u32 \<Rightarrow> fat_sys \<Rightarrow> u32 option option" where
  "skip_read fs 0 cluster s = Some (Some cluster)"
| "skip_read fs (Suc n) cluster s =
     do {
       c \<leftarrow> fat32_get_fat_entry fs cluster s;
       if c \<ge> EOC then Some None else skip_read fs n c s
     }"

definition copy_size :: "fat32_fs \<Rightarrow> u32 \<Rightarrow> u32 \<Rightarrow> u32" where
  "copy_size fs cluster_offset sz =
     (if cluster_size fs - cluster_offset > sz then sz else cluster_size fs - cluster_offset)"

partial_function (option) read_clusters ::
    "fat32_fs \<Rightarrow> u64 \<Rightarrow> u32 \<Rightarrow> u32 \<Rightarrow> u32 \<Rightarrow> u8 list \<Rightarrow> fat_sys \<Rightarrow> (u8 list \<times> fat_sys) option" where
  "read_clusters fs cluster_buf current_cluster cluster_offset sz acc s =
     (if sz > 0 \<and> current_cluster < EOC then
        do {
          (r, s) \<leftarrow> fat32_read_cluster fs current_cluster cluster_buf s;
          if r \<noteq> 0 then Some (acc, s)
          else do {
            xs \<leftarrow> load_page cluster_buf (unat cluster_offset) (unat (copy_size fs cluster_offset sz)) s;
            c \<leftarrow> fat32_get_fat_entry fs current_cluster s;
            read_clusters fs cluster_buf c 0 (sz - copy_size fs cluster_offset sz) (acc @ xs) s
          }
        }
      else Some (acc, s))"

definition fat32_read :: "fat32_fs \<Rightarrow> fat_node \<Rightarrow> u64 \<Rightarrow> u32 \<Rightarrow> fat_sys \<Rightarrow> (int \<times> u8 list \<times> fat_sys) option" where
  "fat32_read fs node offset sz s =
     (if n_data node = 0 then Some (- 1, [], s)
      else if offset \<ge> ucast (n_size node) then Some (0, [], s)
      else
        let sz = (if offset + ucast sz > ucast (n_size node) then ucast (ucast (n_size node) - offset) else sz)
        in if cluster_size fs = 0 then None
           else do {
             r \<leftarrow> skip_read fs (unat (ucast (offset div ucast (cluster_size fs)) :: u32)) (first_cluster node) s;
             case r of
               None \<Rightarrow> Some (0, [], s)
             | Some cluster \<Rightarrow>
                 (case alloc_page s of (buf, s) \<Rightarrow>
                    do {
                      (xs, s) \<leftarrow> read_clusters fs buf cluster (ucast (offset mod ucast (cluster_size fs))) sz [] s;
                      Some (sint (of_nat (length xs) :: u32), xs, free_page buf s)
                    })
           })"

end
