(* ===== verification/Fat32Dir.thy ===== *)
theory Fat32Dir
  imports Fat32 VfsState
begin

text \<open>
  The second half of \<open>fs/fat32_vfs.c\<close>: writing files, searching and listing directories,
  creating entries, and mounting a volume.
\<close>

section \<open>Writing a file\<close>

primrec skip_write :: "fat32_fs \<Rightarrow> nat \<Rightarrow> u32 \<Rightarrow> fat_sys \<Rightarrow> (u32 \<times> fat_sys) option" where
  "skip_write fs 0 cluster s = Some (cluster, s)"
| "skip_write fs (Suc n) cluster s =
     do {
       c \<leftarrow> fat32_get_fat_entry fs cluster s;
       if c \<ge> EOC then do {
         (c, s) \<leftarrow> fat32_extend_chain fs cluster s;
         if c = 0 then Some (0, s) else skip_write fs n c s
       }
       else skip_write fs n c s
     }"

text \<open>The loop; the flag is \<open>False\<close> when it returns early, before the size is updated.\<close>

partial_function (option) write_clusters ::
    "fat32_fs \<Rightarrow> u64 \<Rightarrow> u32 \<Rightarrow> u32 \<Rightarrow> u32 \<Rightarrow> u32 \<Rightarrow> u8 list \<Rightarrow> fat_sys \<Rightarrow> (bool \<times> u32 \<times> fat_sys) option" where
  "write_clusters fs cluster_buf current_cluster cluster_offset sz written data s =
     (if sz > 0 then
        do {
          s \<leftarrow> (if cluster_offset \<noteq> 0 \<or> sz < cluster_size fs
               then map_option snd (fat32_read_cluster fs current_cluster cluster_buf s) else Some s);
          s \<leftarrow> store_page cluster_buf (unat cluster_offset)
                (slice (unat written) (unat (copy_size fs cluster_offset sz)) data) s;
          (r, s) \<leftarrow> fat32_write_cluster fs current_cluster cluster_buf s;
          if r \<noteq> 0 then Some (False, written, s)
          else if sz - copy_size fs cluster_offset sz > 0 then
            do {
              c \<leftarrow> fat32_get_fat_entry fs current_cluster s;
              if c \<ge> EOC then do {
                (c, s) \<leftarrow> fat32_extend_chain fs current_cluster s;
                if c = 0 then Some (False, written + copy_size fs cluster_offset sz, s)
                else write_clusters fs cluster_buf c 0 (sz - copy_size fs cluster_offset sz)
                       (written + copy_size fs cluster_offset sz) data s
              }
              else write_clusters fs cluster_buf c 0 (sz - copy_size fs cluster_offset sz)
                     (written + copy_size fs cluster_offset sz) data s
            }
          else Some (True, written + copy_size fs cluster_offset sz, s)
        }
      else Some (True, written, s))"

definition fat32_write :: "fat32_fs \<Rightarrow> fat_node \<Rightarrow> u64 \<Rightarrow> u8 list \<Rightarrow> fat_sys \<Rightarrow> (int \<times> fat_node \<times> fat_sys) option" where
  "fat32_write fs node offset data s =
     (let sz = of_nat (length data) :: u32 in
      if n_data node = 0 then Some (- 1, node, s)
      else do {
        (c, s) \<leftarrow> (if first_cluster node = 0 \<or> first_cluster node \<ge> EOC
                  then fat32_alloc_cluster fs s else Some (first_cluster node, s));
        if c = 0 then Some (- 1, node, s)
        else
          let node = node\<lparr>first_cluster := c\<rparr> in
          if cluster_size fs = 0 then None
          else do {
            (c, s) \<leftarrow> skip_write fs (unat (ucast (offset div ucast (cluster_size fs)) :: u32)) c s;
            if c = 0 then Some (0, node, s)
            else
              case alloc_page s of (buf, s) \<Rightarrow>
                do {
                  (all, written, s) \<leftarrow> write_clusters fs buf c (ucast (offset mod ucast (cluster_size fs))) sz 0 data s;
                  let s = free_page buf s in
                  Some (sint written,
                        if all \<and> offset + ucast written > ucast (n_size node)
                        then node\<lparr>n_size := ucast (offset + ucast written)\<rparr> else node, s)
                }
          }
      })"

section \<open>Searching a directory\<close>

definition entries_per_cluster :: "fat32_fs \<Rightarrow> nat" where
  "entries_per_cluster fs = unat (cluster_size fs) div 32"

definition page_entries :: "fat32_fs \<Rightarrow> u64 \<Rightarrow> fat_sys \<Rightarrow> u8 list list option" where
  "page_entries fs buf s =
     do {
       pg \<leftarrow> load_page buf 0 (32 * entries_per_cluster fs) s;
       Some (map (\<lambda>i. slice (32 * i) 32 pg) [0..<entries_per_cluster fs])
     }"

text \<open>The outcome of one cluster: the end of the directory, an entry, or the state in which the
  next cluster is read.\<close>

datatype 'a scan = AtEnd | Hit "u8 list" lfn_state | NextCluster lfn_state 'a

fun find_entries :: "u8 list \<Rightarrow> u8 list list \<Rightarrow> lfn_state \<Rightarrow> unit scan" where
  "find_entries name [] st = NextCluster st ()"
| "find_entries name (e # es) st =
     (case scan_entry e st of
        DirEnd \<Rightarrow> AtEnd
      | Skip st \<Rightarrow> find_entries name es st
      | Entry \<Rightarrow> if name_matches name e st then Hit e st else find_entries name es no_lfn)"

partial_function (option) find_clusters ::
    "fat32_fs \<Rightarrow> u8 list \<Rightarrow> u64 \<Rightarrow> u32 \<Rightarrow> lfn_state \<Rightarrow> fat_sys \<Rightarrow> ((u8 list \<times> lfn_state) option \<times> fat_sys) option" where
  "find_clusters fs name buf cluster st s =
     (if cluster < EOC then
        do {
          (r, s) \<leftarrow> fat32_read_cluster fs cluster buf s;
          if r \<noteq> 0 then Some (None, s)
          else do {
            es \<leftarrow> page_entries fs buf s;
            case find_entries name es st of
              AtEnd \<Rightarrow> Some (None, s)
            | Hit e st \<Rightarrow> Some (Some (e, st), s)
            | NextCluster st _ \<Rightarrow> do { c \<leftarrow> fat32_get_fat_entry fs cluster s; find_clusters fs name buf c st s }
          }
        }
      else Some (None, s))"

text \<open>The node made for an entry: two pages that are used without a test for NULL.\<close>

definition make_child :: "fat_node \<Rightarrow> u8 list \<Rightarrow> lfn_state \<Rightarrow> fat_sys \<Rightarrow> (fat_node \<times> fat_sys) option" where
  "make_child node e st s =
     (case alloc_page s of (child, s) \<Rightarrow>
      case alloc_page s of (child_data, s) \<Rightarrow>
        if child = 0 \<or> child_data = 0 then None
        else Some (\<lparr>n_at = child, n_data = child_data, n_name = child_name e st, n_size = e_size e,
                     n_flags = (if e_attr e AND 0x10 \<noteq> 0 then VFS_DIRECTORY else VFS_FILE),
                     first_cluster = e_first_cluster e, parent_cluster = first_cluster node\<rparr>, s))"

definition fat32_finddir :: "fat32_fs \<Rightarrow> fat_node \<Rightarrow> u8 list \<Rightarrow> fat_sys \<Rightarrow> (fat_node option \<times> fat_sys) option" where
  "fat32_finddir fs node name s =
     (if n_data node = 0 then Some (None, s)
      else
        case alloc_page s of (buf, s) \<Rightarrow>
          if buf = 0 then Some (None, s)
          else do {
            (r, s) \<leftarrow> find_clusters fs name buf (first_cluster node) no_lfn s;
            case r of
              None \<Rightarrow> Some (None, free_page buf s)
            | Some (e, st) \<Rightarrow> do { (child, s) \<leftarrow> make_child node e st s; Some (Some child, free_page buf s) }
          })"

fun list_entries :: "u32 \<Rightarrow> u8 list list \<Rightarrow> lfn_state \<Rightarrow> u32 \<Rightarrow> u32 scan" where
  "list_entries index [] st idx = NextCluster st idx"
| "list_entries index (e # es) st idx =
     (case scan_entry e st of
        DirEnd \<Rightarrow> AtEnd
      | Skip st \<Rightarrow> list_entries index es st idx
      | Entry \<Rightarrow> if idx = index then Hit e st else list_entries index es no_lfn (idx + 1))"

partial_function (option) list_clusters ::
    "fat32_fs \<Rightarrow> u32 \<Rightarrow> u64 \<Rightarrow> u32 \<Rightarrow> lfn_state \<Rightarrow> u32 \<Rightarrow> fat_sys \<Rightarrow> ((u8 list \<times> lfn_state) option \<times> fat_sys) option" where
  "list_clusters fs index buf cluster st idx s =
     (if cluster < EOC then
        do {
          (r, s) \<leftarrow> fat32_read_cluster fs cluster buf s;
          if r \<noteq> 0 then Some (None, s)
          else do {
            es \<leftarrow> page_entries fs buf s;
            case list_entries index es st idx of
              AtEnd \<Rightarrow> Some (None, s)
            | Hit e st \<Rightarrow> Some (Some (e, st), s)
            | NextCluster st idx \<Rightarrow> do { c \<leftarrow> fat32_get_fat_entry fs cluster s; list_clusters fs index buf c st idx s }
          }
        }
      else Some (None, s))"

definition fat32_readdir :: "fat32_fs \<Rightarrow> fat_node \<Rightarrow> u32 \<Rightarrow> fat_sys \<Rightarrow> (fat_node option \<times> fat_sys) option" where
  "fat32_readdir fs node index s =
     (if n_data node = 0 then Some (None, s)
      else
        case alloc_page s of (buf, s) \<Rightarrow>
          if buf = 0 then Some (None, s)
          else do {
            (r, s) \<leftarrow> list_clusters fs index buf (first_cluster node) no_lfn 0 s;
            case r of
              None \<Rightarrow> Some (None, free_page buf s)
            | Some (e, st) \<Rightarrow> do { (child, s) \<leftarrow> make_child node e st s; Some (Some child, free_page buf s) }
          })"

section \<open>Creating an entry\<close>

definition entry_free :: "u8 list \<Rightarrow> bool" where
  "entry_free e \<longleftrightarrow> e ! 0 = 0 \<or> deleted e"

text \<open>The first slot that starts a run of \<open>needed\<close> free slots in one cluster.\<close>

primrec find_free :: "nat \<Rightarrow> nat \<Rightarrow> u8 list list \<Rightarrow> nat option" where
  "find_free needed i [] = None"
| "find_free needed i (e # es) =
     (if entry_free e \<and> needed \<le> length (takeWhile entry_free (e # es)) then Some i
      else find_free needed (i + 1) es)"

partial_function (option) find_target ::
    "fat32_fs \<Rightarrow> nat \<Rightarrow> u64 \<Rightarrow> u32 \<Rightarrow> fat_sys \<Rightarrow> ((u32 \<times> nat) option \<times> fat_sys) option" where
  "find_target fs needed buf cluster s =
     (if cluster < EOC then
        do {
          (r, s) \<leftarrow> fat32_read_cluster fs cluster buf s;
          if r \<noteq> 0 then Some (None, s)
          else do {
            es \<leftarrow> page_entries fs buf s;
            case find_free needed 0 es of
              Some i \<Rightarrow> Some (Some (cluster, i), s)
            | None \<Rightarrow> do {
                next \<leftarrow> fat32_get_fat_entry fs cluster s;
                if next \<ge> EOC then do {
                  (n, s) \<leftarrow> fat32_extend_chain fs cluster s;
                  if n = 0 then Some (None, s)
                  else do {
                    s \<leftarrow> store_page buf 0 (replicate 4096 0) s;
                    (r, s) \<leftarrow> fat32_write_cluster fs n buf s;
                    Some (Some (n, 0), s)
                  }
                }
                else find_target fs needed buf next s
              }
          }
        }
      else Some (None, s))"

definition dir_entry :: "u8 list \<Rightarrow> u8 \<Rightarrow> u32 \<Rightarrow> u8 list" where
  "dir_entry name attr cluster =
     name @ [attr] @ replicate 8 0 @ bytes16 (ucast (drop_bit 16 cluster AND 0xFFFF)) @ replicate 4 0 @
     bytes16 (ucast (cluster AND 0xFFFF)) @ replicate 4 0"

definition is_lfn :: "u8 list \<Rightarrow> bool" where
  "is_lfn name \<longleftrightarrow> length name > 8 \<or>
     (\<exists>i \<in> {0..<length name}. (name ! i = 0x2E \<and> i > 8) \<or> (0x61 \<le>s name ! i \<and> name ! i \<le>s 0x7A))"

definition short_name :: "u8 list \<Rightarrow> u8 list" where
  "short_name name = (if is_lfn name then make_short_name name else fat32_to_fat_name name)"

definition lfn_count :: "u8 list \<Rightarrow> nat" where
  "lfn_count name = (if is_lfn name then (length name + 12) div 13 else 0)"

text \<open>The entries written for a name, the long-name entries in reverse order first.\<close>

definition name_entries :: "u8 list \<Rightarrow> u8 \<Rightarrow> u32 \<Rightarrow> u8 list list" where
  "name_entries name attr cluster =
     map (\<lambda>i. lfn_entry i (lfn_count name) (lfn_checksum (short_name name)) name) (rev [1..<lfn_count name + 1]) @
     [dir_entry (short_name name) attr cluster]"

text \<open>The first cluster of a new directory, with its two entries.\<close>

definition new_directory :: "fat32_fs \<Rightarrow> fat_node \<Rightarrow> fat_sys \<Rightarrow> (u32 \<times> fat_sys) option" where
  "new_directory fs parent s =
     do {
       (c, s) \<leftarrow> fat32_alloc_cluster fs s;
       if c = 0 then Some (0, s)
       else
         case alloc_page s of (buf, s) \<Rightarrow>
           do {
             let p = (if first_cluster parent = root_dir_cluster fs then 0 else first_cluster parent) in
             do {
               s \<leftarrow> store_page buf 0 (replicate 4096 0) s;
               s \<leftarrow> store_page buf 0 (dir_entry (0x2E # replicate 10 0x20) 0x10 c @
                                    dir_entry (0x2E # 0x2E # replicate 9 0x20) 0x10 p) s;
               (r, s) \<leftarrow> fat32_write_cluster fs c buf s;
               Some (c, free_page buf s)
             }
           }
     }"

definition fat32_create_entry :: "fat32_fs \<Rightarrow> fat_node \<Rightarrow> u8 list \<Rightarrow> u8 \<Rightarrow> fat_sys \<Rightarrow> (int \<times> fat_sys) option" where
  "fat32_create_entry fs parent name attr s =
     (if n_data parent = 0 then Some (- 1, s)
      else
        case alloc_page s of (buf, s) \<Rightarrow>
          if buf = 0 then Some (- 1, s)
          else do {
            (t, s) \<leftarrow> find_target fs (1 + lfn_count name) buf (first_cluster parent) s;
            case t of
              None \<Rightarrow> Some (- 1, free_page buf s)
            | Some (target_cluster, target_start_idx) \<Rightarrow>
                do {
                  (c, s) \<leftarrow> (if attr AND 0x10 \<noteq> 0 then new_directory fs parent s else Some (0, s));
                  if attr AND 0x10 \<noteq> 0 \<and> c = 0 then Some (- 1, free_page buf s)
                  else do {
                    (r, s) \<leftarrow> fat32_read_cluster fs target_cluster buf s;
                    s \<leftarrow> store_page buf (32 * target_start_idx) (concat (name_entries name attr c)) s;
                    (r, s) \<leftarrow> fat32_write_cluster fs target_cluster buf s;
                    Some (0, free_page buf s)
                  }
                }
          })"

definition fat32_create :: "fat32_fs \<Rightarrow> fat_node option \<Rightarrow> u8 list \<Rightarrow> u32 \<Rightarrow> fat_sys \<Rightarrow> (int \<times> fat_sys) option" where
  "fat32_create fs parent name flags s =
     (case parent of
        None \<Rightarrow> Some (- 1, s)
      | Some parent \<Rightarrow>
          if n_flags parent AND VFS_DIRECTORY = 0 then Some (- 1, s)
          else do {
            (existing, s) \<leftarrow> fat32_finddir fs parent name s;
            case existing of
              Some n \<Rightarrow> Some (- 1, free_page (n_at n) (if n_data n \<noteq> 0 then free_page (n_data n) s else s))
            | None \<Rightarrow> fat32_create_entry fs parent name (if flags AND VFS_DIRECTORY \<noteq> 0 then 0x10 else 0x20) s
          })"

definition fat32_mkdir_op :: "fat32_fs \<Rightarrow> fat_node option \<Rightarrow> u8 list \<Rightarrow> fat_sys \<Rightarrow> (int \<times> fat_sys) option" where
  "fat32_mkdir_op fs parent name s = fat32_create fs parent name VFS_DIRECTORY s"

section \<open>Mounting\<close>

definition hex_val :: "char \<Rightarrow> int" where
  "hex_val c =
     (let v = of_char c :: int in
      if 48 \<le> v \<and> v \<le> 57 then v - 48
      else if 65 \<le> v \<and> v \<le> 70 then v - 65 + 10
      else if 97 \<le> v \<and> v \<le> 102 then v - 97 + 10 else 0)"

fun parse_volume_loop :: "u32 \<Rightarrow> string \<Rightarrow> u32" where
  "parse_volume_loop v [] = v"
| "parse_volume_loop v (c # s) =
     (if c = CHR ''-'' then parse_volume_loop v s
      else parse_volume_loop (push_bit 4 v OR of_int (hex_val c)) s)"

definition parse_volume_id :: "string \<Rightarrow> u32" where
  "parse_volume_id s = parse_volume_loop 0 s"

text \<open>The fields of the packed boot sector that the code uses.\<close>

definition boot_sector :: "u8 list \<Rightarrow> fat32_boot_sector" where
  "boot_sector bytes = \<lparr>bytes_per_sector = field16 11 bytes, sectors_per_cluster = field8 13 bytes,
     reserved_sectors = field16 14 bytes, num_fats = field8 16 bytes, total_sectors_32 = field32 32 bytes,
     fat_size_32 = field32 36 bytes, root_cluster = field32 44 bytes, volume_id = field32 67 bytes\<rparr>"

definition mount_fs :: "fat32_boot_sector \<Rightarrow> u64 \<Rightarrow> fat32_fs" where
  "mount_fs b cache = \<lparr>bs = b, fat_start_sector = ucast (reserved_sectors b),
     data_start_sector = ucast (reserved_sectors b) + ucast (num_fats b) * fat_size_32 b,
     root_dir_cluster = root_cluster b, fat_cache = cache, fat_cache_valid = True\<rparr>"

definition volume_accepted :: "string option \<Rightarrow> fat32_boot_sector \<Rightarrow> bool" where
  "volume_accepted device b \<longleftrightarrow>
     (case device of None \<Rightarrow> True
      | Some d \<Rightarrow> my_strncmp d ''UUID='' 5 = 0 \<longrightarrow> volume_id b = parse_volume_id (drop 5 d))
     \<and> bytes_per_sector b = 512 \<and> sectors_per_cluster b \<noteq> 0 \<and> sectors_per_cluster b \<le> 128"

text \<open>The last steps: the root node and its data.\<close>

definition mount_root :: "fat32_boot_sector \<Rightarrow> u64 \<Rightarrow> u64 \<Rightarrow> fat_sys \<Rightarrow> (int \<times> (fat32_fs \<times> fat_node) option \<times> fat_sys) option" where
  "mount_root b fs_at cache s =
     (case alloc_page s of (root, s) \<Rightarrow>
        if root = 0 then Some (- 1, None, free_page fs_at (free_page cache s))
        else case alloc_page s of (root_data, s) \<Rightarrow>
          if root_data = 0
          then Some (- 1, None, free_page fs_at (free_page cache (free_page root s)))
          else Some (0, Some (mount_fs b cache,
                 \<lparr>n_at = root, n_data = root_data, n_name = [0x2F], n_size = 0, n_flags = VFS_DIRECTORY,
                  first_cluster = root_cluster b, parent_cluster = 0\<rparr>), s))"

definition fat32_mount :: "string option \<Rightarrow> fat_sys \<Rightarrow> (int \<times> (fat32_fs \<times> fat_node) option \<times> fat_sys) option" where
  "fat32_mount device s =
     (case alloc_page s of (fs_at, s) \<Rightarrow>
      if fs_at = 0 then Some (- 1, None, s)
      else case alloc_page s of (boot, s) \<Rightarrow>
      if boot = 0 then Some (- 1, None, free_page fs_at s)
      else do {
        (r, s) \<leftarrow> ahci_read_sectors 0 1 boot s;
        if r \<noteq> 0 then Some (- 1, None, free_page fs_at (free_page boot s))
        else
          let b = boot_sector (page s boot); s = free_page boot s in
          if \<not> volume_accepted device b then Some (- 1, None, free_page fs_at s)
          else
            let sectors_to_read = (if fat_size_32 b * 512 > 4096 then 8 else fat_size_32 b) in
            case alloc_page s of (cache, s) \<Rightarrow>
              if cache = 0 then Some (- 1, None, free_page fs_at s)
              else do {
                (r, s) \<leftarrow> ahci_read_sectors (ucast (reserved_sectors b)) sectors_to_read cache s;
                if r \<noteq> 0 then Some (- 1, None, free_page fs_at (free_page cache s))
                else mount_root b fs_at cache s
              }
      })"

text \<open>Opening, closing and unmounting do nothing.\<close>

definition fat32_open :: "fat_node \<Rightarrow> u32 \<Rightarrow> fat_sys \<Rightarrow> int \<times> fat_sys" where
  "fat32_open node flags s = (0, s)"

definition fat32_close :: "fat_node \<Rightarrow> fat_sys \<Rightarrow> fat_sys" where
  "fat32_close node s = s"

definition fat32_unmount :: "fat_sys \<Rightarrow> int \<times> fat_sys" where
  "fat32_unmount s = (0, s)"

end
