(* ===== verification/FatChains.thy ===== *)
theory FatChains
  imports Fat32Dir Chain
begin

text \<open>
  Cluster chains: the FAT as a linked list of clusters, what \<open>fat32_read\<close> returns of the file
  that a chain holds, and what \<open>fat32_extend_chain\<close> does to the chains of the volume.
\<close>

section \<open>The volume\<close>

text \<open>Pages hold 4096 bytes and sectors 512.\<close>

definition sys_ok :: "fat_sys \<Rightarrow> bool" where
  "sys_ok s \<longleftrightarrow> (\<forall>a. length (page s a) = 4096) \<and> (\<forall>l. length (disk s l) = 512) \<and> pfa_inv (fat_pfa s)"

text \<open>A mounted volume whose clusters fit in a page and whose FAT is cached whole; the driver is
  initialised, every transfer succeeds, and the cache is not a free frame.\<close>

definition disk_healthy :: "fat_sys \<Rightarrow> bool" where
  "disk_healthy s \<longleftrightarrow> ahci_ready s \<and> read_fault s = (\<lambda>_ _. None) \<and> write_fault s = (\<lambda>_ _. None)"

definition fat_ok :: "fat32_fs \<Rightarrow> fat_sys \<Rightarrow> bool" where
  "fat_ok fs s \<longleftrightarrow> sys_ok s \<and> disk_healthy s \<and> fat_cache_valid fs \<and> fat_cache fs \<noteq> 0 \<and>
     fat_cache fs \<notin> high_frames (fat_pfa s) \<and>
     bytes_per_sector (bs fs) = 512 \<and> 1 \<le> sectors_per_cluster (bs fs) \<and> sectors_per_cluster (bs fs) \<le> 8"

definition fat_entry :: "fat32_fs \<Rightarrow> fat_sys \<Rightarrow> u32 \<Rightarrow> u32" where
  "fat_entry fs s c = field32 (4 * unat c) (page s (fat_cache fs)) AND 0x0FFFFFFF"

definition fat_next :: "fat32_fs \<Rightarrow> fat_sys \<Rightarrow> u32 \<Rightarrow> u32 option" where
  "fat_next fs s c = (if fat_entry fs s c \<ge> EOC then None else Some (fat_entry fs s c))"

text \<open>The clusters \<open>cs\<close> from \<open>c\<close> on, all of them data clusters with an entry in the cache.\<close>

definition clusters :: "fat32_fs \<Rightarrow> fat_sys \<Rightarrow> u32 \<Rightarrow> u32 list \<Rightarrow> bool" where
  "clusters fs s c cs \<longleftrightarrow> chain (fat_next fs s) (Some c) cs \<and> (\<forall>x \<in> set cs. 2 \<le> x \<and> x < 1024)"

definition cluster_bytes :: "fat32_fs \<Rightarrow> fat_sys \<Rightarrow> u32 \<Rightarrow> u8 list" where
  "cluster_bytes fs s c =
     concat (map (\<lambda>i. disk s (ucast (fat32_cluster_to_sector fs c) + of_nat i)) [0..<unat (spc fs)])"

definition file_bytes :: "fat32_fs \<Rightarrow> fat_sys \<Rightarrow> u32 list \<Rightarrow> u8 list" where
  "file_bytes fs s cs = concat (map (cluster_bytes fs s) cs)"

lemma unat_spc: "unat (spc fs) = unat (sectors_per_cluster (bs fs))"
  by (simp add: spc_def unat_ucast_up)

lemma fat_okD:
  assumes "fat_ok fs s"
  shows "length (page s a) = 4096" "length (disk s l) = 512" "pfa_inv (fat_pfa s)" "ahci_ready s" "fat_cache_valid fs"
    "fat_cache fs \<noteq> 0" "fat_cache fs \<notin> high_frames (fat_pfa s)"
    "1 \<le> unat (spc fs)" "unat (spc fs) \<le> 8" "unat (cluster_size fs) = 512 * unat (spc fs)"
    "read_fault s = (\<lambda>_ _. None)" "write_fault s = (\<lambda>_ _. None)"
proof -
  have s: "1 \<le> unat (sectors_per_cluster (bs fs))" "unat (sectors_per_cluster (bs fs)) \<le> 8"
    using assms by (auto simp: fat_ok_def word_le_nat_alt)
  then show "1 \<le> unat (spc fs)" "unat (spc fs) \<le> 8" by (simp_all add: unat_spc)
  have "bytes_per_sector (bs fs) = 512" using assms by (simp add: fat_ok_def)
  then have "unat (ucast (bytes_per_sector (bs fs)) :: u32) = 512" by (simp add: unat_ucast_up)
  then show "unat (cluster_size fs) = 512 * unat (spc fs)"
    using s by (simp add: cluster_size_def unat_word_ariths unat_spc)
qed (use assms in \<open>auto simp: fat_ok_def sys_ok_def disk_healthy_def\<close>)

lemma length_sectors: "(\<And>l. length (d l) = 512) \<Longrightarrow> length (concat (map (\<lambda>i. d (a + of_nat i)) [0..<n])) = 512 * n"
  by (induction n) simp_all

lemma length_cluster_bytes [simp]: "fat_ok fs s \<Longrightarrow> length (cluster_bytes fs s c) = unat (cluster_size fs)"
  using fat_okD(2,10) [of fs s] by (simp add: cluster_bytes_def length_sectors)

lemma length_file_bytes: "fat_ok fs s \<Longrightarrow> length (file_bytes fs s cs) = length cs * unat (cluster_size fs)"
  by (induction cs) (simp_all add: file_bytes_def)

lemma fat_get: "fat_ok fs s \<Longrightarrow> c < 1024 \<Longrightarrow> fat32_get_fat_entry fs c s = Some (fat_entry fs s c)"
  by (simp add: fat32_get_fat_entry_def fat_okD fat_entry_def word_less_nat_alt)

lemma read_cluster:
  assumes "fat_ok fs s" "buf \<noteq> 0"
  shows "fat32_read_cluster fs c buf s =
    Some (0, s\<lparr>page := (page s)(buf := overlay 0 (cluster_bytes fs s c) (page s buf))\<rparr>)"
  using fat_okD [OF assms(1)] assms(2)
  by (simp add: fat32_read_cluster_def ahci_read_sectors_def cluster_bytes_def word_less_nat_alt unat_eq_0 [symmetric])

text \<open>Reading into a buffer keeps the volume.\<close>

lemma fat_ok_buffer:
  assumes "fat_ok fs s" "length pg = 4096"
  shows "fat_ok fs (s\<lparr>page := (page s)(buf := pg)\<rparr>)"
  using assms by (auto simp: fat_ok_def sys_ok_def disk_healthy_def)

lemma fat_entry_buffer: "buf \<noteq> fat_cache fs \<Longrightarrow> fat_entry fs (s\<lparr>page := (page s)(buf := pg)\<rparr>) c = fat_entry fs s c"
  by (simp add: fat_entry_def)

lemma clusters_cong:
  assumes "page s' (fat_cache fs) = page s (fat_cache fs)"
  shows "clusters fs s' c cs = clusters fs s c cs"
proof -
  have "fat_next fs s' = fat_next fs s" using assms by (simp add: fat_next_def fat_entry_def fun_eq_iff)
  then show ?thesis by (simp add: clusters_def)
qed

lemma cluster_bytes_cong: "disk s' = disk s \<Longrightarrow> cluster_bytes fs s' = cluster_bytes fs s"
  by (simp add: cluster_bytes_def fun_eq_iff)

lemma file_bytes_cong: "disk s' = disk s \<Longrightarrow> file_bytes fs s' cs = file_bytes fs s cs"
  by (simp add: file_bytes_def cluster_bytes_cong [of s' s])

lemma clusters_EOC: "x < 1024 \<Longrightarrow> x < EOC"
  by (simp add: EOC_def word_less_nat_alt)

lemma next_cases:
  assumes "clusters fs s c (x # xs)"
  shows "c = x" "x < 1024" "fat_entry fs s x < EOC \<and> clusters fs s (fat_entry fs s x) xs \<or> fat_entry fs s x \<ge> EOC \<and> xs = []"
  using assms by (auto simp: clusters_def fat_next_def split: if_splits)

section \<open>Reading\<close>

lemma slice_append_left: "n \<le> length xs - i \<Longrightarrow> slice i n (xs @ ys) = slice i n xs"
  by (simp add: slice_def)

lemma slice_across:
  assumes "i \<le> length xs" "length xs - i \<le> n"
  shows "slice i (length xs - i) xs @ slice 0 (n - (length xs - i)) ys = slice i n (xs @ ys)"
  using assms by (simp add: slice_def)

lemma load_overlay:
  assumes "buf \<noteq> 0" "length xs \<le> 4096" "length (page s buf) = 4096" "off + n \<le> length xs"
  shows "load_page buf off n (s\<lparr>page := (page s)(buf := overlay 0 xs (page s buf))\<rparr>) = Some (slice off n xs)"
  using assms by (simp add: load_page_def overlay_def slice_append_left)

lemma read_clusters_zero: "read_clusters fs buf c off 0 acc s = Some (acc, s)"
  by (subst read_clusters.simps) simp

lemma read_clusters_spec:
  assumes "fat_ok fs s" "clusters fs s c cs" "buf \<noteq> 0" "buf \<noteq> fat_cache fs"
    and "unat off < unat (cluster_size fs)" "unat off + unat sz \<le> length (file_bytes fs s cs)"
  shows "\<exists>pg. length pg = 4096 \<and> read_clusters fs buf c off sz acc s =
    Some (acc @ slice (unat off) (unat sz) (file_bytes fs s cs), s\<lparr>page := (page s)(buf := pg)\<rparr>)"
  using assms
proof (induction cs arbitrary: c off sz acc s)
  case Nil
  then have "sz = 0" by (simp add: file_bytes_def unat_eq_0)
  then show ?case
    using fat_okD(1) [OF Nil.prems(1), of buf]
    by (subst read_clusters.simps) (auto simp: slice_def intro!: exI [of _ "page s buf"])
next
  case (Cons x xs)
  note ok = Cons.prems(1)
  let ?cs = "unat (cluster_size fs)"
  show ?case
  proof (cases "sz = 0")
    case True
    then show ?thesis
      using fat_okD(1) [OF ok, of buf]
      by (subst read_clusters.simps) (auto simp: slice_def intro!: exI [of _ "page s buf"])
  next
    case False
    note nx = next_cases [OF Cons.prems(2)]
    let ?pg = "overlay 0 (cluster_bytes fs s x) (page s buf)"
    let ?s = "s\<lparr>page := (page s)(buf := ?pg)\<rparr>"
    let ?n = "copy_size fs off sz"
    have cs: "?cs \<le> 4096" using fat_okD(9,10) [OF ok] by simp
    have len: "length ?pg = 4096" using cs fat_okD(1) [OF ok, of buf] ok by simp
    have ok': "fat_ok fs ?s" using ok len by (rule fat_ok_buffer)
    have diff: "unat (cluster_size fs - off) = ?cs - unat off"
      using Cons.prems(5) by (simp add: unat_sub word_le_nat_alt)
    have n: "unat ?n = min (unat sz) (?cs - unat off)"
      using diff by (auto simp: copy_size_def word_less_nat_alt)
    have load: "load_page buf (unat off) (unat ?n) ?s = Some (slice (unat off) (unat ?n) (cluster_bytes fs s x))"
      using Cons.prems(3,5) cs n fat_okD(1) [OF ok, of buf] ok by (intro load_overlay) auto
    have step: "read_clusters fs buf c off sz acc s =
        read_clusters fs buf (fat_entry fs s x) 0 (sz - ?n) (acc @ slice (unat off) (unat ?n) (cluster_bytes fs s x)) ?s"
      using False nx(1,2) clusters_EOC [OF nx(2)] load Cons.prems(4)
      by (subst read_clusters.simps)
        (simp add: read_cluster [OF ok Cons.prems(3)] fat_get [OF ok'] fat_entry_buffer word_gt_0)
    show ?thesis
    proof (cases "sz - ?n = 0")
      case True
      then have "unat ?n = unat sz" using False n by (metis eq_iff_diff_eq_0)
      then have "slice (unat off) (unat sz) (file_bytes fs s (x # xs)) = slice (unat off) (unat ?n) (cluster_bytes fs s x)"
        using n ok by (simp add: file_bytes_def slice_append_left)
      then show ?thesis using True step len by (intro exI [of _ ?pg]) (simp add: read_clusters_zero fun_upd_def)
    next
      case more: False
      have "unat sz \<noteq> unat ?n"
      proof
        assume "unat sz = unat ?n"
        then have "sz = ?n" by (simp only: word_unat_eq_iff)
        then show False using more by simp
      qed
      then have nn: "unat ?n = ?cs - unat off" "?cs - unat off < unat sz" using n by auto
      then have rest: "unat (sz - ?n) = unat sz - (?cs - unat off)" by (simp add: unat_sub word_le_nat_alt)
      have "xs \<noteq> []" using Cons.prems(6) nn(2) ok by (auto simp: file_bytes_def)
      then have nxt: "clusters fs s (fat_entry fs s x) xs" using nx(3) by blast
      have cl: "clusters fs ?s (fat_entry fs s x) xs"
        using nxt Cons.prems(4) clusters_cong [of ?s fs s] by simp
      have fb: "file_bytes fs ?s ys = file_bytes fs s ys" for ys
        by (rule file_bytes_cong) simp
      have b1: "unat (0 :: u32) < ?cs" using fat_okD(8,10) [OF ok] by simp
      have b2: "unat (0 :: u32) + unat (sz - ?n) \<le> length (file_bytes fs ?s xs)"
        using Cons.prems(5,6) rest ok unfolding fb by (simp add: file_bytes_def)
      from Cons.IH [OF ok' cl Cons.prems(3,4) b1 b2] obtain pg where pg: "length pg = 4096"
        "read_clusters fs buf (fat_entry fs s x) 0 (sz - ?n) (acc @ slice (unat off) (unat ?n) (cluster_bytes fs s x)) ?s =
         Some ((acc @ slice (unat off) (unat ?n) (cluster_bytes fs s x)) @ slice 0 (unat (sz - ?n)) (file_bytes fs s xs),
           ?s\<lparr>page := (page ?s)(buf := pg)\<rparr>)"
        by (metis fb unat_0)
      have "slice (unat off) (unat ?n) (cluster_bytes fs s x) @ slice 0 (unat (sz - ?n)) (file_bytes fs s xs) =
          slice (unat off) (unat sz) (file_bytes fs s (x # xs))"
        using slice_across [of "unat off" "cluster_bytes fs s x" "unat sz" "file_bytes fs s xs"] Cons.prems(5) nn rest ok
        by (simp add: file_bytes_def)
      moreover have "?s\<lparr>page := (page ?s)(buf := pg)\<rparr> = s\<lparr>page := (page s)(buf := pg)\<rparr>" by simp
      ultimately show ?thesis using step pg by (intro exI [of _ pg]) (simp only: append_assoc simp_thms)
    qed
  qed
qed

lemma skip_read_spec:
  "fat_ok fs s \<Longrightarrow> clusters fs s c cs \<Longrightarrow> n < length cs \<Longrightarrow>
     \<exists>d. skip_read fs n c s = Some (Some d) \<and> clusters fs s d (drop n cs)"
proof (induction n arbitrary: c cs)
  case 0
  then show ?case by auto
next
  case (Suc n)
  then obtain x xs where cs: "cs = x # xs" by (cases cs) auto
  note nx = next_cases [OF Suc.prems(2) [unfolded cs]]
  have "xs \<noteq> []" using Suc.prems(3) cs by auto
  then have "fat_entry fs s x < EOC" "clusters fs s (fat_entry fs s x) xs" using nx(3) by auto
  with Suc.IH [OF Suc.prems(1) this(2)] Suc.prems(3) nx(1,2) show ?case
    by (auto simp: fat_get [OF Suc.prems(1)] cs)
qed

lemma clusters_distinct: "clusters fs s c cs \<Longrightarrow> distinct cs"
  using chain_distinct by (auto simp: clusters_def)

lemma clusters_length: "clusters fs s c cs \<Longrightarrow> length cs \<le> 1024"
proof -
  assume c: "clusters fs s c cs"
  then have "unat ` set cs \<subseteq> {0..<1024}" by (auto simp: clusters_def word_less_nat_alt)
  then have "card (unat ` set cs) \<le> 1024" by (metis card_atLeastLessThan card_mono diff_zero finite_atLeastLessThan)
  moreover have "card (unat ` set cs) = length cs"
    using clusters_distinct [OF c] card_image [of unat "set cs"]
    by (simp add: distinct_card inj_onI word_unat_eq_iff)
  ultimately show ?thesis by simp
qed

lemma file_bytes_drop:
  assumes "fat_ok fs s"
  shows "file_bytes fs s (drop n cs) = drop (n * unat (cluster_size fs)) (file_bytes fs s cs)"
proof (induction cs arbitrary: n)
  case (Cons x xs)
  then show ?case using assms by (cases n) (simp_all add: file_bytes_def)
qed (simp add: file_bytes_def)

lemma alloc_page_ok:
  assumes "fat_ok fs s" "high_frames (fat_pfa s) \<noteq> {}"
  obtains buf p where "alloc_page s = (buf, s\<lparr>fat_pfa := p\<rparr>)" "buf \<in> high_frames (fat_pfa s)" "buf \<noteq> 0"
    "buf \<noteq> fat_cache fs" "pfa_inv p" "high_frames p = high_frames (fat_pfa s) - {buf}" "high_page buf"
proof -
  note ok = fat_okD [OF assms(1)]
  obtain buf p where a: "pfa_alloc (fat_pfa s) = (buf, p)" by fastforce
  from high.alloc_some [OF ok(3) assms(2)] a have b: "buf \<in> high_frames (fat_pfa s)"
    "high_frames p = high_frames (fat_pfa s) - {buf}" "pfa_inv p" by auto
  moreover have "buf \<noteq> 0" using high.frames_nonzero [OF ok(3)] b(1) by auto
  moreover have "alloc_page s = (buf, s\<lparr>fat_pfa := p\<rparr>)" using a by (simp add: alloc_page_def)
  moreover have "buf \<noteq> fat_cache fs" using b(1) ok(7) by auto
  ultimately show ?thesis using that high_frames_page by blast
qed

lemma fat_ok_pfa:
  "fat_ok fs s \<Longrightarrow> pfa_inv p \<Longrightarrow> fat_cache fs \<notin> high_frames p \<Longrightarrow> fat_ok fs (s\<lparr>fat_pfa := p\<rparr>)"
  by (auto simp: fat_ok_def sys_ok_def disk_healthy_def)

section \<open>A volume for examples\<close>

text \<open>One sector per cluster, the FAT in one sector, and a table in which the clusters 2 and 3 are
  one chain and the others up to 9 are free.  Frames 0 to 7 above 4 GiB are free; the cache is
  frame 8.\<close>

definition fat_table :: "u32 list \<Rightarrow> u8 list" where
  "fat_table tab = concat (map bytes32 tab)"

lemma length_fat_table [simp]: "length (fat_table tab) = 4 * length tab"
  by (induction tab) (simp_all add: fat_table_def)

lemma field32_fat_table: "i < length tab \<Longrightarrow> field32 (4 * i) (fat_table tab) = tab ! i"
proof (induction tab arbitrary: i)
  case (Cons v tab)
  have v: "field32 0 (bytes32 v @ xs) = v" for xs
    using unat_less_power [of v] by (simp add: field32_def slice_def bytes32_def)
  show ?case
  proof (cases i)
    case 0
    then show ?thesis by (simp add: fat_table_def v)
  next
    case (Suc j)
    have "field32 (4 * Suc j) (bytes32 v @ fat_table tab) = field32 (4 * j) (fat_table tab)"
      by (simp add: field32_def slice_def)
    then show ?thesis using Cons Suc by (simp add: fat_table_def)
  qed
qed simp

definition demo_high_pfa :: pfa where
  "demo_high_pfa = \<lparr>low_bits = (\<lambda>_. 0xFF), high_bits = (\<lambda>b. if b = 0 then 0 else 0xFF), low_bitmap_at = 0, bitmap_at = 0,
     bitmap_base = 0x100000000, free_pages_count = 8, total_pages_count = 9, low_free_count = 0, low_total_count = 0,
     next_mmio_addr = 0\<rparr>"

definition demo_vol :: fat32_fs where
  "demo_vol = \<lparr>bs = \<lparr>bytes_per_sector = 512, sectors_per_cluster = 1, reserved_sectors = 1, num_fats = 1,
       total_sectors_32 = 10, fat_size_32 = 1, root_cluster = 2, volume_id = 0x1234ABCD\<rparr>,
     fat_start_sector = 1, data_start_sector = 2, root_dir_cluster = 2, fat_cache = 0x100008000, fat_cache_valid = True\<rparr>"

definition demo_tab :: "u32 list" where
  "demo_tab = [0x0FFFFFF8, 0x0FFFFFFF, 3, 0x0FFFFFFF] @ replicate 1020 0"

definition demo_sys :: fat_sys where
  "demo_sys = \<lparr>fat_pfa = demo_high_pfa,
     page = (\<lambda>a. if a = 0x100008000 then fat_table demo_tab else replicate 4096 0xAA),
     disk = (\<lambda>l. replicate 512 (ucast l)), ahci_ready = True, read_fault = (\<lambda>_ _. None), write_fault = (\<lambda>_ _. None)\<rparr>"

lemma demo_high_free: "free_frames (low_bits demo_high_pfa) = {}" "free_frames (high_bits demo_high_pfa) = {0..<8}"
proof -
  have b: "bit (255 :: u8) (i mod 8)" for i :: nat by (simp only: bit_255 mod_less_divisor zero_less_numeral)
  then show "free_frames (low_bits demo_high_pfa) = {}"
    using b by (simp add: free_frames_def bitmap_is_free_bit demo_high_pfa_def)
  have "bitmap_is_free (high_bits demo_high_pfa) i \<longleftrightarrow> i < 8" for i
  proof (cases "i < 8")
    case True
    then show ?thesis by (simp add: bitmap_is_free_bit demo_high_pfa_def)
  next
    case False
    then show ?thesis using b [of i] by (simp add: bitmap_is_free_bit demo_high_pfa_def div_eq_0_iff)
  qed
  moreover have "i < MAX_PAGES" if "i < 8" for i :: nat
    using that by (simp add: MAX_PAGES_def)
  ultimately show "free_frames (high_bits demo_high_pfa) = {0..<8}"
    by (intro set_eqI) (simp add: free_frames_def conj_absorb, blast)
qed

lemma demo_high_inv: "pfa_inv demo_high_pfa"
  unfolding pfa_inv_def demo_high_free by (simp add: demo_high_pfa_def)

lemma demo_cache_used: "0x100008000 \<notin> high_frames demo_high_pfa"
proof
  assume "0x100008000 \<in> high_frames demo_high_pfa"
  then obtain i where i: "i < 8" "0x100008000 = 0x100000000 + of_nat i * PAGE_SIZE"
    by (auto simp: high_frames_def demo_high_free)
  then have "unat (0x100008000 :: u64) = 4294967296 + i * 4096"
    using unat_high_frame [of i] by (simp add: MAX_PAGES_def)
  with i(1) show False by simp
qed

lemma demo_high_some: "high_frames demo_high_pfa \<noteq> {}"
  by (simp add: high_frames_def demo_high_free)

lemma demo_vol_ok: "fat_ok demo_vol demo_sys"
  using demo_high_inv demo_cache_used
  by (auto simp: fat_ok_def sys_ok_def disk_healthy_def demo_sys_def demo_vol_def demo_tab_def)

lemma demo_entry_at: "unat c < 1024 \<Longrightarrow> fat_entry demo_vol demo_sys c = demo_tab ! unat c AND 0x0FFFFFFF"
  by (simp add: fat_entry_def demo_vol_def demo_sys_def field32_fat_table demo_tab_def)

lemma demo_clusters: "clusters demo_vol demo_sys 2 [2, 3]"
  by (simp add: clusters_def fat_next_def demo_entry_at demo_tab_def nth_append nth_Cons' EOC_def)

definition demo_node :: fat_node where
  "demo_node = \<lparr>n_at = 0x100009000, n_data = 0x10000A000, n_name = [0x61], n_size = 524, n_flags = 1,
     first_cluster = 2, parent_cluster = 2\<rparr>"

section \<open>Properties\<close>

text \<open>C20. Reading a file returns the part of its bytes, the contents of its clusters in the order
  of the chain, that the file size allows; the disk is unchanged and the buffer page is free again.\<close>

theorem fat32_read_returns_section:
  assumes "fat_ok fs s" "high_frames (fat_pfa s) \<noteq> {}" "n_data node \<noteq> 0"
    and "clusters fs s (first_cluster node) cs" "unat (n_size node) \<le> length (file_bytes fs s cs)"
  shows "\<exists>s'. fat32_read fs node off sz s =
      Some (int (min (unat sz) (unat (n_size node) - unat off)),
            slice (unat off) (min (unat sz) (unat (n_size node) - unat off)) (file_bytes fs s cs), s')
    \<and> disk s' = disk s \<and> high_frames (fat_pfa s') = high_frames (fat_pfa s)"
proof (cases "ucast (n_size node) \<le> off")
  case True
  then have "unat (n_size node) \<le> unat off" by (simp add: word_le_nat_alt unat_ucast_up)
  then show ?thesis using True assms(3) by (simp add: fat32_read_def slice_def)
next
  case False
  note ok = fat_okD [OF assms(1)]
  let ?cs = "unat (cluster_size fs)"
  let ?sz = "if off + ucast sz > ucast (n_size node) then ucast (ucast (n_size node) - off) else sz"
  have off: "unat off < unat (n_size node)" using False by (simp add: word_le_nat_alt unat_ucast_up)
  have s32: "unat sz < 2 ^ 32" "unat (n_size node) < 2 ^ 32" using unat_less_power [of sz] unat_less_power [of "n_size node"] by simp_all
  have sum: "unat (off + ucast sz) = unat off + unat sz"
    using off s32 by (simp add: unat_word_ariths unat_ucast_up)
  have diff: "unat (ucast (n_size node) - off) = unat (n_size node) - unat off"
    using off by (simp add: unat_sub word_le_nat_alt unat_ucast_up)
  then have sz: "unat ?sz = min (unat sz) (unat (n_size node) - unat off)"
    using s32 sum by (auto simp: word_less_nat_alt unat_ucast_up unat_ucast_small)
  have lcs: "length cs * ?cs \<le> 1024 * 4096"
    using clusters_length [OF assms(4)] ok(9,10) by (intro mult_le_mono) auto
  have len: "unat (n_size node) \<le> length cs * ?cs" using assms(1,5) by (simp add: length_file_bytes)
  have cs0: "0 < ?cs" using ok(8,10) by simp
  have q: "unat (ucast (off div ucast (cluster_size fs)) :: u32) = unat off div ?cs"
  proof -
    have d: "unat (off div ucast (cluster_size fs)) = unat off div ?cs" by (simp add: unat_div unat_ucast_up)
    moreover have "unat off div ?cs \<le> unat off" by simp
    ultimately have "unat (off div ucast (cluster_size fs)) < 2 ^ 32" using off s32(2) by linarith
    then have "unat (ucast (off div ucast (cluster_size fs)) :: u32) = unat (off div ucast (cluster_size fs))"
      by (intro unat_ucast_small) simp
    then show ?thesis using d by simp
  qed
  have r: "unat (ucast (off mod ucast (cluster_size fs)) :: u32) = unat off mod ?cs"
  proof -
    have m: "unat (off mod ucast (cluster_size fs)) = unat off mod ?cs" by (simp add: unat_mod unat_ucast_up)
    moreover have "unat off mod ?cs \<le> unat off" by simp
    ultimately have "unat (off mod ucast (cluster_size fs)) < 2 ^ 32" using off s32(2) by linarith
    then have "unat (ucast (off mod ucast (cluster_size fs)) :: u32) = unat (off mod ucast (cluster_size fs))"
      by (intro unat_ucast_small) simp
    then show ?thesis using m by simp
  qed
  have "unat off div ?cs < length cs" using off len cs0 by (simp add: less_mult_imp_div_less)
  then obtain d where d: "skip_read fs (unat off div ?cs) (first_cluster node) s = Some (Some d)"
    "clusters fs s d (drop (unat off div ?cs) cs)" using skip_read_spec [OF assms(1,4)] by blast
  obtain buf p where b: "alloc_page s = (buf, s\<lparr>fat_pfa := p\<rparr>)" "buf \<in> high_frames (fat_pfa s)" "buf \<noteq> 0"
    "buf \<noteq> fat_cache fs" "pfa_inv p" "high_frames p = high_frames (fat_pfa s) - {buf}" "high_page buf"
    by (rule alloc_page_ok [OF assms(1,2)])
  let ?s = "s\<lparr>fat_pfa := p\<rparr>"
  let ?off = "ucast (off mod ucast (cluster_size fs)) :: u32"
  have ok': "fat_ok fs ?s" using assms(1) b(5,6) ok(7) by (intro fat_ok_pfa) auto
  have fb: "file_bytes fs ?s xs = file_bytes fs s xs" for xs by (rule file_bytes_cong) simp
  have dd: "clusters fs ?s d (drop (unat off div ?cs) cs)"
    using d(2) clusters_cong [of ?s fs s] by simp
  have fd: "file_bytes fs s (drop (unat off div ?cs) cs) = drop (unat off div ?cs * ?cs) (file_bytes fs s cs)"
    by (rule file_bytes_drop [OF assms(1)])
  have tot: "unat off div ?cs * ?cs + unat off mod ?cs = unat off" by simp
  have b2: "unat ?off + unat ?sz \<le> length (file_bytes fs ?s (drop (unat off div ?cs) cs))"
  proof -
    have "length (file_bytes fs ?s (drop (unat off div ?cs) cs)) = length cs * ?cs - unat off div ?cs * ?cs"
      unfolding fb fd by (simp add: length_file_bytes [OF assms(1)])
    moreover have "min (unat sz) (unat (n_size node) - unat off) \<le> unat (n_size node) - unat off" by simp
    ultimately show ?thesis using len off tot unfolding r sz by linarith
  qed
  have b1: "unat ?off < ?cs" using cs0 by (simp add: r)
  from read_clusters_spec [OF ok' dd b(3,4) b1 b2, of "[]"] obtain pg where pg:
    "read_clusters fs buf d ?off ?sz [] ?s =
     Some (slice (unat ?off) (unat ?sz) (file_bytes fs s (drop (unat off div ?cs) cs)), ?s\<lparr>page := (page ?s)(buf := pg)\<rparr>)"
    by (auto simp: fb)
  have sl: "slice (unat ?off) (unat ?sz) (file_bytes fs s (drop (unat off div ?cs) cs)) =
      slice (unat off) (unat ?sz) (file_bytes fs s cs)"
    unfolding fd r slice_def drop_drop by (simp add: add.commute tot)
  have ll: "length (slice (unat off) (unat ?sz) (file_bytes fs s cs)) = unat ?sz"
    using off len unfolding sz by (intro length_slice) (simp add: length_file_bytes [OF assms(1)])
  have "unat ?sz < 2 ^ 31" using len lcs unfolding sz by simp
  then have si: "sint (of_nat (unat ?sz) :: u32) = int (unat ?sz)"
    by (rule sint_of_small)
  have "cluster_size fs \<noteq> 0" using cs0 by (metis unat_0 less_numeral_extra(3))
  then have "fat32_read fs node off sz s = Some (int (unat ?sz), slice (unat off) (unat ?sz) (file_bytes fs s cs),
      free_page buf (?s\<lparr>page := (page ?s)(buf := pg)\<rparr>))"
    using False assms(3) d(1) pg unfolding fat32_read_def Let_def q
    by (simp only: if_False b(1) prod.case sl ll si bind.bind_lunit option.case)
  moreover have "high_frames (pfa_free p buf) = high_frames (fat_pfa s)"
    using pfa_free_high_step(2) [OF b(5,7)] b(2,6) by auto
  ultimately show ?thesis using sz by (auto simp: free_page_def)
qed

theorem fat32_read_returns_section_witness:
  "\<exists>s'. fat32_read demo_vol demo_node 500 100 demo_sys =
      Some (24, slice 500 24 (file_bytes demo_vol demo_sys [2, 3]), s')
    \<and> disk s' = disk demo_sys \<and> high_frames (fat_pfa s') = high_frames demo_high_pfa"
proof -
  have "length (file_bytes demo_vol demo_sys [2, 3]) = 1024"
    by (simp add: length_file_bytes [OF demo_vol_ok]) (simp add: demo_vol_def cluster_size_def spc_def)
  moreover have "fat_pfa demo_sys = demo_high_pfa" by (simp add: demo_sys_def)
  ultimately show ?thesis
    using fat32_read_returns_section [OF demo_vol_ok, of demo_node "[2, 3]" 500 100] demo_high_some demo_clusters
    by (simp add: demo_node_def)
qed

end
