(* ===== verification/FatExtend.thy ===== *)
theory FatExtend
  imports FatChains
begin

text \<open>
  Allocation in the FAT: \<open>fat32_alloc_cluster\<close> takes the lowest free cluster and
  \<open>fat32_extend_chain\<close> appends it to one chain, leaves every other chain alone and keeps the FAT
  on the disk equal to the cached one.  When the FAT has more sectors than the cached page, the
  transfer reads memory beyond the page.
\<close>

section \<open>Entries\<close>

lemma fat_value_bits: "(x AND 0xF0000000 OR v AND 0x0FFFFFFF) AND 0x0FFFFFFF = v AND 0x0FFFFFFF" for x v :: u32
proof -
  have "(x AND 0xF0000000) AND 0x0FFFFFFF = 0" by (simp add: and.assoc)
  then show ?thesis by (simp add: bit.conj_disj_distrib2 and.assoc)
qed

lemma fat_set:
  assumes "fat_ok fs s" "c < 1024"
  obtains pg where "fat32_set_fat_entry fs c v s = Some (s\<lparr>page := (page s)(fat_cache fs := pg)\<rparr>)" "length pg = 4096"
    "\<And>d. d < 1024 \<Longrightarrow> fat_entry fs (s\<lparr>page := (page s)(fat_cache fs := pg)\<rparr>) d =
        (if d = c then v AND 0x0FFFFFFF else fat_entry fs s d)"
proof -
  note ok = fat_okD [OF assms(1)]
  let ?old = "page s (fat_cache fs)"
  let ?v = "field32 (4 * unat c) ?old AND 0xF0000000 OR v AND 0x0FFFFFFF"
  let ?pg = "overlay (4 * unat c) (bytes32 ?v) ?old"
  have c: "unat c < 1024" using assms(2) by (simp add: word_less_nat_alt)
  have len: "length ?pg = 4096" using c ok(1) by simp
  have ent: "fat_entry fs (s\<lparr>page := (page s)(fat_cache fs := ?pg)\<rparr>) d = field32 (4 * unat d) ?pg AND 0x0FFFFFFF" for d
    by (simp add: fat_entry_def)
  have "fat_entry fs (s\<lparr>page := (page s)(fat_cache fs := ?pg)\<rparr>) d =
      (if d = c then v AND 0x0FFFFFFF else fat_entry fs s d)" if "d < 1024" for d
  proof (cases "d = c")
    case True
    have "field32 (4 * unat c) ?pg = ?v" using c ok(1) by (intro field32_overlay) simp
    then show ?thesis using ent [of c] True fat_value_bits by (simp only: if_True simp_thms)
  next
    case False
    then have "unat d \<noteq> unat c" by (simp add: word_unat_eq_iff)
    then have "field32 (4 * unat d) ?pg = field32 (4 * unat d) ?old"
      using c that ok(1) by (intro field32_overlay_other) (auto simp: word_less_nat_alt)
    then show ?thesis using False ent [of d] by (simp only: fat_entry_def if_False)
  qed
  moreover have "fat32_set_fat_entry fs c v s = Some (s\<lparr>page := (page s)(fat_cache fs := ?pg)\<rparr>)"
    using c ok(5) by (simp add: fat32_set_fat_entry_def)
  ultimately show ?thesis using that [of ?pg] len by blast
qed

text \<open>The FAT on the disk is the cached one.\<close>

definition fat_synced :: "fat32_fs \<Rightarrow> fat_sys \<Rightarrow> bool" where
  "fat_synced fs s \<longleftrightarrow>
     (\<forall>k \<in> {0..<unat (fat_size_32 (bs fs))}.
        disk s (ucast (fat_start_sector fs) + of_nat k) = slice (512 * k) 512 (page s (fat_cache fs)))"

lemma fat_write:
  assumes "fat_ok fs s" "1 \<le> fat_size_32 (bs fs)" "fat_size_32 (bs fs) \<le> 8"
  obtains d where "write_fat fs s = Some (0, s\<lparr>disk := d\<rparr>)" "fat_synced fs (s\<lparr>disk := d\<rparr>)"
    "fat_ok fs (s\<lparr>disk := d\<rparr>)"
proof -
  note ok = fat_okD [OF assms(1)]
  let ?n = "unat (fat_size_32 (bs fs))"
  let ?lba = "ucast (fat_start_sector fs) :: u64"
  let ?d = "\<lambda>l. if unat (l - ?lba) < ?n then slice (512 * unat (l - ?lba)) 512 (page s (fat_cache fs)) else disk s l"
  have n: "?n \<le> 8" "fat_size_32 (bs fs) \<noteq> 0" using assms(2,3) by (auto simp: word_le_nat_alt)
  have "write_fat fs s = Some (0, s\<lparr>disk := ?d\<rparr>)"
    using n assms(3) ok(4,6,12) by (simp add: write_fat_def ahci_write_sectors_def not_less)
  moreover have "fat_synced fs (s\<lparr>disk := ?d\<rparr>)"
  proof -
    have "unat (of_nat k :: u64) = k" if "k < ?n" for k using that n(1) by (intro unat_of_nat_small) simp
    then show ?thesis by (simp add: fat_synced_def)
  qed
  moreover have "length (?d l) = 512" for l using n(1) ok(1,2) by auto
  then have "fat_ok fs (s\<lparr>disk := ?d\<rparr>)" using assms(1) by (auto simp: fat_ok_def sys_ok_def disk_healthy_def)
  ultimately show ?thesis using that by blast
qed

lemma fat_entry_disk: "fat_entry fs (s\<lparr>disk := d\<rparr>) c = fat_entry fs s c"
  by (simp add: fat_entry_def)

text \<open>Setting one entry and writing the FAT.\<close>

lemma fat_set_write:
  assumes "fat_ok fs s" "c < 1024" "1 \<le> fat_size_32 (bs fs)" "fat_size_32 (bs fs) \<le> 8"
  obtains t s' where "fat32_set_fat_entry fs c v s = Some t" "write_fat fs t = Some (0, s')"
    "fat_ok fs s'" "fat_synced fs s'" "fat_pfa s' = fat_pfa s"
    "\<And>d. d < 1024 \<Longrightarrow> fat_entry fs s' d = (if d = c then v AND 0x0FFFFFFF else fat_entry fs s d)"
proof -
  obtain pg where pg: "fat32_set_fat_entry fs c v s = Some (s\<lparr>page := (page s)(fat_cache fs := pg)\<rparr>)" "length pg = 4096"
    "\<And>d. d < 1024 \<Longrightarrow> fat_entry fs (s\<lparr>page := (page s)(fat_cache fs := pg)\<rparr>) d =
        (if d = c then v AND 0x0FFFFFFF else fat_entry fs s d)" using fat_set [OF assms(1,2)] by blast
  let ?t = "s\<lparr>page := (page s)(fat_cache fs := pg)\<rparr>"
  obtain d where d: "write_fat fs ?t = Some (0, ?t\<lparr>disk := d\<rparr>)" "fat_synced fs (?t\<lparr>disk := d\<rparr>)" "fat_ok fs (?t\<lparr>disk := d\<rparr>)"
    by (rule fat_write [OF fat_ok_buffer [OF assms(1) pg(2)] assms(3,4)])
  then show ?thesis using that [OF pg(1) d(1,3,2)] pg(3) by (simp add: fat_entry_disk)
qed

section \<open>The lowest free cluster\<close>

lemma alloc_scan_lowest:
  assumes "fat_ok fs s" "total_clusters \<le> 1024" "i \<le> f" "f < total_clusters" "fat_entry fs s f = 0"
    "\<And>d. i \<le> d \<Longrightarrow> d < f \<Longrightarrow> fat_entry fs s d \<noteq> 0"
  shows "alloc_scan fs total_clusters i s =
    do { s \<leftarrow> fat32_set_fat_entry fs f 0x0FFFFFFF s; (r, s) \<leftarrow> write_fat fs s; Some (if r \<noteq> 0 then 0 else f, s) }"
  using assms
proof (induction "unat f - unat i" arbitrary: i)
  case 0
  then have i: "i = f" by (simp add: word_le_nat_alt word_unat_eq_iff)
  show ?case unfolding i using 0 by (subst alloc_scan.simps) (simp add: fat_get)
next
  case (Suc n)
  then have "i < f" by (metis diff_self_eq_0 nat.distinct(1) order_le_less)
  then have i: "i < total_clusters" "i < 1024" "unat (i + 1) = Suc (unat i)" "i + 1 \<le> f"
    using Suc.prems(2,4) by (auto simp: unat_Suc_below inc_le)
  have "alloc_scan fs total_clusters i s = alloc_scan fs total_clusters (i + 1) s"
    using Suc.prems(6) [of i] \<open>i < f\<close> i fat_get [OF Suc.prems(1) i(2)] by (subst alloc_scan.simps) simp
  moreover have "d \<ge> i" if "i + 1 \<le> d" for d
    using that i(3) by (simp add: word_le_nat_alt)
  ultimately show ?case using Suc.hyps(1) [of "i + 1"] Suc.hyps(2) Suc.prems i(3,4) by simp
qed

lemma clusters_nonzero:
  "clusters fs s c cs \<Longrightarrow> x \<in> set cs \<Longrightarrow> fat_entry fs s x \<noteq> 0"
proof (induction cs arbitrary: c)
  case (Cons y ys)
  note nx = next_cases [OF Cons.prems(1)]
  show ?case
  proof (cases "x = y")
    case True
    show ?thesis
    proof (cases "fat_entry fs s y < EOC \<and> clusters fs s (fat_entry fs s y) ys")
      case t: True
      then have "chain (fat_next fs s) (Some (fat_entry fs s y)) ys" by (simp add: clusters_def)
      then have "fat_entry fs s y \<in> set ys" by (auto simp: chain_Some)
      then have "2 \<le> fat_entry fs s y" using t by (auto simp: clusters_def)
      then show ?thesis using True by auto
    next
      case False
      then have "EOC \<le> fat_entry fs s y" using nx(3) by blast
      then show ?thesis using True by (auto simp: EOC_def)
    qed
  next
    case False
    then have "x \<in> set ys" using Cons.prems(2) by simp
    moreover from this have "clusters fs s (fat_entry fs s y) ys" using nx(3) by auto
    ultimately show ?thesis using Cons.IH by blast
  qed
qed simp

text \<open>Larger volumes: with more than 8 sectors of FAT the transfer back to the disk leaves the cached
  page, and with more than 8 sectors per cluster every cluster transfer leaves its buffer.\<close>

lemma alloc_beyond_cache:
  assumes "fat_ok fs s" "8 < fat_size_32 (bs fs)" "total_sectors_32 (bs fs) div spc fs \<le> 1024"
    and "2 \<le> f" "f < total_sectors_32 (bs fs) div spc fs" "fat_entry fs s f = 0"
    and "\<And>d. 2 \<le> d \<Longrightarrow> d < f \<Longrightarrow> fat_entry fs s d \<noteq> 0"
  shows "fat32_alloc_cluster fs s = None"
proof -
  note ok = fat_okD [OF assms(1)]
  have f: "f < 1024" using assms(3,5) by (rule order.strict_trans2 [rotated])
  obtain pg where "fat32_set_fat_entry fs f 0x0FFFFFFF s = Some (s\<lparr>page := (page s)(fat_cache fs := pg)\<rparr>)"
    using fat_set [OF assms(1) f] by metis
  moreover have "sectors_per_cluster (bs fs) \<noteq> 0" using assms(1) by (auto simp: fat_ok_def)
  ultimately show ?thesis
    using alloc_scan_lowest [OF assms(1,3,4,5,6,7)] assms(2) ok(4,5)
    by (simp add: fat32_alloc_cluster_def write_fat_def ahci_write_sectors_def)
qed

lemma read_cluster_beyond_page:
  "ahci_ready s \<Longrightarrow> 8 < spc fs \<Longrightarrow> fat32_read_cluster fs c buf s = None"
  by (simp add: fat32_read_cluster_def ahci_read_sectors_def)

section \<open>Properties\<close>

text \<open>C21. Extending a chain takes the lowest free cluster of the volume, appends it to the chain
  as its end, leaves every chain that shares no cluster with it as it was, and writes the new FAT
  to the disk.\<close>

theorem fat32_extend_chain_appends:
  assumes "fat_ok fs s" "clusters fs s c cs" "1 \<le> fat_size_32 (bs fs)" "fat_size_32 (bs fs) \<le> 8"
    and "total_sectors_32 (bs fs) div spc fs \<le> 1024" "2 \<le> f" "f < total_sectors_32 (bs fs) div spc fs"
    and "fat_entry fs s f = 0" "\<forall>d. 2 \<le> d \<and> d < f \<longrightarrow> fat_entry fs s d \<noteq> 0"
  shows "\<exists>s'. fat32_extend_chain fs (last cs) s = Some (f, s') \<and> clusters fs s' c (cs @ [f])
    \<and> (\<forall>d ds. clusters fs s d ds \<and> set ds \<inter> set cs = {} \<longrightarrow> clusters fs s' d ds)
    \<and> fat_synced fs s' \<and> fat_ok fs s' \<and> fat_pfa s' = fat_pfa s"
proof -
  note ok = fat_okD [OF assms(1)]
  have f: "f < 1024" using assms(5,7) by (rule order.strict_trans2 [rotated])
  obtain as l where cs: "cs = as @ [l]" using assms(2) by (cases cs rule: rev_cases) (auto simp: clusters_def)
  have l: "l < 1024" "last cs = l" using assms(2) cs by (auto simp: clusters_def)
  have fresh: "f \<notin> set ds" if "clusters fs s d ds" for d ds
    using clusters_nonzero [OF that] assms(8) by blast
  obtain t1 s1 where 1: "fat32_set_fat_entry fs f 0x0FFFFFFF s = Some t1" "write_fat fs t1 = Some (0, s1)"
    "fat_ok fs s1" "fat_synced fs s1" "fat_pfa s1 = fat_pfa s"
    "\<And>d. d < 1024 \<Longrightarrow> fat_entry fs s1 d = (if d = f then 0x0FFFFFFF AND 0x0FFFFFFF else fat_entry fs s d)"
    using fat_set_write [OF assms(1) f assms(3,4), where v = "0x0FFFFFFF"] by metis
  obtain t2 s2 where 2: "fat32_set_fat_entry fs l f s1 = Some t2" "write_fat fs t2 = Some (0, s2)"
    "fat_ok fs s2" "fat_synced fs s2" "fat_pfa s2 = fat_pfa s1"
    "\<And>d. d < 1024 \<Longrightarrow> fat_entry fs s2 d = (if d = l then f AND 0x0FFFFFFF else fat_entry fs s1 d)"
    using fat_set_write [OF 1(3) l(1) assms(3,4), where v = f] by metis
  have "sectors_per_cluster (bs fs) \<noteq> 0" using assms(1) by (auto simp: fat_ok_def)
  then have "fat32_alloc_cluster fs s = Some (f, s1)"
    using alloc_scan_lowest [OF assms(1,5,6,7,8)] assms(9) ok(5) 1(1,2) by (simp add: fat32_alloc_cluster_def)
  moreover have "f \<noteq> 0" using assms(6) by auto
  ultimately have ext: "fat32_extend_chain fs (last cs) s = Some (f, s2)"
    using 2(1,2) l(2) by (simp add: fat32_extend_chain_def)
  have "f AND 0x0FFFFFFF = f"
  proof -
    have "take_bit 28 f = f" using f by (simp add: take_bit_eq_mod word_unat_eq_iff unat_mod word_less_nat_alt)
    moreover have "(0x0FFFFFFF :: u32) = mask 28" by (simp add: mask_eq_exp_minus_1)
    ultimately show ?thesis by (simp only: take_bit_eq_mask)
  qed
  moreover have "l \<noteq> f" using fresh [OF assms(2)] cs by auto
  ultimately have e: "fat_entry fs s2 d = (if d = l then f else if d = f then 0x0FFFFFFF else fat_entry fs s d)"
    if "d < 1024" for d
    using 1(6) [OF that] 2(6) [OF that] by simp
  have nxt: "fat_next fs s2 d = ((fat_next fs s)(f := fat_next fs s l, l := Some f)) d" if "d < 1024" for d
  proof -
    have "chain (fat_next fs s) (fat_next fs s l) []"
      using assms(2) by (auto simp: clusters_def cs seg_append)
    then have "fat_next fs s l = None" by simp
    then show ?thesis using e [OF that] clusters_EOC [OF f] by (auto simp: fat_next_def EOC_def)
  qed
  have "chain (fat_next fs s2) (Some c) (as @ l # [f])"
  proof -
    have c: "chain (fat_next fs s) (Some c) (as @ l # [])" using assms(2) cs by (simp add: clusters_def)
    have "chain ((fat_next fs s)(f := fat_next fs s l, l := Some f)) (Some c) (as @ l # f # [])"
      using fresh [OF assms(2)] cs by (intro chain_insert_after [OF c]) simp
    moreover have "\<And>x. x \<in> set (as @ l # [f]) \<Longrightarrow> x < 1024" using assms(2) cs f by (auto simp: clusters_def)
    ultimately show ?thesis using seg_cong [of "as @ l # [f]" "fat_next fs s2"] nxt by metis
  qed
  then have "clusters fs s2 c (cs @ [f])" using assms(2,6) cs f by (auto simp: clusters_def)
  moreover have "clusters fs s2 d ds" if "clusters fs s d ds \<and> set ds \<inter> set cs = {}" for d ds
  proof -
    have "fat_next fs s2 x = fat_next fs s x" if "x \<in> set ds" for x
      using that \<open>clusters fs s d ds \<and> set ds \<inter> set cs = {}\<close> fresh [of d ds] nxt [of x] cs
      by (auto simp: clusters_def)
    from seg_cong [OF this] show ?thesis using that by (auto simp: clusters_def)
  qed
  ultimately show ?thesis using ext 1(5) 2(3,4,5) by auto
qed

theorem fat32_extend_chain_appends_witness:
  "\<exists>s'. fat32_extend_chain demo_vol 3 demo_sys = Some (4, s') \<and> clusters demo_vol s' 2 [2, 3, 4]"
proof -
  have z: "fat_entry demo_vol demo_sys 4 = 0" by (simp add: demo_entry_at demo_tab_def nth_append)
  have "fat_entry demo_vol demo_sys d \<noteq> 0" if "2 \<le> d \<and> d < 4" for d
  proof -
    have "unat d = 2 \<or> unat d = 3" using that by (auto simp: word_le_nat_alt word_less_nat_alt)
    then show ?thesis by (auto simp: demo_entry_at demo_tab_def nth_append nth_Cons')
  qed
  then show ?thesis
    using fat32_extend_chain_appends [OF demo_vol_ok demo_clusters, of 4] z
    by (auto simp: demo_vol_def spc_def)
qed

end
