(* ===== verification/FatNameProps.thy ===== *)
theory FatNameProps
  imports Fat32Dir
begin

text \<open>
  Names written to a FAT directory are read back: the 8.3 form of a short name, and a long name
  through its directory entries.
\<close>

section \<open>Characters\<close>

lemma u8_signed: "uint c = (if sint c < 0 then sint c + 256 else sint c)" for c :: u8
proof -
  have b: "- 128 \<le> sint c" "sint c < 128" using sint_greater_eq [of c] sint_less [of c] by simp_all
  have "(sint c + 256) mod 256 = sint c + 256" if "sint c < 0"
    using that b(1) by (intro mod_pos_pos_trivial) simp_all
  moreover have "sint c mod 256 = sint c" if "\<not> sint c < 0"
    using that b(2) by (intro mod_pos_pos_trivial) simp_all
  ultimately show ?thesis using uint_sint [of c] by (simp add: take_bit_eq_mod)
qed

text \<open>A range of ASCII characters is the same for signed and unsigned bytes.\<close>

lemma ascii_range: "lo \<le> 127 \<Longrightarrow> hi \<le> 127 \<Longrightarrow> lo \<le>s c \<and> c \<le>s hi \<longleftrightarrow> lo \<le> c \<and> c \<le> hi" for lo hi c :: u8
  using u8_signed [of c] u8_signed [of lo] u8_signed [of hi] sint_less [of c] sint_less [of hi]
    sint_greater_eq [of c] sint_greater_eq [of lo] sint_greater_eq [of hi] unsigned_greater_eq [of c]
  by (auto simp: word_sle_eq word_le_def split: if_splits)

lemma upper_alt: "upper c = (if 0x61 \<le> c \<and> c \<le> 0x7A then c - 32 else c)"
  using ascii_range [of 97 122 c] by (simp add: upper_def)

lemma lower_alt: "lower c = (if 0x41 \<le> c \<and> c \<le> 0x5A then c + 32 else c)"
  using ascii_range [of 65 90 c] by (simp add: lower_def)

lemma unat_upper: "unat (upper c) = (if 0x61 \<le> unat c \<and> unat c \<le> 0x7A then unat c - 32 else unat c)"
  by (auto simp: upper_alt word_le_nat_alt unat_sub)

lemma unat_lower: "unat (lower c) = (if 0x41 \<le> unat c \<and> unat c \<le> 0x5A then unat c + 32 else unat c)"
  by (auto simp: lower_alt word_le_nat_alt unat_word_ariths)

lemma upper_lower [simp]: "upper (lower c) = upper c" "lower (upper c) = lower c"
  by (auto simp: word_unat_eq_iff unat_upper unat_lower)

lemma upper_neq:
  "c \<noteq> 0 \<Longrightarrow> upper c \<noteq> 0" "c \<noteq> 0x20 \<Longrightarrow> upper c \<noteq> 0x20" "c \<noteq> 0x2E \<Longrightarrow> upper c \<noteq> 0x2E"
  "c \<noteq> 0 \<Longrightarrow> lower c \<noteq> 0"
  by (auto simp: word_unat_eq_iff unat_upper unat_lower split: if_splits)

lemma strcasecmp_upper: "map upper s = map upper t \<Longrightarrow> my_strcasecmp s t = 0"
  by (induction s t rule: my_strcasecmp.induct) (auto simp: char_or_nul_def)

section \<open>Short names\<close>

definition plain :: "u8 list \<Rightarrow> bool" where
  "plain s \<longleftrightarrow> (\<forall>c \<in> set s. c \<noteq> 0 \<and> c \<noteq> 0x20 \<and> c \<noteq> 0x2E)"

definition dotted :: "u8 list \<Rightarrow> u8 list \<Rightarrow> u8 list" where
  "dotted base ext = base @ (if ext = [] then [] else 0x2E # ext)"

lemma length_pad [simp]: "length s \<le> n \<Longrightarrow> length (pad n s) = n"
  by (simp add: pad_def)

lemma takeWhile_pad: "plain s \<Longrightarrow> takeWhile (\<lambda>c. c \<noteq> 0x20) (pad n (map upper s)) = map upper s"
proof -
  assume "plain s"
  then have "takeWhile (\<lambda>c. c \<noteq> 0x20) (map upper s @ r) = map upper s @ takeWhile (\<lambda>c. c \<noteq> 0x20) r" for r
    by (intro takeWhile_append2) (auto simp: plain_def upper_neq)
  moreover have "takeWhile (\<lambda>c. c \<noteq> 0x20) (replicate m (0x20 :: u8)) = []" for m by (cases m) simp_all
  ultimately show ?thesis by (simp add: pad_def)
qed

lemma takeWhile_plain: "plain base \<Longrightarrow> takeWhile (\<lambda>c. c \<noteq> 0x2E) (dotted base ext) = base"
  by (auto simp: dotted_def plain_def)

lemma dropWhile_plain: "plain base \<Longrightarrow> drop 1 (dropWhile (\<lambda>c. c \<noteq> 0x2E) (dotted base ext)) = ext"
  by (auto simp: dotted_def plain_def)

lemma normal_of_padded:
  assumes "length b = 8" "length e = 3"
  shows "fat32_to_normal_name (b @ e @ rest) =
    takeWhile (\<lambda>c. c \<noteq> 0) (map lower (takeWhile (\<lambda>c. c \<noteq> 0x20) b) @
      (if hd e \<noteq> 0x20 then 0x2E # map lower (takeWhile (\<lambda>c. c \<noteq> 0x20) e) else []))"
  using assms by (cases e) (simp_all add: fat32_to_normal_name_def slice_def nth_append)

section \<open>Directory entries\<close>

lemma length_short_name [simp]: "length (short_name name) = 11"
  by (auto simp: short_name_def make_short_name_def fat32_to_fat_name_def Let_def)

lemma bytes16_list: "bytes16 v = [of_nat (unat v), of_nat (unat v div 256)]"
  by (simp add: bytes16_def numeral_2_eq_2)

lemma field16_list: "of_nat (le_value [of_nat (unat v), of_nat (unat v div 256)]) = v" for v :: u16
  using field16_bytes [of v "[]"] by (simp add: field16_def slice_def bytes16_list)

lemma dir_entry_fields:
  assumes "length nm = 11"
  shows "length (dir_entry nm attr c) = 32" "e_attr (dir_entry nm attr c) = attr"
    "e_first_cluster (dir_entry nm attr c) = c" "e_size (dir_entry nm attr c) = 0"
    "take 11 (dir_entry nm attr c) = nm" "dir_entry nm attr c ! 0 = nm ! 0"
proof -
  show "length (dir_entry nm attr c) = 32" using assms by (simp add: dir_entry_def)
  show "e_attr (dir_entry nm attr c) = attr" using assms by (simp add: dir_entry_def e_attr_def nth_append)
  show "take 11 (dir_entry nm attr c) = nm" "dir_entry nm attr c ! 0 = nm ! 0"
    using assms by (simp_all add: dir_entry_def nth_append)
  have "slice 28 4 (dir_entry nm attr c) = replicate 4 0"
    using assms by (simp add: dir_entry_def slice_def)
  then show "e_size (dir_entry nm attr c) = 0" by (simp add: e_size_def field32_def numeral_eq_Suc)
  have "slice 20 2 (dir_entry nm attr c) = bytes16 (ucast (drop_bit 16 c AND 0xFFFF))"
    "slice 26 2 (dir_entry nm attr c) = bytes16 (ucast (c AND 0xFFFF))"
    using assms by (simp_all add: dir_entry_def slice_def)
  then have "field16 20 (dir_entry nm attr c) = ucast (drop_bit 16 c AND 0xFFFF)"
    "field16 26 (dir_entry nm attr c) = ucast (c AND 0xFFFF)"
    by (simp_all only: field16_def bytes16_list field16_list)
  moreover have "push_bit 16 (ucast (ucast (drop_bit 16 c AND 0xFFFF) :: u16)) OR ucast (ucast (c AND 0xFFFF) :: u16) = c"
  proof -
    have m: "(0xFFFF :: u32) = mask 16" by (simp add: mask_eq_exp_minus_1)
    show ?thesis unfolding m by (rule bit_word_eqI) (auto simp: bit_simps)
  qed
  ultimately show "e_first_cluster (dir_entry nm attr c) = c" by (simp add: e_first_cluster_def)
qed

section \<open>Long names\<close>

text \<open>A long name as the code can store it: ASCII, at most 19 entries of 13 characters.\<close>

definition long_name :: "u8 list \<Rightarrow> bool" where
  "long_name name \<longleftrightarrow> is_lfn name \<and> length name \<le> 247 \<and> (\<forall>c \<in> set name. 0 < c \<and> c < 0x80)"

lemma lfn_count_bounds:
  assumes "long_name name"
  shows "1 \<le> lfn_count name" "lfn_count name \<le> 19" "length name \<le> 13 * lfn_count name"
proof -
  have "1 \<le> length name" using assms by (auto simp: long_name_def is_lfn_def)
  then show "1 \<le> lfn_count name" "lfn_count name \<le> 19" "length name \<le> 13 * lfn_count name"
    using assms by (auto simp: long_name_def lfn_count_def)
qed

lemma lfn_entry_fields:
  "length (lfn_entry i n chk name) = 32"
  "lfn_entry i n chk name ! 0 = of_nat i OR (if i = n then 0x40 else 0)"
  "e_attr (lfn_entry i n chk name) = 0x0F"
  "lfn_entry i n chk name ! 13 = chk"
  "lfn_units (lfn_entry i n chk name) = map (lfn_char (slice ((i - 1) * 13) 13 name)) [0..<13]"
proof -
  have u: "[0..<5] = [0, 1, 2, 3, 4 :: nat]" "[5..<11] = [5, 6, 7, 8, 9, 10 :: nat]" "[11..<13] = [11, 12 :: nat]"
    "[0..<6] = [0, 1, 2, 3, 4, 5 :: nat]" "[0..<2] = [0, 1 :: nat]"
    "[0..<13] = [0, 1, 2, 3, 4, 5, 6, 7, 8, 9, 10, 11, 12 :: nat]"
    by (simp_all add: upt_rec numeral_eq_Suc)
  show "length (lfn_entry i n chk name) = 32" "lfn_entry i n chk name ! 0 = of_nat i OR (if i = n then 0x40 else 0)"
    "e_attr (lfn_entry i n chk name) = 0x0F" "lfn_entry i n chk name ! 13 = chk"
    by (simp_all add: lfn_entry_def Let_def u bytes16_list e_attr_def)
  show "lfn_units (lfn_entry i n chk name) = map (lfn_char (slice ((i - 1) * 13) 13 name)) [0..<13]"
    unfolding lfn_units_def lfn_entry_def Let_def u list.map concat.simps bytes16_list
    by (simp add: field16_def slice_def field16_list [simplified])
qed

text \<open>The buffer \<open>lfn_buf\<close> when the whole name has been read: the name, its terminator and the
  padding of the last entry.  Before that its lower part is still zero.\<close>

definition lfn_target :: "u8 list \<Rightarrow> u8 list" where
  "lfn_target name =
     name @ (if length name < 13 * lfn_count name then 0 # replicate (13 * lfn_count name - length name - 1) 0x3F else [])
     @ replicate (256 - 13 * lfn_count name) 0"

definition lfn_partial :: "nat \<Rightarrow> u8 \<Rightarrow> u8 list \<Rightarrow> lfn_state" where
  "lfn_partial i chk name =
     \<lparr>lfn_buf = replicate (13 * i) 0 @ drop (13 * i) (lfn_target name), lfn_sum = uint chk\<rparr>"

lemma length_lfn_target: "long_name name \<Longrightarrow> length (lfn_target name) = 256"
  using lfn_count_bounds [of name] by (auto simp: lfn_target_def)

lemma lfn_partial_full:
  assumes "long_name name"
  shows "lfn_partial (lfn_count name) chk name = \<lparr>lfn_buf = replicate 256 0, lfn_sum = uint chk\<rparr>"
proof -
  note n = lfn_count_bounds [OF assms]
  have "drop (13 * lfn_count name) (lfn_target name) = replicate (256 - 13 * lfn_count name) 0"
    using n by (auto simp: lfn_target_def)
  then have "replicate (13 * lfn_count name) (0 :: u8) @ drop (13 * lfn_count name) (lfn_target name) = replicate 256 0"
    using n by (simp add: replicate_add [symmetric])
  then show ?thesis by (simp add: lfn_partial_def)
qed

text \<open>The 13 characters of an entry are the part of the target that belongs to it.\<close>

lemma lfn_units_target:
  assumes "long_name name" "1 \<le> i" "i \<le> lfn_count name"
  shows "map (\<lambda>c. if c < 0x80 then ucast c else 0x3F) (map (lfn_char (slice ((i - 1) * 13) 13 name)) [0..<13]) =
    slice ((i - 1) * 13) 13 (lfn_target name)"
proof -
  note n = lfn_count_bounds [OF assms(1)]
  define j where "j = (i - 1) * 13"
  have j: "j + 13 \<le> 13 * lfn_count name" using assms(2,3) by (cases i) (auto simp: j_def)
  have start: "j < length name"
  proof -
    have "13 * (lfn_count name - 1) < length name"
      using assms(1) n(1) by (auto simp: long_name_def lfn_count_def split: if_splits)
    then show ?thesis unfolding j_def using assms(3) by (metis diff_le_mono le_less_trans mult.commute mult_le_mono2)
  qed
  have part: "slice j 13 name = take 13 (drop j name)" "length (slice j 13 name) = min 13 (length name - j)"
    by (simp_all add: slice_def)
  have char: "(if lfn_char (slice j 13 name) k < 0x80 then ucast (lfn_char (slice j 13 name) k) else (0x3F :: u8)) =
      lfn_target name ! (j + k)" if k: "k < 13" for k
  proof (cases "j + k < length name")
    case True
    then have "k < length name - j" by linarith
    then have c: "lfn_char (slice j 13 name) k = scast (name ! (j + k))" using k part by (simp add: lfn_char_def)
    have "name ! (j + k) < 0x80" using assms(1) True by (auto simp: long_name_def)
    then have "unat (name ! (j + k)) < 128" by (simp add: word_less_nat_alt)
    moreover have "sint (name ! (j + k)) = uint (name ! (j + k))"
      using u8_signed [of "name ! (j + k)"] sint_greater_eq [of "name ! (j + k)"] \<open>name ! (j + k) < 0x80\<close>
      by (auto simp: word_less_def split: if_splits)
    then have "scast (name ! (j + k)) = (ucast (name ! (j + k)) :: u16)" by (metis scast_eq word_of_int_uint ucast_eq)
    moreover have "ucast (ucast b :: u16) = b" for b :: u8
    proof -
      have 1: "unat (ucast b :: u16) = unat b" by (rule unat_ucast_up) simp
      then have "unat (ucast (ucast b :: u16) :: u8) = unat (ucast b :: u16)"
        using unat_less_power [of b] by (intro unat_ucast_small) simp
      with 1 show ?thesis by (simp only: word_unat_eq_iff)
    qed
    ultimately show ?thesis using c True by (simp add: lfn_target_def nth_append word_less_nat_alt unat_ucast_up)
  next
    case False
    show ?thesis
    proof (cases "j + k = length name")
      case True
      then have "lfn_char (slice j 13 name) k = 0" using k part by (simp add: lfn_char_def)
      moreover have "length name < 13 * lfn_count name" using True k j by simp
      then have "lfn_target name ! length name = 0" by (simp add: lfn_target_def nth_append)
      ultimately show ?thesis using True by simp
    next
      case more: False
      then have "\<not> k < length name - j" "k \<noteq> length name - j" using False start by linarith+
      then have "lfn_char (slice j 13 name) k = 0xFFFF" using k part(2) by (simp add: lfn_char_def)
      moreover have "lfn_target name ! (j + k) = 0x3F"
        using False more k j by (auto simp: lfn_target_def nth_append nth_Cons')
      ultimately show ?thesis by simp
    qed
  qed
  have len: "j + 13 \<le> length (lfn_target name)" using n(2) j length_lfn_target [OF assms(1)] by linarith
  show ?thesis unfolding j_def [symmetric]
  proof (rule nth_equalityI)
    fix k assume "k < length (map (\<lambda>c. if c < 0x80 then ucast c else 0x3F :: u8) (map (lfn_char (slice j 13 name)) [0..<13]))"
    then have k: "k < 13" by simp
    then show "map (\<lambda>c. if c < 0x80 then ucast c else 0x3F) (map (lfn_char (slice j 13 name)) [0..<13]) ! k =
        slice j 13 (lfn_target name) ! k"
      using char [OF k] by (simp add: nth_slice [OF k len])
  qed (simp add: len)
qed

lemma order_bits:
  assumes "1 \<le> i" "i \<le> 19"
  shows "(of_nat i :: u8) AND 0x3F = of_nat i" "(of_nat i :: u8) AND 0x40 = 0" "unat (of_nat i :: u8) = i"
proof -
  show u: "unat (of_nat i :: u8) = i" using assms by (intro unat_of_nat_small) simp
  have t: "take_bit 6 (of_nat i :: u8) = of_nat i"
    using assms u by (simp add: take_bit_eq_mod word_unat_eq_iff unat_mod)
  have m: "(0x3F :: u8) = mask 6" by (simp add: mask_eq_exp_minus_1)
  show 1: "(of_nat i :: u8) AND 0x3F = of_nat i" unfolding m by (simp only: take_bit_eq_mask [symmetric] t)
  have "(of_nat i :: u8) AND 0x40 = (of_nat i AND 0x3F) AND 0x40" by (simp only: 1)
  also have "\<dots> = 0" by (simp add: and.assoc)
  finally show "(of_nat i :: u8) AND 0x40 = 0" .
qed

lemma lfn_add_step:
  assumes "long_name name" "1 \<le> i" "i \<le> lfn_count name" "i = lfn_count name \<or> st = lfn_partial i chk name"
  shows "lfn_add (lfn_entry i (lfn_count name) chk name) st = lfn_partial (i - 1) chk name"
proof -
  note n = lfn_count_bounds [OF assms(1)]
  let ?e = "lfn_entry i (lfn_count name) chk name"
  have i: "1 \<le> i" "i \<le> 19" using assms(2,3) n(2) by auto
  note o = order_bits [OF i]
  have m: "(?e ! 0) AND 0x3F = of_nat i" "(?e ! 0) AND 0x40 \<noteq> 0 \<longleftrightarrow> i = lfn_count name"
    using o(1,2) by (auto simp: lfn_entry_fields bit.conj_disj_distrib2)
  have st: "(if (?e ! 0) AND 0x40 \<noteq> 0 then \<lparr>lfn_buf = replicate 256 0, lfn_sum = uint (?e ! 13)\<rparr> else st) = lfn_partial i chk name"
    using assms(4) m(2) lfn_partial_full [OF assms(1), of chk] by (auto simp: lfn_entry_fields)
  have idx: "(uint ((?e ! 0) AND 0x3F) - 1) * 13 = int (13 * (i - 1))"
  proof -
    have "uint (of_nat i :: u8) = int i" by (simp only: uint_nat o(3))
    then show ?thesis using i(1) unfolding m(1) by (simp add: of_nat_diff)
  qed
  have nidx: "nat (int i * 13 - 13) = (i - Suc 0) * 13" using i(1) by arith
  have len: "13 * i \<le> 247" "length (lfn_target name) = 256" using i length_lfn_target [OF assms(1)] by auto
  have "overlay (13 * (i - 1)) (slice (13 * (i - 1)) 13 (lfn_target name)) (replicate (13 * i) 0 @ drop (13 * i) (lfn_target name))
      = replicate (13 * (i - 1)) 0 @ drop (13 * (i - 1)) (lfn_target name)"
  proof (rule nth_equalityI)
    show "length (overlay (13 * (i - 1)) (slice (13 * (i - 1)) 13 (lfn_target name)) (replicate (13 * i) 0 @ drop (13 * i) (lfn_target name)))
      = length (replicate (13 * (i - 1)) (0 :: u8) @ drop (13 * (i - 1)) (lfn_target name))"
      using len i(1) by (simp add: overlay_def slice_def)
  next
    fix k assume "k < length (overlay (13 * (i - 1)) (slice (13 * (i - 1)) 13 (lfn_target name)) (replicate (13 * i) 0 @ drop (13 * i) (lfn_target name)))"
    then have k: "k < 256" using len i(1) by (simp add: overlay_def slice_def)
    obtain j where j: "i = Suc j" using i(1) by (cases i) auto
    show "overlay (13 * (i - 1)) (slice (13 * (i - 1)) 13 (lfn_target name)) (replicate (13 * i) 0 @ drop (13 * i) (lfn_target name)) ! k
      = (replicate (13 * (i - 1)) 0 @ drop (13 * (i - 1)) (lfn_target name)) ! k"
      using k len j by (auto simp: nth_overlay nth_append slice_def)
  qed
  then have "lfn_add ?e st = (lfn_partial i chk name)\<lparr>lfn_buf := replicate (13 * (i - 1)) 0 @ drop (13 * (i - 1)) (lfn_target name)\<rparr>"
    using idx len i lfn_units_target [OF assms(1-3)] st
    unfolding lfn_add_def Let_def lfn_entry_fields(5) by (simp add: mult.commute lfn_partial_def nidx)
  then show ?thesis by (simp add: lfn_partial_def)
qed

lemma not_deleted: "\<not> deleted e"
  using sint_less [of "e ! 0"] by (simp add: deleted_def)

text \<open>Scanning the entries of a long name from any state.\<close>

lemma scan_long_name:
  assumes "long_name name" "j \<le> lfn_count name" "j = lfn_count name \<and> 0 < j \<or> st = lfn_partial j chk name"
  shows "find_entries nm (map (\<lambda>i. lfn_entry i (lfn_count name) chk name) (rev [1..<j + 1]) @ es) st =
    find_entries nm es (lfn_partial 0 chk name)"
  using assms(2,3)
proof (induction j arbitrary: st)
  case (Suc j)
  let ?e = "lfn_entry (Suc j) (lfn_count name) chk name"
  note n = lfn_count_bounds [OF assms(1)]
  have "lfn_add ?e st = lfn_partial j chk name" using lfn_add_step [OF assms(1), of "Suc j" st chk] Suc.prems by auto
  moreover have "?e ! 0 \<noteq> 0"
  proof
    assume z: "?e ! 0 = 0"
    have "of_nat (Suc j) = (?e ! 0) AND (0x3F :: u8)"
      using order_bits [of "Suc j"] Suc.prems(1) n(2) by (auto simp: lfn_entry_fields bit.conj_disj_distrib2)
    then have "(of_nat (Suc j) :: u8) = 0" using z by simp
    then show False using order_bits(3) [of "Suc j"] Suc.prems(1) n(2) by simp
  qed
  ultimately have "scan_entry ?e st = Skip (lfn_partial j chk name)"
    by (simp add: scan_entry_def not_deleted lfn_entry_fields)
  then show ?case using Suc.IH [of "lfn_partial j chk name"] Suc.prems by simp
qed simp

lemma lfn_target_name:
  assumes "long_name name"
  shows "c_bytes (lfn_target name) = name" "lfn_target name ! 0 \<noteq> 0"
proof -
  note n = lfn_count_bounds [OF assms]
  have z: "\<forall>c \<in> set name. c \<noteq> 0" using assms by (auto simp: long_name_def)
  obtain r where r: "lfn_target name = name @ 0 # r"
  proof (cases "length name < 13 * lfn_count name")
    case True
    then show ?thesis using that by (auto simp: lfn_target_def)
  next
    case False
    have "13 * lfn_count name \<le> 247" using n(2) by simp
    then obtain k where "256 - 13 * lfn_count name = Suc k" by (cases "256 - 13 * lfn_count name") auto
    then show ?thesis using that False by (simp add: lfn_target_def)
  qed
  show "c_bytes (lfn_target name) = name" using z by (simp add: c_bytes_def r)
  have "name \<noteq> []" using assms by (auto simp: long_name_def is_lfn_def)
  then show "lfn_target name ! 0 \<noteq> 0" using z r by (cases name) auto
qed

section \<open>Properties\<close>

text \<open>A name of the form \<open>base.ext\<close> with at most 8 and 3 characters, none of them a space or
  a dot, comes back in lower case from its 8.3 form.\<close>

theorem fat_name_roundtrip:
  assumes "plain base" "plain ext" "length base \<le> 8" "length ext \<le> 3"
  shows "fat32_to_normal_name (fat32_to_fat_name (dotted base ext) @ rest) = map lower (dotted base ext)"
proof -
  have b: "lower \<circ> upper = lower" by (simp add: fun_eq_iff)
  have nz: "\<forall>c \<in> set (map lower (dotted base ext)). c \<noteq> 0"
    using assms(1,2) by (auto simp: dotted_def plain_def upper_neq(4))
  have hd: "hd (pad 3 (map upper ext)) \<noteq> 0x20 \<longleftrightarrow> ext \<noteq> []"
  proof (cases ext)
    case Nil
    have "hd (replicate 3 (0x20 :: u8)) = 0x20" by (rule hd_replicate) simp
    then show ?thesis by (simp only: Nil pad_def list.map list.size append_Nil diff_zero simp_thms)
  next
    case (Cons c cs)
    then have "upper c \<noteq> 0x20" using assms(2) by (simp add: plain_def upper_neq)
    then show ?thesis by (simp only: Cons pad_def list.map append_Cons list.sel list.distinct simp_thms)
  qed
  have l: "lower 0x2E = 0x2E" by (simp add: lower_alt)
  have "fat32_to_fat_name (dotted base ext) = pad 8 (map upper base) @ pad 3 (map upper ext)"
    using assms(3,4) unfolding fat32_to_fat_name_def Let_def takeWhile_plain [OF assms(1)] dropWhile_plain [OF assms(1)]
    by simp
  then have "fat32_to_normal_name (fat32_to_fat_name (dotted base ext) @ rest) =
      takeWhile (\<lambda>c. c \<noteq> 0) (map lower (dotted base ext))"
    using assms hd b by (simp add: normal_of_padded takeWhile_pad dotted_def l)
  moreover have "takeWhile (\<lambda>c. c \<noteq> 0) (map lower (dotted base ext)) = map lower (dotted base ext)"
    using nz by (simp only: takeWhile_eq_all_conv)
  ultimately show ?thesis by (rule trans)
qed

theorem fat_name_roundtrip_witness:
  "fat32_to_normal_name (fat32_to_fat_name [0x41, 0x62, 0x2E, 0x43]) = [0x61, 0x62, 0x2E, 0x63]"
  using fat_name_roundtrip [of "[0x41, 0x62]" "[0x43]" "[]"] by (simp add: plain_def dotted_def lower_alt)

text \<open>C26. The directory entries that \<open>fat32_create_entry\<close> writes for a long name are found again
  under that name by the scan of \<open>fat32_finddir\<close>, whatever long-name state it is in, with the name
  (cut to 127 characters), the attributes, the first cluster and the size 0 that were written.\<close>

theorem fat_long_name_found:
  assumes "long_name name" "attr = 0x10 \<or> attr = 0x20"
  shows "\<exists>e st'. find_entries name (name_entries name attr c @ es) st = Hit e st'
    \<and> child_name e st' = take 127 name \<and> e_attr e = attr \<and> e_first_cluster e = c \<and> e_size e = 0"
proof -
  let ?chk = "lfn_checksum (short_name name)"
  let ?e = "dir_entry (short_name name) attr c"
  let ?st = "lfn_partial 0 ?chk name"
  note f = dir_entry_fields [OF length_short_name, of name attr c]
  note t = lfn_target_name [OF assms(1)]
  have z: "\<forall>c \<in> set name. c \<noteq> 0" and lfn: "is_lfn name" using assms(1) by (auto simp: long_name_def)
  have "short_name name ! 0 \<noteq> 0"
  proof -
    let ?b = "take 6 (filter (\<lambda>c. c \<noteq> 0x20 \<and> c \<noteq> 0x2E) (map upper (takeWhile (\<lambda>c. c \<noteq> 0x2E) name)))"
    have "\<forall>c \<in> set ?b. c \<noteq> 0" using z by (auto simp: upper_neq dest!: in_set_takeD set_takeWhileD)
    then have "pad 6 ?b ! 0 \<noteq> 0" by (cases ?b) (auto simp: pad_def)
    then show ?thesis using lfn by (simp add: short_name_def make_short_name_def nth_append)
  qed
  then have "scan_entry ?e ?st = Entry"
    using assms(2) f(2,6) by (auto simp: scan_entry_def not_deleted)
  moreover have sum: "lfn_checksum ?e = ?chk" using f(5) by (simp add: lfn_checksum_def)
  have has: "has_lfn ?e ?st" using t(2) sum by (simp add: has_lfn_def lfn_partial_def)
  moreover have "name_matches name ?e ?st"
    using has t(1) strcasecmp_upper [of name name] by (simp add: name_matches_def lfn_partial_def)
  ultimately have "find_entries name (?e # es) ?st = Hit ?e ?st" by simp
  moreover have "find_entries name (name_entries name attr c @ es) st = find_entries name (?e # es) ?st"
    using scan_long_name [OF assms(1), of "lfn_count name" st ?chk name "?e # es"] lfn_count_bounds(1) [OF assms(1)]
    by (simp add: name_entries_def)
  moreover have "child_name ?e ?st = take 127 name" using has t(1) by (simp add: child_name_def lfn_partial_def)
  ultimately show ?thesis using f(2-4) by auto
qed

theorem fat_long_name_found_witness:
  "\<exists>e st'. find_entries [0x61, 0x62] (name_entries [0x61, 0x62] 0x20 5 @ []) no_lfn = Hit e st'
    \<and> child_name e st' = [0x61, 0x62] \<and> e_first_cluster e = 5"
proof -
  have "is_lfn [0x61, 0x62]" using ascii_range [of 97 122 97] by (auto simp: is_lfn_def intro!: bexI [of _ 0])
  then have "long_name [0x61, 0x62]" by (simp add: long_name_def)
  from fat_long_name_found [OF this, of "0x20" 5 "[]" no_lfn] show ?thesis by auto
qed

end
