(* ===== verification/FatDirs.thy ===== *)
theory FatDirs
  imports FatChains FatNameProps
begin

text \<open>
  Directories: what \<open>fat32_create\<close> writes into a directory cluster and what \<open>fat32_finddir\<close>
  reads back.
\<close>

section \<open>Entries of a cluster\<close>

definition blocks :: "nat \<Rightarrow> u8 list \<Rightarrow> u8 list list" where
  "blocks n bytes = map (\<lambda>i. slice (32 * i) 32 bytes) [0..<n]"

lemma blocks_Suc: "blocks (Suc n) bytes = slice 0 32 bytes # blocks n (drop 32 bytes)"
proof -
  have "map (\<lambda>i. slice (32 * i) 32 bytes) [Suc 0..<Suc n] = map (\<lambda>i. slice (32 * Suc i) 32 bytes) [0..<n]"
    by (simp add: map_Suc_upt [symmetric] del: upt_Suc)
  then show ?thesis by (simp add: blocks_def upt_conv_Cons slice_def add.commute del: upt_Suc)
qed

lemma blocks_concat: "\<forall>e \<in> set es. length e = 32 \<Longrightarrow> blocks (length es) (concat es) = es"
proof (induction es)
  case (Cons e es)
  then show ?case by (simp only: list.size concat.simps) (simp add: blocks_Suc slice_def)
qed (simp add: blocks_def)

lemma concat_blocks: "length bytes = 32 * n \<Longrightarrow> concat (blocks n bytes) = bytes"
  by (induction n arbitrary: bytes) (simp_all add: blocks_Suc slice_def, simp add: blocks_def)

lemma length_blocks [simp]: "length (blocks n bytes) = n"
  by (simp add: blocks_def)

lemma blocks_32: "length bytes = 32 * n \<Longrightarrow> e \<in> set (blocks n bytes) \<Longrightarrow> length e = 32"
  by (auto simp: blocks_def intro!: length_slice)

lemma length_concat_32: "\<forall>e \<in> set es. length e = 32 \<Longrightarrow> length (concat es) = 32 * length es"
  by (induction es) simp_all

lemma overlay_entries:
  assumes "blocks n bytes = us @ fs" "length bytes = 32 * n" "\<forall>e \<in> set new. length e = 32" "length new \<le> length fs"
  shows "overlay (32 * length us) (concat new) bytes = concat (us @ new @ drop (length new) fs)"
proof -
  have l: "\<forall>e \<in> set (us @ fs). length e = 32" using blocks_32 [OF assms(2)] assms(1) by simp
  have b: "bytes = concat us @ concat fs" using concat_blocks [OF assms(2)] assms(1) by simp
  have u: "length (concat us) = 32 * length us" using l by (intro length_concat_32) simp
  have n: "length (concat new) = 32 * length new" by (rule length_concat_32 [OF assms(3)])
  have f: "fs = take (length new) fs @ drop (length new) fs" by simp
  have t: "length (concat (take (length new) fs)) = 32 * length new"
    using length_concat_32 [of "take (length new) fs"] l assms(4) by (auto dest: in_set_takeD)
  have "drop (32 * length new) (concat fs) = concat (drop (length new) fs)"
    by (subst f, subst concat_append) (simp add: t)
  then show ?thesis by (simp add: overlay_def b u n)
qed

lemma find_entries_append:
  "find_entries nm (xs @ ys) st =
     (case find_entries nm xs st of NextCluster st' _ \<Rightarrow> find_entries nm ys st' | r \<Rightarrow> r)"
  by (induction nm xs st rule: find_entries.induct) (auto split: dir_step.split)

section \<open>Reading and writing one cluster\<close>

lemma entries_size: "fat_ok fs s \<Longrightarrow> 32 * entries_per_cluster fs = unat (cluster_size fs)"
  using fat_okD(10) [of fs s] by (simp add: entries_per_cluster_def)

lemma page_entries_read:
  assumes "fat_ok fs s" "buf \<noteq> 0"
  shows "page_entries fs buf (s\<lparr>page := (page s)(buf := overlay 0 (cluster_bytes fs s c) (page s buf))\<rparr>) =
    Some (blocks (entries_per_cluster fs) (cluster_bytes fs s c))"
proof -
  note ok = fat_okD [OF assms(1)]
  have "load_page buf 0 (32 * entries_per_cluster fs) (s\<lparr>page := (page s)(buf := overlay 0 (cluster_bytes fs s c) (page s buf))\<rparr>) =
      Some (slice 0 (32 * entries_per_cluster fs) (cluster_bytes fs s c))"
    using ok(1,9,10) assms by (intro load_overlay) (auto simp: entries_size)
  then show ?thesis
    using assms(1) by (simp add: page_entries_def blocks_def slice_def entries_size)
qed

lemma find_clusters_single:
  assumes "fat_ok fs s" "buf \<noteq> 0" "d < 1024"
    and "find_entries nm (blocks (entries_per_cluster fs) (cluster_bytes fs s d)) no_lfn = r" "\<And>st u. r \<noteq> NextCluster st u"
  shows "\<exists>pg. length pg = 4096 \<and> find_clusters fs nm buf d no_lfn s =
    Some (case r of Hit e st \<Rightarrow> Some (e, st) | _ \<Rightarrow> None, s\<lparr>page := (page s)(buf := pg)\<rparr>)"
proof -
  let ?pg = "overlay 0 (cluster_bytes fs s d) (page s buf)"
  have "length ?pg = 4096" using fat_okD(1,9,10) [OF assms(1)] assms(1) by simp
  moreover have "find_clusters fs nm buf d no_lfn s =
      Some (case r of Hit e st \<Rightarrow> Some (e, st) | _ \<Rightarrow> None, s\<lparr>page := (page s)(buf := ?pg)\<rparr>)"
    using assms(4,5) clusters_EOC [OF assms(3)]
    by (subst find_clusters.simps)
      (auto simp: read_cluster [OF assms(1,2)] page_entries_read [OF assms(1,2)] split: scan.split)
  ultimately show ?thesis by blast
qed

lemma write_cluster:
  assumes "fat_ok fs s" "buf \<noteq> 0"
  obtains d where "fat32_write_cluster fs c buf s = Some (0, s\<lparr>disk := d\<rparr>)" "fat_ok fs (s\<lparr>disk := d\<rparr>)"
    "cluster_bytes fs (s\<lparr>disk := d\<rparr>) c = slice 0 (unat (cluster_size fs)) (page s buf)"
proof -
  note ok = fat_okD [OF assms(1)]
  let ?lba = "ucast (fat32_cluster_to_sector fs c) :: u64"
  let ?d = "\<lambda>l. if unat (l - ?lba) < unat (spc fs) then slice (512 * unat (l - ?lba)) 512 (page s buf) else disk s l"
  have "spc fs \<noteq> 0" "\<not> spc fs > 8" using ok(8,9) by (auto simp: word_less_nat_alt)
  then have w: "fat32_write_cluster fs c buf s = Some (0, s\<lparr>disk := ?d\<rparr>)"
    using assms(2) ok(4,12) by (simp add: fat32_write_cluster_def ahci_write_sectors_def)
  have "length (?d l) = 512" for l using ok(1,2,9) by auto
  then have ok': "fat_ok fs (s\<lparr>disk := ?d\<rparr>)" using assms(1) by (auto simp: fat_ok_def sys_ok_def disk_healthy_def)
  have "unat (of_nat k :: u64) = k" if "k < unat (spc fs)" for k using that ok(9) by (intro unat_of_nat_small) simp
  then have "map (\<lambda>i. ?d (?lba + of_nat i)) [0..<unat (spc fs)] = map (\<lambda>i. slice (512 * i) 512 (page s buf)) [0..<unat (spc fs)]"
    by simp
  moreover have "concat (map (\<lambda>i. slice (512 * i) 512 bs) [0..<n]) = slice 0 (512 * n) bs" for n and bs :: "u8 list"
    by (induction n) (simp_all add: slice_def take_add add.commute [of 512])
  moreover have "cluster_bytes fs (s\<lparr>disk := ?d\<rparr>) c = concat (map (\<lambda>i. ?d (?lba + of_nat i)) [0..<unat (spc fs)])"
    by (simp add: cluster_bytes_def)
  ultimately have "cluster_bytes fs (s\<lparr>disk := ?d\<rparr>) c = slice 0 (unat (cluster_size fs)) (page s buf)"
    by (simp only: ok(10))
  then show ?thesis using that w ok' by blast
qed

section \<open>Creating a file\<close>

lemma find_free_prefix:
  assumes "\<forall>e \<in> set us. e ! 0 \<noteq> 0" "\<forall>e \<in> set fs. e ! 0 = 0" "0 < k" "k \<le> length fs"
  shows "find_free k i (us @ fs) = Some (i + length us)"
  using assms(1)
proof (induction us arbitrary: i)
  case Nil
  obtain e es where fs: "fs = e # es" using assms(3,4) by (cases fs) auto
  have t: "takeWhile entry_free es = es" using assms(2) fs by (simp add: entry_free_def)
  show ?case using assms(2,4) by (simp add: fs t entry_free_def)
next
  case (Cons u us)
  then show ?case by (simp add: entry_free_def not_deleted)
qed

text \<open>A node found, and the page frames: the buffer is returned, the node keeps two.\<close>

lemma finddir_none:
  assumes "fat_ok fs s" "high_frames (fat_pfa s) \<noteq> {}" "n_data node \<noteq> 0" "first_cluster node < 1024"
    and "find_entries nm (blocks (entries_per_cluster fs) (cluster_bytes fs s (first_cluster node))) no_lfn = AtEnd"
  obtains s' where "fat32_finddir fs node nm s = Some (None, s')" "fat_ok fs s'" "disk s' = disk s"
    "high_frames (fat_pfa s') = high_frames (fat_pfa s)"
proof -
  note ok = fat_okD [OF assms(1)]
  obtain buf p where b: "alloc_page s = (buf, s\<lparr>fat_pfa := p\<rparr>)" "buf \<in> high_frames (fat_pfa s)" "buf \<noteq> 0"
    "buf \<noteq> fat_cache fs" "pfa_inv p" "high_frames p = high_frames (fat_pfa s) - {buf}" "high_page buf"
    by (rule alloc_page_ok [OF assms(1,2)])
  let ?s = "s\<lparr>fat_pfa := p\<rparr>"
  have ok': "fat_ok fs ?s" using assms(1) b(5,6) ok(7) by (intro fat_ok_pfa) auto
  have cb: "cluster_bytes fs ?s c = cluster_bytes fs s c" for c by (rule fun_cong [OF cluster_bytes_cong]) simp
  from find_clusters_single [OF ok' b(3) assms(4), unfolded cb, OF assms(5)] obtain pg where pg: "length pg = 4096"
    "find_clusters fs nm buf (first_cluster node) no_lfn ?s = Some (None, ?s\<lparr>page := (page ?s)(buf := pg)\<rparr>)" by auto
  let ?t = "?s\<lparr>page := (page ?s)(buf := pg)\<rparr>"
  have ok2: "fat_ok fs ?t" by (rule fat_ok_buffer [OF ok' pg(1)])
  note free = pfa_free_high_step [OF b(5,7)]
  have fr: "high_frames (pfa_free p buf) = high_frames (fat_pfa s)" using free(2) b(2,6) by auto
  have "fat32_finddir fs node nm s = Some (None, free_page buf ?t)"
    using assms(3) b(1,3) pg(2) by (simp add: fat32_finddir_def)
  moreover have "fat_ok fs (free_page buf ?t)"
    using fat_ok_pfa [OF ok2 free(1)] fr ok(7) by (simp add: free_page_def)
  ultimately show ?thesis using that fr by (simp add: free_page_def)
qed

lemma finddir_hit:
  assumes "fat_ok fs s" "3 \<le> card (high_frames (fat_pfa s))" "n_data node \<noteq> 0" "first_cluster node < 1024"
    and "find_entries nm (blocks (entries_per_cluster fs) (cluster_bytes fs s (first_cluster node))) no_lfn = Hit e st"
  obtains s' a b where "fat32_finddir fs node nm s = Some (Some \<lparr>n_at = a, n_data = b, n_name = child_name e st, n_size = e_size e,
      n_flags = (if e_attr e AND 0x10 \<noteq> 0 then VFS_DIRECTORY else VFS_FILE),
      first_cluster = e_first_cluster e, parent_cluster = first_cluster node\<rparr>, s')" "a \<noteq> 0" "b \<noteq> 0"
proof -
  note ok = fat_okD [OF assms(1)]
  have ne: "high_frames (fat_pfa s) \<noteq> {}" using assms(2) by auto
  obtain buf p where b: "alloc_page s = (buf, s\<lparr>fat_pfa := p\<rparr>)" "buf \<in> high_frames (fat_pfa s)" "buf \<noteq> 0"
    "buf \<noteq> fat_cache fs" "pfa_inv p" "high_frames p = high_frames (fat_pfa s) - {buf}" "high_page buf"
    by (rule alloc_page_ok [OF assms(1) ne])
  let ?s = "s\<lparr>fat_pfa := p\<rparr>"
  have ok': "fat_ok fs ?s" using assms(1) b(5,6) ok(7) by (intro fat_ok_pfa) auto
  have cb: "cluster_bytes fs ?s c = cluster_bytes fs s c" for c by (rule fun_cong [OF cluster_bytes_cong]) simp
  from find_clusters_single [OF ok' b(3) assms(4), unfolded cb, OF assms(5)] obtain pg where pg: "length pg = 4096"
    "find_clusters fs nm buf (first_cluster node) no_lfn ?s = Some (Some (e, st), ?s\<lparr>page := (page ?s)(buf := pg)\<rparr>)" by auto
  let ?t = "?s\<lparr>page := (page ?s)(buf := pg)\<rparr>"
  have ok2: "fat_ok fs ?t" by (rule fat_ok_buffer [OF ok' pg(1)])
  have fin: "finite (high_frames q)" for q by (rule high.frames_finite)
  have c1: "card (high_frames p) \<ge> 2" using assms(2) b(2,6) fin by (simp add: card_Diff_singleton)
  have n1: "high_frames (fat_pfa ?t) \<noteq> {}" using c1 by auto
  obtain x q where x: "alloc_page ?t = (x, ?t\<lparr>fat_pfa := q\<rparr>)" "x \<in> high_frames (fat_pfa ?t)" "x \<noteq> 0"
    "x \<noteq> fat_cache fs" "pfa_inv q" "high_frames q = high_frames (fat_pfa ?t) - {x}" "high_page x"
    by (rule alloc_page_ok [OF ok2 n1])
  let ?u = "?t\<lparr>fat_pfa := q\<rparr>"
  have ok3: "fat_ok fs ?u" using ok2 x(5,6) b(6) ok(7) by (intro fat_ok_pfa) auto
  have "card (high_frames q) \<ge> 1" using c1 x(2,6) fin by (simp add: card_Diff_singleton)
  then have n2: "high_frames (fat_pfa ?u) \<noteq> {}" by auto
  obtain y q' where y: "alloc_page ?u = (y, ?u\<lparr>fat_pfa := q'\<rparr>)" "y \<noteq> 0"
    using alloc_page_ok [OF ok3 n2] by metis
  show ?thesis
    using that [OF _ x(3) y(2)] assms(3) b(1,3) pg(2) x(1,3) y by (simp add: fat32_finddir_def make_child_def)
qed

text \<open>The root of the example volume as an empty directory: sector 256 of the disk is zero.\<close>

definition demo_dir :: fat_node where
  "demo_dir = \<lparr>n_at = 0x10000B000, n_data = 0x10000C000, n_name = [0x2F], n_size = 0, n_flags = VFS_DIRECTORY,
     first_cluster = 256, parent_cluster = 0\<rparr>"

lemma demo_dir_blocks:
  "blocks (entries_per_cluster demo_vol) (cluster_bytes demo_vol demo_sys 256) = [] @ replicate 16 (replicate 32 0)"
proof -
  have "entries_per_cluster demo_vol = 16"
    by (simp add: entries_per_cluster_def cluster_size_def spc_def demo_vol_def)
  moreover have "cluster_bytes demo_vol demo_sys 256 = replicate 512 0"
    by (simp add: cluster_bytes_def fat32_cluster_to_sector_def spc_def demo_vol_def demo_sys_def)
  moreover have "blocks 16 (replicate 512 0) = replicate 16 (replicate 32 (0 :: u8))"
    by (rule nth_equalityI) (auto simp: blocks_def slice_def)
  ultimately show ?thesis by simp
qed

lemma demo_high_card: "card (high_frames demo_high_pfa) = 8"
proof -
  have "inj_on (\<lambda>i. 0x100000000 + of_nat i * PAGE_SIZE) {0..<8::nat}"
    by (rule inj_onI) (simp add: frame_inj MAX_PAGES_def)
  from card_image [OF this] show ?thesis by (simp add: high_frames_def demo_high_free)
qed

lemma long_name_ab: "long_name [0x61, 0x62]"
proof -
  have "is_lfn [0x61, 0x62]" using ascii_range [of 97 122 97] by (auto simp: is_lfn_def intro!: bexI [of _ 0])
  then show ?thesis by (simp add: long_name_def)
qed

section \<open>Properties\<close>

text \<open>C22. A file created under a long name that is not yet in a directory with enough free slots is
  found there afterwards: an empty file with that name (cut to 127 characters), and the page
  frames are as before.\<close>

theorem fat32_create_then_find:
  assumes "fat_ok fs s" "3 \<le> card (high_frames (fat_pfa s))"
    and "n_data parent \<noteq> 0" "n_flags parent AND VFS_DIRECTORY \<noteq> 0" "first_cluster parent < 1024"
    and "blocks (entries_per_cluster fs) (cluster_bytes fs s (first_cluster parent)) = us @ fr"
    and "\<forall>e \<in> set us. e ! 0 \<noteq> 0" "\<forall>e \<in> set fr. e ! 0 = 0" "lfn_count name < length fr"
    and "long_name name" "find_entries name us no_lfn = NextCluster st ()"
  shows "\<exists>s1 s2 child. fat32_create fs (Some parent) name 0 s = Some (0, s1)
    \<and> high_frames (fat_pfa s1) = high_frames (fat_pfa s)
    \<and> fat32_finddir fs parent name s1 = Some (Some child, s2)
    \<and> n_name child = take 127 name \<and> n_flags child = VFS_FILE \<and> n_size child = 0 \<and> first_cluster child = 0"
proof -
  let ?d = "first_cluster parent"
  let ?new = "name_entries name 0x20 0"
  have ne: "high_frames (fat_pfa s) \<noteq> {}" using assms(2) by auto
  obtain f fr' where fr: "fr = f # fr'" "f ! 0 = 0" using assms(8,9) by (cases fr) auto
  have "find_entries name (us @ fr) no_lfn = AtEnd"
    using assms(11) fr by (simp add: find_entries_append scan_entry_def)
  then obtain s0 where s0: "fat32_finddir fs parent name s = Some (None, s0)" "fat_ok fs s0" "disk s0 = disk s"
    "high_frames (fat_pfa s0) = high_frames (fat_pfa s)"
    using finddir_none [OF assms(1) ne assms(3,5)] assms(6) by metis
  have ne0: "high_frames (fat_pfa s0) \<noteq> {}" using ne s0(4) by simp
  obtain buf p where b: "alloc_page s0 = (buf, s0\<lparr>fat_pfa := p\<rparr>)" "buf \<in> high_frames (fat_pfa s0)" "buf \<noteq> 0"
    "buf \<noteq> fat_cache fs" "pfa_inv p" "high_frames p = high_frames (fat_pfa s0) - {buf}" "high_page buf"
    by (rule alloc_page_ok [OF s0(2) ne0])
  let ?s = "s0\<lparr>fat_pfa := p\<rparr>"
  have ok1: "fat_ok fs ?s" using s0(2) b(5,6) fat_okD(7) [OF s0(2)] by (intro fat_ok_pfa) auto
  let ?cb = "cluster_bytes fs s ?d"
  have cb: "cluster_bytes fs ?s ?d = ?cb" by (rule fun_cong [OF cluster_bytes_cong]) (simp add: s0(3))
  let ?pg = "overlay 0 ?cb (page ?s buf)"
  let ?t = "?s\<lparr>page := (page ?s)(buf := ?pg)\<rparr>"
  note ok = fat_okD [OF ok1]
  have lcb: "length ?cb = unat (cluster_size fs)" using assms(1) by simp
  have lpg: "length ?pg = 4096" using ok(1,9,10) lcb by simp
  have ok2: "fat_ok fs ?t" by (rule fat_ok_buffer [OF ok1 lpg])
  have read: "fat32_read_cluster fs ?d buf ?s = Some (0, ?t)"
    using read_cluster [OF ok1 b(3), of ?d] by (simp only: cb)
  have target: "find_target fs (1 + lfn_count name) buf ?d ?s = Some (Some (?d, length us), ?t)"
    using page_entries_read [OF ok1 b(3), of ?d] find_free_prefix [OF assms(7,8), of "1 + lfn_count name" 0] assms(9)
      clusters_EOC [OF assms(5)]
    by (subst find_target.simps) (simp add: read cb assms(6))
  have again: "fat32_read_cluster fs ?d buf ?t = Some (0, ?t)"
  proof -
    have "overlay 0 ?cb ?pg = ?pg" by (simp add: overlay_def)
    moreover have "cluster_bytes fs ?t ?d = ?cb" by (rule fun_cong [OF cluster_bytes_cong]) (simp add: s0(3))
    ultimately show ?thesis using read_cluster [OF ok2 b(3), of ?d] by simp
  qed
  have n32: "\<forall>e \<in> set ?new. length e = 32"
    by (auto simp: name_entries_def lfn_entry_fields dir_entry_fields)
  have ln: "length ?new = 1 + lfn_count name" by (simp add: name_entries_def)
  have lb: "length ?cb = 32 * entries_per_cluster fs" using entries_size [OF assms(1)] lcb by simp
  have le: "length us + length fr = entries_per_cluster fs" by (metis assms(6) length_append length_blocks)
  have room: "32 * length us + length (concat ?new) \<le> length ?cb"
    using length_concat_32 [OF n32] ln assms(9) le lb by simp
  let ?cb' = "overlay (32 * length us) (concat ?new) ?cb"
  have cb': "?cb' = concat (us @ ?new @ drop (length ?new) fr)"
    using assms(9) ln by (intro overlay_entries [OF assms(6) lb n32]) simp
  let ?pg' = "overlay (32 * length us) (concat ?new) ?pg"
  have pg': "slice 0 (unat (cluster_size fs)) ?pg' = ?cb'" "length ?pg' = 4096"
  proof -
    have "?pg' = overlay (32 * length us) (concat ?new) (?cb @ drop (length ?cb) (page ?s buf))" by (simp add: overlay_def)
    also have "\<dots> = ?cb' @ drop (length ?cb) (page ?s buf)" using room by (simp add: overlay_def)
    finally show "slice 0 (unat (cluster_size fs)) ?pg' = ?cb'" using room lcb by (simp add: slice_def)
    show "length ?pg' = 4096" using room lcb lpg ok(9,10) by simp
  qed
  let ?v = "?t\<lparr>page := (page ?t)(buf := ?pg')\<rparr>"
  have ok3: "fat_ok fs ?v" by (rule fat_ok_buffer [OF ok2 pg'(2)])
  have store: "store_page buf (32 * length us) (concat ?new) ?t = Some ?v"
    using b(3) room lcb ok(9,10) by (simp add: store_page_def)
  obtain dk where w: "fat32_write_cluster fs ?d buf ?v = Some (0, ?v\<lparr>disk := dk\<rparr>)" "fat_ok fs (?v\<lparr>disk := dk\<rparr>)"
    "cluster_bytes fs (?v\<lparr>disk := dk\<rparr>) ?d = slice 0 (unat (cluster_size fs)) (page ?v buf)"
    by (rule write_cluster [OF ok3 b(3)])
  let ?w = "free_page buf (?v\<lparr>disk := dk\<rparr>)"
  have "fat32_create_entry fs parent name 0x20 s0 = Some (0, ?w)"
    using assms(3) b(1,3) target again store w(1) by (simp add: fat32_create_entry_def)
  then have create: "fat32_create fs (Some parent) name 0 s = Some (0, ?w)"
    using assms(4) s0(1) by (simp add: fat32_create_def)
  note free = pfa_free_high_step [OF b(5,7)]
  have frw: "high_frames (fat_pfa ?w) = high_frames (fat_pfa s)" using free(2) b(2,6) s0(4) by (auto simp: free_page_def)
  have okw: "fat_ok fs ?w"
    using fat_ok_pfa [OF w(2) free(1)] frw fat_okD(7) [OF assms(1)] by (simp add: free_page_def)
  have cw: "cluster_bytes fs ?w ?d = concat (us @ ?new @ drop (length ?new) fr)"
  proof -
    have "cluster_bytes fs ?w ?d = cluster_bytes fs (?v\<lparr>disk := dk\<rparr>) ?d"
      by (rule fun_cong [OF cluster_bytes_cong]) (simp add: free_page_def)
    moreover have "page ?v buf = ?pg'" by simp
    ultimately show ?thesis using w(3) pg'(1) cb' by (simp only:)
  qed
  have "\<forall>e \<in> set fr. length e = 32" "\<forall>e \<in> set us. length e = 32" using blocks_32 [OF lb] assms(6) by auto
  then have "\<forall>e \<in> set (us @ ?new @ drop (length ?new) fr). length e = 32" using n32 by (auto dest: in_set_dropD)
  moreover have "length (us @ ?new @ drop (length ?new) fr) = entries_per_cluster fs" using le ln assms(9) by simp
  ultimately have bl: "blocks (entries_per_cluster fs) (cluster_bytes fs ?w ?d) = us @ ?new @ drop (length ?new) fr"
    using blocks_concat [of "us @ ?new @ drop (length ?new) fr"] cw by metis
  obtain e st' where hit: "find_entries name (?new @ drop (length ?new) fr) st = Hit e st'"
    "child_name e st' = take 127 name" "e_attr e = 0x20" "e_first_cluster e = 0" "e_size e = 0"
    using fat_long_name_found [OF assms(10), of 32 0 "drop (length ?new) fr" st] by auto
  have again: "find_entries name (blocks (entries_per_cluster fs) (cluster_bytes fs ?w ?d)) no_lfn = Hit e st'"
    unfolding bl using assms(11) hit(1) by (simp add: find_entries_append)
  have card: "3 \<le> card (high_frames (fat_pfa ?w))" using assms(2) by (simp only: frw)
  obtain s2 x y where found: "fat32_finddir fs parent name ?w = Some (Some \<lparr>n_at = x, n_data = y, n_name = child_name e st', n_size = e_size e,
      n_flags = (if e_attr e AND 0x10 \<noteq> 0 then VFS_DIRECTORY else VFS_FILE),
      first_cluster = e_first_cluster e, parent_cluster = first_cluster parent\<rparr>, s2)"
    using finddir_hit [OF okw card assms(3,5) again] by blast
  show ?thesis
    using hit(2-5) by (intro exI conjI) (rule create, rule frw, rule found, simp_all)
qed

theorem fat32_create_then_find_witness:
  "\<exists>s1 s2 child. fat32_create demo_vol (Some demo_dir) [0x61, 0x62] 0 demo_sys = Some (0, s1)
    \<and> fat32_finddir demo_vol demo_dir [0x61, 0x62] s1 = Some (Some child, s2) \<and> n_name child = [0x61, 0x62]"
proof -
  have d: "n_data demo_dir \<noteq> 0" "n_flags demo_dir AND VFS_DIRECTORY \<noteq> 0" "first_cluster demo_dir = 256"
    by (simp_all add: demo_dir_def vfs_flag_defs)
  have c: "3 \<le> card (high_frames (fat_pfa demo_sys))" using demo_high_card by (simp add: demo_sys_def)
  have n: "lfn_count [0x61, 0x62] < length (replicate 16 (replicate 32 (0 :: u8)))"
    by (simp add: lfn_count_def)
  have b: "blocks (entries_per_cluster demo_vol) (cluster_bytes demo_vol demo_sys (first_cluster demo_dir)) =
      [] @ replicate 16 (replicate 32 0)" using demo_dir_blocks d(3) by simp
  show ?thesis
    using fat32_create_then_find [OF demo_vol_ok c d(1,2) _ b _ _ n long_name_ab] d(3) by fastforce
qed

end
