(* ===== verification/FatMount.thy ===== *)
theory FatMount
  imports FatChains FatNameProps
begin

text \<open>
  What every operation of the FAT file system keeps, the sizes of pages and sectors and the
  invariant of the frame allocator, and the page frames that a mount takes and gives back.
\<close>

section \<open>Operations that leave the frame allocator alone\<close>

definition keeps :: "fat_sys \<Rightarrow> fat_sys \<Rightarrow> bool" where
  "keeps s s' \<longleftrightarrow> (sys_ok s \<longrightarrow> sys_ok s') \<and> fat_pfa s' = fat_pfa s"

named_theorems keeps_rules "operations that keep the sizes and the frame allocator"

lemma keeps_refl [intro, simp]: "keeps s s"
  by (simp add: keeps_def)

lemma keeps_trans: "keeps s t \<Longrightarrow> keeps t u \<Longrightarrow> keeps s u"
  by (simp add: keeps_def)

lemma keeps_page: "(sys_ok s \<Longrightarrow> length pg = 4096) \<Longrightarrow> keeps s (s\<lparr>page := (page s)(a := pg)\<rparr>)"
  by (auto simp: keeps_def sys_ok_def)

lemma read_sectors_keeps [keeps_rules]: "ahci_read_sectors lba n buf s = Some (r, s') \<Longrightarrow> keeps s s'"
proof -
  assume a: "ahci_read_sectors lba n buf s = Some (r, s')"
  let ?sec = "concat (map (\<lambda>i. disk s (lba + of_nat i)) [0..<unat n])"
  have "keeps s (s\<lparr>page := (page s)(buf := overlay 0 (take (length ?sec) xs) (page s buf))\<rparr>)" if "unat n \<le> 8" for xs
    using that by (intro keeps_page) (simp add: sys_ok_def length_sectors)
  from this [of ?sec] this show ?thesis using a
    by (auto simp: ahci_read_sectors_def Let_def not_less word_le_nat_alt split: if_splits option.splits)
qed

lemma write_sectors_keeps [keeps_rules]: "ahci_write_sectors lba n buf s = Some (r, s') \<Longrightarrow> keeps s s'"
  by (auto simp: ahci_write_sectors_def Let_def keeps_def sys_ok_def not_less word_le_nat_alt split: if_splits option.splits)

lemma store_page_keeps [keeps_rules]: "store_page a off xs s = Some s' \<Longrightarrow> keeps s s'"
  by (auto simp: store_page_def sys_ok_def intro!: keeps_page split: if_splits)

lemma set_entry_keeps [keeps_rules]: "fat32_set_fat_entry fs c v s = Some s' \<Longrightarrow> keeps s s'"
  by (auto simp: fat32_set_fat_entry_def sys_ok_def intro!: keeps_page split: if_splits)

lemma cluster_keeps [keeps_rules]:
  "fat32_read_cluster fs c buf s = Some (r, s') \<Longrightarrow> keeps s s'"
  "fat32_write_cluster fs c buf s = Some (r, s') \<Longrightarrow> keeps s s'"
  "write_fat fs s = Some (r, s') \<Longrightarrow> keeps s s'"
  unfolding fat32_read_cluster_def fat32_write_cluster_def write_fat_def by (erule keeps_rules)+

lemma alloc_scan_keeps: "alloc_scan fs n i s = Some (c, s') \<Longrightarrow> keeps s s'"
proof (induction fs n i s rule: alloc_scan.induct)
  case (1 fs n i s)
  show ?case
  proof (cases "i < n")
    case True
    then obtain e where e: "fat32_get_fat_entry fs i s = Some e"
      using 1(2) by (subst (asm) alloc_scan.simps) (auto split: option.splits)
    show ?thesis
    proof (cases "e = 0")
      case zero: True
      then obtain t r where "fat32_set_fat_entry fs i 0x0FFFFFFF s = Some t" "write_fat fs t = Some (r, s')"
        using 1(2) True e by (subst (asm) alloc_scan.simps) (auto simp: bind_eq_Some_conv)
      then show ?thesis by (blast intro: keeps_trans keeps_rules)
    next
      case False
      then show ?thesis using 1 True e by (subst (asm) (2) alloc_scan.simps) auto
    qed
  next
    case False
    then show ?thesis using 1(2) by (subst (asm) alloc_scan.simps) auto
  qed
qed

lemma alloc_cluster_keeps [keeps_rules]: "fat32_alloc_cluster fs s = Some (c, s') \<Longrightarrow> keeps s s'"
  by (auto simp: fat32_alloc_cluster_def split: if_splits intro: alloc_scan_keeps)

lemma extend_chain_keeps [keeps_rules]: "fat32_extend_chain fs l s = Some (c, s') \<Longrightarrow> keeps s s'"
  unfolding fat32_extend_chain_def
  by (auto simp: bind_eq_Some_conv split: if_splits dest!: keeps_rules intro: keeps_trans)

lemma skip_write_keeps: "skip_write fs n c s = Some (d, s') \<Longrightarrow> keeps s s'"
proof (induction n arbitrary: c s)
  case (Suc n)
  show ?case using Suc.prems
    by (auto simp: bind_eq_Some_conv split: if_splits dest!: Suc.IH extend_chain_keeps intro: keeps_trans)
qed simp

lemma read_clusters_keeps: "read_clusters fs buf c off sz acc s = Some p \<Longrightarrow> keeps s (snd p)"
  by (erule read_clusters.raw_induct [rotated, where P = "\<lambda>fs buf c off sz acc s p. keeps s (snd p)"])
    (fastforce simp: bind_eq_Some_conv split: if_splits dest: cluster_keeps intro: keeps_trans)

lemma write_clusters_keeps: "write_clusters fs buf c off sz n data s = Some p \<Longrightarrow> keeps s (snd (snd p))"
  by (erule write_clusters.raw_induct [rotated, where P = "\<lambda>fs buf c off sz n data s p. keeps s (snd (snd p))"])
    (fastforce simp: bind_eq_Some_conv split: if_splits dest: keeps_rules intro: keeps_trans)

lemma find_clusters_keeps: "find_clusters fs nm buf c st s = Some p \<Longrightarrow> keeps s (snd p)"
proof (erule find_clusters.raw_induct [rotated, where P = "\<lambda>fs nm buf c st s p. keeps s (snd p)"])
  fix f fs nm buf c st s p
  assume IH: "\<And>fs nm buf c st s p. f fs nm buf c st s = Some p \<Longrightarrow> keeps s (snd p)"
    and body: "(if c < EOC then do {
          (r, s) \<leftarrow> fat32_read_cluster fs c buf s;
          if r \<noteq> 0 then Some (None, s)
          else do {
            es \<leftarrow> page_entries fs buf s;
            case find_entries nm es st of
              AtEnd \<Rightarrow> Some (None, s)
            | Hit e st \<Rightarrow> Some (Some (e, st), s)
            | NextCluster st _ \<Rightarrow> do { c \<leftarrow> fat32_get_fat_entry fs c s; f fs nm buf c st s }
          }
        } else Some (None, s)) = Some p"
  show "keeps s (snd p)"
  proof (cases "c < EOC")
    case True
    then obtain r t where r: "fat32_read_cluster fs c buf s = Some (r, t)"
      using body by (auto simp: bind_eq_Some_conv)
    note k = cluster_keeps(1) [OF r]
    show ?thesis
    proof (cases "r = 0")
      case ok: True
      then obtain es where es: "page_entries fs buf t = Some es"
        using body True r by (auto simp: bind_eq_Some_conv)
      show ?thesis
        using body True r ok es k by (cases "find_entries nm es st") (auto simp: bind_eq_Some_conv dest!: IH intro: keeps_trans)
    next
      case False
      then show ?thesis using body True r k by auto
    qed
  next
    case False
    then show ?thesis using body by auto
  qed
qed

lemma list_clusters_keeps: "list_clusters fs index buf c st idx s = Some p \<Longrightarrow> keeps s (snd p)"
proof (erule list_clusters.raw_induct [rotated, where P = "\<lambda>fs index buf c st idx s p. keeps s (snd p)"])
  fix f fs index buf c st idx s p
  assume IH: "\<And>fs index buf c st idx s p. f fs index buf c st idx s = Some p \<Longrightarrow> keeps s (snd p)"
    and body: "(if c < EOC then do {
          (r, s) \<leftarrow> fat32_read_cluster fs c buf s;
          if r \<noteq> 0 then Some (None, s)
          else do {
            es \<leftarrow> page_entries fs buf s;
            case list_entries index es st idx of
              AtEnd \<Rightarrow> Some (None, s)
            | Hit e st \<Rightarrow> Some (Some (e, st), s)
            | NextCluster st idx \<Rightarrow> do { c \<leftarrow> fat32_get_fat_entry fs c s; f fs index buf c st idx s }
          }
        } else Some (None, s)) = Some p"
  show "keeps s (snd p)"
  proof (cases "c < EOC")
    case True
    then obtain r t where r: "fat32_read_cluster fs c buf s = Some (r, t)"
      using body by (auto simp: bind_eq_Some_conv)
    note k = cluster_keeps(1) [OF r]
    show ?thesis
    proof (cases "r = 0")
      case ok: True
      then obtain es where es: "page_entries fs buf t = Some es"
        using body True r by (auto simp: bind_eq_Some_conv)
      show ?thesis
        using body True r ok es k by (cases "list_entries index es st idx") (auto simp: bind_eq_Some_conv dest!: IH intro: keeps_trans)
    next
      case False
      then show ?thesis using body True r k by auto
    qed
  next
    case False
    then show ?thesis using body by auto
  qed
qed

lemma find_target_keeps: "find_target fs needed buf c s = Some p \<Longrightarrow> keeps s (snd p)"
  by (erule find_target.raw_induct [rotated, where P = "\<lambda>fs needed buf c s p. keeps s (snd p)"])
    (fastforce simp: bind_eq_Some_conv split: if_splits option.splits dest: keeps_rules intro: keeps_trans)

section \<open>Operations that take and return pages\<close>

lemma alloc_page_cases:
  assumes "sys_ok s" "alloc_page s = (a, t)"
  shows "sys_ok t" "a = 0 \<and> t = s \<or>
    a \<noteq> 0 \<and> high_page a \<and> a \<in> high_frames (fat_pfa s) \<and> high_frames (fat_pfa t) = high_frames (fat_pfa s) - {a}"
    "page t = page s" "disk t = disk s"
proof -
  obtain p where p: "pfa_alloc (fat_pfa s) = (a, p)" "t = s\<lparr>fat_pfa := p\<rparr>"
    using assms(2) by (auto simp: alloc_page_def split: prod.splits)
  have inv: "pfa_inv (fat_pfa s)" using assms(1) by (simp add: sys_ok_def)
  show "sys_ok t" using assms(1) high.alloc_inv [OF inv] p by (simp add: sys_ok_def)
  show "a = 0 \<and> t = s \<or>
    a \<noteq> 0 \<and> high_page a \<and> a \<in> high_frames (fat_pfa s) \<and> high_frames (fat_pfa t) = high_frames (fat_pfa s) - {a}"
  proof (cases "high_frames (fat_pfa s) = {}")
    case True
    then show ?thesis using high.alloc_none [OF True] p by simp
  next
    case False
    then have "a \<in> high_frames (fat_pfa s)" "high_frames p = high_frames (fat_pfa s) - {a}"
      using high.alloc_some [OF inv False] p by auto
    then show ?thesis using p high.frames_nonzero [OF inv] by (auto dest: high_frames_page)
  qed
  show "page t = page s" "disk t = disk s" by (simp_all add: p)
qed

lemma alloc_page_valid:
  "sys_ok s \<Longrightarrow> alloc_page s = (a, t) \<Longrightarrow> sys_ok t \<and> (a = 0 \<or> high_page a)"
  using alloc_page_cases by blast

lemma free_page_valid: "sys_ok s \<Longrightarrow> a = 0 \<or> high_page a \<Longrightarrow> sys_ok (free_page a s)"
proof -
  assume s: "sys_ok s" "a = 0 \<or> high_page a"
  then have "pfa_inv (pfa_free (fat_pfa s) a)"
    using pfa_free_high_step(1) [of "fat_pfa s" a] by (auto simp: sys_ok_def pfa_free_def)
  then show ?thesis using s(1) by (simp add: free_page_def sys_ok_def)
qed

lemma keeps_ok: "keeps s s' \<Longrightarrow> sys_ok s \<Longrightarrow> sys_ok s'"
  by (simp add: keeps_def)

lemma read_ok:
  assumes "sys_ok s" "fat32_read fs node off sz s = Some (r, xs, s')"
  shows "sys_ok s'"
proof -
  obtain buf t where buf: "alloc_page s = (buf, t)" by fastforce
  note t = alloc_page_valid [OF assms(1) buf]
  have "sys_ok (free_page buf u)" if "read_clusters fs buf c o1 n [] t = Some (ys, u)" for c o1 n ys u
    using read_clusters_keeps [OF that] t by (auto intro: free_page_valid keeps_ok)
  then show ?thesis
    using assms buf by (auto simp: fat32_read_def Let_def bind_eq_Some_conv split: if_splits option.splits)
qed

lemma write_ok:
  assumes "sys_ok s" "fat32_write fs node off data s = Some (r, node', s')"
  shows "sys_ok s'"
proof (cases "n_data node = 0")
  case True
  then show ?thesis using assms by (simp add: fat32_write_def Let_def)
next
  case False
  then obtain c t where c: "(if first_cluster node = 0 \<or> first_cluster node \<ge> EOC
      then fat32_alloc_cluster fs s else Some (first_cluster node, s)) = Some (c, t)"
    using assms(2) by (auto simp: fat32_write_def Let_def bind_eq_Some_conv)
  then have t: "sys_ok t" using assms(1) by (auto split: if_splits dest: alloc_cluster_keeps elim: keeps_ok)
  show ?thesis
  proof (cases "c = 0 \<or> cluster_size fs = 0")
    case True
    then show ?thesis using False assms(2) c t by (auto simp: fat32_write_def Let_def split: if_splits)
  next
    case go: False
    then obtain d u where d: "skip_write fs (unat (ucast (off div ucast (cluster_size fs)) :: u32)) c t = Some (d, u)"
      using False assms(2) c by (auto simp: fat32_write_def Let_def bind_eq_Some_conv)
    have u: "sys_ok u" using skip_write_keeps [OF d] t by (rule keeps_ok)
    obtain buf v where v: "alloc_page u = (buf, v)" by fastforce
    show ?thesis
    proof (cases "d = 0")
      case True
      then show ?thesis using False go assms(2) c d u by (simp add: fat32_write_def Let_def)
    next
      case more: False
      then obtain all n w where w: "write_clusters fs buf d (ucast (off mod ucast (cluster_size fs))) (of_nat (length data)) 0 data v
          = Some (all, n, w)" "s' = free_page buf w"
        using False go assms(2) c d v by (auto simp: fat32_write_def Let_def bind_eq_Some_conv)
      have "sys_ok w" using write_clusters_keeps [OF w(1)] alloc_page_valid [OF u v] by (auto elim: keeps_ok)
      then show ?thesis using w(2) alloc_page_valid [OF u v] by (auto intro: free_page_valid)
    qed
  qed
qed

lemma make_child_ok:
  assumes "sys_ok s" "make_child node e st s = Some (child, s')"
  shows "sys_ok s'" "high_page (n_at child)" "high_page (n_data child)"
proof -
  obtain a t where a: "alloc_page s = (a, t)" by fastforce
  obtain b u where b: "alloc_page t = (b, u)" by fastforce
  note t = alloc_page_valid [OF assms(1) a]
  then have u: "sys_ok u \<and> (b = 0 \<or> high_page b)" using alloc_page_valid [OF _ b] by blast
  show "sys_ok s'" "high_page (n_at child)" "high_page (n_data child)"
    using assms(2) a b t u by (auto simp: make_child_def split: if_splits)
qed

lemma finddir_ok:
  assumes "sys_ok s" "fat32_finddir fs node nm s = Some (r, s')"
  shows "sys_ok s' \<and> (\<forall>n. r = Some n \<longrightarrow> high_page (n_at n) \<and> high_page (n_data n))"
proof -
  obtain buf t where buf: "alloc_page s = (buf, t)" by fastforce
  note t = alloc_page_valid [OF assms(1) buf]
  show ?thesis
  proof (cases "n_data node = 0 \<or> buf = 0")
    case True
    then show ?thesis using assms buf t by (auto simp: fat32_finddir_def split: if_splits)
  next
    case False
    then obtain h u where h: "find_clusters fs nm buf (first_cluster node) no_lfn t = Some (h, u)"
      using assms(2) buf by (auto simp: fat32_finddir_def bind_eq_Some_conv)
    have u: "sys_ok u" using find_clusters_keeps [OF h] t by (auto elim: keeps_ok)
    show ?thesis
      using False assms(2) buf h u t
      by (cases h) (auto simp: fat32_finddir_def bind_eq_Some_conv intro!: free_page_valid dest: make_child_ok)
  qed
qed

lemma readdir_ok:
  assumes "sys_ok s" "fat32_readdir fs node index s = Some (r, s')"
  shows "sys_ok s'"
proof -
  obtain buf t where buf: "alloc_page s = (buf, t)" by fastforce
  note t = alloc_page_valid [OF assms(1) buf]
  show ?thesis
  proof (cases "n_data node = 0 \<or> buf = 0")
    case True
    then show ?thesis using assms buf t by (auto simp: fat32_readdir_def split: if_splits)
  next
    case False
    then obtain h u where h: "list_clusters fs index buf (first_cluster node) no_lfn 0 t = Some (h, u)"
      using assms(2) buf by (auto simp: fat32_readdir_def bind_eq_Some_conv)
    have u: "sys_ok u" using list_clusters_keeps [OF h] t by (auto elim: keeps_ok)
    show ?thesis
      using False assms(2) buf h u t
      by (cases h) (auto simp: fat32_readdir_def bind_eq_Some_conv intro!: free_page_valid dest: make_child_ok)
  qed
qed

lemma new_directory_ok:
  assumes "sys_ok s" "new_directory fs parent s = Some (c, s')"
  shows "sys_ok s'"
proof -
  obtain d t where d: "fat32_alloc_cluster fs s = Some (d, t)"
    using assms(2) by (auto simp: new_directory_def bind_eq_Some_conv)
  have t: "sys_ok t" using alloc_cluster_keeps [OF d] assms(1) by (rule keeps_ok)
  obtain buf u where buf: "alloc_page t = (buf, u)" by fastforce
  note u = alloc_page_valid [OF t buf]
  show ?thesis
    using assms(2) d t buf u
    by (auto simp: new_directory_def Let_def bind_eq_Some_conv split: if_splits intro!: free_page_valid
        dest!: store_page_keeps cluster_keeps) (blast intro: keeps_ok)+
qed

lemma create_entry_ok:
  assumes "sys_ok s" "fat32_create_entry fs parent nm attr s = Some (r, s')"
  shows "sys_ok s'"
proof -
  obtain buf t where buf: "alloc_page s = (buf, t)" by fastforce
  note t = alloc_page_valid [OF assms(1) buf]
  show ?thesis
  proof (cases "n_data parent = 0 \<or> buf = 0")
    case True
    then show ?thesis using assms buf t by (auto simp: fat32_create_entry_def split: if_splits)
  next
    case False
    then obtain h u where h: "find_target fs (1 + lfn_count nm) buf (first_cluster parent) t = Some (h, u)"
      using assms(2) buf by (auto simp: fat32_create_entry_def bind_eq_Some_conv)
    have u: "sys_ok u" using find_target_keeps [OF h] t by (auto elim: keeps_ok)
    show ?thesis
    proof (cases h)
      case None
      then show ?thesis using False assms(2) buf h u t by (auto simp: fat32_create_entry_def intro: free_page_valid)
    next
      case (Some tgt)
      obtain tc ti where tgt: "tgt = (tc, ti)" by fastforce
      obtain c v where c: "(if attr AND 0x10 \<noteq> 0 then new_directory fs parent u else Some (0, u)) = Some (c, v)"
        using False assms(2) buf h Some tgt by (auto simp: fat32_create_entry_def bind_eq_Some_conv)
      have v: "sys_ok v" using c u by (auto split: if_splits dest: new_directory_ok)
      show ?thesis
      proof (cases "attr AND 0x10 \<noteq> 0 \<and> c = 0")
        case True
        then show ?thesis using False assms(2) buf h Some tgt c v t
          by (auto simp: fat32_create_entry_def intro: free_page_valid)
      next
        case go: False
        obtain r1 w1 w2 r3 w3 where w: "fat32_read_cluster fs tc buf v = Some (r1, w1)"
          "store_page buf (32 * ti) (concat (name_entries nm attr c)) w1 = Some w2"
          "fat32_write_cluster fs tc buf w2 = Some (r3, w3)" "s' = free_page buf w3"
          using False assms(2) buf h Some tgt c go
          by (auto simp: fat32_create_entry_def bind_eq_Some_conv split: if_splits)
        have "sys_ok w3"
          using cluster_keeps(1) [OF w(1)] store_page_keeps [OF w(2)] cluster_keeps(2) [OF w(3)] v by (blast intro: keeps_ok)
        then show ?thesis using w(4) t by (auto intro: free_page_valid)
      qed
    qed
  qed
qed

lemma create_ok:
  assumes "sys_ok s" "fat32_create fs parent nm flags s = Some (r, s')"
  shows "sys_ok s'"
proof (cases parent)
  case None
  then show ?thesis using assms by (simp add: fat32_create_def)
next
  case (Some p)
  show ?thesis
  proof (cases "n_flags p AND VFS_DIRECTORY = 0")
    case True
    then show ?thesis using assms Some by (simp add: fat32_create_def)
  next
    case False
    then obtain h t where h: "fat32_finddir fs p nm s = Some (h, t)"
      using assms(2) Some by (auto simp: fat32_create_def bind_eq_Some_conv)
    note t = finddir_ok [OF assms(1) h]
    show ?thesis
    proof (cases h)
      case None
      then show ?thesis using assms(2) Some False h t create_entry_ok by (auto simp: fat32_create_def)
    next
      case (Some n)
      then show ?thesis using assms(2) \<open>parent = Some p\<close> False h t
        by (auto simp: fat32_create_def intro!: free_page_valid)
    qed
  qed
qed

section \<open>Mounting\<close>

text \<open>The boot sector is read from the prefix of the page.\<close>

lemma boot_sector_prefix:
  assumes "length xs = 512"
  shows "boot_sector (overlay 0 xs bytes) = boot_sector xs"
proof -
  have "slice i n (overlay 0 xs bytes) = slice i n xs" if "i + n \<le> 512" for i n
    using that assms by (simp add: slice_def overlay_def)
  moreover have "overlay 0 xs bytes ! 13 = xs ! 13" "overlay 0 xs bytes ! 16 = xs ! 16"
    using assms by (simp_all add: overlay_def nth_append)
  ultimately show ?thesis by (simp add: boot_sector_def field8_def field16_def field32_def)
qed

lemma free_page_frames:
  "sys_ok s \<Longrightarrow> high_page a \<Longrightarrow> high_frames (fat_pfa (free_page a s)) = insert a (high_frames (fat_pfa s))"
  using pfa_free_high_step(2) [of "fat_pfa s" a] by (simp add: free_page_def sys_ok_def)

text \<open>One step of a mount: a transfer into a page.  The driver's answer to it:\<close>

definition answer :: "fat_sys \<Rightarrow> u64 \<Rightarrow> u32 \<Rightarrow> int" where
  "answer s lba n = (case read_fault s lba n of None \<Rightarrow> 0 | Some (r, _) \<Rightarrow> r)"

lemma read_sectors_result:
  assumes "sys_ok s" "ahci_read_sectors lba n buf s = Some (r, t)"
  shows "sys_ok t" "fat_pfa t = fat_pfa s" "disk t = disk s"
    "ahci_ready s \<Longrightarrow> read_fault s lba n = None \<Longrightarrow> page t buf = overlay 0 (concat (map (\<lambda>i. disk s (lba + of_nat i)) [0..<unat n])) (page s buf)"
    "ahci_ready s \<Longrightarrow> r = answer s lba n"
  using read_sectors_keeps [OF assms(2)] assms
  by (auto simp: keeps_def ahci_read_sectors_def answer_def Let_def split: if_splits option.splits)

lemma read_sectors_unready: "ahci_read_sectors lba n buf s = Some (0, t) \<Longrightarrow> ahci_ready s"
  by (auto simp: ahci_read_sectors_def split: if_splits)

lemma pages_keep_driver:
  "alloc_page s = (a, t) \<Longrightarrow> ahci_ready t = ahci_ready s \<and> read_fault t = read_fault s"
  "ahci_ready (free_page a s) = ahci_ready s" "read_fault (free_page a s) = read_fault s"
  "ahci_read_sectors lba n buf s = Some (r, t) \<Longrightarrow> ahci_ready t = ahci_ready s \<and> read_fault t = read_fault s"
  by (auto simp: alloc_page_def free_page_def ahci_read_sectors_def Let_def split: prod.splits if_splits option.splits)

section \<open>All operations\<close>

text \<open>A call of one of the operations that changes memory or the disk.\<close>

inductive fat_step :: "fat_sys \<Rightarrow> fat_sys \<Rightarrow> bool" where
  "fat32_read fs node off sz s = Some (r, xs, s') \<Longrightarrow> fat_step s s'"
| "fat32_write fs node off data s = Some (r, node', s') \<Longrightarrow> fat_step s s'"
| "fat32_finddir fs node nm s = Some (found, s') \<Longrightarrow> fat_step s s'"
| "fat32_readdir fs node index s = Some (found, s') \<Longrightarrow> fat_step s s'"
| "fat32_create fs parent nm flags s = Some (r, s') \<Longrightarrow> fat_step s s'"
| "fat32_mkdir_op fs parent nm s = Some (r, s') \<Longrightarrow> fat_step s s'"
| "fat32_mount device s = Some (r, result, s') \<Longrightarrow> fat_step s s'"

inductive fat_reachable :: "fat_sys \<Rightarrow> fat_sys \<Rightarrow> bool" where
  here: "fat_reachable s s"
| step: "fat_reachable s t \<Longrightarrow> fat_step t u \<Longrightarrow> fat_reachable s u"

lemma mount_account:
  assumes ok: "sys_ok s" and m: "fat32_mount device s = Some (r, result, s')"
  shows "sys_ok s' \<and> disk s' = disk s \<and>
    (case result of
       None \<Rightarrow> r = - 1 \<and> high_frames (fat_pfa s') = high_frames (fat_pfa s)
     | Some (fs, root) \<Rightarrow> r = 0 \<and> ahci_ready s \<and> volume_accepted device (bs fs) \<and>
         (read_fault s 0 1 = None \<longrightarrow> bs fs = boot_sector (disk s 0)) \<and> answer s 0 1 = 0 \<and>
         answer s (ucast (reserved_sectors (bs fs))) (if fat_size_32 (bs fs) * 512 > 4096 then 8 else fat_size_32 (bs fs)) = 0 \<and>
         (\<exists>fs_at. high_frames (fat_pfa s) = {fs_at, fat_cache fs, n_at root, n_data root} \<union> high_frames (fat_pfa s')
            \<and> distinct [fs_at, fat_cache fs, n_at root, n_data root]
            \<and> {fs_at, fat_cache fs, n_at root, n_data root} \<inter> high_frames (fat_pfa s') = {}))"
proof -
  obtain a s1 where 1: "alloc_page s = (a, s1)" by fastforce
  note A = alloc_page_cases [OF ok 1]
  show ?thesis
  proof (cases "a = 0")
    case True
    then show ?thesis using m 1 A ok by (auto simp: fat32_mount_def)
  next
    case a: False
    obtain b s2 where 2: "alloc_page s1 = (b, s2)" by fastforce
    note B = alloc_page_cases [OF A(1) 2]
    have a': "high_page a" "a \<in> high_frames (fat_pfa s)" "high_frames (fat_pfa s1) = high_frames (fat_pfa s) - {a}"
      using A(2) a by auto
    show ?thesis
    proof (cases "b = 0")
      case True
      then show ?thesis using m 1 2 a a' A B free_page_valid [OF B(1)] free_page_frames [OF B(1) a'(1)]
        by (auto simp: fat32_mount_def) (auto simp: free_page_def)
    next
      case b: False
      then have b': "high_page b" "b \<in> high_frames (fat_pfa s1)" "high_frames (fat_pfa s2) = high_frames (fat_pfa s1) - {b}"
        using B(2) by auto
      obtain r3 s3 where 3: "ahci_read_sectors 0 1 b s2 = Some (r3, s3)"
        using m 1 2 a b by (auto simp: fat32_mount_def bind_eq_Some_conv)
      note R = read_sectors_result [OF B(1) 3]
      let ?t = "free_page b s3"
      have T: "sys_ok ?t" "high_frames (fat_pfa ?t) = high_frames (fat_pfa s) - {a}" "disk ?t = disk s"
        using free_page_valid [OF R(1)] b' free_page_frames [OF R(1) b'(1)] R(2,3) a'(3) A(4) B(4)
        by (auto simp: free_page_def)
      have fail: "sys_ok (free_page a u) \<and> disk (free_page a u) = disk s \<and> high_frames (fat_pfa (free_page a u)) = high_frames (fat_pfa s)"
        if "sys_ok u" "high_frames (fat_pfa u) = high_frames (fat_pfa s) - {a}" "disk u = disk s" for u
        using that free_page_valid [OF that(1)] free_page_frames [OF that(1) a'(1)] a'(1,2) by (auto simp: free_page_def)
      show ?thesis
      proof (cases "r3 = 0")
        case False
        then show ?thesis using m 1 2 3 a b fail [OF T] by (auto simp: fat32_mount_def)
      next
        case r3: True
        have d2: "ahci_ready s2 = ahci_ready s" "read_fault s2 = read_fault s"
          using pages_keep_driver(1) [OF 1] pages_keep_driver(1) [OF 2] by simp_all
        have rdy: "ahci_ready s" using read_sectors_unready 3 r3 d2(1) by simp
        have boot: "read_fault s 0 1 = None \<longrightarrow> boot_sector (page s3 b) = boot_sector (disk s 0)" "answer s 0 1 = 0"
          using R(4,5) rdy d2 r3 ok boot_sector_prefix [of "disk s 0"] A(4) B(4) by (simp_all add: sys_ok_def answer_def)
        let ?b = "boot_sector (page s3 b)"
        show ?thesis
        proof (cases "volume_accepted device ?b")
          case False
          then show ?thesis using m 1 2 3 a b r3 fail [OF T] by (auto simp: fat32_mount_def mount_root_def Let_def)
        next
          case acc: True
          obtain c s4 where 4: "alloc_page ?t = (c, s4)" by fastforce
          note C = alloc_page_cases [OF T(1) 4]
          show ?thesis
          proof (cases "c = 0")
            case True
            then show ?thesis using m 1 2 3 4 a b r3 acc C fail [OF T] by (auto simp: fat32_mount_def mount_root_def Let_def)
          next
            case c: False
            then have c': "high_page c" "c \<in> high_frames (fat_pfa ?t)" "high_frames (fat_pfa s4) = high_frames (fat_pfa ?t) - {c}"
              using C(2) by auto
            let ?n = "if fat_size_32 ?b * 512 > 4096 then 8 else fat_size_32 ?b"
            obtain r5 s5 where 5: "ahci_read_sectors (ucast (reserved_sectors ?b)) ?n c s4 = Some (r5, s5)"
              using m 1 2 3 4 a b r3 acc c by (auto simp: fat32_mount_def mount_root_def Let_def bind_eq_Some_conv)
            note F = read_sectors_result [OF C(1) 5]
            have ret: "sys_ok (free_page c u)" "high_frames (fat_pfa (free_page c u)) = high_frames (fat_pfa s) - {a}"
              "disk (free_page c u) = disk s"
              if "sys_ok u" "high_frames (fat_pfa u) = high_frames (fat_pfa s4)" "disk u = disk s" for u
              using that free_page_valid [OF that(1)] free_page_frames [OF that(1) c'(1)] c' T(2) by (auto simp: free_page_def)
            have s5: "sys_ok s5" "high_frames (fat_pfa s5) = high_frames (fat_pfa s4)" "disk s5 = disk s"
              using F(1-3) C(4) T(3) by auto
            show ?thesis
            proof (cases "r5 = 0")
              case False
              then show ?thesis using m 1 2 3 4 5 a b r3 acc c fail [OF ret [OF s5]]
                by (auto simp: fat32_mount_def mount_root_def Let_def)
            next
              case r5: True
              have d4: "ahci_ready s4" "read_fault s4 = read_fault s"
                using pages_keep_driver(1) [OF 4] pages_keep_driver(4) [OF 3] rdy d2 by (simp_all add: pages_keep_driver)
              have fat: "answer s (ucast (reserved_sectors ?b)) ?n = 0" using F(5) d4 r5 by (simp add: answer_def)
              obtain d s6 where 6: "alloc_page s5 = (d, s6)" by fastforce
              note D = alloc_page_cases [OF s5(1) 6]
              show ?thesis
              proof (cases "d = 0")
                case True
                then show ?thesis using m 1 2 3 4 5 6 a b r3 r5 acc c D fail [OF ret [OF s5]]
                  by (auto simp: fat32_mount_def mount_root_def Let_def)
              next
                case d: False
                then have d': "high_page d" "d \<in> high_frames (fat_pfa s5)" "high_frames (fat_pfa s6) = high_frames (fat_pfa s5) - {d}"
                  using D(2) by auto
                obtain e s7 where 7: "alloc_page s6 = (e, s7)" by fastforce
                note E = alloc_page_cases [OF D(1) 7]
                show ?thesis
                proof (cases "e = 0")
                  case True
                  then have "s7 = s6" using E(2) by simp
                  have "sys_ok (free_page d s6)" "high_frames (fat_pfa (free_page d s6)) = high_frames (fat_pfa s4)"
                    "disk (free_page d s6) = disk s"
                    using free_page_valid [OF D(1)] free_page_frames [OF D(1) d'(1)] d' s5 D(4) by (auto simp: free_page_def)
                  from fail [OF ret [OF this]] show ?thesis
                    using m 1 2 3 4 5 6 7 a b r3 r5 acc c d True \<open>s7 = s6\<close> by (auto simp: fat32_mount_def mount_root_def Let_def)
                next
                  case e: False
                  then have e': "e \<in> high_frames (fat_pfa s6)" "high_frames (fat_pfa s7) = high_frames (fat_pfa s6) - {e}"
                    using E(2) by auto
                  have res: "r = 0" "s' = s7" "result = Some (mount_fs ?b c, \<lparr>n_at = d, n_data = e, n_name = [0x2F],
                      n_size = 0, n_flags = VFS_DIRECTORY, first_cluster = root_cluster ?b, parent_cluster = 0\<rparr>)"
                    using m 1 2 3 4 5 6 7 a b r3 r5 acc c d e by (auto simp: fat32_mount_def mount_root_def Let_def)
                  have pages: "high_frames (fat_pfa s) = {a, c, d, e} \<union> high_frames (fat_pfa s7) \<and> distinct [a, c, d, e] \<and>
                      {a, c, d, e} \<inter> high_frames (fat_pfa s7) = {}"
                    using s5(2) a' c' d' e' T(2) by auto
                  have "sys_ok s7" "disk s7 = disk s" using E(1,4) D(4) s5(3) by simp_all
                  then show ?thesis using res acc pages boot fat rdy by (simp add: mount_fs_def exI [of _ a] split del: if_split cong: if_cong)
                qed
              qed
            qed
          qed
        qed
      qed
    qed
  qed
qed

lemma fat_step_ok: "fat_step s s' \<Longrightarrow> sys_ok s \<Longrightarrow> sys_ok s'"
proof (induction rule: fat_step.induct)
  case (6 fs parent nm s r s')
  then show ?case unfolding fat32_mkdir_op_def by (rule create_ok [rotated])
next
  case (7 device s r result s')
  then show ?case using mount_account by blast
qed (auto intro: read_ok write_ok readdir_ok create_ok dest: finddir_ok)

section \<open>Properties\<close>

text \<open>Whatever sequence of reads, writes, searches, listings, creations and mounts is run,
  every page keeps 4096 bytes, every sector 512, and the frame allocator keeps its invariant.\<close>

theorem fat_sizes_preserved:
  assumes "fat_reachable s s'" "sys_ok s"
  shows "sys_ok s'"
  using assms by (induction rule: fat_reachable.induct) (auto intro: fat_step_ok)

theorem fat_sizes_preserved_witness:
  "\<exists>s'. fat32_mount None (demo_sys\<lparr>ahci_ready := False\<rparr>) = Some (- 1, None, s') \<and> sys_ok s'"
proof -
  let ?s = "demo_sys\<lparr>ahci_ready := False\<rparr>"
  have ok: "sys_ok ?s" using demo_vol_ok by (simp add: fat_ok_def sys_ok_def)
  obtain a t where a: "alloc_page ?s = (a, t)" by fastforce
  obtain b u where b: "alloc_page t = (b, u)" by fastforce
  have "\<not> ahci_ready u" using a b by (auto simp: alloc_page_def split: prod.splits)
  then obtain s' where s': "fat32_mount None ?s = Some (- 1, None, s')"
    using a b by (cases "a = 0"; cases "b = 0") (auto simp: fat32_mount_def mount_root_def ahci_read_sectors_def)
  then have "fat_reachable ?s s'" by (intro fat_reachable.step [OF fat_reachable.here] fat_step.intros(7))
  with s' ok show ?thesis using fat_sizes_preserved by blast
qed

text \<open>C31. A mount that fails, for want of memory, for a volume it does not accept or because the driver reports
  an error for the boot sector or for the FAT, gives back every page it took and leaves the disk alone.  One that
  succeeds has had the answer 0 to both transfers, has an accepted boot sector, the one in sector 0 if that transfer was complete, and keeps
  exactly four pages, those of the file system, the FAT cache, the root node and its data.\<close>

theorem fat32_mount_accounts_for_pages:
  assumes "sys_ok s" "fat32_mount device s = Some (r, result, s')"
  shows "disk s' = disk s \<and>
    (case result of
       None \<Rightarrow> r = - 1 \<and> high_frames (fat_pfa s') = high_frames (fat_pfa s)
     | Some (fs, root) \<Rightarrow> r = 0 \<and> ahci_ready s \<and> volume_accepted device (bs fs) \<and>
         (read_fault s 0 1 = None \<longrightarrow> bs fs = boot_sector (disk s 0)) \<and> answer s 0 1 = 0 \<and>
         answer s (ucast (reserved_sectors (bs fs))) (if fat_size_32 (bs fs) * 512 > 4096 then 8 else fat_size_32 (bs fs)) = 0 \<and>
         (\<exists>fs_at. high_frames (fat_pfa s) = {fs_at, fat_cache fs, n_at root, n_data root} \<union> high_frames (fat_pfa s')
            \<and> distinct [fs_at, fat_cache fs, n_at root, n_data root]
            \<and> {fs_at, fat_cache fs, n_at root, n_data root} \<inter> high_frames (fat_pfa s') = {}))"
  using mount_account [OF assms] by blast

text \<open>A disk with an acceptable boot sector whose sector 1, the start of the FAT, cannot be read.\<close>

definition demo_boot :: "u8 list" where
  "demo_boot = replicate 11 0 @ [0, 2, 1, 1, 0, 1] @ replicate 15 0 @ [10, 0, 0, 0] @ [1, 0, 0, 0] @ replicate 4 0 @
     [2, 0, 0, 0] @ replicate 464 0"

definition bad_disk :: fat_sys where
  "bad_disk = demo_sys\<lparr>disk := (\<lambda>l. if l = 0 then demo_boot else replicate 512 0),
     read_fault := (\<lambda>l n. if l = 1 then Some (- 1, []) else None)\<rparr>"

lemma demo_boot_fields:
  "length demo_boot = 512" "reserved_sectors (boot_sector demo_boot) = 1" "fat_size_32 (boot_sector demo_boot) = 1"
  "volume_accepted None (boot_sector demo_boot)"
  by (simp_all add: demo_boot_def boot_sector_def volume_accepted_def field8_def field16_def field32_def slice_def nth_append)

lemma bad_disk_mount: "\<exists>s'. fat32_mount None bad_disk = Some (- 1, None, s')"
proof -
  obtain a t where a: "alloc_page bad_disk = (a, t)" by fastforce
  obtain b u where b: "alloc_page t = (b, u)" by fastforce
  have u: "ahci_ready u" "disk u 0 = demo_boot" "read_fault u 0 1 = None" "read_fault u = read_fault bad_disk"
    using a b by (auto simp: alloc_page_def bad_disk_def demo_sys_def split: prod.splits)
  let ?v = "u\<lparr>page := (page u)(b := overlay 0 demo_boot (page u b))\<rparr>"
  have r1: "ahci_read_sectors 0 1 b u = Some (0, ?v)" if "b \<noteq> 0"
    using that u by (simp add: ahci_read_sectors_def)
  have boot: "boot_sector (overlay 0 demo_boot (page u b)) = boot_sector demo_boot" by (rule boot_sector_prefix) (rule demo_boot_fields)
  obtain c w where c: "alloc_page (free_page b ?v) = (c, w)" by fastforce
  have w: "ahci_ready w" "read_fault w 1 1 = Some (- 1, [])"
    using pages_keep_driver(1) [OF c] u by (simp_all add: pages_keep_driver bad_disk_def)
  obtain w' where r2: "c \<noteq> 0 \<Longrightarrow> ahci_read_sectors 1 1 c w = Some (- 1, w')"
    using w by (auto simp: ahci_read_sectors_def)
  show ?thesis
    using r1 r2 by (cases "a = 0"; cases "b = 0"; cases "c = 0")
      (simp_all add: fat32_mount_def a b c boot demo_boot_fields Let_def)
qed

theorem fat32_mount_accounts_for_pages_witness:
  "\<exists>s'. fat32_mount None bad_disk = Some (- 1, None, s') \<and> high_frames (fat_pfa s') = high_frames demo_high_pfa"
proof -
  have ok: "sys_ok bad_disk" using demo_vol_ok demo_boot_fields(1) by (simp add: fat_ok_def sys_ok_def bad_disk_def)
  obtain s' where m: "fat32_mount None bad_disk = Some (- 1, None, s')" using bad_disk_mount ..
  from fat32_mount_accounts_for_pages [OF ok m] m show ?thesis by (auto simp: bad_disk_def demo_sys_def)
qed

end
