(* ===== verification/Elf.thy ===== *)
theory Elf
  imports VirtMem Bytes
begin

text \<open>
  The ELF loader of \<open>core/elf.c\<close>.  The image is the list of its bytes.  The loader maps fresh
  low frames for every loadable segment through \<open>map_page\<close>, copies the bytes of the segment to
  their virtual addresses and enters the program in ring 3.

  The bytes of the frames are a memory of their own, beside the page tables in \<open>vm_mem\<close>: the
  frame allocator hands out each frame once.  A store goes through the translation of the
  processor and faults when the page is not mapped, or when SMAP is on (bit 21 of \<open>cr4\<close>), the
  page is a user page and the AC flag is clear.  A result \<open>None\<close> is such a fault, a read
  beyond the image, or a mapping loop that does not end.  Whether the processor has SMAP, as
  CPUID reports it, is an argument.  The console messages and fences are left out.
\<close>

section \<open>State\<close>

record elf_world =
  e_vm :: vm
  frame_mem :: "u64 \<Rightarrow> u8"      \<comment> \<open>by physical address\<close>
  cr4 :: u64
  ac_flag :: bool

definition user_addr :: "elf_world \<Rightarrow> u64 \<Rightarrow> u64 option" where
  "user_addr w va =
     (case translate (e_vm w) va of
        None \<Rightarrow> None
      | Some e \<Rightarrow>
          if bit (cr4 w) 21 \<and> e AND PAGE_USER \<noteq> 0 \<and> \<not> ac_flag w then None
          else Some ((e AND PADDR_MASK) + (va AND 0xFFF)))"

text \<open>\<open>elf_memcpy\<close> and \<open>elf_memset\<close>: stores to consecutive virtual addresses.\<close>

primrec elf_store :: "u64 \<Rightarrow> u8 list \<Rightarrow> elf_world \<Rightarrow> elf_world option" where
  "elf_store va [] w = Some w"
| "elf_store va (b # bs) w =
     (case user_addr w va of
        None \<Rightarrow> None
      | Some p \<Rightarrow> elf_store (va + 1) bs (w\<lparr>frame_mem := (frame_mem w)(p := b)\<rparr>))"

section \<open>Headers\<close>

record elf64_hdr =
  e_entry :: u64
  e_phoff :: u64
  e_phentsize :: u16
  e_phnum :: u16

record elf64_phdr =
  p_type :: u32
  p_flags :: u32
  p_offset :: u64
  p_vaddr :: u64
  p_filesz :: u64
  p_memsz :: u64

definition read_hdr :: "u8 list \<Rightarrow> elf64_hdr" where
  "read_hdr data = \<lparr>e_entry = field64 24 data, e_phoff = field64 32 data, e_phentsize = field16 54 data,
     e_phnum = field16 56 data\<rparr>"

definition read_phdr :: "u8 list \<Rightarrow> u64 \<Rightarrow> elf64_phdr option" where
  "read_phdr data at =
     (if unat at + 56 \<le> length data then
        let p = unat at in
        Some \<lparr>p_type = field32 p data, p_flags = field32 (p + 4) data, p_offset = field64 (p + 8) data,
          p_vaddr = field64 (p + 16) data, p_filesz = field64 (p + 32) data, p_memsz = field64 (p + 40) data\<rparr>
      else None)"

definition read_image :: "u8 list \<Rightarrow> u64 \<Rightarrow> u64 \<Rightarrow> u8 list option" where
  "read_image data off n =
     (if n = 0 then Some []
      else if unat off + unat n \<le> length data then Some (slice (unat off) (unat n) data) else None)"

section \<open>Segments\<close>

partial_function (option) map_segment :: "u64 \<Rightarrow> u64 \<Rightarrow> u64 \<Rightarrow> elf_world \<Rightarrow> (bool \<times> elf_world) option" where
  "map_segment v page_end seg_flags w =
     (if v < page_end then
        case pfa_alloc_low (vm_pfa (e_vm w)) of (phys, p) \<Rightarrow>
          if phys = 0 then Some (False, w\<lparr>e_vm := (e_vm w)\<lparr>vm_pfa := p\<rparr>\<rparr>)
          else map_segment (v + 4096) page_end seg_flags
                 (w\<lparr>e_vm := map_page phys v seg_flags ((e_vm w)\<lparr>vm_pfa := p\<rparr>)\<rparr>)
      else Some (True, w))"

datatype load_result = Loaded | Failed int

definition segment_flags :: "elf64_phdr \<Rightarrow> u64" where
  "segment_flags ph =
     (PAGE_PRESENT OR PAGE_RW OR PAGE_USER) OR (if p_flags ph AND 1 = 0 then PAGE_NO_EXEC else 0)"

definition page_start :: "elf64_phdr \<Rightarrow> u64" where
  "page_start ph = p_vaddr ph AND NOT 0xFFF"

definition page_end :: "elf64_phdr \<Rightarrow> u64" where
  "page_end ph = (p_vaddr ph + p_memsz ph + 0xFFF) AND NOT 0xFFF"

definition load_segment :: "bool \<Rightarrow> u8 list \<Rightarrow> elf64_phdr \<Rightarrow> elf_world \<Rightarrow> (load_result \<times> elf_world) option" where
  "load_segment has_smap data ph w =
     (if p_type ph \<noteq> 1 then Some (Loaded, w)
      else if p_offset ph + p_filesz ph > of_nat (length data) then Some (Failed (- 4), w)
      else do {
        (ok, w) \<leftarrow> map_segment (page_start ph) (page_end ph) (segment_flags ph) w;
        if \<not> ok then Some (Failed (- 5), w)
        else do {
          bytes \<leftarrow> read_image data (p_offset ph) (p_filesz ph);
          w \<leftarrow> elf_store (p_vaddr ph) bytes (if has_smap then w\<lparr>ac_flag := True\<rparr> else w);
          w \<leftarrow> (if p_memsz ph > p_filesz ph
               then elf_store (p_vaddr ph + p_filesz ph) (replicate (unat (p_memsz ph - p_filesz ph)) 0) w
               else Some w);
          Some (Loaded, if has_smap then w\<lparr>ac_flag := False\<rparr> else w)
        }
      })"

text \<open>The loop over the program headers, with \<open>n\<close> of them left.\<close>

primrec load_segments :: "nat \<Rightarrow> nat \<Rightarrow> bool \<Rightarrow> u8 list \<Rightarrow> elf_world \<Rightarrow> (load_result \<times> elf_world) option" where
  "load_segments 0 i has_smap data w = Some (Loaded, w)"
| "load_segments (Suc n) i has_smap data w =
     do {
       ph \<leftarrow> read_phdr data (e_phoff (read_hdr data) + of_nat i * ucast (e_phentsize (read_hdr data)));
       (r, w) \<leftarrow> load_segment has_smap data ph w;
       (case r of Failed e \<Rightarrow> Some (Failed e, w) | Loaded \<Rightarrow> load_segments n (i + 1) has_smap data w)
     }"

section \<open>Stack and entry\<close>

definition INIT_STACK_PAGES :: nat where "INIT_STACK_PAGES = 4"
definition INIT_STACK_TOP :: u64 where "INIT_STACK_TOP = 0x0000700000000000"

definition stack_flags :: u64 where
  "stack_flags = PAGE_PRESENT OR PAGE_RW OR PAGE_USER OR PAGE_NO_EXEC"

primrec map_stack :: "nat \<Rightarrow> nat \<Rightarrow> elf_world \<Rightarrow> bool \<times> elf_world" where
  "map_stack 0 p w = (True, w)"
| "map_stack (Suc n) p w =
     (case pfa_alloc_low (vm_pfa (e_vm w)) of (phys, q) \<Rightarrow>
        if phys = 0 then (False, w\<lparr>e_vm := (e_vm w)\<lparr>vm_pfa := q\<rparr>\<rparr>)
        else map_stack n (p + 1)
               (w\<lparr>e_vm := map_page phys (INIT_STACK_TOP - of_nat (p + 1) * 4096) stack_flags ((e_vm w)\<lparr>vm_pfa := q\<rparr>)\<rparr>))"

datatype elf_outcome = ElfError int | Enter u64 u64 u64   \<comment> \<open>RIP, RSP and RDI in ring 3\<close>

definition elf64_load_and_run :: "bool \<Rightarrow> u8 list option \<Rightarrow> u64 \<Rightarrow> elf_world \<Rightarrow> (elf_outcome \<times> elf_world) option" where
  "elf64_load_and_run has_smap img print_fn w =
     (case img of
        None \<Rightarrow> Some (ElfError (- 1), w)
      | Some data \<Rightarrow>
          if length data < 64 then Some (ElfError (- 1), w)
          else if data ! 0 \<noteq> 0x7F \<or> data ! 1 \<noteq> 0x45 \<or> data ! 2 \<noteq> 0x4C \<or> data ! 3 \<noteq> 0x46
          then Some (ElfError (- 2), w)
          else if data ! 4 \<noteq> 2 then Some (ElfError (- 3), w)
          else do {
            (r, w) \<leftarrow> load_segments (unat (e_phnum (read_hdr data))) 0 has_smap data w;
            (case r of
               Failed e \<Rightarrow> Some (ElfError e, w)
             | Loaded \<Rightarrow>
                 (case map_stack INIT_STACK_PAGES 0 w of
                    (False, w) \<Rightarrow> Some (ElfError (- 6), w)
                  | (True, w) \<Rightarrow>
                      Some (Enter (e_entry (read_hdr data)) INIT_STACK_TOP print_fn,
                            w\<lparr>cr4 := cr4 w AND NOT (push_bit 20 1 OR push_bit 21 1)\<rparr>)))
          })"

end
