(* ===== verification/Syscall.thy ===== *)
theory Syscall
  imports Vfs Input Console Elf
begin

text \<open>
  The system calls of \<open>core/syscall.c\<close>.  They join the file systems, the console, the keyboard
  and the ELF loader, which share one frame allocator: \<open>fs_of\<close> and \<open>put_fs\<close> hand the allocator
  of the address space to the file systems and back.  Pointers of the program are virtual
  addresses; an access to a page that is not mapped, or that SMAP forbids, is a fault, the result
  \<open>None\<close>.  The buffers of the program lie in user pages, beside the page tables and the file
  pages.

  The environment of a call gives the font, the bytes the ports return, what polling the USB
  keyboard does, whether the processor has SMAP, the addresses of \<open>fb_puts\<close> and of the assembly
  entry, and whether \<open>CONFIG_VFS\<close> is defined where the file is compiled.  \<open>syscall.c\<close> does not
  include \<open>autoconf.h\<close>, so in the build of the repository it is not.  The messages of \<open>kprintf\<close>
  are left out, except that \<open>%s\<close> reads the string.
\<close>

section \<open>State\<close>

record sys_env =
  env_font :: "nat \<Rightarrow> u8"
  env_ports :: ports
  env_usb :: "nat \<Rightarrow> nat \<Rightarrow> input \<Rightarrow> input"
  env_smap :: bool
  env_fb_puts :: u64
  env_entry :: u64
  env_vfs :: bool

record sys_world =
  s_fs :: fs_world
  s_elf :: elf_world
  s_in :: input
  s_con :: console
  s_cwd :: string
  s_outw :: "(u16 \<times> u16) list"    \<comment> \<open>words written to ports, latest first\<close>
  s_msr :: "u32 \<Rightarrow> u64"

definition fs_of :: "sys_world \<Rightarrow> fs_world" where
  "fs_of w = (s_fs w)\<lparr>fs_pfa := vm_pfa (e_vm (s_elf w))\<rparr>"

definition put_fs :: "fs_world \<Rightarrow> sys_world \<Rightarrow> sys_world" where
  "put_fs fs w = w\<lparr>s_fs := fs, s_elf := (s_elf w)\<lparr>e_vm := (e_vm (s_elf w))\<lparr>vm_pfa := fs_pfa fs\<rparr>\<rparr>\<rparr>"

text \<open>What a call does: return to the program, enter a new one, or halt the processor.\<close>

datatype sys_outcome = Ret int | Entered u64 u64 u64 | Halted

section \<open>Strings of the program\<close>

definition user_load :: "u64 \<Rightarrow> elf_world \<Rightarrow> u8 option" where
  "user_load va w = (case user_addr w va of None \<Rightarrow> None | Some p \<Rightarrow> Some (frame_mem w p))"

definition char_of_byte :: "u8 \<Rightarrow> char" where "char_of_byte b = char_of (unat b)"

partial_function (option) user_string :: "u64 \<Rightarrow> elf_world \<Rightarrow> string option" where
  "user_string va w =
     do {
       b \<leftarrow> user_load va w;
       if b = 0 then Some []
       else do {
         cs \<leftarrow> user_string (va + 1) w;
         Some (char_of_byte b # cs)
       }
     }"

definition store_user :: "u64 \<Rightarrow> u8 list \<Rightarrow> sys_world \<Rightarrow> sys_world option" where
  "store_user va bs w = do { e \<leftarrow> elf_store va bs (s_elf w); Some (w\<lparr>s_elf := e\<rparr>) }"

section \<open>Console and keyboard\<close>

primrec write_chars :: "sys_env \<Rightarrow> nat \<Rightarrow> u64 \<Rightarrow> sys_world \<Rightarrow> sys_world option" where
  "write_chars e 0 buf w = Some w"
| "write_chars e (Suc n) buf w =
     do {
       b \<leftarrow> user_load buf (s_elf w);
       write_chars e n (buf + 1) (w\<lparr>s_con := fb_putc (env_font e) (char_of_byte b) (s_con w)\<rparr>)
     }"

definition sys_write :: "sys_env \<Rightarrow> int \<Rightarrow> u64 \<Rightarrow> u64 \<Rightarrow> sys_world \<Rightarrow> (sys_outcome \<times> sys_world) option" where
  "sys_write e fd buf count w =
     (if buf = 0 \<or> count = 0 then Some (Ret (- 1), w)
      else if fd = 1 \<or> fd = 2 then do { w \<leftarrow> write_chars e (unat count) buf w; Some (Ret (sint count), w) }
      else Some (Ret (- 1), w))"

text \<open>The loop of \<open>sys_read\<close> at position \<open>i\<close>, with \<open>n\<close> characters left.\<close>

primrec read_chars :: "sys_env \<Rightarrow> nat \<Rightarrow> nat \<Rightarrow> u64 \<Rightarrow> sys_world \<Rightarrow> (nat \<times> sys_world) option" where
  "read_chars e 0 i buf w = Some (i, w)"
| "read_chars e (Suc n) i buf w =
     do {
       (c, inp) \<leftarrow> ps2_getchar (env_ports e) (env_usb e i) (s_in w);
       let w = w\<lparr>s_in := inp\<rparr> in
       if c < 0 then Some (i, w)
       else do {
         w \<leftarrow> store_user (buf + of_nat i) [of_int c] w;
         if c = 10 then Some (i + 1, w) else read_chars e n (i + 1) buf w
       }
     }"

definition sys_read :: "sys_env \<Rightarrow> int \<Rightarrow> u64 \<Rightarrow> u64 \<Rightarrow> sys_world \<Rightarrow> (sys_outcome \<times> sys_world) option" where
  "sys_read e fd buf count w =
     (if buf = 0 \<or> count = 0 then Some (Ret (- 1), w)
      else if fd = 0 then do { (n, w) \<leftarrow> read_chars e (unat count) 0 buf w; Some (Ret (sint (of_nat n :: u64)), w) }
      else Some (Ret (- 1), w))"

section \<open>Files\<close>

definition sys_open :: "sys_env \<Rightarrow> u64 \<Rightarrow> sys_world \<Rightarrow> (sys_outcome \<times> sys_world) option" where
  "sys_open e path w =
     (if path = 0 then Some (Ret (- 1), w)
      else do {
        p \<leftarrow> user_string path (s_elf w);
        if env_vfs e then do {
          node \<leftarrow> vfs_resolve_path p (fs_of w);
          Some (Ret (if node = None then - 1 else 3), w)
        }
        else Some (Ret (- 1), w)
      })"

definition sys_close :: "int \<Rightarrow> sys_world \<Rightarrow> (sys_outcome \<times> sys_world) option" where
  "sys_close fd w = Some (Ret (if fd < 3 then - 1 else 0), w)"

definition EXEC_MAX_SIZE :: u64 where "EXEC_MAX_SIZE = 1024 * 1024"

definition sys_exec :: "sys_env \<Rightarrow> string \<Rightarrow> sys_world \<Rightarrow> (sys_outcome \<times> sys_world) option" where
  "sys_exec e path w =
     do {
       (fd, fs) \<leftarrow> vfs_open path 0 (fs_of w);
       if fd < 0 then Some (Ret (- 1), put_fs fs w)
       else do {
         (n, bytes, fs) \<leftarrow> vfs_read fd EXEC_MAX_SIZE fs;
         (r, fs) \<leftarrow> vfs_close fd fs;
         let w = put_fs fs w in
         if n \<le> 0 then Some (Ret (- 2), w)
         else do {
           (oc, elf) \<leftarrow> elf64_load_and_run (env_smap e) (Some bytes) (env_fb_puts e) (s_elf w);
           let w = w\<lparr>s_elf := elf\<rparr> in
           Some (case oc of ElfError r \<Rightarrow> Ret r | Enter rip rsp rdi \<Rightarrow> Entered rip rsp rdi, w)
         }
       }
     }"

definition exec_call :: "sys_env \<Rightarrow> u64 \<Rightarrow> sys_world \<Rightarrow> (sys_outcome \<times> sys_world) option" where
  "exec_call e path w =
     (if path = 0 then Some (Ret (- 1), w)
      else do { p \<leftarrow> user_string path (s_elf w); sys_exec e p w })"

text \<open>\<open>cli; hlt\<close> does not return.\<close>

definition sys_exit :: "sys_env \<Rightarrow> sys_world \<Rightarrow> (sys_outcome \<times> sys_world) option" where
  "sys_exit e w =
     do {
       (oc, w) \<leftarrow> sys_exec e ''/System/Rhoudveine/Programs/rash'' w;
       Some (case oc of Ret r \<Rightarrow> Halted | _ \<Rightarrow> oc, w)
     }"

definition sys_mkdir :: "sys_env \<Rightarrow> u64 \<Rightarrow> sys_world \<Rightarrow> (sys_outcome \<times> sys_world) option" where
  "sys_mkdir e path w =
     (if path = 0 then Some (Ret (- 1), w)
      else do {
        p \<leftarrow> user_string path (s_elf w);
        if env_vfs e then do { (r, fs) \<leftarrow> vfs_mkdir p (fs_of w); Some (Ret r, put_fs fs w) }
        else Some (Ret (- 1), w)
      })"

text \<open>The stored bytes of a \<open>struct dirent\<close>.  \<open>stac\<close> is an invalid opcode on a processor without
  SMAP.\<close>

definition dirent_bytes :: "dirent \<Rightarrow> u8 list" where
  "dirent_bytes d = bytes32 (de_inode d) @ map of_char (de_name d) @ replicate (256 - length (de_name d)) 0 @ [de_type d]"

definition sys_readdir :: "sys_env \<Rightarrow> int \<Rightarrow> u64 \<Rightarrow> sys_world \<Rightarrow> (sys_outcome \<times> sys_world) option" where
  "sys_readdir e fd dirp w =
     (if dirp = 0 then Some (Ret (- 1), w)
      else if \<not> env_smap e then None
      else
        let w = w\<lparr>s_elf := (s_elf w)\<lparr>ac_flag := True\<rparr>\<rparr>;
            (r, ent, fs) = vfs_readdir fd (fs_of w) in
        do {
          w \<leftarrow> (case ent of None \<Rightarrow> Some w | Some d \<Rightarrow> store_user dirp (dirent_bytes d) w);
          let w = put_fs fs w in
          Some (Ret r, w\<lparr>s_elf := (s_elf w)\<lparr>ac_flag := False\<rparr>\<rparr>)
        })"

section \<open>Working directory\<close>

text \<open>\<open>cwd\<close> is an array of 256 bytes; a longer path overruns it.\<close>

definition sys_getcwd :: "u64 \<Rightarrow> u64 \<Rightarrow> sys_world \<Rightarrow> (sys_outcome \<times> sys_world) option" where
  "sys_getcwd buf sz w =
     (if buf = 0 \<or> sz = 0 then Some (Ret (- 1), w)
      else if of_nat (length (s_cwd w)) \<ge> sz then Some (Ret (- 1), w)
      else do {
        w' \<leftarrow> store_user buf (map of_char (s_cwd w) @ [0]) w;
        Some (Ret (int (length (s_cwd w))), w')
      })"

definition sys_chdir :: "sys_env \<Rightarrow> u64 \<Rightarrow> sys_world \<Rightarrow> (sys_outcome \<times> sys_world) option" where
  "sys_chdir e path w =
     (if path = 0 then Some (Ret (- 1), w)
      else do {
        p \<leftarrow> user_string path (s_elf w);
        if env_vfs e then do {
          node \<leftarrow> vfs_resolve_path p (fs_of w);
          (case node of
             None \<Rightarrow> Some (Ret (- 1), w)
           | Some n \<Rightarrow>
               if \<not> is_dir (nodes (s_fs w) n) then Some (Ret (- 1), w)
               else if length p \<ge> 256 then None
               else Some (Ret 0, w\<lparr>s_cwd := p\<rparr>))
        }
        else Some (Ret (- 1), w)
      })"

section \<open>Processes and power\<close>

definition sys_waitpid :: "u64 \<Rightarrow> sys_world \<Rightarrow> (sys_outcome \<times> sys_world) option" where
  "sys_waitpid status w =
     (if status = 0 then Some (Ret 0, w)
      else do { w \<leftarrow> store_user status [0, 0, 0, 0] w; Some (Ret 0, w) })"

partial_function (option) wait_8042 :: "ports \<Rightarrow> input \<Rightarrow> input option" where
  "wait_8042 hw s =
     (case inb_ps2 hw 0x64 s of (good, s) \<Rightarrow> if good AND 2 \<noteq> 0 then wait_8042 hw s else Some s)"

definition sys_reboot :: "sys_env \<Rightarrow> sys_world \<Rightarrow> (sys_outcome \<times> sys_world) option" where
  "sys_reboot e w = do { inp \<leftarrow> wait_8042 (env_ports e) (s_in w); Some (Ret 0, w\<lparr>s_in := outb_ps2 0x64 0xFE inp\<rparr>) }"

definition sys_shutdown :: "sys_world \<Rightarrow> (sys_outcome \<times> sys_world) option" where
  "sys_shutdown w = Some (Ret 0, w\<lparr>s_outw := (0x4004, 0x31BE) # (0x604, 0x2000) # s_outw w\<rparr>)"

section \<open>The dispatcher\<close>

text \<open>The conversion \<open>(int)arg\<close>.\<close>

definition to_int :: "u64 \<Rightarrow> int" where "to_int a = sint (ucast a :: u32)"

definition syscall_handler :: "sys_env \<Rightarrow> u64 \<Rightarrow> u64 \<Rightarrow> u64 \<Rightarrow> u64 \<Rightarrow> sys_world \<Rightarrow> (sys_outcome \<times> sys_world) option" where
  "syscall_handler e num arg1 arg2 arg3 w =
     (if num = 0 then sys_exit e w
      else if num = 1 then sys_write e (to_int arg1) arg2 arg3 w
      else if num = 2 then sys_read e (to_int arg1) arg2 arg3 w
      else if num = 3 then sys_open e arg1 w
      else if num = 4 then sys_close (to_int arg1) w
      else if num = 5 then exec_call e arg1 w
      else if num = 6 then Some (Ret 0, w)
      else if num = 7 then Some (Ret 1, w)
      else if num = 8 then sys_waitpid arg2 w
      else if num = 9 then Some (Ret (- 1), w)
      else if num = 10 then sys_getcwd arg1 arg2 w
      else if num = 11 then sys_chdir e arg1 w
      else if num = 12 then sys_mkdir e arg1 w
      else if num = 13 then Some (Ret (- 1), w)
      else if num = 14 then sys_readdir e (to_int arg1) arg2 w
      else if num = 15 then sys_reboot e w
      else if num = 16 then sys_shutdown w
      else Some (Ret (- 1), w))"

text \<open>\<open>wrmsr\<close> splits the value in two halves and the processor joins them.\<close>

definition syscall_init :: "sys_env \<Rightarrow> sys_world \<Rightarrow> sys_world" where
  "syscall_init e w =
     (let efer = s_msr w 0xC0000080;
          star = push_bit 32 0x08 OR push_bit 48 0x10 in
      w\<lparr>s_msr := (s_msr w)(0xC0000080 := efer OR 1, 0xC0000081 := star, 0xC0000082 := env_entry e, 0xC0000084 := 0x200)\<rparr>)"

end
