(* ===== verification/ElfProps.thy ===== *)
theory ElfProps
  imports Elf
begin

text \<open>
  Correctness of the ELF loader: the invariant that ties the pages it has mapped to their frames,
  what storing bytes and loading a segment do to the memory that the program will see, and the
  result of the whole loader.
\<close>

section \<open>Pages of user addresses\<close>

definition page_of :: "u64 \<Rightarrow> u64" where "page_of va = va AND NOT 0xFFF"

lemma unat_page_of: "unat (page_of va) = unat va div 4096 * 4096"
  unfolding page_of_def by (rule unat_page_mask)

lemma unat_offset: "unat (va AND 0xFFF) = unat va mod 4096" for va :: u64
  using unat_page_offset [of va] by simp

lemma page_of_same: "same_page va (page_of va)"
  unfolding same_page_unat unat_page_of by simp

lemma table_index_same:
  assumes "same_page va vb" "1 \<le> k" "k \<le> 4"
  shows "table_index k va = table_index k vb"
proof (rule bit_word_eqI)
  fix j
  have mask: "(0xFFFFFFFFF :: u64) = mask 36" "(0x1FF :: u64) = mask 9" by (simp_all add: mask_eq_exp_minus_1)
  have "bit va (12 + n) = bit vb (12 + n)" if "n < 36" for n
    using arg_cong [OF assms(1) [unfolded same_page_def mask], where f = "\<lambda>w. bit w n"] that
    by (simp add: bit_simps add.commute)
  from this [of "9 * (k - 1) + j"] have "bit va (3 + 9 * k + j) = bit vb (3 + 9 * k + j)" if "j < 9"
    using that assms(2,3) by (cases k) (auto simp: algebra_simps)
  then show "bit (table_index k va) j = bit (table_index k vb) j"
    unfolding table_index_def mask by (auto simp: bit_simps)
qed

lemma translate_same: "same_page va vb \<Longrightarrow> translate v va = translate v vb"
  using table_index_same [of va vb 1] table_index_same [of va vb 2] table_index_same [of va vb 3]
    table_index_same [of va vb 4]
  by (simp add: translate_def eval_nat_numeral Let_def)

lemma walk_pfa: "walk k (x\<lparr>vm_pfa := y\<rparr>) t vb = walk k x t vb"
  by (induction k x t vb rule: walk.induct) (simp_all add: Let_def)

lemma translate_pfa [simp]: "translate (x\<lparr>vm_pfa := y\<rparr>) vb = translate x vb"
  by (simp add: translate_def walk_pfa)

text \<open>Addresses below \<open>2 ^ 47\<close>.\<close>

lemma page_of_inj:
  assumes "unat u mod 4096 = 0" "unat v mod 4096 = 0" "unat u < 2 ^ 47" "unat v < 2 ^ 47" "same_page u v"
  shows "u = v"
proof -
  have "unat u div 4096 < 2 ^ 36" "unat v div 4096 < 2 ^ 36" using assms(3,4) by (simp_all add: less_mult_imp_div_less)
  then have "unat u div 4096 = unat v div 4096" using assms(5) unfolding same_page_unat by simp
  moreover have "unat u = unat u div 4096 * 4096" "unat v = unat v div 4096 * 4096" using assms(1,2) by auto
  ultimately have "unat u = unat v" by metis
  then show ?thesis by (simp only: word_unat_eq_iff)
qed

section \<open>Frames only get fewer\<close>

lemma vm_ok_fewer:
  assumes "vm_ok L v" "pfa_inv p" "low_frames p \<subseteq> low_frames (vm_pfa v)"
  shows "vm_ok L (v\<lparr>vm_pfa := p\<rparr>)"
proof -
  have "t \<notin> low_frames p" if "t \<notin> low_frames (vm_pfa v)" for t using that assms(3) by blast
  then have t: "\<forall>t k. L t = Some k \<longrightarrow> table_page t \<and> t \<notin> low_frames p"
    using vm_okD(3,4) [OF assms(1)] by blast
  have sel: "cr3 (v\<lparr>vm_pfa := p\<rparr>) = cr3 v" "vm_pfa (v\<lparr>vm_pfa := p\<rparr>) = p" by simp_all
  show ?thesis
    using assms(1) unfolding vm_ok_def entry_pfa sel
    by (elim conjE, intro conjI) (rule assms(2), assumption, rule t, assumption+)
qed

lemma next_table_frames:
  assumes "pfa_inv (vm_pfa v)" "next_table flags t i v = (r, w)"
  shows "pfa_inv (vm_pfa w) \<and> low_frames (vm_pfa w) \<subseteq> low_frames (vm_pfa v)"
proof -
  obtain p q where p: "pfa_alloc_low (vm_pfa v) = (p, q)" by fastforce
  have sel: "vm_pfa (v\<lparr>vm_pfa := q\<rparr>) = q" "vm_pfa (v\<lparr>vm_pfa := q, vm_mem := m\<rparr>) = q" "vm_pfa (v\<lparr>vm_mem := m\<rparr>) = vm_pfa v" for m
    by simp_all
  have "vm_pfa (snd (next_table flags t i v)) = vm_pfa v \<or> vm_pfa (snd (next_table flags t i v)) = q"
    unfolding next_table_def Let_def p prod.case
    by (cases "vm_mem v (phys_to_virt v t + 8 * i) AND PAGE_PRESENT = 0"; cases "p = 0")
      (simp_all only: if_True if_False snd_conv sel simp_thms)
  then have "vm_pfa w = vm_pfa v \<or> vm_pfa w = q" using assms(2) by (simp only: snd_conv)
  moreover have "pfa_inv q" using low.alloc_inv [OF assms(1)] by (simp only: p snd_conv)
  moreover have "low_frames q \<subseteq> low_frames (vm_pfa v)"
    using low.alloc_frames [OF assms(1)] by (simp only: p snd_conv Diff_subset)
  ultimately show ?thesis using assms(1) by (elim disjE) (simp_all only: subset_refl simp_thms)
qed

lemma map_page_frames:
  assumes "pfa_inv (vm_pfa v)"
  shows "low_frames (vm_pfa (map_page phys va flags v)) \<subseteq> low_frames (vm_pfa v)"
proof -
  let ?fewer = "\<lambda>w. pfa_inv (vm_pfa w) \<and> low_frames (vm_pfa w) \<subseteq> low_frames (vm_pfa v)"
  obtain r1 v1 where 1: "next_table flags (cr3 v AND PADDR_MASK) (table_index 4 va) v = (r1, v1)" by fastforce
  have f1: "?fewer v1" using next_table_frames [OF assms 1] .
  show ?thesis
  proof (cases r1)
    case None
    then show ?thesis using 1 f1 by (simp add: map_page_alt)
  next
    case (Some t1)
    obtain r2 v2 where 2: "next_table flags t1 (table_index 3 va) v1 = (r2, v2)" by fastforce
    have f2: "?fewer v2" using next_table_frames [OF _ 2] f1 by blast
    show ?thesis
    proof (cases r2)
      case None
      then show ?thesis using 1 2 f2 Some by (simp add: map_page_alt)
    next
      case (Some t2)
      obtain r3 v3 where 3: "next_table flags t2 (table_index 2 va) v2 = (r3, v3)" by fastforce
      have "?fewer v3" using next_table_frames [OF _ 3] f2 by blast
      then show ?thesis using 1 2 3 Some \<open>r1 = Some t1\<close> by (cases r3) (simp_all add: map_page_alt)
    qed
  qed
qed

section \<open>What the loader has mapped\<close>

text \<open>\<open>U\<close> gives the frame of each page that the loader has mapped.\<close>

definition user_ok :: "(u64 \<rightharpoonup> nat) \<Rightarrow> (u64 \<rightharpoonup> u64) \<Rightarrow> elf_world \<Rightarrow> bool" where
  "user_ok L U w \<longleftrightarrow> vm_ok L (e_vm w) \<and>
     (\<forall>v f. U v = Some f \<longrightarrow> unat v mod 4096 = 0 \<and> unat v < 2 ^ 47 \<and> low_page f \<and> f \<notin> low_frames (vm_pfa (e_vm w)) \<and>
        (\<exists>flags. translate (e_vm w) v = Some (f OR flags) \<and> flags AND PADDR_MASK = 0)) \<and>
     (\<forall>u v f. U u = Some f \<longrightarrow> U v = Some f \<longrightarrow> u = v)"

lemma user_okD:
  assumes "user_ok L U w"
  shows "vm_ok L (e_vm w)" "pfa_inv (vm_pfa (e_vm w))"
    "U v = Some f \<Longrightarrow> unat v mod 4096 = 0" "U v = Some f \<Longrightarrow> unat v < 2 ^ 47" "U v = Some f \<Longrightarrow> low_page f"
    "U v = Some f \<Longrightarrow> f \<notin> low_frames (vm_pfa (e_vm w))"
    "U v = Some f \<Longrightarrow> \<exists>flags. translate (e_vm w) v = Some (f OR flags) \<and> flags AND PADDR_MASK = 0"
    "U u = Some f \<Longrightarrow> U v = Some f \<Longrightarrow> u = v"
  using assms vm_okD(1) unfolding user_ok_def by blast+

text \<open>The byte that the program reads at an address.\<close>

definition user_byte :: "elf_world \<Rightarrow> u64 \<Rightarrow> u8 option" where
  "user_byte w va =
     (case translate (e_vm w) va of
        None \<Rightarrow> None
      | Some e \<Rightarrow> Some (frame_mem w ((e AND PADDR_MASK) + (va AND 0xFFF))))"

definition phys_of :: "(u64 \<rightharpoonup> u64) \<Rightarrow> u64 \<Rightarrow> u64" where
  "phys_of U va = the (U (page_of va)) + (va AND 0xFFF)"

lemma frame_mask: "low_page f \<Longrightarrow> flags AND PADDR_MASK = 0 \<Longrightarrow> (f OR flags) AND PADDR_MASK = f"
  using low_page_table [of f] by (simp add: table_page_def or_outside_mask)

lemma user_translate:
  assumes "user_ok L U w" "U (page_of va) \<noteq> None"
  obtains e where "translate (e_vm w) va = Some e" "(e AND PADDR_MASK) + (va AND 0xFFF) = phys_of U va"
proof -
  obtain f where f: "U (page_of va) = Some f" using assms(2) by auto
  obtain flags where t: "translate (e_vm w) (page_of va) = Some (f OR flags)" "flags AND PADDR_MASK = 0"
    using user_okD(7) [OF assms(1) f] by blast
  have "translate (e_vm w) va = Some (f OR flags)" using t(1) translate_same [OF page_of_same [of va]] by simp
  then show ?thesis using that [of "f OR flags"] frame_mask [OF user_okD(5) [OF assms(1) f] t(2)] f by (simp add: phys_of_def)
qed

lemma user_byte_phys: "user_ok L U w \<Longrightarrow> U (page_of va) \<noteq> None \<Longrightarrow> user_byte w va = Some (frame_mem w (phys_of U va))"
proof -
  assume "user_ok L U w" "U (page_of va) \<noteq> None"
  then obtain e where "translate (e_vm w) va = Some e" "(e AND PADDR_MASK) + (va AND 0xFFF) = phys_of U va"
    by (rule user_translate)
  then show ?thesis unfolding user_byte_def by simp
qed

lemma phys_of_inj:
  assumes "user_ok L U w" "U (page_of va) \<noteq> None" "U (page_of vb) \<noteq> None" "phys_of U va = phys_of U vb"
  shows "va = vb"
proof -
  obtain f g where f: "U (page_of va) = Some f" and g: "U (page_of vb) = Some g" using assms(2,3) by auto
  obtain k where k: "unat f = 4096 * k" "4096 * k + 4096 \<le> 2 ^ 64"
    using page_multiple [of f] user_okD(5) [OF assms(1) f] by (auto simp: low_page_def)
  obtain m where m: "unat g = 4096 * m" "4096 * m + 4096 \<le> 2 ^ 64"
    using page_multiple [of g] user_okD(5) [OF assms(1) g] by (auto simp: low_page_def)
  have u: "unat (h + (va AND 0xFFF)) = unat h + unat va mod 4096" if "unat h + 4096 \<le> 2 ^ 64" for h va :: u64
  proof -
    have "unat va mod 4096 < 4096" by simp
    with that show ?thesis by (simp add: unat_word_ariths unat_offset)
  qed
  have eq: "4096 * k + unat va mod 4096 = 4096 * m + unat vb mod 4096"
    using assms(4) f g k m u [of f va] u [of g vb] by (simp add: phys_of_def)
  have "k = (4096 * k + unat va mod 4096) div 4096" "m = (4096 * m + unat vb mod 4096) div 4096" by simp_all
  then have km: "k = m" using eq by metis
  then have off: "unat va mod 4096 = unat vb mod 4096" using eq by simp
  have "f = g" using k(1) m(1) km by (simp add: word_unat_eq_iff)
  then have "page_of va = page_of vb" using user_okD(8) [OF assms(1)] f g by blast
  then have "unat va div 4096 * 4096 = unat vb div 4096 * 4096" by (metis unat_page_of)
  with off have "unat va = unat vb" by (metis div_mult_mod_eq)
  then show ?thesis by (simp only: word_unat_eq_iff)
qed

section \<open>Storing bytes\<close>

definition may_store :: "elf_world \<Rightarrow> bool" where
  "may_store w \<longleftrightarrow> \<not> bit (cr4 w) 21 \<or> ac_flag w"

lemma user_ok_mem [simp]: "user_ok L U (w\<lparr>frame_mem := m\<rparr>) = user_ok L U w" "user_ok L U (w\<lparr>ac_flag := b\<rparr>) = user_ok L U w"
  by (simp_all add: user_ok_def)

lemma elf_store_spec:
  assumes "user_ok L U w" "may_store w" "unat va + length bs \<le> 2 ^ 47"
    and "\<And>k. k < length bs \<Longrightarrow> U (page_of (va + of_nat k)) \<noteq> None"
  shows "\<exists>m. elf_store va bs w = Some (w\<lparr>frame_mem := m\<rparr>) \<and>
    (\<forall>x. U (page_of x) \<noteq> None \<longrightarrow>
       m (phys_of U x) = (if unat va \<le> unat x \<and> unat x < unat va + length bs then bs ! (unat x - unat va) else frame_mem w (phys_of U x)))"
  using assms
proof (induction bs arbitrary: va w)
  case Nil
  show ?case by (intro exI [of _ "frame_mem w"]) auto
next
  case (Cons b bs)
  have p0: "U (page_of va) \<noteq> None" using Cons.prems(4) [of 0] by simp
  obtain e where e: "translate (e_vm w) va = Some e" "(e AND PADDR_MASK) + (va AND 0xFFF) = phys_of U va"
    by (rule user_translate [OF Cons.prems(1) p0])
  then have ua: "user_addr w va = Some (phys_of U va)" using Cons.prems(2) by (auto simp: user_addr_def may_store_def)
  let ?w = "w\<lparr>frame_mem := (frame_mem w)(phys_of U va := b)\<rparr>"
  have s: "unat (va + 1) = Suc (unat va)" using Cons.prems(3) by (simp add: unat_word_ariths)
  have next_page: "U (page_of (va + 1 + of_nat k)) \<noteq> None" if "k < length bs" for k
    using Cons.prems(4) [of "Suc k"] that by (simp add: add.assoc)
  have "\<exists>m. elf_store (va + 1) bs ?w = Some (?w\<lparr>frame_mem := m\<rparr>) \<and>
    (\<forall>x. U (page_of x) \<noteq> None \<longrightarrow>
       m (phys_of U x) = (if unat (va + 1) \<le> unat x \<and> unat x < unat (va + 1) + length bs
         then bs ! (unat x - unat (va + 1)) else frame_mem ?w (phys_of U x)))"
    using Cons.prems(1-3) s next_page by (intro Cons.IH) (simp_all add: may_store_def)
  then obtain m where m: "elf_store (va + 1) bs ?w = Some (?w\<lparr>frame_mem := m\<rparr>)"
    "\<And>x. U (page_of x) \<noteq> None \<Longrightarrow>
       m (phys_of U x) = (if Suc (unat va) \<le> unat x \<and> unat x < Suc (unat va) + length bs
         then bs ! (unat x - Suc (unat va)) else frame_mem ?w (phys_of U x))"
    unfolding s by blast
  have "m (phys_of U x) = (if unat va \<le> unat x \<and> unat x < unat va + length (b # bs) then (b # bs) ! (unat x - unat va)
      else frame_mem w (phys_of U x))" if "U (page_of x) \<noteq> None" for x
  proof (cases "x = va")
    case True
    then show ?thesis using m(2) [OF that] by simp
  next
    case False
    then have "phys_of U x \<noteq> phys_of U va" "unat x \<noteq> unat va"
      using phys_of_inj [OF Cons.prems(1) that p0] by (auto simp: word_unat_eq_iff)
    then show ?thesis using m(2) [OF that] by (auto simp: nth_Cons')
  qed
  then show ?case using m(1) ua by (intro exI [of _ m]) simp
qed

section \<open>Mapping pages\<close>

lemma phys_of_extend: "U (page_of x) \<noteq> None \<Longrightarrow> U \<subseteq>\<^sub>m U' \<Longrightarrow> phys_of U' x = phys_of U x"
  by (auto simp: phys_of_def map_le_def dom_def)

lemma map_user_page:
  assumes ok: "user_ok L U w" and v: "unat v mod 4096 = 0" "unat v < 2 ^ 47" "U v = None"
    and fl: "present flags" "flags AND PADDR_MASK = 0"
    and card: "4 \<le> card (low_frames (vm_pfa (e_vm w)))"
    and alloc: "pfa_alloc_low (vm_pfa (e_vm w)) = (f, p)"
  shows "f \<noteq> 0 \<and> (\<exists>L'. user_ok L' (U(v \<mapsto> f)) (w\<lparr>e_vm := map_page f v flags ((e_vm w)\<lparr>vm_pfa := p\<rparr>)\<rparr>)) \<and>
    card (low_frames (vm_pfa (e_vm w))) \<le> card (low_frames (vm_pfa (map_page f v flags ((e_vm w)\<lparr>vm_pfa := p\<rparr>)))) + 4"
proof -
  note d = user_okD [OF ok]
  let ?q = "vm_pfa (e_vm w)" and ?v = "(e_vm w)\<lparr>vm_pfa := p\<rparr>"
  let ?m = "map_page f v flags ?v"
  have "low_frames ?q \<noteq> {}" using card by auto
  from low.alloc_some [OF d(2) this] alloc have f: "f \<in> low_frames ?q" "low_frames p = low_frames ?q - {f}" "pfa_inv p"
    by auto
  have lp: "low_page f" by (rule low_frames_page [OF d(2) f(1)])
  have c: "card (low_frames p) + 1 = card (low_frames ?q)"
    using f(1,2) low.frames_finite [of ?q] card by (simp add: card_Diff_singleton)
  have ok1: "vm_ok L ?v" using f(2) by (intro vm_ok_fewer [OF d(1) f(3)]) auto
  obtain L' where r: "map_result L ?v v (f OR flags) L' ?m" using map_page_result [OF ok1] by blast
  have sub: "low_frames (vm_pfa ?m) \<subseteq> low_frames p" using map_page_frames [of ?v f v flags] f(3) by simp
  have tr: "translate ?m v = Some (f OR flags)"
    using r c card present_or [of f flags] fl(1) by (simp add: map_result_def)
  have keep: "translate ?m u = translate (e_vm w) u" if "\<not> same_page v u" for u
    using r that by (simp add: map_result_def)
  have other: "\<not> same_page v u" if "U u = Some g" for u g
    using page_of_inj [OF v(1) d(3) [OF that] v(2) d(4) [OF that]] v(3) that by auto
  have nf: "f \<noteq> g" if "U u = Some g" for u g using d(6) [OF that] f(1) by auto
  have "user_ok L' (U(v \<mapsto> f)) (w\<lparr>e_vm := ?m\<rparr>)"
    unfolding user_ok_def
  proof (intro conjI allI impI)
    show "vm_ok L' (e_vm (w\<lparr>e_vm := ?m\<rparr>))" using r by (simp add: map_result_def)
  next
    fix u g assume u: "(U(v \<mapsto> f)) u = Some g"
    show "unat u mod 4096 = 0" "unat u < 2 ^ 47" "low_page g" using u v lp d(3-5) by (auto split: if_splits)
    show "g \<notin> low_frames (vm_pfa (e_vm (w\<lparr>e_vm := ?m\<rparr>)))" using u f(2) sub d(6) by (auto split: if_splits)
    show "\<exists>fl. translate (e_vm (w\<lparr>e_vm := ?m\<rparr>)) u = Some (g OR fl) \<and> fl AND PADDR_MASK = 0"
    proof (cases "u = v")
      case True
      then show ?thesis using u tr fl(2) by auto
    next
      case False
      then show ?thesis using u d(7) [of u g] keep [OF other] by auto
    qed
  next
    fix u x g assume "(U(v \<mapsto> f)) u = Some g" "(U(v \<mapsto> f)) x = Some g"
    then show "u = x" using nf d(8) by (auto split: if_splits)
  qed
  moreover have "f \<noteq> 0" using low.frames_nonzero [OF d(2)] f(1) by auto
  moreover have "card (low_frames ?q) \<le> card (low_frames (vm_pfa ?m)) + 4"
    using r c by (simp add: map_result_def)
  ultimately show ?thesis by blast
qed

definition page_range :: "nat \<Rightarrow> nat \<Rightarrow> u64 set" where
  "page_range a b = {x. unat x mod 4096 = 0 \<and> a \<le> unat x \<and> unat x < b}"

lemma page_range_step:
  assumes "unat v mod 4096 = 0" "unat v < b" "unat (v + 4096) = unat v + 4096"
  shows "page_range (unat v) b = insert v (page_range (unat v + 4096) b)"
proof -
  have "x = v \<or> unat v + 4096 \<le> unat x" if "unat x mod 4096 = 0" "unat v \<le> unat x" for x
  proof -
    have i: "unat v = 4096 * (unat v div 4096)" "unat x = 4096 * (unat x div 4096)" using assms(1) that(1) by auto
    then have "unat v div 4096 = unat x div 4096 \<or> unat v div 4096 + 1 \<le> unat x div 4096" using that(2) by linarith
    then have "unat v = unat x \<or> unat v + 4096 \<le> unat x" using i by linarith
    then show ?thesis by (auto simp only: word_unat_eq_iff)
  qed
  note split = this
  show ?thesis
  proof (rule set_eqI)
    fix x show "x \<in> page_range (unat v) b \<longleftrightarrow> x \<in> insert v (page_range (unat v + 4096) b)"
      using split [of x] assms(1,2) unfolding page_range_def by auto
  qed
qed

text \<open>The allocator's invariant, the range of pages and their frames.\<close>

lemma map_segment_spec:
  assumes "user_ok L U w" "unat v mod 4096 = 0" "unat e = unat v + 4096 * n" "unat e \<le> 2 ^ 47"
    and "page_range (unat v) (unat e) \<inter> dom U = {}" "present flags" "flags AND PADDR_MASK = 0"
    and "4 * n \<le> card (low_frames (vm_pfa (e_vm w)))"
  shows "\<exists>L' U' m. map_segment v e flags w = Some (True, w\<lparr>e_vm := m\<rparr>) \<and> user_ok L' U' (w\<lparr>e_vm := m\<rparr>) \<and> U \<subseteq>\<^sub>m U' \<and>
    dom U' = dom U \<union> page_range (unat v) (unat e) \<and>
    card (low_frames (vm_pfa (e_vm w))) \<le> card (low_frames (vm_pfa m)) + 4 * n"
  using assms
proof (induction n arbitrary: v w L U)
  case 0
  then have "page_range (unat v) (unat e) = {}" by (auto simp: page_range_def)
  then show ?case using 0
    by (subst map_segment.simps) (auto simp: word_less_nat_alt intro!: exI [of _ L] exI [of _ U] exI [of _ "e_vm w"])
next
  case (Suc n)
  obtain f p where alloc: "pfa_alloc_low (vm_pfa (e_vm w)) = (f, p)" by fastforce
  have lt: "v < e" using Suc.prems(3) by (simp add: word_less_nat_alt)
  have v4: "unat (v + 4096) = unat v + 4096" using Suc.prems(3,4) by (simp add: unat_word_ariths)
  have r: "page_range (unat v) (unat e) = insert v (page_range (unat (v + 4096)) (unat e))"
    using page_range_step [OF Suc.prems(2) _ v4, of "unat e"] lt v4 by (simp add: word_less_nat_alt)
  have vU: "U v = None" using Suc.prems(5) r by auto
  have v47: "unat v < 2 ^ 47" using Suc.prems(3,4) by simp
  let ?m = "map_page f v flags ((e_vm w)\<lparr>vm_pfa := p\<rparr>)"
  let ?w = "w\<lparr>e_vm := ?m\<rparr>"
  have "4 \<le> card (low_frames (vm_pfa (e_vm w)))" using Suc.prems(8) by simp
  from map_user_page [OF Suc.prems(1,2) v47 vU Suc.prems(6,7) this alloc] obtain L1 where
    s: "f \<noteq> 0" "user_ok L1 (U(v \<mapsto> f)) ?w" "card (low_frames (vm_pfa (e_vm w))) \<le> card (low_frames (vm_pfa ?m)) + 4"
    by blast
  have vn: "v \<notin> page_range (unat (v + 4096)) (unat e)" by (auto simp: page_range_def v4)
  have "\<exists>L' U' m. map_segment (v + 4096) e flags ?w = Some (True, ?w\<lparr>e_vm := m\<rparr>) \<and> user_ok L' U' (?w\<lparr>e_vm := m\<rparr>) \<and> U(v \<mapsto> f) \<subseteq>\<^sub>m U' \<and>
    dom U' = dom (U(v \<mapsto> f)) \<union> page_range (unat (v + 4096)) (unat e) \<and>
    card (low_frames (vm_pfa (e_vm ?w))) \<le> card (low_frames (vm_pfa m)) + 4 * n"
  proof (intro Suc.IH [OF s(2)])
    show "page_range (unat (v + 4096)) (unat e) \<inter> dom (U(v \<mapsto> f)) = {}" using Suc.prems(5) r vn by auto
  qed (use Suc.prems(2-8) s(3) v4 in \<open>simp_all\<close>)
  then obtain L2 U2 m where t: "map_segment (v + 4096) e flags ?w = Some (True, ?w\<lparr>e_vm := m\<rparr>)" "user_ok L2 U2 (?w\<lparr>e_vm := m\<rparr>)"
    "U(v \<mapsto> f) \<subseteq>\<^sub>m U2" "dom U2 = dom (U(v \<mapsto> f)) \<union> page_range (unat (v + 4096)) (unat e)"
    "card (low_frames (vm_pfa ?m)) \<le> card (low_frames (vm_pfa m)) + 4 * n" by auto
  have "map_segment v e flags w = Some (True, w\<lparr>e_vm := m\<rparr>)"
    using lt alloc s(1) t(1) by (subst map_segment.simps) simp
  moreover have "U \<subseteq>\<^sub>m U2" using t(3) vU by (auto simp: map_le_def dom_def split: if_splits)
  moreover have "dom U2 = dom U \<union> page_range (unat v) (unat e)" using t(4) r by auto
  moreover have "card (low_frames (vm_pfa (e_vm w))) \<le> card (low_frames (vm_pfa m)) + 4 * Suc n" using s(3) t(5) by simp
  moreover have "user_ok L2 U2 (w\<lparr>e_vm := m\<rparr>)" using t(2) by simp
  ultimately show ?case by blast
qed

section \<open>Loading a segment\<close>

definition STACK_BOTTOM :: nat where "STACK_BOTTOM = 0x6FFFFFFFC000"

text \<open>A segment inside the image and below the stack, whose file part fits in its memory part.\<close>

definition segment_ok :: "u8 list \<Rightarrow> elf64_phdr \<Rightarrow> bool" where
  "segment_ok data ph \<longleftrightarrow>
     (p_type ph = 1 \<longrightarrow>
        unat (p_offset ph) + unat (p_filesz ph) \<le> length data \<and> p_filesz ph \<le> p_memsz ph \<and>
        unat (p_vaddr ph) + unat (p_memsz ph) \<le> STACK_BOTTOM)"

definition segment_pages :: "elf64_phdr \<Rightarrow> u64 set" where
  "segment_pages ph = (if p_type ph = 1 then page_range (unat (page_start ph)) (unat (page_end ph)) else {})"

definition segment_frames :: "elf64_phdr \<Rightarrow> nat" where
  "segment_frames ph = (if p_type ph = 1 then (unat (page_end ph) - unat (page_start ph)) div 4096 else 0)"

text \<open>The program sees the bytes of the segment, followed by zeros.\<close>

definition segment_loaded :: "u8 list \<Rightarrow> elf64_phdr \<Rightarrow> elf_world \<Rightarrow> bool" where
  "segment_loaded data ph w \<longleftrightarrow>
     (p_type ph = 1 \<longrightarrow>
        (\<forall>k < unat (p_memsz ph). user_byte w (p_vaddr ph + of_nat k) =
           Some (if k < unat (p_filesz ph) then data ! (unat (p_offset ph) + k) else 0)))"

lemma segment_bounds:
  assumes "segment_ok data ph" "p_type ph = 1"
  shows "unat (page_start ph) = unat (p_vaddr ph) div 4096 * 4096"
    "unat (page_end ph) = (unat (p_vaddr ph) + unat (p_memsz ph) + 4095) div 4096 * 4096"
    "unat (page_end ph) \<le> STACK_BOTTOM" "unat (page_start ph) mod 4096 = 0"
    "unat (page_end ph) = unat (page_start ph) + 4096 * segment_frames ph"
proof -
  let ?a = "unat (p_vaddr ph)" and ?m = "unat (p_memsz ph)"
  have b: "?a + ?m \<le> STACK_BOTTOM" using assms by (simp add: segment_ok_def)
  have s: "unat (p_vaddr ph + p_memsz ph + 0xFFF) = ?a + ?m + 4095"
    using b by (simp add: STACK_BOTTOM_def unat_word_ariths)
  show ps: "unat (page_start ph) = ?a div 4096 * 4096" unfolding page_start_def by (simp only: unat_page_mask)
  show pe: "unat (page_end ph) = (?a + ?m + 4095) div 4096 * 4096"
    unfolding page_end_def by (simp only: unat_page_mask s)
  show "unat (page_end ph) \<le> STACK_BOTTOM"
  proof -
    have "(?a + ?m + 4095) div 4096 \<le> (STACK_BOTTOM + 4095) div 4096" using b by (intro div_le_mono) simp
    also have "(STACK_BOTTOM + 4095) div 4096 = 0x6FFFFFFFC" by (simp add: STACK_BOTTOM_def)
    finally show ?thesis unfolding pe by (simp add: STACK_BOTTOM_def)
  qed
  show "unat (page_start ph) mod 4096 = 0" by (simp add: ps)
  have "?a div 4096 \<le> (?a + ?m + 4095) div 4096" by (intro div_le_mono) simp
  then have "?a div 4096 * 4096 \<le> (?a + ?m + 4095) div 4096 * 4096" by simp
  then show "unat (page_end ph) = unat (page_start ph) + 4096 * segment_frames ph"
    using assms(2) unfolding segment_frames_def ps pe by (simp add: diff_mult_distrib [symmetric])
qed

lemma segment_address:
  assumes "segment_ok data ph" "p_type ph = 1" "k < unat (p_memsz ph)"
  shows "unat (p_vaddr ph + of_nat k) = unat (p_vaddr ph) + k" "page_of (p_vaddr ph + of_nat k) \<in> segment_pages ph"
proof -
  let ?a = "unat (p_vaddr ph)" and ?m = "unat (p_memsz ph)"
  have b: "?a + ?m \<le> STACK_BOTTOM" using assms(1,2) by (simp add: segment_ok_def)
  have "unat (of_nat (?a + k) :: u64) = ?a + k"
    using b assms(3) by (intro unat_of_nat_small) (simp add: STACK_BOTTOM_def)
  then show u: "unat (p_vaddr ph + of_nat k) = ?a + k" by simp
  have "?a div 4096 \<le> (?a + k) div 4096" by (intro div_le_mono) simp
  moreover have "(?a + k) div 4096 < (?a + ?m + 4095) div 4096"
  proof -
    have "(?a + k + 4096) div 4096 \<le> (?a + ?m + 4095) div 4096" using assms(3) by (intro div_le_mono) simp
    then show ?thesis by simp
  qed
  ultimately show "page_of (p_vaddr ph + of_nat k) \<in> segment_pages ph"
    using assms(2) segment_bounds(1,2) [OF assms(1,2)]
    by (simp add: segment_pages_def page_range_def unat_page_of u)
qed

lemma segment_flags_user: "present (segment_flags ph)" "segment_flags ph AND PADDR_MASK = 0"
  by (simp_all add: segment_flags_def present_def flag_defs PAGE_NO_EXEC_def PADDR_MASK_def)

lemma load_segment_spec:
  assumes ok: "user_ok L U w" and seg: "segment_ok data ph" and len: "length data < 2 ^ 32"
    and smap: "bit (cr4 w) 21 \<longrightarrow> has_smap"
    and free: "segment_pages ph \<inter> dom U = {}" and frames: "4 * segment_frames ph \<le> card (low_frames (vm_pfa (e_vm w)))"
  shows "\<exists>L' U' w'. load_segment has_smap data ph w = Some (Loaded, w') \<and> user_ok L' U' w' \<and> U \<subseteq>\<^sub>m U' \<and>
    dom U' = dom U \<union> segment_pages ph \<and> cr4 w' = cr4 w \<and>
    card (low_frames (vm_pfa (e_vm w))) \<le> card (low_frames (vm_pfa (e_vm w'))) + 4 * segment_frames ph \<and>
    segment_loaded data ph w' \<and> (\<forall>x. U (page_of x) \<noteq> None \<longrightarrow> user_byte w' x = user_byte w x)"
proof (cases "p_type ph = 1")
  case False
  then show ?thesis using ok
    by (intro exI [of _ L] exI [of _ U] exI [of _ w])
      (simp add: load_segment_def segment_pages_def segment_frames_def segment_loaded_def)
next
  case load: True
  note b = segment_bounds [OF seg load]
  let ?a = "unat (p_vaddr ph)" and ?f = "unat (p_filesz ph)" and ?n = "unat (p_memsz ph)"
  have sg: "unat (p_offset ph) + ?f \<le> length data" "?f \<le> ?n" "?a + ?n \<le> STACK_BOTTOM"
    using seg load by (auto simp: segment_ok_def word_le_nat_alt)
  have pe: "unat (page_end ph) \<le> 2 ^ 47" using b(3) by (simp add: STACK_BOTTOM_def)
  have fr: "page_range (unat (page_start ph)) (unat (page_end ph)) \<inter> dom U = {}"
    using free load by (simp add: segment_pages_def)
  have sp: "segment_pages ph = page_range (unat (page_start ph)) (unat (page_end ph))"
    using load by (simp add: segment_pages_def)
  obtain L1 U1 m where m: "map_segment (page_start ph) (page_end ph) (segment_flags ph) w = Some (True, w\<lparr>e_vm := m\<rparr>)"
    "user_ok L1 U1 (w\<lparr>e_vm := m\<rparr>)" "U \<subseteq>\<^sub>m U1" "dom U1 = dom U \<union> segment_pages ph"
    "card (low_frames (vm_pfa (e_vm w))) \<le> card (low_frames (vm_pfa m)) + 4 * segment_frames ph"
    using map_segment_spec [OF ok b(4,5) pe fr segment_flags_user(1) [of ph] segment_flags_user(2) [of ph] frames]
    unfolding sp by blast
  let ?w1 = "if has_smap then (w\<lparr>e_vm := m\<rparr>)\<lparr>ac_flag := True\<rparr> else w\<lparr>e_vm := m\<rparr>"
  have ok1: "user_ok L1 U1 ?w1" "may_store ?w1" "frame_mem ?w1 = frame_mem w"
    using m(2) smap by (auto simp: may_store_def)
  have mapped: "U1 (page_of (p_vaddr ph + of_nat k)) \<noteq> None" if "k < ?n" for k
    using segment_address(2) [OF seg load that] m(4) by auto
  let ?bs = "slice (unat (p_offset ph)) ?f data"
  have lb: "length ?bs = ?f" using sg(1) by simp
  have ri: "read_image data (p_offset ph) (p_filesz ph) = Some ?bs"
    using sg(1) by (auto simp: read_image_def slice_def)
  have s47: "?a + length ?bs \<le> 2 ^ 47" using sg(2,3) lb by (simp add: STACK_BOTTOM_def)
  obtain m1 where m1: "elf_store (p_vaddr ph) ?bs ?w1 = Some (?w1\<lparr>frame_mem := m1\<rparr>)"
    "\<And>x. U1 (page_of x) \<noteq> None \<Longrightarrow> m1 (phys_of U1 x) =
       (if ?a \<le> unat x \<and> unat x < ?a + ?f then ?bs ! (unat x - ?a) else frame_mem w (phys_of U1 x))"
    using elf_store_spec [OF ok1(1,2) s47] mapped sg(2) lb ok1(3) by auto
  let ?w2 = "?w1\<lparr>frame_mem := m1\<rparr>"
  let ?z = "replicate (?n - ?f) (0 :: u8)"
  have diff: "unat (p_memsz ph - p_filesz ph) = ?n - ?f" using sg(2) by (simp add: unat_sub word_le_nat_alt)
  have va: "unat (p_vaddr ph + p_filesz ph) = ?a + ?f"
    using sg(2,3) by (simp add: STACK_BOTTOM_def unat_word_ariths)
  obtain m2 where m2: "elf_store (p_vaddr ph + p_filesz ph) ?z ?w2 = Some (?w2\<lparr>frame_mem := m2\<rparr>)"
    "\<And>x. U1 (page_of x) \<noteq> None \<Longrightarrow> m2 (phys_of U1 x) =
       (if ?a + ?f \<le> unat x \<and> unat x < ?a + ?n then 0 else m1 (phys_of U1 x))"
  proof -
    have ok2: "user_ok L1 U1 ?w2" "may_store ?w2" using ok1 by (simp_all add: may_store_def)
    have c1: "unat (p_vaddr ph + p_filesz ph) + length ?z \<le> 2 ^ 47" using sg(2,3) by (simp add: va STACK_BOTTOM_def)
    have c2: "U1 (page_of (p_vaddr ph + p_filesz ph + of_nat k)) \<noteq> None" if "k < length ?z" for k
      using mapped [of "?f + k"] that by (simp add: add.assoc)
    obtain m where m: "elf_store (p_vaddr ph + p_filesz ph) ?z ?w2 = Some (?w2\<lparr>frame_mem := m\<rparr>)"
      "\<forall>x. U1 (page_of x) \<noteq> None \<longrightarrow> m (phys_of U1 x) =
         (if ?a + ?f \<le> unat x \<and> unat x < ?a + ?f + length ?z then ?z ! (unat x - (?a + ?f)) else frame_mem ?w2 (phys_of U1 x))"
      using elf_store_spec [OF ok2 c1 c2] unfolding va by blast
    have e: "?a + ?f + length ?z = ?a + ?n" using sg(2) by simp
    have "m (phys_of U1 x) = (if ?a + ?f \<le> unat x \<and> unat x < ?a + ?n then 0 else m1 (phys_of U1 x))"
      if "U1 (page_of x) \<noteq> None" for x
      using m(2) [rule_format, OF that] unfolding e by auto
    with m(1) show ?thesis by (rule that)
  qed
  define w3 where "w3 = (if has_smap then (?w2\<lparr>frame_mem := m2\<rparr>)\<lparr>ac_flag := False\<rparr> else ?w2\<lparr>frame_mem := m2\<rparr>)"
  have run: "load_segment has_smap data ph w = Some (Loaded, w3)"
  proof -
    have "of_nat (unat (p_offset ph) + ?f) = p_offset ph + p_filesz ph" by simp
    moreover have "unat (of_nat (unat (p_offset ph) + ?f) :: u64) = unat (p_offset ph) + ?f"
      using sg(1) len by (intro unat_of_nat_small) simp
    ultimately have "unat (p_offset ph + p_filesz ph) = unat (p_offset ph) + ?f" by simp
    moreover have "unat (of_nat (length data) :: u64) = length data" using len by (intro unat_of_nat_small) simp
    ultimately have "\<not> p_offset ph + p_filesz ph > of_nat (length data)" using sg(1) by (simp add: word_less_nat_alt)
    moreover have "(if p_memsz ph > p_filesz ph
        then elf_store (p_vaddr ph + p_filesz ph) (replicate (unat (p_memsz ph - p_filesz ph)) 0) ?w2 else Some ?w2)
        = Some (?w2\<lparr>frame_mem := (if p_memsz ph > p_filesz ph then m2 else m1)\<rparr>)"
      using m2(1) diff by simp
    moreover have "m2 = m1" if "\<not> p_memsz ph > p_filesz ph"
    proof -
      have "?z = []" using that by (simp add: word_less_nat_alt)
      then have "elf_store (p_vaddr ph + p_filesz ph) ?z ?w2 = Some ?w2" by simp
      with m2(1) have "?w2\<lparr>frame_mem := m2\<rparr> = ?w2" by simp
      from arg_cong [OF this, of frame_mem] show ?thesis by (simp split: if_splits)
    qed
    ultimately show ?thesis using load m(1) ri m1(1) unfolding load_segment_def w3_def by (simp cong: if_cong)
  qed
  have w3: "e_vm w3 = m" "frame_mem w3 = m2" "cr4 w3 = cr4 w" "user_ok L1 U1 w3"
    using m(2) by (simp_all add: w3_def user_ok_def)
  have mem: "user_byte w3 x = Some (m2 (phys_of U1 x))" if "U1 (page_of x) \<noteq> None" for x
    using user_byte_phys [OF w3(4) that] w3(2) by simp
  have "segment_loaded data ph w3"
    unfolding segment_loaded_def
  proof (intro impI allI)
    fix k assume k: "k < ?n"
    have "user_byte w3 (p_vaddr ph + of_nat k) = Some (m2 (phys_of U1 (p_vaddr ph + of_nat k)))"
      by (rule mem [OF mapped [OF k]])
    also have "m2 (phys_of U1 (p_vaddr ph + of_nat k)) = (if k < ?f then data ! (unat (p_offset ph) + k) else 0)"
      using m2(2) [OF mapped [OF k]] m1(2) [OF mapped [OF k]] segment_address(1) [OF seg load k] k sg(1)
      by (simp add: nth_slice)
    finally show "user_byte w3 (p_vaddr ph + of_nat k) = Some (if k < ?f then data ! (unat (p_offset ph) + k) else 0)" .
  qed
  moreover have "user_byte w3 x = user_byte w x" if x: "U (page_of x) \<noteq> None" for x
  proof -
    have x1: "U1 (page_of x) \<noteq> None" "phys_of U1 x = phys_of U x"
      using x m(3) phys_of_extend [OF x m(3)] by (auto simp: map_le_def dom_def)
    have "\<not> (?a \<le> unat x \<and> unat x < ?a + ?n)"
    proof
      assume r: "?a \<le> unat x \<and> unat x < ?a + ?n"
      then have "p_vaddr ph + of_nat (unat x - ?a) = x" by (simp add: of_nat_diff)
      with segment_address(2) [OF seg load, of "unat x - ?a"] r have "page_of x \<in> segment_pages ph" by auto
      then show False using free x by blast
    qed
    then have "m2 (phys_of U1 x) = frame_mem w (phys_of U x)"
      using m2(2) [OF x1(1)] m1(2) [OF x1(1)] sg(2) x1(2) by auto
    then show ?thesis using mem [OF x1(1)] user_byte_phys [OF ok x] by simp
  qed
  ultimately show ?thesis using run m w3 by (intro exI [of _ L1] exI [of _ U1] exI [of _ w3]) simp
qed

end
