(* ===== verification/ElfLoad.thy ===== *)
theory ElfLoad
  imports ElfProps RamfsFiles
begin

text \<open>
  The whole loader: every loadable segment is in place when the program is entered, its pages are
  not lost to a later segment or to the stack, and the stack is mapped.
\<close>

section \<open>All segments\<close>

definition phdr :: "u8 list \<Rightarrow> nat \<Rightarrow> elf64_phdr option" where
  "phdr data i = read_phdr data (e_phoff (read_hdr data) + of_nat i * ucast (e_phentsize (read_hdr data)))"

definition segments_disjoint :: "elf64_phdr list \<Rightarrow> bool" where
  "segments_disjoint qs \<longleftrightarrow> sorted_wrt (\<lambda>p q. segment_pages p \<inter> segment_pages q = {}) qs"

lemma segments_spec:
  assumes "user_ok L U w" "\<forall>j < length qs. phdr data (i + j) = Some (qs ! j)" "\<forall>q \<in> set qs. segment_ok data q"
    and "length data < 2 ^ 32" "bit (cr4 w) 21 \<longrightarrow> has_smap" "segments_disjoint qs"
    and "\<forall>q \<in> set qs. segment_pages q \<inter> dom U = {}"
    and "4 * sum_list (map segment_frames qs) \<le> card (low_frames (vm_pfa (e_vm w)))"
  shows "\<exists>L' U' w'. load_segments (length qs) i has_smap data w = Some (Loaded, w') \<and> user_ok L' U' w' \<and> U \<subseteq>\<^sub>m U' \<and>
    dom U' = dom U \<union> (\<Union>q \<in> set qs. segment_pages q) \<and> cr4 w' = cr4 w \<and>
    card (low_frames (vm_pfa (e_vm w))) \<le> card (low_frames (vm_pfa (e_vm w'))) + 4 * sum_list (map segment_frames qs) \<and>
    (\<forall>q \<in> set qs. segment_loaded data q w') \<and> (\<forall>x. U (page_of x) \<noteq> None \<longrightarrow> user_byte w' x = user_byte w x)"
  using assms
proof (induction qs arbitrary: i w L U)
  case Nil
  then show ?case by (intro exI [of _ L] exI [of _ U] exI [of _ w]) simp
next
  case (Cons q qs)
  have q: "phdr data i = Some q" using Cons.prems(2) by (auto dest: spec [of _ 0])
  have seg: "segment_ok data q" "segment_pages q \<inter> dom U = {}" using Cons.prems(3,7) by simp_all
  have fr: "4 * segment_frames q \<le> card (low_frames (vm_pfa (e_vm w)))" using Cons.prems(8) by simp
  obtain L1 U1 w1 where 1: "load_segment has_smap data q w = Some (Loaded, w1)" "user_ok L1 U1 w1" "U \<subseteq>\<^sub>m U1"
    "dom U1 = dom U \<union> segment_pages q" "cr4 w1 = cr4 w"
    "card (low_frames (vm_pfa (e_vm w))) \<le> card (low_frames (vm_pfa (e_vm w1))) + 4 * segment_frames q"
    "segment_loaded data q w1" "\<forall>x. U (page_of x) \<noteq> None \<longrightarrow> user_byte w1 x = user_byte w x"
    using load_segment_spec [OF Cons.prems(1) seg(1) Cons.prems(4,5) seg(2) fr]
    by (elim exE conjE) (rule that, assumption+)
  have "\<exists>L' U' w'. load_segments (length qs) (i + 1) has_smap data w1 = Some (Loaded, w') \<and> user_ok L' U' w' \<and> U1 \<subseteq>\<^sub>m U' \<and>
    dom U' = dom U1 \<union> (\<Union>q \<in> set qs. segment_pages q) \<and> cr4 w' = cr4 w1 \<and>
    card (low_frames (vm_pfa (e_vm w1))) \<le> card (low_frames (vm_pfa (e_vm w'))) + 4 * sum_list (map segment_frames qs) \<and>
    (\<forall>q \<in> set qs. segment_loaded data q w') \<and> (\<forall>x. U1 (page_of x) \<noteq> None \<longrightarrow> user_byte w' x = user_byte w1 x)"
  proof (rule Cons.IH [OF 1(2)])
    show "\<forall>j < length qs. phdr data (i + 1 + j) = Some (qs ! j)"
    proof (intro allI impI)
      fix j assume "j < length qs"
      then show "phdr data (i + 1 + j) = Some (qs ! j)" using Cons.prems(2) [rule_format, of "Suc j"] by simp
    qed
    show "\<forall>q \<in> set qs. segment_pages q \<inter> dom U1 = {}"
      using Cons.prems(6,7) unfolding 1(4) segments_disjoint_def by (simp add: Int_Un_distrib Int_commute)
    show "4 * sum_list (map segment_frames qs) \<le> card (low_frames (vm_pfa (e_vm w1)))"
      using Cons.prems(8) 1(6) by simp
  qed (use Cons.prems(3-6) 1(5) in \<open>simp_all add: segments_disjoint_def\<close>)
  then obtain L2 U2 w2 where 2: "load_segments (length qs) (i + 1) has_smap data w1 = Some (Loaded, w2)" "user_ok L2 U2 w2"
    "U1 \<subseteq>\<^sub>m U2" "dom U2 = dom U1 \<union> (\<Union>q \<in> set qs. segment_pages q)" "cr4 w2 = cr4 w1"
    "card (low_frames (vm_pfa (e_vm w1))) \<le> card (low_frames (vm_pfa (e_vm w2))) + 4 * sum_list (map segment_frames qs)"
    "\<forall>q \<in> set qs. segment_loaded data q w2" "\<forall>x. U1 (page_of x) \<noteq> None \<longrightarrow> user_byte w2 x = user_byte w1 x"
    by (elim exE conjE) (rule that, assumption+)
  have "user_byte w2 (p_vaddr q + of_nat k) = user_byte w1 (p_vaddr q + of_nat k)" if "p_type q = 1" "k < unat (p_memsz q)" for k
  proof -
    have "page_of (p_vaddr q + of_nat k) \<in> dom U1" using segment_address(2) [OF seg(1) that] 1(4) by simp
    then show ?thesis using 2(8) [rule_format] by (simp only: domIff not_False_eq_True)
  qed
  then have "segment_loaded data q w2" using 1(7) by (simp add: segment_loaded_def)
  moreover have "U (page_of x) \<noteq> None \<longrightarrow> user_byte w2 x = user_byte w x" for x
    using 1(3,8) 2(8) by (metis domIff map_le_def)
  moreover have "load_segments (length (q # qs)) i has_smap data w = Some (Loaded, w2)"
    using q 1(1) 2(1) by (simp add: phdr_def)
  ultimately show ?case using 1 2 map_le_trans [OF 1(3) 2(3)]
    by (intro exI [of _ L2] exI [of _ U2] exI [of _ w2]) auto
qed

section \<open>The stack\<close>

definition stack_page :: "nat \<Rightarrow> u64" where "stack_page p = INIT_STACK_TOP - of_nat (p + 1) * 4096"

lemma stack_pages: "p < 4 \<Longrightarrow> p = 0 \<or> p = 1 \<or> p = 2 \<or> p = (3 :: nat)" by auto

lemma unat_stack_page:
  assumes "p < 4"
  shows "unat (stack_page p) = 0x700000000000 - (p + 1) * 4096"
  using stack_pages [OF assms] unfolding stack_page_def INIT_STACK_TOP_def by (elim disjE) simp_all

lemma map_stack_spec:
  assumes "user_ok L U w" "p + n \<le> 4" "\<forall>j. p \<le> j \<and> j < p + n \<longrightarrow> U (stack_page j) = None"
    and "4 * n \<le> card (low_frames (vm_pfa (e_vm w)))"
  shows "\<exists>L' U' m. map_stack n p w = (True, w\<lparr>e_vm := m\<rparr>) \<and> user_ok L' U' (w\<lparr>e_vm := m\<rparr>) \<and> U \<subseteq>\<^sub>m U' \<and>
    dom U' = dom U \<union> stack_page ` {p..<p + n}"
  using assms
proof (induction n arbitrary: p w L U)
  case 0
  then show ?case by (intro exI [of _ L] exI [of _ U] exI [of _ "e_vm w"]) simp
next
  case (Suc n)
  obtain f q where alloc: "pfa_alloc_low (vm_pfa (e_vm w)) = (f, q)" by fastforce
  let ?m = "map_page f (stack_page p) stack_flags ((e_vm w)\<lparr>vm_pfa := q\<rparr>)"
  let ?w = "w\<lparr>e_vm := ?m\<rparr>"
  have sp: "unat (stack_page p) = 0x700000000000 - (p + 1) * 4096" using Suc.prems(2) by (intro unat_stack_page) simp
  have al: "unat (stack_page p) mod 4096 = 0" "unat (stack_page p) < 2 ^ 47"
    using stack_pages [of p] Suc.prems(2) unfolding sp by auto
  have fl: "present stack_flags" "stack_flags AND PADDR_MASK = 0"
    by (simp_all add: stack_flags_def present_def flag_defs PAGE_NO_EXEC_def PADDR_MASK_def)
  have "U (stack_page p) = None" "4 \<le> card (low_frames (vm_pfa (e_vm w)))" using Suc.prems(3,4) by auto
  from map_user_page [OF Suc.prems(1) al this(1) fl this(2) alloc] obtain L1 where
    s: "f \<noteq> 0" "user_ok L1 (U(stack_page p \<mapsto> f)) ?w" "card (low_frames (vm_pfa (e_vm w))) \<le> card (low_frames (vm_pfa ?m)) + 4"
    by blast
  have "\<exists>L' U' m. map_stack n (p + 1) ?w = (True, ?w\<lparr>e_vm := m\<rparr>) \<and> user_ok L' U' (?w\<lparr>e_vm := m\<rparr>) \<and>
    U(stack_page p \<mapsto> f) \<subseteq>\<^sub>m U' \<and> dom U' = dom (U(stack_page p \<mapsto> f)) \<union> stack_page ` {p + 1..<p + 1 + n}"
  proof (rule Suc.IH [OF s(2)])
    show "\<forall>j. p + 1 \<le> j \<and> j < p + 1 + n \<longrightarrow> (U(stack_page p \<mapsto> f)) (stack_page j) = None"
    proof (intro allI impI)
      fix j assume j: "p + 1 \<le> j \<and> j < p + 1 + n"
      then have "p < j" "j < 4" using Suc.prems(2) by simp_all
      then have "unat (stack_page j) = 0x700000000000 - (j + 1) * 4096" "(p + 1) * 4096 < (j + 1) * 4096" "(j + 1) * 4096 \<le> 16384"
        using unat_stack_page [of j] by simp_all
      then have "unat (stack_page j) \<noteq> unat (stack_page p)" using sp by linarith
      then show "(U(stack_page p \<mapsto> f)) (stack_page j) = None" using j Suc.prems(3) by auto
    qed
  qed (use Suc.prems(2,4) s(3) in simp_all)
  then obtain L2 U2 m where t: "map_stack n (p + 1) ?w = (True, ?w\<lparr>e_vm := m\<rparr>)" "user_ok L2 U2 (?w\<lparr>e_vm := m\<rparr>)"
    "U(stack_page p \<mapsto> f) \<subseteq>\<^sub>m U2" "dom U2 = dom (U(stack_page p \<mapsto> f)) \<union> stack_page ` {p + 1..<p + 1 + n}" by blast
  have "map_stack (Suc n) p w = (True, w\<lparr>e_vm := m\<rparr>)" using alloc s(1) t(1) by (simp add: stack_page_def)
  moreover have "U \<subseteq>\<^sub>m U2" using t(3) Suc.prems(3) by (auto simp: map_le_def dom_def split: if_splits)
  moreover have "{p..<p + Suc n} = insert p {p + 1..<p + 1 + n}" by auto
  then have "dom U2 = dom U \<union> stack_page ` {p..<p + Suc n}" using t(4) by auto
  ultimately show ?case using t(2) by auto
qed

lemma stack_above_segments: "segment_ok data q \<Longrightarrow> j < 4 \<Longrightarrow> stack_page j \<notin> segment_pages q"
  using segment_bounds(3) [of data q] unat_stack_page [of j]
  by (auto simp: segment_pages_def page_range_def STACK_BOTTOM_def split: if_splits)

lemma stack_address:
  assumes "STACK_BOTTOM \<le> unat x" "unat x < unat INIT_STACK_TOP"
  shows "page_of x \<in> stack_page ` {0..<4}"
proof -
  obtain y where y: "unat x = 4096 * 0x6FFFFFFFC + y" using assms(1) le_Suc_ex unfolding STACK_BOTTOM_def by auto
  let ?j = "3 - y div 4096"
  have j: "?j < 4" by simp
  have le: "y div 4096 \<le> 3" using assms(2) y by (simp add: INIT_STACK_TOP_def)
  have "unat (page_of x) = (0x6FFFFFFFC + y div 4096) * 4096" unfolding unat_page_of y by (subst div_mult_self4) simp_all
  also have "\<dots> = unat (stack_page ?j)" unfolding unat_stack_page [OF j] using stack_pages [of "y div 4096"] le by auto
  finally have "unat (page_of x) = unat (stack_page ?j)" .
  then have "page_of x = stack_page ?j" by (simp only: word_unat_eq_iff)
  then show ?thesis using j by auto
qed

section \<open>The loader\<close>

lemma user_byte_cr4 [simp]: "user_byte (w\<lparr>cr4 := c\<rparr>) x = user_byte w x"
proof -
  have "frame_mem (w\<lparr>cr4 := c\<rparr>) = frame_mem w" "e_vm (w\<lparr>cr4 := c\<rparr>) = e_vm w" by simp_all
  then show ?thesis by (simp only: user_byte_def)
qed

lemma segment_loaded_cong:
  assumes "segment_loaded data q w" "segment_ok data q" "\<forall>x. page_of x \<in> segment_pages q \<longrightarrow> user_byte w' x = user_byte w x"
  shows "segment_loaded data q w'"
  using assms(1,3) segment_address(2) [OF assms(2)] by (simp add: segment_loaded_def)

lemma elf_loads:
  assumes "vm_ok L (e_vm w)" "64 \<le> length data" "length data < 2 ^ 32" "take 5 data = [0x7F, 0x45, 0x4C, 0x46, 2]"
    and "length qs = unat (e_phnum (read_hdr data))" "\<forall>i < length qs. phdr data i = Some (qs ! i)"
    and "\<forall>q \<in> set qs. segment_ok data q" "segments_disjoint qs" "bit (cr4 w) 21 \<longrightarrow> has_smap"
    and "4 * (sum_list (map segment_frames qs) + 4) \<le> card (low_frames (vm_pfa (e_vm w)))"
  shows "\<exists>w'. elf64_load_and_run has_smap (Some data) print_fn w =
      Some (Enter (e_entry (read_hdr data)) INIT_STACK_TOP print_fn, w') \<and>
    (\<forall>q \<in> set qs. segment_loaded data q w') \<and>
    (\<forall>x. STACK_BOTTOM \<le> unat x \<and> unat x < unat INIT_STACK_TOP \<longrightarrow> user_byte w' x \<noteq> None) \<and>
    \<not> bit (cr4 w') 20 \<and> \<not> bit (cr4 w') 21"
proof -
  have ok: "user_ok L Map.empty w" using assms(1) by (simp add: user_ok_def)
  have magic: "data ! i = [0x7F, 0x45, 0x4C, 0x46, 2] ! i" if "i < 5" for i
    using arg_cong [OF assms(4), of "\<lambda>xs. xs ! i"] that by simp
  have fr: "4 * sum_list (map segment_frames qs) \<le> card (low_frames (vm_pfa (e_vm w)))" using assms(10) by simp
  obtain L1 U1 w1 where 1: "load_segments (length qs) 0 has_smap data w = Some (Loaded, w1)" "user_ok L1 U1 w1"
    "dom U1 = (\<Union>q \<in> set qs. segment_pages q)" "cr4 w1 = cr4 w"
    "card (low_frames (vm_pfa (e_vm w))) \<le> card (low_frames (vm_pfa (e_vm w1))) + 4 * sum_list (map segment_frames qs)"
    "\<forall>q \<in> set qs. segment_loaded data q w1"
    using segments_spec [OF ok _ assms(7,3,9,8) _ fr, of 0] assms(6) by auto
  have "\<forall>j. 0 \<le> j \<and> j < 0 + 4 \<longrightarrow> U1 (stack_page j) = None"
    using stack_above_segments assms(7) 1(3) by (metis UN_E add_0 domI not_None_eq)
  then obtain L2 U2 m where 2: "map_stack 4 0 w1 = (True, w1\<lparr>e_vm := m\<rparr>)" "user_ok L2 U2 (w1\<lparr>e_vm := m\<rparr>)" "U1 \<subseteq>\<^sub>m U2"
    "dom U2 = dom U1 \<union> stack_page ` {0..<4}"
    using map_stack_spec [OF 1(2), of 0 4] 1(5) assms(10) by auto
  let ?w = "w1\<lparr>e_vm := m\<rparr>"
  have same: "user_byte ?w x = user_byte w1 x" if "page_of x \<in> dom U1" for x
  proof -
    have x: "U1 (page_of x) \<noteq> None" "U2 (page_of x) \<noteq> None" using that 2(4) by auto
    show ?thesis using user_byte_phys [OF 1(2) x(1)] user_byte_phys [OF 2(2) x(2)] phys_of_extend [OF x(1) 2(3)] by simp
  qed
  have "segment_loaded data q ?w" if "q \<in> set qs" for q
    by (rule segment_loaded_cong [OF 1(6) [rule_format, OF that] assms(7) [rule_format, OF that]]) (use same 1(3) that in blast)
  moreover have "user_byte ?w x \<noteq> None" if "STACK_BOTTOM \<le> unat x" "unat x < unat INIT_STACK_TOP" for x
  proof -
    have "page_of x \<in> dom U2" using stack_address [OF that] 2(4) by simp
    then show ?thesis using user_byte_phys [OF 2(2), of x] by (simp add: domIff)
  qed
  moreover have "elf64_load_and_run has_smap (Some data) print_fn w =
      Some (Enter (e_entry (read_hdr data)) INIT_STACK_TOP print_fn, ?w\<lparr>cr4 := cr4 ?w AND NOT (push_bit 20 1 OR push_bit 21 1)\<rparr>)"
    using 1(1) 2(1) assms(2,5) magic [of 0] magic [of 1] magic [of 2] magic [of 3] magic [of 4]
    by (simp add: elf64_load_and_run_def INIT_STACK_PAGES_def)
  ultimately show ?thesis by (intro exI) (auto simp: segment_loaded_def bit_simps)
qed

text \<open>A small program: one segment of four bytes at \<open>0x400000\<close> followed by four zero bytes.\<close>

definition demo_elf :: "u8 list" where
  "demo_elf =
     [0x7F, 0x45, 0x4C, 0x46, 2, 1, 1, 0, 0, 0, 0, 0, 0, 0, 0, 0, 2, 0, 0x3E, 0, 1, 0, 0, 0,
      0, 0, 0x40, 0, 0, 0, 0, 0, 64, 0, 0, 0, 0, 0, 0, 0, 0, 0, 0, 0, 0, 0, 0, 0,
      0, 0, 0, 0, 64, 0, 56, 0, 1, 0, 0, 0, 0, 0, 0, 0,
      1, 0, 0, 0, 5, 0, 0, 0, 120, 0, 0, 0, 0, 0, 0, 0, 0, 0, 0x40, 0, 0, 0, 0, 0,
      0, 0, 0, 0, 0, 0, 0, 0, 4, 0, 0, 0, 0, 0, 0, 0, 8, 0, 0, 0, 0, 0, 0, 0,
      0, 0, 0, 0, 0, 0, 0, 0,
      0x90, 0x90, 0xEB, 0xFE]"

definition demo_phdr :: elf64_phdr where
  "demo_phdr = \<lparr>p_type = 1, p_flags = 5, p_offset = 120, p_vaddr = 0x400000, p_filesz = 4, p_memsz = 8\<rparr>"

definition demo_machine :: elf_world where
  "demo_machine = \<lparr>e_vm = \<lparr>vm_pfa = demo_pfa256, vm_mem = (\<lambda>_. 0), cr3 = 0x100000, hhdm_offset = 0xFFFF800000000000\<rparr>,
     frame_mem = (\<lambda>_. 0xAA), cr4 = push_bit 21 1, ac_flag = False\<rparr>"

lemma demo_elf_slices:
  "slice 24 8 demo_elf = [0, 0, 0x40, 0, 0, 0, 0, 0]" "slice 32 8 demo_elf = [64, 0, 0, 0, 0, 0, 0, 0]"
  "slice 54 2 demo_elf = [56, 0]" "slice 56 2 demo_elf = [1, 0]"
  "slice 64 4 demo_elf = [1, 0, 0, 0]" "slice 68 4 demo_elf = [5, 0, 0, 0]" "slice 72 8 demo_elf = [120, 0, 0, 0, 0, 0, 0, 0]"
  "slice 80 8 demo_elf = [0, 0, 0x40, 0, 0, 0, 0, 0]" "slice 96 8 demo_elf = [4, 0, 0, 0, 0, 0, 0, 0]"
  "slice 104 8 demo_elf = [8, 0, 0, 0, 0, 0, 0, 0]" "length demo_elf = 124" "take 5 demo_elf = [0x7F, 0x45, 0x4C, 0x46, 2]"
  by (simp_all add: slice_def demo_elf_def)

lemma demo_elf_headers:
  "e_entry (read_hdr demo_elf) = 0x400000" "e_phoff (read_hdr demo_elf) = 64" "e_phentsize (read_hdr demo_elf) = 56"
  "e_phnum (read_hdr demo_elf) = 1" "phdr demo_elf 0 = Some demo_phdr"
  by (simp_all add: demo_elf_slices demo_phdr_def read_hdr_def phdr_def read_phdr_def Let_def field16_def field32_def field64_def)

lemma demo_machine_ok: "vm_ok [0x100000 \<mapsto> 4] (e_vm demo_machine)"
proof -
  have "0x100000 \<notin> low_frames demo_pfa256"
  proof
    assume "0x100000 \<in> low_frames demo_pfa256"
    then obtain i where i: "i < 256" "0x100000 = of_nat i * PAGE_SIZE" by (auto simp: low_frames_def demo256_free)
    from arg_cong [OF i(2), of unat] i(1) show False by (simp add: PAGE_SIZE_def unat_word_ariths unat_of_nat_small)
  qed
  with demo256_inv show ?thesis
    by (simp add: vm_ok_def demo_machine_def PADDR_MASK_def table_page_def entry_def present_def)
qed

lemma demo_machine_sel:
  "card (low_frames (vm_pfa (e_vm demo_machine))) = 255" "bit (cr4 demo_machine) 21"
  by (simp_all add: demo_machine_def demo256_card bit_simps)

lemma demo_phdr_ok: "segment_ok demo_elf demo_phdr" "segment_frames demo_phdr = 1"
  by (simp_all add: segment_ok_def demo_phdr_def STACK_BOTTOM_def demo_elf_slices segment_frames_def page_start_def page_end_def)

section \<open>Properties\<close>

text \<open>C19. In a machine whose page tables form a tree and with enough free low frames, a 64-bit ELF
  image whose loadable segments lie inside the image, below the stack and on disjoint pages is
  entered at its entry point with the stack pointer at \<open>INIT_STACK_TOP\<close>; by then every segment is
  in memory at its virtual address, its bytes followed by zeros up to \<open>p_memsz\<close>, the 16 KB below
  the stack pointer are mapped, and SMEP and SMAP are off.\<close>

theorem elf_loads_program:
  assumes "vm_ok L (e_vm w)" "64 \<le> length data" "length data < 2 ^ 32" "take 5 data = [0x7F, 0x45, 0x4C, 0x46, 2]"
    and "length qs = unat (e_phnum (read_hdr data))" "\<forall>i < length qs. phdr data i = Some (qs ! i)"
    and "\<forall>q \<in> set qs. segment_ok data q" "segments_disjoint qs" "bit (cr4 w) 21 \<longrightarrow> has_smap"
    and "4 * (sum_list (map segment_frames qs) + 4) \<le> card (low_frames (vm_pfa (e_vm w)))"
  shows "\<exists>w'. elf64_load_and_run has_smap (Some data) print_fn w =
      Some (Enter (e_entry (read_hdr data)) INIT_STACK_TOP print_fn, w') \<and>
    (\<forall>q \<in> set qs. segment_loaded data q w') \<and>
    (\<forall>x. STACK_BOTTOM \<le> unat x \<and> unat x < unat INIT_STACK_TOP \<longrightarrow> user_byte w' x \<noteq> None) \<and>
    \<not> bit (cr4 w') 20 \<and> \<not> bit (cr4 w') 21"
  using elf_loads [OF assms] .

theorem elf_loads_program_witness:
  "\<exists>w'. elf64_load_and_run True (Some demo_elf) 0x123 demo_machine = Some (Enter 0x400000 INIT_STACK_TOP 0x123, w') \<and>
     user_byte w' 0x400002 = Some 0xEB \<and> user_byte w' 0x400007 = Some 0"
proof -
  have "segments_disjoint [demo_phdr]" by (simp add: segments_disjoint_def)
  then obtain w' where w: "elf64_load_and_run True (Some demo_elf) 0x123 demo_machine = Some (Enter 0x400000 INIT_STACK_TOP 0x123, w')"
    "segment_loaded demo_elf demo_phdr w'"
    using elf_loads_program [OF demo_machine_ok, of demo_elf "[demo_phdr]" True "0x123"] demo_elf_slices(11,12) demo_elf_headers
      demo_phdr_ok demo_machine_sel
    by auto
  have "\<forall>k < 8. user_byte w' (0x400000 + of_nat k) = Some (if k < 4 then demo_elf ! (120 + k) else 0)"
    using w(2) by (simp add: segment_loaded_def demo_phdr_def)
  from this [rule_format, of 2] this [rule_format, of 7]
  have "user_byte w' 0x400002 = Some (demo_elf ! 122)" "user_byte w' 0x400007 = Some 0" by simp_all
  then show ?thesis using w(1) by (auto simp: demo_elf_def)
qed

end
