(* ===== verification/SyscallProps.thy ===== *)
theory SyscallProps
  imports Syscall ElfLoad VfsProps InputProps
begin

text \<open>
  What the system calls promise: \<open>exec\<close> of a file of the RAM file system enters the program of
  the file and leaves the descriptors free, and \<open>read\<close> delivers the line that the keyboard has
  queued.
\<close>

section \<open>Running a file\<close>

lemma fs_of_sel [simp]:
  "nodes (fs_of w) = nodes (s_fs w)" "g_fds (fs_of w) = g_fds (s_fs w)" "fs_pfa (fs_of w) = vm_pfa (e_vm (s_elf w))"
  by (simp_all add: fs_of_def)

lemma put_fs_elf: "fs_pfa fs = vm_pfa (e_vm (s_elf w)) \<Longrightarrow> s_elf (put_fs fs w) = s_elf w" "s_fs (put_fs fs w) = fs"
  by (simp_all add: put_fs_def)

lemma contents_same: "nodes v = nodes w \<Longrightarrow> file_pages v = file_pages w \<Longrightarrow> ram v = ram w \<Longrightarrow> contents v m = contents w m"
proof -
  assume a: "nodes v = nodes w" "file_pages v = file_pages w" "ram v = ram w"
  then have "fbyte v = fbyte w" by (simp add: fbyte_def fun_eq_iff)
  with a show ?thesis by (simp only: contents_def)
qed

lemma contents_bound: "ramfs_ok w \<Longrightarrow> length (contents w n) \<le> 524288"
  using file_size_bound(1) [of w n] by (cases "node_data (nodes w n)") (simp_all add: contents_def)

text \<open>Opening a RAM file, reading it once and closing it returns its bytes.\<close>

lemma read_whole_file:
  assumes "vfs_resolve_path path fs = Some (Some n)" "ramfs_ok fs" "\<not> is_dir (nodes fs n)"
    and "op_open (nodes fs n) = None" "op_close (nodes fs n) = None" "op_read (nodes fs n) = Some RamfsFs"
    and "3 \<le> j" "j < MAX_FDS" "fd_refcount (g_fds fs j) = 0"
  shows "\<exists>fd fs1 fs2 g. vfs_open path 0 fs = Some (int fd, fs1) \<and>
    vfs_read (int fd) EXEC_MAX_SIZE fs1 = Some (int (length (contents fs n)), contents fs n, fs2) \<and>
    vfs_close (int fd) fs2 = Some (0, fs\<lparr>g_fds := g\<rparr>) \<and> (\<forall>i. fd_refcount (g i) = fd_refcount (g_fds fs i))"
proof (cases fs rule: free_fd_cases)
  case full
  then show ?thesis using assms(7-9) by auto
next
  case (slot fd)
  define f where "f = \<lparr>fd_node = Some n, fd_offset = 0, fd_flags = 0, fd_refcount = 1\<rparr>"
  let ?L = "length (contents fs n)"
  have o: "vfs_open path 0 fs = Some (int fd, set_fd fd f fs)"
    using slot assms(1,4) by (simp add: vfs_open_def open_node_def f_def)
  have ok: "ramfs_ok (set_fd fd f fs)" using assms(2) by simp
  have nd: "nodes (set_fd fd f fs) = nodes fs" by (simp add: set_fd_def)
  have len: "?L \<le> 524288"
    by (rule contents_bound [OF assms(2)])
  have sz: "unat (ucast EXEC_MAX_SIZE :: u32) = 1048576" by (simp add: EXEC_MAX_SIZE_def)
  have "ramfs_read n 0 (ucast EXEC_MAX_SIZE) (set_fd fd f fs) = Some (int ?L, contents fs n)"
    using ramfs_read_section [OF ok, of n 0 "ucast EXEC_MAX_SIZE"] assms(3) len unfolding sz by (simp add: Let_def nd)
  then have c: "call_read RamfsFs n 0 (ucast EXEC_MAX_SIZE) (set_fd fd f fs) = Some (int ?L, contents fs n)"
    by (simp add: call_read_def)
  define f' where "f' = (if ?L > 0 then f\<lparr>fd_offset := of_nat ?L\<rparr> else f)"
  have r: "vfs_read (int fd) EXEC_MAX_SIZE (set_fd fd f fs) = Some (int ?L, contents fs n, fs\<lparr>g_fds := (g_fds fs)(fd := f')\<rparr>)"
    using c slot assms(6) by (auto simp: vfs_read_def bad_fd_def nd Let_def f_def f'_def set_fd_def)
  have f': "fd_refcount f' = 1" "fd_node f' = Some n" by (simp_all add: f'_def f_def)
  define h where "h = f'\<lparr>fd_refcount := 0, fd_node := None\<rparr>"
  have "vfs_close (int fd) (fs\<lparr>g_fds := (g_fds fs)(fd := f')\<rparr>) = Some (0, fs\<lparr>g_fds := (g_fds fs)(fd := h)\<rparr>)"
    using slot f' assms(5) by (simp add: vfs_close_def bad_fd_def Let_def set_fd_def h_def)
  moreover have "\<forall>i. fd_refcount (((g_fds fs)(fd := h)) i) = fd_refcount (g_fds fs i)" using slot by (simp add: h_def)
  ultimately show ?thesis using o r by blast
qed

section \<open>A small system to try\<close>

text \<open>The file \<open>/init\<close> holds the program \<open>demo_elf\<close> in the frame \<open>0x101000\<close>.\<close>

definition demo_exec_fs :: fs_world where
  "demo_exec_fs = demo_fs\<lparr>nodes := (\<lambda>_. zero_node)
       (RamfsNode 0 := zero_node\<lparr>node_name := ''/'', node_flags := VFS_DIRECTORY, node_data := DirData 0, op_finddir := Some RamfsFs\<rparr>,
        RamfsNode 1 := zero_node\<lparr>node_name := ''init'', node_flags := VFS_FILE, node_data := FileData 0, node_size := 124,
          op_read := Some RamfsFs\<rparr>),
     g_vfs_root := Some (RamfsNode 0), ramfs_children := (\<lambda>_ j. if j = 0 then Some (RamfsNode 1) else None),
     ramfs_child_names := (\<lambda>_ _. ''init''),
     file_data_count := 1, file_num_pages := (\<lambda>_. 1), file_pages := (\<lambda>_ _. 0xFFFF800000101000),
     ram := (\<lambda>a. if unat (a - 0xFFFF800000101000) < 124 then demo_elf ! unat (a - 0xFFFF800000101000) else 0)\<rparr>"

lemma demo_exec_fs_ok: "ramfs_ok demo_exec_fs"
proof -
  have page: "low_page 0x101000" by (simp add: low_page_def PAGE_SIZE_def)
  have "0x101000 \<notin> low_frames demo_pfa256"
  proof
    assume "0x101000 \<in> low_frames demo_pfa256"
    then obtain i where i: "i < 256" "0x101000 = of_nat i * PAGE_SIZE" by (auto simp: low_frames_def demo256_free)
    then have "unat (0x101000 :: u64) = i * 4096" using unat_frame [of i] by simp
    with i show False by simp
  qed
  with page have page: "\<exists>a. low_page a \<and> a \<notin> low_frames demo_pfa256 \<and> (0xFFFF800000101000 :: u64) = a + 0xFFFF800000000000"
    by (intro exI [of _ "0x101000"]) simp
  have "pages_inv (pages_bound demo_exec_fs) demo_exec_fs"
    using demo256_inv page
    by (auto simp: pages_inv_def pages_bound_def demo_exec_fs_def demo_fs_def hhdm_ok_def split: if_splits)
  then show ?thesis
    by (auto simp: ramfs_ok_def demo_exec_fs_def demo_fs_def zero_node_def split: if_splits)
qed

lemma demo_exec_fs_node:
  "\<not> is_dir (nodes demo_exec_fs (RamfsNode 1))" "op_open (nodes demo_exec_fs (RamfsNode 1)) = None"
  "op_close (nodes demo_exec_fs (RamfsNode 1)) = None" "op_read (nodes demo_exec_fs (RamfsNode 1)) = Some RamfsFs"
  "fd_refcount (g_fds demo_exec_fs 3) = 0"
  by (simp_all add: demo_exec_fs_def demo_fs_def zero_node_def is_dir_def vfs_flag_defs)

lemma demo_exec_fs_path: "vfs_resolve_path ''/init'' demo_exec_fs = Some (Some (RamfsNode 1))"
proof -
  have "List.find (\<lambda>j. j = 0) [0..<64] = Some (0 :: nat)" by (simp only: find_upt_Some) simp
  then have "call_finddir RamfsFs (RamfsNode 0) ''init'' demo_exec_fs = Some (RamfsNode 1)"
    by (simp add: call_finddir_def ramfs_finddir_def demo_exec_fs_def is_dir_def vfs_flag_defs zero_node_def RAMFS_MAX_CHILDREN_def
        find_child_spec ramfs_name_match_iff) 
  then show ?thesis
    by (simp add: vfs_resolve_path_def slash_def resolve_loop.simps next_component_def after_component_def demo_exec_fs_def
        zero_node_def vfs_flag_defs)
qed

lemma demo_exec_fs_contents: "demo_elf = contents demo_exec_fs (RamfsNode 1)"
proof (rule nth_equalityI)
  have n: "nodes demo_exec_fs (RamfsNode 1) = zero_node\<lparr>node_name := ''init'', node_flags := VFS_FILE, node_data := FileData 0, node_size := 124,
          op_read := Some RamfsFs\<rparr>" by (simp add: demo_exec_fs_def)
  then have c: "contents demo_exec_fs (RamfsNode 1) = map (fbyte demo_exec_fs 0) [0..<124]" by (simp add: contents_def)
  show "length demo_elf = length (contents demo_exec_fs (RamfsNode 1))" unfolding c by (simp add: demo_elf_slices)
  fix i assume "i < length demo_elf"
  then have i: "i < 124" by (simp add: demo_elf_slices)
  then have "unat (of_nat i :: u64) = i" by (intro unat_of_nat_small) simp
  with i show "demo_elf ! i = contents demo_exec_fs (RamfsNode 1) ! i"
    unfolding c by (simp add: fbyte_def demo_exec_fs_def)
qed

lemmas demo_exec_fs_sel = demo_exec_fs_node demo_exec_fs_path demo_exec_fs_contents

section \<open>Reading a line\<close>

lemma sint_byte: "unat c < 128 \<Longrightarrow> sint c = int (unat c)" for c :: u8
proof -
  assume c: "unat c < 128"
  have "sint (of_nat n :: u8) = int n" if "n < 128" for n
    using that by (simp add: signed_of_nat signed_take_bit_int_eq_self)
  from this [OF c] show ?thesis by simp
qed

lemma getchar_ready:
  assumes "ring_inv s" "ring s = c # cs" "unat c < 128"
  obtains t where "ps2_getchar hw usb s = Some (int (unat c), t)" "ring_inv t" "ring t = cs"
proof -
  have "in_head s \<noteq> in_tail s" using ring_empty_iff [OF assms(1)] assms(2) by simp
  then have "wait_char hw usb 0 s = Some s" by (simp add: wait_char.simps)
  then show ?thesis using that [of "snd (take_char s)"] ring_get [OF assms(1,2)] sint_byte [OF assms(3)]
    by (simp add: ps2_getchar_def split_beta Let_def)
qed

lemma elf_store_Cons:
  assumes "elf_store va (b # bs) w = Some v"
  obtains u where "elf_store va [b] w = Some u" "elf_store (va + 1) bs u = Some v"
  using assms that by (auto split: option.splits)

text \<open>What the loop takes from the ring: a line, or as many characters as fit.\<close>

definition is_line :: "u8 list \<Rightarrow> nat \<Rightarrow> bool" where
  "is_line cs n \<longleftrightarrow> cs \<noteq> [] \<and> length cs \<le> n \<and> (\<forall>c \<in> set cs. unat c < 128) \<and> 10 \<notin> set (butlast cs) \<and>
     (last cs = 10 \<or> length cs = n)"

lemma read_chars_line:
  assumes "ring_inv (s_in w)" "ring (s_in w) = cs @ rest" "is_line cs n" "elf_store (buf + of_nat i) cs (s_elf w) = Some v"
  shows "\<exists>inp. read_chars e n i buf w = Some (i + length cs, w\<lparr>s_in := inp, s_elf := v\<rparr>) \<and> ring_inv inp \<and> ring inp = rest"
  using assms
proof (induction cs arbitrary: n i w)
  case Nil
  then show ?case by (simp add: is_line_def)
next
  case (Cons c cs)
  obtain m where n: "n = Suc m" using Cons.prems(3) by (cases n) (auto simp: is_line_def)
  have c: "unat c < 128" using Cons.prems(3) by (simp add: is_line_def)
  obtain t where t: "ps2_getchar (env_ports e) (env_usb e i) (s_in w) = Some (int (unat c), t)" "ring_inv t" "ring t = cs @ rest"
    using getchar_ready [OF Cons.prems(1) _ c] Cons.prems(2) by (metis append_Cons)
  obtain u where u: "elf_store (buf + of_nat i) [c] (s_elf w) = Some u" "elf_store (buf + of_nat i + 1) cs u = Some v"
    using elf_store_Cons [OF Cons.prems(4)] .
  let ?w = "w\<lparr>s_in := t, s_elf := u\<rparr>"
  have store: "store_user (buf + of_nat i) [of_int (int (unat c))] (w\<lparr>s_in := t\<rparr>) = Some ?w"
    using u(1) by (simp add: store_user_def del: elf_store.simps)
  have nl: "int (unat c) = 10 \<longleftrightarrow> c = 10"
    using of_nat_eq_iff [of "unat c" 10, where ?'a = int] by (simp add: word_unat_eq_iff del: of_nat_eq_iff of_nat_unat)
  show ?case
  proof (cases "c = 10 \<or> cs = []")
    case True
    have "cs = []"
      using True Cons.prems(3) by (cases cs) (auto simp: is_line_def)
    moreover have "read_chars e m (i + 1) buf ?w = Some (i + 1, ?w)" if "c \<noteq> 10"
      using Cons.prems(3) that \<open>cs = []\<close> n by (simp add: is_line_def)
    ultimately show ?thesis using t u store nl n by (intro exI [of _ t]) (auto simp: Let_def simp del: elf_store.simps(2))
  next
    case False
    have line: "is_line cs m" using Cons.prems(3) False n by (auto simp: is_line_def)
    have "elf_store (buf + of_nat (i + 1)) cs (s_elf ?w) = Some v" using u(2) by (simp add: add.assoc add.commute [of 1])
    from Cons.IH [OF _ _ line this] t obtain inp where
      "read_chars e m (i + 1) buf ?w = Some (i + 1 + length cs, ?w\<lparr>s_in := inp, s_elf := v\<rparr>)" "ring_inv inp" "ring inp = rest"
      by auto
    then show ?thesis using t store nl False n by (intro exI [of _ inp]) (simp add: Let_def)
  qed
qed

text \<open>\<open>hi\<close>, a line feed and one more character are queued.\<close>

definition demo_typed :: input where
  "demo_typed = boot_input\<lparr>in_head := 4, in_buf := (\<lambda>i. [104, 105, 10, 120] ! i)\<rparr>"

lemma demo_typed_ring: "ring_inv demo_typed" "ring demo_typed = [104, 105, 10, 120]"
  by (simp_all add: demo_typed_def ring_inv_def ring_def boot_input_def upt_rec)

section \<open>Properties\<close>

text \<open>C13. \<open>exec\<close> of a path that resolves to a regular file of the RAM file system whose bytes are a
  well-formed ELF image enters the image at its entry point, with \<open>fb_puts\<close> in the first
  argument register, every segment and the stack in place; no descriptor stays open and
  every file keeps its contents.\<close>

theorem sys_exec_runs_file:
  assumes "vfs_resolve_path path (fs_of w) = Some (Some n)" "ramfs_ok (fs_of w)" "\<not> is_dir (nodes (s_fs w) n)"
    and "op_open (nodes (s_fs w) n) = None" "op_close (nodes (s_fs w) n) = None" "op_read (nodes (s_fs w) n) = Some RamfsFs"
    and "3 \<le> j" "j < MAX_FDS" "fd_refcount (g_fds (s_fs w) j) = 0"
    and "data = contents (s_fs w) n" "64 \<le> length data" "take 5 data = [0x7F, 0x45, 0x4C, 0x46, 2]"
    and "length qs = unat (e_phnum (read_hdr data))" "\<forall>i < length qs. phdr data i = Some (qs ! i)"
    and "\<forall>q \<in> set qs. segment_ok data q" "segments_disjoint qs" "bit (cr4 (s_elf w)) 21 \<longrightarrow> env_smap e"
    and "vm_ok L (e_vm (s_elf w))"
    and "4 * (sum_list (map segment_frames qs) + 4) \<le> card (low_frames (vm_pfa (e_vm (s_elf w))))"
  shows "\<exists>w'. sys_exec e path w = Some (Entered (e_entry (read_hdr data)) INIT_STACK_TOP (env_fb_puts e), w') \<and>
    (\<forall>q \<in> set qs. segment_loaded data q (s_elf w')) \<and>
    (\<forall>x. STACK_BOTTOM \<le> unat x \<and> unat x < unat INIT_STACK_TOP \<longrightarrow> user_byte (s_elf w') x \<noteq> None) \<and>
    (\<forall>i. fd_refcount (g_fds (s_fs w') i) = fd_refcount (g_fds (s_fs w) i)) \<and>
    (\<forall>m. contents (s_fs w') m = contents (s_fs w) m)"
proof -
  have data: "contents (fs_of w) n = data"
    using contents_same [of "fs_of w" "s_fs w"] assms(10) by (simp add: fs_of_def)
  have len: "length data < 2 ^ 32"
    using contents_bound [OF assms(2), of n] unfolding data by simp
  obtain fd fs1 fs2 g where f: "vfs_open path 0 (fs_of w) = Some (int fd, fs1)"
    "vfs_read (int fd) EXEC_MAX_SIZE fs1 = Some (int (length data), data, fs2)"
    "vfs_close (int fd) fs2 = Some (0, (fs_of w)\<lparr>g_fds := g\<rparr>)" "\<forall>i. fd_refcount (g i) = fd_refcount (g_fds (s_fs w) i)"
    using read_whole_file [OF assms(1,2), of j] assms(3-9) unfolding data by auto
  obtain v where v: "elf64_load_and_run (env_smap e) (Some data) (env_fb_puts e) (s_elf w) =
      Some (Enter (e_entry (read_hdr data)) INIT_STACK_TOP (env_fb_puts e), v)"
    "\<forall>q \<in> set qs. segment_loaded data q v"
    "\<forall>x. STACK_BOTTOM \<le> unat x \<and> unat x < unat INIT_STACK_TOP \<longrightarrow> user_byte v x \<noteq> None"
    using elf_loads [OF assms(18,11) len assms(12-17,19)] by blast
  have ne: "data \<noteq> []" using assms(11) by auto
  let ?w = "(put_fs ((fs_of w)\<lparr>g_fds := g\<rparr>) w)\<lparr>s_elf := v\<rparr>"
  have "s_elf (put_fs ((fs_of w)\<lparr>g_fds := g\<rparr>) w) = s_elf w" by (rule put_fs_elf) simp
  then have "sys_exec e path w = Some (Entered (e_entry (read_hdr data)) INIT_STACK_TOP (env_fb_puts e), ?w)"
    using f(1-3) v(1) ne by (simp add: sys_exec_def Let_def)
  moreover have "contents (s_fs ?w) m = contents (s_fs w) m" for m
    by (rule contents_same) (simp_all add: put_fs_def fs_of_def)
  moreover have "fd_refcount (g_fds (s_fs ?w) i) = fd_refcount (g_fds (s_fs w) i)" for i
    using f(4) by (simp add: put_fs_def)
  ultimately show ?thesis using v(2,3) by (intro exI [of _ ?w]) simp
qed

theorem sys_exec_runs_file_witness:
  "\<forall>f h u i c. \<exists>w'. sys_exec \<lparr>env_font = f, env_ports = h, env_usb = u, env_smap = True, env_fb_puts = 0x123, env_entry = 0, env_vfs = False\<rparr>
     ''/init'' \<lparr>s_fs = demo_exec_fs, s_elf = demo_machine, s_in = i, s_con = c, s_cwd = ''/'', s_outw = [], s_msr = (\<lambda>_. 0)\<rparr> =
       Some (Entered 0x400000 INIT_STACK_TOP 0x123, w') \<and> user_byte (s_elf w') 0x400002 = Some 0xEB"
proof (intro allI)
  fix f h u i c
  let ?e = "\<lparr>env_font = f, env_ports = h, env_usb = u, env_smap = True, env_fb_puts = 0x123, env_entry = 0, env_vfs = False\<rparr>"
  let ?w = "\<lparr>s_fs = demo_exec_fs, s_elf = demo_machine, s_in = i, s_con = c, s_cwd = ''/'', s_outw = [], s_msr = (\<lambda>_. 0)\<rparr>"
  have fs: "fs_of ?w = demo_exec_fs" by (simp add: fs_of_def demo_machine_def demo_exec_fs_def demo_fs_def)
  have sel: "s_fs ?w = demo_exec_fs" "s_elf ?w = demo_machine" "env_smap ?e" "env_fb_puts ?e = 0x123" by simp_all
  have disj: "segments_disjoint [demo_phdr]" by (simp add: segments_disjoint_def)
  have "\<exists>w'. sys_exec ?e ''/init'' ?w = Some (Entered (e_entry (read_hdr demo_elf)) INIT_STACK_TOP (env_fb_puts ?e), w') \<and>
    (\<forall>q \<in> set [demo_phdr]. segment_loaded demo_elf q (s_elf w')) \<and>
    (\<forall>x. STACK_BOTTOM \<le> unat x \<and> unat x < unat INIT_STACK_TOP \<longrightarrow> user_byte (s_elf w') x \<noteq> None) \<and>
    (\<forall>i. fd_refcount (g_fds (s_fs w') i) = fd_refcount (g_fds (s_fs ?w) i)) \<and>
    (\<forall>m. contents (s_fs w') m = contents (s_fs ?w) m)"
    by (rule sys_exec_runs_file [where n = "RamfsNode 1" and j = 3 and L = "[0x100000 \<mapsto> 4]"])
      (use demo_exec_fs_ok demo_exec_fs_sel demo_elf_slices(11,12) demo_elf_headers demo_phdr_ok demo_machine_sel demo_machine_ok disj
       in \<open>simp_all only: fs sel list.set list.size\<close>, simp_all add: MAX_FDS_def)
  then obtain w' where w': "sys_exec ?e ''/init'' ?w = Some (Entered 0x400000 INIT_STACK_TOP 0x123, w')"
    "segment_loaded demo_elf demo_phdr (s_elf w')"
    by (auto simp: demo_elf_headers)
  have "\<forall>k < 8. user_byte (s_elf w') (0x400000 + of_nat k) = Some (if k < 4 then demo_elf ! (120 + k) else 0)"
    using w'(2) by (simp add: segment_loaded_def demo_phdr_def)
  from this [rule_format, of 2] have "user_byte (s_elf w') 0x400002 = Some (demo_elf ! 122)" by simp
  then show "\<exists>w'. sys_exec ?e ''/init'' ?w = Some (Entered 0x400000 INIT_STACK_TOP 0x123, w') \<and>
     user_byte (s_elf w') 0x400002 = Some 0xEB"
    using w'(1) by (simp add: demo_elf_def)
qed

text \<open>\<open>read\<close> on standard input delivers the next line of the keyboard queue: when the queue
  begins with a line (or with as many characters as asked for) of ASCII characters and the
  buffer is mapped, the call returns the number of characters through the line feed, they are
  in the buffer, and exactly they have left the queue.\<close>

theorem sys_read_delivers_line:
  assumes "ring_inv (s_in w)" "ring (s_in w) = cs @ rest" "is_line cs (unat count)" "buf \<noteq> 0"
    and "user_ok L U (s_elf w)" "may_store (s_elf w)" "unat buf + length cs \<le> 2 ^ 47"
    and "\<forall>k < length cs. U (page_of (buf + of_nat k)) \<noteq> None"
  shows "\<exists>w'. sys_read e 0 buf count w = Some (Ret (int (length cs)), w') \<and> ring (s_in w') = rest \<and>
    (\<forall>k < length cs. user_byte (s_elf w') (buf + of_nat k) = Some (cs ! k))"
proof -
  obtain m where m: "elf_store buf cs (s_elf w) = Some ((s_elf w)\<lparr>frame_mem := m\<rparr>)"
    "\<forall>x. U (page_of x) \<noteq> None \<longrightarrow> m (phys_of U x) =
       (if unat buf \<le> unat x \<and> unat x < unat buf + length cs then cs ! (unat x - unat buf) else frame_mem (s_elf w) (phys_of U x))"
    using elf_store_spec [OF assms(5-7)] assms(8) by blast
  let ?v = "(s_elf w)\<lparr>frame_mem := m\<rparr>"
  have "elf_store (buf + of_nat 0) cs (s_elf w) = Some ?v" using m(1) by simp
  from read_chars_line [OF assms(1-3) this] obtain inp where
    r: "read_chars e (unat count) 0 buf w = Some (length cs, w\<lparr>s_in := inp, s_elf := ?v\<rparr>)" "ring inp = rest" by auto
  have "length cs < 2 ^ 63" using assms(7) by simp
  then have "sint (of_nat (length cs) :: u64) = int (length cs)"
    by (simp only: signed_of_nat) (simp add: signed_take_bit_int_eq_self)
  moreover have "count \<noteq> 0" using assms(3) by (auto simp: is_line_def)
  ultimately have "sys_read e 0 buf count w = Some (Ret (int (length cs)), w\<lparr>s_in := inp, s_elf := ?v\<rparr>)"
    using r(1) assms(4) by (simp add: sys_read_def)
  moreover have "user_byte ?v (buf + of_nat k) = Some (cs ! k)" if k: "k < length cs" for k
  proof -
    have "unat (of_nat (unat buf + k) :: u64) = unat buf + k" using k assms(7) by (intro unat_of_nat_small) simp
    then have "unat (buf + of_nat k) = unat buf + k" by simp
    moreover have "U (page_of (buf + of_nat k)) \<noteq> None" using assms(8) k by blast
    ultimately show ?thesis
      using user_byte_phys [of L U ?v "buf + of_nat k"] assms(5) m(2) k by (simp add: domIff)
  qed
  ultimately show ?thesis using r(2) by (intro exI [of _ "w\<lparr>s_in := inp, s_elf := ?v\<rparr>"]) simp
qed

theorem sys_read_delivers_line_witness:
  "\<forall>e fs c. \<exists>w'. sys_read e 0 (INIT_STACK_TOP - 16) 8
     \<lparr>s_fs = fs, s_elf = (snd (map_stack 4 0 demo_machine))\<lparr>cr4 := 0\<rparr>, s_in = demo_typed, s_con = c, s_cwd = ''/'', s_outw = [],
      s_msr = (\<lambda>_. 0)\<rparr> = Some (Ret 3, w') \<and> ring (s_in w') = [120] \<and> user_byte (s_elf w') (INIT_STACK_TOP - 15) = Some 105"
proof (intro allI)
  fix e :: sys_env and fs c
  let ?u = "(snd (map_stack 4 0 demo_machine))\<lparr>cr4 := 0\<rparr>"
  let ?w = "\<lparr>s_fs = fs, s_elf = ?u, s_in = demo_typed, s_con = c, s_cwd = ''/'', s_outw = [], s_msr = (\<lambda>_. 0)\<rparr>"
  have "user_ok [0x100000 \<mapsto> 4] Map.empty demo_machine" using demo_machine_ok by (simp add: user_ok_def)
  from map_stack_spec [OF this, of 0 4]
  obtain L U where ok: "user_ok L U (snd (map_stack 4 0 demo_machine))" and dom: "dom U = stack_page ` {0..<4}"
    by (auto simp: demo_machine_sel)
  have ok: "user_ok L U ?u" using ok by (simp add: user_ok_def)
  have a: "unat (INIT_STACK_TOP - 16 + of_nat k) = 0x6FFFFFFFFFF0 + k" if "k < 3" for k
  proof -
    have "INIT_STACK_TOP - 16 + of_nat k = (of_nat (0x6FFFFFFFFFF0 + k) :: u64)" by (simp add: INIT_STACK_TOP_def)
    moreover have "unat (of_nat (0x6FFFFFFFFFF0 + k) :: u64) = 0x6FFFFFFFFFF0 + k"
      using that by (intro unat_of_nat_small) simp
    ultimately show ?thesis by (simp only:)
  qed
  have "\<exists>w'. sys_read e 0 (INIT_STACK_TOP - 16) 8 ?w = Some (Ret (int (length [104, 105, 10 :: u8])), w') \<and> ring (s_in w') = [120] \<and>
    (\<forall>k < length [104, 105, 10 :: u8]. user_byte (s_elf w') (INIT_STACK_TOP - 16 + of_nat k) = Some ([104, 105, 10] ! k))"
  proof (rule sys_read_delivers_line [where L = L and U = U])
    show "\<forall>k < length [104, 105, 10 :: u8]. U (page_of (INIT_STACK_TOP - 16 + of_nat k)) \<noteq> None"
    proof (intro allI impI)
      fix k assume "k < length [104, 105, 10 :: u8]"
      then have k: "k < 3" by simp
      have "page_of (INIT_STACK_TOP - 16 + of_nat k) \<in> stack_page ` {0..<4}"
        by (rule stack_address) (use k in \<open>simp_all only: a STACK_BOTTOM_def, simp_all add: INIT_STACK_TOP_def\<close>)
      then show "U (page_of (INIT_STACK_TOP - 16 + of_nat k)) \<noteq> None" using dom by auto
    qed
    show "unat (INIT_STACK_TOP - 16) + length [104, 105, 10 :: u8] \<le> 2 ^ 47" using a [of 0] by simp
    show "INIT_STACK_TOP - 16 \<noteq> 0" by (simp add: INIT_STACK_TOP_def)
  qed (use ok in \<open>simp_all add: demo_typed_ring is_line_def may_store_def\<close>)
  then obtain w' where w': "sys_read e 0 (INIT_STACK_TOP - 16) 8 ?w = Some (Ret 3, w')" "ring (s_in w') = [120]"
    "\<forall>k < 3. user_byte (s_elf w') (INIT_STACK_TOP - 16 + of_nat k) = Some ([104, 105, 10] ! k)" by auto
  have "user_byte (s_elf w') (INIT_STACK_TOP - 16 + of_nat 1) = Some ([104, 105, 10] ! 1)" using w'(3) [rule_format, of 1] by simp
  then show "\<exists>w'. sys_read e 0 (INIT_STACK_TOP - 16) 8 ?w = Some (Ret 3, w') \<and> ring (s_in w') = [120] \<and>
      user_byte (s_elf w') (INIT_STACK_TOP - 15) = Some 105"
    using w'(1,2) by (simp add: INIT_STACK_TOP_def)
qed

end
