(* ===== verification/Hardware.thy ===== *)
theory Hardware
  imports CString Bytes
begin

text \<open>
  What the drivers see of the machine: little-endian fields in memory, ports (\<open>include/io.h\<close>)
  and device registers.  Memory is a function from addresses; the drivers below assume that the
  addresses they use are mapped.  The answers of the devices come from an environment \<open>hw\<close>: the
  \<open>k\<close>-th read of a location finds the value \<open>hw k log loc\<close>, where \<open>log\<close> is what has been done
  to the machine so far, latest first; \<open>inb\<close> and \<open>inw\<close> take the low bits.
\<close>

section \<open>Memory\<close>

definition mem16 :: "(u64 \<Rightarrow> u8) \<Rightarrow> u64 \<Rightarrow> u16" where "mem16 m a = of_nat (le_value (load_bytes m a 2))"
definition mem32 :: "(u64 \<Rightarrow> u8) \<Rightarrow> u64 \<Rightarrow> u32" where "mem32 m a = of_nat (le_value (load_bytes m a 4))"
definition mem64 :: "(u64 \<Rightarrow> u8) \<Rightarrow> u64 \<Rightarrow> u64" where "mem64 m a = of_nat (le_value (load_bytes m a 8))"

section \<open>Ports and registers\<close>

datatype machine_event =
    OutB u16 u8
  | OutW u16 u16
  | OutL u16 u32
  | Store u64 "u8 list"       \<comment> \<open>a store to a device register\<close>
  | SoftInt u8
  | TripleFault

record machine =
  reads :: nat
  events :: "machine_event list"

datatype location = Port u16 | Reg u64

type_synonym dev_env = "nat \<Rightarrow> machine_event list \<Rightarrow> location \<Rightarrow> u32"

definition inb :: "dev_env \<Rightarrow> u16 \<Rightarrow> 'a machine_scheme \<Rightarrow> u8 \<times> 'a machine_scheme" where
  "inb hw p s = (ucast (hw (reads s) (events s) (Port p)), s\<lparr>reads := reads s + 1\<rparr>)"

definition inw :: "dev_env \<Rightarrow> u16 \<Rightarrow> 'a machine_scheme \<Rightarrow> u16 \<times> 'a machine_scheme" where
  "inw hw p s = (ucast (hw (reads s) (events s) (Port p)), s\<lparr>reads := reads s + 1\<rparr>)"

definition inl :: "dev_env \<Rightarrow> u16 \<Rightarrow> 'a machine_scheme \<Rightarrow> u32 \<times> 'a machine_scheme" where
  "inl hw p s = (hw (reads s) (events s) (Port p), s\<lparr>reads := reads s + 1\<rparr>)"

definition reg_read :: "dev_env \<Rightarrow> u64 \<Rightarrow> 'a machine_scheme \<Rightarrow> u32 \<times> 'a machine_scheme" where
  "reg_read hw a s = (hw (reads s) (events s) (Reg a), s\<lparr>reads := reads s + 1\<rparr>)"

definition do_event :: "machine_event \<Rightarrow> 'a machine_scheme \<Rightarrow> 'a machine_scheme" where
  "do_event x s = s\<lparr>events := x # events s\<rparr>"

definition outb :: "u16 \<Rightarrow> u8 \<Rightarrow> 'a machine_scheme \<Rightarrow> 'a machine_scheme" where "outb p v = do_event (OutB p v)"
definition outw :: "u16 \<Rightarrow> u16 \<Rightarrow> 'a machine_scheme \<Rightarrow> 'a machine_scheme" where "outw p v = do_event (OutW p v)"
definition outl :: "u16 \<Rightarrow> u32 \<Rightarrow> 'a machine_scheme \<Rightarrow> 'a machine_scheme" where "outl p v = do_event (OutL p v)"

definition reg_write :: "u64 \<Rightarrow> u32 \<Rightarrow> 'a machine_scheme \<Rightarrow> 'a machine_scheme" where
  "reg_write a v = do_event (Store a (bytes32 v))"

lemmas event_defs = do_event_def outb_def outw_def outl_def reg_write_def

end
