(* ===== verification/Acpi.thy ===== *)
theory Acpi
  imports Hardware
begin

text \<open>
  \<open>drivers/acpi.c\<close>: the search for the tables, the processor list, the ACPI mode, shutdown and
  reboot.  A pointer is its address, 0 for NULL.  The tables are read where the code reads them:
  most through the direct map at \<open>hhdm_offset\<close>, the DSDT at its physical address.  The delay
  loops and the messages are left out; the checksum of a table decides only about a message.
\<close>

section \<open>State\<close>

record acpi = machine +
  a_mem :: "u64 \<Rightarrow> u8"
  a_hhdm :: u64
  g_rsdp :: u64
  g_rsdt :: u64
  g_xsdt :: u64
  g_fadt :: u64
  g_madt :: u64
  g_acpi_enabled :: bool
  g_local_apic_addr :: u32
  g_cpu_count :: nat
  acpi_cpu_count :: nat
  acpi_cpu_apic_ids :: "nat \<Rightarrow> u32"

section \<open>Structures\<close>

definition sdt_length :: "(u64 \<Rightarrow> u8) \<Rightarrow> u64 \<Rightarrow> u32" where "sdt_length m t = mem32 m (t + 4)"

record fadt =
  f_revision :: u8
  f_dsdt :: u32
  smi_command_port :: u32
  f_acpi_enable :: u8
  pm1a_control_block :: u32
  pm1b_control_block :: u32
  boot_arch_flags :: u16
  f_flags :: u32
  reset_space :: u8
  reset_width :: u8
  reset_address :: u64
  reset_value :: u8

definition read_fadt :: "(u64 \<Rightarrow> u8) \<Rightarrow> u64 \<Rightarrow> fadt" where
  "read_fadt m t = \<lparr>f_revision = m (t + 8), f_dsdt = mem32 m (t + 40), smi_command_port = mem32 m (t + 48),
     f_acpi_enable = m (t + 52), pm1a_control_block = mem32 m (t + 64), pm1b_control_block = mem32 m (t + 68),
     boot_arch_flags = mem16 m (t + 109), f_flags = mem32 m (t + 112), reset_space = m (t + 116),
     reset_width = m (t + 117), reset_address = mem64 m (t + 120), reset_value = m (t + 128)\<rparr>"

section \<open>The root pointer\<close>

fun custom_memcmp :: "u8 list \<Rightarrow> u8 list \<Rightarrow> int" where
  "custom_memcmp (a # s) (b # t) = (if a \<noteq> b then uint a - uint b else custom_memcmp s t)"
| "custom_memcmp _ _ = 0"

definition bytes_of :: "string \<Rightarrow> u8 list" where "bytes_of s = map of_char s"

definition acpi_check_rsdp :: "(u64 \<Rightarrow> u8) \<Rightarrow> u64 \<Rightarrow> bool" where
  "acpi_check_rsdp m p \<longleftrightarrow>
     custom_memcmp (load_bytes m p 8) (bytes_of ''RSD PTR '') = 0 \<and> sum_list (load_bytes m p 20) = 0"

definition acpi_checksum :: "(u64 \<Rightarrow> u8) \<Rightarrow> u64 \<Rightarrow> bool" where
  "acpi_checksum m h \<longleftrightarrow> sum_list (load_bytes m h (unat (sdt_length m h))) = 0"

text \<open>\<open>n\<close> candidates, 16 bytes apart.\<close>

primrec scan_rsdp :: "nat \<Rightarrow> u64 \<Rightarrow> (u64 \<Rightarrow> u8) \<Rightarrow> u64" where
  "scan_rsdp 0 addr m = 0"
| "scan_rsdp (Suc n) addr m = (if acpi_check_rsdp m addr then addr else scan_rsdp n (addr + 16) m)"

definition find_rsdp :: "(u64 \<Rightarrow> u8) \<Rightarrow> u64" where
  "find_rsdp m =
     (let p = scan_rsdp ((0x100000 - 0xE0000) div 16) 0xE0000 m in
      if p \<noteq> 0 then p
      else let ebda_segment = mem16 m 0x40E in
        if ebda_segment \<noteq> 0 then scan_rsdp (1024 div 16) (push_bit 4 (ucast ebda_segment)) m else 0)"

section \<open>Tables\<close>

text \<open>The entry \<open>i\<close> of the extended and of the old table.\<close>

definition xsdt_entry :: "acpi \<Rightarrow> nat \<Rightarrow> u64" where
  "xsdt_entry s i = mem64 (a_mem s) (g_xsdt s + 36 + 8 * of_nat i) + a_hhdm s"

definition rsdt_entry :: "acpi \<Rightarrow> nat \<Rightarrow> u64" where
  "rsdt_entry s i = ucast (mem32 (a_mem s) (g_rsdt s + 36 + 4 * of_nat i)) + a_hhdm s"

definition has_signature :: "acpi \<Rightarrow> string \<Rightarrow> u64 \<Rightarrow> bool" where
  "has_signature s sig h \<longleftrightarrow> custom_memcmp (load_bytes (a_mem s) h 4) (bytes_of sig) = 0"

primrec scan_tables :: "nat \<Rightarrow> nat \<Rightarrow> (nat \<Rightarrow> u64) \<Rightarrow> string \<Rightarrow> acpi \<Rightarrow> u64 option" where
  "scan_tables 0 i ent sig s = None"
| "scan_tables (Suc n) i ent sig s =
     (if has_signature s sig (ent i) then Some (ent i) else scan_tables n (Suc i) ent sig s)"

definition acpi_find_table :: "string \<Rightarrow> acpi \<Rightarrow> u64" where
  "acpi_find_table sig s =
     (let old =
        (if g_rsdt s \<noteq> 0 then
           let len = sdt_length (a_mem s) (g_rsdt s) in
           if len < 36 then 0
           else (case scan_tables ((unat len - 36) div 4) 0 (rsdt_entry s) sig s of Some h \<Rightarrow> h | None \<Rightarrow> 0)
         else 0)
      in
      if g_rsdt s = 0 \<and> g_xsdt s = 0 then 0
      else if g_xsdt s \<noteq> 0 then
        let len = sdt_length (a_mem s) (g_xsdt s) in
        if len < 36 then 0
        else (case scan_tables ((unat len - 36) div 8) 0 (xsdt_entry s) sig s of Some h \<Rightarrow> h | None \<Rightarrow> old)
      else old)"

definition acpi_get_fadt :: "acpi \<Rightarrow> u64 \<times> acpi" where
  "acpi_get_fadt s =
     (if g_fadt s \<noteq> 0 then (g_fadt s, s)
      else let h = acpi_find_table ''FACP'' s in (h, s\<lparr>g_fadt := h\<rparr>))"

definition acpi_get_madt :: "acpi \<Rightarrow> u64 \<times> acpi" where
  "acpi_get_madt s =
     (if g_madt s \<noteq> 0 then (g_madt s, s)
      else let h = acpi_find_table ''APIC'' s in (h, s\<lparr>g_madt := h\<rparr>))"

section \<open>Processors\<close>

text \<open>The loop over the entries.  An entry of length 0 is read again and again.\<close>

partial_function (option) madt_loop :: "u64 \<Rightarrow> u64 \<Rightarrow> (u64 \<Rightarrow> u8) \<Rightarrow> nat \<Rightarrow> (nat \<Rightarrow> u32) \<Rightarrow> (nat \<times> (nat \<Rightarrow> u32)) option" where
  "madt_loop ptr stop m cpu_count ids =
     (if ptr < stop then
        if m ptr = 0 \<and> mem32 m (ptr + 4) AND 1 \<noteq> 0 then
          madt_loop (ptr + ucast (m (ptr + 1))) stop m (cpu_count + 1)
            (if cpu_count < 64 then ids(cpu_count := ucast (m (ptr + 3))) else ids)
        else madt_loop (ptr + ucast (m (ptr + 1))) stop m cpu_count ids
      else Some (cpu_count, ids))"

definition acpi_parse_madt :: "acpi \<Rightarrow> acpi option" where
  "acpi_parse_madt s =
     (case acpi_get_madt s of (madt, s) \<Rightarrow>
        if madt = 0 then Some s
        else do {
          let m = a_mem s;
          let s = s\<lparr>g_local_apic_addr := mem32 m (madt + 36)\<rparr>;
          (n, ids) \<leftarrow> madt_loop (madt + 44) (madt + ucast (sdt_length m madt)) m 0 (acpi_cpu_apic_ids s);
          Some (s\<lparr>g_cpu_count := n, acpi_cpu_count := n, acpi_cpu_apic_ids := ids\<rparr>)
        })"

definition acpi_get_local_apic_address :: "acpi \<Rightarrow> u32" where "acpi_get_local_apic_address s = g_local_apic_addr s"
definition acpi_get_cpu_count :: "acpi \<Rightarrow> nat" where "acpi_get_cpu_count s = g_cpu_count s"

section \<open>ACPI mode\<close>

primrec wait_sci :: "nat \<Rightarrow> dev_env \<Rightarrow> u16 \<Rightarrow> acpi \<Rightarrow> acpi" where
  "wait_sci 0 hw port s = s"
| "wait_sci (Suc n) hw port s =
     (case inw hw port s of (pm1_ctl, s) \<Rightarrow>
        if pm1_ctl AND 1 \<noteq> 0 then s\<lparr>g_acpi_enabled := True\<rparr> else wait_sci n hw port s)"

definition acpi_enable :: "dev_env \<Rightarrow> acpi \<Rightarrow> acpi" where
  "acpi_enable hw s =
     (case acpi_get_fadt s of (t, s) \<Rightarrow>
        if t = 0 then s
        else let f = read_fadt (a_mem s) t in
          if smi_command_port f = 0 then s\<lparr>g_acpi_enabled := True\<rparr>
          else wait_sci 1000 hw (ucast (pm1a_control_block f)) (outb (ucast (smi_command_port f)) (f_acpi_enable f) s))"

section \<open>Shutdown\<close>

text \<open>An element of the package of the name \<open>_S5_\<close>: its value, whether it was recognised, and
  the address behind it.\<close>

definition s5_element :: "(u64 \<Rightarrow> u8) \<Rightarrow> u64 \<Rightarrow> u16 \<times> bool \<times> u64" where
  "s5_element m data =
     (if m data = 0x0A then (ucast (m (data + 1)), True, data + 2)
      else if m data = 0x00 then (0, True, data + 1)
      else if m data = 0x01 then (1, True, data + 1)
      else (0, False, data))"

definition s5_package :: "(u64 \<Rightarrow> u8) \<Rightarrow> u64 \<Rightarrow> (u16 \<times> u16) option" where
  "s5_package m p =
     (if custom_memcmp (load_bytes m p 4) (bytes_of ''_S5_'') = 0 \<and> m (p + 4) = 0x12 then
        let pkg = p + 4;
            pkg_len_bytes = (drop_bit 6 (m (pkg + 1))) AND 0x3;
            data = pkg + 2 + ucast pkg_len_bytes + 1;
            (slp_typa, ok_a, data) = s5_element m data;
            (slp_typb, ok_b, data) = s5_element m data
        in if ok_a \<and> ok_b then Some (slp_typa, slp_typb) else None
      else None)"

primrec scan_s5 :: "nat \<Rightarrow> u64 \<Rightarrow> (u64 \<Rightarrow> u8) \<Rightarrow> (u16 \<times> u16) option" where
  "scan_s5 0 p m = None"
| "scan_s5 (Suc n) p m = (case s5_package m p of Some v \<Rightarrow> Some v | None \<Rightarrow> scan_s5 n (p + 1) m)"

text \<open>The loop \<open>p < end\<close> makes no step when the table is shorter than its header.\<close>

definition find_s5 :: "(u64 \<Rightarrow> u8) \<Rightarrow> u32 \<Rightarrow> (u16 \<times> u16) option" where
  "find_s5 m dsdt =
     (let d = ucast dsdt in
      if dsdt \<noteq> 0 \<and> custom_memcmp (load_bytes m d 4) (bytes_of ''DSDT'') = 0
      then scan_s5 (unat (sdt_length m d) - 36) (d + 36) m else None)"

definition SLP_EN :: u16 where "SLP_EN = push_bit 13 1"

primrec guess_sleep :: "u16 list \<Rightarrow> dev_env \<Rightarrow> u16 \<Rightarrow> acpi \<Rightarrow> acpi" where
  "guess_sleep [] hw port s = s"
| "guess_sleep (v # vs) hw port s =
     (case inw hw port s of (ctl, s) \<Rightarrow>
        guess_sleep vs hw port (outw port ((ctl AND 0xE3FF) OR push_bit 10 v OR SLP_EN) s))"

text \<open>\<open>acpi_shutdown\<close> never returns: the result is the state in which the processor halts or the
  BIOS interrupt is raised.\<close>

definition acpi_shutdown :: "dev_env \<Rightarrow> acpi \<Rightarrow> acpi" where
  "acpi_shutdown hw s =
     (case acpi_get_fadt s of (t, s) \<Rightarrow>
        if t = 0 then s
        else
          let s = (if g_acpi_enabled s then s else acpi_enable hw s);
              s = outw 0xB004 0x2000 (outw 0x604 0x2000 s);
              f = read_fadt (a_mem s) t;
              port_a = ucast (pm1a_control_block f);
              port_b = ucast (pm1b_control_block f)
          in case find_s5 (a_mem s) (f_dsdt f) of
            Some (slp_typa, slp_typb) \<Rightarrow>
              let s = (if pm1a_control_block f \<noteq> 0 then outw port_a (push_bit 10 slp_typa OR SLP_EN) s else s)
              in if pm1b_control_block f \<noteq> 0 then outw port_b (push_bit 10 slp_typb OR SLP_EN) s else s
          | None \<Rightarrow>
              let s = (if pm1a_control_block f \<noteq> 0 then guess_sleep [0, 5, 7, 13] hw port_a s else s);
                  s = (if pm1b_control_block f \<noteq> 0 then guess_sleep [0, 5, 7, 13] hw port_b s else s)
              in do_event (SoftInt 0x15) s)"

section \<open>Reboot\<close>

definition acpi_write_gas :: "u8 \<Rightarrow> u8 \<Rightarrow> u64 \<Rightarrow> u64 \<Rightarrow> acpi \<Rightarrow> acpi" where
  "acpi_write_gas space_id width address v s =
     (if space_id = 0 then
        do_event (Store address
          (if width = 8 then [ucast v] else if width = 16 then bytes16 (ucast v)
           else if width = 32 then bytes32 (ucast v) else bytes64 v)) s
      else if space_id = 1 then
        (if width = 8 then outb (ucast address) (ucast v) s
         else if width = 16 then outw (ucast address) (ucast v) s
         else if width = 32 then outl (ucast address) (ucast v) s
         else s)
      else s)"

primrec wait_input_empty :: "nat \<Rightarrow> dev_env \<Rightarrow> acpi \<Rightarrow> acpi" where
  "wait_input_empty 0 hw s = s"
| "wait_input_empty (Suc n) hw s =
     (case inb hw 0x64 s of (st, s) \<Rightarrow> if st AND 2 = 0 then s else wait_input_empty n hw s)"

definition acpi_reboot :: "dev_env \<Rightarrow> acpi \<Rightarrow> acpi" where
  "acpi_reboot hw s =
     (case acpi_get_fadt s of (t, s) \<Rightarrow>
        let f = read_fadt (a_mem s) t;
            s = (if t \<noteq> 0 \<and> f_flags f AND push_bit 10 1 \<noteq> 0
                 then acpi_write_gas (reset_space f) (reset_width f) (reset_address f) (ucast (reset_value f)) s else s);
            has_ps2 = (if t \<noteq> 0 \<and> f_revision f \<ge> 2 then boot_arch_flags f AND 2 \<noteq> 0 else True);
            s = (if has_ps2 then outb 0x64 0xFE (wait_input_empty 100000 hw s) else s)
        in do_event TripleFault (outb 0xCF9 0x0E (outb 0xCF9 0x06 (outb 0xCF9 0x02 s))))"

section \<open>Initialisation\<close>

definition acpi_init :: "u64 \<Rightarrow> acpi \<Rightarrow> acpi option" where
  "acpi_init rsdp_address s =
     (let m = a_mem s;
          s = s\<lparr>g_rsdp := (if rsdp_address \<noteq> 0 then rsdp_address else find_rsdp m)\<rparr> in
      if g_rsdp s = 0 then Some s
      else
        let s = (if m (g_rsdp s + 15) \<ge> 2 \<and> mem64 m (g_rsdp s + 24) \<noteq> 0
                 then s\<lparr>g_xsdt := mem64 m (g_rsdp s + 24) + a_hhdm s\<rparr> else s);
            s = (if g_xsdt s = 0 \<and> mem32 m (g_rsdp s + 16) \<noteq> 0
                 then s\<lparr>g_rsdt := ucast (mem32 m (g_rsdp s + 16)) + a_hhdm s\<rparr> else s)
        in if g_rsdt s = 0 \<and> g_xsdt s = 0 then Some s
           else acpi_parse_madt (snd (acpi_get_fadt s)))"

end
