(* ===== verification/AcpiProps.thy ===== *)
theory AcpiProps
  imports Acpi
begin

text \<open>
  What the ACPI driver finds: the processors of a well-formed MADT, the table of a signature, and
  the sleep type of a well-formed \<open>_S5_\<close> package.
\<close>

section \<open>Fields in memory\<close>

lemma and_one_odd: "w AND 1 \<noteq> 0 \<longleftrightarrow> odd (unat w)" for w :: "'a::len word"
proof -
  have "odd (unat w) \<longleftrightarrow> bit w 0" by (simp add: bit_unsigned_iff flip: bit_0)
  also have "\<dots> \<longleftrightarrow> w AND 1 \<noteq> 0" by (simp add: and_one_eq bit_0 mod2_eq_if)
  finally show ?thesis by simp
qed

lemma mem32_low_bit: "mem32 m a AND 1 \<noteq> 0 \<longleftrightarrow> m a AND 1 \<noteq> 0"
proof -
  let ?v = "le_value (load_bytes m a 4)"
  have "load_bytes m a 4 = m a # load_bytes m (a + 1) 3"
    by (simp add: load_bytes_def upt_rec numeral_eq_Suc add.commute [of a])
  then have v: "?v = unat (m a) + 256 * le_value (load_bytes m (a + 1) 3)" by simp
  have "unat (mem32 m a) = ?v" using le_value_less [of "load_bytes m a 4"] unfolding mem32_def by (intro unat_of_nat_small) simp
  then show ?thesis unfolding and_one_odd by (simp add: v)
qed

lemma load_bytes_append: "load_bytes m a (i + j) = load_bytes m a i @ load_bytes m (a + of_nat i) j"
  by (rule nth_equalityI) (auto simp: nth_append of_nat_diff add.assoc)

section \<open>Processors\<close>

text \<open>The entries of a MADT as the lists of their bytes.\<close>

definition madt_entry :: "u8 list \<Rightarrow> bool" where
  "madt_entry e \<longleftrightarrow> 2 \<le> length e \<and> length e < 256 \<and> e ! 1 = of_nat (length e) \<and> (e ! 0 = 0 \<longrightarrow> 8 \<le> length e)"

definition enabled_cpu :: "u8 list \<Rightarrow> bool" where
  "enabled_cpu e \<longleftrightarrow> e ! 0 = 0 \<and> e ! 4 AND 1 \<noteq> 0"

text \<open>The array of the identifiers after the processors \<open>es\<close> are entered from index \<open>n\<close> on.\<close>

definition enter_cpus :: "nat \<Rightarrow> u8 list list \<Rightarrow> (nat \<Rightarrow> u32) \<Rightarrow> nat \<Rightarrow> u32" where
  "enter_cpus n es ids k = (if n \<le> k \<and> k < min 64 (n + length es) then ucast (es ! (k - n) ! 3) else ids k)"

lemma enter_cpus_Cons: "enter_cpus (n + 1) es (if n < 64 then ids(n := ucast (e ! 3)) else ids) = enter_cpus n (e # es) ids"
  by (rule ext) (auto simp: enter_cpus_def nth_Cons')

lemma madt_loop_entries:
  assumes "\<forall>e \<in> set es. madt_entry e" "load_bytes m ptr (length (concat es)) = concat es"
    and "unat stop = unat ptr + length (concat es)"
  shows "madt_loop ptr stop m n ids =
    Some (n + length (filter enabled_cpu es), enter_cpus n (filter enabled_cpu es) ids)"
  using assms
proof (induction es arbitrary: ptr n ids)
  case Nil
  then have "stop = ptr" by (simp add: word_unat_eq_iff)
  then show ?case by (auto simp: madt_loop.simps enter_cpus_def fun_eq_iff)
next
  case (Cons e es)
  have e: "2 \<le> length e" "length e < 256" "e ! 1 = of_nat (length e)" "e ! 0 = 0 \<Longrightarrow> 8 \<le> length e"
    using Cons.prems(1) by (auto simp: madt_entry_def)
  have split: "load_bytes m ptr (length e) = e" "load_bytes m (ptr + of_nat (length e)) (length (concat es)) = concat es"
    using Cons.prems(2) by (simp_all add: load_bytes_append)
  have byte: "m (ptr + of_nat k) = e ! k" if "k < length e" for k
    using nth_load_bytes [OF that, of m ptr] split(1) by simp
  have l: "0 < length e" "1 < length e" using e(1) by linarith+
  have b: "m ptr = e ! 0" "m (ptr + 1) = of_nat (length e)" using byte [OF l(1)] byte [OF l(2)] e(3) by simp_all
  have len: "ucast (m (ptr + 1)) = (of_nat (length e) :: u64)"
  proof -
    have "unat (of_nat (length e) :: u8) = length e" using e(2) by (intro unat_of_nat_small) simp
    then show ?thesis unfolding b(2) by (metis of_nat_unat)
  qed
  have "length (concat (e # es)) = length e + length (concat es)" by simp
  then have "unat ptr < unat stop" using Cons.prems(3) e(1) by linarith
  then have lt: "ptr < stop" by (simp add: word_less_nat_alt)
  have "unat (ptr + of_nat (length e)) = unat ptr + length e"
  proof -
    have "unat ptr + length e < 2 ^ 64" using Cons.prems(3) unat_less_power [of stop] by simp
    then have "unat (of_nat (unat ptr + length e) :: u64) = unat ptr + length e" by (intro unat_of_nat_small) simp
    then show ?thesis by simp
  qed
  then have stop: "unat stop = unat (ptr + of_nat (length e)) + length (concat es)" using Cons.prems(3) by simp
  have IH: "madt_loop (ptr + of_nat (length e)) stop m n ids =
      Some (n + length (filter enabled_cpu es), enter_cpus n (filter enabled_cpu es) ids)" for n ids
    using Cons.IH [OF _ split(2) stop] Cons.prems(1) by simp
  have on: "m ptr = 0 \<and> mem32 m (ptr + 4) AND 1 \<noteq> 0 \<longleftrightarrow> enabled_cpu e"
    unfolding mem32_low_bit using byte [of 4] e(4) by (auto simp: enabled_cpu_def b)
  show ?case
  proof (cases "enabled_cpu e")
    case True
    then have "m (ptr + 3) = e ! 3" using byte [of 3] e(4) by (simp add: enabled_cpu_def)
    then have "madt_loop ptr stop m n ids = madt_loop (ptr + of_nat (length e)) stop m (n + 1)
        (if n < 64 then ids(n := ucast (e ! 3)) else ids)"
      using lt on True by (subst madt_loop.simps) (simp only: len if_True simp_thms)
    then show ?thesis unfolding IH enter_cpus_Cons using True by simp
  next
    case False
    then have "madt_loop ptr stop m n ids = madt_loop (ptr + of_nat (length e)) stop m n ids"
      using lt on by (subst madt_loop.simps) (simp only: len if_True if_False simp_thms)
    then show ?thesis unfolding IH using False by simp
  qed
qed

text \<open>An entry of length 0 stops the progress of the loop for good.\<close>

lemma madt_loop_stuck:
  assumes "ptr < stop" "m (ptr + 1) = 0"
  shows "madt_loop ptr stop m n ids = None"
proof -
  have "madt_loop p q k i x = Some r \<Longrightarrow> p < q \<Longrightarrow> k (p + 1) = 0 \<Longrightarrow> False" for p q k i x r
    by (erule madt_loop.raw_induct [rotated, where P = "\<lambda>p q k i x r. p < q \<longrightarrow> k (p + 1) = 0 \<longrightarrow> False", rule_format])
      (auto split: if_splits)
  then show ?thesis using assms by (metis not_None_eq)
qed

section \<open>Sleep types\<close>

text \<open>The encodings of a small integer in AML: \<open>ZeroOp\<close>, \<open>OneOp\<close> and a prefixed byte.\<close>

definition aml_byte :: "u8 \<Rightarrow> u8 list \<Rightarrow> bool" where
  "aml_byte v enc \<longleftrightarrow> (v = 0 \<and> enc = [0x00]) \<or> (v = 1 \<and> enc = [0x01]) \<or> enc = [0x0A, v]"

text \<open>\<open>Name (_S5_, Package (k) {a, b, ...})\<close> with a package length of one byte.\<close>

definition s5_object :: "u8 \<Rightarrow> u8 \<Rightarrow> u8 list \<Rightarrow> bool" where
  "s5_object a b bs \<longleftrightarrow>
     (\<exists>len k ea eb. bs = bytes_of ''_S5_'' @ [0x12, len, k] @ ea @ eb \<and> drop_bit 6 len = 0 \<and> aml_byte a ea \<and> aml_byte b eb)"

lemma custom_memcmp_0: "length s = length t \<Longrightarrow> custom_memcmp s t = 0 \<longleftrightarrow> s = t"
  by (induction s t rule: custom_memcmp.induct) (auto simp: word_uint_eq_iff)

lemma load_prefix:
  assumes "load_bytes m p (length (xs @ ys)) = xs @ ys"
  shows "load_bytes m p (length xs) = xs" "load_bytes m (p + of_nat (length xs)) (length ys) = ys"
  using assms by (simp_all add: load_bytes_append)

lemma load_Cons: "load_bytes m p (length (x # xs)) = x # xs \<Longrightarrow> m p = x \<and> load_bytes m (p + 1) (length xs) = xs"
  using load_bytes_append [of m p 1 "length xs"] by (simp add: load_bytes_def)

lemma s5_element_spec:
  assumes "aml_byte v enc" "load_bytes m d (length enc) = enc"
  shows "s5_element m d = (ucast v, True, d + of_nat (length enc))"
proof -
  consider "v = 0" "m d = 0" "enc = [0]" | "v = 1" "m d = 1" "enc = [1]" | "m d = 0x0A" "m (d + 1) = v" "enc = [0x0A, v]"
    using assms load_Cons [of m d] by (auto simp: aml_byte_def load_bytes_def)
  then show ?thesis by cases (simp_all add: s5_element_def)
qed

lemma s5_package_spec:
  assumes "s5_object a b bs" "load_bytes m p (length bs) = bs"
  shows "s5_package m p = Some (ucast a, ucast b)"
proof -
  obtain len k ea eb where bs: "bs = bytes_of ''_S5_'' @ [0x12, len, k] @ ea @ eb" and len: "drop_bit 6 len = 0"
    and ab: "aml_byte a ea" "aml_byte b eb" using assms(1) by (auto simp: s5_object_def)
  have l4: "length (bytes_of ''_S5_'') = 4" by (simp add: bytes_of_def)
  note l = load_prefix [OF assms(2) [unfolded bs]]
  have sig: "load_bytes m p 4 = bytes_of ''_S5_''" using l(1) unfolding l4 .
  have rest: "load_bytes m (p + 4) (length ([0x12, len, k] @ ea @ eb)) = [0x12, len, k] @ ea @ eb" using l(2) unfolding l4 by simp
  have three: "load_bytes m (p + 4) 3 = [0x12, len, k]" "load_bytes m (p + 4 + 3) (length (ea @ eb)) = ea @ eb"
    using load_prefix [OF rest] by (simp_all add: numeral_3_eq_3)
  have ends: "load_bytes m (p + 4 + 3) (length ea) = ea" "load_bytes m (p + 4 + 3 + of_nat (length ea)) (length eb) = eb"
    using load_prefix [OF three(2)] by simp_all
  have op: "m (p + 4) = 0x12" "m (p + 4 + 1) = len"
    using nth_load_bytes [of 0 3 m "p + 4"] nth_load_bytes [of 1 3 m "p + 4"] unfolding three(1) by simp_all
  have at: "p + 4 + 2 + ucast (0 :: u8) + 1 = p + 4 + 3" by simp
  show ?thesis
    unfolding s5_package_def op len
    using s5_element_spec [OF ab(1) ends(1)] s5_element_spec [OF ab(2) ends(2)] sig
    by (simp add: custom_memcmp_0 op(1) op(2) [simplified add.assoc, simplified] len bytes_of_def Let_def add.assoc)
qed

lemma scan_s5_skip:
  assumes "\<forall>j < k. s5_package m (p + of_nat j) = None" "k < n"
  shows "scan_s5 n p m = scan_s5 (n - k) (p + of_nat k) m"
  using assms
proof (induction k arbitrary: n p)
  case (Suc k)
  then obtain n' where n: "n = Suc n'" by (cases n) auto
  have "\<forall>j < k. s5_package m (p + 1 + of_nat j) = None"
    using Suc.prems(1) by (auto simp: add.assoc dest: spec [of _ "Suc _"])
  then have "scan_s5 n' (p + 1) m = scan_s5 (n' - k) (p + 1 + of_nat k) m" using Suc.prems(2) n by (intro Suc.IH) auto
  then show ?case using Suc.prems(1) n by (auto simp: add.assoc dest: spec [of _ 0])
qed simp

section \<open>Small machines to try\<close>

definition demo_acpi :: "(u64 \<Rightarrow> u8) \<Rightarrow> acpi" where
  "demo_acpi m = \<lparr>reads = 0, events = [], a_mem = m, a_hhdm = 0, g_rsdp = 0, g_rsdt = 0, g_xsdt = 0, g_fadt = 0x2000, g_madt = 0x3000,
     g_acpi_enabled = True, g_local_apic_addr = 0, g_cpu_count = 0, acpi_cpu_count = 0, acpi_cpu_apic_ids = (\<lambda>_. 0)\<rparr>"

text \<open>Two enabled processors with the identifiers 0 and 7.\<close>

definition demo_madt :: "u64 \<Rightarrow> u8" where
  "demo_madt = (\<lambda>_. 0)(0x3004 := 60, 0x302D := 8, 0x3030 := 1, 0x3035 := 8, 0x3036 := 1, 0x3037 := 7, 0x3038 := 1)"

text \<open>A FADT with the control block \<open>0x604\<close> and a DSDT at \<open>0x1000\<close> that begins with \<open>_S5_\<close>.\<close>

definition demo_dsdt :: "u64 \<Rightarrow> u8" where
  "demo_dsdt = (\<lambda>_. 0)(0x1000 := 0x44, 0x1001 := 0x53, 0x1002 := 0x44, 0x1003 := 0x54, 0x1004 := 47,
     0x1024 := 0x5F, 0x1025 := 0x53, 0x1026 := 0x35, 0x1027 := 0x5F, 0x1028 := 0x12, 0x1029 := 0x07, 0x102A := 0x02,
     0x102B := 0x0A, 0x102C := 5, 0x102D := 0x0A, 0x102E := 5, 0x2029 := 0x10, 0x2040 := 0x04, 0x2041 := 0x06)"

section \<open>Properties\<close>

text \<open>C33. For a MADT whose entries are well-formed the processor search ends, counts exactly the
  enabled processors, and records the identifiers of the first 64 of them in the order of
  the table.\<close>

theorem madt_lists_enabled_cpus:
  assumes "acpi_get_madt s = (madt, s')" "madt \<noteq> 0" "\<forall>e \<in> set es. madt_entry e"
    and "load_bytes (a_mem s) (madt + 44) (length (concat es)) = concat es"
    and "unat (sdt_length (a_mem s) madt) = 44 + length (concat es)" "unat madt + 44 + length (concat es) < 2 ^ 64"
    and "cpus = filter enabled_cpu es"
  shows "\<exists>t. acpi_parse_madt s = Some t \<and> acpi_get_cpu_count t = length cpus \<and> acpi_cpu_count t = length cpus \<and>
    (\<forall>k. acpi_cpu_apic_ids t k = (if k < min 64 (length cpus) then ucast (cpus ! k ! 3) else acpi_cpu_apic_ids s k))"
proof -
  have s': "a_mem s' = a_mem s" "acpi_cpu_apic_ids s' = acpi_cpu_apic_ids s"
    using assms(1) by (auto simp: acpi_get_madt_def Let_def split: if_splits)
  let ?len = "length (concat es)" and ?stop = "madt + ucast (sdt_length (a_mem s) madt)"
  have small: "unat (of_nat (unat madt + 44) :: u64) = unat madt + 44"
    "unat (of_nat (unat madt + 44 + ?len) :: u64) = unat madt + 44 + ?len"
    using assms(6) by (intro unat_of_nat_small, simp)+
  have "(ucast (sdt_length (a_mem s) madt) :: u64) = of_nat (44 + ?len)" by (metis assms(5) of_nat_unat)
  then have "?stop = of_nat (unat madt + 44 + ?len)" by (simp add: add.assoc)
  moreover have "madt + 44 = of_nat (unat madt + 44)" by simp
  ultimately have "unat ?stop = unat (madt + 44) + ?len" using small by (simp only:)
  from madt_loop_entries [OF assms(3,4) this, of 0 "acpi_cpu_apic_ids s"]
  have "madt_loop (madt + 44) ?stop (a_mem s) 0 (acpi_cpu_apic_ids s) =
      Some (length cpus, enter_cpus 0 cpus (acpi_cpu_apic_ids s))" by (simp add: assms(7))
  then show ?thesis
    using assms(1,2) s' by (simp add: acpi_parse_madt_def Let_def enter_cpus_def acpi_get_cpu_count_def)
qed

theorem madt_lists_enabled_cpus_witness:
  "\<exists>t. acpi_parse_madt (demo_acpi demo_madt) = Some t \<and> acpi_cpu_count t = 2 \<and> acpi_cpu_apic_ids t 1 = 7"
proof -
  let ?es = "[[0, 8, 0, 0, 1, 0, 0, 0], [0, 8, 1, 7, 1, 0, 0, 0]] :: u8 list list"
  have sel: "a_mem (demo_acpi demo_madt) = demo_madt" by (simp add: demo_acpi_def)
  have 1: "acpi_get_madt (demo_acpi demo_madt) = (0x3000, demo_acpi demo_madt)" by (simp add: acpi_get_madt_def demo_acpi_def)
  have 2: "\<forall>e \<in> set ?es. madt_entry e" by (simp add: madt_entry_def)
  have 3: "load_bytes demo_madt (0x3000 + 44) (length (concat ?es)) = concat ?es"
    by (simp add: load_bytes_def demo_madt_def upt_rec)
  have 4: "unat (sdt_length demo_madt 0x3000) = 44 + length (concat ?es)"
    by (simp add: sdt_length_def mem32_def load_bytes_def demo_madt_def upt_rec)
  have 5: "filter enabled_cpu ?es = ?es" by (simp add: enabled_cpu_def)
  have "\<exists>t. acpi_parse_madt (demo_acpi demo_madt) = Some t \<and> acpi_get_cpu_count t = length ?es \<and> acpi_cpu_count t = length ?es \<and>
      (\<forall>k. acpi_cpu_apic_ids t k = (if k < min 64 (length ?es) then ucast (?es ! k ! 3) else acpi_cpu_apic_ids (demo_acpi demo_madt) k))"
    by (rule madt_lists_enabled_cpus [OF 1 _ 2]) (use 3 4 5 in \<open>simp_all only: sel, simp_all\<close>)
  then show ?thesis by auto
qed

text \<open>With ACPI enabled, a control block and a DSDT whose first \<open>_S5_\<close> package is well-formed,
  shutting down writes the sleep types of the package, with the enable bit, to the control
  registers that exist and does nothing else after the two ports of the emulators.\<close>

theorem shutdown_writes_sleep_types:
  assumes "g_fadt s = t" "t \<noteq> 0" "g_acpi_enabled s" "f = read_fadt (a_mem s) t" "pm1a_control_block f \<noteq> 0"
    and "f_dsdt f \<noteq> 0" "d = ucast (f_dsdt f)" "load_bytes (a_mem s) d 4 = bytes_of ''DSDT''"
    and "36 + k < unat (sdt_length (a_mem s) d)" "\<forall>j < k. s5_package (a_mem s) (d + 36 + of_nat j) = None"
    and "s5_object a b bs" "load_bytes (a_mem s) (d + 36 + of_nat k) (length bs) = bs"
  shows "events (acpi_shutdown hw s) =
    (if pm1b_control_block f \<noteq> 0 then [OutW (ucast (pm1b_control_block f)) (push_bit 10 (ucast b) OR SLP_EN)] else []) @
    OutW (ucast (pm1a_control_block f)) (push_bit 10 (ucast a) OR SLP_EN) #
    OutW 0xB004 0x2000 # OutW 0x604 0x2000 # events s"
proof -
  let ?m = "a_mem s" and ?n = "unat (sdt_length (a_mem s) d) - 36"
  have k: "k < ?n" using assms(9) by simp
  then obtain n where n: "?n - k = Suc n" by (cases "?n - k") auto
  have "scan_s5 ?n (d + 36) ?m = scan_s5 (Suc n) (d + 36 + of_nat k) ?m"
    using scan_s5_skip [OF assms(10) k] n by simp
  also have "\<dots> = Some (ucast a, ucast b)" using s5_package_spec [OF assms(11,12)] by simp
  finally have s5: "find_s5 ?m (f_dsdt f) = Some (ucast a, ucast b)"
    using assms(6,8) by (simp add: find_s5_def assms(7) [symmetric] custom_memcmp_0 bytes_of_def)
  have get: "acpi_get_fadt s = (t, s)" using assms(1,2) by (simp add: acpi_get_fadt_def)
  have mem: "a_mem (outw p v x) = a_mem x" for p v and x :: acpi by (simp add: event_defs)
  show ?thesis
    unfolding acpi_shutdown_def get using assms(2,3,5) s5
    by (simp add: mem assms(4) [symmetric]) (simp add: event_defs)
qed

theorem shutdown_writes_sleep_types_witness:
  "\<forall>hw. hd (events (acpi_shutdown hw (demo_acpi demo_dsdt))) = OutW 0x604 0x3400"
proof
  fix hw
  let ?s = "demo_acpi demo_dsdt" and ?bs = "[0x5F, 0x53, 0x35, 0x5F, 0x12, 0x07, 0x02, 0x0A, 5, 0x0A, 5] :: u8 list"
  have sel: "a_mem ?s = demo_dsdt" "g_fadt ?s = 0x2000" "g_acpi_enabled ?s" by (simp_all add: demo_acpi_def)
  have f: "f_dsdt (read_fadt demo_dsdt 0x2000) = 0x1000" "pm1a_control_block (read_fadt demo_dsdt 0x2000) = 0x604"
    "pm1b_control_block (read_fadt demo_dsdt 0x2000) = 0"
    by (simp_all add: read_fadt_def mem32_def load_bytes_def demo_dsdt_def upt_rec)
  have d: "load_bytes demo_dsdt 0x1000 4 = bytes_of ''DSDT''" "unat (sdt_length demo_dsdt 0x1000) = 47"
    "load_bytes demo_dsdt (0x1000 + 36 + of_nat 0) (length ?bs) = ?bs"
    by (simp_all add: load_bytes_def demo_dsdt_def upt_rec bytes_of_def sdt_length_def mem32_def)
  have o: "s5_object 5 5 ?bs"
    unfolding s5_object_def aml_byte_def
    by (rule exI [of _ "0x07"], rule exI [of _ "0x02"], rule exI [of _ "[0x0A, 5]"], rule exI [of _ "[0x0A, 5]"]) (simp add: bytes_of_def)
  show "hd (events (acpi_shutdown hw ?s)) = OutW 0x604 0x3400"
    using shutdown_writes_sleep_types [where s = ?s and t = "0x2000" and k = 0 and a = 5 and b = 5 and bs = ?bs and hw = hw
        and f = "read_fadt demo_dsdt 0x2000" and d = "0x1000"] o d
    by (simp add: sel f SLP_EN_def)
qed

end
