(* ===== verification/Pci.thy ===== *)
theory Pci
  imports Hardware "HOL-Library.Product_Lexorder"
begin

text \<open>
  The PCI bus: configuration space, the scan of bus 0 and the device table of \<open>drivers/vray.c\<close>,
  and the search in the device names of \<open>drivers/pci_db.c\<close>.  The generated table of names is an
  argument.  The array of devices is the list of its first \<open>dev_count\<close> entries.
\<close>

section \<open>Device names\<close>

record pci_device_entry =
  pe_vendor :: u16
  pe_device :: u16
  pe_name :: string

text \<open>The binary search; \<open>right\<close> is \<open>- 1\<close> for an empty table.\<close>

function search_names :: "pci_device_entry list \<Rightarrow> u16 \<Rightarrow> u16 \<Rightarrow> int \<Rightarrow> int \<Rightarrow> string" where
  "search_names db vendor_id device_id left right =
     (if left \<le> right then
        let mid = left + (right - left) div 2; e = db ! nat mid in
        if pe_vendor e = vendor_id then
          if pe_device e = device_id then pe_name e
          else if pe_device e < device_id then search_names db vendor_id device_id (mid + 1) right
          else search_names db vendor_id device_id left (mid - 1)
        else if pe_vendor e < vendor_id then search_names db vendor_id device_id (mid + 1) right
        else search_names db vendor_id device_id left (mid - 1)
      else ''Unknown Device'')"
  by pat_completeness auto
termination
  by (relation "measure (\<lambda>(_, _, _, left, right). nat (right - left + 1))") (auto simp: Let_def)

declare search_names.simps [simp del]

definition get_pci_device_name :: "pci_device_entry list \<Rightarrow> u16 \<Rightarrow> u16 \<Rightarrow> string" where
  "get_pci_device_name db vendor_id device_id = search_names db vendor_id device_id 0 (int (length db) - 1)"

section \<open>Configuration space\<close>

definition VRAY_CONF_ADDR :: u16 where "VRAY_CONF_ADDR = 0xCF8"
definition VRAY_CONF_DATA :: u16 where "VRAY_CONF_DATA = 0xCFC"

definition vray_build_addr :: "u8 \<Rightarrow> u8 \<Rightarrow> u8 \<Rightarrow> u8 \<Rightarrow> u32" where
  "vray_build_addr bus dev func offset =
     push_bit 31 1 OR push_bit 16 (ucast bus) OR push_bit 11 (ucast dev) OR push_bit 8 (ucast func) OR (ucast offset AND 0xFC)"

definition vray_cfg_read :: "dev_env \<Rightarrow> u8 \<Rightarrow> u8 \<Rightarrow> u8 \<Rightarrow> u8 \<Rightarrow> 'a machine_scheme \<Rightarrow> u32 \<times> 'a machine_scheme" where
  "vray_cfg_read hw bus dev func offset s =
     (let s = outl VRAY_CONF_ADDR (vray_build_addr bus dev func offset) s;
          s = snd (inl hw VRAY_CONF_ADDR s)
      in inl hw VRAY_CONF_DATA s)"

definition vray_cfg_write :: "dev_env \<Rightarrow> u8 \<Rightarrow> u8 \<Rightarrow> u8 \<Rightarrow> u8 \<Rightarrow> u32 \<Rightarrow> 'a machine_scheme \<Rightarrow> 'a machine_scheme" where
  "vray_cfg_write hw bus dev func offset v s =
     (let s = outl VRAY_CONF_ADDR (vray_build_addr bus dev func offset) s;
          s = snd (inl hw VRAY_CONF_ADDR s)
      in outl VRAY_CONF_DATA v s)"

section \<open>The scan\<close>

record vray_device =
  v_bus :: u8
  v_device :: u8
  v_function :: u8
  v_vendor :: u16
  v_device_id :: u16
  v_class :: u8
  v_subclass :: u8
  v_prog_if :: u8
  v_header_type :: u8
  v_irq :: u8
  v_name :: string

record vray = machine +
  devices :: "vray_device list"

definition MAX_DEVICES :: nat where "MAX_DEVICES = 256"

definition add_device :: "vray_device \<Rightarrow> vray \<Rightarrow> vray" where
  "add_device x s = (if length (devices s) < MAX_DEVICES then s\<lparr>devices := devices s @ [x]\<rparr> else s)"

text \<open>The functions of a device from \<open>fn\<close> on, with \<open>n\<close> left.\<close>

primrec scan_functions :: "nat \<Rightarrow> pci_device_entry list \<Rightarrow> dev_env \<Rightarrow> u8 \<Rightarrow> u8 \<Rightarrow> vray \<Rightarrow> vray" where
  "scan_functions 0 db hw dev fn s = s"
| "scan_functions (Suc n) db hw dev fn s =
     (let (v, s) = vray_cfg_read hw 0 dev fn 0 s;
          vendor = ucast (v AND 0xFFFF) :: u16;
          device_id = ucast (drop_bit 16 v AND 0xFFFF) :: u16 in
      if vendor = 0xFFFF \<or> vendor = 0 then
        if fn = 0 then s else scan_functions n db hw dev (fn + 1) s
      else
        let (cls, s) = vray_cfg_read hw 0 dev fn 8 s;
            (hdr, s) = vray_cfg_read hw 0 dev fn 0x0C s;
            (irq, s) = vray_cfg_read hw 0 dev fn 0x3C s;
            header_type = ucast (drop_bit 16 hdr AND 0xFF) :: u8;
            s = add_device \<lparr>v_bus = 0, v_device = dev, v_function = fn, v_vendor = vendor, v_device_id = device_id,
                  v_class = ucast (drop_bit 24 cls AND 0xFF), v_subclass = ucast (drop_bit 16 cls AND 0xFF),
                  v_prog_if = ucast (drop_bit 8 cls AND 0xFF), v_header_type = header_type, v_irq = ucast (irq AND 0xFF),
                  v_name = get_pci_device_name db vendor device_id\<rparr> s
        in if fn = 0 \<and> header_type AND 0x80 = 0 then s else scan_functions n db hw dev (fn + 1) s)"

primrec scan_devices :: "nat \<Rightarrow> pci_device_entry list \<Rightarrow> dev_env \<Rightarrow> u8 \<Rightarrow> vray \<Rightarrow> vray" where
  "scan_devices 0 db hw dev s = s"
| "scan_devices (Suc n) db hw dev s = scan_devices n db hw (dev + 1) (scan_functions 8 db hw dev 0 s)"

definition vray_init :: "pci_device_entry list \<Rightarrow> dev_env \<Rightarrow> vray \<Rightarrow> vray" where
  "vray_init db hw s = scan_devices 32 db hw 0 (s\<lparr>devices := []\<rparr>)"

section \<open>Lookups\<close>

primrec first_index :: "(vray_device \<Rightarrow> bool) \<Rightarrow> nat \<Rightarrow> vray_device list \<Rightarrow> int" where
  "first_index P i [] = - 1"
| "first_index P i (x # xs) = (if P x then int i else first_index P (Suc i) xs)"

definition vray_find_first_by_vendor :: "u16 \<Rightarrow> u16 \<Rightarrow> vray_device list \<Rightarrow> int" where
  "vray_find_first_by_vendor vendor_id device_id ds =
     first_index (\<lambda>x. v_vendor x = vendor_id \<and> v_device_id x = device_id) 0 ds"

definition vray_find_first_by_class :: "u8 \<Rightarrow> u8 \<Rightarrow> vray_device list \<Rightarrow> int" where
  "vray_find_first_by_class cls subcls ds = first_index (\<lambda>x. v_class x = cls \<and> v_subclass x = subcls) 0 ds"

definition vray_find_first_by_class_prog_if :: "u8 \<Rightarrow> u8 \<Rightarrow> u8 \<Rightarrow> vray_device list \<Rightarrow> int" where
  "vray_find_first_by_class_prog_if cls subcls prog_if ds =
     first_index (\<lambda>x. v_class x = cls \<and> v_subclass x = subcls \<and> v_prog_if x = prog_if) 0 ds"

definition vray_device_count :: "vray_device list \<Rightarrow> nat" where "vray_device_count ds = length ds"

section \<open>The search finds the entry\<close>

definition entry_key :: "pci_device_entry \<Rightarrow> u16 \<times> u16" where "entry_key e = (pe_vendor e, pe_device e)"

definition names_sorted :: "pci_device_entry list \<Rightarrow> bool" where
  "names_sorted db \<longleftrightarrow> sorted_wrt (<) (map entry_key db)"

definition linear_name :: "pci_device_entry list \<Rightarrow> u16 \<Rightarrow> u16 \<Rightarrow> string" where
  "linear_name db v d = (case List.find (\<lambda>e. entry_key e = (v, d)) db of Some e \<Rightarrow> pe_name e | None \<Rightarrow> ''Unknown Device'')"

lemma names_sorted_nth:
  assumes "names_sorted db" "i < j" "j < length db"
  shows "entry_key (db ! i) < entry_key (db ! j)"
  using assms sorted_wrt_nth_less [of "(<)" "map entry_key db" i j] by (simp add: names_sorted_def)

lemma linear_name_at:
  assumes "names_sorted db" "i < length db" "entry_key (db ! i) = (v, d)"
  shows "linear_name db v d = pe_name (db ! i)"
proof -
  have "entry_key (db ! j) \<noteq> (v, d)" if "j < i" for j
    using names_sorted_nth [OF assms(1) that assms(2)] assms(3) by auto
  then have "List.find (\<lambda>e. entry_key e = (v, d)) db = Some (db ! i)"
    using assms(2,3) by (auto simp: find_Some_iff)
  then show ?thesis by (simp add: linear_name_def)
qed

lemma search_names_spec:
  assumes "names_sorted db" "0 \<le> left" "right < int (length db)"
    and "\<forall>i < length db. entry_key (db ! i) = (v, d) \<longrightarrow> left \<le> int i \<and> int i \<le> right"
  shows "search_names db v d left right = linear_name db v d"
  using assms
proof (induction "nat (right - left + 1)" arbitrary: left right rule: less_induct)
  case (less left right)
  show ?case
  proof (cases "left \<le> right")
    case False
    then have "List.find (\<lambda>e. entry_key e = (v, d)) db = None"
      using less.prems(4) by (fastforce simp: find_None_iff in_set_conv_nth)
    then show ?thesis using False by (simp add: search_names.simps linear_name_def)
  next
    case True
    define mid where "mid = left + (right - left) div 2"
    let ?e = "db ! nat mid"
    have mid: "left \<le> mid" "mid \<le> right" "nat mid < length db" using True less.prems(2,3) by (auto simp: mid_def)
    have lower: "mid + 1 \<le> int i" if "i < length db" "entry_key (db ! i) = (v, d)" "entry_key ?e < (v, d)" for i
    proof (rule ccontr)
      assume "\<not> mid + 1 \<le> int i"
      then have "i = nat mid \<or> i < nat mid" by linarith
      then show False using names_sorted_nth [OF less.prems(1) _ mid(3), of i] that by auto
    qed
    have upper: "int i \<le> mid - 1" if "i < length db" "entry_key (db ! i) = (v, d)" "(v, d) < entry_key ?e" for i
    proof (rule ccontr)
      assume "\<not> int i \<le> mid - 1"
      then have "i = nat mid \<or> nat mid < i" by linarith
      then show False using names_sorted_nth [OF less.prems(1) _ that(1), of "nat mid"] that by auto
    qed
    have smaller: "nat (right - (mid + 1) + 1) < nat (right - left + 1)" "nat (mid - 1 - left + 1) < nat (right - left + 1)"
      using mid(1,2) by linarith+
    consider "entry_key ?e = (v, d)" | "entry_key ?e < (v, d)" | "(v, d) < entry_key ?e" by (rule linorder_cases)
    then show ?thesis
    proof cases
      case 1
      then show ?thesis using True linear_name_at [OF less.prems(1) mid(3)]
        by (subst search_names.simps) (simp add: mid_def [symmetric] entry_key_def Let_def)
    next
      case 2
      have "\<forall>i < length db. entry_key (db ! i) = (v, d) \<longrightarrow> mid + 1 \<le> int i \<and> int i \<le> right"
        using less.prems(4) lower [OF _ _ 2] by blast
      moreover have "0 \<le> mid + 1" using less.prems(2) mid(1) by linarith
      ultimately have rec: "search_names db v d (mid + 1) right = linear_name db v d"
        using less.hyps [OF smaller(1) less.prems(1) _ less.prems(3)] by blast
      have "pe_vendor ?e = v \<and> pe_device ?e \<noteq> d \<and> pe_device ?e < d \<or> pe_vendor ?e \<noteq> v \<and> pe_vendor ?e < v"
        using 2 by (auto simp: entry_key_def less_prod_def')
      then show ?thesis using True rec
        by (subst search_names.simps) (elim disjE; simp add: mid_def [symmetric] Let_def)
    next
      case 3
      have "\<forall>i < length db. entry_key (db ! i) = (v, d) \<longrightarrow> left \<le> int i \<and> int i \<le> mid - 1"
        using less.prems(4) upper [OF _ _ 3] by blast
      moreover have "mid - 1 < int (length db)" using mid(3) less.prems(2) mid(1) by linarith
      ultimately have rec: "search_names db v d left (mid - 1) = linear_name db v d"
        using less.hyps [OF smaller(2) less.prems(1,2)] by blast
      have "pe_vendor ?e = v \<and> pe_device ?e \<noteq> d \<and> \<not> pe_device ?e < d \<or> pe_vendor ?e \<noteq> v \<and> \<not> pe_vendor ?e < v"
        using 3 by (auto simp: entry_key_def less_prod_def')
      then show ?thesis using True rec
        by (subst search_names.simps) (elim disjE; simp add: mid_def [symmetric] Let_def)
    qed
  qed
qed

section \<open>The scan finds the devices\<close>

text \<open>The answers of a bus with configuration space \<open>cfg\<close>: the data port shows the word that the
  address port has been set to.\<close>

definition pci_bus :: "(u32 \<Rightarrow> u32) \<Rightarrow> dev_env \<Rightarrow> bool" where
  "pci_bus cfg hw \<longleftrightarrow> (\<forall>k a log. hw k (OutL VRAY_CONF_ADDR a # log) (Port VRAY_CONF_DATA) = cfg a)"

definition vendor_of :: "(u32 \<Rightarrow> u32) \<Rightarrow> u8 \<Rightarrow> u8 \<Rightarrow> u16" where
  "vendor_of cfg dev fn = ucast (cfg (vray_build_addr 0 dev fn 0) AND 0xFFFF)"

definition present_fn :: "(u32 \<Rightarrow> u32) \<Rightarrow> u8 \<Rightarrow> u8 \<Rightarrow> bool" where
  "present_fn cfg dev fn \<longleftrightarrow> vendor_of cfg dev fn \<noteq> 0xFFFF \<and> vendor_of cfg dev fn \<noteq> 0"

definition header_of :: "(u32 \<Rightarrow> u32) \<Rightarrow> u8 \<Rightarrow> u8 \<Rightarrow> u8" where
  "header_of cfg dev fn = ucast (drop_bit 16 (cfg (vray_build_addr 0 dev fn 0x0C)) AND 0xFF)"

text \<open>The functions of a device: one, unless its header says that it has several.\<close>

definition functions_of :: "(u32 \<Rightarrow> u32) \<Rightarrow> u8 \<Rightarrow> u8 list" where
  "functions_of cfg dev =
     (if \<not> present_fn cfg dev 0 then []
      else if header_of cfg dev 0 AND 0x80 = 0 then [0]
      else filter (present_fn cfg dev) (map of_nat [0..<8]))"

definition device_at :: "pci_device_entry list \<Rightarrow> (u32 \<Rightarrow> u32) \<Rightarrow> u8 \<Rightarrow> u8 \<Rightarrow> vray_device" where
  "device_at db cfg dev fn =
     (let cls = cfg (vray_build_addr 0 dev fn 8);
          device_id = ucast (drop_bit 16 (cfg (vray_build_addr 0 dev fn 0)) AND 0xFFFF) in
      \<lparr>v_bus = 0, v_device = dev, v_function = fn, v_vendor = vendor_of cfg dev fn, v_device_id = device_id,
       v_class = ucast (drop_bit 24 cls AND 0xFF), v_subclass = ucast (drop_bit 16 cls AND 0xFF),
       v_prog_if = ucast (drop_bit 8 cls AND 0xFF), v_header_type = header_of cfg dev fn,
       v_irq = ucast (cfg (vray_build_addr 0 dev fn 0x3C) AND 0xFF), v_name = get_pci_device_name db (vendor_of cfg dev fn) device_id\<rparr>)"

lemma cfg_read:
  assumes "pci_bus cfg hw"
  obtains t where "vray_cfg_read hw b d f x s = (cfg (vray_build_addr b d f x), t)" "devices t = devices s"
  using assms that by (simp add: vray_cfg_read_def inl_def event_defs pci_bus_def Let_def)

lemma add_device_take: "length (devices s) \<le> 256 \<Longrightarrow> devices (add_device x s) = take 256 (devices s @ [x])"
  by (auto simp: add_device_def MAX_DEVICES_def)

lemma take_take_append: "take n (take n xs @ ys) = take n (xs @ ys)"
  by (simp add: min_def)

lemma scan_function_step:
  assumes "pci_bus cfg hw" "length (devices s) \<le> 256"
  shows "\<exists>t. devices t = (if present_fn cfg dev fn then take 256 (devices s @ [device_at db cfg dev fn]) else devices s) \<and>
    scan_functions (Suc n) db hw dev fn s =
      (if fn = 0 \<and> (\<not> present_fn cfg dev 0 \<or> header_of cfg dev 0 AND 0x80 = 0) then t else scan_functions n db hw dev (fn + 1) t)"
proof -
  obtain s1 where 1: "vray_cfg_read hw 0 dev fn 0 s = (cfg (vray_build_addr 0 dev fn 0), s1)" "devices s1 = devices s"
    by (rule cfg_read [OF assms(1)])
  obtain s2 where 2: "vray_cfg_read hw 0 dev fn 8 s1 = (cfg (vray_build_addr 0 dev fn 8), s2)" "devices s2 = devices s1"
    by (rule cfg_read [OF assms(1)])
  obtain s3 where 3: "vray_cfg_read hw 0 dev fn 0x0C s2 = (cfg (vray_build_addr 0 dev fn 0x0C), s3)" "devices s3 = devices s2"
    by (rule cfg_read [OF assms(1)])
  obtain s4 where 4: "vray_cfg_read hw 0 dev fn 0x3C s3 = (cfg (vray_build_addr 0 dev fn 0x3C), s4)" "devices s4 = devices s3"
    by (rule cfg_read [OF assms(1)])
  let ?t = "if present_fn cfg dev fn then add_device (device_at db cfg dev fn) s4 else s1"
  have "devices ?t = (if present_fn cfg dev fn then take 256 (devices s @ [device_at db cfg dev fn]) else devices s)"
    using assms(2) 1(2) 2(2) 3(2) 4(2) by (simp add: add_device_take)
  moreover have "scan_functions (Suc n) db hw dev fn s =
      (if fn = 0 \<and> (\<not> present_fn cfg dev 0 \<or> header_of cfg dev 0 AND 0x80 = 0) then ?t else scan_functions n db hw dev (fn + 1) ?t)"
    using 1(1) 2(1) 3(1) 4(1)
    by (cases "fn = 0") (simp_all add: present_fn_def vendor_of_def [symmetric] header_of_def [symmetric] device_at_def Let_def)
  ultimately show ?thesis by blast
qed

lemma scan_later_functions:
  assumes "pci_bus cfg hw" "length (devices s) \<le> 256" "i + n \<le> 8" "0 < i"
  shows "devices (scan_functions n db hw dev (of_nat i) s) =
    take 256 (devices s @ map (device_at db cfg dev) (filter (present_fn cfg dev) (map of_nat [i..<i + n])))"
  using assms(2-)
proof (induction n arbitrary: i s)
  case 0
  then show ?case by simp
next
  case (Suc n)
  have nz: "(of_nat i :: u8) \<noteq> 0"
  proof -
    have "unat (of_nat i :: u8) = i" using Suc.prems by (intro unat_of_nat_small) simp
    then show ?thesis using Suc.prems(3) by auto
  qed
  obtain t where t: "devices t = (if present_fn cfg dev (of_nat i) then take 256 (devices s @ [device_at db cfg dev (of_nat i)]) else devices s)"
    "scan_functions (Suc n) db hw dev (of_nat i) s = scan_functions n db hw dev (of_nat i + 1) t"
    using scan_function_step [OF assms(1) Suc.prems(1), of dev "of_nat i" db n] nz by auto
  have "length (devices t) \<le> 256" using t(1) Suc.prems(1) by (auto simp: min_def)
  from Suc.IH [OF this, of "Suc i"] Suc.prems
  have "devices (scan_functions n db hw dev (of_nat (Suc i)) t) =
      take 256 (devices t @ map (device_at db cfg dev) (filter (present_fn cfg dev) (map of_nat [Suc i..<Suc i + n])))" by simp
  moreover have "[i..<i + Suc n] = i # [Suc i..<Suc i + n]" by (simp add: upt_conv_Cons)
  ultimately show ?case unfolding t(2) using t(1) Suc.prems(1) by (simp add: add.commute [of 1] take_take_append del: upt_Suc take_append)
qed

lemma scan_functions_spec:
  assumes "pci_bus cfg hw" "length (devices s) \<le> 256"
  shows "devices (scan_functions 8 db hw dev 0 s) = take 256 (devices s @ map (device_at db cfg dev) (functions_of cfg dev))"
proof -
  obtain t where t: "devices t = (if present_fn cfg dev 0 then take 256 (devices s @ [device_at db cfg dev 0]) else devices s)"
    "scan_functions (Suc 7) db hw dev 0 s =
      (if \<not> present_fn cfg dev 0 \<or> header_of cfg dev 0 AND 0x80 = 0 then t else scan_functions 7 db hw dev 1 t)"
    using scan_function_step [OF assms, of dev 0 db 7] by auto
  have "length (devices t) \<le> 256" using t(1) assms(2) by (auto simp: min_def)
  from scan_later_functions [OF assms(1) this, of 1 7]
  have l: "devices (scan_functions 7 db hw dev 1 t) =
      take 256 (devices t @ map (device_at db cfg dev) (filter (present_fn cfg dev) (map of_nat [1..<8])))" by simp
  have u: "map of_nat [0..<8] = (0 :: u8) # map of_nat [1..<8]" by (simp add: upt_rec)
  have "(8 :: nat) = Suc 7" by simp
  then have e: "scan_functions 8 db hw dev 0 s = scan_functions (Suc 7) db hw dev 0 s" by (simp only:)
  show ?thesis unfolding e t(2) using t(1) l assms(2)
    by (simp add: functions_of_def u take_take_append del: take_append upt_Suc)
qed

lemma scan_devices_spec:
  assumes "pci_bus cfg hw" "length (devices s) \<le> 256"
  shows "devices (scan_devices n db hw (of_nat i) s) =
    take 256 (devices s @ concat (map (\<lambda>d. map (device_at db cfg (of_nat d)) (functions_of cfg (of_nat d))) [i..<i + n]))"
  using assms(2)
proof (induction n arbitrary: i s)
  case (Suc n)
  let ?t = "scan_functions 8 db hw (of_nat i) 0 s"
  note t = scan_functions_spec [OF assms(1) Suc.prems, of db "of_nat i"]
  have "length (devices ?t) \<le> 256" unfolding t by simp
  note r = Suc.IH [OF this, of "Suc i"]
  have "scan_devices (Suc n) db hw (of_nat i) s = scan_devices n db hw (of_nat (Suc i)) ?t" by (simp add: add.commute)
  moreover have "[i..<i + Suc n] = i # [Suc i..<Suc i + n]" by (simp add: upt_conv_Cons)
  ultimately show ?case by (simp only: r t take_take_append list.map concat.simps append_assoc)
qed simp

section \<open>Properties\<close>

text \<open>C38. The binary search agrees with a linear search of the table of device names: on a table
  strictly sorted by vendor and device it returns the name of the entry of the device, and
  \<open>Unknown Device\<close> when there is none.\<close>

theorem pci_name_search_correct:
  assumes "names_sorted db"
  shows "get_pci_device_name db v d =
    (case List.find (\<lambda>e. pe_vendor e = v \<and> pe_device e = d) db of Some e \<Rightarrow> pe_name e | None \<Rightarrow> ''Unknown Device'')"
proof -
  have "search_names db v d 0 (int (length db) - 1) = linear_name db v d"
    by (rule search_names_spec [OF assms]) auto
  then show ?thesis by (simp add: get_pci_device_name_def linear_name_def entry_key_def)
qed

definition demo_names :: "pci_device_entry list" where
  "demo_names = [\<lparr>pe_vendor = 0x1022, pe_device = 0x2000, pe_name = ''PCnet''\<rparr>, \<lparr>pe_vendor = 0x8086, pe_device = 0x100E, pe_name = ''82540EM''\<rparr>,
     \<lparr>pe_vendor = 0x8086, pe_device = 0x2922, pe_name = ''ICH9 AHCI''\<rparr>]"

theorem pci_name_search_correct_witness:
  "get_pci_device_name demo_names 0x8086 0x2922 = ''ICH9 AHCI'' \<and> get_pci_device_name demo_names 0x8086 1 = ''Unknown Device''"
proof -
  have "names_sorted demo_names" by (simp add: names_sorted_def demo_names_def entry_key_def)
  from pci_name_search_correct [OF this] show ?thesis by (simp add: demo_names_def)
qed

text \<open>A bus with a single-function SATA controller as device 31.\<close>

definition demo_cfg :: "u32 \<Rightarrow> u32" where
  "demo_cfg = (\<lambda>_. 0xFFFFFFFF)(0x8000F800 := 0x29228086, 0x8000F808 := 0x01060100, 0x8000F80C := 0, 0x8000F83C := 0x10B)"

definition demo_bus :: dev_env where
  "demo_bus k log p = (case log of OutL q a # _ \<Rightarrow> demo_cfg a | _ \<Rightarrow> 0)"

text \<open>C37. On a bus with configuration space \<open>cfg\<close> the scan lists the functions present on bus 0, at
  most 256, in the order of device and function numbers, with the fields of their headers: of a
  device without function 0 none, of a single-function device only function 0.\<close>

theorem vray_init_lists_functions:
  assumes "pci_bus cfg hw"
  shows "devices (vray_init db hw s) =
    take 256 (concat (map (\<lambda>d. map (device_at db cfg (of_nat d)) (functions_of cfg (of_nat d))) [0..<32]))"
  using scan_devices_spec [OF assms, of "s\<lparr>devices := []\<rparr>" 32 db 0] by (simp add: vray_init_def)

theorem vray_init_lists_functions_witness:
  "\<forall>s. map (\<lambda>x. (v_device x, v_class x, v_name x)) (devices (vray_init demo_names demo_bus s)) = [(31, 1, ''ICH9 AHCI'')]"
proof
  fix s
  have "pci_bus demo_cfg demo_bus" by (simp add: pci_bus_def demo_bus_def)
  note r = vray_init_lists_functions [OF this, of demo_names s]
  have "present_fn demo_cfg (of_nat d) 0 \<longleftrightarrow> d = 31" if "d < 32" for d
  proof -
    have "list_all (\<lambda>d. present_fn demo_cfg (of_nat d) 0 \<longleftrightarrow> d = 31) [0..<32]"
      by (simp add: upt_rec present_fn_def vendor_of_def demo_cfg_def vray_build_addr_def)
    with that show ?thesis by (simp add: list_all_iff)
  qed
  moreover have "header_of demo_cfg 31 0 AND 0x80 = 0" by (simp add: header_of_def demo_cfg_def vray_build_addr_def)
  ultimately have f: "functions_of demo_cfg (of_nat d) = (if d = 31 then [0] else [])" if "d < 32" for d
    using that by (auto simp: functions_of_def)
  have "[0..<32] = [0..<31] @ [31 :: nat]" by (simp add: upt_rec)
  moreover have "concat (map (\<lambda>d. map (device_at demo_names demo_cfg (of_nat d)) (functions_of demo_cfg (of_nat d))) [0..<31]) = []"
    using f by simp
  ultimately have "concat (map (\<lambda>d. map (device_at demo_names demo_cfg (of_nat d)) (functions_of demo_cfg (of_nat d))) [0..<32]) =
      [device_at demo_names demo_cfg 31 0]"
    using f [of 31] by (simp only: map_append concat_append) simp
  then have "devices (vray_init demo_names demo_bus s) = [device_at demo_names demo_cfg 31 0]" by (simp only: r) simp
  then show "map (\<lambda>x. (v_device x, v_class x, v_name x)) (devices (vray_init demo_names demo_bus s)) = [(31, 1, ''ICH9 AHCI'')]"
    by (simp add: device_at_def demo_cfg_def vray_build_addr_def vendor_of_def get_pci_device_name_def search_names.simps demo_names_def)
qed

end
