(* ===== verification/Ahci.thy ===== *)
theory Ahci
  imports Pci PhysMem
begin

text \<open>
  The AHCI driver \<open>drivers/ahci.c\<close>: port discovery, the command engine, and the read and write
  commands.  Device registers are answered by the environment and their stores are logged;
  the command list, the command table and the data lie in the memory \<open>h_ram\<close> (the code uses
  physical addresses as pointers).  The fields of a structure that is filled field by field and
  only read by the device afterwards are stored at once; the read-modify-write of the
  bit fields of the command header keeps the other bits.  The messages are left out.
\<close>

section \<open>State\<close>

record ahci = machine +
  h_ram :: "u64 \<Rightarrow> u8"
  h_pfa :: pfa
  g_abar :: u64
  g_ahci_initialized :: bool
  g_ahci_port :: int

text \<open>A port is the address of its registers.\<close>

definition PORT_CLB :: u64 where "PORT_CLB = 0x00"
definition PORT_CLBU :: u64 where "PORT_CLBU = 0x04"
definition PORT_FB :: u64 where "PORT_FB = 0x08"
definition PORT_FBU :: u64 where "PORT_FBU = 0x0C"
definition PORT_IS :: u64 where "PORT_IS = 0x10"
definition PORT_CMD :: u64 where "PORT_CMD = 0x18"
definition PORT_TFD :: u64 where "PORT_TFD = 0x20"
definition PORT_SIG :: u64 where "PORT_SIG = 0x24"
definition PORT_SSTS :: u64 where "PORT_SSTS = 0x28"
definition PORT_SACT :: u64 where "PORT_SACT = 0x34"
definition PORT_CI :: u64 where "PORT_CI = 0x38"

lemmas port_defs = PORT_CLB_def PORT_CLBU_def PORT_FB_def PORT_FBU_def PORT_IS_def PORT_CMD_def PORT_TFD_def PORT_SIG_def
  PORT_SSTS_def PORT_SACT_def PORT_CI_def

definition store_ram :: "u64 \<Rightarrow> u8 list \<Rightarrow> ahci \<Rightarrow> ahci" where
  "store_ram a bs s = s\<lparr>h_ram := store_bytes (h_ram s) a bs\<rparr>"

section \<open>Ports\<close>

datatype device_type = DEV_NULL | DEV_SATA | DEV_SATAPI | DEV_SEMB | DEV_PM

definition check_type :: "dev_env \<Rightarrow> u64 \<Rightarrow> ahci \<Rightarrow> device_type \<times> ahci" where
  "check_type hw port s =
     (let (ssts, s) = reg_read hw (port + PORT_SSTS) s;
          det = ssts AND 0xF; ipm = drop_bit 8 ssts AND 0xF in
      if det \<noteq> 3 \<or> ipm \<noteq> 1 then (DEV_NULL, s)
      else
        let (sig, s) = reg_read hw (port + PORT_SIG) s in
        (if sig = 0xEB140101 then DEV_SATAPI else if sig = 0xC33C0101 then DEV_SEMB
         else if sig = 0x96690101 then DEV_PM else DEV_SATA, s))"

definition update_cmd :: "(u32 \<Rightarrow> u32) \<Rightarrow> dev_env \<Rightarrow> u64 \<Rightarrow> ahci \<Rightarrow> ahci" where
  "update_cmd f hw port s =
     (let (v, s) = reg_read hw (port + PORT_CMD) s in reg_write (port + PORT_CMD) (f v) s)"

primrec wait_stopped :: "nat \<Rightarrow> dev_env \<Rightarrow> u64 \<Rightarrow> ahci \<Rightarrow> ahci" where
  "wait_stopped 0 hw port s = s"
| "wait_stopped (Suc t) hw port s =
     (let (v, s) = reg_read hw (port + PORT_CMD) s in
      if v AND 0x4000 = 0 then
        let (v, s) = reg_read hw (port + PORT_CMD) s in
        if v AND 0x8000 = 0 then s else wait_stopped t hw port s
      else wait_stopped t hw port s)"

definition port_stop_cmd :: "dev_env \<Rightarrow> u64 \<Rightarrow> ahci \<Rightarrow> ahci" where
  "port_stop_cmd hw port s =
     wait_stopped 100000 hw port (update_cmd (\<lambda>v. v AND NOT 0x10) hw port (update_cmd (\<lambda>v. v AND NOT 1) hw port s))"

text \<open>The loop \<open>while (busy && timeout-- > 0);\<close>: the value of \<open>timeout\<close> behind it.  When the device
  stays busy the loop leaves \<open>- 1\<close>.\<close>

primrec wait_while :: "nat \<Rightarrow> u32 \<Rightarrow> u64 \<Rightarrow> dev_env \<Rightarrow> ahci \<Rightarrow> int \<times> ahci" where
  "wait_while 0 busy reg hw s =
     (let (v, s) = reg_read hw reg s in if v AND busy \<noteq> 0 then (- 1, s) else (0, s))"
| "wait_while (Suc t) busy reg hw s =
     (let (v, s) = reg_read hw reg s in if v AND busy \<noteq> 0 then wait_while t busy reg hw s else (int (Suc t), s))"

definition port_start_cmd :: "dev_env \<Rightarrow> u64 \<Rightarrow> ahci \<Rightarrow> ahci" where
  "port_start_cmd hw port s =
     (let s = snd (wait_while 100000 0x8000 (port + PORT_CMD) hw s) in
      update_cmd (\<lambda>v. v OR 1) hw port (update_cmd (\<lambda>v. v OR 0x10) hw port s))"

primrec free_slot_from :: "nat \<Rightarrow> nat \<Rightarrow> u32 \<Rightarrow> nat option" where
  "free_slot_from 0 i slots = None"
| "free_slot_from (Suc n) i slots = (if slots AND push_bit i 1 = 0 then Some i else free_slot_from n (Suc i) slots)"

definition find_cmdslot :: "dev_env \<Rightarrow> u64 \<Rightarrow> ahci \<Rightarrow> nat option \<times> ahci" where
  "find_cmdslot hw port s =
     (let (sact, s) = reg_read hw (port + PORT_SACT) s;
          (ci, s) = reg_read hw (port + PORT_CI) s
      in (free_slot_from 32 0 (sact OR ci), s))"

section \<open>Commands\<close>

definition ATA_CMD_READ_DMA_EX :: u8 where "ATA_CMD_READ_DMA_EX = 0x25"
definition ATA_CMD_WRITE_DMA_EX :: u8 where "ATA_CMD_WRITE_DMA_EX = 0x35"

text \<open>The register FIS: type, command bit, command, LBA, device and count.\<close>

definition command_fis :: "u8 \<Rightarrow> u64 \<Rightarrow> u32 \<Rightarrow> u8 list" where
  "command_fis cmd lba count =
     [0x27, 0x80, cmd, 0, ucast lba, ucast (drop_bit 8 lba), ucast (drop_bit 16 lba), push_bit 6 1,
      ucast (drop_bit 24 lba), ucast (drop_bit 32 lba), ucast (drop_bit 40 lba), 0]
     @ bytes16 (ucast count) @ [0, 0, 0, 0, 0, 0]"

text \<open>The command table of 144 bytes: the FIS and one region descriptor.  \<open>dbc\<close> is a field of 22
  bits.\<close>

definition command_table :: "u8 \<Rightarrow> u64 \<Rightarrow> u32 \<Rightarrow> u64 \<Rightarrow> u8 list" where
  "command_table cmd lba count buffer =
     command_fis cmd lba count @ replicate 108 0 @
     bytes32 (ucast buffer) @ bytes32 (ucast (drop_bit 32 buffer)) @ bytes32 0 @ bytes32 ((count * 512 - 1) AND 0x3FFFFF)"

text \<open>The first bytes of the command header: FIS length 5, direction, and one descriptor.\<close>

definition header_bytes :: "bool \<Rightarrow> u8 \<Rightarrow> u8 \<Rightarrow> u8 list" where
  "header_bytes is_write b0 b1 = [(b0 AND 0xA0) OR 5 OR (if is_write then 0x40 else 0), b1] @ bytes16 1"

definition header_at :: "u32 \<Rightarrow> nat \<Rightarrow> u64" where "header_at clb slot = ucast clb + 32 * of_nat slot"

text \<open>The completion loop.  \<open>Inl ()\<close> is the return on a task file error, \<open>Inr t\<close> the value of
  \<open>timeout\<close> behind the loop.\<close>

primrec wait_done :: "nat \<Rightarrow> nat \<Rightarrow> u64 \<Rightarrow> dev_env \<Rightarrow> ahci \<Rightarrow> (unit + int) \<times> ahci" where
  "wait_done 0 slot port hw s = (Inr (- 1), s)"
| "wait_done (Suc t) slot port hw s =
     (let (ci, s) = reg_read hw (port + PORT_CI) s in
      if ci AND push_bit slot 1 = 0 then (Inr (int t), s)
      else
        let (st, s) = reg_read hw (port + PORT_IS) s in
        if st AND push_bit 30 1 \<noteq> 0 then (Inl (), s) else wait_done t slot port hw s)"

text \<open>\<open>port_read\<close> and \<open>port_write\<close> differ in the direction bit and the command.\<close>

definition port_transfer :: "bool \<Rightarrow> dev_env \<Rightarrow> u64 \<Rightarrow> u64 \<Rightarrow> u32 \<Rightarrow> u64 \<Rightarrow> ahci \<Rightarrow> int \<times> ahci" where
  "port_transfer is_write hw port lba count buffer s =
     (let s = reg_write (port + PORT_IS) 0xFFFFFFFF s in
      case find_cmdslot hw port s of
        (None, s) \<Rightarrow> (- 1, s)
      | (Some slot, s) \<Rightarrow>
          let (clb, s) = reg_read hw (port + PORT_CLB) s;
              hdr = header_at clb slot;
              s = store_ram hdr (header_bytes is_write (h_ram s hdr) (h_ram s (hdr + 1))) s;
              ctba = ucast (mem32 (h_ram s) (hdr + 8));
              s = store_ram ctba
                    (command_table (if is_write then ATA_CMD_WRITE_DMA_EX else ATA_CMD_READ_DMA_EX) lba count buffer) s;
              (timeout, s) = wait_while 100000 0x88 (port + PORT_TFD) hw s in
          if timeout = 0 then (- 1, s)
          else
            let s = reg_write (port + PORT_CI) (push_bit slot 1) s in
            case wait_done 1000000 slot port hw s of
              (Inl _, s) \<Rightarrow> (- 1, s)
            | (Inr timeout, s) \<Rightarrow>
                if timeout = 0 then (- 1, s)
                else let (st, s) = reg_read hw (port + PORT_IS) s in
                  (if st AND push_bit 30 1 \<noteq> 0 then - 1 else 0, s))"

definition port_read :: "dev_env \<Rightarrow> u64 \<Rightarrow> u64 \<Rightarrow> u32 \<Rightarrow> u64 \<Rightarrow> ahci \<Rightarrow> int \<times> ahci" where
  "port_read = port_transfer False"

definition port_write :: "dev_env \<Rightarrow> u64 \<Rightarrow> u64 \<Rightarrow> u32 \<Rightarrow> u64 \<Rightarrow> ahci \<Rightarrow> int \<times> ahci" where
  "port_write = port_transfer True"

section \<open>Initialisation\<close>

text \<open>A page from the frame allocator, cleared, or \<open>None\<close>.\<close>

definition take_page :: "ahci \<Rightarrow> u64 option \<times> ahci" where
  "take_page s =
     (case pfa_alloc (h_pfa s) of (a, p) \<Rightarrow>
        let s = s\<lparr>h_pfa := p\<rparr> in
        if a = 0 then (None, s) else (Some a, store_ram a (replicate 4096 0) s))"

definition setup_port :: "dev_env \<Rightarrow> u64 \<Rightarrow> ahci \<Rightarrow> bool \<times> ahci" where
  "setup_port hw port s =
     (let s = port_stop_cmd hw port s in
      case take_page s of
        (None, s) \<Rightarrow> (False, s)
      | (Some cmd_list, s) \<Rightarrow>
          (case take_page s of
             (None, s) \<Rightarrow> (False, s)
           | (Some fis, s) \<Rightarrow>
               (case take_page s of
                  (None, s) \<Rightarrow> (False, s)
                | (Some cmd_table, s) \<Rightarrow>
                    let s = reg_write (port + PORT_CLB) (ucast cmd_list) s;
                        s = reg_write (port + PORT_CLBU) (ucast (drop_bit 32 cmd_list)) s;
                        s = reg_write (port + PORT_FB) (ucast fis) s;
                        s = reg_write (port + PORT_FBU) (ucast (drop_bit 32 fis)) s;
                        s = store_ram (cmd_list + 8)
                              (bytes32 (ucast cmd_table) @ bytes32 (ucast (drop_bit 32 cmd_table))) s
                    in (True, port_start_cmd hw port s))))"

definition port_at :: "u64 \<Rightarrow> int \<Rightarrow> u64" where "port_at abar i = abar + 0x100 + of_int (i * 0x80)"

text \<open>The loop over the ports; \<open>False\<close> when a page was missing.\<close>

primrec probe_ports :: "nat \<Rightarrow> nat \<Rightarrow> u32 \<Rightarrow> dev_env \<Rightarrow> ahci \<Rightarrow> bool \<times> ahci" where
  "probe_ports 0 i pi hw s = (True, s)"
| "probe_ports (Suc n) i pi hw s =
     (if drop_bit i pi AND 1 \<noteq> 0 then
        let port = port_at (g_abar s) (int i); (dt, s) = check_type hw port s in
        if dt = DEV_SATA \<and> g_ahci_port s = - 1 then
          (case setup_port hw port (s\<lparr>g_ahci_port := int i\<rparr>) of
             (False, s) \<Rightarrow> (False, s)
           | (True, s) \<Rightarrow> probe_ports n (Suc i) pi hw s)
        else probe_ports n (Suc i) pi hw s
      else probe_ports n (Suc i) pi hw s)"

definition ahci_init :: "vray_device list \<Rightarrow> dev_env \<Rightarrow> ahci \<Rightarrow> int \<times> ahci" where
  "ahci_init ds hw s =
     (let idx = vray_find_first_by_class 0x01 0x06 ds in
      if idx < 0 then (- 1, s)
      else
        let x = ds ! nat idx;
            (bar5_low, s) = vray_cfg_read hw (v_bus x) (v_device x) (v_function x) 0x24 s;
            (bar5_high, s) = vray_cfg_read hw (v_bus x) (v_device x) (v_function x) 0x28 s;
            s = s\<lparr>g_abar := ucast (bar5_low AND 0xFFFFFFF0) OR push_bit 32 (ucast bar5_high)\<rparr>;
            s = snd (reg_read hw (g_abar s + 0x10) s);
            s = snd (reg_read hw (g_abar s + 0x0C) s);
            (pi, s) = reg_read hw (g_abar s + 0x0C) s in
        case probe_ports 32 0 pi hw s of
          (False, s) \<Rightarrow> (- 1, s)
        | (True, s) \<Rightarrow> if g_ahci_port s = - 1 then (- 1, s) else (0, s\<lparr>g_ahci_initialized := True\<rparr>))"

section \<open>The interface to the file systems\<close>

definition ahci_ready :: "ahci \<Rightarrow> bool" where "ahci_ready s \<longleftrightarrow> g_ahci_initialized s \<and> g_ahci_port s \<noteq> - 1"

definition ahci_read_sectors :: "dev_env \<Rightarrow> u64 \<Rightarrow> u32 \<Rightarrow> u64 \<Rightarrow> ahci \<Rightarrow> int \<times> ahci" where
  "ahci_read_sectors hw lba count buffer s =
     (if \<not> ahci_ready s then (- 1, s) else port_read hw (port_at (g_abar s) (g_ahci_port s)) lba count buffer s)"

definition ahci_write_sectors :: "dev_env \<Rightarrow> u64 \<Rightarrow> u32 \<Rightarrow> u64 \<Rightarrow> ahci \<Rightarrow> int \<times> ahci" where
  "ahci_write_sectors hw lba count buffer s =
     (if \<not> ahci_ready s then (- 1, s) else port_write hw (port_at (g_abar s) (g_ahci_port s)) lba count buffer s)"

definition ahci_get_port_count :: "ahci \<Rightarrow> int" where
  "ahci_get_port_count s = (if \<not> g_ahci_initialized s then 0 else if g_ahci_port s \<ge> 0 then 1 else 0)"

definition ahci_is_initialized :: "ahci \<Rightarrow> bool" where "ahci_is_initialized s = g_ahci_initialized s"

end
