(* ===== verification/AhciProps.thy ===== *)
theory AhciProps
  imports Ahci
begin

text \<open>
  What the AHCI driver tells the disk, and what it makes of a disk that does not answer.
\<close>

section \<open>The command table as the device reads it\<close>

definition fis_command :: "u8 list \<Rightarrow> u8" where "fis_command t = t ! 2"
definition fis_lba :: "u8 list \<Rightarrow> nat" where "fis_lba t = le_value [t ! 4, t ! 5, t ! 6, t ! 8, t ! 9, t ! 10]"
definition fis_count :: "u8 list \<Rightarrow> u16" where "fis_count t = field16 12 t"
definition prd_address :: "u8 list \<Rightarrow> u64" where "prd_address t = field64 128 t"
definition prd_bytes :: "u8 list \<Rightarrow> nat" where "prd_bytes t = unat (field32 140 t AND 0x3FFFFF) + 1"

lemma le_value_append: "le_value (xs @ ys) = le_value xs + 256 ^ length xs * le_value ys"
  by (induction xs) (simp_all add: algebra_simps)

lemma byte_at: "(ucast (drop_bit k w) :: u8) = of_nat (unat w div 2 ^ k)" for w :: u64
proof -
  have "(ucast (drop_bit k w) :: u8) = of_nat (unat (drop_bit k w))" by (simp only: of_nat_unat)
  also have "unat (drop_bit k w) = unat w div 2 ^ k" unfolding unat_drop_bit_eq by (rule drop_bit_eq_div)
  finally show ?thesis .
qed

lemma le_bytes_6: "le_bytes 6 v = [of_nat v, of_nat (v div 2 ^ 8), of_nat (v div 2 ^ 16), of_nat (v div 2 ^ 24),
    of_nat (v div 2 ^ 32), of_nat (v div 2 ^ 40)]"
proof -
  have "le_bytes (Suc (Suc (Suc (Suc (Suc (Suc 0)))))) v = [of_nat v, of_nat (v div 2 ^ 8), of_nat (v div 2 ^ 16),
      of_nat (v div 2 ^ 24), of_nat (v div 2 ^ 32), of_nat (v div 2 ^ 40)]"
    by (simp add: div_mult2_eq [symmetric])
  moreover have "6 = Suc (Suc (Suc (Suc (Suc (Suc 0)))))" by simp
  ultimately show ?thesis by (simp only:)
qed

lemma length_command [simp]: "length (command_fis c l n) = 20" "length (command_table c l n b) = 144"
  by (simp_all add: command_fis_def command_table_def)

lemma command_table_nth: "i < 20 \<Longrightarrow> command_table c l n b ! i = command_fis c l n ! i"
  by (simp add: command_table_def nth_append)

lemma fis_lba_table: "fis_lba (command_table c lba n b) = unat lba mod 2 ^ 48"
proof -
  have "[command_fis c lba n ! 4, command_fis c lba n ! 5, command_fis c lba n ! 6, command_fis c lba n ! 8,
      command_fis c lba n ! 9, command_fis c lba n ! 10] = le_bytes 6 (unat lba)"
    unfolding le_bytes_6 by (simp add: command_fis_def byte_at)
  moreover have "command_table c lba n b ! i = command_fis c lba n ! i" if "i \<in> {4, 5, 6, 8, 9, 10}" for i
    using that by (intro command_table_nth) auto
  ultimately have "fis_lba (command_table c lba n b) = le_value (le_bytes 6 (unat lba))" by (simp only: fis_lba_def insert_iff simp_thms)
  then show ?thesis by simp
qed

lemma fis_count_table: "fis_count (command_table c lba n b) = ucast n"
proof -
  have "slice 12 2 (command_table c lba n b) = bytes16 (ucast n)"
    by (simp add: slice_def command_table_def command_fis_def)
  then show ?thesis using unat_less_power [of "ucast n :: u16"] by (simp add: fis_count_def field16_def bytes16_def)
qed

lemma prd_address_table: "prd_address (command_table c lba n b) = b"
proof -
  let ?lo = "bytes32 (ucast b)" and ?hi = "bytes32 (ucast (drop_bit 32 b))"
  have v32: "le_value (bytes32 w) = unat w" for w using unat_less_power [of w] by (simp add: bytes32_def)
  have lo: "unat (ucast b :: u32) = unat b mod 2 ^ 32" by (simp add: unsigned_ucast_eq take_bit_eq_mod)
  have "unat (drop_bit 32 b) = unat b div 2 ^ 32" unfolding unat_drop_bit_eq by (rule drop_bit_eq_div)
  moreover have "unat b div 2 ^ 32 < 2 ^ 32" using unat_less_power [of b] by (simp add: less_mult_imp_div_less)
  ultimately have hi: "unat (ucast (drop_bit 32 b) :: u32) = unat b div 2 ^ 32" by (simp add: unsigned_ucast_eq take_bit_eq_mod)
  have "slice 128 8 (command_table c lba n b) = ?lo @ ?hi" by (simp add: slice_def command_table_def)
  then have "unat (prd_address (command_table c lba n b)) = unat (of_nat (unat b mod 2 ^ 32 + 2 ^ 32 * (unat b div 2 ^ 32)) :: u64)"
    by (simp add: prd_address_def field64_def le_value_append v32 lo hi)
  also have "\<dots> = unat b" by (simp only: mod_mult_div_eq) simp
  finally show ?thesis by (simp only: word_unat_eq_iff)
qed

lemma prd_bytes_table:
  assumes "0 < unat n" "unat n \<le> 8192"
  shows "prd_bytes (command_table c lba n b) = 512 * unat n"
proof -
  let ?d = "n * 512 - 1 AND 0x3FFFFF"
  have "slice 140 4 (command_table c lba n b) = bytes32 ?d" by (simp add: slice_def command_table_def)
  then have f: "field32 140 (command_table c lba n b) = ?d"
    using unat_less_power [of ?d] by (simp add: field32_def bytes32_def)
  have "unat (n * 512) = unat n * 512" using assms by (simp add: unat_word_ariths)
  moreover have "1 \<le> n * 512" using calculation assms by (simp add: word_le_nat_alt)
  ultimately have u: "unat (n * 512 - 1) = unat n * 512 - 1" by (simp add: unat_sub)
  have "(0x3FFFFF :: u32) = mask 22" by (simp add: mask_eq_exp_minus_1)
  then have "unat ?d = (unat n * 512 - 1) mod 2 ^ 22"
    by (simp only: take_bit_eq_mask [symmetric] unsigned_take_bit_eq u) (rule take_bit_eq_mod)
  then show ?thesis using assms unfolding prd_bytes_def f by (simp add: and.assoc)
qed

section \<open>Waiting\<close>

lemma wait_while_ready:
  "hw (reads s) (events s) (Reg r) AND b = 0 \<Longrightarrow> wait_while t b r hw s = (int t, s\<lparr>reads := reads s + 1\<rparr>)"
  by (cases t) (simp_all add: reg_read_def)

lemma wait_while_busy:
  assumes "\<forall>k. hw k (events s) (Reg r) AND b \<noteq> 0"
  shows "\<exists>n. wait_while t b r hw s = (- 1, s\<lparr>reads := n\<rparr>)"
  using assms
proof (induction t arbitrary: s)
  case (Suc t)
  then have "\<exists>n. wait_while t b r hw (s\<lparr>reads := reads s + 1\<rparr>) = (- 1, s\<lparr>reads := reads s + 1\<rparr>\<lparr>reads := n\<rparr>)"
    by (intro Suc.IH) simp
  with Suc.prems show ?case by (auto simp: reg_read_def)
qed (auto simp: reg_read_def)

lemma wait_done_ready:
  "0 < n \<Longrightarrow> hw (reads s) (events s) (Reg (port + PORT_CI)) AND push_bit slot 1 = 0 \<Longrightarrow>
     wait_done n slot port hw s = (Inr (int (n - 1)), s\<lparr>reads := reads s + 1\<rparr>)"
  by (cases n) (simp_all add: reg_read_def)

lemma wait_done_never:
  assumes "\<forall>k. hw k (events s) (Reg (port + PORT_CI)) AND push_bit slot 1 \<noteq> 0"
    and "\<forall>k. hw k (events s) (Reg (port + PORT_IS)) AND push_bit 30 1 = 0"
  shows "\<exists>n. wait_done t slot port hw s = (Inr (- 1), s\<lparr>reads := n\<rparr>)"
  using assms
proof (induction t arbitrary: s)
  case 0
  show ?case by (intro exI [of _ "reads s"]) simp
next
  case (Suc t)
  let ?s = "s\<lparr>reads := reads s + 2\<rparr>"
  have "\<exists>n. wait_done t slot port hw ?s = (Inr (- 1), ?s\<lparr>reads := n\<rparr>)"
    using Suc.prems by (intro Suc.IH) simp_all
  with Suc.prems show ?case by (auto simp: reg_read_def)
qed

lemma free_slot_0: "slots AND 1 = 0 \<Longrightarrow> free_slot_from 32 0 slots = Some 0"
proof -
  assume a: "slots AND 1 = 0"
  have e: "(32 :: nat) = Suc 31" by simp
  show ?thesis unfolding e free_slot_from.simps using a by simp
qed

section \<open>Kinds of disks\<close>

text \<open>A disk that is idle and completes every command at once; \<open>clb\<close> is the low half of the address of
  its command list.\<close>

definition ready_disk :: "u64 \<Rightarrow> u32 \<Rightarrow> dev_env \<Rightarrow> bool" where
  "ready_disk port clb hw \<longleftrightarrow>
     (\<forall>k log. hw k log (Reg (port + PORT_SACT)) = 0 \<and> hw k log (Reg (port + PORT_CI)) = 0 \<and>
        hw k log (Reg (port + PORT_TFD)) AND 0x88 = 0 \<and> hw k log (Reg (port + PORT_IS)) AND push_bit 30 1 = 0 \<and>
        hw k log (Reg (port + PORT_CLB)) = clb)"

text \<open>A disk that stays busy and keeps a command pending for ever.\<close>

definition hung_disk :: "u64 \<Rightarrow> dev_env \<Rightarrow> bool" where
  "hung_disk port hw \<longleftrightarrow>
     (\<forall>k log. hw k log (Reg (port + PORT_SACT)) = 0 \<and>
        hw k log (Reg (port + PORT_CI)) = (case log of Store r v # _ \<Rightarrow> if r = port + PORT_CI then 1 else 0 | _ \<Rightarrow> 0) \<and>
        hw k log (Reg (port + PORT_TFD)) AND 0x88 \<noteq> 0 \<and> hw k log (Reg (port + PORT_IS)) AND push_bit 30 1 = 0)"

lemma store_ram_sel [simp]:
  "reads (store_ram a bs s) = reads s" "events (store_ram a bs s) = events s" "h_ram (store_ram a bs s) = store_bytes (h_ram s) a bs"
  by (simp_all add: store_ram_def)

lemma header_table_apart:
  "load_bytes (store_bytes m h (header_bytes w b0 b1)) (h + 8) 4 = load_bytes m (h + 8) 4"
proof (rule load_store_other)
  show "\<forall>i < 4. length (header_bytes w b0 b1) \<le> unat (h + 8 + of_nat i - h)"
  proof (intro allI impI)
    fix i :: nat assume "i < 4"
    then have "unat (of_nat (8 + i) :: u64) = 8 + i" by (intro unat_of_nat_small) simp
    then show "length (header_bytes w b0 b1) \<le> unat (h + 8 + of_nat i - h)" by (simp add: header_bytes_def)
  qed
qed (simp add: header_bytes_def)

section \<open>Properties\<close>

text \<open>C28. A disk that is idle and answers is told exactly what was asked for: the transfer returns 0
  after one command in slot 0, whose table, at the address in the command header, holds the read
  or write command with the sector number (modulo \<open>2 ^ 48\<close>), the count, and one region that
  is the caller's buffer with \<open>count\<close> sectors of 512 bytes, for up to 8192 sectors.\<close>

theorem transfer_issues_command:
  assumes "ready_disk port clb hw" "h = header_at clb 0" "table = ucast (mem32 (h_ram s) (h + 8))"
    and "0 < unat count" "unat count \<le> 8192"
  shows "\<exists>s' t. port_transfer is_write hw port lba count buffer s = (0, s') \<and>
    events s' = Store (port + PORT_CI) (bytes32 1) # Store (port + PORT_IS) (bytes32 0xFFFFFFFF) # events s \<and>
    t = load_bytes (h_ram s') table 144 \<and>
    fis_command t = (if is_write then ATA_CMD_WRITE_DMA_EX else ATA_CMD_READ_DMA_EX) \<and>
    fis_lba t = unat lba mod 2 ^ 48 \<and> fis_count t = ucast count \<and> prd_address t = buffer \<and> prd_bytes t = 512 * unat count \<and>
    ((\<forall>j < 4. 144 \<le> unat (h + of_nat j - table)) \<longrightarrow>
       load_bytes (h_ram s') h 4 = header_bytes is_write (h_ram s h) (h_ram s (h + 1)))"
proof -
  let ?cmd = "if is_write then ATA_CMD_WRITE_DMA_EX else ATA_CMD_READ_DMA_EX"
  let ?hb = "header_bytes is_write (h_ram s h) (h_ram s (h + 1))" and ?t = "command_table ?cmd lba count buffer"
  have hw: "hw k log (Reg (port + PORT_SACT)) = 0" "hw k log (Reg (port + PORT_CI)) = 0" "hw k log (Reg (port + PORT_TFD)) AND 0x88 = 0"
    "hw k log (Reg (port + PORT_IS)) AND push_bit 30 1 = 0" "hw k log (Reg (port + PORT_CLB)) = clb" for k log
    using assms(1) by (simp_all add: ready_disk_def)
  have ctba: "mem32 (store_bytes (h_ram s) h ?hb) (h + 8) = mem32 (h_ram s) (h + 8)"
    unfolding mem32_def header_table_apart ..
  have run: "\<exists>s'. port_transfer is_write hw port lba count buffer s = (0, s') \<and>
      events s' = Store (port + PORT_CI) (bytes32 1) # Store (port + PORT_IS) (bytes32 0xFFFFFFFF) # events s \<and>
      h_ram s' = store_bytes (store_bytes (h_ram s) h ?hb) table ?t"
    unfolding port_transfer_def find_cmdslot_def
    by (simp add: reg_read_def reg_write_def do_event_def hw hw(4) [simplified] free_slot_0 wait_while_ready wait_done_ready assms(2,3) [symmetric]
        ctba Let_def)
  then obtain s' where s': "port_transfer is_write hw port lba count buffer s = (0, s')"
      "events s' = Store (port + PORT_CI) (bytes32 1) # Store (port + PORT_IS) (bytes32 0xFFFFFFFF) # events s"
      "h_ram s' = store_bytes (store_bytes (h_ram s) h ?hb) table ?t" by blast
  have t: "load_bytes (h_ram s') table 144 = ?t" unfolding s'(3) by (rule load_store_same) simp_all
  have "load_bytes (h_ram s') h 4 = ?hb" if "\<forall>j < 4. 144 \<le> unat (h + of_nat j - table)"
  proof -
    have "load_bytes (h_ram s') h 4 = load_bytes (store_bytes (h_ram s) h ?hb) h 4"
      unfolding s'(3) using that by (intro load_store_other) simp_all
    also have "\<dots> = ?hb" by (rule load_store_same) (simp_all add: header_bytes_def)
    finally show ?thesis .
  qed
  then show ?thesis using s'(1,2) t assms(4,5)
    by (intro exI [of _ s'] exI [of _ ?t])
      (simp add: fis_lba_table fis_count_table prd_address_table prd_bytes_table fis_command_def command_table_nth command_fis_def)
qed

definition demo_ahci :: ahci where
  "demo_ahci = \<lparr>reads = 0, events = [], h_ram = (\<lambda>_. 0)(0x5009 := 0x60), h_pfa = \<lparr>low_bits = (\<lambda>_. 0xFF), high_bits = bitmap_set_free (bitmap_set_free (bitmap_set_free (\<lambda>_. 0xFF) 0) 1) 2,
     low_bitmap_at = 0, bitmap_at = 0, bitmap_base = 0x100000000, free_pages_count = 3, total_pages_count = 3,
     low_free_count = 0, low_total_count = 0, next_mmio_addr = 0\<rparr>, g_abar = 0xFEBF0000, g_ahci_initialized = True, g_ahci_port = 0\<rparr>"

theorem transfer_issues_command_witness:
  "\<exists>s'. port_read (\<lambda>k log r. if r = Reg (0xFEBF0100 + PORT_CLB) then 0x5000 else 0) 0xFEBF0100 7 2 0x8000 demo_ahci = (0, s') \<and>
     fis_lba (load_bytes (h_ram s') 0x6000 144) = 7 \<and> prd_bytes (load_bytes (h_ram s') 0x6000 144) = 1024"
proof -
  let ?hw = "\<lambda>(k :: nat) (log :: machine_event list) r. if r = Reg (0xFEBF0100 + PORT_CLB) then 0x5000 else (0 :: u32)"
  have r: "ready_disk 0xFEBF0100 0x5000 ?hw" by (simp add: ready_disk_def port_defs)
  have h: "header_at 0x5000 0 = 0x5000" by (simp add: header_at_def)
  have m: "mem32 (h_ram demo_ahci) (0x5000 + 8) = 0x6000" by (simp add: mem32_def load_bytes_def upt_rec demo_ahci_def)
  from transfer_issues_command [OF r refl refl, of 2 False 7 "0x8000" demo_ahci, unfolded h m]
  show ?thesis by (auto simp: port_read_def)
qed

text \<open>A disk that never answers goes unnoticed: both waiting loops leave \<open>timeout\<close> at \<open>- 1\<close>,
  the checks compare it with 0, and the transfer of a disk that stays busy and keeps the command
  pending for ever returns success.\<close>

theorem hung_disk_reported_as_success:
  assumes "hung_disk port hw"
  shows "fst (port_transfer is_write hw port lba count buffer s) = 0"
proof -
  have hw: "hw k log (Reg (port + PORT_SACT)) = 0"
    "hw k log (Reg (port + PORT_CI)) = (case log of Store r v # _ \<Rightarrow> if r = port + PORT_CI then 1 else 0 | _ \<Rightarrow> 0)"
    "hw k log (Reg (port + PORT_TFD)) AND 0x88 \<noteq> 0" "hw k log (Reg (port + PORT_IS)) AND push_bit 30 1 = 0" for k log
    using assms by (auto simp: hung_disk_def)
  let ?s0 = "reg_write (port + PORT_IS) 0xFFFFFFFF s"
  have ne: "port + PORT_IS \<noteq> port + PORT_CI" by (simp add: port_defs)
  obtain s1 where s1: "find_cmdslot hw port ?s0 = (Some 0, s1)"
    using ne by (simp add: find_cmdslot_def reg_read_def reg_write_def do_event_def hw(1,2) free_slot_0)
  define clb where "clb = fst (reg_read hw (port + PORT_CLB) s1)"
  define s2 where "s2 = snd (reg_read hw (port + PORT_CLB) s1)"
  let ?hdr = "header_at clb 0"
  define s3 where "s3 = store_ram ?hdr (header_bytes is_write (h_ram s2 ?hdr) (h_ram s2 (?hdr + 1))) s2"
  define s4 where "s4 = store_ram (ucast (mem32 (h_ram s3) (?hdr + 8)))
      (command_table (if is_write then ATA_CMD_WRITE_DMA_EX else ATA_CMD_READ_DMA_EX) lba count buffer) s3"
  obtain n where n: "wait_while 100000 0x88 (port + PORT_TFD) hw s4 = (- 1, s4\<lparr>reads := n\<rparr>)"
    using wait_while_busy [of hw s4 "port + PORT_TFD" "0x88"] hw(3) by blast
  let ?s5 = "reg_write (port + PORT_CI) (push_bit 0 1) (s4\<lparr>reads := n\<rparr>)"
  have "events ?s5 = Store (port + PORT_CI) (bytes32 1) # events s4" by (simp add: reg_write_def do_event_def)
  then have "\<forall>k. hw k (events ?s5) (Reg (port + PORT_CI)) AND push_bit 0 1 \<noteq> 0"
    "\<forall>k. hw k (events ?s5) (Reg (port + PORT_IS)) AND push_bit 30 1 = 0" using hw(4) by (simp_all add: hw(2))
  from wait_done_never [of hw ?s5 port 0 1000000, OF this] obtain k where k: "wait_done 1000000 0 port hw ?s5 = (Inr (- 1), ?s5\<lparr>reads := k\<rparr>)" by blast
  have r: "reg_read hw (port + PORT_CLB) s1 = (clb, s2)" by (simp add: clb_def s2_def)
  have run: "port_transfer is_write hw port lba count buffer s =
      (case reg_read hw (port + PORT_IS) (?s5\<lparr>reads := k\<rparr>) of (st, s) \<Rightarrow> (if st AND push_bit 30 1 \<noteq> 0 then - 1 else 0, s))"
    unfolding port_transfer_def Let_def s1 prod.case option.case r
    unfolding s3_def [symmetric] unfolding s4_def [symmetric] n prod.case k by simp
  show ?thesis unfolding run by (simp add: reg_read_def hw(4) [simplified])
qed

theorem hung_disk_reported_as_success_witness:
  "fst (port_read (\<lambda>k log r. if r = Reg (0xFEBF0100 + PORT_TFD) then 0x80
     else if r = Reg (0xFEBF0100 + PORT_CI) then (case log of Store r v # _ \<Rightarrow> if r = 0xFEBF0100 + PORT_CI then 1 else 0 | _ \<Rightarrow> 0)
     else 0) 0xFEBF0100 7 2 0x8000 demo_ahci) = 0"
  unfolding port_read_def by (rule hung_disk_reported_as_success) (simp add: hung_disk_def port_defs)

text \<open>The command list is lost on every machine: \<open>ahci_init\<close> takes its pages from the allocator
  of the memory above 4 GiB, but a transfer computes the address of the command header from the
  low half \<open>PxCLB\<close> alone, so no header it writes lies in the page that was set up.\<close>

theorem command_list_out_of_reach:
  assumes "pfa_inv (h_pfa s)" "3 \<le> card (high_frames (h_pfa s))"
  shows "\<exists>cmd_list s'. setup_port hw port s = (True, s') \<and> cmd_list \<in> high_frames (h_pfa s) \<and>
    Store (port + PORT_CLB) (bytes32 (ucast cmd_list)) \<in> set (events s') \<and>
    (\<forall>slot < 32. unat (header_at (ucast cmd_list) slot) < unat cmd_list)"
proof -
  have pfa_reads: "h_pfa (snd (reg_read hw r x)) = h_pfa x" for r and x :: ahci by (simp add: reg_read_def)
  have upd: "h_pfa (update_cmd f hw p x) = h_pfa x" for f p x
    by (simp add: update_cmd_def reg_read_def reg_write_def do_event_def)
  have stop: "h_pfa (wait_stopped t hw p x) = h_pfa x" for t p x
    by (induction t arbitrary: x) (simp_all add: reg_read_def Let_def)
  let ?s0 = "port_stop_cmd hw port s"
  have s0: "h_pfa ?s0 = h_pfa s" by (simp add: port_stop_cmd_def stop upd)
  have take: "\<exists>a x'. take_page x = (Some a, x') \<and> a \<in> high_frames (h_pfa x) \<and> pfa_inv (h_pfa x') \<and>
      high_frames (h_pfa x') = high_frames (h_pfa x) - {a}" if "pfa_inv (h_pfa x)" "high_frames (h_pfa x) \<noteq> {}" for x
  proof -
    obtain a q where a: "pfa_alloc (h_pfa x) = (a, q)" by fastforce
    with high.alloc_some [OF that] high.frames_nonzero [OF that(1)]
    have "a \<in> high_frames (h_pfa x)" "high_frames q = high_frames (h_pfa x) - {a}" "pfa_inv q" "a \<noteq> 0" by auto
    then show ?thesis using a by (auto simp: take_page_def store_ram_def Let_def)
  qed
  have card: "card (A - {a}) + 1 = card A" if "a \<in> A" "finite A" for a and A :: "u64 set"
    using card_Suc_Diff1 [OF that(2,1)] by simp
  have "high_frames (h_pfa ?s0) \<noteq> {}" using assms(2) by (auto simp: s0)
  then obtain a s1 where 1: "take_page ?s0 = (Some a, s1)" "a \<in> high_frames (h_pfa s)" "pfa_inv (h_pfa s1)"
    "high_frames (h_pfa s1) = high_frames (h_pfa s) - {a}" using take [of ?s0] assms(1) by (auto simp: s0)
  have c1: "2 \<le> card (high_frames (h_pfa s1))" using card [OF 1(2) high.frames_finite] assms(2) 1(4) by simp
  then have "high_frames (h_pfa s1) \<noteq> {}" by auto
  then obtain b s2 where 2: "take_page s1 = (Some b, s2)" "b \<in> high_frames (h_pfa s1)" "pfa_inv (h_pfa s2)"
    "high_frames (h_pfa s2) = high_frames (h_pfa s1) - {b}" using take [OF 1(3)] by auto
  have "1 \<le> card (high_frames (h_pfa s2))" using card [OF 2(2) high.frames_finite] c1 2(4) by simp
  then have "high_frames (h_pfa s2) \<noteq> {}" by auto
  then obtain c s3 where 3: "take_page s2 = (Some c, s3)" using take [OF 2(3)] by auto
  have start: "set (events x) \<subseteq> set (events (port_start_cmd hw port x))" for x
  proof -
    have w: "events (snd (wait_while t b r hw y)) = events y" for t b r y
      by (induction t arbitrary: y) (simp_all add: reg_read_def Let_def)
    have "set (events y) \<subseteq> set (events (update_cmd f hw p y))" for f p y
      by (auto simp: update_cmd_def reg_read_def reg_write_def do_event_def)
    from this [of "snd (wait_while 100000 0x8000 (port + PORT_CMD) hw x)" "\<lambda>v. v OR 0x10" port]
      this [of "update_cmd (\<lambda>v. v OR 0x10) hw port (snd (wait_while 100000 0x8000 (port + PORT_CMD) hw x))" "\<lambda>v. v OR 1" port]
    show ?thesis by (simp add: port_start_cmd_def Let_def w)
  qed
  obtain y where y: "setup_port hw port s = (True, port_start_cmd hw port y)"
      "Store (port + PORT_CLB) (bytes32 (ucast a)) \<in> set (events y)"
    using 1(1) 2(1) 3 by (simp add: setup_port_def Let_def reg_write_def do_event_def)
  have "high_page a" using high.frames_valid [OF assms(1) 1(2)] .
  then have ge: "2 ^ 32 \<le> unat a" "unat a mod 4096 = 0"
    using unat_page_offset [of a] by (auto simp: high_page_def word_le_nat_alt)
  have low: "unat (header_at (ucast a) slot) < unat a" if "slot < 32" for slot
  proof -
    have w: "unat (ucast a :: u32) = unat a mod 2 ^ 32" by (simp add: unsigned_ucast_eq take_bit_eq_mod)
    have "(2 :: nat) ^ 32 = 4096 * 2 ^ 20" by simp
    then have "unat a mod 2 ^ 32 mod 4096 = 0" using ge(2) by (metis mod_mod_cancel dvd_triv_left)
    then obtain q where q: "unat a mod 2 ^ 32 = 4096 * q" by (auto elim: dvdE simp: mod_eq_0_iff_dvd)
    have "unat a mod 2 ^ 32 < 2 ^ 32" by simp
    then have "4096 * q < 4096 * 2 ^ 20" unfolding q by simp
    then have "4096 * q + 4096 \<le> 4096 * 2 ^ 20" by simp
    then have u: "unat (ucast a :: u32) + 4096 \<le> 2 ^ 32" unfolding w q by simp
    have "header_at (ucast a) slot = of_nat (unat (ucast a :: u32) + 32 * slot)" by (simp add: header_at_def)
    moreover have "unat (of_nat (unat (ucast a :: u32) + 32 * slot) :: u64) = unat (ucast a :: u32) + 32 * slot"
      using u that by (intro unat_of_nat_small) simp
    ultimately show ?thesis using u that ge(1) by simp
  qed
  show ?thesis using y start [of y] 1(2) low by (intro exI [of _ a] exI [of _ "port_start_cmd hw port y"]) auto
qed

theorem command_list_out_of_reach_witness:
  "\<forall>hw. \<exists>(cmd_list :: u64) s'. setup_port hw 0xFEBF0100 demo_ahci = (True, s') \<and> unat (header_at (ucast cmd_list) 0) < unat cmd_list"
proof
  fix hw
  have f: "free_frames (high_bits (h_pfa demo_ahci)) = {0, 1, 2}" "free_frames (low_bits (h_pfa demo_ahci)) = {}"
    by (auto simp: demo_ahci_def free_frames_set_free free_frames_full MAX_PAGES_def)
  then have i: "pfa_inv (h_pfa demo_ahci)" unfolding pfa_inv_def f by (simp add: demo_ahci_def)
  have "high_frames (h_pfa demo_ahci) = {0x100000000, 0x100001000, 0x100002000}"
    unfolding high_frames_def f by (simp add: demo_ahci_def PAGE_SIZE_def)
  then have c: "3 \<le> card (high_frames (h_pfa demo_ahci))" by simp
  have z: "(0 :: nat) < 32" by simp
  show "\<exists>(cmd_list :: u64) s'. setup_port hw 0xFEBF0100 demo_ahci = (True, s') \<and> unat (header_at (ucast cmd_list) 0) < unat cmd_list"
    using command_list_out_of_reach [OF i c, of hw "0xFEBF0100"] z by blast
qed

end
