(* ===== verification/Nodes.thy ===== *)
theory Nodes
  imports Pci Format
begin

text \<open>
  The device lists \<open>fs/nvnode.c\<close> and \<open>fs/vnode.c\<close>.  A pool with its next index is the list of the
  entries handed out, latest last; \<open>driver_data\<close> is the index of the device in its own pool (the
  table of \<open>drivers/vray.c\<close> for \<open>vnode.c\<close>).  \<open>nvnode_populate_from_pci\<close> and \<open>vnode_register\<close> are
  empty.  The dump functions return the text they print.
\<close>

section \<open>USB device nodes\<close>

datatype nvdevice_type = NVDEVICE_TYPE_GENERIC | NVDEVICE_TYPE_USB

record usb_device =
  vendor_id :: u16
  product_id :: u16

record nvnode =
  nv_name :: string
  nv_type :: nvdevice_type
  nv_data :: "nat option"

record nv =
  nvnode_pool :: "nvnode list"
  usb_device_pool :: "usb_device list"

definition MAX_NVNODES :: nat where "MAX_NVNODES = 32"
definition MAX_USB_DEVICES :: nat where "MAX_USB_DEVICES = 32"

definition nvnode_init :: "nv \<Rightarrow> nv" where
  "nvnode_init s = s\<lparr>nvnode_pool := [], usb_device_pool := []\<rparr>"

definition nvnode_create :: "nvdevice_type \<Rightarrow> nat option \<Rightarrow> nv \<Rightarrow> nat option \<times> nv" where
  "nvnode_create ty driver_data s =
     (if length (nvnode_pool s) \<ge> MAX_NVNODES then (None, s)
      else (Some (length (nvnode_pool s)),
            s\<lparr>nvnode_pool := nvnode_pool s @ [\<lparr>nv_name = ''NVNODE'', nv_type = ty, nv_data = driver_data\<rparr>]\<rparr>))"

definition nvnode_add_usb_device :: "u16 \<Rightarrow> u16 \<Rightarrow> nv \<Rightarrow> nv" where
  "nvnode_add_usb_device vid pid s =
     (if length (usb_device_pool s) \<ge> MAX_USB_DEVICES then s
      else
        let i = length (usb_device_pool s);
            s = s\<lparr>usb_device_pool := usb_device_pool s @ [\<lparr>vendor_id = vid, product_id = pid\<rparr>]\<rparr>
        in snd (nvnode_create NVDEVICE_TYPE_USB (Some i) s))"

definition nvdevice_number :: "nvdevice_type \<Rightarrow> u64" where
  "nvdevice_number ty = (case ty of NVDEVICE_TYPE_GENERIC \<Rightarrow> 0 | NVDEVICE_TYPE_USB \<Rightarrow> 1)"

text \<open>One line of the dump; \<open>None\<close> follows a null or wild \<open>driver_data\<close>.\<close>

definition nvnode_line :: "nv \<Rightarrow> nat \<Rightarrow> nvnode \<Rightarrow> string option" where
  "nvnode_line s i x =
     do { a \<leftarrow> kprintf ''  %d: %s (Type: %d)'' [NumArg (of_nat i), StrArg (nv_name x), NumArg (nvdevice_number (nv_type x))];
          b \<leftarrow> (if nv_type x = NVDEVICE_TYPE_USB then
                 (case nv_data x of
                    Some j \<Rightarrow>
                      if j < length (usb_device_pool s) then
                        kprintf (''  - USB Device: VID=%x, PID=%x'' @ [CHR 0x0A])
                          [NumArg (ucast (vendor_id (usb_device_pool s ! j))), NumArg (ucast (product_id (usb_device_pool s ! j)))]
                      else None
                  | None \<Rightarrow> None)
               else kprintf [CHR 0x0A] []);
          Some (a @ b) }"

fun dump_lines :: "(nat \<Rightarrow> 'a \<Rightarrow> string option) \<Rightarrow> nat \<Rightarrow> 'a list \<Rightarrow> string option" where
  "dump_lines f i [] = Some []"
| "dump_lines f i (x # xs) = do { a \<leftarrow> f i x; b \<leftarrow> dump_lines f (Suc i) xs; Some (a @ b) }"

definition nvnode_dump_list :: "nv \<Rightarrow> string option" where
  "nvnode_dump_list s =
     do { b \<leftarrow> dump_lines (nvnode_line s) 0 (nvnode_pool s);
          Some (''--- NVNode Device List ---'' @ [CHR 0x0A] @ b @ ''-------------------------- '' @ [CHR 0x0A]) }"

section \<open>Device nodes of the PCI bus\<close>

datatype vnode_type = DEVICE_TYPE_GENERIC | DEVICE_TYPE_PCI | DEVICE_TYPE_USB_ROOT | DEVICE_TYPE_ACPI

record vnode =
  vn_name :: string
  vn_type :: vnode_type
  vn_data :: "nat option"

definition MAX_VNODES :: nat where "MAX_VNODES = 256"

definition vnode_init :: "vnode list \<Rightarrow> vnode list" where "vnode_init s = []"

definition vnode_create :: "vnode_type \<Rightarrow> nat option \<Rightarrow> vnode list \<Rightarrow> nat option \<times> vnode list" where
  "vnode_create ty driver_data s =
     (if length s \<ge> MAX_VNODES then (None, s)
      else (Some (length s), s @ [\<lparr>vn_name = ''VNODE'', vn_type = ty, vn_data = driver_data\<rparr>]))"

definition is_controller :: "vray_device \<Rightarrow> bool" where
  "is_controller x \<longleftrightarrow>
     (v_class x = 0x01 \<and> v_subclass x = 0x06) \<or> (v_class x = 0x0C \<and> v_subclass x = 0x03 \<and> v_prog_if x = 0x30)"

primrec populate_from :: "nat \<Rightarrow> vray_device list \<Rightarrow> vnode list \<Rightarrow> vnode list" where
  "populate_from i [] s = s"
| "populate_from i (x # xs) s =
     populate_from (Suc i) xs (if is_controller x then snd (vnode_create DEVICE_TYPE_GENERIC (Some i) s) else s)"

definition vnode_populate_from_pci :: "vray_device list \<Rightarrow> vnode list \<Rightarrow> vnode list" where
  "vnode_populate_from_pci ds s = populate_from 0 ds s"

definition vnode_number :: "vnode_type \<Rightarrow> u64" where
  "vnode_number ty =
     (case ty of DEVICE_TYPE_GENERIC \<Rightarrow> 0 | DEVICE_TYPE_PCI \<Rightarrow> 1 | DEVICE_TYPE_USB_ROOT \<Rightarrow> 2 | DEVICE_TYPE_ACPI \<Rightarrow> 3)"

definition vnode_line :: "vray_device list \<Rightarrow> nat \<Rightarrow> vnode \<Rightarrow> string option" where
  "vnode_line ds i x =
     do { a \<leftarrow> kprintf ''  %d: %s (Type: %d)'' [NumArg (of_nat i), StrArg (vn_name x), NumArg (vnode_number (vn_type x))];
          b \<leftarrow> (case vn_data x of
                 Some j \<Rightarrow> if j < length ds then kprintf ('' - %s'' @ [CHR 0x0A]) [StrArg (v_name (ds ! j))] else None
               | None \<Rightarrow> kprintf [CHR 0x0A] []);
          Some (a @ b) }"

definition vnode_dump_list :: "vray_device list \<Rightarrow> vnode list \<Rightarrow> string option" where
  "vnode_dump_list ds s =
     do { b \<leftarrow> dump_lines (vnode_line ds) 0 s;
          Some (''--- VNode Device List ---'' @ [CHR 0x0A] @ b @ ''-------------------------'' @ [CHR 0x0A]) }"

section \<open>What the lists hold\<close>

text \<open>Every USB node refers to a device that exists, so the dump never follows a wild pointer.\<close>

definition nv_ok :: "nv \<Rightarrow> bool" where
  "nv_ok s \<longleftrightarrow> length (nvnode_pool s) \<le> MAX_NVNODES \<and> length (usb_device_pool s) \<le> MAX_USB_DEVICES \<and>
     (\<forall>x \<in> set (nvnode_pool s). nv_type x = NVDEVICE_TYPE_USB \<longrightarrow> (\<exists>j. nv_data x = Some j \<and> j < length (usb_device_pool s)))"

text \<open>The devices of the USB nodes, in order.\<close>

definition usb_ids :: "nv \<Rightarrow> (u16 \<times> u16) list" where
  "usb_ids s = map (\<lambda>x. let u = usb_device_pool s ! the (nv_data x) in (vendor_id u, product_id u))
     (filter (\<lambda>x. nv_type x = NVDEVICE_TYPE_USB) (nvnode_pool s))"

lemma nv_ok_init: "nv_ok (nvnode_init s)"
  by (simp add: nv_ok_def nvnode_init_def)

lemma nv_ok_add: "nv_ok s \<Longrightarrow> nv_ok (nvnode_add_usb_device vid pid s)"
  by (auto simp: nv_ok_def nvnode_add_usb_device_def nvnode_create_def Let_def less_Suc_eq)

lemma usb_ids_add:
  assumes "nv_ok s" "length (nvnode_pool s) < MAX_NVNODES" "length (usb_device_pool s) < MAX_USB_DEVICES"
  shows "usb_ids (nvnode_add_usb_device vid pid s) = usb_ids s @ [(vid, pid)]"
proof -
  have "usb_device_pool s ! the (nv_data x) = (usb_device_pool s @ [y]) ! the (nv_data x)"
    if "x \<in> set (nvnode_pool s)" "nv_type x = NVDEVICE_TYPE_USB" for x y
    using assms(1) that by (auto simp: nv_ok_def nth_append)
  then show ?thesis using assms(2,3) by (auto simp: usb_ids_def nvnode_add_usb_device_def nvnode_create_def Let_def)
qed

text \<open>The controllers among the devices, in order, as far as the pool holds them.\<close>

lemma populate_from_eq:
  "length s \<le> MAX_VNODES \<Longrightarrow> map vn_data (populate_from i ds s) =
     take MAX_VNODES (map vn_data s @ map Some (filter (\<lambda>j. is_controller (ds ! (j - i))) [i..<i + length ds]))"
proof (induction ds arbitrary: i s)
  case (Cons x xs)
  have f: "filter (\<lambda>j. is_controller ((x # xs) ! (j - i))) [i..<i + length (x # xs)] =
      (if is_controller x then [i] else []) @ filter (\<lambda>j. is_controller (xs ! (j - Suc i))) [Suc i..<Suc i + length xs]"
  proof -
    have "(x # xs) ! (j - i) = xs ! (j - Suc i)" if "j \<in> set [Suc i..<Suc i + length xs]" for j
      using that by (auto simp: nth_Cons' )
    then have "filter (\<lambda>j. is_controller ((x # xs) ! (j - i))) [Suc i..<Suc i + length xs] =
        filter (\<lambda>j. is_controller (xs ! (j - Suc i))) [Suc i..<Suc i + length xs]" by (intro filter_cong) simp_all
    moreover have "[i..<i + length (x # xs)] = i # [Suc i..<Suc i + length xs]" by (subst upt_conv_Cons) simp_all
    ultimately show ?thesis by simp
  qed
  show ?case
  proof (cases "is_controller x \<and> length s < MAX_VNODES")
    case True
    then show ?thesis unfolding f using Cons.IH [of "snd (vnode_create DEVICE_TYPE_GENERIC (Some i) s)" "Suc i"]
      by (simp add: vnode_create_def)
  next
    case False
    then have "snd (vnode_create DEVICE_TYPE_GENERIC (Some i) s) = s \<or> \<not> is_controller x" by (auto simp: vnode_create_def)
    then show ?thesis unfolding f using Cons.IH [of s "Suc i"] Cons.prems False by auto
  qed
qed simp

text \<open>Printing a list succeeds when every line can be printed.\<close>

lemma dump_lines_some: "\<forall>x \<in> set xs. \<forall>i. f i x \<noteq> None \<Longrightarrow> dump_lines f i xs \<noteq> None"
proof (induction xs arbitrary: i)
  case (Cons x xs)
  then obtain a b where "f i x = Some a" "dump_lines f (Suc i) xs = Some b" by fastforce
  then show ?case by simp
qed simp

lemma vnode_line_some: "vn_data x = Some j \<Longrightarrow> j < length ds \<Longrightarrow> vnode_line ds i x \<noteq> None"
  by (simp add: vnode_line_def kconv_def)

lemma nvnode_line_some:
  "nv_type x = NVDEVICE_TYPE_USB \<longrightarrow> (\<exists>j. nv_data x = Some j \<and> j < length (usb_device_pool s)) \<Longrightarrow> nvnode_line s i x \<noteq> None"
  by (cases "nv_type x") (auto simp: nvnode_line_def kconv_def)

section \<open>Properties\<close>

text \<open>The list of PCI controllers shows every AHCI and xHCI controller of the bus scan, in the
  order of the scan, and printing it after \<open>vnode_populate_from_pci\<close> never follows a wild pointer.\<close>

theorem vnode_lists_controllers:
  assumes "length ds \<le> 256"
  shows "map vn_data (vnode_populate_from_pci ds (vnode_init s)) =
           map Some (filter (\<lambda>j. is_controller (ds ! j)) [0..<length ds]) \<and>
         vnode_dump_list ds (vnode_populate_from_pci ds (vnode_init s)) \<noteq> None"
proof -
  let ?s = "vnode_populate_from_pci ds (vnode_init s)" and ?js = "filter (\<lambda>j. is_controller (ds ! j)) [0..<length ds]"
  have "length ?js \<le> MAX_VNODES" using length_filter_le [of "\<lambda>j. is_controller (ds ! j)" "[0..<length ds]"] assms by (simp add: MAX_VNODES_def)
  then have m: "map vn_data ?s = map Some ?js"
    using populate_from_eq [of "[]" 0 ds] by (simp add: vnode_populate_from_pci_def vnode_init_def)
  have "\<exists>j < length ds. vn_data x = Some j" if "x \<in> set ?s" for x
  proof -
    have "vn_data x \<in> set (map vn_data ?s)" using that by simp
    then show ?thesis unfolding m by auto
  qed
  then have "\<forall>x \<in> set ?s. \<forall>i. vnode_line ds i x \<noteq> None" using vnode_line_some by fastforce
  from dump_lines_some [OF this, of 0] m show ?thesis by (auto simp: vnode_dump_list_def)
qed

definition demo_device :: "u8 \<Rightarrow> u8 \<Rightarrow> u8 \<Rightarrow> string \<Rightarrow> vray_device" where
  "demo_device c sc p name = \<lparr>v_bus = 0, v_device = 1, v_function = 0, v_vendor = 0x8086, v_device_id = 0x1E31, v_class = c,
     v_subclass = sc, v_prog_if = p, v_header_type = 0, v_irq = 11, v_name = name\<rparr>"

theorem vnode_lists_controllers_witness:
  "map vn_data (vnode_populate_from_pci [demo_device 6 0 0 ''bridge'', demo_device 0x0C 3 0x30 ''usb''] []) = [Some 1]"
proof -
  have l: "length [demo_device 6 0 0 ''bridge'', demo_device 0x0C 3 0x30 ''usb''] \<le> 256" by simp
  have "[0..<length [demo_device 6 0 0 ''bridge'', demo_device 0x0C 3 0x30 ''usb'']] = [0, 1]" by (simp add: upt_rec)
  with vnode_lists_controllers [OF l, of "[]"] show ?thesis by (simp add: vnode_init_def is_controller_def demo_device_def)
qed

end
