(* ===== verification/Xhci.thy ===== *)
theory Xhci
  imports Nodes PhysMem VirtMem Input
begin

text \<open>
  The xHCI driver \<open>drivers/xhci.c\<close> (and \<open>usb_init\<close> of \<open>drivers/usb.c\<close>): the hand-over from the BIOS, reset
  and set-up of the controller, the command ring, the event ring, the addressing of a device, its
  descriptor, and the keyboard endpoint.

  Addresses are the virtual ones the code uses; \<open>x_ram\<close> is the memory the driver writes for the
  controller.  What the controller writes (registers, the event ring, device contexts, the report
  and the descriptor) is read through the environment \<open>hw\<close>, one read for each access in the code.
  Reads whose value is only printed are left out.  Stores to registers are logged.  A TRB or a context that is filled field by field is stored at
  once, and the delay loops and the messages are left out.
\<close>

section \<open>State\<close>

record xhci = machine +
  x_vm :: vm
  x_ram :: "u64 \<Rightarrow> u8"
  x_input :: input
  x_nodes :: nv
  xhci_cmd_ring :: u64
  xhci_event_ring_seg_table :: u64
  xhci_event_ring :: u64
  xhci_dcbaap_array :: u64
  xhci_device_context_pool :: u64
  xhci_input_context_pool :: u64
  xhci_ep_transfer_rings :: u64
  xhci_cap_regs :: u64
  xhci_op_regs :: u64
  xhci_doorbell_regs :: u64
  xhci_runtime_regs :: u64
  cmd_ring_enqueue_ptr :: u32
  cmd_ring_cycle_state :: u32
  event_ring_dequeue_ptr :: u32
  event_ring_cycle_state :: u32
  usb_kbd_slot :: u32
  usb_kbd_max_packet :: u16
  usb_kbd_port_speed :: u32
  usb_kbd_port_id :: u32
  usb_kbd_ep1_configured :: bool
  usb_kbd_ep1_ring :: u64
  usb_kbd_ep1_enqueue :: u32
  usb_kbd_ep1_cycle :: u32
  usb_kbd_report_data :: u64
  usb_desc_buf :: u64

definition put :: "u64 \<Rightarrow> u8 list \<Rightarrow> xhci \<Rightarrow> xhci" where
  "put a bs s = s\<lparr>x_ram := store_bytes (x_ram s) a bs\<rparr>"

definition clear :: "u64 \<Rightarrow> nat \<Rightarrow> xhci \<Rightarrow> xhci" where "clear a n = put a (replicate n 0)"

definition reg_write64 :: "u64 \<Rightarrow> u64 \<Rightarrow> 'a machine_scheme \<Rightarrow> 'a machine_scheme" where
  "reg_write64 a v = do_event (Store a (bytes64 v))"

definition reg_update :: "(u32 \<Rightarrow> u32) \<Rightarrow> dev_env \<Rightarrow> u64 \<Rightarrow> 'a machine_scheme \<Rightarrow> 'a machine_scheme" where
  "reg_update f hw a s = (let (v, s) = reg_read hw a s in reg_write a (f v) s)"

definition x_phys :: "xhci \<Rightarrow> u64 \<Rightarrow> u64" where "x_phys s a = virt_to_phys (x_vm s) a"

section \<open>Transfer request blocks\<close>

record trb =
  t_parameter :: u64
  t_status :: u32
  t_control :: u32

definition trb_bytes :: "trb \<Rightarrow> u8 list" where
  "trb_bytes t = bytes64 (t_parameter t) @ bytes32 (t_status t) @ bytes32 (t_control t)"

definition TRB_TYPE_NORMAL :: u32 where "TRB_TYPE_NORMAL = 1"
definition TRB_TYPE_SETUP_STAGE :: u32 where "TRB_TYPE_SETUP_STAGE = 2"
definition TRB_TYPE_DATA_STAGE :: u32 where "TRB_TYPE_DATA_STAGE = 3"
definition TRB_TYPE_STATUS_STAGE :: u32 where "TRB_TYPE_STATUS_STAGE = 4"
definition TRB_TYPE_LINK :: u32 where "TRB_TYPE_LINK = 6"
definition TRB_TYPE_ENABLE_SLOT :: u32 where "TRB_TYPE_ENABLE_SLOT = 9"
definition TRB_TYPE_ADDRESS_DEVICE :: u32 where "TRB_TYPE_ADDRESS_DEVICE = 11"
definition TRB_TYPE_CONFIGURE_ENDPOINT :: u32 where "TRB_TYPE_CONFIGURE_ENDPOINT = 12"
definition TRB_TYPE_TRANSFER_EVENT :: u32 where "TRB_TYPE_TRANSFER_EVENT = 32"
definition TRB_TYPE_COMMAND_COMPLETION_EVENT :: u32 where "TRB_TYPE_COMMAND_COMPLETION_EVENT = 33"

definition XHCI_CMD_RING_SIZE :: u32 where "XHCI_CMD_RING_SIZE = 32"
definition XHCI_EVENT_RING_SIZE :: u32 where "XHCI_EVENT_RING_SIZE = 32"
definition XHCI_EP_RING_SIZE :: u32 where "XHCI_EP_RING_SIZE = 32"

definition trb_at :: "u64 \<Rightarrow> u32 \<Rightarrow> u64" where "trb_at ring i = ring + 16 * ucast i"

definition EP_RING :: "xhci \<Rightarrow> u32 \<Rightarrow> u32 \<Rightarrow> u64" where
  "EP_RING s slot idx = trb_at (xhci_ep_transfer_rings s) (slot * XHCI_EP_RING_SIZE + idx)"

definition flip :: "u32 \<Rightarrow> u32" where "flip c = (if c = 0 then 1 else 0)"

text \<open>The stores \<open>xhci_doorbell_regs[slot] = target\<close>.\<close>

definition ring_doorbell :: "u32 \<Rightarrow> u32 \<Rightarrow> xhci \<Rightarrow> xhci" where
  "ring_doorbell slot target s = reg_write (xhci_doorbell_regs s + 4 * ucast slot) target s"

section \<open>Memory\<close>

text \<open>\<open>xhci_alloc_low\<close>: the pointer (0 for \<open>NULL\<close>) and \<open>*phys_out\<close>.\<close>

definition xhci_alloc_low :: "xhci \<Rightarrow> (u64 \<times> u64) \<times> xhci" where
  "xhci_alloc_low s =
     (case pfa_alloc_low (vm_pfa (x_vm s)) of (p, q) \<Rightarrow>
        let s = s\<lparr>x_vm := (x_vm s)\<lparr>vm_pfa := q\<rparr>\<rparr> in
        if p = 0 then ((0, 0), s)
        else let v = phys_to_virt (x_vm s) p in ((v, p), clear v 4096 s))"

text \<open>The loops that take the remaining pages of a pool.\<close>

primrec alloc_more :: "nat \<Rightarrow> xhci \<Rightarrow> bool \<times> xhci" where
  "alloc_more 0 s = (True, s)"
| "alloc_more (Suc n) s =
     (let ((v, _), s) = xhci_alloc_low s in if v = 0 then (False, s) else alloc_more n s)"

section \<open>The event ring\<close>

definition advance_event :: "xhci \<Rightarrow> xhci" where
  "advance_event s =
     (let d = (event_ring_dequeue_ptr s + 1) mod XHCI_EVENT_RING_SIZE;
          s = s\<lparr>event_ring_dequeue_ptr := d\<rparr>
      in if d = 0 then s\<lparr>event_ring_cycle_state := flip (event_ring_cycle_state s)\<rparr> else s)"

definition event_at :: "xhci \<Rightarrow> u64" where
  "event_at s = trb_at (xhci_event_ring s) (event_ring_dequeue_ptr s)"

definition write_erdp :: "xhci \<Rightarrow> xhci" where
  "write_erdp s = reg_write64 (xhci_runtime_regs s + 0x38) (x_phys s (event_at s) OR 8) s"

text \<open>Is the block at the dequeue pointer an event of this lap?\<close>

definition event_ready :: "dev_env \<Rightarrow> xhci \<Rightarrow> bool \<times> xhci" where
  "event_ready hw s = (let (c, s) = reg_read hw (event_at s + 12) s in (c AND 1 = event_ring_cycle_state s, s))"

text \<open>The type, the completion code and the slot of the event at the dequeue pointer, which then
  advances.\<close>

definition take_event :: "dev_env \<Rightarrow> xhci \<Rightarrow> (u32 \<times> u32 \<times> u32) \<times> xhci" where
  "take_event hw s =
     (let (c1, s) = reg_read hw (event_at s + 12) s;
          (st, s) = reg_read hw (event_at s + 8) s;
          (c2, s) = reg_read hw (event_at s + 12) s
      in ((drop_bit 10 c1 AND 0x3F, drop_bit 24 st AND 0xFF, drop_bit 24 c2 AND 0xFF), write_erdp (advance_event s)))"

section \<open>The command ring\<close>

definition link_trb :: "u64 \<Rightarrow> u32 \<Rightarrow> trb" where
  "link_trb target cycle = \<lparr>t_parameter = target, t_status = 0, t_control = push_bit 10 TRB_TYPE_LINK OR 2 OR cycle\<rparr>"

definition xhci_init_cmd_ring :: "xhci \<Rightarrow> xhci" where
  "xhci_init_cmd_ring s =
     (let s = s\<lparr>cmd_ring_enqueue_ptr := 0, cmd_ring_cycle_state := 1\<rparr>;
          s = clear (xhci_cmd_ring s) 4096 s;
          ring_phys = x_phys s (xhci_cmd_ring s);
          s = put (trb_at (xhci_cmd_ring s) (XHCI_CMD_RING_SIZE - 1)) (trb_bytes (link_trb ring_phys 1)) s
      in reg_write64 (xhci_op_regs s + 0x18) (ring_phys OR 1) s)"

text \<open>Waiting for the completion: the result, with the completion code and the slot when a
  completion event was seen.\<close>

primrec wait_command :: "nat \<Rightarrow> dev_env \<Rightarrow> xhci \<Rightarrow> (int \<times> (u32 \<times> u32) option) \<times> xhci" where
  "wait_command 0 hw s = ((- 1, None), s)"
| "wait_command (Suc n) hw s =
     (let (r, s) = event_ready hw s in
      if r then
        let ((ty, code, slot), s) = take_event hw s in
        if ty = TRB_TYPE_COMMAND_COMPLETION_EVENT then ((if code = 1 then 0 else - 2, Some (code, slot)), s)
        else wait_command n hw s
      else wait_command n hw s)"

definition xhci_send_command :: "dev_env \<Rightarrow> trb \<Rightarrow> xhci \<Rightarrow> (int \<times> (u32 \<times> u32) option) \<times> xhci" where
  "xhci_send_command hw cmd s =
     (let nxt = (cmd_ring_enqueue_ptr s + 1) mod XHCI_CMD_RING_SIZE in
      if nxt = XHCI_CMD_RING_SIZE - 1 \<or> nxt = 0 then ((- 1, None), s)
      else
        let ctrl = (if cmd_ring_cycle_state s \<noteq> 0 then t_control cmd OR 1 else t_control cmd AND NOT 1);
            s = put (trb_at (xhci_cmd_ring s) (cmd_ring_enqueue_ptr s)) (trb_bytes (cmd\<lparr>t_control := ctrl\<rparr>)) s;
            s = s\<lparr>cmd_ring_enqueue_ptr := cmd_ring_enqueue_ptr s + 1\<rparr>;
            s = (if cmd_ring_enqueue_ptr s = XHCI_CMD_RING_SIZE - 1
                 then s\<lparr>cmd_ring_cycle_state := flip (cmd_ring_cycle_state s), cmd_ring_enqueue_ptr := 0\<rparr> else s);
            s = ring_doorbell 0 0 s
        in wait_command 2000000 hw s)"

text \<open>\<open>cmd->parameter\<close> and a control word with a slot and a type.\<close>

definition slot_command :: "u64 \<Rightarrow> u32 \<Rightarrow> u32 \<Rightarrow> trb" where
  "slot_command param slot ty = \<lparr>t_parameter = param, t_status = 0, t_control = push_bit 24 slot OR push_bit 10 ty\<rparr>"

section \<open>The keyboard endpoint\<close>

definition xhci_queue_kbd_transfer :: "xhci \<Rightarrow> xhci" where
  "xhci_queue_kbd_transfer s =
     (if \<not> usb_kbd_ep1_configured s \<or> usb_kbd_slot s = 0 then s
      else
        let usable = XHCI_EP_RING_SIZE - 1;
            cycle = (if usb_kbd_ep1_cycle s \<noteq> 0 then 1 else 0);
            s = put (trb_at (usb_kbd_ep1_ring s) (usb_kbd_ep1_enqueue s))
                  (trb_bytes \<lparr>t_parameter = x_phys s (usb_kbd_report_data s), t_status = 8,
                     t_control = push_bit 10 TRB_TYPE_NORMAL OR 0x20 OR cycle\<rparr>) s;
            s = s\<lparr>usb_kbd_ep1_enqueue := usb_kbd_ep1_enqueue s + 1\<rparr>;
            s = (if usb_kbd_ep1_enqueue s \<ge> usable then
                   let s = put (trb_at (usb_kbd_ep1_ring s) usable)
                             (trb_bytes (link_trb (x_phys s (usb_kbd_ep1_ring s)) cycle)) s
                   in s\<lparr>usb_kbd_ep1_enqueue := 0, usb_kbd_ep1_cycle := flip (usb_kbd_ep1_cycle s)\<rparr>
                 else s)
        in ring_doorbell (usb_kbd_slot s) 3 s)"

text \<open>The report in the buffer: two words that the controller has written.\<close>

definition read_report :: "dev_env \<Rightarrow> xhci \<Rightarrow> hid_report \<times> xhci" where
  "read_report hw s =
     (let (lo, s) = reg_read hw (usb_kbd_report_data s) s;
          (hi, s) = reg_read hw (usb_kbd_report_data s + 4) s;
          bs = bytes32 lo @ bytes32 hi
      in (\<lparr>r_modifiers = bs ! 0, r_keycodes = drop 2 bs\<rparr>, s))"

primrec poll_events :: "nat \<Rightarrow> dev_env \<Rightarrow> xhci \<Rightarrow> xhci" where
  "poll_events 0 hw s = s"
| "poll_events (Suc n) hw s =
     (let (r, s) = event_ready hw s in
      if \<not> r then s
      else
        let ((ty, code, slot), s) = take_event hw s;
            s = (if ty = TRB_TYPE_TRANSFER_EVENT \<and> slot = usb_kbd_slot s then
                   let s = (if code = 1 then let (rep, s) = read_report hw s in s\<lparr>x_input := usb_kbd_process_report rep (x_input s)\<rparr>
                            else s)
                   in xhci_queue_kbd_transfer s
                 else s)
        in poll_events n hw s)"

definition usb_kbd_poll :: "dev_env \<Rightarrow> xhci \<Rightarrow> xhci" where
  "usb_kbd_poll hw s =
     (if \<not> usb_kbd_ep1_configured s \<or> xhci_op_regs s = 0 then s else poll_events 8 hw s)"

definition xhci_set_boot_protocol :: "u32 \<Rightarrow> xhci \<Rightarrow> xhci" where
  "xhci_set_boot_protocol slot_id s =
     (let ring = EP_RING s slot_id 0;
          s = clear ring 32 s;
          setup = 0x21 OR push_bit 8 0x0B;
          s = put ring (trb_bytes \<lparr>t_parameter = setup, t_status = 8, t_control = push_bit 10 TRB_TYPE_SETUP_STAGE OR 0x40 OR 1\<rparr>) s;
          s = put (trb_at ring 1) (trb_bytes \<lparr>t_parameter = 0, t_status = 0,
                 t_control = push_bit 10 TRB_TYPE_STATUS_STAGE OR 0x20 OR 0x10000 OR 1\<rparr>) s
      in ring_doorbell slot_id 1 s)"

section \<open>Contexts\<close>

text \<open>Offsets: the input context has its flags at 0, the slot context at 32, endpoint \<open>i\<close> at
  \<open>64 + 32 * i\<close>; it is 1056 bytes long, rounded up to 1088 by its alignment.  The device context
  has its slot context at 0 and 1024 bytes.\<close>

definition sizeof_input_context :: nat where "sizeof_input_context = 1088"
definition sizeof_device_context :: nat where "sizeof_device_context = 1024"

definition input_context :: "xhci \<Rightarrow> u32 \<Rightarrow> u64" where
  "input_context s slot_id = xhci_input_context_pool s + of_nat sizeof_input_context * ucast slot_id"

definition device_context :: "xhci \<Rightarrow> u32 \<Rightarrow> u64" where
  "device_context s slot_id = xhci_device_context_pool s + of_nat sizeof_device_context * ucast slot_id"

text \<open>An endpoint context: interval word, type word, dequeue pointer and average length.\<close>

definition endpoint_context :: "u32 \<Rightarrow> u32 \<Rightarrow> u64 \<Rightarrow> u8 list" where
  "endpoint_context dw0 dw1 deq = bytes32 dw0 @ bytes32 dw1 @ bytes64 deq @ bytes32 8"

definition xhci_configure_kbd_endpoint :: "dev_env \<Rightarrow> u32 \<Rightarrow> u32 \<Rightarrow> xhci \<Rightarrow> xhci" where
  "xhci_configure_kbd_endpoint hw slot_id port_speed s =
     (let ictx = input_context s slot_id; dctx = device_context s slot_id;
          s = clear ictx sizeof_input_context s;
          s = clear (usb_kbd_ep1_ring s) 4096 s;
          s = s\<lparr>usb_kbd_ep1_enqueue := 0, usb_kbd_ep1_cycle := 1\<rparr>;
          s = put (ictx + 4) (bytes32 (1 OR 8)) s;
          (dw0, s) = reg_read hw dctx s;
          (dw1, s) = reg_read hw (dctx + 4) s;
          s = put (ictx + 32) (bytes32 ((dw0 AND NOT (push_bit 27 0x1F)) OR push_bit 27 3) @ bytes32 dw1) s;
          interval = (if port_speed \<ge> 3 then 4 else 10);
          s = put (ictx + 64 + 32 * 2)
                (endpoint_context (push_bit 16 interval) (push_bit 3 7 OR push_bit 16 8 OR push_bit 1 3)
                   (x_phys s (usb_kbd_ep1_ring s) OR 1)) s;
          ((rc, _), s) = xhci_send_command hw (slot_command (x_phys s ictx) slot_id TRB_TYPE_CONFIGURE_ENDPOINT) s in
      if rc = 0 then
        let s = s\<lparr>usb_kbd_ep1_configured := True\<rparr>;
            s = xhci_set_boot_protocol slot_id s
        in xhci_queue_kbd_transfer s
      else s)"

section \<open>Descriptors\<close>

text \<open>\<open>usb_kbd_register\<close> of drivers/usb_hid.c with its build options on.  \<open>usb_device_register\<close>, which it
  calls, is declared there but defined nowhere in the repository; it is the argument \<open>udr\<close>.\<close>

definition usb_kbd_register :: "(u64 \<Rightarrow> xhci \<Rightarrow> xhci) \<Rightarrow> dev_env \<Rightarrow> u64 \<Rightarrow> xhci \<Rightarrow> xhci" where
  "usb_kbd_register udr hw desc s =
     (if desc = 0 then s
      else
        let s = udr desc s; (ids, s) = reg_read hw (desc + 8) s
        in s\<lparr>x_nodes := nvnode_add_usb_device (ucast ids) (ucast (drop_bit 16 ids)) (x_nodes s)\<rparr>)"

primrec wait_transfers :: "nat \<Rightarrow> nat \<Rightarrow> dev_env \<Rightarrow> u32 \<Rightarrow> xhci \<Rightarrow> nat \<times> xhci" where
  "wait_transfers 0 got hw slot_id s = (got, s)"
| "wait_transfers (Suc n) got hw slot_id s =
     (if got \<ge> 2 then (got, s)
      else
        let (r, s) = event_ready hw s in
        if \<not> r then wait_transfers n got hw slot_id s
        else
          let ((ty, code, eslot), s) = take_event hw s in
          wait_transfers n (if ty = TRB_TYPE_TRANSFER_EVENT \<and> eslot = slot_id then got + 1 else got) hw slot_id s)"

definition xhci_get_device_descriptor :: "(u64 \<Rightarrow> xhci \<Rightarrow> xhci) \<Rightarrow> dev_env \<Rightarrow> u32 \<Rightarrow> xhci \<Rightarrow> xhci" where
  "xhci_get_device_descriptor udr hw slot_id s =
     (if usb_desc_buf s = 0 then usb_kbd_register udr hw 0 s
      else
        let s = clear (usb_desc_buf s) 4096 s;
            ring = EP_RING s slot_id 0;
            s = clear ring 64 s;
            setup = 0x80 OR push_bit 8 0x06 OR push_bit 24 0x01 OR push_bit 48 18;
            s = put ring (trb_bytes \<lparr>t_parameter = setup, t_status = 8,
                   t_control = push_bit 10 TRB_TYPE_SETUP_STAGE OR 0x30000 OR 0x40 OR 1\<rparr>) s;
            s = put (trb_at ring 1) (trb_bytes \<lparr>t_parameter = x_phys s (usb_desc_buf s), t_status = 18,
                   t_control = push_bit 10 TRB_TYPE_DATA_STAGE OR 0x10000 OR 0x20 OR 1\<rparr>) s;
            s = put (trb_at ring 2) (trb_bytes \<lparr>t_parameter = 0, t_status = 0,
                   t_control = push_bit 10 TRB_TYPE_STATUS_STAGE OR 0x20 OR 1\<rparr>) s;
            s = ring_doorbell slot_id 1 s;
            (got, s) = wait_transfers 2000000 0 hw slot_id s
        in usb_kbd_register udr hw (if got > 0 then usb_desc_buf s else 0) s)"

definition ep0_max_packet :: "u32 \<Rightarrow> u16" where
  "ep0_max_packet port_speed =
     (if port_speed = 1 then 64 else if port_speed = 2 then 8 else if port_speed = 3 then 64
      else if port_speed = 4 then 512 else if port_speed = 5 then 512 else 64)"

definition xhci_address_device :: "(u64 \<Rightarrow> xhci \<Rightarrow> xhci) \<Rightarrow> dev_env \<Rightarrow> u32 \<Rightarrow> u32 \<Rightarrow> u32 \<Rightarrow> xhci \<Rightarrow> xhci" where
  "xhci_address_device udr hw slot_id port_id port_speed s =
     (let dctx = device_context s slot_id; ictx = input_context s slot_id;
          s = clear dctx sizeof_device_context s;
          s = clear ictx sizeof_input_context s;
          s = put (xhci_dcbaap_array s + 8 * ucast slot_id) (bytes64 (x_phys s dctx)) s;
          s = put (ictx + 4) (bytes32 (1 OR 2)) s;
          s = put (ictx + 32) (bytes32 (push_bit 20 port_speed OR push_bit 27 1) @ bytes32 (push_bit 16 port_id)) s;
          mps = ep0_max_packet port_speed;
          s = put (ictx + 64)
                (endpoint_context 0 (push_bit 3 4 OR push_bit 16 (ucast mps) OR push_bit 1 3) (x_phys s (EP_RING s slot_id 0) OR 1)) s;
          ((rc, _), s) = xhci_send_command hw (slot_command (x_phys s ictx) slot_id TRB_TYPE_ADDRESS_DEVICE) s in
      if rc = 0 then
        let s = s\<lparr>usb_kbd_slot := slot_id, usb_kbd_max_packet := mps, usb_kbd_port_speed := port_speed, usb_kbd_port_id := port_id\<rparr>;
            s = xhci_get_device_descriptor udr hw slot_id s
        in xhci_configure_kbd_endpoint hw slot_id port_speed s
      else s)"

section \<open>Bringing up the controller\<close>

text \<open>The waiting loops \<open>while (!done && --timeout)\<close>: at most \<open>n\<close> tests; the result says whether one
  succeeded.\<close>

primrec poll_until :: "nat \<Rightarrow> (xhci \<Rightarrow> bool \<times> xhci) \<Rightarrow> xhci \<Rightarrow> bool \<times> xhci" where
  "poll_until 0 test s = (False, s)"
| "poll_until (Suc n) test s = (let (ok, s) = test s in if ok then (True, s) else poll_until n test s)"

definition test_clear :: "u32 \<Rightarrow> u64 \<Rightarrow> dev_env \<Rightarrow> xhci \<Rightarrow> bool \<times> xhci" where
  "test_clear bits a hw s = (let (v, s) = reg_read hw a s in (v AND bits = 0, s))"

definition test_set :: "u32 \<Rightarrow> u64 \<Rightarrow> dev_env \<Rightarrow> xhci \<Rightarrow> bool \<times> xhci" where
  "test_set bits a hw s = (let (v, s) = reg_read hw a s in (v AND bits \<noteq> 0, s))"

text \<open>The walk along the extended capabilities.  A list that never ends is \<open>None\<close>.\<close>

partial_function (option) walk_caps :: "dev_env \<Rightarrow> u64 \<Rightarrow> xhci \<Rightarrow> xhci option" where
  "walk_caps hw cap_addr s =
     (let (v, s) = reg_read hw cap_addr s;
          cap_id = v AND 0xFF; next_off = drop_bit 8 v AND 0xFF in
      if cap_id = 1 then
        let s = reg_update (\<lambda>x. x OR push_bit 24 1) hw cap_addr s;
            (ok, s) = poll_until 500000 (test_clear (push_bit 16 1) cap_addr hw) s;
            s = (if ok then s else reg_update (\<lambda>x. x AND NOT (push_bit 16 1)) hw cap_addr s)
        in Some (reg_write (cap_addr + 4) 0 s)
      else if next_off = 0 then Some s
      else walk_caps hw (cap_addr + ucast (next_off * 4)) s)"

definition xhci_perform_bios_handoff :: "dev_env \<Rightarrow> u64 \<Rightarrow> xhci \<Rightarrow> xhci option" where
  "xhci_perform_bios_handoff hw base s =
     (let (h, s) = reg_read hw (base + 0x10) s; xecp = drop_bit 16 h AND 0xFFFF in
      if xecp = 0 then Some s else walk_caps hw (base + ucast (xecp * 4)) s)"

definition USBCMD :: "xhci \<Rightarrow> u64" where "USBCMD s = xhci_op_regs s"
definition USBSTS :: "xhci \<Rightarrow> u64" where "USBSTS s = xhci_op_regs s + 4"

text \<open>The base address of the registers from the first two base address registers; \<open>None\<close> for an I/O
  region.\<close>

definition read_bar :: "dev_env \<Rightarrow> vray_device \<Rightarrow> xhci \<Rightarrow> u64 option \<times> xhci" where
  "read_bar hw c s =
     (let (bar0, s) = vray_cfg_read hw (v_bus c) (v_device c) (v_function c) 0x10 s in
      if bar0 AND 6 = 4 then
        let (bar1, s) = vray_cfg_read hw (v_bus c) (v_device c) (v_function c) 0x14 s
        in (Some (push_bit 32 (ucast bar1) OR ucast (bar0 AND 0xFFFFFFF0)), s)
      else if bar0 AND 1 = 0 then (Some (ucast (bar0 AND 0xFFFFFFF0)), s)
      else (None, s))"

text \<open>Bus mastering, the register window and the hand-over.  The booleans say whether the code
  goes on.\<close>

definition xhci_map_registers :: "dev_env \<Rightarrow> vray_device \<Rightarrow> xhci \<Rightarrow> (bool \<times> xhci) option" where
  "xhci_map_registers hw c s =
     (let (v, s) = vray_cfg_read hw (v_bus c) (v_device c) (v_function c) 0x04 s;
          s = vray_cfg_write hw (v_bus c) (v_device c) (v_function c) 0x04 (v OR 4 OR 2) s in
      case read_bar hw c s of
        (None, s) \<Rightarrow> Some (False, s)
      | (Some base_addr, s) \<Rightarrow>
          let (base, m) = mmio_remap base_addr (64 * 1024) (x_vm s);
              s = s\<lparr>x_vm := m\<rparr> in
          if base = 0 then Some (False, s)
          else
            let s = s\<lparr>xhci_cap_regs := base\<rparr>;
                (cap, s) = reg_read hw base s;
                s = s\<lparr>xhci_op_regs := base + ucast (cap AND 0xFF)\<rparr>;
                (db, s) = reg_read hw (base + 0x14) s;
                s = s\<lparr>xhci_doorbell_regs := base + ucast db\<rparr>;
                (rt, s) = reg_read hw (base + 0x18) s;
                s = s\<lparr>xhci_runtime_regs := base + ucast rt\<rparr>
            in map_option (\<lambda>s. (True, s)) (xhci_perform_bios_handoff hw base s))"

definition xhci_reset :: "dev_env \<Rightarrow> xhci \<Rightarrow> bool \<times> xhci" where
  "xhci_reset hw s =
     (let s = reg_update (\<lambda>v. v AND NOT 1) hw (USBCMD s) s;
          (_, s) = poll_until 200000 (test_set 1 (USBSTS s) hw) s;
          s = reg_update (\<lambda>v. v OR 2) hw (USBCMD s) s
      in poll_until 1000000
           (\<lambda>s. let (ok, s) = test_clear 2 (USBCMD s) hw s in if ok then test_clear 0x800 (USBSTS s) hw s else (False, s)) s)"

text \<open>A page for a pointer, and \<open>n\<close> further pages behind it.\<close>

definition alloc_to :: "(u64 \<Rightarrow> xhci \<Rightarrow> xhci) \<Rightarrow> nat \<Rightarrow> xhci \<Rightarrow> bool \<times> xhci" where
  "alloc_to f n s = (let ((v, _), s) = xhci_alloc_low s; s = f v s in if v = 0 then (False, s) else alloc_more n s)"

primrec alloc_all :: "((u64 \<Rightarrow> xhci \<Rightarrow> xhci) \<times> nat) list \<Rightarrow> xhci \<Rightarrow> bool \<times> xhci" where
  "alloc_all [] s = (True, s)"
| "alloc_all (x # xs) s = (let (ok, s) = alloc_to (fst x) (snd x) s in if ok then alloc_all xs s else (False, s))"

text \<open>The pools have 65, 67 and 33 pages; their pointers are set only when the first page was found.\<close>

definition dma_pages :: "((u64 \<Rightarrow> xhci \<Rightarrow> xhci) \<times> nat) list" where
  "dma_pages =
     [(\<lambda>v s. s\<lparr>xhci_cmd_ring := v\<rparr>, 0),
      (\<lambda>v s. s\<lparr>xhci_event_ring := v\<rparr>, 0),
      (\<lambda>v s. s\<lparr>xhci_event_ring_seg_table := v\<rparr>, 0),
      (\<lambda>v s. if v = 0 then s else s\<lparr>xhci_device_context_pool := v\<rparr>, 64),
      (\<lambda>v s. if v = 0 then s else s\<lparr>xhci_input_context_pool := v\<rparr>, 66),
      (\<lambda>v s. if v = 0 then s else s\<lparr>xhci_ep_transfer_rings := v\<rparr>, 32),
      (\<lambda>v s. s\<lparr>usb_kbd_ep1_ring := v\<rparr>, 0),
      (\<lambda>v s. s\<lparr>usb_kbd_report_data := v\<rparr>, 0),
      (\<lambda>v s. s\<lparr>usb_desc_buf := v\<rparr>, 0)]"

text \<open>The number of scratchpad pages, as the code computes it, and the table of them.\<close>

definition max_scratchpad_bufs :: "u32 \<Rightarrow> u32" where
  "max_scratchpad_bufs hcsparams2 = push_bit 5 (drop_bit 27 hcsparams2 AND 0x1F) OR (drop_bit 21 hcsparams2 AND 0x1F)"

primrec fill_scratchpad :: "nat \<Rightarrow> nat \<Rightarrow> u64 \<Rightarrow> xhci \<Rightarrow> xhci" where
  "fill_scratchpad 0 i tab s = s"
| "fill_scratchpad (Suc n) i tab s =
     (case pfa_alloc_low (vm_pfa (x_vm s)) of (p, q) \<Rightarrow>
        let s = s\<lparr>x_vm := (x_vm s)\<lparr>vm_pfa := q\<rparr>\<rparr> in
        if p = 0 then s else fill_scratchpad n (Suc i) tab (put (tab + 8 * of_nat i) (bytes64 p) s))"

definition xhci_scratchpad :: "dev_env \<Rightarrow> xhci \<Rightarrow> xhci" where
  "xhci_scratchpad hw s =
     (let (p2, s) = reg_read hw (xhci_cap_regs s + 0x08) s; n = max_scratchpad_bufs p2 in
      if n > 0 then
        let n = (if n > 256 then 256 else n); ((tab, p), s) = xhci_alloc_low s in
        if tab = 0 then put (xhci_dcbaap_array s) (bytes64 0) s
        else let s = fill_scratchpad (unat n) 0 tab s in put (xhci_dcbaap_array s) (bytes64 p) s
      else put (xhci_dcbaap_array s) (bytes64 0) s)"

text \<open>Slots, device table, rings, interrupter and start.\<close>

definition xhci_setup_rings :: "dev_env \<Rightarrow> u64 \<Rightarrow> xhci \<Rightarrow> bool \<times> xhci" where
  "xhci_setup_rings hw dcbaap_phys s =
     (let (p1, s) = reg_read hw (xhci_cap_regs s + 0x04) s;
          s = reg_write (xhci_op_regs s + 0x38) (p1 AND 0xFF) s;
          s = xhci_scratchpad hw s;
          s = reg_write64 (xhci_op_regs s + 0x30) dcbaap_phys s;
          s = xhci_init_cmd_ring s;
          s = s\<lparr>event_ring_dequeue_ptr := 0, event_ring_cycle_state := 1\<rparr>;
          s = put (xhci_event_ring_seg_table s)
                (bytes64 (x_phys s (xhci_event_ring s)) @ bytes32 XHCI_EVENT_RING_SIZE @ bytes32 0) s;
          s = reg_write (xhci_runtime_regs s + 0x28) 1 s;
          s = reg_write64 (xhci_runtime_regs s + 0x38) (x_phys s (xhci_event_ring s)) s;
          s = reg_write64 (xhci_runtime_regs s + 0x30) (x_phys s (xhci_event_ring_seg_table s)) s;
          s = reg_update (\<lambda>v. v OR 2) hw (xhci_runtime_regs s + 0x20) s;
          s = reg_update (\<lambda>v. v OR 4) hw (USBCMD s) s;
          s = reg_update (\<lambda>v. v OR 1) hw (USBCMD s) s
      in poll_until 1000000 (test_clear 1 (USBSTS s) hw) s)"

section \<open>Ports\<close>

definition portsc_at :: "xhci \<Rightarrow> u32 \<Rightarrow> u64" where "portsc_at s i = xhci_op_regs s + 0x400 + ucast (i * 0x10)"

primrec power_ports :: "nat \<Rightarrow> u32 \<Rightarrow> dev_env \<Rightarrow> xhci \<Rightarrow> xhci" where
  "power_ports 0 i hw s = s"
| "power_ports (Suc n) i hw s =
     (let (v, s) = reg_read hw (portsc_at s i) s;
          s = (if v AND 0x200 = 0 then reg_write (portsc_at s i) (v OR 0x200) s else s)
      in power_ports n (i + 1) hw s)"

primrec flush_events :: "nat \<Rightarrow> dev_env \<Rightarrow> xhci \<Rightarrow> xhci" where
  "flush_events 0 hw s = s"
| "flush_events (Suc n) hw s =
     (let (r, s) = event_ready hw s in if r then flush_events n hw (advance_event s) else s)"

text \<open>A connected port up to \<open>clear_port_bits\<close>.\<close>

definition xhci_enumerate_port :: "(u64 \<Rightarrow> xhci \<Rightarrow> xhci) \<Rightarrow> dev_env \<Rightarrow> u32 \<Rightarrow> u32 \<Rightarrow> xhci \<Rightarrow> xhci" where
  "xhci_enumerate_port udr hw i v s =
     (let portsc = portsc_at s i;
          s = (if v AND 0x200 = 0 then let s = reg_write portsc (v OR 0x200) s in snd (reg_read hw portsc s) else s);
          s = reg_write portsc (0x200 OR 0x10) s;
          (ok, s) = poll_until 1000000 (test_set (push_bit 21 1) portsc hw) s in
      if \<not> ok then s
      else
        let s = reg_write portsc (0x200 OR push_bit 21 1) s;
            (ps, s) = reg_read hw portsc s;
            port_speed = drop_bit 10 ps AND 0xF;
            s = flush_events 32 hw s;
            s = write_erdp s;
            s = reg_write (USBSTS s) (8 OR 16) s;
            (sts, s) = reg_read hw (USBSTS s) s in
        if sts AND 1 \<noteq> 0 then s
        else
          let ((rc, out), s) = xhci_send_command hw \<lparr>t_parameter = 0, t_status = 0, t_control = push_bit 10 TRB_TYPE_ENABLE_SLOT\<rparr> s
          in if rc = 0 then xhci_address_device udr hw (case out of Some (_, slot) \<Rightarrow> slot | None \<Rightarrow> 0) (i + 1) port_speed s
             else s)"

definition status_change_bits :: u32 where "status_change_bits = 0x00FE0000"

primrec enumerate_ports :: "nat \<Rightarrow> u32 \<Rightarrow> (u64 \<Rightarrow> xhci \<Rightarrow> xhci) \<Rightarrow> dev_env \<Rightarrow> xhci \<Rightarrow> xhci" where
  "enumerate_ports 0 i udr hw s = s"
| "enumerate_ports (Suc n) i udr hw s =
     (let portsc = portsc_at s i;
          (v, s) = reg_read hw portsc s;
          s = (if v AND 1 = 0 then s else xhci_enumerate_port udr hw i v s)
      in enumerate_ports n (i + 1) udr hw (reg_write portsc status_change_bits s))"

definition xhci_init :: "(u64 \<Rightarrow> xhci \<Rightarrow> xhci) \<Rightarrow> vray_device list \<Rightarrow> dev_env \<Rightarrow> xhci \<Rightarrow> xhci option" where
  "xhci_init udr ds hw s =
     (let idx = vray_find_first_by_class_prog_if 0x0C 0x03 0x30 ds in
      if idx = - 1 then Some s
      else
        (case xhci_map_registers hw (ds ! nat idx) s of
           None \<Rightarrow> None
         | Some (False, s) \<Rightarrow> Some s
         | Some (True, s) \<Rightarrow>
             (case xhci_reset hw s of
                (False, s) \<Rightarrow> Some s
              | (True, s) \<Rightarrow>
                  let ((v, dcbaap_phys), s) = xhci_alloc_low s; s = s\<lparr>xhci_dcbaap_array := v\<rparr> in
                  if v = 0 then Some s
                  else
                    (case alloc_all dma_pages s of
                       (False, s) \<Rightarrow> Some s
                     | (True, s) \<Rightarrow>
                         (case xhci_setup_rings hw dcbaap_phys s of
                            (False, s) \<Rightarrow> Some s
                          | (True, s) \<Rightarrow>
                              let (p1, s) = reg_read hw (xhci_cap_regs s + 0x04) s;
                                  max_ports = unat (drop_bit 24 p1 AND 0xFF);
                                  s = power_ports max_ports 0 hw s
                              in Some (enumerate_ports max_ports 0 udr hw s))))))"

definition usb_init :: "(u64 \<Rightarrow> xhci \<Rightarrow> xhci) \<Rightarrow> vray_device list \<Rightarrow> dev_env \<Rightarrow> xhci \<Rightarrow> xhci option" where
  "usb_init = xhci_init"

end
