(* ===== verification/XhciProps.thy ===== *)
theory XhciProps
  imports Xhci
begin

text \<open>
  The rings of the xHCI driver: what a command puts into the command ring and takes from the event
  ring, how many commands the ring carries, and the keyboard ring against a controller that
  follows the rules of the specification.
\<close>

section \<open>Words\<close>

lemma unat_mod_32: "unat (x mod 32) = unat x mod 32" for x :: u32
  by (simp add: unat_mod)

lemma unat_diff_small:
  "a < 2 ^ 63 \<Longrightarrow> b < 2 ^ 63 \<Longrightarrow> unat (of_nat a - of_nat b :: u64) = (if b \<le> a then a - b else 2 ^ 64 + a - b)"
proof -
  assume a: "a < 2 ^ 63" and b: "b < 2 ^ 63"
  then have u: "unat (of_nat a :: u64) = a" "unat (of_nat b :: u64) = b" by (simp_all add: unat_of_nat_small)
  show ?thesis
  proof (cases "b \<le> a")
    case True
    then have "(of_nat b :: u64) \<le> of_nat a" using u by (simp add: word_le_nat_alt)
    then show ?thesis using True u by (simp add: unat_sub)
  next
    case False
    have "of_nat a - of_nat b = (of_nat (2 ^ 64 + a - b) :: u64)" using b by (simp add: of_nat_diff)
    moreover have "unat (of_nat (2 ^ 64 + a - b) :: u64) = 2 ^ 64 + a - b"
      using False a b by (intro unat_of_nat_small) simp
    ultimately show ?thesis using False by simp
  qed
qed

section \<open>Cells of a ring\<close>

definition cell :: "u64 \<Rightarrow> (u64 \<Rightarrow> u8) \<Rightarrow> nat \<Rightarrow> u8 list" where
  "cell ring m i = load_bytes m (trb_at ring (of_nat i)) 16"

lemma length_trb_bytes [simp]: "length (trb_bytes t) = 16"
  by (simp add: trb_bytes_def)

lemma trb_at_nat: "i < 2 ^ 32 \<Longrightarrow> trb_at ring (of_nat i) = ring + of_nat (16 * i)"
proof -
  assume "i < 2 ^ 32"
  then have "unat (of_nat i :: u32) = i" by (intro unat_of_nat_small) simp
  moreover have "(ucast (of_nat i :: u32) :: u64) = of_nat (unat (of_nat i :: u32))" by (simp only: of_nat_unat)
  ultimately have "(ucast (of_nat i :: u32) :: u64) = of_nat i" by (simp only:)
  then show ?thesis by (simp only: trb_at_def) simp
qed

lemma cell_store:
  assumes "i < 32" "j < 32"
  shows "cell ring (store_bytes m (trb_at ring (of_nat i)) (trb_bytes t)) j = (if i = j then trb_bytes t else cell ring m j)"
proof (cases "i = j")
  case True
  then show ?thesis by (simp add: cell_def load_store_same)
next
  case False
  have "16 \<le> unat (trb_at ring (of_nat j) + of_nat k - trb_at ring (of_nat i))" if "k < 16" for k
  proof -
    have "trb_at ring (of_nat j) + of_nat k - trb_at ring (of_nat i) = of_nat (16 * j + k) - of_nat (16 * i)"
      using assms by (simp add: trb_at_nat)
    then have "unat (trb_at ring (of_nat j) + of_nat k - trb_at ring (of_nat i)) =
        (if 16 * i \<le> 16 * j + k then 16 * j + k - 16 * i else 2 ^ 64 + (16 * j + k) - 16 * i)"
      using assms that unat_diff_small [of "16 * j + k" "16 * i"] by (simp only:) simp
    then show ?thesis using assms that False by auto
  qed
  then show ?thesis using False by (simp add: cell_def load_store_other)
qed

lemma cell_clear: "i < 32 \<Longrightarrow> cell ring (store_bytes m ring (replicate 4096 0)) i = replicate 16 0"
proof -
  assume i: "i < 32"
  have "unat (trb_at ring (of_nat i) + of_nat k - ring) = 16 * i + k" if "k < 16" for k
  proof -
    have "trb_at ring (of_nat i) + of_nat k - ring = of_nat (16 * i + k)" using i by (simp add: trb_at_nat)
    moreover have "unat (of_nat (16 * i + k) :: u64) = 16 * i + k" using i that by (intro unat_of_nat_small) simp
    ultimately show ?thesis by (simp only:)
  qed
  then show ?thesis using i by (intro nth_equalityI) (simp_all add: cell_def store_bytes_apply)
qed

section \<open>The keyboard ring\<close>

text \<open>The cycle bit of a lap.\<close>

definition lap_cycle :: "nat \<Rightarrow> u32" where "lap_cycle l = (if even l then 1 else 0)"

lemma flip_lap [simp]: "flip (lap_cycle l) = lap_cycle (Suc l)"
  by (simp add: flip_def lap_cycle_def)

lemma lap_cycle_less: "lap_cycle l = 0 \<or> lap_cycle l = 1"
  by (simp add: lap_cycle_def)

lemma lap_cycle_01 [simp]: "lap_cycle 0 = 1" "(if lap_cycle l \<noteq> 0 then 1 else 0) = lap_cycle l"
  by (simp_all add: lap_cycle_def)

definition kbd_trb :: "xhci \<Rightarrow> u32 \<Rightarrow> trb" where
  "kbd_trb s c = \<lparr>t_parameter = x_phys s (usb_kbd_report_data s), t_status = 8, t_control = push_bit 10 TRB_TYPE_NORMAL OR 0x20 OR c\<rparr>"

text \<open>The keyboard ring after \<open>k\<close> transfers: each cell holds the block of the last lap that reached it.\<close>

definition kbd_ring :: "nat \<Rightarrow> xhci \<Rightarrow> bool" where
  "kbd_ring k s \<longleftrightarrow>
     usb_kbd_ep1_configured s \<and> usb_kbd_slot s \<noteq> 0 \<and>
     usb_kbd_ep1_enqueue s = of_nat (k mod 31) \<and> usb_kbd_ep1_cycle s = lap_cycle (k div 31) \<and>
     (\<forall>i < 31. cell (usb_kbd_ep1_ring s) (x_ram s) i =
        (if i < k then trb_bytes (kbd_trb s (lap_cycle ((k - 1 - i) div 31))) else replicate 16 0)) \<and>
     (31 \<le> k \<longrightarrow> cell (usb_kbd_ep1_ring s) (x_ram s) 31 =
        trb_bytes (link_trb (x_phys s (usb_kbd_ep1_ring s)) (lap_cycle (k div 31 - 1)))) \<and>
     (k < 31 \<longrightarrow> cell (usb_kbd_ep1_ring s) (x_ram s) 31 = replicate 16 0)"

lemma lap_of_cell:
  assumes "i < (31 :: nat)"
  shows "(if i < Suc k then lap_cycle ((Suc k - 1 - i) div 31) else c) =
    (if i = k mod 31 then lap_cycle (k div 31) else if i < k then lap_cycle ((k - 1 - i) div 31) else c)"
proof (cases "i = k mod 31")
  case True
  then have "i < Suc k" "(k - i) div 31 = k div 31" by (simp_all add: minus_mod_eq_mult_div less_Suc_eq_le)
  then show ?thesis using True by (simp only: if_True diff_Suc_1 simp_thms)
next
  case False
  then have n: "i \<noteq> k" using assms by auto
  show ?thesis
  proof (cases "i < k")
    case True
    define q where "q = (k - 1 - i) div 31"
    define r where "r = (k - 1 - i) mod 31"
    have k: "k = i + 1 + 31 * q + r" "r < 31" using True unfolding q_def r_def by auto
    have "r \<noteq> 30"
    proof
      assume "r = 30"
      then have "k = i + 31 * (q + 1)" using k by simp
      then have "k mod 31 = i" using assms by (simp only: mod_mult_self2 mod_less)
      then show False using False by simp
    qed
    then have "(k - i) div 31 = q" using k by simp
    then have "(k - i) div 31 = (k - 1 - i) div 31" by (simp only: q_def)
    then show ?thesis using True False by simp
  qed (use n False in simp)
qed

text \<open>The store of one transfer, and what the ring holds then.\<close>

lemma queue_sel:
  assumes "usb_kbd_ep1_configured s" "usb_kbd_slot s \<noteq> 0" "usb_kbd_ep1_enqueue s = of_nat e" "e < 31" "usb_kbd_ep1_cycle s = lap_cycle l"
  shows "usb_kbd_ep1_configured (xhci_queue_kbd_transfer s) \<and> usb_kbd_slot (xhci_queue_kbd_transfer s) = usb_kbd_slot s
    \<and> usb_kbd_ep1_ring (xhci_queue_kbd_transfer s) = usb_kbd_ep1_ring s
    \<and> usb_kbd_report_data (xhci_queue_kbd_transfer s) = usb_kbd_report_data s
    \<and> x_vm (xhci_queue_kbd_transfer s) = x_vm s
    \<and> usb_kbd_ep1_enqueue (xhci_queue_kbd_transfer s) = (if e = 30 then 0 else of_nat e + 1)
    \<and> usb_kbd_ep1_cycle (xhci_queue_kbd_transfer s) = (if e = 30 then lap_cycle (Suc l) else lap_cycle l)
    \<and> x_ram (xhci_queue_kbd_transfer s) =
        (let m = store_bytes (x_ram s) (trb_at (usb_kbd_ep1_ring s) (of_nat e)) (trb_bytes (kbd_trb s (lap_cycle l))) in
         if e = 30 then store_bytes m (trb_at (usb_kbd_ep1_ring s) 31)
             (trb_bytes (link_trb (x_phys s (usb_kbd_ep1_ring s)) (lap_cycle l))) else m)"
proof -
  have "unat (of_nat (e + 1) :: u32) = e + 1" using assms(4) by (intro unat_of_nat_small) simp
  then have "unat (of_nat e + 1 :: u32) = e + 1" by (simp only: of_nat_add of_nat_1)
  then have c: "(31 \<le> (of_nat e + 1 :: u32)) = (e = 30)" using assms(4) by (auto simp: word_le_nat_alt)
  let ?e = "of_nat e :: u32"
  have q: "xhci_queue_kbd_transfer s =
      (let s1 = put (trb_at (usb_kbd_ep1_ring s) ?e) (trb_bytes (kbd_trb s (lap_cycle l))) s;
           s2 = s1\<lparr>usb_kbd_ep1_enqueue := ?e + 1\<rparr>;
           s3 = (if e = 30 then
                   (put (trb_at (usb_kbd_ep1_ring s) 31) (trb_bytes (link_trb (x_phys s (usb_kbd_ep1_ring s)) (lap_cycle l))) s2)
                     \<lparr>usb_kbd_ep1_enqueue := 0, usb_kbd_ep1_cycle := lap_cycle (Suc l)\<rparr>
                 else s2)
       in ring_doorbell (usb_kbd_slot s) 3 s3)"
    using assms c unfolding xhci_queue_kbd_transfer_def kbd_trb_def XHCI_EP_RING_SIZE_def by (simp add: put_def x_phys_def Let_def)
  show ?thesis using assms(1,5) unfolding q by (cases "e = 30") (simp_all add: put_def ring_doorbell_def reg_write_def do_event_def Let_def)
qed

lemma kbd_ring_step:
  assumes "kbd_ring k s"
  shows "kbd_ring (Suc k) (xhci_queue_kbd_transfer s)"
proof -
  let ?s = "xhci_queue_kbd_transfer s" and ?e = "k mod 31" and ?l = "k div 31" and ?r = "usb_kbd_ep1_ring s"
  have inv: "usb_kbd_ep1_configured s" "usb_kbd_slot s \<noteq> 0" "usb_kbd_ep1_enqueue s = of_nat ?e" "usb_kbd_ep1_cycle s = lap_cycle ?l"
    and cells: "i < 31 \<Longrightarrow> cell ?r (x_ram s) i = (if i < k then trb_bytes (kbd_trb s (lap_cycle ((k - 1 - i) div 31))) else replicate 16 0)"
    and link: "31 \<le> k \<Longrightarrow> cell ?r (x_ram s) 31 = trb_bytes (link_trb (x_phys s ?r) (lap_cycle (?l - 1)))"
      "k < 31 \<Longrightarrow> cell ?r (x_ram s) 31 = replicate 16 0" for i
    using assms unfolding kbd_ring_def by auto
  have e: "?e < 31" by simp
  then have ne: "?e \<noteq> 31" "31 \<noteq> ?e" by simp_all
  note q = queue_sel [OF inv(1,2,3) e inv(4), unfolded Let_def]
  have n: "Suc k mod 31 = (if ?e = 30 then 0 else Suc ?e)" "Suc k div 31 = (if ?e = 30 then Suc ?l else ?l)"
    by (simp_all add: mod_Suc div_Suc)
  have same: "kbd_trb ?s = kbd_trb s" "x_phys ?s = x_phys s"
    using q by (simp_all add: fun_eq_iff kbd_trb_def x_phys_def)
  have link31: "cell ?r (store_bytes m (trb_at ?r 31) (trb_bytes t)) j = (if j = 31 then trb_bytes t else cell ?r m j)" if "j < 32" for m t j
    using cell_store [of 31 j ?r m t] that by auto
  have ram: "cell ?r (x_ram ?s) j = (if j = 31 \<and> ?e = 30 then trb_bytes (link_trb (x_phys s ?r) (lap_cycle ?l))
      else if j = ?e then trb_bytes (kbd_trb s (lap_cycle ?l)) else cell ?r (x_ram s) j)" if "j < 32" for j
    using q that e by (auto simp: link31 cell_store cell_store [of 30, simplified])
  have "cell ?r (x_ram ?s) i = (if i < Suc k then trb_bytes (kbd_trb s (lap_cycle ((Suc k - 1 - i) div 31))) else replicate 16 0)"
    if "i < 31" for i
  proof (cases "i = ?e")
    case True
    then have "i < Suc k" "(Suc k - 1 - i) div 31 = ?l" by (simp_all add: minus_mod_eq_mult_div less_Suc_eq_le)
    moreover have "i < 32" "i \<noteq> 31" using that by simp_all
    then have "cell ?r (x_ram ?s) i = trb_bytes (kbd_trb s (lap_cycle ?l))" using True by (simp only: ram) simp
    ultimately show ?thesis by (simp only: if_True)
  next
    case False
    have "(i < Suc k) = (i < k)" using False that by (auto simp: less_Suc_eq)
    moreover have "(Suc k - 1 - i) div 31 = (k - 1 - i) div 31 \<or> lap_cycle ((Suc k - 1 - i) div 31) = lap_cycle ((k - 1 - i) div 31)" if "i < k"
      using lap_of_cell [OF \<open>i < 31\<close>, of k "lap_cycle 0"] that False by simp
    ultimately show ?thesis using False that ram [of i] cells [OF that] by auto
  qed
  moreover have "cell ?r (x_ram ?s) 31 = trb_bytes (link_trb (x_phys s ?r) (lap_cycle (Suc k div 31 - 1)))" if "31 \<le> Suc k"
  proof (cases "?e = 30")
    case False
    then have "k \<noteq> 30" by auto
    then have "31 \<le> k" using that by linarith
    then show ?thesis using False link(1) ne n(2) ram [of 31] by simp
  qed (use n(2) ram [of 31] in simp)
  moreover have "cell ?r (x_ram ?s) 31 = replicate 16 0" if "Suc k < 31"
    using that ne e ram [of 31] link(2) by (cases "?e = 30") simp_all
  moreover have "usb_kbd_ep1_enqueue ?s = of_nat (Suc k mod 31)" "usb_kbd_ep1_cycle ?s = lap_cycle (Suc k div 31)"
    using q n by (auto simp: add.commute)
  ultimately show ?thesis using q inv unfolding kbd_ring_def same by auto
qed

lemma kbd_ring_run: "kbd_ring 0 s \<Longrightarrow> kbd_ring k ((xhci_queue_kbd_transfer ^^ k) s)"
  by (induction k) (simp_all add: kbd_ring_step)

text \<open>The controller's side, as the specification has it: a block belongs to it when the cycle bit
  is that of its lap; a link block leads to the start of the ring and, with its toggle bit,
  turns the lap's bit over.  \<open>None\<close> means that nothing is pending.\<close>

definition owned :: "u32 \<Rightarrow> u8 list \<Rightarrow> bool" where "owned c b \<longleftrightarrow> field32 12 b AND 1 = c"

definition controller_fetch :: "u64 \<Rightarrow> (nat \<Rightarrow> u8 list) \<Rightarrow> nat \<times> u32 \<Rightarrow> (u8 list \<times> nat \<times> u32) option" where
  "controller_fetch ring cells p =
     (case p of (i, c) \<Rightarrow>
        if \<not> owned c (cells i) then None
        else if drop_bit 10 (field32 12 (cells i)) AND 0x3F = TRB_TYPE_LINK then
          let i' = unat ((field64 0 (cells i) - ring) div 16);
              c' = (if field32 12 (cells i) AND 2 \<noteq> 0 then flip c else c) in
          if \<not> owned c' (cells i') then None else Some (cells i', i' + 1, c')
        else Some (cells i, i + 1, c))"

text \<open>Where a controller stands that has fetched \<open>j\<close> transfers.\<close>

definition fetch_pos :: "nat \<Rightarrow> nat \<times> u32" where
  "fetch_pos j = (if j = 0 then (0, lap_cycle 0) else (Suc ((j - 1) mod 31), lap_cycle ((j - 1) div 31)))"

lemma trb_fields [simp]: "field32 12 (trb_bytes t) = t_control t" "field64 0 (trb_bytes t) = t_parameter t"
proof -
  have "slice 12 4 (trb_bytes t) = bytes32 (t_control t)" "slice 0 8 (trb_bytes t) = bytes64 (t_parameter t)"
    by (simp_all add: slice_def trb_bytes_def)
  then show "field32 12 (trb_bytes t) = t_control t" "field64 0 (trb_bytes t) = t_parameter t"
    using unat_less_power [of "t_control t"] unat_less_power [of "t_parameter t"]
    by (simp_all add: field32_def field64_def bytes32_def bytes64_def)
qed

lemma le_value_zeros: "le_value (replicate n 0) = 0"
  by (induction n) simp_all

lemma owned_cases:
  "owned c (trb_bytes (kbd_trb s (lap_cycle l))) = (c = lap_cycle l)"
  "owned c (trb_bytes (link_trb a (lap_cycle l))) = (c = lap_cycle l)"
  "owned c (replicate 16 0) = (c = 0)"
proof -
  show "owned c (trb_bytes (kbd_trb s (lap_cycle l))) = (c = lap_cycle l)"
    by (cases "even l") (auto simp: owned_def kbd_trb_def lap_cycle_def TRB_TYPE_NORMAL_def)
  show "owned c (trb_bytes (link_trb a (lap_cycle l))) = (c = lap_cycle l)"
    by (cases "even l") (auto simp: owned_def link_trb_def lap_cycle_def TRB_TYPE_LINK_def)
  have "slice 12 4 (replicate 16 (0 :: u8)) = replicate 4 0" by (simp add: slice_def)
  then show "owned c (replicate 16 0) = (c = 0)" by (auto simp: owned_def field32_def le_value_zeros)
qed

lemma kinds:
  "drop_bit 10 (t_control (kbd_trb s (lap_cycle l))) AND 0x3F \<noteq> TRB_TYPE_LINK"
  "drop_bit 10 (t_control (link_trb a (lap_cycle l))) AND 0x3F = TRB_TYPE_LINK"
  "t_control (link_trb a (lap_cycle l)) AND 2 \<noteq> 0" "t_parameter (link_trb a c) = a"
  by (cases "even l", simp_all add: kbd_trb_def link_trb_def lap_cycle_def TRB_TYPE_NORMAL_def TRB_TYPE_LINK_def)+

lemma lap_neq: "lap_cycle (Suc l) \<noteq> lap_cycle l" "lap_cycle l \<noteq> lap_cycle (Suc l)" "lap_cycle l = 0 \<longleftrightarrow> odd l"
  by (simp_all add: lap_cycle_def)

lemma fetch_step:
  assumes "kbd_ring k s" "j \<le> k" "k \<le> j + 30"
  defines "cells \<equiv> cell (usb_kbd_ep1_ring s) (x_ram s)"
  shows "controller_fetch (x_phys s (usb_kbd_ep1_ring s)) cells (fetch_pos j) =
    (if j < k then Some (trb_bytes (kbd_trb s (lap_cycle (j div 31))), fetch_pos (Suc j)) else None)"
proof -
  have c: "i < 31 \<Longrightarrow> cells i = (if i < k then trb_bytes (kbd_trb s (lap_cycle ((k - 1 - i) div 31))) else replicate 16 0)"
    and l: "31 \<le> k \<Longrightarrow> cells 31 = trb_bytes (link_trb (x_phys s (usb_kbd_ep1_ring s)) (lap_cycle (k div 31 - 1)))" for i
    using assms unfolding kbd_ring_def cells_def by auto
  define i where "i = j mod 31"
  define q where "q = j div 31"
  have j: "j = i + 31 * q" "i < 31" by (simp_all add: i_def q_def)
  have cell_i: "cells i = trb_bytes (kbd_trb s (lap_cycle q)) \<and> owned (lap_cycle q) (cells i)" if "j < k"
  proof -
    have "(k - 1 - i) div 31 = q" using j that assms(3) by (intro div_nat_eqI) auto
    then show ?thesis using c [of i] j that by (auto simp: owned_cases)
  qed
  have no_i: "\<not> owned (lap_cycle q) (cells i)" if "j = k"
  proof (cases q)
    case 0
    then show ?thesis using c [of i] j that by (simp add: owned_cases)
  next
    case (Suc p)
    have "(k - 1 - i) div 31 = p" using j that Suc by (intro div_nat_eqI) auto
    then show ?thesis using c [of i] j that Suc by (auto simp: owned_cases lap_neq)
  qed
  have next_pos: "fetch_pos (Suc j) = (Suc i, lap_cycle q)" by (simp add: fetch_pos_def i_def q_def)
  show ?thesis
  proof (cases "i = 0 \<and> q \<noteq> 0")
    case False
    then have "fetch_pos j = (i, lap_cycle q)"
    proof (cases "j = 0")
      case False
      then have "i \<noteq> 0" using \<open>\<not> (i = 0 \<and> q \<noteq> 0)\<close> j by auto
      then have "(j - 1) mod 31 = i - 1" "(j - 1) div 31 = q"
        using j by (auto intro!: mod_nat_eqI div_nat_eqI)
      then show ?thesis using False \<open>i \<noteq> 0\<close> by (simp add: fetch_pos_def)
    qed (simp add: fetch_pos_def i_def q_def)
    then show ?thesis using cell_i no_i assms(2) next_pos kinds(1) [of s q] by (cases "j = k") (auto simp: controller_fetch_def q_def [symmetric])
  next
    case True
    then obtain p where p: "q = Suc p" by (cases q) auto
    then have j': "j = 31 + 31 * p" "i = 0" using j True by simp_all
    then have pos: "fetch_pos j = (31, lap_cycle p)" by (simp add: fetch_pos_def mod_nat_eqI div_nat_eqI)
    have "k div 31 = q" using j' p assms(2,3) by (intro div_nat_eqI) auto
    then have c31: "cells 31 = trb_bytes (link_trb (x_phys s (usb_kbd_ep1_ring s)) (lap_cycle p))" using l j' p assms(2) by auto
    have "controller_fetch (x_phys s (usb_kbd_ep1_ring s)) cells (31, lap_cycle p) =
        (if \<not> owned (lap_cycle q) (cells 0) then None else Some (cells 0, 1, lap_cycle q))"
      unfolding controller_fetch_def c31 by (simp add: owned_cases kinds p c31)
    then show ?thesis using cell_i no_i assms(2) next_pos j'(2) unfolding pos q_def [symmetric] by (cases "j = k") auto
  qed
qed

section \<open>The command ring\<close>

lemma event_sel [simp]:
  "x_ram (snd (event_ready hw s)) = x_ram s" "cmd_ring_enqueue_ptr (snd (event_ready hw s)) = cmd_ring_enqueue_ptr s"
  "x_ram (snd (take_event hw s)) = x_ram s" "cmd_ring_enqueue_ptr (snd (take_event hw s)) = cmd_ring_enqueue_ptr s"
  by (simp_all add: event_ready_def take_event_def reg_read_def write_erdp_def reg_write64_def do_event_def advance_event_def Let_def)

lemma wait_command_enqueue: "cmd_ring_enqueue_ptr (snd (wait_command n hw s)) = cmd_ring_enqueue_ptr s"
proof (induction n arbitrary: s)
  case (Suc n)
  then show ?case using event_sel(2) [of hw s] event_sel(4) [of hw "snd (event_ready hw s)"] by (simp add: split_beta Let_def)
qed simp

lemma send_enqueue:
  assumes "cmd_ring_enqueue_ptr s = of_nat e" "e \<le> 30"
  shows "cmd_ring_enqueue_ptr (snd (xhci_send_command hw cmd s)) = of_nat (min 30 (Suc e))"
    "e = 30 \<Longrightarrow> xhci_send_command hw cmd s = ((- 1, None), s)"
proof -
  have u: "unat (of_nat e + 1 :: u32) = e + 1"
    using assms(2) unat_of_nat_small [of "e + 1", where 'a = 32] by (simp only: of_nat_add of_nat_1) simp
  then have m: "((of_nat e + 1 :: u32) mod 32 = 31) = (e = 30)" "(of_nat e + 1 :: u32) mod 32 \<noteq> 0"
    using assms(2) by (auto simp: word_unat_eq_iff unat_mod)
  have "(of_nat e + 1 :: u32) = 31 \<longleftrightarrow> e = 30" using u by (auto simp: word_unat_eq_iff)
  with m show "cmd_ring_enqueue_ptr (snd (xhci_send_command hw cmd s)) = of_nat (min 30 (Suc e))"
    using assms by (auto simp: xhci_send_command_def XHCI_CMD_RING_SIZE_def wait_command_enqueue put_def ring_doorbell_def reg_write_def
        do_event_def Let_def add.commute)
  show "xhci_send_command hw cmd s = ((- 1, None), s)" if "e = 30"
    using m that assms(1) by (simp add: xhci_send_command_def XHCI_CMD_RING_SIZE_def)
qed

text \<open>A run of commands, each with what the devices answered during it.\<close>

definition send_all :: "(dev_env \<times> trb) list \<Rightarrow> xhci \<Rightarrow> xhci" where
  "send_all cmds s = fold (\<lambda>(hw, cmd) s. snd (xhci_send_command hw cmd s)) cmds s"

lemma send_all_enqueue:
  "cmd_ring_enqueue_ptr s = of_nat e \<Longrightarrow> e \<le> 30 \<Longrightarrow> cmd_ring_enqueue_ptr (send_all cmds s) = of_nat (min 30 (e + length cmds))"
proof (induction cmds arbitrary: s e)
  case (Cons x xs)
  obtain hw cmd where x: "x = (hw, cmd)" by (cases x)
  have "cmd_ring_enqueue_ptr (send_all xs (snd (xhci_send_command hw cmd s))) = of_nat (min 30 (min 30 (Suc e) + length xs))"
    using send_enqueue(1) [OF Cons.prems] by (intro Cons.IH) simp_all
  moreover have "min 30 (min 30 (Suc e) + length xs) = min 30 (e + length (x # xs))" by simp
  ultimately show ?case unfolding x by (simp add: send_all_def)
qed (simp add: send_all_def)

section \<open>Events at the dequeue pointer\<close>

text \<open>The controller's event with control word \<open>c\<close> and status word \<open>st\<close> lies in the cell at address \<open>a\<close>.\<close>

definition event_in :: "dev_env \<Rightarrow> u64 \<Rightarrow> u32 \<Rightarrow> u32 \<Rightarrow> bool" where
  "event_in hw a c st \<longleftrightarrow> (\<forall>k log. hw k log (Reg (a + 12)) = c \<and> hw k log (Reg (a + 8)) = st)"

definition event_type :: "u32 \<Rightarrow> u32" where "event_type c = drop_bit 10 c AND 0x3F"
definition event_code :: "u32 \<Rightarrow> u32" where "event_code st = drop_bit 24 st AND 0xFF"
definition event_slot :: "u32 \<Rightarrow> u32" where "event_slot c = drop_bit 24 c AND 0xFF"

lemma event_ready_eq:
  "event_in hw (event_at s) c st \<Longrightarrow> event_ready hw s = (c AND 1 = event_ring_cycle_state s, s\<lparr>reads := reads s + 1\<rparr>)"
  by (simp add: event_ready_def event_in_def reg_read_def)

lemma event_at_reads [simp]: "event_at (s\<lparr>reads := n\<rparr>) = event_at s" "event_at (s\<lparr>events := es\<rparr>) = event_at s"
  by (simp_all add: event_at_def)

lemma take_event_eq:
  "event_in hw (event_at s) c st \<Longrightarrow>
     take_event hw s = ((event_type c, event_code st, event_slot c), write_erdp (advance_event (s\<lparr>reads := reads s + 3\<rparr>)))"
  by (simp add: take_event_def event_in_def reg_read_def event_type_def event_code_def event_slot_def numeral_eq_Suc)

text \<open>The store that frees the cell for the controller.\<close>

definition erdp_store :: "xhci \<Rightarrow> machine_event" where
  "erdp_store s = Store (xhci_runtime_regs s + 0x38)
     (bytes64 (x_phys s (trb_at (xhci_event_ring s) ((event_ring_dequeue_ptr s + 1) mod XHCI_EVENT_RING_SIZE)) OR 8))"

lemma consume_sel [simp]:
  "x_ram (write_erdp (advance_event s)) = x_ram s" "x_input (write_erdp (advance_event s)) = x_input s"
  "x_vm (write_erdp (advance_event s)) = x_vm s"
  "events (write_erdp (advance_event s)) = erdp_store s # events s"
  "event_ring_dequeue_ptr (write_erdp (advance_event s)) = (event_ring_dequeue_ptr s + 1) mod XHCI_EVENT_RING_SIZE"
  "cmd_ring_enqueue_ptr (write_erdp (advance_event s)) = cmd_ring_enqueue_ptr s"
  "xhci_event_ring (write_erdp (advance_event s)) = xhci_event_ring s"
  "usb_kbd_slot (write_erdp (advance_event s)) = usb_kbd_slot s"
  "usb_kbd_report_data (write_erdp (advance_event s)) = usb_kbd_report_data s"
  by (simp_all add: write_erdp_def reg_write64_def do_event_def advance_event_def erdp_store_def event_at_def x_phys_def Let_def)

lemma wait_command_now:
  assumes "event_in hw (event_at s) c st" "c AND 1 = event_ring_cycle_state s" "event_type c = TRB_TYPE_COMMAND_COMPLETION_EVENT" "0 < n"
  shows "wait_command n hw s = ((if event_code st = 1 then 0 else - 2, Some (event_code st, event_slot c)),
     write_erdp (advance_event (s\<lparr>reads := reads s + 4\<rparr>)))"
  using assms by (cases n) (simp_all add: event_ready_eq take_event_eq add.commute)

lemma kbd_ring_cong:
  "usb_kbd_ep1_configured s' = usb_kbd_ep1_configured s \<Longrightarrow> usb_kbd_slot s' = usb_kbd_slot s \<Longrightarrow>
   usb_kbd_ep1_enqueue s' = usb_kbd_ep1_enqueue s \<Longrightarrow> usb_kbd_ep1_cycle s' = usb_kbd_ep1_cycle s \<Longrightarrow>
   usb_kbd_ep1_ring s' = usb_kbd_ep1_ring s \<Longrightarrow> usb_kbd_report_data s' = usb_kbd_report_data s \<Longrightarrow>
   x_ram s' = x_ram s \<Longrightarrow> x_vm s' = x_vm s \<Longrightarrow> kbd_ring k s' = kbd_ring k s"
  by (simp add: kbd_ring_def kbd_trb_def x_phys_def)

lemma queue_other:
  assumes "usb_kbd_ep1_configured s" "usb_kbd_slot s \<noteq> 0"
  shows "events (xhci_queue_kbd_transfer s) = Store (xhci_doorbell_regs s + 4 * ucast (usb_kbd_slot s)) (bytes32 3) # events s"
    "x_input (xhci_queue_kbd_transfer s) = x_input s" "event_at (xhci_queue_kbd_transfer s) = event_at s"
    "event_ring_cycle_state (xhci_queue_kbd_transfer s) = event_ring_cycle_state s"
  using assms by (simp_all add: xhci_queue_kbd_transfer_def put_def ring_doorbell_def reg_write_def do_event_def event_at_def Let_def)

lemma bytes32_list: "bytes32 v = [of_nat (unat v), of_nat (unat v div 256), of_nat (unat v div 256 div 256), of_nat (unat v div 256 div 256 div 256)]"
proof -
  have "le_bytes (Suc (Suc (Suc (Suc 0)))) n = [of_nat n, of_nat (n div 256), of_nat (n div 256 div 256), of_nat (n div 256 div 256 div 256)]" for n
    by simp
  moreover have "4 = Suc (Suc (Suc (Suc 0)))" by simp
  ultimately show ?thesis unfolding bytes32_def by (simp only:)
qed

lemma bytes32_head: "bytes32 v ! 0 = ucast v"
proof -
  have "bytes32 v ! 0 = of_nat (unat v)" unfolding bytes32_list by simp
  then show ?thesis by (simp only: of_nat_unat)
qed

section \<open>Properties\<close>

text \<open>C27. The keyboard ring is a queue: when the driver has queued \<open>k\<close> transfers on the fresh ring and a
  controller that follows the specification has fetched \<open>j\<close> of them, with at most 30 pending, the
  controller next finds a transfer of eight bytes into the report buffer if one is pending, and
  nothing otherwise, over any number of laps.\<close>

theorem kbd_ring_is_queue:
  assumes "kbd_ring 0 s" "j \<le> k" "k \<le> j + 30"
  shows "let s' = (xhci_queue_kbd_transfer ^^ k) s in
    controller_fetch (x_phys s' (usb_kbd_ep1_ring s')) (cell (usb_kbd_ep1_ring s') (x_ram s')) (fetch_pos j) =
      (if j < k then Some (trb_bytes (kbd_trb s' (lap_cycle (j div 31))), fetch_pos (Suc j)) else None)"
  unfolding Let_def by (rule fetch_step [OF kbd_ring_run [OF assms(1)] assms(2,3)])

definition demo_xhci :: xhci where
  "demo_xhci = \<lparr>reads = 0, events = [],
     x_vm = demo_vm, x_ram = (\<lambda>_. 0), x_input = boot_input, x_nodes = \<lparr>nvnode_pool = [], usb_device_pool = []\<rparr>,
     xhci_cmd_ring = 0xFFFF800000001000, xhci_event_ring_seg_table = 0xFFFF800000002000, xhci_event_ring = 0xFFFF800000003000,
     xhci_dcbaap_array = 0xFFFF800000004000, xhci_device_context_pool = 0xFFFF800000100000,
     xhci_input_context_pool = 0xFFFF800000200000, xhci_ep_transfer_rings = 0xFFFF800000300000,
     xhci_cap_regs = 0xFFFFFFFF80000000, xhci_op_regs = 0xFFFFFFFF80000020, xhci_doorbell_regs = 0xFFFFFFFF80002000,
     xhci_runtime_regs = 0xFFFFFFFF80001000, cmd_ring_enqueue_ptr = 0, cmd_ring_cycle_state = 1, event_ring_dequeue_ptr = 31,
     event_ring_cycle_state = 1, usb_kbd_slot = 1, usb_kbd_max_packet = 8, usb_kbd_port_speed = 1, usb_kbd_port_id = 2,
     usb_kbd_ep1_configured = True, usb_kbd_ep1_ring = 0xFFFF800000005000, usb_kbd_ep1_enqueue = 0, usb_kbd_ep1_cycle = 1,
     usb_kbd_report_data = 0xFFFF800000006000, usb_desc_buf = 0xFFFF800000007000\<rparr>"

lemma demo_kbd_ring: "kbd_ring 0 demo_xhci"
proof -
  have "cell r (\<lambda>_. 0) i = replicate 16 0" for r i by (intro nth_equalityI) (simp_all add: cell_def)
  then show ?thesis by (simp add: kbd_ring_def demo_xhci_def)
qed

theorem kbd_ring_is_queue_witness:
  "\<exists>b p. let s' = (xhci_queue_kbd_transfer ^^ 100) demo_xhci in
     controller_fetch (x_phys s' (usb_kbd_ep1_ring s')) (cell (usb_kbd_ep1_ring s') (x_ram s')) (fetch_pos 99) = Some (b, p)"
  using kbd_ring_is_queue [OF demo_kbd_ring, of 99 100] by (auto simp: Let_def)

text \<open>C30. A command is put into its cell with the cycle bit of the lap before the doorbell rings, and
  the completion event at the dequeue pointer gives its result: the event is consumed, and its
  cell handed back to the controller.\<close>

theorem command_completes:
  assumes "cmd_ring_enqueue_ptr s = of_nat e" "e < 30"
    and "event_in hw (event_at s) c st" "c AND 1 = event_ring_cycle_state s" "event_type c = TRB_TYPE_COMMAND_COMPLETION_EVENT"
  shows "\<exists>s'. xhci_send_command hw cmd s = ((if event_code st = 1 then 0 else - 2, Some (event_code st, event_slot c)), s') \<and>
    cell (xhci_cmd_ring s) (x_ram s') e =
      trb_bytes (cmd\<lparr>t_control := if cmd_ring_cycle_state s \<noteq> 0 then t_control cmd OR 1 else t_control cmd AND NOT 1\<rparr>) \<and>
    events s' = erdp_store s # Store (xhci_doorbell_regs s) (bytes32 0) # events s \<and>
    cmd_ring_enqueue_ptr s' = of_nat (Suc e) \<and>
    event_ring_dequeue_ptr s' = (event_ring_dequeue_ptr s + 1) mod XHCI_EVENT_RING_SIZE"
proof -
  let ?ctrl = "if cmd_ring_cycle_state s \<noteq> 0 then t_control cmd OR 1 else t_control cmd AND NOT 1"
  define s1 where "s1 = ring_doorbell 0 0 ((put (trb_at (xhci_cmd_ring s) (of_nat e)) (trb_bytes (cmd\<lparr>t_control := ?ctrl\<rparr>)) s)
    \<lparr>cmd_ring_enqueue_ptr := of_nat (Suc e)\<rparr>)"
  have u: "unat (of_nat (Suc e) :: u32) = Suc e" using assms(2) by (intro unat_of_nat_small) simp
  then have m: "(of_nat (Suc e) :: u32) mod 32 \<noteq> 31" "(of_nat (Suc e) :: u32) mod 32 \<noteq> 0" "(of_nat (Suc e) :: u32) \<noteq> 31"
    using assms(2) by (auto simp: word_unat_eq_iff unat_mod simp del: of_nat_Suc)
  have send: "xhci_send_command hw cmd s = wait_command 2000000 hw s1"
    using m assms(1) unfolding xhci_send_command_def s1_def XHCI_CMD_RING_SIZE_def by (simp add: put_def Let_def add.commute)
  have e1: "event_at s1 = event_at s" "event_ring_cycle_state s1 = event_ring_cycle_state s" "erdp_store s1 = erdp_store s"
    by (simp_all add: s1_def event_at_def erdp_store_def x_phys_def put_def ring_doorbell_def reg_write_def do_event_def)
  have "wait_command 2000000 hw s1 = ((if event_code st = 1 then 0 else - 2, Some (event_code st, event_slot c)),
      write_erdp (advance_event (s1\<lparr>reads := reads s1 + 4\<rparr>)))"
    using assms(3-5) e1 by (intro wait_command_now) simp_all
  moreover have "erdp_store (s1\<lparr>reads := reads s1 + 4\<rparr>) = erdp_store s1" by (simp add: erdp_store_def x_phys_def)
  moreover have "cell (xhci_cmd_ring s) (x_ram s1) e = trb_bytes (cmd\<lparr>t_control := ?ctrl\<rparr>)"
    using assms(2) by (simp add: s1_def put_def ring_doorbell_def reg_write_def do_event_def cell_store)
  moreover have "events s1 = Store (xhci_doorbell_regs s) (bytes32 0) # events s" "cmd_ring_enqueue_ptr s1 = of_nat (Suc e)"
    "event_ring_dequeue_ptr s1 = event_ring_dequeue_ptr s"
    by (simp_all add: s1_def put_def ring_doorbell_def reg_write_def do_event_def)
  ultimately show ?thesis unfolding send using e1(3) by auto
qed

theorem command_completes_witness:
  "\<exists>s'. xhci_send_command (\<lambda>k log r. if r = Reg 0xFFFF8000000031FC then 0x05008401 else if r = Reg 0xFFFF8000000031F8 then 0x01000000 else 0)
     (slot_command 0 0 TRB_TYPE_ENABLE_SLOT) demo_xhci = ((0, Some (1, 5)), s') \<and> event_ring_dequeue_ptr s' = 0"
proof -
  let ?hw = "\<lambda>(k :: nat) (log :: machine_event list) r. if r = Reg 0xFFFF8000000031FC then 0x05008401
    else if r = Reg 0xFFFF8000000031F8 then 0x01000000 else (0 :: u32)"
  have e: "cmd_ring_enqueue_ptr demo_xhci = of_nat 0" "event_ring_cycle_state demo_xhci = 1" "event_ring_dequeue_ptr demo_xhci = 31"
    by (simp_all add: demo_xhci_def)
  have a: "event_at demo_xhci = 0xFFFF8000000031F0" by (simp add: event_at_def trb_at_def demo_xhci_def)
  have h: "event_in ?hw (event_at demo_xhci) 0x05008401 0x01000000" by (simp add: event_in_def a)
  have f: "event_type 0x05008401 = TRB_TYPE_COMMAND_COMPLETION_EVENT" "event_code 0x01000000 = 1" "event_slot 0x05008401 = 5"
    by (simp_all add: event_type_def event_code_def event_slot_def TRB_TYPE_COMMAND_COMPLETION_EVENT_def)
  have c: "(0x05008401 :: u32) AND 1 = event_ring_cycle_state demo_xhci" by (simp add: e)
  from command_completes [OF e(1) _ h c f(1), of "slot_command 0 0 TRB_TYPE_ENABLE_SLOT"] show ?thesis
    by (auto simp: f e XHCI_EVENT_RING_SIZE_def)
qed

text \<open>The command ring serves 30 commands and no more: behind them every command fails without
  being tried, and the wrap of the ring is never reached.\<close>

theorem command_ring_runs_dry:
  assumes "30 \<le> length cmds"
  shows "let s' = send_all cmds (xhci_init_cmd_ring s) in
    cmd_ring_enqueue_ptr s' = 30 \<and> xhci_send_command hw cmd s' = ((- 1, None), s')"
proof -
  have "cmd_ring_enqueue_ptr (xhci_init_cmd_ring s) = of_nat 0"
    by (simp add: xhci_init_cmd_ring_def clear_def put_def reg_write64_def do_event_def Let_def)
  from send_all_enqueue [OF this, of cmds] assms
  have e: "cmd_ring_enqueue_ptr (send_all cmds (xhci_init_cmd_ring s)) = of_nat 30" by (simp add: min_def)
  show ?thesis using send_enqueue(2) [OF e] e by (simp add: Let_def)
qed

theorem command_ring_runs_dry_witness:
  "let s' = send_all (replicate 31 (\<lambda>_ _ _. 0x8401, slot_command 0 0 TRB_TYPE_ENABLE_SLOT)) (xhci_init_cmd_ring demo_xhci) in
     xhci_send_command (\<lambda>_ _ _. 0x8401) (slot_command 0 0 TRB_TYPE_ENABLE_SLOT) s' = ((- 1, None), s')"
  using command_ring_runs_dry [of "replicate 31 (\<lambda>_ _ _. 0x8401, slot_command 0 0 TRB_TYPE_ENABLE_SLOT)" demo_xhci
      "\<lambda>_ _ _. 0x8401" "slot_command 0 0 TRB_TYPE_ENABLE_SLOT"] by (simp add: Let_def)

text \<open>C29. A report that has arrived is decoded once: when the event at the dequeue pointer completes a
  transfer of the keyboard and no event follows it, polling hands the eight bytes of the buffer to the
  decoder, frees the event's cell, and queues one more transfer, so the number of pending
  transfers stays the same.\<close>

theorem kbd_poll_delivers_report:
  assumes "kbd_ring k s" "xhci_op_regs s \<noteq> 0"
    and "event_in hw (event_at s) c st" "c AND 1 = event_ring_cycle_state s"
    and "event_type c = TRB_TYPE_TRANSFER_EVENT" "event_slot c = usb_kbd_slot s" "event_code st = 1"
    and "event_in hw (event_at (advance_event s)) c' st'" "c' AND 1 \<noteq> event_ring_cycle_state (advance_event s)"
    and "\<forall>k log. hw k log (Reg (usb_kbd_report_data s)) = lo \<and> hw k log (Reg (usb_kbd_report_data s + 4)) = hi"
  shows "let s' = usb_kbd_poll hw s in
    x_input s' = usb_kbd_process_report \<lparr>r_modifiers = ucast lo, r_keycodes = drop 2 (bytes32 lo @ bytes32 hi)\<rparr> (x_input s) \<and>
    kbd_ring (Suc k) s' \<and>
    events s' = Store (xhci_doorbell_regs s + 4 * ucast (usb_kbd_slot s)) (bytes32 3) # erdp_store s # events s"
proof -
  let ?rep = "\<lparr>r_modifiers = ucast lo, r_keycodes = drop 2 (bytes32 lo @ bytes32 hi)\<rparr>"
  define s2 where "s2 = write_erdp (advance_event (s\<lparr>reads := reads s + 4\<rparr>))"
  define s4 where "s4 = s2\<lparr>reads := reads s2 + 2, x_input := usb_kbd_process_report ?rep (x_input s)\<rparr>"
  let ?s5 = "xhci_queue_kbd_transfer s4"
  have cfg: "usb_kbd_ep1_configured s" "usb_kbd_slot s \<noteq> 0" using assms(1) by (simp_all add: kbd_ring_def)
  have flds: "usb_kbd_ep1_configured s4 = usb_kbd_ep1_configured s" "usb_kbd_slot s4 = usb_kbd_slot s"
    "usb_kbd_ep1_enqueue s4 = usb_kbd_ep1_enqueue s" "usb_kbd_ep1_cycle s4 = usb_kbd_ep1_cycle s" "usb_kbd_ep1_ring s4 = usb_kbd_ep1_ring s"
    "usb_kbd_report_data s4 = usb_kbd_report_data s" "x_ram s4 = x_ram s" "x_vm s4 = x_vm s" "events s4 = erdp_store s # events s"
    "event_at s4 = event_at (advance_event s)" "event_ring_cycle_state s4 = event_ring_cycle_state (advance_event s)"
    "xhci_doorbell_regs s4 = xhci_doorbell_regs s" "x_input s4 = usb_kbd_process_report ?rep (x_input s)"
    by (simp_all add: s4_def s2_def write_erdp_def reg_write64_def do_event_def advance_event_def erdp_store_def event_at_def x_phys_def Let_def)
  have cfg4: "usb_kbd_ep1_configured s4" "usb_kbd_slot s4 \<noteq> 0" using cfg flds by simp_all
  have ring: "kbd_ring (Suc k) ?s5" using assms(1) kbd_ring_cong [of s4 s k] flds by (intro kbd_ring_step) simp
  have rd: "read_report hw s2 = (?rep, s2\<lparr>reads := reads s2 + 2\<rparr>)"
    using assms(10) by (simp add: read_report_def reg_read_def s2_def bytes32_head nth_append)
  have take: "take_event hw (s\<lparr>reads := reads s + 1\<rparr>) = ((event_type c, event_code st, event_slot c), s2)"
    using assms(3) take_event_eq [of hw "s\<lparr>reads := reads s + 1\<rparr>" c st] by (simp add: s2_def add.commute)
  have slot2: "usb_kbd_slot s2 = usb_kbd_slot s" "x_input s2 = x_input s" by (simp_all add: s2_def)
  have "poll_events (Suc (Suc 6)) hw s = poll_events (Suc 6) hw ?s5"
    unfolding poll_events.simps(2) [of "Suc 6"] using assms(4-7) event_ready_eq [OF assms(3)] take rd slot2 by (simp add: s4_def)
  also have "Suc (Suc 6) = 8" by simp
  finally have "poll_events 8 hw s = poll_events (Suc 6) hw ?s5" .
  also have "\<dots> = ?s5\<lparr>reads := reads ?s5 + 1\<rparr>"
    unfolding poll_events.simps(2) [of 6] using event_ready_eq [of hw ?s5 c' st'] assms(8,9) queue_other(3,4) [OF cfg4] flds by simp
  finally have "usb_kbd_poll hw s = ?s5\<lparr>reads := reads ?s5 + 1\<rparr>" using cfg assms(2) by (simp add: usb_kbd_poll_def)
  then show ?thesis using ring queue_other [OF cfg4] flds kbd_ring_cong [of "?s5\<lparr>reads := reads ?s5 + 1\<rparr>" ?s5 "Suc k"]
    by (simp add: Let_def)
qed

text \<open>The event of slot 1 lies in the last cell of the ring, and the next lap has not begun.\<close>

theorem kbd_poll_delivers_report_witness:
  "let s' = usb_kbd_poll (\<lambda>k log r. if r = Reg 0xFFFF8000000031FC then 0x01008001 else if r = Reg 0xFFFF8000000031F8 then 0x01000000
       else if r = Reg 0xFFFF80000000300C then 0x01008001 else if r = Reg 0xFFFF800000006000 then 0x00040002 else 0) demo_xhci in
     x_input s' = usb_kbd_process_report \<lparr>r_modifiers = 2, r_keycodes = [4, 0, 0, 0, 0, 0]\<rparr> boot_input"
proof -
  let ?hw = "\<lambda>(k :: nat) (log :: machine_event list) r. if r = Reg 0xFFFF8000000031FC then 0x01008001
    else if r = Reg 0xFFFF8000000031F8 then 0x01000000 else if r = Reg 0xFFFF80000000300C then 0x01008001
    else if r = Reg 0xFFFF800000006000 then 0x00040002 else (0 :: u32)"
  have a: "event_at demo_xhci = 0xFFFF8000000031F0" "event_at (advance_event demo_xhci) = 0xFFFF800000003000"
    by (simp_all add: event_at_def trb_at_def demo_xhci_def advance_event_def XHCI_EVENT_RING_SIZE_def)
  have d: "xhci_op_regs demo_xhci \<noteq> 0" "event_ring_cycle_state demo_xhci = 1" "usb_kbd_slot demo_xhci = 1"
    "event_ring_cycle_state (advance_event demo_xhci) = 0" "usb_kbd_report_data demo_xhci = 0xFFFF800000006000"
    "x_input demo_xhci = boot_input"
    by (simp_all add: demo_xhci_def advance_event_def XHCI_EVENT_RING_SIZE_def flip_def)
  have "event_in ?hw (event_at demo_xhci) 0x01008001 0x01000000" by (simp add: event_in_def a)
  moreover have "event_in ?hw (event_at (advance_event demo_xhci)) 0x01008001 0" by (simp add: event_in_def a)
  moreover have "event_type 0x01008001 = TRB_TYPE_TRANSFER_EVENT" "event_slot 0x01008001 = usb_kbd_slot demo_xhci" "event_code 0x01000000 = 1"
    by (simp_all add: event_type_def event_code_def event_slot_def TRB_TYPE_TRANSFER_EVENT_def d)
  moreover have "(0x01008001 :: u32) AND 1 = event_ring_cycle_state demo_xhci"
    "(0x01008001 :: u32) AND 1 \<noteq> event_ring_cycle_state (advance_event demo_xhci)" by (simp_all add: d)
  moreover have "\<forall>k log. ?hw k log (Reg (usb_kbd_report_data demo_xhci)) = 0x00040002 \<and> ?hw k log (Reg (usb_kbd_report_data demo_xhci + 4)) = 0"
    by (simp add: d)
  ultimately have "let s' = usb_kbd_poll ?hw demo_xhci in
      x_input s' = usb_kbd_process_report \<lparr>r_modifiers = ucast (0x00040002 :: u32), r_keycodes = drop 2 (bytes32 0x00040002 @ bytes32 0)\<rparr> (x_input demo_xhci)"
    using kbd_poll_delivers_report [OF demo_kbd_ring d(1), of ?hw "0x01008001" "0x01000000" "0x01008001" 0 "0x00040002" 0]
    by (simp only: Let_def simp_thms)
  moreover have "drop 2 (bytes32 0x00040002 @ bytes32 0) = [4, 0, 0, 0, 0, 0]" by (simp add: bytes32_list)
  moreover have "(262146 :: u8) = 2" by (simp add: word_unat_eq_iff)
  ultimately show ?thesis by (simp add: d Let_def)
qed

end
