(* ===== verification/RamTree.thy ===== *)
theory RamTree
  imports VfsProps
begin

text \<open>
  The tree of the RAM file system: a directory block is the association list of its entries in slot
  order, and a system whose root is a RAM file system is a number of nodes with a map from the
  directories to their lists.  Looking up a path and making a directory or a file through \<open>fs/vfs.c\<close> are
  operations on that map.
\<close>

section \<open>Directories as association lists\<close>

definition rdir :: "fs_world \<Rightarrow> nat \<Rightarrow> (string \<times> nat) list \<Rightarrow> bool" where
  "rdir w i es \<longleftrightarrow>
     is_dir (nodes w (RamfsNode i)) \<and> node_data (nodes w (RamfsNode i)) = DirData i \<and>
     op_finddir (nodes w (RamfsNode i)) = Some RamfsFs \<and> op_create (nodes w (RamfsNode i)) = Some RamfsFs \<and>
     op_mkdir (nodes w (RamfsNode i)) = Some RamfsFs \<and> length es \<le> RAMFS_MAX_CHILDREN \<and>
     (\<forall>j < RAMFS_MAX_CHILDREN. ramfs_children w i j = (if j < length es then Some (RamfsNode (snd (es ! j))) else None)) \<and>
     (\<forall>j < length es. ramfs_child_names w i j = fst (es ! j))"

lemma find_map: "List.find P (map f xs) = map_option f (List.find (\<lambda>x. P (f x)) xs)"
  by (induction xs) auto

lemma find_append: "List.find P (xs @ ys) = (case List.find P xs of None \<Rightarrow> List.find P ys | r \<Rightarrow> r)"
  by (induction xs) auto

lemma map_of_find: "map_of es k = map_option (\<lambda>j. snd (es ! j)) (List.find (\<lambda>j. fst (es ! j) = k) [0 ..< length es])"
proof (induction es)
  case (Cons e es)
  have "[0 ..< length (e # es)] = 0 # map Suc [0 ..< length es]" by (simp add: upt_conv_Cons map_Suc_upt del: upt_Suc)
  then show ?case using Cons by (cases e) (simp add: find_map option.map_comp comp_def)
qed simp

lemma rdir_find:
  assumes "rdir w i es"
  shows "ramfs_finddir (RamfsNode i) name w = map_option RamfsNode (map_of es name)"
proof -
  let ?P = "\<lambda>j. ramfs_children w i j \<noteq> None \<and> ramfs_child_names w i j = name"
  note d = assms [unfolded rdir_def]
  have "[0 ..< RAMFS_MAX_CHILDREN] = [0 ..< length es] @ [length es ..< RAMFS_MAX_CHILDREN]"
    using d upt_add_eq_append [of 0 "length es" "RAMFS_MAX_CHILDREN - length es"] by simp
  moreover have "List.find ?P [length es ..< RAMFS_MAX_CHILDREN] = None" using d by (auto simp: find_None_iff)
  moreover have "List.find ?P [0 ..< length es] = List.find (\<lambda>j. fst (es ! j) = name) [0 ..< length es]"
    using d by (intro find_cong) auto
  ultimately have f: "List.find ?P [0 ..< RAMFS_MAX_CHILDREN] = List.find (\<lambda>j. fst (es ! j) = name) [0 ..< length es]"
    by (simp add: find_append split: option.split)
  have "ramfs_finddir (RamfsNode i) name w =
      (case List.find (\<lambda>j. fst (es ! j) = name) [0 ..< length es] of None \<Rightarrow> None | Some j \<Rightarrow> ramfs_children w i j)"
    using d f by (subst ramfs_finddir_spec) auto
  also have "\<dots> = map_option RamfsNode (map_of es name)"
  proof (cases "List.find (\<lambda>j. fst (es ! j) = name) [0 ..< length es]")
    case (Some j)
    then have "j < length es" by (simp add: find_upt_Some)
    with Some d show ?thesis by (simp add: map_of_find)
  qed (simp add: map_of_find)
  finally show ?thesis .
qed

section \<open>Creating\<close>

definition new_node :: "string \<Rightarrow> u32 \<Rightarrow> nat \<Rightarrow> vfs_node" where
  "new_node name flags c = zero_node\<lparr>node_name := take 255 name, node_flags := flags,
     node_data := (if flags AND VFS_DIRECTORY \<noteq> 0 then DirData c else NoData),
     op_finddir := Some RamfsFs, op_readdir := Some RamfsFs, op_create := Some RamfsFs,
     op_mkdir := Some RamfsFs, op_read := Some RamfsFs, op_write := Some RamfsFs\<rparr>"

text \<open>Only the new node and the directory blocks change.\<close>

definition adds_node :: "nat \<Rightarrow> vfs_node \<Rightarrow> fs_world \<Rightarrow> fs_world \<Rightarrow> bool" where
  "adds_node c x w w' \<longleftrightarrow> (\<exists>ch nm. w' = w\<lparr>nodes := (nodes w)(RamfsNode c := x), ramfs_children := ch, ramfs_child_names := nm,
     ramfs_node_count := Suc c\<rparr>)"

lemma ramfs_create_adds:
  assumes d: "rdir w d es" and room: "length es < RAMFS_MAX_CHILDREN" "d < ramfs_node_count w" "ramfs_node_count w < MAX_RAMFS_NODES"
  defines "c \<equiv> ramfs_node_count w"
  shows "\<exists>w'. ramfs_create (RamfsNode d) name flags w = (0, w') \<and> adds_node c (new_node name flags c) w w' \<and>
    rdir w' d (es @ [(take 31 name, c)]) \<and>
    (flags AND VFS_DIRECTORY \<noteq> 0 \<longrightarrow> rdir w' c []) \<and>
    (\<forall>i es'. i \<noteq> d \<longrightarrow> i \<noteq> c \<longrightarrow> rdir w i es' \<longrightarrow> rdir w' i es')"
proof -
  note r = d [unfolded rdir_def]
  have slot: "free_slot RAMFS_MAX_CHILDREN 0 d w = Some (length es)"
    unfolding free_slot_spec add_0 find_upt_Some using r room by auto
  define ch where "ch = ((ramfs_children w)(c := (\<lambda>i. if i < RAMFS_MAX_CHILDREN then None else ramfs_children w c i)))
      (d := (ramfs_children w d)(length es := Some (RamfsNode c)))"
  define nm where "nm = ((ramfs_child_names w)(c := (\<lambda>i. if i < RAMFS_MAX_CHILDREN then [] else ramfs_child_names w c i)))
      (d := (ramfs_child_names w d)(length es := take 31 name))"
  define w' where "w' = w\<lparr>nodes := (nodes w)(RamfsNode c := new_node name flags c), ramfs_children := ch, ramfs_child_names := nm,
      ramfs_node_count := Suc c\<rparr>"
  have "d \<noteq> c" using room by (simp add: c_def)
  then have run: "ramfs_create (RamfsNode d) name flags w = (0, w')"
    using r slot room
    by (simp add: ramfs_create_def ramfs_alloc_node_def Let_def set_node_def w'_def ch_def nm_def new_node_def c_def zero_node_def cong: if_cong)
  have "rdir w' d (es @ [(take 31 name, c)])"
    using r room \<open>d \<noteq> c\<close> by (auto simp: rdir_def w'_def ch_def nm_def nth_append less_Suc_eq)
  moreover have "rdir w' c []" if "flags AND VFS_DIRECTORY \<noteq> 0"
    using that \<open>d \<noteq> c\<close> by (simp add: rdir_def w'_def ch_def nm_def new_node_def is_dir_def)
  moreover have "rdir w' i es'" if "i \<noteq> d" "i \<noteq> c" "rdir w i es'" for i es'
    using that by (simp add: rdir_def w'_def ch_def nm_def)
  moreover have "adds_node c (new_node name flags c) w w'" unfolding adds_node_def w'_def by blast
  ultimately show ?thesis using run by blast
qed

section \<open>The tree\<close>

datatype found = Missing | Found nat | Mounted nat "string list"

text \<open>The lookup along the names, to the first mount point of the set \<open>M\<close>.\<close>

fun tree_find :: "nat set \<Rightarrow> (nat \<rightharpoonup> (string \<times> nat) list) \<Rightarrow> nat \<Rightarrow> string list \<Rightarrow> found" where
  "tree_find M E i [] = Found i"
| "tree_find M E i (x # xs) =
     (case E i of
        None \<Rightarrow> Missing
      | Some es \<Rightarrow>
          (case map_of es x of
             None \<Rightarrow> Missing
           | Some j \<Rightarrow> if j \<in> M then Mounted j xs else tree_find M E j xs))"

text \<open>\<open>c\<close> nodes are in use, \<open>E\<close> gives the entries of the directories among them, and \<open>M\<close> are those other file
  systems are mounted on.\<close>

definition tree_ok :: "fs_world \<Rightarrow> nat \<Rightarrow> (nat \<rightharpoonup> (string \<times> nat) list) \<Rightarrow> nat set \<Rightarrow> bool" where
  "tree_ok w c E M \<longleftrightarrow>
     g_vfs_root w = Some (RamfsNode 0) \<and> ramfs_node_count w = c \<and> E 0 \<noteq> None \<and>
     (\<forall>i es. E i = Some es \<longrightarrow> i < c \<and> rdir w i es \<and> (\<forall>(x, j) \<in> set es. 0 < j \<and> j < c)) \<and>
     (\<forall>i < c. E i = None \<longrightarrow> \<not> is_dir (nodes w (RamfsNode i)) \<and> op_finddir (nodes w (RamfsNode i)) = Some RamfsFs) \<and>
     (\<forall>i < c. 0 < i \<longrightarrow> i \<notin> M \<longrightarrow> node_flags (nodes w (RamfsNode i)) AND VFS_MOUNTPOINT = 0)"

lemma tree_okD:
  assumes "tree_ok w c E M"
  shows "g_vfs_root w = Some (RamfsNode 0)" "ramfs_node_count w = c" "E 0 \<noteq> None"
    and "E i = Some es \<Longrightarrow> i < c" "E i = Some es \<Longrightarrow> rdir w i es" "E i = Some es \<Longrightarrow> (x, j) \<in> set es \<Longrightarrow> 0 < j \<and> j < c"
    and "i < c \<Longrightarrow> E i = None \<Longrightarrow> \<not> is_dir (nodes w (RamfsNode i))"
    and "i < c \<Longrightarrow> E i = None \<Longrightarrow> op_finddir (nodes w (RamfsNode i)) = Some RamfsFs"
    and "i < c \<Longrightarrow> 0 < i \<Longrightarrow> i \<notin> M \<Longrightarrow> node_flags (nodes w (RamfsNode i)) AND VFS_MOUNTPOINT = 0"
  using assms unfolding tree_ok_def by blast+

lemma walk_tree:
  assumes "tree_ok w c E M" "i < c"
  shows "walk_names (Some (RamfsNode i)) xs w =
    (case tree_find M E i xs of Missing \<Rightarrow> Some None | Found j \<Rightarrow> Some (Some (RamfsNode j))
     | Mounted j ys \<Rightarrow> walk_names (enter (RamfsNode j) w) ys w)"
  using assms(2)
proof (induction xs arbitrary: i)
  case (Cons x xs)
  show ?case
  proof (cases "E i")
    case None
    then show ?thesis using tree_okD(7,8) [OF assms(1) Cons.prems None]
      by (simp add: call_finddir_def ramfs_finddir_def)
  next
    case (Some es)
    note d = tree_okD(5) [OF assms(1) Some]
    have op: "op_finddir (nodes w (RamfsNode i)) = Some RamfsFs" using d by (simp add: rdir_def)
    have find: "call_finddir RamfsFs (RamfsNode i) x w = map_option RamfsNode (map_of es x)"
      using rdir_find [OF d] by (simp add: call_finddir_def)
    show ?thesis
    proof (cases "map_of es x")
      case None
      then show ?thesis using op find Some by simp
    next
      case (Some j)
      then have j: "0 < j" "j < c" using tree_okD(6) [OF assms(1) \<open>E i = Some es\<close> map_of_SomeD] by blast+
      show ?thesis
      proof (cases "j \<in> M")
        case True
        then show ?thesis using op find Some \<open>E i = Some es\<close> by simp
      next
        case False
        then have "enter (RamfsNode j) w = Some (RamfsNode j)" using tree_okD(9) [OF assms(1) j(2,1)] by (simp add: enter_def)
        then show ?thesis using op find Some \<open>E i = Some es\<close> False Cons.IH [OF j(2)] by simp
      qed
    qed
  qed
qed simp

lemma resolve_walk:
  assumes "g_vfs_root w = Some root" "\<forall>x \<in> set (path_names p). length x \<le> 255"
  shows "vfs_resolve_path (slash # p) w = walk_names (Some root) (path_names p) w"
  using assms resolve_loop_walk [OF assms(2)] by (auto simp: vfs_resolve_path_def path_names_def)

lemma resolve_tree:
  assumes "tree_ok w c E M" "\<forall>x \<in> set (path_names p). length x \<le> 255"
  shows "vfs_resolve_path (slash # p) w =
    (case tree_find M E 0 (path_names p) of Missing \<Rightarrow> Some None | Found j \<Rightarrow> Some (Some (RamfsNode j))
     | Mounted j ys \<Rightarrow> walk_names (enter (RamfsNode j) w) ys w)"
proof -
  obtain es where "E 0 = Some es" using tree_okD(3) [OF assms(1)] by blast
  then have "0 < c" by (rule tree_okD(4) [OF assms(1)])
  then show ?thesis using resolve_walk [OF tree_okD(1) [OF assms(1)] assms(2)] walk_tree [OF assms(1)] by simp
qed

lemma create_tree:
  assumes t: "tree_ok w c E M" and d: "E d = Some es" and room: "length es < RAMFS_MAX_CHILDREN" "c < MAX_RAMFS_NODES"
    and fl: "flags AND VFS_MOUNTPOINT = 0" and M: "c \<notin> M"
  shows "\<exists>w'. ramfs_create (RamfsNode d) name flags w = (0, w') \<and> adds_node c (new_node name flags c) w w' \<and>
    tree_ok w' (Suc c) (E(d \<mapsto> es @ [(take 31 name, c)], c := (if flags AND VFS_DIRECTORY \<noteq> 0 then Some [] else None))) M"
proof -
  note tD = tree_okD [OF t]
  have dc: "d < c" "d \<noteq> c" using tD(4) [OF d] by simp_all
  obtain w' where w': "ramfs_create (RamfsNode d) name flags w = (0, w')" "adds_node c (new_node name flags c) w w'"
      "rdir w' d (es @ [(take 31 name, c)])" "flags AND VFS_DIRECTORY \<noteq> 0 \<longrightarrow> rdir w' c []"
      "\<forall>i es'. i \<noteq> d \<longrightarrow> i \<noteq> c \<longrightarrow> rdir w i es' \<longrightarrow> rdir w' i es'"
    using ramfs_create_adds [OF tD(5) [OF d] room(1), of name flags] dc room(2) tD(2) by auto
  obtain ch nm where eq: "w' = w\<lparr>nodes := (nodes w)(RamfsNode c := new_node name flags c), ramfs_children := ch, ramfs_child_names := nm,
      ramfs_node_count := Suc c\<rparr>" using w'(2) unfolding adds_node_def by blast
  let ?E = "E(d \<mapsto> es @ [(take 31 name, c)], c := (if flags AND VFS_DIRECTORY \<noteq> 0 then Some [] else None))"
  have dirs: "i < Suc c \<and> rdir w' i es' \<and> (\<forall>(x, j) \<in> set es'. 0 < j \<and> j < Suc c)" if "?E i = Some es'" for i es'
  proof -
    consider "i = c" | "i = d" "i \<noteq> c" | "i \<noteq> c" "i \<noteq> d" by blast
    then show ?thesis
    proof cases
      case 1
      then show ?thesis using that w'(4) by (simp split: if_splits)
    next
      case 2
      then show ?thesis using that w'(3) tD(6) [OF d] dc by (fastforce intro: less_SucI)
    next
      case 3
      then show ?thesis using that w'(5) tD(4,5,6) [of i es'] by (fastforce intro: less_SucI)
    qed
  qed
  have "tree_ok w' (Suc c) ?E M"
    unfolding tree_ok_def
  proof (intro conjI allI impI)
    show "g_vfs_root w' = Some (RamfsNode 0)" "ramfs_node_count w' = Suc c" using tD(1) by (simp_all add: eq)
    show "?E 0 \<noteq> None" using tD(3) dc by (cases "c = 0") auto
    show "i < Suc c" "rdir w' i es'" "\<forall>(x, j) \<in> set es'. 0 < j \<and> j < Suc c" if "?E i = Some es'" for i es'
      using dirs [OF that] by blast+
  next
    fix i assume i: "i < Suc c" "?E i = None"
    show "\<not> is_dir (nodes w' (RamfsNode i))" "op_finddir (nodes w' (RamfsNode i)) = Some RamfsFs"
      using i tD(7,8) [of i] dc by (auto simp: eq new_node_def is_dir_def zero_node_def less_Suc_eq split: if_splits)
  next
    fix i assume "i < Suc c" "0 < i" "i \<notin> M"
    then show "node_flags (nodes w' (RamfsNode i)) AND VFS_MOUNTPOINT = 0"
      using tD(9) [of i] fl by (auto simp: eq new_node_def less_Suc_eq)
  qed
  then show ?thesis using w'(1,2) by blast
qed

section \<open>Paths\<close>

lemma path_names_slash [simp]: "path_names (slash # p) = path_names p" "path_names [] = []"
  by (simp_all add: path_names_def)

lemma split_on_snoc: "slash \<notin> set b \<Longrightarrow> split_on slash (p @ slash # b) = split_on slash p @ [b]"
proof (induction p)
  case Nil
  have "split_on slash b = [b]" using Nil by (induction b) auto
  then show ?case by simp
next
  case (Cons x p)
  have "split_on slash p \<noteq> []" by (subst split_on_takeWhile) simp
  with Cons show ?case by (auto split: list.split)
qed

lemma path_names_snoc: "slash \<notin> set b \<Longrightarrow> b \<noteq> [] \<Longrightarrow> path_names (p @ slash # b) = path_names p @ [b]"
  by (simp add: path_names_def split_on_snoc)

lemma path_names_length: "x \<in> set (path_names p) \<Longrightarrow> length x \<le> length p"
proof -
  have "x \<in> set (split_on slash p) \<Longrightarrow> length x \<le> length p" for x
    by (induction p arbitrary: x) (fastforce split: if_splits list.splits)+
  then show "x \<in> set (path_names p) \<Longrightarrow> length x \<le> length p" by (simp add: path_names_def)
qed

lemma last_slash_none: "slash \<notin> set b \<Longrightarrow> last_slash i acc b = acc"
  by (induction b arbitrary: i) auto

lemma last_slash_snoc: "slash \<notin> set b \<Longrightarrow> last_slash i acc (p @ slash # b) = Some (i + length p)"
  by (induction p arbitrary: i acc) (simp_all add: last_slash_none)

lemma path_parts:
  assumes "slash \<notin> set b" "length p \<le> 255"
  shows "vfs_basename (p @ slash # b) = b" "vfs_dirname (p @ slash # b) 256 = (if p = [] then [slash] else p)"
  using assms by (auto simp: vfs_basename_def vfs_dirname_def last_slash_snoc my_strncpy_def Let_def)

text \<open>The lookup of a path whose names fit.\<close>

lemma resolve_path_tree:
  assumes "tree_ok w c E M" "q \<noteq> []" "hd q = slash" "\<forall>x \<in> set (path_names q). length x \<le> 255"
  shows "vfs_resolve_path q w =
    (case tree_find M E 0 (path_names q) of Missing \<Rightarrow> Some None | Found j \<Rightarrow> Some (Some (RamfsNode j))
     | Mounted j ys \<Rightarrow> walk_names (enter (RamfsNode j) w) ys w)"
  using resolve_tree [OF assms(1), of "tl q"] assms(2-4) by (cases q) auto

lemma tree_find_snoc:
  "tree_find M E i (xs @ ys) =
    (case tree_find M E i xs of Missing \<Rightarrow> Missing | Found d \<Rightarrow> tree_find M E d ys | Mounted j zs \<Rightarrow> Mounted j (zs @ ys))"
  by (induction xs arbitrary: i) (auto split: option.split)

lemma tree_find_less: "tree_ok w c E M \<Longrightarrow> i < c \<Longrightarrow> tree_find M E i xs = Found j \<Longrightarrow> j < c"
proof (induction xs arbitrary: i)
  case (Cons x xs)
  obtain es k where k: "E i = Some es" "map_of es x = Some k" "tree_find M E k xs = Found j"
    using Cons.prems(3) by (auto split: option.splits if_splits)
  have "k < c" using tree_okD(6) [OF Cons.prems(1) k(1) map_of_SomeD [OF k(2)]] by simp
  then show ?case using Cons.IH Cons.prems(1) k(3) by blast
qed simp

text \<open>A new entry hides nothing that was there.\<close>

lemma tree_find_extend:
  assumes t: "tree_ok w c E M" and d: "E d = Some es" and r: "tree_find M E i xs = r" "r \<noteq> Missing" and i: "i < c"
  shows "tree_find M (E(d \<mapsto> es @ [(n, c)], c := x)) i xs = r"
  using r(1) i
proof (induction xs arbitrary: i)
  case (Cons y xs)
  let ?E = "E(d \<mapsto> es @ [(n, c)], c := x)"
  obtain fs k where k: "E i = Some fs" "map_of fs y = Some k" using Cons.prems(1) r(2) by (auto split: option.splits)
  have "k < c" using tree_okD(6) [OF t k(1) map_of_SomeD [OF k(2)]] by simp
  moreover obtain gs where "?E i = Some gs" "map_of gs y = Some k"
    using k Cons.prems(2) d by (cases "i = d") (auto simp: map_add_Some_iff)
  ultimately show ?case using Cons.IH [of k] Cons.prems(1) k by (auto split: if_splits)
qed simp

section \<open>Making a directory\<close>

lemma mkdir_tree:
  assumes t: "tree_ok w c E M" and path: "slash \<notin> set b" "length p \<le> 255" "p = [] \<or> hd p = slash"
    and d: "tree_find M E 0 (path_names p) = Found d" "E d = Some es"
    and room: "length es < RAMFS_MAX_CHILDREN" "c < MAX_RAMFS_NODES" "c \<notin> M"
  shows "\<exists>w'. vfs_mkdir (p @ slash # b) w = Some (0, w') \<and> adds_node c (new_node b VFS_DIRECTORY c) w w' \<and>
    tree_ok w' (Suc c) (E(d \<mapsto> es @ [(take 31 b, c)], c \<mapsto> [])) M"
proof -
  let ?q = "if p = [] then [slash] else p"
  have "\<forall>x \<in> set (path_names ?q). length x \<le> 255" using path(2) by (auto dest!: path_names_length)
  then have res: "vfs_resolve_path ?q w = Some (Some (RamfsNode d))"
    using resolve_path_tree [OF t, of ?q] path(3) d(1) by (auto split: if_splits)
  have fl: "VFS_DIRECTORY AND VFS_MOUNTPOINT = 0" "VFS_DIRECTORY AND VFS_DIRECTORY \<noteq> 0" by (simp_all add: vfs_flag_defs)
  have op: "op_mkdir (nodes w (RamfsNode d)) = Some RamfsFs" using tree_okD(5) [OF t d(2)] by (simp add: rdir_def)
  obtain w' where "ramfs_create (RamfsNode d) b VFS_DIRECTORY w = (0, w')" "adds_node c (new_node b VFS_DIRECTORY c) w w'"
      "tree_ok w' (Suc c) (E(d \<mapsto> es @ [(take 31 b, c)], c \<mapsto> [])) M"
    using create_tree [OF t d(2) room(1,2) fl(1) room(3), of b] fl(2) by auto
  then show ?thesis using res op
    by (simp add: vfs_mkdir_def path_parts [OF path(1,2)] call_mkdir_def ramfs_mkdir_op_def)
qed

section \<open>Creating a file by opening it\<close>

lemma tree_fds: "tree_ok (set_fd fd f w) c E M = tree_ok w c E M"
  by (simp add: tree_ok_def rdir_def set_fd_def)

lemma open_create_tree:
  assumes t: "tree_ok w c E M" and path: "slash \<notin> set b" "b \<noteq> []" "length b \<le> 31" "length p \<le> 223" "p = [] \<or> hd p = slash"
    and d: "tree_find M E 0 (path_names p) = Found d" "E d = Some es" "map_of es b = None"
    and room: "length es < RAMFS_MAX_CHILDREN" "c < MAX_RAMFS_NODES" "c \<notin> M"
    and flags: "flags AND O_CREAT \<noteq> 0" "flags AND O_APPEND = 0"
    and fd: "3 \<le> fd" "fd < MAX_FDS" "fd_refcount (g_fds w fd) = 0"
  shows "\<exists>w1 fd'. vfs_open (p @ slash # b) flags w =
      Some (int fd', set_fd fd' \<lparr>fd_node = Some (RamfsNode c), fd_offset = 0, fd_flags = flags, fd_refcount = 1\<rparr> w1) \<and>
    fd' < MAX_FDS \<and> fd_refcount (g_fds w fd') = 0 \<and> adds_node c (new_node b VFS_FILE c) w w1 \<and>
    tree_ok w1 (Suc c) (E(d \<mapsto> es @ [(b, c)], c := None)) M"
proof -
  let ?q = "if p = [] then [slash] else p" and ?path = "p @ slash # b"
  have short: "\<forall>x \<in> set (path_names ?path). length x \<le> 255" "\<forall>x \<in> set (path_names ?q). length x \<le> 255"
    using path(3,4) by (auto dest!: path_names_length)
  have ne: "?path \<noteq> []" "hd ?path = slash" using path(5) by (cases p; auto)+
  have names: "path_names ?path = path_names p @ [b]" using path(1,2) by (rule path_names_snoc)
  have res: "vfs_resolve_path ?q w = Some (Some (RamfsNode d))"
    using resolve_path_tree [OF t _ _ short(2)] path(5) d(1) by (auto split: if_splits)
  have no: "vfs_resolve_path ?path w = Some None"
    using resolve_path_tree [OF t ne short(1)] d by (simp add: names tree_find_snoc)
  have fl: "VFS_FILE AND VFS_MOUNTPOINT = 0" "VFS_FILE AND VFS_DIRECTORY = 0" by (simp_all add: vfs_flag_defs)
  have op: "op_create (nodes w (RamfsNode d)) = Some RamfsFs" using tree_okD(5) [OF t d(2)] by (simp add: rdir_def)
  obtain w1 where w1: "ramfs_create (RamfsNode d) b VFS_FILE w = (0, w1)" "adds_node c (new_node b VFS_FILE c) w w1"
      "tree_ok w1 (Suc c) (E(d \<mapsto> es @ [(b, c)], c := None)) M"
    using create_tree [OF t d(2) room(1,2) fl(1) room(3), of b] fl(2) path(3) by auto
  have create: "vfs_create ?path w = Some (0, w1)"
    using res op w1(1) path_parts [OF path(1), of p] path(4) by (simp add: vfs_create_def call_create_def)
  have c: "d < c" "d \<noteq> c" using tree_okD(4) [OF t d(2)] by simp_all
  have "0 < c" using c by simp
  have "tree_find M (E(d \<mapsto> es @ [(b, c)], c := None)) 0 (path_names ?path) = Found c"
  proof -
    have "tree_find M (E(d \<mapsto> es @ [(b, c)], c := None)) 0 (path_names p) = Found d"
      by (rule tree_find_extend [OF t d(2,1) _ \<open>0 < c\<close>]) simp
    then show ?thesis using d(3) room(3) c by (simp add: names tree_find_snoc map_add_def)
  qed
  then have again: "vfs_resolve_path ?path w1 = Some (Some (RamfsNode c))"
    using resolve_path_tree [OF w1(3) ne short(1)] by simp
  have op1: "op_open (nodes w1 (RamfsNode c)) = None" "g_fds w1 = g_fds w"
    using w1(2) by (auto simp: adds_node_def new_node_def zero_node_def)
  obtain fd' where slot: "free_fd (MAX_FDS - 3) 3 w1 = Some fd'" "fd' < MAX_FDS" "fd_refcount (g_fds w fd') = 0"
    using fd op1(2) by (cases w1 rule: free_fd_cases) auto
  have "open_node (RamfsNode c) flags w1 =
      Some (int fd', set_fd fd' \<lparr>fd_node = Some (RamfsNode c), fd_offset = 0, fd_flags = flags, fd_refcount = 1\<rparr> w1)"
    using slot(1) op1(1) flags(2) by (simp add: open_node_def)
  then have "vfs_open ?path flags w =
      Some (int fd', set_fd fd' \<lparr>fd_node = Some (RamfsNode c), fd_offset = 0, fd_flags = flags, fd_refcount = 1\<rparr> w1)"
    using no create again flags(1) by (simp add: vfs_open_def)
  then show ?thesis using slot(2,3) w1(2,3) by blast
qed

section \<open>The root file system\<close>

lemma root_mounted:
  assumes "g_mount_count w = 0" "find_fs_type ''ramfs'' w = Some t" "fst_mount (g_fs_types w t) = Some RamfsFs" "ramfs_node_count w = 0"
  shows "\<exists>w' x m ch nm. vfs_mount ''/'' ''ramfs'' w = Some (0, w') \<and> tree_ok w' 1 [0 \<mapsto> []] {} \<and> node_data x = DirData 0 \<and>
    w' = w\<lparr>nodes := (nodes w)(RamfsNode 0 := x), g_mounts := m, g_mount_count := 1, g_vfs_root := Some (RamfsNode 0),
      ramfs_children := ch, ramfs_child_names := nm, ramfs_node_count := 1\<rparr>"
proof -
  define x where "x = zero_node\<lparr>node_name := ''/'', node_flags := VFS_DIRECTORY OR VFS_MOUNTPOINT, node_data := DirData 0,
    op_readdir := Some RamfsFs, op_finddir := Some RamfsFs, op_create := Some RamfsFs, op_mkdir := Some RamfsFs,
    op_read := Some RamfsFs, op_write := Some RamfsFs, node_mount := Some 0\<rparr>"
  define ch where "ch = (ramfs_children w)(0 := (\<lambda>i. if i < RAMFS_MAX_CHILDREN then None else ramfs_children w 0 i))"
  define nm where "nm = (ramfs_child_names w)(0 := (\<lambda>i. if i < RAMFS_MAX_CHILDREN then [] else ramfs_child_names w 0 i))"
  define m where "m = (g_mounts w)(0 := \<lparr>mp_path = ''/'', mp_root = Some (RamfsNode 0), mp_refcount = 0\<rparr>)"
  define w' where "w' = w\<lparr>nodes := (nodes w)(RamfsNode 0 := x), g_mounts := m, g_mount_count := 1, g_vfs_root := Some (RamfsNode 0),
      ramfs_children := ch, ramfs_child_names := nm, ramfs_node_count := 1\<rparr>"
  have "vfs_mount ''/'' ''ramfs'' w = Some (0, w')"
    using assms
    by (simp add: vfs_mount_def call_mount_def ramfs_mount_op_def ramfs_alloc_node_def MAX_MOUNTS_def MAX_RAMFS_NODES_def Let_def
        my_strncpy_def set_node_def x_def ch_def nm_def m_def w'_def zero_node_def vfs_flag_defs cong: if_cong)
  moreover have "tree_ok w' 1 [0 \<mapsto> []] {}"
    by (simp add: tree_ok_def rdir_def w'_def x_def ch_def nm_def is_dir_def zero_node_def vfs_flag_defs)
  ultimately show ?thesis unfolding w'_def
    by (intro exI [of _ w'] exI [of _ x] exI [of _ m] exI [of _ ch] exI [of _ nm]) (simp add: w'_def x_def)
qed

section \<open>Properties\<close>

text \<open>C6. Making a directory: when the parent path leads to a directory with room, \<open>vfs_mkdir\<close> succeeds and
  the path leads to the new directory, unless it led somewhere before; then it still leads there (the
  code does not look for the name, and the new directory can never be reached).  Every
  path that led somewhere leads there still, and the file system remains a tree in which one
  entry has been added at the end of the parent's list.\<close>

theorem vfs_mkdir_extends_tree:
  assumes "tree_ok w c E {}" "slash \<notin> set b" "b \<noteq> []" "length b \<le> 31" "length p \<le> 223" "p = [] \<or> hd p = slash"
    and "tree_find {} E 0 (path_names p) = Found d" "E d = Some es" "length es < RAMFS_MAX_CHILDREN" "c < MAX_RAMFS_NODES"
  shows "\<exists>w'. vfs_mkdir (p @ slash # b) w = Some (0, w') \<and> tree_ok w' (Suc c) (E(d \<mapsto> es @ [(b, c)], c \<mapsto> [])) {} \<and>
    vfs_resolve_path (p @ slash # b) w' =
      Some (Some (RamfsNode (case map_of es b of None \<Rightarrow> c | Some j \<Rightarrow> j))) \<and>
    (\<forall>q n. length q \<le> 255 \<longrightarrow> vfs_resolve_path q w = Some (Some n) \<longrightarrow> vfs_resolve_path q w' = Some (Some n))"
proof -
  let ?E = "E(d \<mapsto> es @ [(b, c)], c \<mapsto> [])" and ?path = "p @ slash # b"
  note t = assms(1)
  obtain w' where w': "vfs_mkdir ?path w = Some (0, w')" "tree_ok w' (Suc c) ?E {}"
    using mkdir_tree [OF t assms(2) _ assms(6-8) assms(9,10)] assms(4,5) by auto
  have c: "d \<noteq> c" "0 < c" using tree_okD(4) [OF t assms(8)] by auto
  have keep: "tree_find {} ?E 0 xs = Found j" if "tree_find {} E 0 xs = Found j" for xs j
    by (rule tree_find_extend [OF t assms(8) that _ c(2)]) simp
  have short: "\<forall>x \<in> set (path_names ?path). length x \<le> 255" using assms(4,5) by (auto dest!: path_names_length)
  have ne: "?path \<noteq> []" "hd ?path = slash" using assms(6) by (cases p; auto)+
  have "tree_find {} ?E 0 (path_names ?path) = Found (case map_of es b of None \<Rightarrow> c | Some j \<Rightarrow> j)"
    using keep [OF assms(7)] c(1) unfolding path_names_snoc [OF assms(2,3)]
    by (cases "map_of es b") (auto simp: tree_find_snoc map_add_def)
  then have new: "vfs_resolve_path ?path w' = Some (Some (RamfsNode (case map_of es b of None \<Rightarrow> c | Some j \<Rightarrow> j)))"
    using resolve_path_tree [OF w'(2) ne short] by simp
  have "vfs_resolve_path q w' = Some (Some n)" if q: "length q \<le> 255" "vfs_resolve_path q w = Some (Some n)" for q n
  proof -
    have qs: "q \<noteq> []" "hd q = slash" using q(2) by (auto simp: vfs_resolve_path_def split: option.splits list.splits if_splits)
    have sh: "\<forall>x \<in> set (path_names q). length x \<le> 255" using q(1) by (auto dest!: path_names_length)
    have "tree_find {} E 0 xs \<noteq> Mounted j ys" for xs j ys
    proof -
      have "tree_find {} E i xs \<noteq> Mounted j ys" for i
        by (induction xs arbitrary: i) (auto split: option.split)
      then show ?thesis .
    qed
    then obtain j where "tree_find {} E 0 (path_names q) = Found j" "n = RamfsNode j"
      using resolve_path_tree [OF t qs sh] q(2) by (auto split: found.splits)
    then show ?thesis using resolve_path_tree [OF w'(2) qs sh] keep by simp
  qed
  then show ?thesis using w' new by blast
qed

definition demo_tree :: fs_world where
  "demo_tree = snd (the (vfs_mount ''/'' ''ramfs'' (ramfs_register empty_world)))"

lemma demo_tree_ok: "tree_ok demo_tree 1 [0 \<mapsto> []] {}"
proof -
  have "find_fs_type ''ramfs'' (ramfs_register empty_world) = Some 0" "fst_mount (g_fs_types (ramfs_register empty_world) 0) = Some RamfsFs"
    "g_mount_count (ramfs_register empty_world) = 0" "ramfs_node_count (ramfs_register empty_world) = 0"
    by (simp_all add: ramfs_register_def vfs_register_filesystem_def empty_world_def MAX_FS_TYPES_def find_fs_type_def my_strncpy_def)
  from root_mounted [OF this(3,1,2,4)] show ?thesis by (auto simp: demo_tree_def)
qed

theorem vfs_mkdir_extends_tree_witness:
  "\<exists>w'. vfs_mkdir ''/System'' demo_tree = Some (0, w') \<and> vfs_resolve_path ''/System'' w' = Some (Some (RamfsNode 1))"
  using vfs_mkdir_extends_tree [OF demo_tree_ok, of "''System''" "[]" 0 "[]"]
  by (auto simp: slash_def RAMFS_MAX_CHILDREN_def MAX_RAMFS_NODES_def)

end
