(* ===== verification/Boot.thy ===== *)
theory Boot
  imports Tar Syscall Format
begin

text \<open>
  The part of \<open>kernel_main\<close> (\<open>core/main.c\<close>) that builds the file system and starts the first program: it
  registers the file systems, mounts the root, unpacks the archive the boot loader passed, makes the
  standard directories, mounts the two others below them, and runs the file \<open>init\<close>, or the init
  shell when there is none.  A boot module is its command line (if any) with its bytes.  The
  messages of the steps are left out.
\<close>

section \<open>Boot modules\<close>

text \<open>The inner loop of \<open>contains_substr\<close>: \<open>sub\<close> stands at the beginning.\<close>

fun at_start :: "string \<Rightarrow> string \<Rightarrow> bool" where
  "at_start [] s = True"
| "at_start (c # sub) [] = False"
| "at_start (c # sub) (d # s) = (d = c \<and> at_start sub s)"

fun contains_substr :: "string \<Rightarrow> string \<Rightarrow> bool" where
  "contains_substr [] sub = False"
| "contains_substr (c # s) sub = (at_start sub (c # s) \<or> contains_substr s sub)"

type_synonym boot_modules = "(string option \<times> u8 list) list"

text \<open>The console keeps still when a module asks for it.\<close>

fun quiet_flag :: "boot_modules \<Rightarrow> bool \<Rightarrow> bool" where
  "quiet_flag [] quiet = quiet"
| "quiet_flag ((cmd, _) # ms) quiet =
     quiet_flag ms (case cmd of Some c \<Rightarrow> if contains_substr c ''quiet'' then True else quiet | None \<Rightarrow> quiet)"

fun find_rootfs :: "boot_modules \<Rightarrow> u8 list option" where
  "find_rootfs [] = None"
| "find_rootfs ((cmd, bytes) # ms) =
     (case cmd of
        Some c \<Rightarrow> if contains_substr c ''rootfs.tar'' \<or> contains_substr c ''.tar'' then Some bytes else find_rootfs ms
      | None \<Rightarrow> find_rootfs ms)"

section \<open>The file system\<close>

definition boot_register :: "fs_world \<Rightarrow> fs_world" where
  "boot_register w = ramfs_register (procfs_register (devfs_register (fat32_register (vfs_init w))))"

definition boot_extract :: "boot_modules \<Rightarrow> fs_world \<Rightarrow> fs_world option" where
  "boot_extract ms w =
     (case find_rootfs ms of
        None \<Rightarrow> Some w
      | Some bytes \<Rightarrow>
          map_option (\<lambda>(_, _, w). w)
            (tar_extract_all bytes rootfs_extract_callback (\<lparr>file_count = 0, dir_count = 0, error_count = 0\<rparr>, w)))"

definition standard_dirs :: "string list" where
  "standard_dirs = [''/System'', ''/System/Rhoudveine'', ''/System/Rhoudveine/Booter'', ''/System/Rhoudveine/Runtime'',
     ''/System/Rhoudveine/Runtime/Device'', ''/System/Rhoudveine/Runtime/Process'']"

primrec make_dirs :: "string list \<Rightarrow> fs_world \<Rightarrow> fs_world option" where
  "make_dirs [] w = Some w"
| "make_dirs (p # ps) w = (case vfs_mkdir p w of None \<Rightarrow> None | Some (_, w) \<Rightarrow> make_dirs ps w)"

definition boot_devices :: "fs_world \<Rightarrow> fs_world option" where
  "boot_devices w =
     do {
       (r, w) \<leftarrow> vfs_mount ''/System/Rhoudveine/Runtime/Device'' ''DeviceFS'' w;
       Some (if r = 0 then
               devfs_add_device ''cpu0'' 0 (devfs_add_device ''eth0'' 0 (devfs_add_device ''vga0'' 0 (devfs_add_device ''ahci0'' 0 w)))
             else w)
     }"

definition boot_nl :: string where "boot_nl = [CHR 0x0A]"

definition boot_processes :: "u64 \<Rightarrow> fs_world \<Rightarrow> fs_world option" where
  "boot_processes cpus w =
     do {
       (r, w) \<leftarrow> vfs_mount ''/System/Rhoudveine/Runtime/Process'' ''ProcessFS'' w;
       if r = 0 then do {
         let w = procfs_add_entry ''init'' (''PID: 1'' @ boot_nl @ ''Name: init'' @ boot_nl @ ''State: Running'' @ boot_nl) w;
         membuf \<leftarrow> sprintf (''MemTotal: %lu MB'' @ boot_nl @ ''MemFree: %lu MB'' @ boot_nl)
                     [NumArg (mm_get_total_memory (fs_pfa w) div (1024 * 1024)), NumArg (mm_get_free_memory (fs_pfa w) div (1024 * 1024))];
         let w = procfs_add_entry ''meminfo'' membuf w;
         cpubuf \<leftarrow> sprintf (''CPU: x86_64'' @ boot_nl @ ''Cores: %d'' @ boot_nl) [NumArg (if 0 <s cpus then cpus else 1)];
         Some (procfs_add_entry ''cpuinfo'' cpubuf w)
       }
       else Some w
     }"

text \<open>\<open>cpus\<close> is \<open>acpi_cpu_count\<close>, extended to 64 bits.\<close>

definition boot_fs :: "boot_modules \<Rightarrow> u64 \<Rightarrow> fs_world \<Rightarrow> fs_world option" where
  "boot_fs ms cpus w =
     do {
       (_, w) \<leftarrow> vfs_mount ''/'' ''ramfs'' (boot_register w);
       w \<leftarrow> boot_extract ms w;
       w \<leftarrow> make_dirs standard_dirs w;
       w \<leftarrow> boot_devices w;
       boot_processes cpus w
     }"

section \<open>The first program\<close>

datatype boot_outcome = RunsProgram u64 u64 u64 | RunsInitShell

definition INIT_MAX_SIZE :: u64 where "INIT_MAX_SIZE = 1024 * 1024"

definition init_path :: string where "init_path = ''/System/Rhoudveine/Booter/init''"

definition run_init :: "sys_env \<Rightarrow> sys_world \<Rightarrow> (boot_outcome \<times> sys_world) option" where
  "run_init e w =
     do {
       (init_fd, fs) \<leftarrow> vfs_open init_path 0 (fs_of w);
       if init_fd \<ge> 0 then do {
         (bytes_read, bytes, fs) \<leftarrow> vfs_read init_fd INIT_MAX_SIZE fs;
         (_, fs) \<leftarrow> vfs_close init_fd fs;
         let w = put_fs fs w in
         if bytes_read > 0 then do {
           (oc, elf) \<leftarrow> elf64_load_and_run (env_smap e) (Some bytes) (env_fb_puts e) (s_elf w);
           Some (case oc of Enter rip rsp rdi \<Rightarrow> RunsProgram rip rsp rdi | ElfError _ \<Rightarrow> RunsInitShell, w\<lparr>s_elf := elf\<rparr>)
         }
         else Some (RunsInitShell, w)
       }
       else Some (RunsInitShell, put_fs fs w)
     }"

definition boot :: "sys_env \<Rightarrow> boot_modules \<Rightarrow> u64 \<Rightarrow> sys_world \<Rightarrow> (boot_outcome \<times> sys_world) option" where
  "boot e ms cpus w = do { fs \<leftarrow> boot_fs ms cpus (fs_of w); run_init e (put_fs fs w) }"

end
