(* ===== verification/RamUnpack.thy ===== *)
theory RamUnpack
  imports RamTree Boot
begin

text \<open>
  Unpacking an archive into the RAM file system, on the tree: a tree is the number of its nodes, the
  entries of its directories and the bytes of its files, and the callback of \<open>kernel_main\<close> is a
  partial function on trees.  It is undefined where a pool runs out, and where a file is empty or does
  not fit.
\<close>

section \<open>What a write leaves alone\<close>

lemma alloc_file_pages_frames:
  "pfa_inv (fs_pfa w) \<Longrightarrow> alloc_file_pages fd k e w = (b, w') \<Longrightarrow>
     low_frames (fs_pfa w') \<subseteq> low_frames (fs_pfa w) \<and>
     card (low_frames (fs_pfa w)) \<le> card (low_frames (fs_pfa w')) + (128 - unat k)"
proof (induction fd k e w rule: alloc_file_pages.induct)
  case (1 fd k e w)
  obtain a p where a: "pfa_alloc_low (fs_pfa w) = (a, p)" by (cases "pfa_alloc_low (fs_pfa w)")
  have p: "pfa_inv p" "low_frames p = low_frames (fs_pfa w) - {a}"
    using low.alloc_inv [OF "1.prems"(1)] low.alloc_frames [OF "1.prems"(1)] a by simp_all
  have c: "card (low_frames (fs_pfa w)) \<le> Suc (card (low_frames p))"
    unfolding p(2) by (metis card_Diff_singleton_if diff_Suc_1 le_SucI le_add_diff_inverse nat_le_linear plus_1_eq_Suc Suc_pred' not_gr_zero zero_le)
  consider "\<not> (k \<le> e \<and> k < 128)" | "k \<le> e \<and> k < 128" "a = 0" | "k \<le> e \<and> k < 128" "a \<noteq> 0" by blast
  then show ?case
  proof cases
    case 1
    then have "w' = w" using "1.prems"(2) by (subst (asm) alloc_file_pages.simps) auto
    then show ?thesis by simp
  next
    case 2
    then have "w' = w\<lparr>fs_pfa := p\<rparr>" using "1.prems"(2) a by (subst (asm) alloc_file_pages.simps) auto
    moreover have "Suc 0 \<le> 128 - unat k" using 2(1) by (auto simp: word_less_nat_alt)
    ultimately show ?thesis using p(2) c by auto
  next
    case 3
    let ?w = "w\<lparr>fs_pfa := p, file_pages := (file_pages w)(fd := (file_pages w fd)(unat k := a + fs_hhdm w))\<rparr>"
    have k: "unat (k + 1) = Suc (unat k)" "unat k < 128" using 3(1) by (simp_all add: word_less_nat_alt unat_word_ariths)
    have "alloc_file_pages fd (k + 1) e ?w = (b, w')"
      using "1.prems"(2) 3 a by (subst (asm) alloc_file_pages.simps) (simp add: Let_def)
    from "1.IH" [OF 3(1) a [symmetric] refl 3(2)] this p(1)
    have "low_frames (fs_pfa w') \<subseteq> low_frames p \<and> card (low_frames p) \<le> card (low_frames (fs_pfa w')) + (128 - unat (k + 1))" by simp
    then show ?thesis using p(2) c k by auto
  qed
qed

lemma ramfs_write_keeps:
  assumes w: "ramfs_write n off data w = Some (r, w')" and reg: "\<not> is_dir (nodes w n)" and inv: "pfa_inv (fs_pfa w)"
    and kind: "node_data (nodes w n) = NoData" "file_data_count w < MAX_RAMFS_FILES"
  shows "\<exists>sz fp np p m. w' = w\<lparr>nodes := (nodes w)(n := (nodes w n)\<lparr>node_data := FileData (file_data_count w), node_size := sz\<rparr>),
      file_pages := fp, file_num_pages := np, file_data_count := Suc (file_data_count w), fs_pfa := p, ram := m\<rparr> \<and>
    low_frames p \<subseteq> low_frames (fs_pfa w) \<and> card (low_frames (fs_pfa w)) \<le> card (low_frames p) + 128"
proof -
  obtain fd w1 where at: "attach_block n w = (fd, w1)" by (cases "attach_block n w")
  let ?y = "(nodes w n)\<lparr>node_data := FileData (file_data_count w)\<rparr>"
  have "w1 = w\<lparr>nodes := (nodes w)(n := ?y), file_pages := file_pages w1, file_num_pages := file_num_pages w1, file_data_count := Suc (file_data_count w)\<rparr>"
    using at kind by (auto simp: attach_block_def Let_def set_node_def)
  then obtain np0 fp0 where w1: "w1 = w\<lparr>nodes := (nodes w)(n := ?y), file_pages := fp0, file_num_pages := np0, file_data_count := Suc (file_data_count w)\<rparr>" ..
  have kind': "node_data (nodes w n) = NoData \<and> file_data_count w < MAX_RAMFS_FILES \<or> (\<exists>fd. node_data (nodes w n) = FileData fd)"
    using kind by simp
  let ?sz = "of_nat (length data) :: u32"
  let ?ep = "ucast ((off + ucast ?sz - 1) div 4096) :: u32"
  obtain b w2 where al: "alloc_file_pages fd (file_num_pages w1 fd) ?ep w1 = (b, w2)"
    by (cases "alloc_file_pages fd (file_num_pages w1 fd) ?ep w1")
  have pfa1: "fs_pfa w1 = fs_pfa w" by (simp add: w1)
  have f: "low_frames (fs_pfa w2) \<subseteq> low_frames (fs_pfa w)" "card (low_frames (fs_pfa w)) \<le> card (low_frames (fs_pfa w2)) + 128"
    using alloc_file_pages_frames [OF _ al] inv pfa1 by auto
  obtain p fp where w2: "w2 = w1\<lparr>fs_pfa := p, file_pages := fp\<rparr>" using alloc_file_pages_frame [OF al] by blast
  have g2: "w2 = w\<lparr>nodes := (nodes w)(n := ?y), file_pages := fp, file_num_pages := np0,
      file_data_count := Suc (file_data_count w), fs_pfa := p, ram := ram w\<rparr>"
    by (simp add: w2 w1)
  show ?thesis
  proof (cases b)
    case False
    then have "w' = w2" using w unfolding ramfs_write_attach [OF reg at kind'] by (simp add: Let_def al)
    with g2 f show ?thesis
      by (intro exI [of _ "node_size (nodes w n)"] exI [of _ fp] exI [of _ np0] exI [of _ p] exI [of _ "ram w"]) (simp add: w2)
  next
    case True
    define w3 where "w3 = (if ?ep \<ge> file_num_pages w2 fd then w2\<lparr>file_num_pages := (file_num_pages w2)(fd := ?ep + 1)\<rparr> else w2)"
    obtain m w4 where wr: "write_pages fd off 0 ?sz data w3 = Some (m, w4)"
      and w': "w' = (if off + ucast m > ucast (node_size (nodes w4 n))
                 then set_node n ((nodes w4 n)\<lparr>node_size := ucast (off + ucast m)\<rparr>) w4 else w4)"
      using w True unfolding ramfs_write_attach [OF reg at kind']
      by (auto simp: Let_def al w3_def split: option.splits)
    have "w3 = w\<lparr>nodes := (nodes w)(n := ?y), file_pages := fp, file_num_pages := file_num_pages w3,
        file_data_count := Suc (file_data_count w), fs_pfa := p, ram := ram w\<rparr>"
      using g2 by (cases "?ep \<ge> file_num_pages w2 fd") (auto simp: w3_def)
    then obtain np where w3: "w3 = w\<lparr>nodes := (nodes w)(n := ?y), file_pages := fp, file_num_pages := np,
        file_data_count := Suc (file_data_count w), fs_pfa := p, ram := ram w\<rparr>" ..
    obtain m' where w4: "w4 = w\<lparr>nodes := (nodes w)(n := ?y), file_pages := fp, file_num_pages := np,
        file_data_count := Suc (file_data_count w), fs_pfa := p, ram := m'\<rparr>"
      using write_pages_frame [OF wr] w3 by auto
    have "\<exists>sz. w' = w\<lparr>nodes := (nodes w)(n := (nodes w n)\<lparr>node_data := FileData (file_data_count w), node_size := sz\<rparr>), file_pages := fp, file_num_pages := np,
        file_data_count := Suc (file_data_count w), fs_pfa := p, ram := m'\<rparr>"
    proof (cases "off + ucast m > ucast (node_size (nodes w4 n))")
      case True
      then have "w' = set_node n ((nodes w4 n)\<lparr>node_size := ucast (off + ucast m)\<rparr>) w4" using w' by simp
      then show ?thesis by (intro exI [of _ "ucast (off + ucast m)"]) (simp add: w4 set_node_def)
    next
      case False
      then have "w' = w4" using w' by simp
      then show ?thesis by (intro exI [of _ "node_size (nodes w n)"]) (simp add: w4)
    qed
    then obtain sz where w': "w' = w\<lparr>nodes := (nodes w)(n := (nodes w n)\<lparr>node_data := FileData (file_data_count w), node_size := sz\<rparr>), file_pages := fp, file_num_pages := np,
        file_data_count := Suc (file_data_count w), fs_pfa := p, ram := m'\<rparr>" ..
    show ?thesis using f
      by (intro exI [of _ sz] exI [of _ fp] exI [of _ np] exI [of _ p] exI [of _ m']) (simp add: w' w2)
  qed
qed

section \<open>Files and their bytes under other changes\<close>

text \<open>Nodes may be added and changed as long as the files keep their data.\<close>

definition keeps_files :: "fs_world \<Rightarrow> fs_world \<Rightarrow> bool" where
  "keeps_files w w' \<longleftrightarrow>
     file_pages w' = file_pages w \<and> file_num_pages w' = file_num_pages w \<and> file_data_count w' = file_data_count w \<and>
     fs_pfa w' = fs_pfa w \<and> ram w' = ram w \<and> fs_hhdm w' = fs_hhdm w \<and>
     (\<forall>n. node_data (nodes w n) = node_data (nodes w' n) \<and> node_size (nodes w n) = node_size (nodes w' n) \<and>
            is_dir (nodes w n) = is_dir (nodes w' n) \<or>
          (\<forall>fd. node_data (nodes w n) \<noteq> FileData fd) \<and> (\<forall>fd. node_data (nodes w' n) \<noteq> FileData fd) \<and>
            (node_data (nodes w' n) = NoData \<longrightarrow> \<not> is_dir (nodes w' n) \<longrightarrow> node_size (nodes w' n) = 0))"

lemma keeps_files_ok:
  assumes "keeps_files w w'" "ramfs_ok w"
  shows "ramfs_ok w'" "contents w' n = contents w n"
proof -
  note k = assms(1) [unfolded keeps_files_def]
  have b: "pages_bound w' = pages_bound w" using k by (simp add: pages_bound_def fun_eq_iff)
  have "pages_inv B w' = pages_inv B w" for B by (rule pages_inv_cong) (use k in simp_all)
  then have inv: "pages_inv (pages_bound w') w'" using ramfs_okD(1) [OF assms(2)] b by simp
  have same: "node_data (nodes w n) = FileData fd \<and> node_size (nodes w' n) = node_size (nodes w n)"
    if "node_data (nodes w' n) = FileData fd" for n fd using k that by metis
  show "ramfs_ok w'"
    unfolding ramfs_ok_def
  proof (intro conjI allI impI)
    show "pages_inv (pages_bound w') w'" by (rule inv)
    fix n fd assume f: "node_data (nodes w' n) = FileData fd"
    show "fd < file_data_count w'" using ramfs_okD(2) [OF assms(2), of n fd] same [OF f] k by simp
    show "unat (node_size (nodes w' n)) \<le> unat (file_num_pages w' fd) * 4096"
      using ramfs_okD(3) [OF assms(2), of n fd] same [OF f] k by simp
    show "n = m" if "node_data (nodes w' m) = FileData fd" for m
      using ramfs_okD(4) [OF assms(2)] same [OF f] same [OF that] by blast
  next
    fix n assume "node_data (nodes w' n) = NoData" "\<not> is_dir (nodes w' n)"
    then show "node_size (nodes w' n) = 0" using k ramfs_okD(5) [OF assms(2), of n] by metis
  qed
  have fb: "fbyte w' = fbyte w" using k by (simp add: fbyte_def fun_eq_iff)
  show "contents w' n = contents w n"
  proof (cases "node_data (nodes w' n)")
    case (FileData fd)
    then show ?thesis using same [OF FileData] by (simp add: contents_def fb)
  next
    case NoData
    then have "\<forall>fd. node_data (nodes w n) \<noteq> FileData fd" using k by (metis fs_data.distinct)
    with NoData show ?thesis by (auto simp: contents_def split: fs_data.split)
  next
    case (DirData i)
    then have "\<forall>fd. node_data (nodes w n) \<noteq> FileData fd" using k by (metis fs_data.distinct)
    with DirData show ?thesis by (auto simp: contents_def split: fs_data.split)
  next
    case (DeviceData i)
    then have "\<forall>fd. node_data (nodes w n) \<noteq> FileData fd" using k by (metis fs_data.distinct)
    with DeviceData show ?thesis by (auto simp: contents_def split: fs_data.split)
  next
    case (TextData i)
    then have "\<forall>fd. node_data (nodes w n) \<noteq> FileData fd" using k by (metis fs_data.distinct)
    with TextData show ?thesis by (auto simp: contents_def split: fs_data.split)
  qed
qed

lemma adds_node_keeps_files:
  assumes "adds_node c x w w'" "node_data (nodes w (RamfsNode c)) = NoData" "node_size x = 0" "\<forall>fd. node_data x \<noteq> FileData fd"
  shows "keeps_files w w'"
proof -
  obtain ch nm where w': "w' = w\<lparr>nodes := (nodes w)(RamfsNode c := x), ramfs_children := ch, ramfs_child_names := nm, ramfs_node_count := Suc c\<rparr>"
    using assms(1) unfolding adds_node_def by blast
  show ?thesis
    unfolding keeps_files_def
  proof (intro conjI allI)
    fix n
    show "node_data (nodes w n) = node_data (nodes w' n) \<and> node_size (nodes w n) = node_size (nodes w' n) \<and>
            is_dir (nodes w n) = is_dir (nodes w' n) \<or>
          (\<forall>fd. node_data (nodes w n) \<noteq> FileData fd) \<and> (\<forall>fd. node_data (nodes w' n) \<noteq> FileData fd) \<and>
            (node_data (nodes w' n) = NoData \<longrightarrow> \<not> is_dir (nodes w' n) \<longrightarrow> node_size (nodes w' n) = 0)"
      using assms(2-4) by (cases "n = RamfsNode c") (simp_all add: w')
  qed (simp_all add: w')
qed

section \<open>Trees with files\<close>

record ram_tree =
  rt_count :: nat
  rt_dirs :: "nat \<rightharpoonup> (string \<times> nat) list"
  rt_files :: "(nat \<times> u8 list) list"    \<comment> \<open>latest first\<close>

definition empty_tree :: ram_tree where
  "empty_tree = \<lparr>rt_count = 1, rt_dirs = [0 \<mapsto> []], rt_files = []\<rparr>"

text \<open>A path this model follows: absolute, not too long, and without a slash at its end.\<close>

definition plain_path :: "string \<Rightarrow> bool" where
  "plain_path p \<longleftrightarrow> p \<noteq> [] \<and> hd p = slash \<and> last p \<noteq> slash \<and> length p \<le> 223"

text \<open>The directory the new entry of a path goes to, with its entries.\<close>

definition rt_parent :: "string \<Rightarrow> ram_tree \<Rightarrow> (nat \<times> (string \<times> nat) list) option" where
  "rt_parent p t =
     (if \<not> plain_path p \<or> rt_count t \<ge> MAX_RAMFS_NODES then None
      else case tree_find {} (rt_dirs t) 0 (butlast (path_names p)) of
        Found d \<Rightarrow> (case rt_dirs t d of None \<Rightarrow> None | Some es \<Rightarrow> if length es < RAMFS_MAX_CHILDREN then Some (d, es) else None)
      | _ \<Rightarrow> None)"

definition rt_mkdir :: "string \<Rightarrow> ram_tree \<Rightarrow> ram_tree option" where
  "rt_mkdir p t =
     (case rt_parent p t of
        None \<Rightarrow> None
      | Some (d, es) \<Rightarrow>
          Some (t\<lparr>rt_dirs := (rt_dirs t)(d \<mapsto> es @ [(take 31 (last (path_names p)), rt_count t)], rt_count t \<mapsto> []),
                  rt_count := Suc (rt_count t)\<rparr>))"

definition rt_file :: "string \<Rightarrow> u8 list \<Rightarrow> ram_tree \<Rightarrow> ram_tree option" where
  "rt_file p data t =
     (case rt_parent p t of
        None \<Rightarrow> None
      | Some (d, es) \<Rightarrow>
          let b = last (path_names p) in
          if length b > 31 \<or> map_of es b \<noteq> None \<or> data = [] \<or> length data > 524288 \<or> length (rt_files t) \<ge> MAX_RAMFS_FILES then None
          else Some (t\<lparr>rt_dirs := (rt_dirs t)(d \<mapsto> es @ [(b, rt_count t)], rt_count t := None),
                       rt_count := Suc (rt_count t), rt_files := (rt_count t, data) # rt_files t\<rparr>))"

text \<open>One entry of an archive, and all of them.\<close>

definition entry_path :: "tar_entry \<Rightarrow> string" where
  "entry_path e = (let n = entry_name e; n = (if take 2 n = ''./'' then drop 2 n else n) in if n \<noteq> [] \<and> hd n = slash then n else slash # n)"

definition no_last_slash :: "string \<Rightarrow> string" where "no_last_slash p = (if last p = slash then butlast p else p)"

text \<open>What stands before the last slash.\<close>

definition dir_part :: "string \<Rightarrow> string" where "dir_part p = butlast (rev (dropWhile (\<lambda>c. c \<noteq> slash) (rev p)))"

definition rt_entry :: "tar_entry \<Rightarrow> ram_tree \<Rightarrow> ram_tree option" where
  "rt_entry e t =
     (let p = entry_path e in
      if entry_name e = ''.'' \<or> entry_name e = ''./'' then Some t
      else if te_type e = 0x35 then (if no_last_slash p = [] \<or> no_last_slash p = ''/'' then Some t else rt_mkdir (no_last_slash p) t)
      else case (if dir_part p = [] then Some t else rt_mkdir (dir_part p) t) of
        None \<Rightarrow> None
      | Some t \<Rightarrow> rt_file p (te_data e) t)"

primrec rt_unpack :: "tar_entry list \<Rightarrow> ram_tree \<Rightarrow> ram_tree option" where
  "rt_unpack [] t = Some t"
| "rt_unpack (e # es) t = (case rt_entry e t of None \<Rightarrow> None | Some t \<Rightarrow> rt_unpack es t)"

primrec rt_make_dirs :: "string list \<Rightarrow> ram_tree \<Rightarrow> ram_tree option" where
  "rt_make_dirs [] t = Some t"
| "rt_make_dirs (p # ps) t = (case rt_mkdir p t of None \<Rightarrow> None | Some t \<Rightarrow> rt_make_dirs ps t)"

text \<open>The system holds the tree; \<open>N\<close> frames were free before its first file.\<close>

definition regular :: "vfs_node \<Rightarrow> bool" where
  "regular x \<longleftrightarrow> \<not> is_dir x \<and> op_open x = None \<and> op_close x = None \<and> op_read x = Some RamfsFs \<and> op_write x = Some RamfsFs"

definition holds_tree :: "nat \<Rightarrow> fs_world \<Rightarrow> ram_tree \<Rightarrow> bool" where
  "holds_tree N w t \<longleftrightarrow>
     tree_ok w (rt_count t) (rt_dirs t) {} \<and> ramfs_ok w \<and> file_data_count w = length (rt_files t) \<and>
     N \<le> card (low_frames (fs_pfa w)) + 128 * length (rt_files t) \<and>
     (\<forall>i < rt_count t. rt_dirs t i = None \<longrightarrow>
        regular (nodes w (RamfsNode i)) \<and> map_of (rt_files t) i = Some (contents w (RamfsNode i))) \<and>
     (\<forall>i \<ge> rt_count t. nodes w (RamfsNode i) = zero_node) \<and>
     (\<forall>j. 3 \<le> j \<longrightarrow> j < MAX_FDS \<longrightarrow> fd_refcount (g_fds w j) = 0)"

lemma holds_treeD:
  assumes "holds_tree N w t"
  shows "tree_ok w (rt_count t) (rt_dirs t) {}" "ramfs_ok w" "file_data_count w = length (rt_files t)"
    and "N \<le> card (low_frames (fs_pfa w)) + 128 * length (rt_files t)"
    and "i < rt_count t \<Longrightarrow> rt_dirs t i = None \<Longrightarrow> regular (nodes w (RamfsNode i))"
    and "i < rt_count t \<Longrightarrow> rt_dirs t i = None \<Longrightarrow> map_of (rt_files t) i = Some (contents w (RamfsNode i))"
    and "rt_count t \<le> i \<Longrightarrow> nodes w (RamfsNode i) = zero_node"
    and "3 \<le> j \<Longrightarrow> j < MAX_FDS \<Longrightarrow> fd_refcount (g_fds w j) = 0"
  using assms unfolding holds_tree_def by blast+

text \<open>The rest of the system.\<close>

definition same_beside :: "fs_world \<Rightarrow> fs_world \<Rightarrow> bool" where
  "same_beside w w' \<longleftrightarrow>
     g_mounts w' = g_mounts w \<and> g_mount_count w' = g_mount_count w \<and> g_fs_types w' = g_fs_types w \<and>
     g_fs_type_count w' = g_fs_type_count w \<and> devfs_children w' = devfs_children w \<and> devfs_node_count w' = devfs_node_count w \<and>
     procfs_children w' = procfs_children w \<and> procfs_content w' = procfs_content w \<and> procfs_node_count w' = procfs_node_count w \<and>
     fs_hhdm w' = fs_hhdm w \<and> low_frames (fs_pfa w') \<subseteq> low_frames (fs_pfa w) \<and>
     (\<forall>n. (\<forall>i. n \<noteq> RamfsNode i) \<longrightarrow> nodes w' n = nodes w n)"

lemma same_beside_refl: "same_beside w w" by (simp add: same_beside_def)

lemma same_beside_trans: "same_beside u v \<Longrightarrow> same_beside v w \<Longrightarrow> same_beside u w"
  unfolding same_beside_def by auto

lemma adds_node_beside: "adds_node c x w w' \<Longrightarrow> same_beside w w'"
  by (auto simp: adds_node_def same_beside_def)

lemma plain_path_split:
  assumes "plain_path p"
  obtains q b where "p = q @ slash # b" "slash \<notin> set b" "b \<noteq> []" "length q \<le> 223" "q = [] \<or> hd q = slash"
    "path_names q = butlast (path_names p)" "b = last (path_names p)"
proof -
  have "slash \<in> set p" using assms by (cases p) (auto simp: plain_path_def)
  then obtain q b where p: "p = q @ slash # b" "slash \<notin> set b" by (meson split_list_last)
  moreover have b: "b \<noteq> []" using assms p(1) by (auto simp: plain_path_def)
  moreover have "length q \<le> 223" "q = [] \<or> hd q = slash" using assms p(1) by (cases q; simp add: plain_path_def)+
  moreover have "path_names p = path_names q @ [b]" unfolding p(1) by (rule path_names_snoc [OF p(2) b])
  ultimately show ?thesis using that by simp
qed

lemma rt_parentD:
  assumes "rt_parent p t = Some (d, es)"
  shows "plain_path p" "rt_count t < MAX_RAMFS_NODES" "tree_find {} (rt_dirs t) 0 (butlast (path_names p)) = Found d"
    "rt_dirs t d = Some es" "length es < RAMFS_MAX_CHILDREN"
  using assms by (auto simp: rt_parent_def split: if_splits found.splits option.splits)

lemma holds_tree_adds:
  assumes h: "holds_tree N w t" and a: "adds_node (rt_count t) x w w'" and x: "node_size x = 0" "\<forall>fd. node_data x \<noteq> FileData fd"
  shows "ramfs_ok w'" "contents w' n = contents w n" "file_data_count w' = length (rt_files t)" "fs_pfa w' = fs_pfa w" "g_fds w' = g_fds w"
    "nodes w' (RamfsNode i) = (if i = rt_count t then x else nodes w (RamfsNode i))"
proof -
  have "node_data (nodes w (RamfsNode (rt_count t))) = NoData" using holds_treeD(7) [OF h order_refl] by (simp add: zero_node_def)
  then have k: "keeps_files w w'" by (rule adds_node_keeps_files [OF a _ x])
  show "ramfs_ok w'" "contents w' n = contents w n" using keeps_files_ok [OF k holds_treeD(2) [OF h]] by simp_all
  show "file_data_count w' = length (rt_files t)" "fs_pfa w' = fs_pfa w" "g_fds w' = g_fds w"
    "nodes w' (RamfsNode i) = (if i = rt_count t then x else nodes w (RamfsNode i))"
    using a holds_treeD(3) [OF h] by (auto simp: adds_node_def)
qed

lemma new_node_fields: "node_size (new_node b f c) = 0" "\<forall>fd. node_data (new_node b f c) \<noteq> FileData fd"
  by (simp_all add: new_node_def zero_node_def)

lemma rt_mkdir_run:
  assumes h: "holds_tree N w t" and r: "rt_mkdir p t = Some t'"
  shows "\<exists>w'. vfs_mkdir p w = Some (0, w') \<and> holds_tree N w' t' \<and> same_beside w w'"
proof -
  obtain d es where d: "rt_parent p t = Some (d, es)" using r by (auto simp: rt_mkdir_def split: option.splits)
  note D = rt_parentD [OF d]
  obtain q b where q: "p = q @ slash # b" "slash \<notin> set b" "b \<noteq> []" "length q \<le> 223" "q = [] \<or> hd q = slash"
    "path_names q = butlast (path_names p)" "b = last (path_names p)" using plain_path_split [OF D(1)] .
  have t': "t' = t\<lparr>rt_dirs := (rt_dirs t)(d \<mapsto> es @ [(take 31 b, rt_count t)], rt_count t \<mapsto> []), rt_count := Suc (rt_count t)\<rparr>"
    using r d q(7) by (simp add: rt_mkdir_def)
  have find: "tree_find {} (rt_dirs t) 0 (path_names q) = Found d" using D(3) q(6) by simp
  obtain w' where w': "vfs_mkdir p w = Some (0, w')" "adds_node (rt_count t) (new_node b VFS_DIRECTORY (rt_count t)) w w'"
      "tree_ok w' (Suc (rt_count t)) ((rt_dirs t)(d \<mapsto> es @ [(take 31 b, rt_count t)], rt_count t \<mapsto> [])) {}"
    using mkdir_tree [OF holds_treeD(1) [OF h] q(2) _ q(5) find D(4,5,2)] q(1,4) by auto
  note A = holds_tree_adds [OF h w'(2) new_node_fields]
  have "holds_tree N w' t'"
    unfolding holds_tree_def
  proof (intro conjI allI impI)
    show "tree_ok w' (rt_count t') (rt_dirs t') {}" using w'(3) by (simp add: t')
    show "ramfs_ok w'" by (rule A(1))
    show "file_data_count w' = length (rt_files t')" using A(3) by (simp add: t')
    show "N \<le> card (low_frames (fs_pfa w')) + 128 * length (rt_files t')" using holds_treeD(4) [OF h] A(4) by (simp add: t')
    fix i assume i: "i < rt_count t'" "rt_dirs t' i = None"
    then have "i < rt_count t" "rt_dirs t i = None" by (auto simp: t' split: if_splits)
    then show "regular (nodes w' (RamfsNode i))" "map_of (rt_files t') i = Some (contents w' (RamfsNode i))"
      using holds_treeD(5,6) [OF h] A(2,6) by (simp_all add: t')
  next
    fix i assume "rt_count t' \<le> i"
    then show "nodes w' (RamfsNode i) = zero_node" using holds_treeD(7) [OF h, of i] A(6) by (simp add: t')
  next
    fix j :: nat assume "3 \<le> j" "j < MAX_FDS"
    then show "fd_refcount (g_fds w' j) = 0" using holds_treeD(8) [OF h] A(5) by simp
  qed
  then show ?thesis using w'(1,2) adds_node_beside by blast
qed

text \<open>A file keeps the tree as it is.\<close>

lemma tree_ok_file:
  assumes "tree_ok w c E M" "g_vfs_root w' = g_vfs_root w" "ramfs_node_count w' = ramfs_node_count w"
    and "ramfs_children w' = ramfs_children w" "ramfs_child_names w' = ramfs_child_names w"
    and "\<forall>i. nodes w' (RamfsNode i) = nodes w (RamfsNode i) \<or>
      E i = None \<and> node_flags (nodes w' (RamfsNode i)) = node_flags (nodes w (RamfsNode i)) \<and>
      op_finddir (nodes w' (RamfsNode i)) = op_finddir (nodes w (RamfsNode i))"
  shows "tree_ok w' c E M"
  unfolding tree_ok_def
proof (intro conjI allI impI)
  note tD = tree_okD [OF assms(1)]
  show "g_vfs_root w' = Some (RamfsNode 0)" "ramfs_node_count w' = c" "E 0 \<noteq> None" using tD(1-3) assms(2,3) by simp_all
  show "i < c" "rdir w' i es" "\<forall>(x, j) \<in> set es. 0 < j \<and> j < c" if "E i = Some es" for i es
  proof -
    show "i < c" "\<forall>(x, j) \<in> set es. 0 < j \<and> j < c" using tD(4,6) that by auto
    have "nodes w' (RamfsNode i) = nodes w (RamfsNode i)" using assms(6) that by (metis option.distinct(1))
    then show "rdir w' i es" using tD(5) [OF that] assms(4,5) by (simp add: rdir_def)
  qed
  show "\<not> is_dir (nodes w' (RamfsNode i))" "op_finddir (nodes w' (RamfsNode i)) = Some RamfsFs" if "i < c" "E i = None" for i
    using tD(7,8) [OF that] assms(6) unfolding is_dir_def by metis+
  show "node_flags (nodes w' (RamfsNode i)) AND VFS_MOUNTPOINT = 0" if "i < c" "0 < i" "i \<notin> M" for i
    using tD(9) [OF that] assms(6) by metis
qed

text \<open>What is written through a new descriptor of a new file.\<close>

lemma write_new_file:
  assumes f: "g_fds w fd = \<lparr>fd_node = Some n, fd_offset = 0, fd_flags = fl, fd_refcount = 1\<rparr>" "fd < MAX_FDS"
    and ok: "ramfs_ok w" and n: "regular (nodes w n)" "node_data (nodes w n) = NoData"
    and data: "data \<noteq> []" "length data \<le> 524288" "file_data_count w < MAX_RAMFS_FILES" "128 \<le> card (low_frames (fs_pfa w))"
  shows "\<exists>w1 w2 w3. vfs_write (int fd) data w = Some (int (length data), w2) \<and> vfs_close (int fd) w2 = Some (0, w3) \<and>
    ramfs_write n 0 data w = Some (int (length data), w1) \<and> (\<exists>g. w3 = set_fd fd g w1 \<and> fd_refcount g = 0) \<and>
    ramfs_ok w1 \<and> contents w1 n = data \<and> (\<forall>m. m \<noteq> n \<longrightarrow> contents w1 m = contents w m)"
proof -
  let ?L = "int (length data)"
  have reg: "\<not> is_dir (nodes w n)" "op_close (nodes w n) = None" "op_write (nodes w n) = Some RamfsFs"
    using n(1) by (simp_all add: regular_def)
  have c0: "contents w n = []" using n(2) by (simp add: contents_def)
  obtain w1 where w1: "ramfs_write n 0 data w = Some (?L, w1)" "ramfs_ok w1" "contents w1 n = data"
      "\<forall>m. m \<noteq> n \<longrightarrow> contents w1 m = contents w m"
    using ramfs_write_splice [OF ok reg(1) _ data(1) _ data(4), of 0] n(2) data(2,3) by (auto simp: c0)
  have inv: "pfa_inv (fs_pfa w)" using pages_invD(1) [OF ramfs_okD(1) [OF ok]] .
  have w1n: "op_close (nodes w1 n) = None" "g_fds w1 = g_fds w"
    using ramfs_write_keeps [OF w1(1) reg(1) inv n(2) data(3)] reg(2) by auto
  define f2 where "f2 = (g_fds w fd)\<lparr>fd_offset := of_nat (length data)\<rparr>"
  have pos: "0 < ?L" using data(1) by simp
  have wr: "vfs_write (int fd) data w = Some (?L, set_fd fd f2 w1)"
    using f reg(3) w1(1) pos w1n(2) by (simp add: vfs_write_def bad_fd_def Let_def call_write_def f2_def)
  have cl: "vfs_close (int fd) (set_fd fd f2 w1) = Some (0, set_fd fd (f2\<lparr>fd_refcount := 0, fd_node := None\<rparr>) (set_fd fd f2 w1))"
    using f w1n(1) by (simp add: vfs_close_def bad_fd_def Let_def set_fd_def f2_def)
  moreover have "set_fd fd g (set_fd fd f2 w1) = set_fd fd g w1" for g by (simp add: set_fd_def)
  ultimately have cl: "vfs_close (int fd) (set_fd fd f2 w1) = Some (0, set_fd fd (f2\<lparr>fd_refcount := 0, fd_node := None\<rparr>) w1)" by simp
  have "\<exists>g. set_fd fd (f2\<lparr>fd_refcount := 0, fd_node := None\<rparr>) w1 = set_fd fd g w1 \<and> fd_refcount g = 0"
    by (rule exI [of _ "f2\<lparr>fd_refcount := 0, fd_node := None\<rparr>"]) simp
  then show ?thesis using wr cl w1 by blast
qed

lemma rt_file_run:
  assumes h: "holds_tree N w t" and r: "rt_file p data t = Some t'" and N: "128 * Suc (length (rt_files t)) \<le> N"
  shows "\<exists>fd w1 w2 w3. vfs_open p 0x0101 w = Some (int fd, w1) \<and> vfs_write (int fd) data w1 = Some (int (length data), w2) \<and>
    vfs_close (int fd) w2 = Some (0, w3) \<and> holds_tree N w3 t' \<and> same_beside w w3"
proof -
  obtain d es where d: "rt_parent p t = Some (d, es)" using r by (auto simp: rt_file_def split: option.splits)
  note D = rt_parentD [OF d]
  obtain q b where q: "p = q @ slash # b" "slash \<notin> set b" "b \<noteq> []" "length q \<le> 223" "q = [] \<or> hd q = slash"
    "path_names q = butlast (path_names p)" "b = last (path_names p)" using plain_path_split [OF D(1)] .
  let ?c = "rt_count t"
  have t': "t' = t\<lparr>rt_dirs := (rt_dirs t)(d \<mapsto> es @ [(b, ?c)], ?c := None), rt_count := Suc ?c, rt_files := (?c, data) # rt_files t\<rparr>"
    and b: "length b \<le> 31" "map_of es b = None"
    and data: "data \<noteq> []" "length data \<le> 524288" "length (rt_files t) < MAX_RAMFS_FILES"
    using r d q(7) by (auto simp: rt_file_def Let_def split: if_splits)
  have find: "tree_find {} (rt_dirs t) 0 (path_names q) = Found d" using D(3) q(6) by simp
  let ?f = "\<lparr>fd_node = Some (RamfsNode ?c), fd_offset = 0, fd_flags = 0x0101, fd_refcount = 1\<rparr>"
  have "\<exists>w1 fd. vfs_open p 0x0101 w = Some (int fd, set_fd fd ?f w1) \<and> fd < MAX_FDS \<and> fd_refcount (g_fds w fd) = 0 \<and>
      adds_node ?c (new_node b VFS_FILE ?c) w w1 \<and> tree_ok w1 (Suc ?c) ((rt_dirs t)(d \<mapsto> es @ [(b, ?c)], ?c := None)) {}"
    unfolding q(1)
    by (rule open_create_tree [OF holds_treeD(1) [OF h] q(2,3) b(1) q(4,5) find D(4) b(2) D(5,2), where fd = 3])
      (use holds_treeD(8) [OF h, of 3] in \<open>simp_all add: O_CREAT_def O_APPEND_def MAX_FDS_def\<close>)
  then obtain w1 fd where o: "vfs_open p 0x0101 w = Some (int fd, set_fd fd ?f w1)" "fd < MAX_FDS" "fd_refcount (g_fds w fd) = 0"
      "adds_node ?c (new_node b VFS_FILE ?c) w w1" "tree_ok w1 (Suc ?c) ((rt_dirs t)(d \<mapsto> es @ [(b, ?c)], ?c := None)) {}" by blast
  note A = holds_tree_adds [OF h o(4) new_node_fields]
  let ?w1 = "set_fd fd ?f w1"
  have w1: "nodes ?w1 = nodes w1" "fs_pfa ?w1 = fs_pfa w" "file_data_count ?w1 = length (rt_files t)" "g_fds ?w1 = (g_fds w)(fd := ?f)"
    using A(3-5) by (simp_all add: set_fd_def)
  have x: "nodes ?w1 (RamfsNode ?c) = new_node b VFS_FILE ?c" using A(6) w1(1) by simp
  have reg: "regular (nodes ?w1 (RamfsNode ?c))" "node_data (nodes ?w1 (RamfsNode ?c)) = NoData"
    unfolding x by (simp_all add: regular_def new_node_def zero_node_def is_dir_def vfs_flag_defs)
  have ok1: "ramfs_ok ?w1" using A(1) by simp
  have card: "128 \<le> card (low_frames (fs_pfa ?w1))" using holds_treeD(4) [OF h] N w1(2) by simp
  obtain w2 w3 w4 g where w: "vfs_write (int fd) data ?w1 = Some (int (length data), w3)" "vfs_close (int fd) w3 = Some (0, w4)"
      "ramfs_write (RamfsNode ?c) 0 data ?w1 = Some (int (length data), w2)" "w4 = set_fd fd g w2" "fd_refcount g = 0"
      "ramfs_ok w2" "contents w2 (RamfsNode ?c) = data" "\<forall>m. m \<noteq> RamfsNode ?c \<longrightarrow> contents w2 m = contents ?w1 m"
    using write_new_file [OF _ o(2) ok1 reg data(1,2) _ card] w1(3,4) data(3) by auto
  have inv: "pfa_inv (fs_pfa ?w1)" using pages_invD(1) [OF ramfs_okD(1) [OF ok1]] .
  have "\<not> is_dir (nodes ?w1 (RamfsNode ?c))" using reg(1) by (simp add: regular_def)
  from ramfs_write_keeps [OF w(3) this inv reg(2)] w1(3) data(3)
  obtain sz fp np pp m where k: "w2 = ?w1\<lparr>nodes := (nodes ?w1)(RamfsNode ?c := (nodes ?w1 (RamfsNode ?c))\<lparr>node_data := FileData (length (rt_files t)), node_size := sz\<rparr>),
      file_pages := fp, file_num_pages := np, file_data_count := Suc (length (rt_files t)), fs_pfa := pp, ram := m\<rparr>"
    "low_frames pp \<subseteq> low_frames (fs_pfa w)" "card (low_frames (fs_pfa w)) \<le> card (low_frames pp) + 128"
    using w1(2) by auto
  have "holds_tree N w4 t'"
    unfolding holds_tree_def
  proof (intro conjI allI impI)
    have "tree_ok ?w1 (Suc ?c) ((rt_dirs t)(d \<mapsto> es @ [(b, ?c)], ?c := None)) {}" using o(5) by (simp add: tree_fds)
    then have "tree_ok w2 (Suc ?c) ((rt_dirs t)(d \<mapsto> es @ [(b, ?c)], ?c := None)) {}"
      by (rule tree_ok_file) (auto simp: k(1))
    then show "tree_ok w4 (rt_count t') (rt_dirs t') {}" by (simp add: w(4) tree_fds t')
    show "ramfs_ok w4" using w(6) by (simp add: w(4))
    show "file_data_count w4 = length (rt_files t')" by (simp add: w(4) t' k(1) set_fd_def)
    show "N \<le> card (low_frames (fs_pfa w4)) + 128 * length (rt_files t')"
      using holds_treeD(4) [OF h] k(3) by (simp add: w(4) t' k(1) set_fd_def)
  next
    fix i assume i: "i < rt_count t'" "rt_dirs t' i = None"
    have i': "i < ?c \<and> rt_dirs t i = None" if "i \<noteq> ?c" using i that by (auto simp: t' split: if_splits)
    show "regular (nodes w4 (RamfsNode i))"
      using reg(1) i' holds_treeD(5) [OF h, of i] A(6)
      by (cases "i = ?c") (simp_all add: w(4) k(1) set_fd_def regular_def is_dir_def)
    show "map_of (rt_files t') i = Some (contents w4 (RamfsNode i))"
      using w(7,8) i' holds_treeD(6) [OF h, of i] A(2) by (cases "i = ?c") (simp_all add: w(4) t')
  next
    fix i assume "rt_count t' \<le> i"
    then show "nodes w4 (RamfsNode i) = zero_node" using holds_treeD(7) [OF h, of i] A(6) by (simp add: t' w(4) k(1) set_fd_def)
  next
    fix j :: nat assume "3 \<le> j" "j < MAX_FDS"
    then show "fd_refcount (g_fds w4 j) = 0" using holds_treeD(8) [OF h] w(5) A(5) by (simp add: w(4) k(1) set_fd_def)
  qed
  moreover have "same_beside w w4"
    using adds_node_beside [OF o(4)] k(2) by (auto simp: same_beside_def w(4) k(1) set_fd_def)
  ultimately show ?thesis using o(1) w(1,2) by blast
qed

section \<open>Unpacking\<close>

lemma rt_files_mkdir: "rt_mkdir p t = Some t' \<Longrightarrow> rt_files t' = rt_files t"
  by (auto simp: rt_mkdir_def split: option.splits)

lemma rt_files_file: "rt_file p data t = Some t' \<Longrightarrow> length (rt_files t') = Suc (length (rt_files t)) \<and> length data \<le> 524288"
  by (auto simp: rt_file_def Let_def split: option.splits if_splits)

text \<open>The counters of the callback: every file is counted, and no error.\<close>

definition counts_files :: "tar_extract_context \<Rightarrow> ram_tree \<Rightarrow> tar_extract_context \<Rightarrow> ram_tree \<Rightarrow> bool" where
  "counts_files ctx t ctx' t' \<longleftrightarrow> error_count ctx' = error_count ctx \<and>
     file_count ctx' - file_count ctx = int (length (rt_files t')) - int (length (rt_files t))"

text \<open>The callback's buffers are long enough for these paths, and its loops find these parts.\<close>

lemma last_slash_dir_part:
  assumes "slash \<in> set p"
  shows "last_slash 0 None p = Some (length (dir_part p))" "take (length (dir_part p)) p = dir_part p"
proof -
  obtain q b where p: "p = q @ slash # b" "slash \<notin> set b" using assms by (meson split_list_last)
  have "dropWhile (\<lambda>c. c \<noteq> slash) (rev b @ slash # rev q) = slash # rev q" using p(2) by (subst dropWhile_append2) auto
  then have "dir_part p = q" by (simp add: dir_part_def p(1))
  then show "last_slash 0 None p = Some (length (dir_part p))" "take (length (dir_part p)) p = dir_part p"
    using last_slash_snoc [OF p(2), of 0 None q] by (simp_all add: p(1))
qed

lemma entry_paths:
  assumes "entry_ok e"
  shows "abs_path (entry_name e) = entry_path e" "take 255 (entry_path e) = entry_path e"
    "strip_slash (entry_path e) = no_last_slash (entry_path e)" "no_last_slash (entry_path e) \<noteq> ''.''"
    "parent_path (entry_path e) = (if dir_part (entry_path e) = [] then None else Some (dir_part (entry_path e)))"
proof -
  have len: "length (entry_name e) < 100" using assms by (simp add: entry_ok_def entry_name_def)
  have hd: "entry_path e \<noteq> []" "hd (entry_path e) = slash" by (auto simp: entry_path_def Let_def)
  have one: "take 1 n = ''/'' \<longleftrightarrow> n \<noteq> [] \<and> hd n = slash" for n by (cases n) (auto simp: slash_def)
  show "abs_path (entry_name e) = entry_path e"
    using len unfolding abs_path_def entry_path_def Let_def one by (auto simp: slash_def)
  have "length (entry_path e) \<le> 100" using len by (auto simp: entry_path_def Let_def)
  then show "take 255 (entry_path e) = entry_path e" by simp
  show "strip_slash (entry_path e) = no_last_slash (entry_path e)" using hd by (auto simp: strip_slash_def no_last_slash_def slash_def)
  show "no_last_slash (entry_path e) \<noteq> ''.''"
    using hd by (cases "entry_path e") (auto simp: no_last_slash_def slash_def)
  have "slash \<in> set (entry_path e)" using hd by (cases "entry_path e") auto
  from last_slash_dir_part [OF this]
  show "parent_path (entry_path e) = (if dir_part (entry_path e) = [] then None else Some (dir_part (entry_path e)))"
    by (auto simp: parent_path_def)
qed

lemma rt_entry_run:
  assumes h: "holds_tree N w t" and r: "rt_entry e t = Some t'" and N: "128 * length (rt_files t') \<le> N" and ok: "entry_ok e"
  shows "length (rt_files t) \<le> length (rt_files t') \<and>
    (\<exists>ctx' w'. deliver rootfs_extract_callback e (ctx, w) = Some (0, (ctx', w')) \<and> holds_tree N w' t' \<and> same_beside w w' \<and>
       counts_files ctx t ctx' t')"
proof -
  let ?name = "entry_name e"
  let ?p = "abs_path ?name"
  let ?d = "strip_slash (take 255 ?p)"
  note pths = entry_paths [OF ok]
  have ne: "?name \<noteq> []" using ok by (simp add: entry_ok_def entry_name_def)
  consider (skip) "?name = ''.'' \<or> ?name = ''./''" | (dir) "\<not> (?name = ''.'' \<or> ?name = ''./'')" "te_type e = 0x35"
    | (reg) "\<not> (?name = ''.'' \<or> ?name = ''./'')" "te_type e \<noteq> 0x35" by blast
  then show ?thesis
  proof cases
    case skip
    then have "t' = t" using r by (auto simp: rt_entry_def pths Let_def)
    moreover have "deliver rootfs_extract_callback e (ctx, w) = Some (0, (ctx, w))"
      using skip ne by (auto simp: deliver_def rootfs_extract_callback_def)
    moreover have "counts_files ctx t ctx t" by (simp add: counts_files_def)
    ultimately show ?thesis using h same_beside_refl by blast
  next
    case dir
    show ?thesis
    proof (cases "?d \<noteq> [] \<and> ?d \<noteq> ''.'' \<and> ?d \<noteq> ''/''")
      case False
      then have "t' = t" using r dir by (auto simp: rt_entry_def pths Let_def)
      moreover have "deliver rootfs_extract_callback e (ctx, w) = Some (0, (ctx, w))"
        using dir ne False by (auto simp: deliver_def rootfs_extract_callback_def Let_def)
      moreover have "counts_files ctx t ctx t" by (simp add: counts_files_def)
      ultimately show ?thesis using h same_beside_refl by blast
    next
      case True
      then have m: "rt_mkdir ?d t = Some t'" using r dir by (simp add: rt_entry_def pths Let_def)
      obtain w' where w': "vfs_mkdir ?d w = Some (0, w')" "holds_tree N w' t'" "same_beside w w'" using rt_mkdir_run [OF h m] by blast
      have "deliver rootfs_extract_callback e (ctx, w) = Some (0, (ctx\<lparr>dir_count := dir_count ctx + 1\<rparr>, w'))"
        using dir ne True w'(1) by (simp add: deliver_def rootfs_extract_callback_def Let_def)
      moreover have "counts_files ctx t (ctx\<lparr>dir_count := dir_count ctx + 1\<rparr>) t'" using rt_files_mkdir [OF m] by (simp add: counts_files_def)
      ultimately show ?thesis using w'(2,3) rt_files_mkdir [OF m] by auto
    qed
  next
    case reg
    obtain t1 where t1: "(case parent_path (take 255 ?p) of None \<Rightarrow> Some t | Some q \<Rightarrow> rt_mkdir q t) = Some t1" "rt_file ?p (te_data e) t1 = Some t'"
      using r reg by (auto simp: rt_entry_def pths Let_def split: option.splits if_splits)
    obtain w1 where w1: "(case parent_path (take 255 ?p) of None \<Rightarrow> Some w | Some q \<Rightarrow> map_option snd (vfs_mkdir q w)) = Some w1"
      "holds_tree N w1 t1" "same_beside w w1" "rt_files t1 = rt_files t"
    proof (cases "parent_path (take 255 ?p)")
      case None
      then show ?thesis using that h same_beside_refl t1(1) by simp
    next
      case (Some q)
      then have q: "rt_mkdir q t = Some t1" using t1(1) by simp
      obtain w' where "vfs_mkdir q w = Some (0, w')" "holds_tree N w' t1" "same_beside w w'" using rt_mkdir_run [OF h q] by blast
      then show ?thesis using that Some rt_files_mkdir [OF q] by simp
    qed
    note len = rt_files_file [OF t1(2)]
    have "128 * Suc (length (rt_files t1)) \<le> N" using N len by simp
    from rt_file_run [OF w1(2) t1(2) this]
    obtain fd v1 v2 v3 where v: "vfs_open ?p 0x0101 w1 = Some (int fd, v1)" "vfs_write (int fd) (te_data e) v1 = Some (int (length (te_data e)), v2)"
      "vfs_close (int fd) v2 = Some (0, v3)" "holds_tree N v3 t'" "same_beside w1 v3" by blast
    have "unat (of_nat (length (te_data e)) :: u64) = length (te_data e)" using len by (intro unat_of_nat_small) simp
    moreover have "int (length (te_data e)) = sint (ucast (of_nat (length (te_data e)) :: u64) :: u32)"
    proof -
      have "(ucast (of_nat (length (te_data e)) :: u64) :: u32) = of_nat (length (te_data e))"
        using len by (simp add: unsigned_of_nat take_bit_nat_eq_self)
      then show ?thesis using len sint_of_small [of "length (te_data e)"] by simp
    qed
    ultimately have "rootfs_extract_callback ?name (Some (te_data e)) (of_nat (length (te_data e))) (ctx, w) =
        Some (0, (ctx\<lparr>file_count := file_count ctx + 1\<rparr>, v3))"
      using reg(1) ne w1(1) v(1-3) by (simp add: rootfs_extract_callback_def Let_def)
    then have "deliver rootfs_extract_callback e (ctx, w) = Some (0, (ctx\<lparr>file_count := file_count ctx + 1\<rparr>, v3))"
      using reg(2) by (simp add: deliver_def)
    moreover have "counts_files ctx t (ctx\<lparr>file_count := file_count ctx + 1\<rparr>) t'" using len w1(4) by (simp add: counts_files_def)
    ultimately show ?thesis using v(4) same_beside_trans [OF w1(3) v(5)] len w1(4) by auto
  qed
qed

lemma rt_unpack_run:
  assumes "holds_tree N w t" "rt_unpack es t = Some t'" "128 * length (rt_files t') \<le> N" "\<forall>e \<in> set es. entry_ok e"
  shows "length (rt_files t) \<le> length (rt_files t') \<and>
    (\<exists>ctx' w'. unpack rootfs_extract_callback es (ctx, w) = Some (0, (ctx', w')) \<and> holds_tree N w' t' \<and> same_beside w w' \<and>
       counts_files ctx t ctx' t')"
  using assms
proof (induction es arbitrary: w t ctx)
  case Nil
  then show ?case using same_beside_refl by (auto simp: counts_files_def)
next
  case (Cons e es)
  obtain t1 where t1: "rt_entry e t = Some t1" "rt_unpack es t1 = Some t'" using Cons.prems(2) by (auto split: option.splits)
  have mono: "rt_unpack es u = Some v \<Longrightarrow> length (rt_files u) \<le> length (rt_files v)" for u v
  proof (induction es arbitrary: u)
    case (Cons e es)
    obtain x where x: "rt_entry e u = Some x" "rt_unpack es x = Some v" using Cons.prems by (auto split: option.splits)
    have "length (rt_files u) \<le> length (rt_files x)"
      using x(1) by (auto simp: rt_entry_def Let_def split: if_splits option.splits dest!: rt_files_mkdir rt_files_file)
    then show ?case using Cons.IH [OF x(2)] by simp
  qed simp
  have N: "128 * length (rt_files t1) \<le> N" using mono [OF t1(2)] Cons.prems(3) by simp
  obtain ctx1 w1 where 1: "length (rt_files t) \<le> length (rt_files t1)" "deliver rootfs_extract_callback e (ctx, w) = Some (0, (ctx1, w1))"
      "holds_tree N w1 t1" "same_beside w w1" "counts_files ctx t ctx1 t1"
    using rt_entry_run [OF Cons.prems(1) t1(1) N, of ctx] Cons.prems(4) by auto
  obtain ctx' w' where 2: "length (rt_files t1) \<le> length (rt_files t')" "unpack rootfs_extract_callback es (ctx1, w1) = Some (0, (ctx', w'))"
      "holds_tree N w' t'" "same_beside w1 w'" "counts_files ctx1 t1 ctx' t'"
    using Cons.IH [OF 1(3) t1(2) Cons.prems(3), of ctx1] Cons.prems(4) by auto
  have "counts_files ctx t ctx' t'" using 1(5) 2(5) by (simp add: counts_files_def)
  then show ?case using 1 2 same_beside_trans [OF 1(4) 2(4)] by auto
qed

lemma rt_make_dirs_run:
  "holds_tree N w t \<Longrightarrow> rt_make_dirs ps t = Some t' \<Longrightarrow> \<exists>w'. make_dirs ps w = Some w' \<and> holds_tree N w' t' \<and> same_beside w w'"
proof (induction ps arbitrary: w t)
  case Nil
  then show ?case using same_beside_refl by auto
next
  case (Cons p ps)
  obtain t1 where t1: "rt_mkdir p t = Some t1" "rt_make_dirs ps t1 = Some t'" using Cons.prems(2) by (auto split: option.splits)
  obtain w1 where w1: "vfs_mkdir p w = Some (0, w1)" "holds_tree N w1 t1" "same_beside w w1"
    using rt_mkdir_run [OF Cons.prems(1) t1(1)] by blast
  obtain w' where "make_dirs ps w1 = Some w'" "holds_tree N w' t'" "same_beside w1 w'" using Cons.IH [OF w1(2) t1(2)] by blast
  then show ?case using w1 same_beside_trans by auto
qed

end
