(* ===== verification/BootProps.thy ===== *)
theory BootProps
  imports RamUnpack DevProcFs SyscallProps
begin

text \<open>
  What \<open>kernel_main\<close> has built when it looks for the first program: the tree of the archive with the standard
  directories, the two tables mounted in it, and the program running with its segments in place.
\<close>

section \<open>Registration and the root\<close>

text \<open>The state the kernel image starts with: zeroed pools and an initialised frame allocator.\<close>

definition fresh_fs :: "fs_world \<Rightarrow> bool" where
  "fresh_fs w \<longleftrightarrow> nodes w = (\<lambda>_. zero_node) \<and> ramfs_node_count w = 0 \<and> file_data_count w = 0 \<and>
     devfs_node_count w = 0 \<and> procfs_node_count w = 0 \<and> pfa_inv (fs_pfa w) \<and> hhdm_ok (fs_hhdm w)"

lemma find_fs_type_beside: "g_fs_types w' = g_fs_types w \<Longrightarrow> g_fs_type_count w' = g_fs_type_count w \<Longrightarrow> find_fs_type n w' = find_fs_type n w"
proof -
  assume a: "g_fs_types w' = g_fs_types w" "g_fs_type_count w' = g_fs_type_count w"
  have "scan_fs_types k i n w' = scan_fs_types k i n w" for k i using a(1) by (induction k arbitrary: i) simp_all
  with a(2) show ?thesis by (simp add: find_fs_type_def)
qed

lemma boot_register_types:
  "find_fs_type ''ramfs'' (boot_register w) = Some 3" "fst_mount (g_fs_types (boot_register w) 3) = Some RamfsFs"
  "find_fs_type ''DeviceFS'' (boot_register w) = Some 1" "fst_mount (g_fs_types (boot_register w) 1) = Some DevfsFs"
  "find_fs_type ''ProcessFS'' (boot_register w) = Some 2" "fst_mount (g_fs_types (boot_register w) 2) = Some ProcfsFs"
  by (simp_all add: boot_register_def ramfs_register_def procfs_register_def devfs_register_def fat32_register_def
      vfs_register_filesystem_def vfs_init_def MAX_FS_TYPES_def find_fs_type_def my_strncpy_def eval_nat_numeral)

lemma boot_register_fields:
  "nodes (boot_register w) = nodes w" "ramfs_node_count (boot_register w) = ramfs_node_count w" "file_data_count (boot_register w) = file_data_count w"
  "devfs_node_count (boot_register w) = devfs_node_count w" "procfs_node_count (boot_register w) = procfs_node_count w"
  "fs_pfa (boot_register w) = fs_pfa w" "fs_hhdm (boot_register w) = fs_hhdm w" "g_mount_count (boot_register w) = 0"
  "j < MAX_FDS \<Longrightarrow> fd_refcount (g_fds (boot_register w) j) = 0"
  by (simp_all add: boot_register_def ramfs_register_def procfs_register_def devfs_register_def fat32_register_def
      vfs_register_filesystem_def vfs_init_def MAX_FS_TYPES_def)

text \<open>What the later steps need of the world beside the tree.\<close>

definition booting :: "fs_world \<Rightarrow> nat \<Rightarrow> fs_world \<Rightarrow> bool" where
  "booting w0 k w \<longleftrightarrow> g_mount_count w = k \<and> g_fs_types w = g_fs_types (boot_register w0) \<and>
     g_fs_type_count w = g_fs_type_count (boot_register w0) \<and> low_frames (fs_pfa w) \<subseteq> low_frames (fs_pfa w0) \<and>
     (\<forall>n. (\<forall>i. n \<noteq> RamfsNode i) \<longrightarrow> (\<forall>fd. node_data (nodes w n) \<noteq> FileData fd))"

lemma booting_types:
  assumes "booting w0 k w"
  shows "find_fs_type ''DeviceFS'' w = Some 1" "fst_mount (g_fs_types w 1) = Some DevfsFs"
    "find_fs_type ''ProcessFS'' w = Some 2" "fst_mount (g_fs_types w 2) = Some ProcfsFs"
  using assms boot_register_types [of w0] find_fs_type_beside [of w "boot_register w0"] by (simp_all add: booting_def)

lemma root_holds_tree:
  assumes "fresh_fs w0"
  shows "\<exists>w. vfs_mount ''/'' ''ramfs'' (boot_register w0) = Some (0, w) \<and> holds_tree (card (low_frames (fs_pfa w0))) w empty_tree \<and>
    booting w0 1 w \<and> devfs_node_count w = 0 \<and> procfs_node_count w = 0"
proof -
  note f = assms [unfolded fresh_fs_def]
  let ?b = "boot_register w0"
  have "find_fs_type ''ramfs'' ?b = Some 3" "fst_mount (g_fs_types ?b 3) = Some RamfsFs" "ramfs_node_count ?b = 0"
    using boot_register_types [of w0] boot_register_fields(2) [of w0] f by simp_all
  from root_mounted [OF boot_register_fields(8) this]
  obtain w x m ch nm where w: "vfs_mount ''/'' ''ramfs'' ?b = Some (0, w)" "tree_ok w 1 [0 \<mapsto> []] {}" "node_data x = DirData 0"
    "w = ?b\<lparr>nodes := (nodes ?b)(RamfsNode 0 := x), g_mounts := m, g_mount_count := 1, g_vfs_root := Some (RamfsNode 0),
      ramfs_children := ch, ramfs_child_names := nm, ramfs_node_count := 1\<rparr>" by blast
  have nodes: "nodes w = (\<lambda>_. zero_node)(RamfsNode 0 := x)" and fd: "file_data_count w = 0" and fs: "fs_pfa w = fs_pfa w0" "fs_hhdm w = fs_hhdm w0"
    using f by (simp_all add: w(4) boot_register_fields)
  have ok: "ramfs_ok w"
    using f by (auto simp: ramfs_ok_def pages_inv_def pages_bound_def fd fs nodes zero_node_def w(3))
  have "holds_tree (card (low_frames (fs_pfa w0))) w empty_tree"
    using w(2) ok fd fs boot_register_fields(9) [of _ w0]
    unfolding holds_tree_def nodes by (auto simp: empty_tree_def w(4))
  moreover have "booting w0 1 w" "devfs_node_count w = 0" "procfs_node_count w = 0"
    using fs f by (simp_all add: booting_def w(4) boot_register_fields zero_node_def)
  ultimately show ?thesis using w(1) by blast
qed

lemma booting_beside: "booting w0 k w \<Longrightarrow> same_beside w w' \<Longrightarrow> booting w0 k w'"
  unfolding booting_def same_beside_def by auto

section \<open>Mounting on a directory of the tree\<close>

definition fs_root :: "fs_kind \<Rightarrow> node_id" where
  "fs_root k = (if k = DevfsFs then DevfsRoot else ProcfsRoot)"

lemma mount_on_tree:
  assumes t: "tree_ok w c E M" and p: "plain_path p" and d: "tree_find M E 0 (path_names p) = Found d" "E d = Some es"
    and cmp: "my_strcmp p ''/'' \<noteq> 0" and ty: "find_fs_type ty w = Some n" "fst_mount (g_fs_types w n) = Some k" "k = DevfsFs \<or> k = ProcfsFs" and room: "g_mount_count w < MAX_MOUNTS"
  shows "\<exists>x m. vfs_mount p ty w = Some (0, w\<lparr>nodes := (nodes w)(fs_root k := x, RamfsNode d := (nodes w (RamfsNode d))
        \<lparr>node_flags := node_flags (nodes w (RamfsNode d)) OR VFS_MOUNTPOINT, node_mount := Some (g_mount_count w)\<rparr>),
      g_mounts := (g_mounts w)(g_mount_count w := m), g_mount_count := Suc (g_mount_count w)\<rparr>) \<and>
    op_finddir x = Some k \<and> is_dir x \<and> node_data x = NoData \<and> mp_root m = Some (fs_root k)"
proof -
  let ?c = "g_mount_count w"
  define x where "x = (nodes w (fs_root k))\<lparr>node_flags := VFS_DIRECTORY, node_data := NoData, op_finddir := Some k, op_readdir := Some k\<rparr>"
  define m where "m = \<lparr>mp_path = my_strncpy p 255, mp_root = Some (fs_root k), mp_refcount = 0\<rparr>"
  define w1 where "w1 = w\<lparr>nodes := (nodes w)(fs_root k := x), g_mounts := (g_mounts w)(?c := m)\<rparr>"
  have root: "fs_root k \<noteq> RamfsNode i" "RamfsNode i \<noteq> fs_root k" for i by (simp_all add: fs_root_def)
  have call: "call_mount k ?c (w\<lparr>g_mounts := (g_mounts w)(?c := \<lparr>mp_path = my_strncpy p 255, mp_root = None, mp_refcount = 0\<rparr>)\<rparr>) = (0, w1)"
    using ty(3) by (auto simp: call_mount_def devfs_mount_op_def procfs_mount_op_def Let_def set_node_def w1_def x_def m_def fs_root_def)
  have t1: "tree_ok w1 c E M" by (rule tree_ok_file [OF t]) (simp_all add: w1_def root)
  have ne: "p \<noteq> []" "hd p = slash" and len: "\<forall>y \<in> set (path_names p). length y \<le> 255"
    using p by (auto simp: plain_path_def dest!: path_names_length)
  have res: "vfs_resolve_path p w1 = Some (Some (RamfsNode d))" using resolve_path_tree [OF t1 ne len] d(1) by simp
  have nd: "nodes w1 (RamfsNode d) = nodes w (RamfsNode d)" by (simp add: w1_def root)
  have dir: "is_dir (nodes w1 (RamfsNode d))" using tree_okD(5) [OF t d(2)] by (simp add: rdir_def nd)
  show ?thesis
  proof (intro exI conjI)
    show "vfs_mount p ty w = Some (0, w\<lparr>nodes := (nodes w)(fs_root k := x, RamfsNode d := (nodes w (RamfsNode d))
        \<lparr>node_flags := node_flags (nodes w (RamfsNode d)) OR VFS_MOUNTPOINT, node_mount := Some ?c\<rparr>),
      g_mounts := (g_mounts w)(?c := m), g_mount_count := Suc ?c\<rparr>)"
      using room ty(1,2) call cmp res dir
      by (simp add: vfs_mount_def Let_def nd set_node_def) (simp add: w1_def)
    show "op_finddir x = Some k" "is_dir x" "node_data x = NoData" "mp_root m = Some (fs_root k)"
      by (simp_all add: x_def m_def is_dir_def vfs_flag_defs)
  qed
qed

lemma mounted_tree:
  assumes "tree_ok w c E M" "E d \<noteq> None"
  shows "tree_ok (w\<lparr>nodes := (nodes w)(fs_root k := x, RamfsNode d := (nodes w (RamfsNode d))
        \<lparr>node_flags := node_flags (nodes w (RamfsNode d)) OR VFS_MOUNTPOINT, node_mount := mo\<rparr>),
      g_mounts := ms, g_mount_count := mc\<rparr>) c E (insert d M)" (is "tree_ok ?w c E _")
  unfolding tree_ok_def
proof (intro conjI allI impI)
  note tD = tree_okD [OF assms(1)]
  have root: "RamfsNode i \<noteq> fs_root k" for i by (simp add: fs_root_def)
  have nd: "nodes ?w (RamfsNode i) = (if i = d then (nodes w (RamfsNode d))
        \<lparr>node_flags := node_flags (nodes w (RamfsNode d)) OR VFS_MOUNTPOINT, node_mount := mo\<rparr> else nodes w (RamfsNode i))" for i
    by (simp add: root)
  have dir: "(f OR VFS_MOUNTPOINT) AND VFS_DIRECTORY = f AND VFS_DIRECTORY" for f
    by (simp add: vfs_flag_defs word_ao_dist)
  show "g_vfs_root ?w = Some (RamfsNode 0)" "ramfs_node_count ?w = c" "E 0 \<noteq> None" using tD(1-3) by simp_all
  show "i < c" "rdir ?w i es" "\<forall>(x, j) \<in> set es. 0 < j \<and> j < c" if "E i = Some es" for i es
  proof -
    show "i < c" "\<forall>(x, j) \<in> set es. 0 < j \<and> j < c" using tD(4,6) that by auto
    show "rdir ?w i es" using tD(5) [OF that] unfolding rdir_def nd by (auto simp: is_dir_def dir)
  qed
  show "\<not> is_dir (nodes ?w (RamfsNode i))" "op_finddir (nodes ?w (RamfsNode i)) = Some RamfsFs" if "i < c" "E i = None" for i
    using tD(7,8) [OF that] assms(2) that unfolding nd by auto
  show "node_flags (nodes ?w (RamfsNode i)) AND VFS_MOUNTPOINT = 0" if "i < c" "0 < i" "i \<notin> insert d M" for i
    using tD(9) [of i] that unfolding nd by auto
qed

definition mounted :: "fs_world \<Rightarrow> nat \<Rightarrow> node_id \<Rightarrow> bool" where
  "mounted w d r \<longleftrightarrow> node_flags (nodes w (RamfsNode d)) AND VFS_MOUNTPOINT \<noteq> 0 \<and>
     (\<exists>m < g_mount_count w. node_mount (nodes w (RamfsNode d)) = Some m \<and> mp_root (g_mounts w m) = Some r)"

lemma mounted_enter: "mounted w d r \<Longrightarrow> enter (RamfsNode d) w = Some r"
  by (auto simp: mounted_def enter_def)

text \<open>The file system \<open>k\<close> has been mounted on the directory \<open>d\<close>, and nothing else but its own table has changed.\<close>

definition mounts :: "fs_kind \<Rightarrow> nat \<Rightarrow> fs_world \<Rightarrow> fs_world \<Rightarrow> bool" where
  "mounts k d w w' \<longleftrightarrow>
     (\<exists>m. g_mounts w' = (g_mounts w)(g_mount_count w := m)) \<and> g_mount_count w' = Suc (g_mount_count w) \<and> mounted w' d (fs_root k) \<and>
     op_finddir (nodes w' (fs_root k)) = Some k \<and> keeps_files w w' \<and>
     g_fds w' = g_fds w \<and> g_fs_types w' = g_fs_types w \<and> g_fs_type_count w' = g_fs_type_count w \<and>
     (\<forall>i. i \<noteq> d \<longrightarrow> nodes w' (RamfsNode i) = nodes w (RamfsNode i))"

text \<open>Steps that touch only the nodes of the two static tables.\<close>

definition table_step :: "fs_world \<Rightarrow> fs_world \<Rightarrow> bool" where
  "table_step w w' \<longleftrightarrow>
     g_mounts w' = g_mounts w \<and> g_mount_count w' = g_mount_count w \<and> g_fds w' = g_fds w \<and> g_fs_types w' = g_fs_types w \<and>
     g_fs_type_count w' = g_fs_type_count w \<and> g_vfs_root w' = g_vfs_root w \<and> ramfs_node_count w' = ramfs_node_count w \<and>
     ramfs_children w' = ramfs_children w \<and> ramfs_child_names w' = ramfs_child_names w \<and>
     file_pages w' = file_pages w \<and> file_num_pages w' = file_num_pages w \<and> file_data_count w' = file_data_count w \<and>
     fs_pfa w' = fs_pfa w \<and> ram w' = ram w \<and> fs_hhdm w' = fs_hhdm w \<and>
     (\<forall>i. nodes w' (RamfsNode i) = nodes w (RamfsNode i)) \<and> nodes w' DevfsRoot = nodes w DevfsRoot \<and> nodes w' ProcfsRoot = nodes w ProcfsRoot \<and>
     (\<forall>n. nodes w' n = nodes w n \<or> ((\<forall>fd. node_data (nodes w' n) \<noteq> FileData fd) \<and> node_data (nodes w' n) \<noteq> NoData))"

lemma table_step_refl: "table_step w w" by (simp add: table_step_def)

lemma table_step_trans: "table_step u v \<Longrightarrow> table_step v w \<Longrightarrow> table_step u w"
  unfolding table_step_def by (elim conjE, intro conjI allI) (simp_all, metis)

lemma add_device_step: "table_step w (devfs_add_device n x w)"
  by (auto simp: table_step_def devfs_add_device_def Let_def set_node_def)

lemma add_entry_step: "table_step w (procfs_add_entry n x w)"
  by (auto simp: table_step_def procfs_add_entry_def Let_def set_node_def)

lemma table_step_tree: "table_step w w' \<Longrightarrow> tree_ok w c E M \<Longrightarrow> tree_ok w' c E M"
  by (erule tree_ok_file) (simp_all add: table_step_def)

lemma table_step_files:
  assumes "table_step w w'" "\<forall>n. (\<forall>i. n \<noteq> RamfsNode i) \<longrightarrow> (\<forall>fd. node_data (nodes w n) \<noteq> FileData fd)"
  shows "keeps_files w w'"
proof -
  have "nodes w' n = nodes w n \<or> (\<forall>fd. node_data (nodes w n) \<noteq> FileData fd) \<and> (\<forall>fd. node_data (nodes w' n) \<noteq> FileData fd) \<and> node_data (nodes w' n) \<noteq> NoData" for n
    using assms by (cases "\<exists>i. n = RamfsNode i") (auto simp: table_step_def)
  then show ?thesis using assms(1) unfolding keeps_files_def table_step_def by metis
qed

text \<open>Mounting, and the table steps behind it.\<close>

lemma mount_run:
  assumes t: "tree_ok w c E M" and b: "booting w0 j w" "j < MAX_MOUNTS" and p: "plain_path p" "my_strcmp p ''/'' \<noteq> 0"
    and d: "tree_find M E 0 (path_names p) = Found d" "E d \<noteq> None"
    and ty: "find_fs_type ty w = Some n" "fst_mount (g_fs_types w n) = Some k" "k = DevfsFs \<or> k = ProcfsFs"
  shows "\<exists>w'. vfs_mount p ty w = Some (0, w') \<and> mounts k d w w' \<and> tree_ok w' c E (insert d M) \<and> booting w0 (Suc j) w' \<and>
    devfs_node_count w' = devfs_node_count w \<and> procfs_node_count w' = procfs_node_count w \<and> fs_pfa w' = fs_pfa w \<and>
    (\<forall>r. r \<noteq> fs_root k \<longrightarrow> (\<forall>i. r \<noteq> RamfsNode i) \<longrightarrow> nodes w' r = nodes w r) \<and>
    devfs_children w' = devfs_children w"
proof -
  obtain es where es: "E d = Some es" using d(2) by blast
  have room: "g_mount_count w < MAX_MOUNTS" using b by (simp add: booting_def)
  obtain x m where 1: "vfs_mount p ty w = Some (0, w\<lparr>nodes := (nodes w)(fs_root k := x, RamfsNode d := (nodes w (RamfsNode d))
        \<lparr>node_flags := node_flags (nodes w (RamfsNode d)) OR VFS_MOUNTPOINT, node_mount := Some (g_mount_count w)\<rparr>),
      g_mounts := (g_mounts w)(g_mount_count w := m), g_mount_count := Suc (g_mount_count w)\<rparr>)"
    and x: "op_finddir x = Some k" "is_dir x" "node_data x = NoData" "mp_root m = Some (fs_root k)"
    using mount_on_tree [OF t p(1) d(1) es p(2) ty room] by blast
  define w' where "w' = w\<lparr>nodes := (nodes w)(fs_root k := x, RamfsNode d := (nodes w (RamfsNode d))
        \<lparr>node_flags := node_flags (nodes w (RamfsNode d)) OR VFS_MOUNTPOINT, node_mount := Some (g_mount_count w)\<rparr>),
      g_mounts := (g_mounts w)(g_mount_count w := m), g_mount_count := Suc (g_mount_count w)\<rparr>"
  have root: "RamfsNode i \<noteq> fs_root k" "fs_root k \<noteq> RamfsNode i" for i by (simp_all add: fs_root_def)
  have nd: "nodes w' (RamfsNode i) = (if i = d then (nodes w (RamfsNode d))
        \<lparr>node_flags := node_flags (nodes w (RamfsNode d)) OR VFS_MOUNTPOINT, node_mount := Some (g_mount_count w)\<rparr> else nodes w (RamfsNode i))"
    "nodes w' (fs_root k) = x" "r \<noteq> fs_root k \<Longrightarrow> \<forall>i. r \<noteq> RamfsNode i \<Longrightarrow> nodes w' r = nodes w r" for i r
    by (simp_all add: w'_def root)
  have flag: "VFS_MOUNTPOINT \<noteq> 0" by (simp add: VFS_MOUNTPOINT_def)
  have dir: "(f OR VFS_MOUNTPOINT) AND VFS_DIRECTORY = f AND VFS_DIRECTORY" for f by (simp add: vfs_flag_defs word_ao_dist)
  have nofile: "\<forall>fd. node_data (nodes w (fs_root k)) \<noteq> FileData fd" using b(1) root(2) by (simp add: booting_def)
  have keep: "keeps_files w w'"
    unfolding keeps_files_def
  proof (intro conjI allI)
    fix r
    consider "r = fs_root k" | i where "r = RamfsNode i" | "r \<noteq> fs_root k" "\<forall>i. r \<noteq> RamfsNode i" by blast
    then show "node_data (nodes w r) = node_data (nodes w' r) \<and> node_size (nodes w r) = node_size (nodes w' r) \<and>
            is_dir (nodes w r) = is_dir (nodes w' r) \<or>
          (\<forall>fd. node_data (nodes w r) \<noteq> FileData fd) \<and> (\<forall>fd. node_data (nodes w' r) \<noteq> FileData fd) \<and>
            (node_data (nodes w' r) = NoData \<longrightarrow> \<not> is_dir (nodes w' r) \<longrightarrow> node_size (nodes w' r) = 0)"
    proof cases
      case 1
      then show ?thesis using nd(2) x nofile by simp
    next
      case 2
      then show ?thesis by (simp add: nd(1) is_dir_def dir)
    next
      case 3
      then show ?thesis using nd(3) by simp
    qed
  qed (simp_all add: w'_def)
  have "mounted w' d (fs_root k)"
    unfolding mounted_def nd(1) by (simp add: flag) (simp add: w'_def x)
  moreover have "\<exists>m. g_mounts w' = (g_mounts w)(g_mount_count w := m)" by (auto simp: w'_def)
  ultimately have m: "mounts k d w w'"
    using keep nd x(1) unfolding mounts_def by (intro conjI) (simp_all add: w'_def root)
  have bt: "booting w0 (Suc j) w'"
    using b(1) x(3) unfolding booting_def w'_def by simp
  have "tree_ok w' c E (insert d M)" unfolding w'_def by (rule mounted_tree [OF t d(2)])
  moreover have "vfs_mount p ty w = Some (0, w')" using 1 by (simp add: w'_def)
  ultimately show ?thesis using m bt nd(3) by (intro exI [of _ w']) (simp add: w'_def)
qed

lemma booting_table: "booting w0 j w \<Longrightarrow> table_step w w' \<Longrightarrow> booting w0 j w'"
  unfolding booting_def table_step_def by metis

lemma booting_files: "booting w0 j w \<Longrightarrow> table_step w w' \<Longrightarrow> keeps_files w w'"
  by (rule table_step_files) (simp_all add: booting_def)

lemma mounted_table: "table_step w w' \<Longrightarrow> mounted w d r \<Longrightarrow> mounted w' d r"
  unfolding mounted_def table_step_def by simp

lemma mounted_mounts:
  assumes "mounts k d w w'" "mounted w d' r" "d' \<noteq> d"
  shows "mounted w' d' r"
  using assms unfolding mounted_def mounts_def by auto

section \<open>The device and process tables\<close>

definition device_dir :: string where "device_dir = ''/System/Rhoudveine/Runtime/Device''"
definition process_dir :: string where "process_dir = ''/System/Rhoudveine/Runtime/Process''"

lemma table_dirs: "plain_path device_dir" "my_strcmp device_dir ''/'' \<noteq> 0" "plain_path process_dir" "my_strcmp process_dir ''/'' \<noteq> 0"
  by (simp_all add: device_dir_def process_dir_def plain_path_def slash_def char_at_def)

text \<open>The four devices, in the order of their nodes.\<close>

definition device_names :: "string list" where "device_names = [''ahci0'', ''vga0'', ''eth0'', ''cpu0'']"

definition has_devices :: "fs_world \<Rightarrow> bool" where
  "has_devices w \<longleftrightarrow> devfs_node_count w = 4 \<and> (\<forall>i < 4. devfs_children w i = DevfsNode i \<and> node_name (nodes w (DevfsNode i)) = device_names ! i \<and>
     node_flags (nodes w (DevfsNode i)) = VFS_FILE)"

lemma has_devices_find:
  assumes "has_devices w" "i < 4"
  shows "devfs_finddir r (device_names ! i) w = Some (DevfsNode i)"
proof -
  have "i = 0 \<or> i = 1 \<or> i = 2 \<or> i = 3" using assms(2) by auto
  moreover have c: "devfs_node_count w = Suc (Suc (Suc (Suc 0)))" using assms(1) by (simp add: has_devices_def)
  moreover have "j < 4 \<Longrightarrow> devfs_children w j = DevfsNode j \<and> node_name (nodes w (DevfsNode j)) = device_names ! j" for j
    using assms(1) by (simp add: has_devices_def)
  ultimately show ?thesis
    by (elim disjE) (simp_all add: devfs_finddir_def device_names_def char_at_def eval_nat_numeral)
qed

lemma devices_run:
  assumes t: "tree_ok w c E M" and b: "booting w0 j w" "j < MAX_MOUNTS" and n: "devfs_node_count w = 0"
    and d: "tree_find M E 0 (path_names device_dir) = Found d" "E d \<noteq> None"
  shows "\<exists>v w'. boot_devices w = Some w' \<and> mounts DevfsFs d w v \<and> table_step v w' \<and> keeps_files v w' \<and> tree_ok w' c E (insert d M) \<and> booting w0 (Suc j) w' \<and>
    has_devices w' \<and> procfs_node_count w' = procfs_node_count w \<and> fs_pfa w' = fs_pfa w"
proof -
  obtain v where v: "vfs_mount device_dir ''DeviceFS'' w = Some (0, v)" "mounts DevfsFs d w v" "tree_ok v c E (insert d M)" "booting w0 (Suc j) v"
    "devfs_node_count v = 0" "procfs_node_count v = procfs_node_count w" "fs_pfa v = fs_pfa w"
    using mount_run [OF t b table_dirs(1,2) d booting_types(1,2) [OF b(1)]] n by auto
  define w' where "w' = devfs_add_device ''cpu0'' 0 (devfs_add_device ''eth0'' 0 (devfs_add_device ''vga0'' 0 (devfs_add_device ''ahci0'' 0 v)))"
  have step: "table_step v w'"
    unfolding w'_def using add_device_step table_step_trans by meson
  have "has_devices w' \<and> procfs_node_count w' = procfs_node_count v \<and> fs_pfa w' = fs_pfa v"
    using v(5) unfolding w'_def has_devices_def
    by (simp add: devfs_add_device_def Let_def MAX_DEVFS_NODES_def device_names_def All_less_Suc eval_nat_numeral)
  moreover have "boot_devices w = Some w'" using v(1) by (simp add: boot_devices_def device_dir_def w'_def)
  ultimately show ?thesis using v step booting_files [OF v(4) step] table_step_tree [OF step v(3)] booting_table [OF v(4) step] by auto
qed

definition process_names :: "string list" where "process_names = [''init'', ''meminfo'', ''cpuinfo'']"

definition meminfo :: "pfa \<Rightarrow> string" where
  "meminfo p = ''MemTotal: '' @ int_to_str (mm_get_total_memory p div 1048576) False @ '' MB'' @ boot_nl @
     ''MemFree: '' @ int_to_str (mm_get_free_memory p div 1048576) False @ '' MB'' @ boot_nl"

definition cpuinfo :: "u64 \<Rightarrow> string" where
  "cpuinfo cpus = ''CPU: x86_64'' @ boot_nl @ ''Cores: '' @ int_to_str (as_int (if 0 <s cpus then cpus else 1)) True @ boot_nl"

definition process_texts :: "pfa \<Rightarrow> u64 \<Rightarrow> string list" where
  "process_texts p cpus = [''PID: 1'' @ boot_nl @ ''Name: init'' @ boot_nl @ ''State: Running'' @ boot_nl, meminfo p, cpuinfo cpus]"

definition has_processes :: "pfa \<Rightarrow> u64 \<Rightarrow> fs_world \<Rightarrow> bool" where
  "has_processes p cpus w \<longleftrightarrow> procfs_node_count w = 3 \<and> (\<forall>i < 3. procfs_children w i = ProcfsNode i \<and>
     node_name (nodes w (ProcfsNode i)) = process_names ! i \<and> node_data (nodes w (ProcfsNode i)) = TextData i \<and>
     node_flags (nodes w (ProcfsNode i)) = VFS_FILE \<and>
     procfs_content w i = take 255 (process_texts p cpus ! i))"

lemma has_processes_find:
  assumes "has_processes p cpus w" "i < 3"
  shows "procfs_finddir r (process_names ! i) w = Some (ProcfsNode i)"
proof -
  have "i = 0 \<or> i = 1 \<or> i = 2" using assms(2) by auto
  moreover have c: "procfs_node_count w = Suc (Suc (Suc 0))" using assms(1) by (simp add: has_processes_def)
  moreover have "j < 3 \<Longrightarrow> procfs_children w j = ProcfsNode j \<and> node_name (nodes w (ProcfsNode j)) = process_names ! j" for j
    using assms(1) by (simp add: has_processes_def)
  ultimately show ?thesis
    by (elim disjE) (simp_all add: procfs_finddir_def process_names_def char_at_def eval_nat_numeral)
qed

lemma boot_texts:
  "sprintf (''MemTotal: %lu MB'' @ boot_nl @ ''MemFree: %lu MB'' @ boot_nl) [NumArg a, NumArg b] =
     Some (''MemTotal: '' @ int_to_str a False @ '' MB'' @ boot_nl @ ''MemFree: '' @ int_to_str b False @ '' MB'' @ boot_nl)"
  "sprintf (''CPU: x86_64'' @ boot_nl @ ''Cores: %d'' @ boot_nl) [NumArg a] =
     Some (''CPU: x86_64'' @ boot_nl @ ''Cores: '' @ int_to_str (as_int a) True @ boot_nl)"
  by (simp_all add: boot_nl_def sconv_def char_of_def bit_Suc_0_iff)

lemma processes_run:
  assumes t: "tree_ok w c E M" and b: "booting w0 j w" "j < MAX_MOUNTS" and n: "procfs_node_count w = 0"
    and d: "tree_find M E 0 (path_names process_dir) = Found d" "E d \<noteq> None"
  shows "\<exists>v w'. boot_processes cpus w = Some w' \<and> mounts ProcfsFs d w v \<and> table_step v w' \<and> keeps_files v w' \<and> tree_ok w' c E (insert d M) \<and> booting w0 (Suc j) w' \<and>
    has_processes (fs_pfa w) cpus w' \<and> devfs_node_count w' = devfs_node_count w \<and> devfs_children w' = devfs_children w \<and>
    (\<forall>i. nodes w' (DevfsNode i) = nodes w (DevfsNode i)) \<and> nodes w' DevfsRoot = nodes w DevfsRoot \<and> fs_pfa w' = fs_pfa w"
proof -
  obtain v where v: "vfs_mount process_dir ''ProcessFS'' w = Some (0, v)" "mounts ProcfsFs d w v" "tree_ok v c E (insert d M)" "booting w0 (Suc j) v"
    "procfs_node_count v = 0" "devfs_node_count v = devfs_node_count w" "fs_pfa v = fs_pfa w" "devfs_children v = devfs_children w"
    "\<forall>r. r \<noteq> ProcfsRoot \<longrightarrow> (\<forall>i. r \<noteq> RamfsNode i) \<longrightarrow> nodes v r = nodes w r"
    using mount_run [OF t b table_dirs(3,4) d booting_types(3,4) [OF b(1)]] n by (auto simp: fs_root_def)
  let ?x = "process_texts (fs_pfa w) cpus"
  define w' where "w' = procfs_add_entry ''cpuinfo'' (?x ! 2) (procfs_add_entry ''meminfo'' (?x ! 1) (procfs_add_entry ''init'' (?x ! 0) v))"
  have step: "table_step v w'"
    unfolding w'_def using add_entry_step table_step_trans by meson
  have "has_processes (fs_pfa w) cpus w' \<and> devfs_node_count w' = devfs_node_count v \<and> devfs_children w' = devfs_children v \<and>
      (\<forall>i. nodes w' (DevfsNode i) = nodes v (DevfsNode i)) \<and> nodes w' DevfsRoot = nodes v DevfsRoot \<and> fs_pfa w' = fs_pfa v"
    (is ?table)
    using v(5) unfolding w'_def has_processes_def
    by (simp add: procfs_add_entry_def Let_def MAX_PROCFS_NODES_def process_names_def All_less_Suc eval_nat_numeral del: take_Suc_Cons)
  have "fs_pfa (procfs_add_entry nm x v) = fs_pfa w" for nm x using v(7) by (simp add: procfs_add_entry_def Let_def)
  then have "boot_processes cpus w = Some w'"
    using v(1) by (simp add: boot_processes_def process_dir_def boot_texts Let_def w'_def process_texts_def meminfo_def cpuinfo_def
        del: sprintf.simps append.simps append_Cons)
  then show ?thesis using \<open>?table\<close> v step booting_files [OF v(4) step] table_step_tree [OF step v(3)] booting_table [OF v(4) step]
    by (intro exI [of _ v] exI [of _ w']) simp
qed

section \<open>The file system after the boot\<close>

text \<open>The archive \<open>es\<close> leads to the tree \<open>t\<close>, with the directories \<open>dev\<close> and \<open>proc\<close> for the two tables.\<close>

definition boots_to :: "tar_entry list \<Rightarrow> ram_tree \<Rightarrow> nat \<Rightarrow> nat \<Rightarrow> bool" where
  "boots_to es t dev proc \<longleftrightarrow>
     Option.bind (rt_unpack es empty_tree) (rt_make_dirs standard_dirs) = Some t \<and> dev \<noteq> proc \<and>
     tree_find {dev, proc} (rt_dirs t) 0 (path_names device_dir) = Mounted dev [] \<and> rt_dirs t dev \<noteq> None \<and>
     tree_find {dev, proc} (rt_dirs t) 0 (path_names process_dir) = Mounted proc [] \<and> rt_dirs t proc \<noteq> None"

lemma tree_find_unmounted:
  assumes "tree_find M E i xs = Mounted j []" "M' \<subseteq> M" "j \<notin> M'"
  shows "tree_find M' E i xs = Found j"
  using assms(1)
proof (induction xs arbitrary: i)
  case (Cons x xs)
  obtain es k where k: "E i = Some es" "map_of es x = Some k" using Cons.prems by (auto split: option.splits)
  show ?case
  proof (cases "k \<in> M")
    case True
    then show ?thesis using Cons.prems k assms(3) by simp
  next
    case False
    then show ?thesis using Cons.prems k Cons.IH [of k] assms(2) by auto
  qed
qed simp

lemma files_make_dirs: "rt_make_dirs ps t = Some t' \<Longrightarrow> rt_files t' = rt_files t"
  by (induction ps arbitrary: t) (auto split: option.splits dest!: rt_files_mkdir)

definition boot_archive :: "boot_modules \<Rightarrow> tar_entry list \<Rightarrow> bool" where
  "boot_archive ms es \<longleftrightarrow>
     find_rootfs ms = None \<and> es = [] \<or>
     find_rootfs ms = Some (archive es) \<and> (\<forall>e \<in> set es. entry_ok e) \<and> length (archive es) < 2 ^ 63"

definition booted :: "ram_tree \<Rightarrow> nat \<Rightarrow> nat \<Rightarrow> u64 \<Rightarrow> fs_world \<Rightarrow> bool" where
  "booted t dev proc cpus w \<longleftrightarrow>
     tree_ok w (rt_count t) (rt_dirs t) {proc, dev} \<and> ramfs_ok w \<and>
     (\<forall>i < rt_count t. rt_dirs t i = None \<longrightarrow>
        regular (nodes w (RamfsNode i)) \<and> map_of (rt_files t) i = Some (contents w (RamfsNode i))) \<and>
     (\<forall>j. 3 \<le> j \<longrightarrow> j < MAX_FDS \<longrightarrow> fd_refcount (g_fds w j) = 0) \<and>
     mounted w dev DevfsRoot \<and> op_finddir (nodes w DevfsRoot) = Some DevfsFs \<and> has_devices w \<and>
     mounted w proc ProcfsRoot \<and> op_finddir (nodes w ProcfsRoot) = Some ProcfsFs \<and> has_processes (fs_pfa w) cpus w"

lemma boot_extract_run:
  assumes h: "holds_tree N w empty_tree" and a: "boot_archive ms es" and u: "rt_unpack es empty_tree = Some t" and N: "128 * length (rt_files t) \<le> N"
  shows "\<exists>w'. boot_extract ms w = Some w' \<and> holds_tree N w' t \<and> same_beside w w'"
  using a unfolding boot_archive_def
proof (elim disjE conjE)
  assume "find_rootfs ms = None" "es = []"
  then show ?thesis using u h same_beside_refl by (auto simp: boot_extract_def)
next
  assume f: "find_rootfs ms = Some (archive es)" and e: "\<forall>e \<in> set es. entry_ok e" "length (archive es) < 2 ^ 63"
  let ?ctx = "\<lparr>file_count = 0, dir_count = 0, error_count = 0\<rparr>"
  obtain ctx' w' where "unpack rootfs_extract_callback es (?ctx, w) = Some (0, (ctx', w'))" "holds_tree N w' t" "same_beside w w'"
    using rt_unpack_run [OF h u N e(1), of ?ctx] by blast
  then show ?thesis using f rootfs.extracts [OF e, of "(?ctx, w)"] by (auto simp: boot_extract_def)
qed

lemma boot_fs_run:
  assumes f: "fresh_fs w0" and a: "boot_archive ms es" and t: "boots_to es t dev proc"
    and N: "128 * length (rt_files t) \<le> card (low_frames (fs_pfa w0))"
  shows "\<exists>w. boot_fs ms cpus w0 = Some w \<and> booted t dev proc cpus w \<and> pfa_inv (fs_pfa w) \<and> low_frames (fs_pfa w) \<subseteq> low_frames (fs_pfa w0) \<and>
    card (low_frames (fs_pfa w0)) \<le> card (low_frames (fs_pfa w)) + 128 * length (rt_files t)"
proof -
  let ?N = "card (low_frames (fs_pfa w0))"
  obtain t0 where t0: "rt_unpack es empty_tree = Some t0" "rt_make_dirs standard_dirs t0 = Some t"
    using t by (auto simp: boots_to_def bind_eq_Some_conv)
  note T = t [unfolded boots_to_def]
  have N0: "128 * length (rt_files t0) \<le> ?N" using N files_make_dirs [OF t0(2)] by simp
  obtain w1 where w1: "vfs_mount ''/'' ''ramfs'' (boot_register w0) = Some (0, w1)" "holds_tree ?N w1 empty_tree" "booting w0 1 w1"
    "devfs_node_count w1 = 0" "procfs_node_count w1 = 0" using root_holds_tree [OF f] by blast
  obtain w2 where w2: "boot_extract ms w1 = Some w2" "holds_tree ?N w2 t0" "same_beside w1 w2"
    using boot_extract_run [OF w1(2) a t0(1) N0] by blast
  obtain w3 where w3: "make_dirs standard_dirs w2 = Some w3" "holds_tree ?N w3 t" "same_beside w2 w3"
    using rt_make_dirs_run [OF w2(2) t0(2)] by blast
  have same: "same_beside w1 w3" using w2(3) w3(3) by (rule same_beside_trans)
  have b3: "booting w0 1 w3" using booting_beside [OF w1(3) same] .
  have c3: "devfs_node_count w3 = 0" "procfs_node_count w3 = 0" using same w1(4,5) by (simp_all add: same_beside_def)
  have dev: "tree_find {} (rt_dirs t) 0 (path_names device_dir) = Found dev" using tree_find_unmounted T by auto
  have proc: "tree_find {dev} (rt_dirs t) 0 (path_names process_dir) = Found proc"
    by (rule tree_find_unmounted [of "{dev, proc}"]) (use T in auto)
  have "(1 :: nat) < MAX_MOUNTS" by (simp add: MAX_MOUNTS_def)
  from devices_run [OF holds_treeD(1) [OF w3(2)] b3 this c3(1) dev]
  obtain v4 w4 where 4: "boot_devices w3 = Some w4" "mounts DevfsFs dev w3 v4" "table_step v4 w4" "keeps_files v4 w4" "tree_ok w4 (rt_count t) (rt_dirs t) {dev}"
    "booting w0 2 w4" "has_devices w4" "procfs_node_count w4 = 0" "fs_pfa w4 = fs_pfa w3"
    using T c3(2) by (auto simp: eval_nat_numeral)
  have "(2 :: nat) < MAX_MOUNTS" by (simp add: MAX_MOUNTS_def)
  from processes_run [OF 4(5,6) this 4(8) proc, of cpus]
  obtain v5 w5 where 5: "boot_processes cpus w4 = Some w5" "mounts ProcfsFs proc w4 v5" "table_step v5 w5" "keeps_files v5 w5"
    "tree_ok w5 (rt_count t) (rt_dirs t) {proc, dev}" "booting w0 (Suc 2) w5" "has_processes (fs_pfa w4) cpus w5" "devfs_node_count w5 = devfs_node_count w4"
    "devfs_children w5 = devfs_children w4" "\<forall>i. nodes w5 (DevfsNode i) = nodes w4 (DevfsNode i)" "nodes w5 DevfsRoot = nodes w4 DevfsRoot" "fs_pfa w5 = fs_pfa w4"
    using T by blast
  have run: "boot_fs ms cpus w0 = Some w5" using w1(1) w2(1) w3(1) 4(1) 5(1) by (simp add: boot_fs_def)
  have step: "ramfs_ok w' \<and> (\<forall>n. contents w' n = contents w n) \<and> g_fds w' = g_fds w \<and> (\<forall>i. i \<noteq> d \<longrightarrow> nodes w' (RamfsNode i) = nodes w (RamfsNode i)) \<and>
      mounted w' d (fs_root k) \<and> op_finddir (nodes w' (fs_root k)) = Some k"
    if w: "ramfs_ok w" "mounts k d w v" "table_step v w'" "keeps_files v w'" for k d w v w'
  proof -
    have kf: "keeps_files w v" using w(2) by (simp add: mounts_def)
    note k1 = keeps_files_ok [OF kf w(1)]
    have "op_finddir (nodes w' (fs_root k)) = Some k" using w(2,3) by (auto simp: mounts_def table_step_def fs_root_def)
    moreover have "mounted w' d (fs_root k)" using mounted_table [OF w(3)] w(2) by (simp add: mounts_def)
    ultimately show ?thesis using keeps_files_ok [OF w(4) k1(1)] k1(2) w(2,3) by (simp add: mounts_def table_step_def)
  qed
  note s4 = step [OF holds_treeD(2) [OF w3(2)] 4(2-4)]
  then have "ramfs_ok w4" by blast
  note s5 = step [OF this 5(2-4)]
  have other: "i \<noteq> dev \<and> i \<noteq> proc" if "rt_dirs t i = None" for i using T that by auto
  have m4: "mounted w5 dev DevfsRoot"
    using mounted_table [OF 5(3) mounted_mounts [OF 5(2)]] s4 T by (simp add: fs_root_def)
  have "booted t dev proc cpus w5"
    unfolding booted_def
  proof (intro conjI allI impI)
    show "tree_ok w5 (rt_count t) (rt_dirs t) {proc, dev}" by (rule 5(5))
    show "ramfs_ok w5" "mounted w5 proc ProcfsRoot" "op_finddir (nodes w5 ProcfsRoot) = Some ProcfsFs" using s5 by (simp_all add: fs_root_def)
    show "mounted w5 dev DevfsRoot" by (rule m4)
    show "op_finddir (nodes w5 DevfsRoot) = Some DevfsFs" using s4 5(11) by (simp add: fs_root_def)
    show "has_devices w5" using 4(7) 5(8-10) by (simp add: has_devices_def)
    show "has_processes (fs_pfa w5) cpus w5" using 5(7,12) by simp
  next
    fix i assume i: "i < rt_count t" "rt_dirs t i = None"
    show "regular (nodes w5 (RamfsNode i))" using holds_treeD(5) [OF w3(2) i] s4 s5 other [OF i(2)] by simp
    show "map_of (rt_files t) i = Some (contents w5 (RamfsNode i))" using holds_treeD(6) [OF w3(2) i] s4 s5 by simp
  next
    fix j :: nat assume "3 \<le> j" "j < MAX_FDS"
    then show "fd_refcount (g_fds w5 j) = 0" using holds_treeD(8) [OF w3(2)] s4 s5 by simp
  qed
  moreover have "pfa_inv (fs_pfa w5)" using s5 pages_invD(1) [OF ramfs_okD(1)] by blast
  moreover have "low_frames (fs_pfa w5) \<subseteq> low_frames (fs_pfa w0)" using 5(6) by (simp add: booting_def)
  moreover have "?N \<le> card (low_frames (fs_pfa w5)) + 128 * length (rt_files t)" using holds_treeD(4) [OF w3(2)] 4(9) 5(12) by simp
  ultimately show ?thesis using run by blast
qed

text \<open>What the paths below the two directories lead to.\<close>

lemma booted_paths:
  assumes b: "booted t dev proc cpus w" and t: "boots_to es t dev proc"
  shows "i < 4 \<Longrightarrow> vfs_resolve_path (device_dir @ slash # device_names ! i) w = Some (Some (DevfsNode i))"
    and "i < 3 \<Longrightarrow> vfs_resolve_path (process_dir @ slash # process_names ! i) w = Some (Some (ProcfsNode i))"
proof -
  note B = b [unfolded booted_def] and T = t [unfolded boots_to_def]
  have sw: "{proc, dev} = {dev, proc}" by blast
  have tree: "tree_ok w (rt_count t) (rt_dirs t) {dev, proc}" using B sw by simp
  have below: "vfs_resolve_path (p @ slash # x) w = walk_names (enter (RamfsNode d) w) [x] w"
    if p: "plain_path p" "tree_find {dev, proc} (rt_dirs t) 0 (path_names p) = Mounted d []" and x: "slash \<notin> set x" "x \<noteq> []" "length x \<le> 10" for p d x
  proof -
    let ?q = "p @ slash # x"
    have "?q \<noteq> []" "hd ?q = slash" "\<forall>y \<in> set (path_names ?q). length y \<le> 255"
      using p(1) x by (auto simp: plain_path_def dest!: path_names_length)
    from resolve_path_tree [OF tree this] show ?thesis
      using p(2) by (simp add: path_names_snoc [OF x(1,2)] tree_find_snoc)
  qed
  show "vfs_resolve_path (device_dir @ slash # device_names ! i) w = Some (Some (DevfsNode i))" if i: "i < 4"
  proof -
    have n: "slash \<notin> set (device_names ! i)" "device_names ! i \<noteq> []" "length (device_names ! i) \<le> 10"
    proof -
      have "i = 0 \<or> i = 1 \<or> i = 2 \<or> i = 3" using i by auto
      then show "slash \<notin> set (device_names ! i)" "device_names ! i \<noteq> []" "length (device_names ! i) \<le> 10"
        by (auto simp: device_names_def slash_def)
    qed
    have "enter (DevfsNode i) w = Some (DevfsNode i)" using B i by (simp add: enter_def has_devices_def vfs_flag_defs)
    then show ?thesis
      using below [OF table_dirs(1) _ n] T B mounted_enter [of w dev DevfsRoot] has_devices_find [of w i] i by (simp add: call_finddir_def)
  qed
  show "vfs_resolve_path (process_dir @ slash # process_names ! i) w = Some (Some (ProcfsNode i))" if i: "i < 3"
  proof -
    have n: "slash \<notin> set (process_names ! i)" "process_names ! i \<noteq> []" "length (process_names ! i) \<le> 10"
    proof -
      have "i = 0 \<or> i = 1 \<or> i = 2" using i by auto
      then show "slash \<notin> set (process_names ! i)" "process_names ! i \<noteq> []" "length (process_names ! i) \<le> 10"
        by (auto simp: process_names_def slash_def)
    qed
    have "enter (ProcfsNode i) w = Some (ProcfsNode i)" using B i by (simp add: enter_def has_processes_def vfs_flag_defs)
    then show ?thesis
      using below [OF table_dirs(3) _ n] T B mounted_enter [of w proc ProcfsRoot] has_processes_find [of "fs_pfa w" cpus w i] i by (simp add: call_finddir_def)
  qed
qed

lemma booted_fds:
  assumes "booted t dev proc cpus w" "\<forall>i. fd_refcount (g i) = fd_refcount (g_fds w i)"
  shows "booted t dev proc cpus (w\<lparr>g_fds := g\<rparr>)"
proof -
  have "keeps_files w (w\<lparr>g_fds := g\<rparr>)" by (simp add: keeps_files_def)
  moreover have "ramfs_ok w" using assms(1) by (simp add: booted_def)
  ultimately show ?thesis using assms keeps_files_ok
    by (simp add: booted_def tree_ok_def rdir_def mounted_def has_devices_def has_processes_def)
qed

section \<open>Properties\<close>

text \<open>C1. The boot of a system whose archive holds \<open>/System/Rhoudveine/Booter/init\<close>: from the zeroed pools, with the
  frames the files and the program need, \<open>kernel_main\<close> unpacks the archive, makes the standard directories, mounts the device and the
  process table in them, and enters the program at its entry point with \<open>fb_puts\<close> in its argument register, its segments in
  memory and its stack mapped.  The four devices and the three process entries are found under their
  paths, and every file of the archive has its bytes.\<close>

theorem boot_runs_init:
  assumes "fresh_fs (fs_of w)" "boot_archive ms es" "boots_to es t dev proc"
    and "tree_find {dev, proc} (rt_dirs t) 0 (path_names init_path) = Found n" "rt_dirs t n = None" "map_of (rt_files t) n = Some data"
    and "64 \<le> length data" "take 5 data = [0x7F, 0x45, 0x4C, 0x46, 2]"
    and "length qs = unat (e_phnum (read_hdr data))" "\<forall>i < length qs. phdr data i = Some (qs ! i)"
    and "\<forall>q \<in> set qs. segment_ok data q" "segments_disjoint qs" "bit (cr4 (s_elf w)) 21 \<longrightarrow> env_smap e"
    and "vm_ok L (e_vm (s_elf w))"
    and "128 * length (rt_files t) + 4 * (sum_list (map segment_frames qs) + 4) \<le> card (low_frames (vm_pfa (e_vm (s_elf w))))"
  shows "\<exists>w'. boot e ms cpus w = Some (RunsProgram (e_entry (read_hdr data)) INIT_STACK_TOP (env_fb_puts e), w') \<and>
    (\<forall>q \<in> set qs. segment_loaded data q (s_elf w')) \<and>
    (\<forall>x. STACK_BOTTOM \<le> unat x \<and> unat x < unat INIT_STACK_TOP \<longrightarrow> user_byte (s_elf w') x \<noteq> None) \<and>
    (\<forall>i < 4. vfs_resolve_path (device_dir @ slash # device_names ! i) (s_fs w') = Some (Some (DevfsNode i))) \<and>
    (\<forall>i < 3. vfs_resolve_path (process_dir @ slash # process_names ! i) (s_fs w') = Some (Some (ProcfsNode i))) \<and>
    (\<forall>i < rt_count t. rt_dirs t i = None \<longrightarrow> map_of (rt_files t) i = Some (contents (s_fs w') (RamfsNode i)))"
proof -
  have pfa: "fs_pfa (fs_of w) = vm_pfa (e_vm (s_elf w))" by simp
  have "128 * length (rt_files t) \<le> card (low_frames (fs_pfa (fs_of w)))" using assms(15) unfolding pfa by linarith
  from boot_fs_run [OF assms(1-3) this, of cpus] obtain fs where fs: "boot_fs ms cpus (fs_of w) = Some fs" "booted t dev proc cpus fs"
    "pfa_inv (fs_pfa fs)" "low_frames (fs_pfa fs) \<subseteq> low_frames (vm_pfa (e_vm (s_elf w)))"
    "card (low_frames (vm_pfa (e_vm (s_elf w)))) \<le> card (low_frames (fs_pfa fs)) + 128 * length (rt_files t)"
    unfolding pfa by blast
  note B = fs(2) [unfolded booted_def]
  have sw: "{proc, dev} = {dev, proc}" by blast
  have tree: "tree_ok fs (rt_count t) (rt_dirs t) {dev, proc}" using B sw by simp
  obtain es0 where "rt_dirs t 0 = Some es0" using tree_okD(3) [OF tree] by blast
  then have "0 < rt_count t" by (rule tree_okD(4) [OF tree])
  then have n: "n < rt_count t" using tree_find_less [OF tree] assms(4) by blast
  have "init_path \<noteq> []" "hd init_path = slash" "\<forall>y \<in> set (path_names init_path). length y \<le> 255"
    by (auto simp: init_path_def slash_def dest!: path_names_length)
  then have path: "vfs_resolve_path init_path fs = Some (Some (RamfsNode n))" using resolve_path_tree [OF tree] assms(4) by simp
  have reg: "regular (nodes fs (RamfsNode n))" "contents fs (RamfsNode n) = data" using B n assms(5,6) by auto
  have ok: "ramfs_ok fs" and free: "fd_refcount (g_fds fs 3) = 0" using B by (simp_all add: MAX_FDS_def)
  obtain fd fs1 fs2 g where r: "vfs_open init_path 0 fs = Some (int fd, fs1)"
    "vfs_read (int fd) EXEC_MAX_SIZE fs1 = Some (int (length data), data, fs2)"
    "vfs_close (int fd) fs2 = Some (0, fs\<lparr>g_fds := g\<rparr>)" "\<forall>i. fd_refcount (g i) = fd_refcount (g_fds fs i)"
    using read_whole_file [OF path ok, of 3] reg free unfolding regular_def by (auto simp: MAX_FDS_def)
  have size: "INIT_MAX_SIZE = EXEC_MAX_SIZE" by (simp add: INIT_MAX_SIZE_def EXEC_MAX_SIZE_def)
  let ?fs = "fs\<lparr>g_fds := g\<rparr>"
  let ?w = "put_fs fs w"
  let ?v = "(e_vm (s_elf w))\<lparr>vm_pfa := fs_pfa fs\<rparr>"
  have elf: "s_elf (put_fs ?fs ?w) = (s_elf w)\<lparr>e_vm := ?v\<rparr>" by (simp add: put_fs_def)
  have vm: "vm_ok L (e_vm ((s_elf w)\<lparr>e_vm := ?v\<rparr>))" using vm_ok_fewer [OF assms(14) fs(3,4)] by simp
  have len: "length data < 2 ^ 32" using contents_bound [OF ok, of "RamfsNode n"] unfolding reg(2) by simp
  have "4 * (sum_list (map segment_frames qs) + 4) \<le> card (low_frames (vm_pfa (e_vm ((s_elf w)\<lparr>e_vm := ?v\<rparr>))))"
    using assms(15) fs(5) by simp
  moreover have "bit (cr4 ((s_elf w)\<lparr>e_vm := ?v\<rparr>)) 21 \<longrightarrow> env_smap e" using assms(13) by simp
  ultimately
  obtain v where v: "elf64_load_and_run (env_smap e) (Some data) (env_fb_puts e) ((s_elf w)\<lparr>e_vm := ?v\<rparr>) =
      Some (Enter (e_entry (read_hdr data)) INIT_STACK_TOP (env_fb_puts e), v)"
    "\<forall>q \<in> set qs. segment_loaded data q v"
    "\<forall>x. STACK_BOTTOM \<le> unat x \<and> unat x < unat INIT_STACK_TOP \<longrightarrow> user_byte v x \<noteq> None"
    using elf_loads [OF vm assms(7) len assms(8-12), of "env_smap e" "env_fb_puts e"] by blast
  let ?w' = "(put_fs ?fs ?w)\<lparr>s_elf := v\<rparr>"
  have fsw: "fs_of ?w = fs" by (simp add: fs_of_def put_fs_def)
  have "data \<noteq> []" using assms(7) by auto
  then have "run_init e ?w = Some (RunsProgram (e_entry (read_hdr data)) INIT_STACK_TOP (env_fb_puts e), ?w')"
    using r(1-3) v(1) by (simp add: run_init_def fsw size elf Let_def)
  then have run: "boot e ms cpus w = Some (RunsProgram (e_entry (read_hdr data)) INIT_STACK_TOP (env_fb_puts e), ?w')"
    using fs(1) by (simp add: boot_def)
  have s: "s_fs ?w' = ?fs" "s_elf ?w' = v" by (simp_all add: put_fs_def)
  have b: "booted t dev proc cpus ?fs" by (rule booted_fds [OF fs(2) r(4)])
  show ?thesis
    by (rule exI [of _ ?w'], unfold s) (use run v(2,3) booted_paths [OF b assms(3)] b in \<open>simp add: booted_def\<close>)
qed

text \<open>A system with 255 free frames, whose archive has the three directories and the program \<open>demo_elf\<close>.\<close>

definition boot_entry :: "string \<Rightarrow> u8 \<Rightarrow> u8 list \<Rightarrow> tar_entry" where
  "boot_entry name ty data = \<lparr>te_name = map of_char name,
     te_rest = replicate 100 0 @ ustar @ replicate 250 0, te_type = ty, te_data = data\<rparr>"

definition demo_archive :: "tar_entry list" where
  "demo_archive = [boot_entry ''./System/'' 0x35 [], boot_entry ''./System/Rhoudveine/'' 0x35 [],
     boot_entry ''./System/Rhoudveine/Booter/'' 0x35 [],
     boot_entry ''./System/Rhoudveine/Booter/init'' 0x30 demo_elf]"

lemma boot_entry_name: "entry_name (boot_entry name ty data) = name"
  by (induction name) (simp_all add: entry_name_def boot_entry_def unat_of_char)

lemma boot_entry_ok:
  assumes "name \<noteq> []" "length name < 100" "CHR 0x00 \<notin> set name" "length data < 8 ^ 11" "ty \<in> {0x30, 0, 0x35}"
  shows "entry_ok (boot_entry name ty data)"
proof -
  have "(0 :: u8) \<notin> of_char ` set name"
  proof
    assume "(0 :: u8) \<in> of_char ` set name"
    then obtain c where c: "c \<in> set name" "(of_char c :: u8) = 0" by auto
    have "char_of (of_char c :: nat) = c" by simp
    moreover have "(of_char c :: nat) = unat (of_char c :: u8)" by (simp only: unat_of_char)
    ultimately have "c = char_of (0 :: nat)" using c(2) by simp
    then show False using c(1) assms(3) by (simp add: char_of_def)
  qed
  moreover have "length ustar = 5" by (simp add: ustar_def)
  ultimately show ?thesis using assms by (simp add: entry_ok_def boot_entry_def)
qed

lemmas rt_eval = rt_entry_def rt_mkdir_def rt_file_def rt_parent_def plain_path_def entry_path_def no_last_slash_def dir_part_def
  path_names_def slash_def MAX_RAMFS_NODES_def RAMFS_MAX_CHILDREN_def MAX_RAMFS_FILES_def

definition demo_unpacked :: ram_tree where
  "demo_unpacked = \<lparr>rt_count = 6,
     rt_dirs = [0 \<mapsto> [(''System'', 1)], 1 \<mapsto> [(''Rhoudveine'', 2)], 2 \<mapsto> [(''Booter'', 3), (''Booter'', 4)], 3 \<mapsto> [(''init'', 5)], 4 \<mapsto> []],
     rt_files = [(5, demo_elf)]\<rparr>"

definition demo_booted :: ram_tree where
  "demo_booted = \<lparr>rt_count = 12,
     rt_dirs = [0 \<mapsto> [(''System'', 1), (''System'', 6)], 1 \<mapsto> [(''Rhoudveine'', 2), (''Rhoudveine'', 7)],
       2 \<mapsto> [(''Booter'', 3), (''Booter'', 4), (''Booter'', 8), (''Runtime'', 9)], 3 \<mapsto> [(''init'', 5)], 4 \<mapsto> [], 6 \<mapsto> [], 7 \<mapsto> [], 8 \<mapsto> [],
       9 \<mapsto> [(''Device'', 10), (''Process'', 11)], 10 \<mapsto> [], 11 \<mapsto> []],
     rt_files = [(5, demo_elf)]\<rparr>"

lemma demo_archive_tree: "rt_unpack demo_archive empty_tree = Some demo_unpacked"
proof -
  have ne: "demo_elf \<noteq> []" using demo_elf_slices(11) by auto
  let ?dir = "\<lambda>p. boot_entry p 0x35 []"
  let ?t1 = "\<lparr>rt_count = 2, rt_dirs = [0 \<mapsto> [(''System'', 1)], 1 \<mapsto> []], rt_files = []\<rparr>"
  let ?t2 = "\<lparr>rt_count = 3, rt_dirs = [0 \<mapsto> [(''System'', 1)], 1 \<mapsto> [(''Rhoudveine'', 2)], 2 \<mapsto> []], rt_files = []\<rparr>"
  let ?t3 = "\<lparr>rt_count = 4, rt_dirs = [0 \<mapsto> [(''System'', 1)], 1 \<mapsto> [(''Rhoudveine'', 2)], 2 \<mapsto> [(''Booter'', 3)], 3 \<mapsto> []], rt_files = []\<rparr>"
  have "rt_entry (?dir ''./System/'') empty_tree = Some ?t1"
    by (simp add: rt_eval boot_entry_name empty_tree_def Let_def) (simp add: boot_entry_def)
  moreover have "rt_entry (?dir ''./System/Rhoudveine/'') ?t1 = Some ?t2"
    by (simp add: rt_eval boot_entry_name Let_def) (simp add: boot_entry_def fun_eq_iff)
  moreover have "rt_entry (?dir ''./System/Rhoudveine/Booter/'') ?t2 = Some ?t3"
    by (simp add: rt_eval boot_entry_name Let_def) (simp add: boot_entry_def fun_eq_iff)
  moreover have "rt_entry (boot_entry ''./System/Rhoudveine/Booter/init'' 0x30 demo_elf) ?t3 = Some demo_unpacked"
    by (simp add: rt_eval boot_entry_name Let_def) (simp add: boot_entry_def demo_unpacked_def fun_eq_iff demo_elf_slices ne)
  ultimately show ?thesis by (simp add: demo_archive_def)
qed

lemma demo_archive_ok: "\<forall>e \<in> set demo_archive. entry_ok e"
  unfolding demo_archive_def
  by (simp, intro conjI) (rule boot_entry_ok; simp add: demo_elf_slices)+

lemma demo_dirs_tree: "rt_make_dirs standard_dirs demo_unpacked = Some demo_booted"
  by (simp add: standard_dirs_def rt_eval demo_unpacked_def Let_def) (simp add: demo_booted_def fun_eq_iff)

lemma demo_boots: "boots_to demo_archive demo_booted 10 11"
  "tree_find {10, 11} (rt_dirs demo_booted) 0 (path_names init_path) = Found 5"
  "rt_dirs demo_booted 5 = None" "map_of (rt_files demo_booted) 5 = Some demo_elf" "length (rt_files demo_booted) = 1"
  by (simp_all add: boots_to_def demo_archive_tree demo_dirs_tree)
    (simp_all add: demo_booted_def device_dir_def process_dir_def init_path_def path_names_def slash_def)

lemma demo_archive_size: "length (archive demo_archive) < 2 ^ 63"
proof -
  have "length (entry_bytes e) = 512 + (length (te_data e) + 511) div 512 * 512" if "e \<in> set demo_archive" for e
    using entry_length demo_archive_ok that by blast
  then show ?thesis by (simp add: archive_def demo_archive_def) (simp add: boot_entry_def demo_elf_slices)
qed

definition demo_boot_fs :: fs_world where "demo_boot_fs = empty_world\<lparr>fs_pfa := demo_pfa256\<rparr>"

lemma demo_boot_fresh: "fresh_fs demo_boot_fs"
  using demo256_inv by (simp add: fresh_fs_def demo_boot_fs_def empty_world_def hhdm_ok_def)

theorem boot_runs_init_witness:
  "\<forall>f h u i c. \<exists>w'. boot \<lparr>env_font = f, env_ports = h, env_usb = u, env_smap = True, env_fb_puts = 0x123, env_entry = 0, env_vfs = False\<rparr>
     [(Some ''boot:///rootfs.tar'', archive demo_archive)] 1
     \<lparr>s_fs = demo_boot_fs, s_elf = demo_machine, s_in = i, s_con = c, s_cwd = ''/'', s_outw = [], s_msr = (\<lambda>_. 0)\<rparr> =
       Some (RunsProgram 0x400000 INIT_STACK_TOP 0x123, w') \<and>
     vfs_resolve_path ''/System/Rhoudveine/Runtime/Device/eth0'' (s_fs w') = Some (Some (DevfsNode 2))"
proof (intro allI)
  fix f h u i c
  let ?e = "\<lparr>env_font = f, env_ports = h, env_usb = u, env_smap = True, env_fb_puts = 0x123, env_entry = 0, env_vfs = False\<rparr>"
  let ?w = "\<lparr>s_fs = demo_boot_fs, s_elf = demo_machine, s_in = i, s_con = c, s_cwd = ''/'', s_outw = [], s_msr = (\<lambda>_. 0)\<rparr>"
  let ?ms = "[(Some ''boot:///rootfs.tar'', archive demo_archive)]"
  have fs: "fs_of ?w = demo_boot_fs" by (simp add: fs_of_def demo_machine_def demo_boot_fs_def)
  have sel: "s_elf ?w = demo_machine" "env_smap ?e" "env_fb_puts ?e = 0x123" by simp_all
  have disj: "segments_disjoint [demo_phdr]" by (simp add: segments_disjoint_def)
  have arch: "boot_archive ?ms demo_archive" using demo_archive_ok demo_archive_size by (simp add: boot_archive_def)
  have "\<exists>w'. boot ?e ?ms 1 ?w = Some (RunsProgram (e_entry (read_hdr demo_elf)) INIT_STACK_TOP (env_fb_puts ?e), w') \<and>
    (\<forall>q \<in> set [demo_phdr]. segment_loaded demo_elf q (s_elf w')) \<and>
    (\<forall>x. STACK_BOTTOM \<le> unat x \<and> unat x < unat INIT_STACK_TOP \<longrightarrow> user_byte (s_elf w') x \<noteq> None) \<and>
    (\<forall>i < 4. vfs_resolve_path (device_dir @ slash # device_names ! i) (s_fs w') = Some (Some (DevfsNode i))) \<and>
    (\<forall>i < 3. vfs_resolve_path (process_dir @ slash # process_names ! i) (s_fs w') = Some (Some (ProcfsNode i))) \<and>
    (\<forall>i < rt_count demo_booted. rt_dirs demo_booted i = None \<longrightarrow> map_of (rt_files demo_booted) i = Some (contents (s_fs w') (RamfsNode i)))"
    by (rule boot_runs_init [OF _ arch demo_boots(1-4), where L = "[0x100000 \<mapsto> 4]"])
      (use demo_boot_fresh demo_elf_slices(11,12) demo_elf_headers demo_phdr_ok demo_machine_sel demo_machine_ok disj demo_boots(5)
       in \<open>simp_all only: fs sel list.set list.size\<close>, simp_all)
  then obtain w' where w': "boot ?e ?ms 1 ?w = Some (RunsProgram 0x400000 INIT_STACK_TOP 0x123, w')"
    "\<forall>i < 4. vfs_resolve_path (device_dir @ slash # device_names ! i) (s_fs w') = Some (Some (DevfsNode i))"
    by (auto simp: demo_elf_headers)
  from w'(2) [rule_format, of 2]
  have "vfs_resolve_path ''/System/Rhoudveine/Runtime/Device/eth0'' (s_fs w') = Some (Some (DevfsNode 2))"
    by (simp add: device_dir_def device_names_def slash_def)
  with w'(1) show "\<exists>w'. boot ?e ?ms 1 ?w = Some (RunsProgram 0x400000 INIT_STACK_TOP 0x123, w') \<and>
     vfs_resolve_path ''/System/Rhoudveine/Runtime/Device/eth0'' (s_fs w') = Some (Some (DevfsNode 2))" by blast
qed

text \<open>C18. Unpacking a well-formed archive into a RAM file system takes the tree it holds to the tree with the
  archive's entries added in order (\<open>rt_unpack\<close>): the whole run returns 0, every file is counted and no error, and in the new
  system every path of the tree that ends in a file resolves to a node whose contents are exactly the bytes of the
  archive's entry.  The sizes are read from 11 octal digits; \<open>octal_field\<close> is how a writer of archives forms them.\<close>

theorem tar_unpacks_archive:
  assumes "holds_tree N w t" "\<forall>e \<in> set es. entry_ok e" "length (archive es) < 2 ^ 63"
    and "rt_unpack es t = Some t'" "128 * length (rt_files t') \<le> N"
  shows "\<exists>ctx' w'. tar_extract_all (archive es) rootfs_extract_callback (ctx, w) = Some (0, (ctx', w')) \<and>
    holds_tree N w' t' \<and> counts_files ctx t ctx' t' \<and>
    (\<forall>p i. plain_path p \<longrightarrow> tree_find {} (rt_dirs t') 0 (path_names p) = Found i \<longrightarrow> rt_dirs t' i = None \<longrightarrow>
       vfs_resolve_path p w' = Some (Some (RamfsNode i)) \<and> map_of (rt_files t') i = Some (contents w' (RamfsNode i)))"
proof -
  obtain ctx' w' where run: "unpack rootfs_extract_callback es (ctx, w) = Some (0, (ctx', w'))" "holds_tree N w' t'" "counts_files ctx t ctx' t'"
    using rt_unpack_run [OF assms(1,4,5,2), of ctx] by blast
  note T = holds_treeD [OF run(2)]
  have "vfs_resolve_path p w' = Some (Some (RamfsNode i)) \<and> map_of (rt_files t') i = Some (contents w' (RamfsNode i))"
    if p: "plain_path p" and f: "tree_find {} (rt_dirs t') 0 (path_names p) = Found i" "rt_dirs t' i = None" for p i
  proof -
    have "p \<noteq> []" "hd p = slash" "\<forall>y \<in> set (path_names p). length y \<le> 255"
      using p by (auto simp: plain_path_def dest!: path_names_length)
    moreover obtain r where "rt_dirs t' 0 = Some r" using tree_okD(3) [OF T(1)] by blast
    then have "0 < rt_count t'" by (rule tree_okD(4) [OF T(1)])
    then have "i < rt_count t'" using tree_find_less [OF T(1) _ f(1)] by simp
    ultimately show ?thesis using resolve_path_tree [OF T(1)] f T(6) by simp
  qed
  then show ?thesis using rootfs.extracts [OF assms(2,3), of "(ctx, w)"] run by auto
qed

theorem tar_unpacks_archive_witness:
  "\<exists>w w' ctx'. vfs_mount ''/'' ''ramfs'' (boot_register demo_boot_fs) = Some (0, w) \<and>
     tar_extract_all (archive demo_archive) rootfs_extract_callback (\<lparr>file_count = 0, dir_count = 0, error_count = 0\<rparr>, w) = Some (0, (ctx', w')) \<and>
     file_count ctx' = 1 \<and> error_count ctx' = 0 \<and>
     vfs_resolve_path ''/System/Rhoudveine/Booter/init'' w' = Some (Some (RamfsNode 5)) \<and> contents w' (RamfsNode 5) = demo_elf"
proof -
  obtain w where w: "vfs_mount ''/'' ''ramfs'' (boot_register demo_boot_fs) = Some (0, w)"
      "holds_tree (card (low_frames (fs_pfa demo_boot_fs))) w empty_tree"
    using root_holds_tree [OF demo_boot_fresh] by blast
  have room: "128 * length (rt_files demo_unpacked) \<le> card (low_frames (fs_pfa demo_boot_fs))" 
    by (simp add: demo_unpacked_def demo_boot_fs_def demo256_card)
  let ?c = "\<lparr>file_count = 0, dir_count = 0, error_count = 0\<rparr>"
  obtain ctx' w' where u: "tar_extract_all (archive demo_archive) rootfs_extract_callback (?c, w) = Some (0, (ctx', w'))"
      "counts_files ?c empty_tree ctx' demo_unpacked"
      "\<forall>p i. plain_path p \<longrightarrow> tree_find {} (rt_dirs demo_unpacked) 0 (path_names p) = Found i \<longrightarrow> rt_dirs demo_unpacked i = None \<longrightarrow>
       vfs_resolve_path p w' = Some (Some (RamfsNode i)) \<and> map_of (rt_files demo_unpacked) i = Some (contents w' (RamfsNode i))"
    using tar_unpacks_archive [OF w(2) demo_archive_ok demo_archive_size demo_archive_tree room, of ?c] by blast
  have "file_count ctx' = 1" "error_count ctx' = 0"
    using u(2) by (simp_all add: counts_files_def demo_unpacked_def empty_tree_def)
  moreover have "vfs_resolve_path ''/System/Rhoudveine/Booter/init'' w' = Some (Some (RamfsNode 5))" "contents w' (RamfsNode 5) = demo_elf"
    using u(3) [rule_format, of "''/System/Rhoudveine/Booter/init''" 5]
    by (simp_all add: plain_path_def slash_def path_names_def demo_unpacked_def)
  ultimately show ?thesis using w(1) u(1) by blast
qed

text \<open>The tree of a system without an archive.\<close>

definition bare_tree :: ram_tree where
  "bare_tree = \<lparr>rt_count = 7,
     rt_dirs = [0 \<mapsto> [(''System'', 1)], 1 \<mapsto> [(''Rhoudveine'', 2)], 2 \<mapsto> [(''Booter'', 3), (''Runtime'', 4)], 3 \<mapsto> [],
       4 \<mapsto> [(''Device'', 5), (''Process'', 6)], 5 \<mapsto> [], 6 \<mapsto> []],
     rt_files = []\<rparr>"

lemma bare_boots: "boots_to [] bare_tree 5 6" "tree_find {5, 6} (rt_dirs bare_tree) 0 (path_names init_path) = Missing"
  "tree_find {5, 6} (rt_dirs bare_tree) 0 (path_names ''/System/Rhoudveine/Booter'') = Found 3"
proof -
  have t: "rt_make_dirs standard_dirs empty_tree = Some bare_tree"
    by (simp add: standard_dirs_def rt_eval empty_tree_def Let_def) (simp add: bare_tree_def fun_eq_iff)
  show "boots_to [] bare_tree 5 6" "tree_find {5, 6} (rt_dirs bare_tree) 0 (path_names init_path) = Missing"
    "tree_find {5, 6} (rt_dirs bare_tree) 0 (path_names ''/System/Rhoudveine/Booter'') = Found 3"
    by (simp_all add: boots_to_def t) (simp_all add: bare_tree_def device_dir_def process_dir_def init_path_def path_names_def slash_def)
qed

text \<open>C17. The boot of a system whose modules hold no archive: \<open>kernel_main\<close> makes the standard directories, mounts the
  device and the process table in them, finds no \<open>init\<close> and falls back to the init shell; the four devices are found under
  their paths, and reading a process entry returns its text, \<open>meminfo\<close> with the total and the free memory of the
  frame allocator in megabytes.\<close>

theorem boot_without_archive:
  assumes "fresh_fs (fs_of w)" "find_rootfs ms = None"
  shows "\<exists>w'. boot e ms cpus w = Some (RunsInitShell, w') \<and>
    vfs_resolve_path ''/System/Rhoudveine/Booter'' (s_fs w') = Some (Some (RamfsNode 3)) \<and> is_dir (nodes (s_fs w') (RamfsNode 3)) \<and>
    (\<forall>i < 4. vfs_resolve_path (device_dir @ slash # device_names ! i) (s_fs w') = Some (Some (DevfsNode i))) \<and>
    (\<forall>i < 3. vfs_resolve_path (process_dir @ slash # process_names ! i) (s_fs w') = Some (Some (ProcfsNode i)) \<and>
      procfs_read (ProcfsNode i) 0 256 (s_fs w') =
        (let txt = take 255 (process_texts (fs_pfa (s_fs w')) cpus ! i) in (int (length txt), map of_char txt)))"
proof -
  have a: "boot_archive ms []" using assms(2) by (simp add: boot_archive_def)
  have "128 * length (rt_files bare_tree) \<le> card (low_frames (fs_pfa (fs_of w)))" by (simp add: bare_tree_def)
  from boot_fs_run [OF assms(1) a bare_boots(1) this, of cpus] obtain fs where fs: "boot_fs ms cpus (fs_of w) = Some fs" "booted bare_tree 5 6 cpus fs" by blast
  note B = fs(2) [unfolded booted_def]
  have sw: "{6, 5} = {5, 6 :: nat}" by blast
  have tree: "tree_ok fs (rt_count bare_tree) (rt_dirs bare_tree) {5, 6}" using B sw by simp
  have "init_path \<noteq> []" "hd init_path = slash" "\<forall>y \<in> set (path_names init_path). length y \<le> 255"
    by (auto simp: init_path_def slash_def dest!: path_names_length)
  then have none: "vfs_resolve_path init_path fs = Some None" using resolve_path_tree [OF tree] bare_boots(2) by simp
  let ?b = "''/System/Rhoudveine/Booter''"
  have "?b \<noteq> []" "hd ?b = slash" "\<forall>y \<in> set (path_names ?b). length y \<le> 255"
    by (auto simp: slash_def dest!: path_names_length)
  then have booter: "vfs_resolve_path ?b fs = Some (Some (RamfsNode 3))" using resolve_path_tree [OF tree] bare_boots(3) by simp
  have "rt_dirs bare_tree 3 = Some []" by (simp add: bare_tree_def)
  from tree_okD(5) [OF tree this] have dir: "is_dir (nodes fs (RamfsNode 3))" by (simp add: rdir_def)
  have fsw: "fs_of (put_fs fs w) = fs" by (simp add: fs_of_def put_fs_def)
  let ?w' = "put_fs fs (put_fs fs w)"
  have "run_init e (put_fs fs w) = Some (RunsInitShell, ?w')" using none by (simp add: run_init_def fsw vfs_open_def)
  then have run: "boot e ms cpus w = Some (RunsInitShell, ?w')" using fs(1) by (simp add: boot_def)
  have s: "s_fs ?w' = fs" by (simp add: put_fs_def)
  have "procfs_read (ProcfsNode i) 0 256 fs = (let txt = take 255 (process_texts (fs_pfa fs) cpus ! i) in (int (length txt), map of_char txt))"
    if i: "i < 3" for i
  proof -
    let ?txt = "take 255 (process_texts (fs_pfa fs) cpus ! i)"
    have d: "node_data (nodes fs (ProcfsNode i)) = TextData i" "procfs_content fs i = ?txt" using B i by (simp_all add: has_processes_def)
    have len: "length ?txt < 256" by simp
    have ne: "?txt \<noteq> []"
    proof -
      have "i = 0 \<or> i = 1 \<or> i = 2" using i by auto
      then show ?thesis by (auto simp: process_texts_def meminfo_def cpuinfo_def)
    qed
    have "unat (of_nat (length ?txt) :: u64) = length ?txt" using len by (intro unat_of_nat_small) simp
    then have "\<not> (of_nat (length ?txt) :: u64) \<le> 0" using ne by (simp add: word_le_nat_alt)
    moreover have "procfs_copy 256 0 0 ?txt = map of_char ?txt"
      using procfs_copy_take [of 0 0 ?txt 256] len by simp
    ultimately show ?thesis by (simp add: procfs_read_def d Let_def)
  qed
  then show ?thesis
    by (intro exI [of _ ?w'], unfold s) (use run booter dir booted_paths [OF fs(2) bare_boots(1)] in simp)
qed

theorem boot_without_archive_witness:
  "\<forall>e i c. \<exists>w'. boot e [(Some ''quiet'', [])] 4 \<lparr>s_fs = demo_boot_fs, s_elf = demo_machine, s_in = i, s_con = c, s_cwd = ''/'', s_outw = [], s_msr = (\<lambda>_. 0)\<rparr> =
     Some (RunsInitShell, w') \<and> vfs_resolve_path ''/System/Rhoudveine/Runtime/Process/meminfo'' (s_fs w') = Some (Some (ProcfsNode 1))"
proof (intro allI)
  fix e i c
  let ?w = "\<lparr>s_fs = demo_boot_fs, s_elf = demo_machine, s_in = i, s_con = c, s_cwd = ''/'', s_outw = [], s_msr = (\<lambda>_. 0)\<rparr>"
  have fs: "fs_of ?w = demo_boot_fs" by (simp add: fs_of_def demo_machine_def demo_boot_fs_def)
  have "fresh_fs (fs_of ?w)" unfolding fs by (rule demo_boot_fresh)
  moreover have "find_rootfs [(Some ''quiet'', [])] = None" by simp
  ultimately obtain w' where w': "boot e [(Some ''quiet'', [])] 4 ?w = Some (RunsInitShell, w')"
    "\<forall>i < 3. vfs_resolve_path (process_dir @ slash # process_names ! i) (s_fs w') = Some (Some (ProcfsNode i))"
    using boot_without_archive [of ?w "[(Some ''quiet'', [])]" e 4] by blast
  from w'(2) [rule_format, of 1]
  have "vfs_resolve_path ''/System/Rhoudveine/Runtime/Process/meminfo'' (s_fs w') = Some (Some (ProcfsNode 1))"
    by (simp add: process_dir_def process_names_def slash_def)
  with w'(1) show "\<exists>w'. boot e [(Some ''quiet'', [])] 4 ?w = Some (RunsInitShell, w') \<and>
      vfs_resolve_path ''/System/Rhoudveine/Runtime/Process/meminfo'' (s_fs w') = Some (Some (ProcfsNode 1))" by blast
qed

end
