(* ===== verification/Nvec.thy ===== *)
theory Nvec
  imports Hardware "HOL-Library.Signed_Division"
begin

text \<open>
  The graphics mode of \<open>drivers/nvec.c\<close>: drawing on the framebuffer, the particles, the calibration of the time stamp
  counter, and the change between shell and graphics.  The C integers of the layout are \<open>int\<close> here; on a screen of less than
  \<open>2 ^ 18\<close> pixels in each direction none of them leaves 32 bits.  Pixels are the words at an index from
  \<open>g_fb.addr\<close>; \<open>tsc k\<close> is what the \<open>k\<close>-th read of the machine returns if it is one of the counter.
\<close>

section \<open>State\<close>

datatype display_mode = DISPLAY_MODE_SHELL | DISPLAY_MODE_GRAPHICS

record particle =
  p_angle :: u8
  p_speed :: u8
  p_rx :: int
  p_ry :: int
  p_colour :: u32
  p_size :: u8

record nvec = machine +
  pixels :: "nat \<Rightarrow> u32"
  fb_width :: u32
  fb_height :: u32
  fb_pitch :: u32
  g_ready :: bool
  g_mode :: display_mode
  g_particles :: "particle list"
  g_cx :: int
  g_cy :: int
  g_particles_ready :: bool
  g_rand_state :: u32
  g_tsc_khz :: u64
  g_tsc_last :: u64
  g_frame_count :: u32
  g_fps_display :: u32
  fade_skip :: u8
  g_shell_backup :: "nat \<Rightarrow> u32"
  g_backup_valid :: bool

definition COL_BG :: u32 where "COL_BG = 0x0D0D1A"
definition COL_ACCENT :: u32 where "COL_ACCENT = 0x00CFFF"
definition COL_GLOW :: u32 where "COL_GLOW = 0x003366"
definition COL_BAR_BG :: u32 where "COL_BAR_BG = 0x0A0A18"
definition COL_BAR_TEXT :: u32 where "COL_BAR_TEXT = 0x4466AA"
definition COL_P0 :: u32 where "COL_P0 = 0x00CFFF"
definition COL_P1 :: u32 where "COL_P1 = 0x0088CC"
definition COL_P2 :: u32 where "COL_P2 = 0x004488"

definition width_int :: "nvec \<Rightarrow> int" where "width_int s = sint (fb_width s)"
definition height_int :: "nvec \<Rightarrow> int" where "height_int s = sint (fb_height s)"

section \<open>Pixels\<close>

text \<open>The index is computed in 32 bits, as \<open>g_fb.pitch\<close> is unsigned.\<close>

definition pixel_index :: "nvec \<Rightarrow> int \<Rightarrow> int \<Rightarrow> nat" where
  "pixel_index s x y = unat (of_int y * (fb_pitch s div 4) + of_int x :: u32)"

definition fb_put :: "int \<Rightarrow> int \<Rightarrow> u32 \<Rightarrow> nvec \<Rightarrow> nvec" where
  "fb_put x y col s =
     (if of_int x \<ge> fb_width s \<or> of_int y \<ge> fb_height s then s
      else s\<lparr>pixels := (pixels s)(pixel_index s x y := col)\<rparr>)"

definition fb_get :: "int \<Rightarrow> int \<Rightarrow> nvec \<Rightarrow> u32" where
  "fb_get x y s =
     (if of_int x \<ge> fb_width s \<or> of_int y \<ge> fb_height s then 0 else pixels s (pixel_index s x y))"

definition fb_fill_rect :: "int \<Rightarrow> int \<Rightarrow> int \<Rightarrow> int \<Rightarrow> u32 \<Rightarrow> nvec \<Rightarrow> nvec" where
  "fb_fill_rect x y w h col s =
     (if w \<le> 0 \<or> h \<le> 0 then s else fold (\<lambda>ry. fold (\<lambda>rx. fb_put rx ry col) [x .. x + w - 1]) [y .. y + h - 1] s)"

section \<open>The sine table\<close>

definition g_sin256 :: "int list" where
  "g_sin256 =
    [0, 25, 50, 75, 100, 125, 150, 174, 198, 222, 245, 268, 290, 312, 333, 354,
     374, 394, 412, 430, 448, 464, 480, 495, 509, 522, 535, 546, 556, 566, 574, 582,
     589, 595, 600, 604, 607, 609, 610, 610, 610, 609, 607, 604, 600, 595, 589, 582,
     574, 566, 556, 546, 535, 522, 509, 495, 480, 464, 448, 430, 412, 394, 374, 354,
     333, 312, 290, 268, 245, 222, 198, 174, 150, 125, 100, 75, 50, 25, 0, -25,
     -50, -75, -100, -125, -150, -174, -198, -222, -245, -268, -290, -312, -333, -354, -374, -394,
     -412, -430, -448, -464, -480, -495, -509, -522, -535, -546, -556, -566, -574, -582, -589, -595,
     -600, -604, -607, -609, -610, -610, -610, -609, -607, -604, -600, -595, -589, -582, -574, -566,
     -556, -546, -535, -522, -509, -495, -480, -464, -448, -430, -412, -394, -374, -354, -333, -312,
     -290, -268, -245, -222, -198, -174, -150, -125, -100, -75, -50, -25, 0, 25, 50, 75,
     100, 125, 150, 174, 198, 222, 245, 268, 290, 312, 333, 354, 374, 394, 412, 430,
     448, 464, 480, 495, 509, 522, 535, 546, 556, 566, 574, 582, 589, 595, 600, 604,
     607, 609, 610, 610, 610, 609, 607, 604, 600, 595, 589, 582, 574, 566, 556, 546,
     535, 522, 509, 495, 480, 464, 448, 430, 412, 394, 374, 354, 333, 312, 290, 268,
     245, 222, 198, 174, 150, 125, 100, 75, 50, 25, 0, -25, -50, -75, -100, -125,
     -150, -174, -198, -222, -245, -268, -290, -312, -333, -354, -374, -394, -412, -430, -448, -464]"

definition isin :: "u8 \<Rightarrow> int" where "isin a = g_sin256 ! unat a"
definition icos :: "u8 \<Rightarrow> int" where "icos a = g_sin256 ! unat (a + 64)"

section \<open>Lines and letters\<close>

definition PX :: "int \<Rightarrow> int \<Rightarrow> int \<Rightarrow> int" where "PX ox ux GW = ox + (ux * GW) sdiv 10"
definition PY :: "int \<Rightarrow> int \<Rightarrow> int \<Rightarrow> int" where "PY oy uy GH = oy + (uy * GH) sdiv 16"
definition THICK :: "int \<Rightarrow> int" where "THICK GW = (if (GW * 8) sdiv 100 < 2 then 2 else (GW * 8) sdiv 100)"

text \<open>The products are those of \<open>int\<close>; they leave 32 bits only on screens some ten thousand pixels wide.\<close>

definition thick_line :: "int \<Rightarrow> int \<Rightarrow> int \<Rightarrow> int \<Rightarrow> int \<Rightarrow> u32 \<Rightarrow> nvec \<Rightarrow> nvec" where
  "thick_line x0 y0 x1 y1 T col s =
     (let dx = x1 - x0; dy = y1 - y0;
          adx = (if dx < 0 then - dx else dx); ady = (if dy < 0 then - dy else dy);
          steps = (if adx > ady then adx else ady);
          steps = (if steps = 0 then 1 else steps)
      in fold (\<lambda>i. let cx = x0 + (dx * i) sdiv steps; cy = y0 + (dy * i) sdiv steps in
                   if adx \<ge> ady then fb_fill_rect cx (cy - T) 1 (T * 2 + 1) col
                   else fb_fill_rect (cx - T) cy (T * 2 + 1) 1 col) [0 .. steps] s)"

definition draw_letter_N :: "int \<Rightarrow> int \<Rightarrow> int \<Rightarrow> int \<Rightarrow> nvec \<Rightarrow> nvec" where
  "draw_letter_N ox oy GW GH s =
     (let T = THICK GW; sw = T * 2 + 1;
          s = fb_fill_rect (PX ox 1 GW) (PY oy 0 GH) sw GH COL_ACCENT s;
          s = fb_fill_rect (PX ox 8 GW) (PY oy 0 GH) sw GH COL_ACCENT s
      in thick_line (PX ox 1 GW) (PY oy 0 GH) (PX ox 9 GW) (PY oy 16 GH) T COL_ACCENT s)"

definition draw_letter_V :: "int \<Rightarrow> int \<Rightarrow> int \<Rightarrow> int \<Rightarrow> nvec \<Rightarrow> nvec" where
  "draw_letter_V ox oy GW GH s =
     (let T = THICK GW;
          s = thick_line (PX ox 0 GW) (PY oy 0 GH) (PX ox 5 GW) (PY oy 16 GH) T COL_ACCENT s
      in thick_line (PX ox 10 GW) (PY oy 0 GH) (PX ox 5 GW) (PY oy 16 GH) T COL_ACCENT s)"

definition draw_letter_E :: "int \<Rightarrow> int \<Rightarrow> int \<Rightarrow> int \<Rightarrow> nvec \<Rightarrow> nvec" where
  "draw_letter_E ox oy GW GH s =
     (let T = THICK GW; sw = T * 2 + 1; bar_w = PX ox 9 GW - PX ox 1 GW;
          s = fb_fill_rect (PX ox 1 GW) (PY oy 0 GH) sw GH COL_ACCENT s;
          s = fb_fill_rect (PX ox 1 GW) (PY oy 0 GH) bar_w sw COL_ACCENT s;
          s = fb_fill_rect (PX ox 1 GW) (PY oy 8 GH) ((bar_w * 8) sdiv 10) sw COL_ACCENT s
      in fb_fill_rect (PX ox 1 GW) (PY oy 16 GH - sw) bar_w sw COL_ACCENT s)"

definition draw_letter_C :: "int \<Rightarrow> int \<Rightarrow> int \<Rightarrow> int \<Rightarrow> nvec \<Rightarrow> nvec" where
  "draw_letter_C ox oy GW GH s =
     (let T = THICK GW; sw = T * 2 + 1; bar_w = PX ox 9 GW - PX ox 1 GW;
          s = fb_fill_rect (PX ox 1 GW) (PY oy 0 GH) sw GH COL_ACCENT s;
          s = fb_fill_rect (PX ox 1 GW) (PY oy 0 GH) bar_w sw COL_ACCENT s
      in fb_fill_rect (PX ox 1 GW) (PY oy 16 GH - sw) bar_w sw COL_ACCENT s)"

definition draw_glow :: "int \<Rightarrow> int \<Rightarrow> int \<Rightarrow> int \<Rightarrow> nvec \<Rightarrow> nvec" where
  "draw_glow ox oy GW GH s = (let pad = 8 in fb_fill_rect (ox - pad) (oy - pad) (GW + pad * 2) (GH + pad * 2) COL_GLOW s)"

section \<open>Text\<close>

definition g_font :: "(char \<times> u8 list) list" where
  "g_font =
    [(CHR '' '', [0, 0, 0, 0, 0, 0, 0]), (CHR ''A'', [0x04, 0x0A, 0x11, 0x1F, 0x11, 0x11, 0x11]),
     (CHR ''B'', [0x1E, 0x11, 0x11, 0x1E, 0x11, 0x11, 0x1E]), (CHR ''C'', [0x0E, 0x11, 0x10, 0x10, 0x10, 0x11, 0x0E]),
     (CHR ''D'', [0x1E, 0x11, 0x11, 0x11, 0x11, 0x11, 0x1E]), (CHR ''E'', [0x1F, 0x10, 0x10, 0x1E, 0x10, 0x10, 0x1F]),
     (CHR ''F'', [0x1F, 0x10, 0x10, 0x1E, 0x10, 0x10, 0x10]), (CHR ''G'', [0x0E, 0x11, 0x10, 0x17, 0x11, 0x11, 0x0E]),
     (CHR ''H'', [0x11, 0x11, 0x11, 0x1F, 0x11, 0x11, 0x11]), (CHR ''I'', [0x0E, 0x04, 0x04, 0x04, 0x04, 0x04, 0x0E]),
     (CHR ''J'', [0x07, 0x02, 0x02, 0x02, 0x02, 0x12, 0x0C]), (CHR ''K'', [0x11, 0x12, 0x14, 0x18, 0x14, 0x12, 0x11]),
     (CHR ''L'', [0x10, 0x10, 0x10, 0x10, 0x10, 0x10, 0x1F]), (CHR ''M'', [0x11, 0x1B, 0x15, 0x11, 0x11, 0x11, 0x11]),
     (CHR ''N'', [0x11, 0x19, 0x15, 0x13, 0x11, 0x11, 0x11]), (CHR ''O'', [0x0E, 0x11, 0x11, 0x11, 0x11, 0x11, 0x0E]),
     (CHR ''P'', [0x1E, 0x11, 0x11, 0x1E, 0x10, 0x10, 0x10]), (CHR ''Q'', [0x0E, 0x11, 0x11, 0x11, 0x15, 0x12, 0x0D]),
     (CHR ''R'', [0x1E, 0x11, 0x11, 0x1E, 0x14, 0x12, 0x11]), (CHR ''S'', [0x0E, 0x11, 0x10, 0x0E, 0x01, 0x11, 0x0E]),
     (CHR ''T'', [0x1F, 0x04, 0x04, 0x04, 0x04, 0x04, 0x04]), (CHR ''U'', [0x11, 0x11, 0x11, 0x11, 0x11, 0x11, 0x0E]),
     (CHR ''V'', [0x11, 0x11, 0x11, 0x11, 0x0A, 0x0A, 0x04]), (CHR ''W'', [0x11, 0x11, 0x11, 0x15, 0x15, 0x1B, 0x11]),
     (CHR ''X'', [0x11, 0x11, 0x0A, 0x04, 0x0A, 0x11, 0x11]), (CHR ''Y'', [0x11, 0x11, 0x0A, 0x04, 0x04, 0x04, 0x04]),
     (CHR ''Z'', [0x1F, 0x01, 0x02, 0x04, 0x08, 0x10, 0x1F]), (CHR ''a'', [0, 0, 0x0E, 0x01, 0x0F, 0x11, 0x0F]),
     (CHR ''b'', [0x10, 0x10, 0x1E, 0x11, 0x11, 0x11, 0x1E]), (CHR ''c'', [0, 0, 0x0E, 0x10, 0x10, 0x10, 0x0E]),
     (CHR ''d'', [0x01, 0x01, 0x0F, 0x11, 0x11, 0x11, 0x0F]), (CHR ''e'', [0, 0, 0x0E, 0x11, 0x1F, 0x10, 0x0E]),
     (CHR ''f'', [0x06, 0x09, 0x08, 0x1C, 0x08, 0x08, 0x08]), (CHR ''g'', [0, 0, 0x0F, 0x11, 0x0F, 0x01, 0x0E]),
     (CHR ''h'', [0x10, 0x10, 0x16, 0x19, 0x11, 0x11, 0x11]), (CHR ''i'', [0x04, 0, 0x0C, 0x04, 0x04, 0x04, 0x0E]),
     (CHR ''j'', [0x02, 0, 0x06, 0x02, 0x02, 0x12, 0x0C]), (CHR ''k'', [0x10, 0x10, 0x12, 0x14, 0x18, 0x14, 0x12]),
     (CHR ''l'', [0x0C, 0x04, 0x04, 0x04, 0x04, 0x04, 0x0E]), (CHR ''m'', [0, 0, 0x1A, 0x15, 0x15, 0x11, 0x11]),
     (CHR ''n'', [0, 0, 0x16, 0x19, 0x11, 0x11, 0x11]), (CHR ''o'', [0, 0, 0x0E, 0x11, 0x11, 0x11, 0x0E]),
     (CHR ''p'', [0, 0, 0x1E, 0x11, 0x1E, 0x10, 0x10]), (CHR ''q'', [0, 0, 0x0F, 0x11, 0x0F, 0x01, 0x01]),
     (CHR ''r'', [0, 0, 0x16, 0x19, 0x10, 0x10, 0x10]), (CHR ''s'', [0, 0, 0x0E, 0x10, 0x0E, 0x01, 0x0E]),
     (CHR ''t'', [0x08, 0x08, 0x1C, 0x08, 0x08, 0x09, 0x06]), (CHR ''u'', [0, 0, 0x11, 0x11, 0x11, 0x13, 0x0D]),
     (CHR ''v'', [0, 0, 0x11, 0x11, 0x11, 0x0A, 0x04]), (CHR ''w'', [0, 0, 0x11, 0x11, 0x15, 0x15, 0x0A]),
     (CHR ''x'', [0, 0, 0x11, 0x0A, 0x04, 0x0A, 0x11]), (CHR ''y'', [0, 0, 0x11, 0x11, 0x0F, 0x01, 0x0E]),
     (CHR ''z'', [0, 0, 0x1F, 0x02, 0x04, 0x08, 0x1F]), (CHR ''0'', [0x0E, 0x11, 0x13, 0x15, 0x19, 0x11, 0x0E]),
     (CHR ''1'', [0x04, 0x0C, 0x04, 0x04, 0x04, 0x04, 0x0E]), (CHR ''2'', [0x0E, 0x11, 0x01, 0x06, 0x08, 0x10, 0x1F]),
     (CHR ''3'', [0x1F, 0x02, 0x04, 0x02, 0x01, 0x11, 0x0E]), (CHR ''4'', [0x02, 0x06, 0x0A, 0x12, 0x1F, 0x02, 0x02]),
     (CHR ''5'', [0x1F, 0x10, 0x1E, 0x01, 0x01, 0x11, 0x0E]), (CHR ''6'', [0x06, 0x08, 0x10, 0x1E, 0x11, 0x11, 0x0E]),
     (CHR ''7'', [0x1F, 0x01, 0x02, 0x04, 0x08, 0x08, 0x08]), (CHR ''8'', [0x0E, 0x11, 0x11, 0x0E, 0x11, 0x11, 0x0E]),
     (CHR ''9'', [0x0E, 0x11, 0x11, 0x0F, 0x01, 0x02, 0x0C]), (CHR ''-'', [0, 0, 0, 0x1F, 0, 0, 0]),
     (CHR ''+'', [0, 0x04, 0x04, 0x1F, 0x04, 0x04, 0]), (CHR ''['', [0x0E, 0x08, 0x08, 0x08, 0x08, 0x08, 0x0E]),
     (CHR '']'', [0x0E, 0x02, 0x02, 0x02, 0x02, 0x02, 0x0E]), (CHR ''.'', [0, 0, 0, 0, 0, 0x0C, 0x0C]),
     (CHR ''/'', [0x01, 0x02, 0x02, 0x04, 0x08, 0x08, 0x10])]"

definition draw_glyph :: "int \<Rightarrow> int \<Rightarrow> u8 list \<Rightarrow> u32 \<Rightarrow> nvec \<Rightarrow> nvec" where
  "draw_glyph x y rows col s =
     fold (\<lambda>row. fold (\<lambda>b s. if bit (rows ! row) b then fb_fill_rect (x + (4 - int b) * 2) (y + int row * 2) 2 2 col s else s) [4, 3, 2, 1, 0])
       [0 ..< 7] s"

text \<open>The first glyph of the character; there is none for the others.\<close>

definition draw_char :: "int \<Rightarrow> int \<Rightarrow> char \<Rightarrow> u32 \<Rightarrow> nvec \<Rightarrow> nvec" where
  "draw_char x y c col s = (case map_of g_font c of None \<Rightarrow> s | Some rows \<Rightarrow> draw_glyph x y rows col s)"

primrec draw_string :: "int \<Rightarrow> int \<Rightarrow> string \<Rightarrow> u32 \<Rightarrow> nvec \<Rightarrow> nvec" where
  "draw_string cx y [] col s = s"
| "draw_string cx y (c # cs) col s =
     (if c = CHR '' '' then draw_string (cx + 8) y cs col s
      else draw_string (cx + 12) y cs col (draw_char cx y c col s))"

section \<open>Layout\<close>

definition logo_layout :: "nvec \<Rightarrow> int \<times> int \<times> int \<times> int \<times> int" where
  "logo_layout s =
     (let target_w = (width_int s * 72) sdiv 100;
          GW = (target_w * 10) sdiv 49;
          GW = (if GW < 40 then 40 else GW);
          GAP = (GW * 3) sdiv 10;
          GH = (GW * 16) sdiv 10;
          total_w = 4 * GW + 3 * GAP;
          ox0 = (width_int s - total_w) sdiv 2;
          usable_h = height_int s - 26 - GH - 50;
          oy = usable_h sdiv 2;
          oy = (if oy < 20 then 20 else oy)
      in (ox0, oy, GW, GH, GAP))"

text \<open>The digit loop of \<open>itoa_small\<close> with \<open>i\<close> places left in the buffer: the low digits of a number that is too long.\<close>

primrec itoa_digits :: "nat \<Rightarrow> u32 \<Rightarrow> string" where
  "itoa_digits 0 v = []"
| "itoa_digits (Suc i) v = (if v > 0 then itoa_digits i (v div 10) @ [char_of (48 + unat (v mod 10))] else [])"

definition itoa_small :: "u32 \<Rightarrow> nat \<Rightarrow> string" where
  "itoa_small v buflen = (if v = 0 then ''0'' else itoa_digits (buflen - 1) v)"

definition draw_status_bar :: "u32 \<Rightarrow> nvec \<Rightarrow> nvec" where
  "draw_status_bar fps s =
     (let bar_h = 26; bar_y = height_int s - bar_h;
          s = fb_fill_rect 0 bar_y (width_int s) bar_h COL_BAR_BG s;
          s = fb_fill_rect 0 bar_y (width_int s) 1 COL_GLOW s;
          s = draw_string 10 (bar_y + 5) ''NVEC Server Embedded - DEMO'' COL_BAR_TEXT s;
          fps_buf = ''FPS: '' @ take 9 (itoa_small fps 10);
          fw = sum_list (map (\<lambda>c. if c = CHR '' '' then 8 else 12) fps_buf);
          s = draw_string ((width_int s - fw) sdiv 2) (bar_y + 5) fps_buf COL_ACCENT s;
          hint = ''[ CTRL + ALT + F10 - Shell Mode]'';
          hx = width_int s - int (length hint) * 12 - 10;
          hx = (if hx < 0 then 0 else hx)
      in draw_string hx (bar_y + 5) hint COL_BAR_TEXT s)"

definition draw_subtitle :: "int \<Rightarrow> int \<Rightarrow> nvec \<Rightarrow> nvec" where
  "draw_subtitle logo_y logo_h s =
     (let txt = ''FORCE - NVI''; tw = int (length txt) * 12
      in draw_string ((width_int s - tw) sdiv 2) (logo_y + logo_h + 18) txt COL_BAR_TEXT s)"

section \<open>Particles\<close>

definition NUM_PARTICLES :: nat where "NUM_PARTICLES = 200"

definition lcg_rand :: "nvec \<Rightarrow> u32 \<times> nvec" where
  "lcg_rand s = (let r = g_rand_state s * 1664525 + 1013904223 in (r, s\<lparr>g_rand_state := r\<rparr>))"

definition to_int16 :: "int \<Rightarrow> int" where "to_int16 v = sint (of_int v :: u16)"

definition make_particle :: "nat \<Rightarrow> u32 \<Rightarrow> int \<Rightarrow> int \<Rightarrow> particle" where
  "make_particle i r total_w GH =
     (let tier = i mod 3;
          base_rx = (total_w * (if tier = 0 then 55 else if tier = 1 then 75 else 95)) sdiv 100;
          base_ry = (GH * (if tier = 0 then 75 else if tier = 1 then 95 else 120)) sdiv 100;
          jitter = sint (r AND 0x1F) - 16
      in \<lparr>p_angle = ucast (of_nat (i * 256 div NUM_PARTICLES) + drop_bit 8 r),
          p_speed = of_nat (3 - tier),
          p_rx = to_int16 (base_rx + (base_rx * jitter) sdiv 100),
          p_ry = to_int16 (base_ry + (base_ry * jitter) sdiv 100),
          p_colour = [COL_P0, COL_P1, COL_P2] ! tier,
          p_size = (if tier = 0 then 2 else 1)\<rparr>)"

primrec init_particles :: "nat list \<Rightarrow> int \<Rightarrow> int \<Rightarrow> nvec \<Rightarrow> nvec" where
  "init_particles [] total_w GH s = s"
| "init_particles (i # is) total_w GH s =
     (case lcg_rand s of (r, s) \<Rightarrow>
        init_particles is total_w GH (s\<lparr>g_particles := (g_particles s)[i := make_particle i r total_w GH]\<rparr>))"

definition particles_init :: "nvec \<Rightarrow> nvec" where
  "particles_init s =
     (case logo_layout s of (ox0, oy, GW, GH, GAP) \<Rightarrow>
        let total_w = 4 * GW + 3 * GAP;
            s = s\<lparr>g_cx := ox0 + total_w sdiv 2, g_cy := oy + GH sdiv 2\<rparr>
        in (init_particles [0 ..< NUM_PARTICLES] total_w GH s)\<lparr>g_particles_ready := True\<rparr>)"

section \<open>Fading\<close>

definition fade :: "u32 \<Rightarrow> u32" where "fade p = drop_bit 1 p AND 0x7F7F7F"

definition stride :: "nvec \<Rightarrow> nat" where "stride s = unat (fb_pitch s div 4)"

definition fade_frame :: "nvec \<Rightarrow> nvec" where
  "fade_frame s =
     (let bar_y = height_int s - 26 in
      s\<lparr>pixels := fold (\<lambda>y. fold (\<lambda>x m. let i = y * stride s + x; p = m i in if p = 0 then m else m(i := fade p)) [0 ..< nat (width_int s)])
                   [0 ..< nat bar_y] (pixels s)\<rparr>)"


section \<open>The time stamp counter\<close>

type_synonym tsc_env = "nat \<Rightarrow> u64"

definition rdtsc :: "tsc_env \<Rightarrow> nvec \<Rightarrow> u64 \<times> nvec" where
  "rdtsc tsc s = (tsc (reads s), s\<lparr>reads := reads s + 1\<rparr>)"

definition PIT_HZ :: u64 where "PIT_HZ = 1193182"
definition CAL_MS :: u64 where "CAL_MS = 10"
definition CAL_LATCH :: u16 where "CAL_LATCH = ucast (PIT_HZ * CAL_MS div 1000)"

text \<open>The wait for bit 5 of port \<open>0x61\<close>; the result is what is left of the time-out.\<close>

primrec wait_out :: "nat \<Rightarrow> dev_env \<Rightarrow> nvec \<Rightarrow> nat \<times> nvec" where
  "wait_out 0 hw s = (0, s)"
| "wait_out (Suc n) hw s =
     (case inb hw 0x61 s of (v, s) \<Rightarrow>
        if v AND 0x20 \<noteq> 0 then (Suc n, s) else if n = 0 then (0, s) else wait_out n hw s)"

definition pit_ticks :: "u16 \<Rightarrow> u16 \<Rightarrow> u32" where
  "pit_ticks cnt0 cnt1 = (if cnt1 \<le> cnt0 then ucast cnt0 - ucast cnt1 else ucast cnt0 + (65536 - ucast cnt1))"

definition calibrate_by_count :: "dev_env \<Rightarrow> tsc_env \<Rightarrow> nvec \<Rightarrow> nvec" where
  "calibrate_by_count hw tsc s =
     (let s = outb 0x43 0 s;
          (lo0, s) = inb hw 0x40 s; (hi0, s) = inb hw 0x40 s; (ts0, s) = rdtsc tsc s;
          s = outb 0x43 0 s;
          (lo1, s) = inb hw 0x40 s; (hi1, s) = inb hw 0x40 s; (ts1, s) = rdtsc tsc s;
          cnt0 = push_bit 8 (ucast hi0) OR ucast lo0 :: u16; cnt1 = push_bit 8 (ucast hi1) OR ucast lo1 :: u16;
          ticks = pit_ticks cnt0 cnt1; tsc_ticks = ts1 - ts0
      in if ticks > 0 \<and> tsc_ticks > 0 then s\<lparr>g_tsc_khz := tsc_ticks * PIT_HZ div (ucast ticks * 1000)\<rparr> else s)"

definition tsc_calibrate_pit :: "dev_env \<Rightarrow> tsc_env \<Rightarrow> nvec \<Rightarrow> nvec" where
  "tsc_calibrate_pit hw tsc s =
     (let (p61, s) = inb hw 0x61 s;
          s = outb 0x61 ((p61 AND 0xFC) OR 1) s;
          s = outb 0x43 0xB0 s;
          s = outb 0x42 (ucast (CAL_LATCH AND 0xFF)) s;
          s = outb 0x42 (ucast (drop_bit 8 CAL_LATCH)) s;
          (v, s) = inb hw 0x61 s;
          s = outb 0x61 ((v AND 0xFC) OR 1) s;
          (t0, s) = rdtsc tsc s;
          (timeout, s) = wait_out 50000000 hw s;
          (t1, s) = rdtsc tsc s;
          s = outb 0x61 p61 s
      in if timeout > 0 \<and> t1 - t0 > 0 then s\<lparr>g_tsc_khz := (t1 - t0) div CAL_MS\<rparr>
         else calibrate_by_count hw tsc s)"

definition FPS_WINDOW :: u32 where "FPS_WINDOW = 16"

definition fps_update :: "tsc_env \<Rightarrow> nvec \<Rightarrow> nvec" where
  "fps_update tsc s =
     (let s = s\<lparr>g_frame_count := g_frame_count s + 1\<rparr> in
      if g_frame_count s < FPS_WINDOW then s
      else
        let (now, s) = rdtsc tsc s;
            s = (if g_tsc_last s \<noteq> 0 \<and> g_tsc_khz s > 0 then
                   let elapsed_ms = (now - g_tsc_last s) div g_tsc_khz s;
                       elapsed_ms = (if elapsed_ms = 0 then 1 else elapsed_ms)
                   in s\<lparr>g_fps_display := ucast (ucast FPS_WINDOW * 1000 div elapsed_ms)\<rparr>
                 else s)
        in s\<lparr>g_tsc_last := now, g_frame_count := 0\<rparr>)"

section \<open>Frames\<close>

definition draw_logo :: "nvec \<Rightarrow> nvec" where
  "draw_logo s =
     (case logo_layout s of (ox0, oy, GW, GH, GAP) \<Rightarrow>
        let ox_N = ox0; ox_V = ox0 + (GW + GAP); ox_E = ox0 + 2 * (GW + GAP); ox_C = ox0 + 3 * (GW + GAP);
            s = draw_glow ox_N oy GW GH s; s = draw_glow ox_V oy GW GH s;
            s = draw_glow ox_E oy GW GH s; s = draw_glow ox_C oy GW GH s;
            s = draw_letter_N ox_N oy GW GH s; s = draw_letter_V ox_V oy GW GH s;
            s = draw_letter_E ox_E oy GW GH s; s = draw_letter_C ox_C oy GW GH s
        in draw_subtitle oy GH s)"

text \<open>The loops \<open>for (i = 0; i < n; i += 80)\<close>.\<close>

definition grid_steps :: "int \<Rightarrow> int list" where
  "grid_steps n = filter (\<lambda>i. i mod 80 = 0) [0 .. n - 1]"

definition nvec_render_initial :: "nvec \<Rightarrow> nvec" where
  "nvec_render_initial s =
     (let s = fb_fill_rect 0 0 (width_int s) (height_int s) COL_BG s;
          s = fold (\<lambda>gx. fold (\<lambda>gy. fb_put gx gy COL_GLOW) [0 .. height_int s - 26 - 1]) (grid_steps (width_int s)) s;
          s = fold (\<lambda>gy. fold (\<lambda>gx. fb_put gx gy COL_GLOW) [0 .. width_int s - 1]) (grid_steps (height_int s - 26)) s;
          s = draw_logo s
      in draw_status_bar 0 s)"

definition move_particle :: "nat \<Rightarrow> nvec \<Rightarrow> nvec" where
  "move_particle i s =
     (let p = g_particles s ! i; p = p\<lparr>p_angle := p_angle p + p_speed p\<rparr>;
          s = s\<lparr>g_particles := (g_particles s)[i := p]\<rparr>;
          px = g_cx s + (p_rx p * icos (p_angle p)) sdiv 1024;
          py = g_cy s + (p_ry p * isin (p_angle p)) sdiv 1024
      in if p_size p = 2 then fb_fill_rect (px - 1) (py - 1) 3 3 (p_colour p) s
         else fb_put px py (p_colour p) s)"

definition nvec_tick :: "tsc_env \<Rightarrow> nvec \<Rightarrow> nvec" where
  "nvec_tick tsc s =
     (if \<not> g_ready s \<or> g_mode s \<noteq> DISPLAY_MODE_GRAPHICS then s
      else
        let s = s\<lparr>fade_skip := fade_skip s XOR 1\<rparr>;
            s = (if fade_skip s = 0 then fade_frame s else s);
            s = draw_logo s;
            s = fold move_particle [0 ..< NUM_PARTICLES] s;
            s = fps_update tsc s
        in draw_status_bar (g_fps_display s) s)"

section \<open>Changing the mode\<close>

definition BACKUP_MAX_W :: u32 where "BACKUP_MAX_W = 1920"
definition BACKUP_MAX_H :: u32 where "BACKUP_MAX_H = 1080"

text \<open>Both indices are computed in 32 bits.\<close>

definition backup_index :: "nvec \<Rightarrow> nat \<Rightarrow> nat \<Rightarrow> nat" where
  "backup_index s row col = unat (of_nat row * fb_width s + of_nat col :: u32)"

definition console_save :: "nvec \<Rightarrow> nvec" where
  "console_save s =
     (if fb_width s > BACKUP_MAX_W \<or> fb_height s > BACKUP_MAX_H then s\<lparr>g_backup_valid := False\<rparr>
      else s\<lparr>g_shell_backup := fold (\<lambda>row. fold (\<lambda>col b. b(backup_index s row col := pixels s (pixel_index s (int col) (int row))))
                                  [0 ..< unat (fb_width s)]) [0 ..< unat (fb_height s)] (g_shell_backup s),
             g_backup_valid := True\<rparr>)"

definition console_restore :: "nvec \<Rightarrow> nvec" where
  "console_restore s =
     (if \<not> g_backup_valid s then s
      else s\<lparr>pixels := fold (\<lambda>row. fold (\<lambda>col m. m(pixel_index s (int col) (int row) := g_shell_backup s (backup_index s row col)))
                          [0 ..< unat (fb_width s)]) [0 ..< unat (fb_height s)] (pixels s)\<rparr>)"

definition nvec_tsc_khz :: "nvec \<Rightarrow> u64" where "nvec_tsc_khz s = g_tsc_khz s"

text \<open>The pixels at \<open>fb_addr\<close> stay what they are.\<close>

definition nvec_init :: "dev_env \<Rightarrow> tsc_env \<Rightarrow> u32 \<Rightarrow> u32 \<Rightarrow> u32 \<Rightarrow> nvec \<Rightarrow> nvec" where
  "nvec_init hw tsc width height pitch s =
     tsc_calibrate_pit hw tsc (s\<lparr>fb_width := width, fb_height := height, fb_pitch := pitch, g_mode := DISPLAY_MODE_SHELL, g_ready := True\<rparr>)"

definition nvec_enter_graphics :: "tsc_env \<Rightarrow> nvec \<Rightarrow> nvec" where
  "nvec_enter_graphics tsc s =
     (if \<not> g_ready s \<or> g_mode s = DISPLAY_MODE_GRAPHICS then s
      else
        let s = console_save s;
            s = s\<lparr>g_mode := DISPLAY_MODE_GRAPHICS\<rparr>;
            s = particles_init s;
            (now, s) = rdtsc tsc s;
            s = s\<lparr>g_tsc_last := now, g_frame_count := 0, g_fps_display := 0\<rparr>
        in nvec_render_initial s)"

definition nvec_exit_graphics :: "nvec \<Rightarrow> nvec" where
  "nvec_exit_graphics s =
     (if \<not> g_ready s \<or> g_mode s = DISPLAY_MODE_SHELL then s
      else console_restore (s\<lparr>g_mode := DISPLAY_MODE_SHELL\<rparr>))"

definition nvec_toggle_screen :: "tsc_env \<Rightarrow> nvec \<Rightarrow> nvec" where
  "nvec_toggle_screen tsc s =
     (if g_mode s = DISPLAY_MODE_SHELL then nvec_enter_graphics tsc s else nvec_exit_graphics s)"

definition nvec_get_mode :: "nvec \<Rightarrow> display_mode" where "nvec_get_mode s = g_mode s"

end
