(* ===== verification/NvecProps.thy ===== *)
theory NvecProps
  imports Nvec
begin

text \<open>
  The graphics mode draws on the visible screen only, gives the shell its screen back, and its trails end in black.
\<close>

section \<open>The visible screen\<close>

definition screen_ok :: "nvec \<Rightarrow> bool" where
  "screen_ok s \<longleftrightarrow> unat (fb_width s) \<le> stride s \<and> unat (fb_height s) * stride s \<le> 2 ^ 32 \<and>
     unat (fb_width s) < 2 ^ 31 \<and> unat (fb_height s) < 2 ^ 31"

definition on_screen :: "nvec \<Rightarrow> nat \<Rightarrow> bool" where
  "on_screen s i \<longleftrightarrow> (\<exists>x < unat (fb_width s). \<exists>y < unat (fb_height s). i = y * stride s + x)"

lemma screen_index:
  assumes "screen_ok s" "x < unat (fb_width s)" "y < unat (fb_height s)"
  shows "y * stride s + x < 2 ^ 32"
proof -
  have "y * stride s + x < y * stride s + stride s" using assms(1,2) by (simp add: screen_ok_def)
  also have "\<dots> = Suc y * stride s" by simp
  also have "\<dots> \<le> unat (fb_height s) * stride s" using assms(3) by (intro mult_le_mono1) simp
  finally show ?thesis using assms(1) by (simp add: screen_ok_def)
qed

lemma word_index:
  fixes X Y :: u32
  assumes "screen_ok s" "unat X < unat (fb_width s)" "unat Y < unat (fb_height s)"
  shows "unat (Y * (fb_pitch s div 4) + X) = unat Y * stride s + unat X"
proof -
  note lt = screen_index [OF assms]
  have "unat (Y * (fb_pitch s div 4)) = unat Y * stride s" unfolding stride_def
    by (rule unat_mult_lem [THEN iffD1]) (use lt in \<open>simp add: stride_def\<close>)
  then show ?thesis using lt by (subst unat_add_lem [THEN iffD1]) simp_all
qed

lemma pixel_on_screen:
  assumes "screen_ok s" "\<not> (of_int x \<ge> fb_width s)" "\<not> (of_int y \<ge> fb_height s)"
  shows "on_screen s (pixel_index s x y)"
proof -
  have "unat (of_int x :: u32) < unat (fb_width s)" "unat (of_int y :: u32) < unat (fb_height s)"
    using assms(2,3) by (auto simp: word_le_nat_alt)
  then show ?thesis using word_index [OF assms(1)] unfolding on_screen_def pixel_index_def by blast
qed

lemma pixel_index_nat:
  assumes "screen_ok s" "x < unat (fb_width s)" "y < unat (fb_height s)"
  shows "pixel_index s (int x) (int y) = y * stride s + x" "\<not> (of_int (int x) \<ge> fb_width s)" "\<not> (of_int (int y) \<ge> fb_height s)"
proof -
  have u: "unat (of_nat x :: u32) = x" "unat (of_nat y :: u32) = y"
    using assms unat_less_power [of "fb_width s"] unat_less_power [of "fb_height s"] by (auto intro!: unat_of_nat_small)
  show "pixel_index s (int x) (int y) = y * stride s + x"
    using word_index [OF assms(1), of "of_nat x" "of_nat y"] assms(2,3) by (simp add: pixel_index_def u)
  show "\<not> (of_int (int x) \<ge> fb_width s)" "\<not> (of_int (int y) \<ge> fb_height s)" using assms(2,3) by (simp_all add: word_le_nat_alt u)
qed

lemma index_inj:
  assumes "x < (w :: nat)" "w \<le> st" "x' < w" "y * st + x = y' * st + x'"
  shows "x = x' \<and> y = y'"
proof -
  have "x < st" "x' < st" using assms by simp_all
  then have "(y * st + x) div st = y" "(y' * st + x') div st = y'" "(y * st + x) mod st = x" "(y' * st + x') mod st = x'" by simp_all
  with assms(4) show ?thesis by metis
qed

section \<open>Drawing\<close>

definition draws :: "nvec \<Rightarrow> nvec \<Rightarrow> bool" where
  "draws s s' \<longleftrightarrow> (\<exists>px. s' = s\<lparr>pixels := px\<rparr> \<and> (\<forall>i. \<not> on_screen s i \<longrightarrow> px i = pixels s i))"

lemma on_screen_pixels [simp]: "on_screen (s\<lparr>pixels := px\<rparr>) = on_screen s" "screen_ok (s\<lparr>pixels := px\<rparr>) = screen_ok s"
  by (simp_all add: on_screen_def screen_ok_def stride_def fun_eq_iff)

lemma draws_refl: "draws s s"
  unfolding draws_def by (rule exI [of _ "pixels s"]) simp

lemma draws_trans: "draws s u \<Longrightarrow> draws u v \<Longrightarrow> draws s v"
  unfolding draws_def by auto

lemma draws_screen: "draws s s' \<Longrightarrow> screen_ok s \<Longrightarrow> screen_ok s'"
  unfolding draws_def by auto

definition drawing :: "(nvec \<Rightarrow> nvec) \<Rightarrow> bool" where
  "drawing f \<longleftrightarrow> (\<forall>s. screen_ok s \<longrightarrow> draws s (f s))"

lemma drawingD: "drawing f \<Longrightarrow> screen_ok s \<Longrightarrow> draws s (f s)"
  by (simp add: drawing_def)

lemma drawing_comp: "drawing f \<Longrightarrow> drawing g \<Longrightarrow> drawing (\<lambda>s. g (f s))"
  unfolding drawing_def using draws_trans draws_screen by blast

lemma drawing_id: "drawing (\<lambda>s. s)" by (simp add: drawing_def draws_refl)

lemma drawing_fold: "(\<And>x. x \<in> set xs \<Longrightarrow> drawing (f x)) \<Longrightarrow> drawing (fold f xs)"
proof (induction xs)
  case (Cons x xs)
  have "drawing (\<lambda>s. fold f xs (f x s))" by (rule drawing_comp) (use Cons in auto)
  then show ?case by (simp add: comp_def)
qed (simp add: drawing_id id_def)

lemma drawing_if: "drawing f \<Longrightarrow> drawing g \<Longrightarrow> drawing (\<lambda>s. if b then f s else g s)" by (cases b) simp_all

lemma draws_put: "drawing (fb_put x y col)"
  unfolding drawing_def
proof (intro allI impI)
  fix s assume s: "screen_ok s"
  show "draws s (fb_put x y col s)"
  proof (cases "of_int x \<ge> fb_width s \<or> of_int y \<ge> fb_height s")
    case True
    then show ?thesis by (simp add: fb_put_def draws_refl)
  next
    case False
    then have "on_screen s (pixel_index s x y)" using pixel_on_screen [OF s] by blast
    with False show ?thesis unfolding draws_def fb_put_def by (auto intro!: exI [of _ "(pixels s)(pixel_index s x y := col)"])
  qed
qed

lemma draws_rect: "drawing (fb_fill_rect x y w h col)"
proof -
  have "drawing (fold (\<lambda>ry. fold (\<lambda>rx. fb_put rx ry col) [x .. x + w - 1]) [y .. y + h - 1])"
    by (intro drawing_fold draws_put)
  then show ?thesis by (cases "w \<le> 0 \<or> h \<le> 0") (simp_all add: drawing_def fb_fill_rect_def draws_refl)
qed

lemma draws_line: "drawing (thick_line x0 y0 x1 y1 T col)"
  unfolding thick_line_def Let_def by (intro drawing_fold) (simp add: draws_rect)

lemma then_draw: "drawing g \<Longrightarrow> screen_ok s \<Longrightarrow> draws s u \<Longrightarrow> draws s (g u)"
  unfolding drawing_def using draws_trans draws_screen by blast

lemmas then_rect = then_draw [OF draws_rect]
lemmas then_line = then_draw [OF draws_line]

lemma draws_letters: "drawing (draw_letter_N ox oy GW GH)" "drawing (draw_letter_V ox oy GW GH)" "drawing (draw_letter_E ox oy GW GH)"
  "drawing (draw_letter_C ox oy GW GH)" "drawing (draw_glow ox oy GW GH)"
  unfolding drawing_def draw_letter_N_def draw_letter_V_def draw_letter_E_def draw_letter_C_def draw_glow_def Let_def
  by (intro allI impI then_rect then_line draws_refl; assumption)+

lemma draws_glyph: "drawing (draw_glyph x y rows col)"
proof -
  have "drawing (fold (\<lambda>row. fold (\<lambda>b s. if bit (rows ! row) b then fb_fill_rect (x + (4 - int b) * 2) (y + int row * 2) 2 2 col s else s) [4, 3, 2, 1, 0]) [0 ..< 7])"
    by (intro drawing_fold drawing_if draws_rect drawing_id)
  then show ?thesis by (simp add: drawing_def draw_glyph_def)
qed

lemma draws_char: "drawing (draw_char x y c col)"
  using draws_glyph by (cases "map_of g_font c") (simp_all add: drawing_def draws_refl draw_char_def)

lemma draws_string: "drawing (draw_string x y cs col)"
proof (induction cs arbitrary: x)
  case Nil
  show ?case by (simp add: drawing_def draws_refl)
next
  case (Cons c cs)
  have "drawing (\<lambda>s. draw_string (x + 12) y cs col (draw_char x y c col s))" by (rule drawing_comp [OF draws_char Cons])
  then show ?case using Cons [of "x + 8"] by (simp add: drawing_def)
qed

lemmas then_string = then_draw [OF draws_string]

lemma draws_status_bar: "drawing (draw_status_bar fps)"
  unfolding drawing_def draw_status_bar_def Let_def
  by (intro allI impI then_string then_rect draws_refl)

lemma draws_logo: "drawing draw_logo"
  unfolding drawing_def
proof (intro allI impI)
  fix s assume s: "screen_ok s"
  obtain ox0 oy GW GH GAP where l: "logo_layout s = (ox0, oy, GW, GH, GAP)" by (cases "logo_layout s")
  note then_letters = draws_letters [THEN then_draw, OF s]
  show "draws s (draw_logo s)"
    unfolding draw_logo_def l prod.case Let_def draw_subtitle_def
    by (intro then_string then_letters draws_refl s)
qed

lemma draws_initial: "drawing nvec_render_initial"
proof -
  have cols: "drawing (fold (\<lambda>gx. fold (\<lambda>gy. fb_put gx gy COL_GLOW) xs) ys)" for xs ys by (intro drawing_fold draws_put)
  have rows: "drawing (fold (\<lambda>gy. fold (\<lambda>gx. fb_put gx gy COL_GLOW) xs) ys)" for xs ys by (intro drawing_fold draws_put)
  show ?thesis
    unfolding drawing_def nvec_render_initial_def Let_def
    by (intro allI impI then_draw [OF draws_status_bar] then_draw [OF draws_logo] then_draw [OF rows] then_draw [OF cols] then_rect draws_refl)
qed

section \<open>Arrays written by two loops\<close>

lemma fold_two: "fold (\<lambda>r. fold (h r) cs) rs = fold (\<lambda>(r, c). h r c) (List.product rs cs)"
  by (induction rs) (simp_all add: fold_map comp_def)

lemma fold_upd_other: "(\<And>k. k \<in> set ks \<Longrightarrow> f k \<noteq> i) \<Longrightarrow> fold (\<lambda>k m. m(f k := g k)) ks m i = m i"
  by (induction ks arbitrary: m) auto

lemma fold_upd_at:
  assumes "k \<in> set ks" "\<And>l. l \<in> set ks \<Longrightarrow> f l = f k \<Longrightarrow> g l = g k"
  shows "fold (\<lambda>k m. m(f k := g k)) ks m (f k) = g k"
  using assms
proof (induction ks rule: rev_induct)
  case (snoc l ks)
  have IH: "fold (\<lambda>k m. m(f k := g k)) ks m (f k) = g k" if k: "k \<in> set ks"
  proof (rule snoc.IH [OF k])
    fix l assume "l \<in> set ks" "f l = f k"
    then show "g l = g k" by (intro snoc.prems(2)) simp_all
  qed
  show ?case
  proof (cases "f l = f k")
    case True
    then have "g l = g k" by (intro snoc.prems(2)) simp_all
    with True show ?thesis by simp
  next
    case False
    then have "k \<in> set ks" using snoc.prems(1) by auto
    from IH [OF this] show ?thesis using False by (simp add: fun_upd_def)
  qed
qed simp

text \<open>The visible screen, loaded into an array and stored back.\<close>

lemma two_loops_other:
  assumes "\<And>r c. r < h \<Longrightarrow> c < w \<Longrightarrow> f r c \<noteq> i"
  shows "fold (\<lambda>r. fold (\<lambda>c m. m(f r c := g r c)) [0 ..< w]) [0 ..< h] m i = m i"
proof -
  have "fold (\<lambda>r. fold (\<lambda>c m. m(f r c := g r c)) [0 ..< w]) [0 ..< h] m i =
    fold (\<lambda>k m. m((case k of (r, c) \<Rightarrow> f r c) := (case k of (r, c) \<Rightarrow> g r c))) (List.product [0 ..< h] [0 ..< w]) m i"
    by (simp add: fold_two split_def)
  also have "\<dots> = m i"
  proof (rule fold_upd_other)
    fix k assume k: "k \<in> set (List.product [0 ..< h] [0 ..< w])"
    obtain r c where "k = (r, c)" by (cases k)
    with k assms [of r c] show "(case k of (r, c) \<Rightarrow> f r c) \<noteq> i" by simp
  qed
  finally show ?thesis .
qed

lemma two_loops_at:
  assumes "r < h" "c < w" "\<And>r' c'. r' < h \<Longrightarrow> c' < w \<Longrightarrow> f r' c' = f r c \<Longrightarrow> r' = r \<and> c' = c"
  shows "fold (\<lambda>r. fold (\<lambda>c m. m(f r c := g r c)) [0 ..< w]) [0 ..< h] m (f r c) = g r c"
proof -
  let ?f = "\<lambda>k. case k of (r, c) \<Rightarrow> f r c" and ?g = "\<lambda>k. case k of (r, c) \<Rightarrow> g r c"
  have "fold (\<lambda>r. fold (\<lambda>c m. m(f r c := g r c)) [0 ..< w]) [0 ..< h] m =
    fold (\<lambda>k m. m(?f k := ?g k)) (List.product [0 ..< h] [0 ..< w]) m"
    by (simp add: fold_two split_def)
  moreover have "fold (\<lambda>k m. m(?f k := ?g k)) (List.product [0 ..< h] [0 ..< w]) m (?f (r, c)) = ?g (r, c)"
  proof (rule fold_upd_at)
    show "(r, c) \<in> set (List.product [0 ..< h] [0 ..< w])" using assms(1,2) by simp
    fix l assume l: "l \<in> set (List.product [0 ..< h] [0 ..< w])" "?f l = ?f (r, c)"
    obtain r' c' where "l = (r', c')" by (cases l)
    with l assms(3) [of r' c'] show "?g l = ?g (r, c)" by auto
  qed
  ultimately show ?thesis by simp
qed

section \<open>Saving and restoring\<close>

lemma backup_index_nat:
  assumes "fb_width s \<le> BACKUP_MAX_W" "fb_height s \<le> BACKUP_MAX_H" "row < unat (fb_height s)" "col < unat (fb_width s)"
  shows "backup_index s row col = row * unat (fb_width s) + col"
proof -
  have w: "unat (fb_width s) \<le> 1920" and h: "unat (fb_height s) \<le> 1080"
    using assms(1,2) by (simp_all add: word_le_nat_alt BACKUP_MAX_W_def BACKUP_MAX_H_def)
  have "row * unat (fb_width s) \<le> 1080 * 1920" using assms(3) w h by (intro mult_le_mono) simp_all
  then have lt: "row * unat (fb_width s) + col < 2 ^ 32" using assms(4) w by simp
  have "row < 2 ^ 32" "col < 2 ^ 32" using assms(3,4) w h by simp_all
  then have u: "unat (of_nat row :: u32) = row" "unat (of_nat col :: u32) = col" by (auto intro!: unat_of_nat_small)
  have "unat (of_nat row * fb_width s) = row * unat (fb_width s)"
    by (subst unat_mult_lem [THEN iffD1]) (use lt in \<open>simp_all add: u\<close>)
  then show ?thesis unfolding backup_index_def using lt by (subst unat_add_lem [THEN iffD1]) (simp_all add: u)
qed

definition small_screen :: "nvec \<Rightarrow> bool" where
  "small_screen s \<longleftrightarrow> fb_width s \<le> BACKUP_MAX_W \<and> fb_height s \<le> BACKUP_MAX_H"

text \<open>What the save stores, and what the restore brings back.\<close>

definition has_backup :: "nvec \<Rightarrow> (nat \<Rightarrow> u32) \<Rightarrow> bool" where
  "has_backup s px \<longleftrightarrow> g_backup_valid s \<and>
     (\<forall>x < unat (fb_width s). \<forall>y < unat (fb_height s). g_shell_backup s (y * unat (fb_width s) + x) = px (y * stride s + x))"

lemma console_save_backup:
  assumes "screen_ok s" "small_screen s"
  shows "\<exists>b. console_save s = s\<lparr>g_shell_backup := b, g_backup_valid := True\<rparr> \<and> has_backup (s\<lparr>g_shell_backup := b, g_backup_valid := True\<rparr>) (pixels s)"
proof -
  let ?w = "unat (fb_width s)" and ?h = "unat (fb_height s)"
  define b where "b = fold (\<lambda>row. fold (\<lambda>col b. b(backup_index s row col := pixels s (pixel_index s (int col) (int row)))) [0 ..< ?w]) [0 ..< ?h] (g_shell_backup s)"
  have at: "b (y * ?w + x) = pixels s (y * stride s + x)" if "x < ?w" "y < ?h" for x y
  proof -
    note bi = backup_index_nat [OF _ _ that(2,1)]
    have "b (backup_index s y x) = pixels s (pixel_index s (int x) (int y))"
      unfolding b_def
    proof (rule two_loops_at [OF that(2,1)])
      fix y' x' assume "y' < ?h" "x' < ?w" "backup_index s y' x' = backup_index s y x"
      then show "y' = y \<and> x' = x" using index_inj [of x' ?w ?w x y' y] that backup_index_nat [of s] assms(2) by (simp add: small_screen_def)
    qed
    then show ?thesis using bi assms(2) pixel_index_nat(1) [OF assms(1) that] by (simp add: small_screen_def)
  qed
  have "console_save s = s\<lparr>g_shell_backup := b, g_backup_valid := True\<rparr>"
    using assms(2) by (auto simp: console_save_def small_screen_def b_def)
  moreover have "has_backup (s\<lparr>g_shell_backup := b, g_backup_valid := True\<rparr>) (pixels s)" using at by (simp add: has_backup_def stride_def)
  ultimately show ?thesis by blast
qed

lemma console_restore_backup:
  assumes ok: "screen_ok s" "small_screen s" and b: "has_backup s px"
  shows "\<exists>m. console_restore s = s\<lparr>pixels := m\<rparr> \<and> (\<forall>i. m i = (if on_screen s i then px i else pixels s i))"
proof -
  let ?w = "unat (fb_width s)" and ?h = "unat (fb_height s)"
  define m where "m = fold (\<lambda>row. fold (\<lambda>col m. m(pixel_index s (int col) (int row) := g_shell_backup s (backup_index s row col))) [0 ..< ?w]) [0 ..< ?h] (pixels s)"
  have "m i = (if on_screen s i then px i else pixels s i)" for i
  proof (cases "on_screen s i")
    case False
    have "m i = pixels s i"
      unfolding m_def
    proof (rule two_loops_other)
      fix y x assume "y < ?h" "x < ?w"
      then show "pixel_index s (int x) (int y) \<noteq> i" using False pixel_index_nat(1) [OF ok(1)] unfolding on_screen_def by blast
    qed
    with False show ?thesis by simp
  next
    case True
    then obtain x y where xy: "x < ?w" "y < ?h" "i = y * stride s + x" by (auto simp: on_screen_def)
    have "m (pixel_index s (int x) (int y)) = g_shell_backup s (backup_index s y x)"
      unfolding m_def
    proof (rule two_loops_at [OF xy(2,1)])
      fix y' x' assume *: "y' < ?h" "x' < ?w" "pixel_index s (int x') (int y') = pixel_index s (int x) (int y)"
      then have "y' * stride s + x' = y * stride s + x" using pixel_index_nat(1) [OF ok(1)] xy by simp
      then show "y' = y \<and> x' = x" using index_inj [of x' ?w "stride s" x y' y] * xy ok(1) by (simp add: screen_ok_def)
    qed
    then have "m i = g_shell_backup s (y * ?w + x)"
      using pixel_index_nat(1) [OF ok(1) xy(1,2)] backup_index_nat [OF _ _ xy(2,1)] ok(2) xy(3) by (simp add: small_screen_def)
    then show ?thesis using True b xy by (simp add: has_backup_def)
  qed
  moreover have "console_restore s = s\<lparr>pixels := m\<rparr>" using b by (simp add: console_restore_def has_backup_def m_def)
  ultimately show ?thesis by blast
qed

section \<open>A session\<close>

text \<open>Everything but the pixels on the screen and the state of the animation stays.\<close>

definition animates :: "nvec \<Rightarrow> nvec \<Rightarrow> bool" where
  "animates s s' \<longleftrightarrow>
     fb_width s' = fb_width s \<and> fb_height s' = fb_height s \<and> fb_pitch s' = fb_pitch s \<and> g_ready s' = g_ready s \<and> g_mode s' = g_mode s \<and>
     g_shell_backup s' = g_shell_backup s \<and> g_backup_valid s' = g_backup_valid s \<and>
     (\<forall>i. \<not> on_screen s i \<longrightarrow> pixels s' i = pixels s i)"

lemma animates_screen: "animates s s' \<Longrightarrow> on_screen s' = on_screen s \<and> screen_ok s' = screen_ok s \<and> stride s' = stride s"
  by (auto simp: animates_def on_screen_def screen_ok_def stride_def fun_eq_iff)

lemma animates_refl: "animates s s" by (simp add: animates_def)

lemma animates_trans: "animates s u \<Longrightarrow> animates u v \<Longrightarrow> animates s v"
  using animates_screen [of s u] unfolding animates_def by simp

lemma draws_animates: "draws s s' \<Longrightarrow> animates s s'"
  by (auto simp: draws_def animates_def)

lemma drawing_animates: "drawing g \<Longrightarrow> screen_ok s \<Longrightarrow> animates s u \<Longrightarrow> animates s (g u)"
  by (metis animates_screen animates_trans draws_animates drawingD)

section \<open>The trails\<close>

lemma fold_apply_other: "(\<And>k. k \<in> set ks \<Longrightarrow> f k \<noteq> i) \<Longrightarrow> fold (\<lambda>k m. m(f k := h (m (f k)))) ks m i = m i"
  by (induction ks arbitrary: m) auto

lemma fold_apply_at:
  "distinct ks \<Longrightarrow> inj_on f (set ks) \<Longrightarrow> k \<in> set ks \<Longrightarrow> fold (\<lambda>k m. m(f k := h (m (f k)))) ks m (f k) = h (m (f k))"
proof (induction ks arbitrary: m)
  case (Cons l ks)
  show ?case
  proof (cases "k = l")
    case True
    have "f j \<noteq> f l" if "j \<in> set ks" for j using that Cons.prems by (auto simp: inj_on_def)
    then have "fold (\<lambda>k m. m(f k := h (m (f k)))) ks (m(f l := h (m (f l)))) (f l) = (m(f l := h (m (f l)))) (f l)" by (rule fold_apply_other)
    then show ?thesis unfolding True by (simp only: fold_simps fun_upd_same)
  next
    case False
    then have k: "k \<in> set ks" "f l \<noteq> f k" using Cons.prems by (auto simp: inj_on_def)
    have "fold (\<lambda>k m. m(f k := h (m (f k)))) ks (m(f l := h (m (f l)))) (f k) = h ((m(f l := h (m (f l)))) (f k))"
      by (rule Cons.IH) (use Cons.prems k in \<open>auto simp: inj_on_def\<close>)
    then show ?thesis by (simp only: fold_simps fun_upd_other [OF k(2) [symmetric]])
  qed
qed simp

lemma fade_zero: "fade 0 = 0" by (simp add: fade_def)

lemma fade_frame_pixels:
  assumes ok: "screen_ok s"
  shows "fade_frame s = s\<lparr>pixels := \<lambda>i. if \<exists>x < unat (fb_width s). \<exists>y. y + 26 < unat (fb_height s) \<and> i = y * stride s + x then fade (pixels s i) else pixels s i\<rparr>"
proof -
  let ?w = "unat (fb_width s)" and ?h = "unat (fb_height s) - 26"
  have "nat (uint (fb_height s) - 26) = nat (uint (fb_height s)) - nat 26" by (rule nat_diff_distrib') simp_all
  then have n: "nat (width_int s) = ?w" "nat (height_int s - 26) = ?h"
    using ok sint_of_small [of ?w] sint_of_small [of "unat (fb_height s)"] by (simp_all add: screen_ok_def width_int_def height_int_def)
  let ?f = "\<lambda>k. case k of (y, x) \<Rightarrow> y * stride s + x"
  let ?ks = "List.product [0 ..< ?h] [0 ..< ?w]"
  let ?m = "fold (\<lambda>k m. m(?f k := fade (m (?f k)))) ?ks (pixels s)"
  have step: "(\<lambda>x m. let i = y * stride s + x; p = m i in if p = 0 then m else m(i := fade p)) =
      (\<lambda>x m. m(?f (y, x) := fade (m (?f (y, x)))))" for y
    by (auto simp: fun_eq_iff Let_def fade_zero)
  have eq: "fade_frame s = s\<lparr>pixels := ?m\<rparr>"
    unfolding fade_frame_def Let_def [of "height_int s - 26"] n step by (simp add: fold_two split_def)
  have inj: "inj_on ?f (set ?ks)"
  proof (rule inj_onI)
    fix a b assume ab: "a \<in> set ?ks" "b \<in> set ?ks" "?f a = ?f b"
    obtain y x y' x' where "a = (y, x)" "b = (y', x')" by (cases a; cases b)
    then show "a = b" using ab ok index_inj [of x ?w "stride s" x' y y'] by (simp add: screen_ok_def)
  qed
  have "?m i = (if \<exists>x < ?w. \<exists>y. y + 26 < unat (fb_height s) \<and> i = y * stride s + x then fade (pixels s i) else pixels s i)" for i
  proof (cases "\<exists>x < ?w. \<exists>y. y + 26 < unat (fb_height s) \<and> i = y * stride s + x")
    case True
    then obtain x y where xy: "x < ?w" "y + 26 < unat (fb_height s)" "i = ?f (y, x)" by auto
    have "?m (?f (y, x)) = fade (pixels s (?f (y, x)))"
      by (rule fold_apply_at [OF _ inj]) (use xy in \<open>simp_all add: distinct_product\<close>)
    with True xy(3) show ?thesis by simp
  next
    case False
    have "?m i = pixels s i"
    proof (rule fold_apply_other)
      fix k assume k: "k \<in> set ?ks"
      obtain y x where yx: "k = (y, x)" by (cases k)
      then have "x < ?w" "y + 26 < unat (fb_height s)" using k by auto
      then show "?f k \<noteq> i" using False yx by auto
    qed
    with False show ?thesis by (simp only: if_False)
  qed
  then have "?m = (\<lambda>i. if \<exists>x < ?w. \<exists>y. y + 26 < unat (fb_height s) \<and> i = y * stride s + x then fade (pixels s i) else pixels s i)" by blast
  with eq show ?thesis by (simp only:)
qed

lemma draws_fade: "drawing fade_frame"
  unfolding drawing_def
proof (intro allI impI)
  fix s assume ok: "screen_ok s"
  have "on_screen s i" if i: "\<exists>x < unat (fb_width s). \<exists>y. y + 26 < unat (fb_height s) \<and> i = y * stride s + x" for i
  proof -
    obtain x y where xy: "x < unat (fb_width s)" "y + 26 < unat (fb_height s)" "i = y * stride s + x" using i by blast
    have "y < unat (fb_height s)" using xy(2) by simp
    with xy(1,3) show ?thesis unfolding on_screen_def by blast
  qed
  then show "draws s (fade_frame s)" unfolding fade_frame_pixels [OF ok] draws_def by (intro exI conjI) (rule refl, auto)
qed

lemma fade_bit: "bit (fade p) n \<Longrightarrow> bit p (Suc n) \<and> n mod 8 \<noteq> 7"
proof
  assume b: "bit (fade p) n"
  then show "bit p (Suc n)" by (simp add: fade_def bit_simps)
  have m: "bit (0x7F7F7F :: u32) n" using b by (simp add: fade_def bit_simps)
  then have "n < 32" using bit_imp_le_length [of "0x7F7F7F :: u32" n] by simp
  show "n mod 8 \<noteq> 7"
  proof
    assume "n mod 8 = 7"
    with \<open>n < 32\<close> have "n = 7 \<or> n = 15 \<or> n = 23 \<or> n = 31" by presburger
    with m show False by (elim disjE) simp_all
  qed
qed

lemma fade_eight: "(fade ^^ 8) p = 0"
proof -
  have chain: "bit ((fade ^^ k) p) n \<Longrightarrow> \<forall>j < k. (n + j) mod 8 \<noteq> 7" for k n
  proof (induction k arbitrary: n)
    case (Suc k)
    have b: "bit ((fade ^^ k) p) (Suc n)" "n mod 8 \<noteq> 7" using fade_bit [of "(fade ^^ k) p" n] Suc.prems by simp_all
    show ?case
    proof (intro allI impI)
      fix j assume "j < Suc k"
      then show "(n + j) mod 8 \<noteq> 7" using b(2) Suc.IH [OF b(1)] by (cases j) simp_all
    qed
  qed simp
  have "\<not> bit ((fade ^^ 8) p) n" for n
  proof
    assume "bit ((fade ^^ 8) p) n"
    have "7 - n mod 8 < 8" by simp
    from chain [OF \<open>bit ((fade ^^ 8) p) n\<close>, rule_format, OF this] have "(n + (7 - n mod 8)) mod 8 \<noteq> 7" .
    moreover have "(n + (7 - n mod 8)) mod 8 = 7"
    proof -
      have "n = n div 8 * 8 + n mod 8" "n mod 8 < 8" by simp_all
      then have "n + (7 - n mod 8) = n div 8 * 8 + 7" by linarith
      then show ?thesis by (simp only:) simp
    qed
    ultimately show False by simp
  qed
  then show ?thesis by (simp add: bit_eq_iff)
qed

section \<open>The animation\<close>

lemma move_animates: "screen_ok s \<Longrightarrow> animates s (move_particle i s)"
proof -
  assume ok: "screen_ok s"
  define p where "p = (g_particles s ! i)\<lparr>p_angle := p_angle (g_particles s ! i) + p_speed (g_particles s ! i)\<rparr>"
  let ?s = "s\<lparr>g_particles := (g_particles s)[i := p]\<rparr>"
  have a: "animates s ?s" by (simp add: animates_def)
  show ?thesis
    unfolding move_particle_def Let_def p_def [symmetric]
    by (simp add: drawing_animates [OF draws_rect ok a] drawing_animates [OF draws_put ok a])
qed

lemma moves_animate: "screen_ok s \<Longrightarrow> animates s (fold move_particle is s)"
proof (induction "is" arbitrary: s)
  case (Cons i "is")
  have a: "animates s (move_particle i s)" by (rule move_animates [OF Cons.prems])
  then have "screen_ok (move_particle i s)" using animates_screen Cons.prems by blast
  then show ?case using animates_trans [OF a] Cons.IH by simp
qed (simp add: animates_refl)

lemma fps_animates: "animates s (fps_update tsc s)"
  by (simp add: fps_update_def Let_def rdtsc_def animates_def on_screen_def stride_def)

lemma init_particles_animates: "animates s (init_particles is tw GH s)"
proof (induction "is" arbitrary: s)
  case (Cons i "is")
  show ?case
    by (simp add: lcg_rand_def Let_def) (rule animates_trans [OF _ Cons], simp add: animates_def)
qed (simp add: animates_refl)

lemma particles_init_animates: "animates s (particles_init s)"
proof -
  obtain ox0 oy GW GH GAP where l: "logo_layout s = (ox0, oy, GW, GH, GAP)" by (cases "logo_layout s")
  let ?u = "s\<lparr>g_cx := ox0 + (4 * GW + 3 * GAP) sdiv 2, g_cy := oy + GH sdiv 2\<rparr>"
  have "animates s ?u" by (simp add: animates_def)
  from animates_trans [OF this init_particles_animates]
  have "animates s (init_particles [0 ..< NUM_PARTICLES] (4 * GW + 3 * GAP) GH ?u)" .
  then show ?thesis by (simp add: particles_init_def l Let_def animates_def)
qed

lemma tick_animates:
  assumes "screen_ok s"
  shows "animates s (nvec_tick tsc s)"
proof (cases "\<not> g_ready s \<or> g_mode s \<noteq> DISPLAY_MODE_GRAPHICS")
  case True
  then show ?thesis by (simp add: nvec_tick_def animates_refl)
next
  case False
  let ?s1 = "s\<lparr>fade_skip := fade_skip s XOR 1\<rparr>"
  define s2 where "s2 = (if fade_skip ?s1 = 0 then fade_frame ?s1 else ?s1)"
  have a1: "animates s ?s1" by (simp add: animates_def)
  then have ok: "screen_ok u" if "animates s u" for u using that animates_screen assms by blast
  have a2: "animates s s2"
  proof (cases "fade_skip ?s1 = 0")
    case True
    then have "s2 = fade_frame ?s1" unfolding s2_def by (rule if_P)
    with drawing_animates [OF draws_fade assms a1] show ?thesis by (simp only:)
  next
    case False
    then have "s2 = ?s1" unfolding s2_def by (rule if_not_P)
    with a1 show ?thesis by (simp only:)
  qed
  have a3: "animates s (draw_logo s2)" by (rule drawing_animates [OF draws_logo assms a2])
  have a4: "animates s (fold move_particle [0 ..< NUM_PARTICLES] (draw_logo s2))" by (rule animates_trans [OF a3 moves_animate [OF ok [OF a3]]])
  let ?s5 = "fps_update tsc (fold move_particle [0 ..< NUM_PARTICLES] (draw_logo s2))"
  have a5: "animates s ?s5" by (rule animates_trans [OF a4 fps_animates])
  have "animates s (draw_status_bar (g_fps_display ?s5) ?s5)" by (rule drawing_animates [OF draws_status_bar assms a5])
  then show ?thesis using False by (simp add: nvec_tick_def Let_def s2_def cong: if_cong)
qed

lemma ticks_animate: "screen_ok s \<Longrightarrow> animates s ((nvec_tick tsc ^^ n) s)"
proof (induction n)
  case (Suc n)
  then have a: "animates s ((nvec_tick tsc ^^ n) s)" by blast
  then have "screen_ok ((nvec_tick tsc ^^ n) s)" using animates_screen Suc.prems by blast
  then show ?case using animates_trans [OF a tick_animates] by simp
qed (simp add: animates_refl)

lemma enter_animates:
  assumes "screen_ok s" "g_ready s" "g_mode s = DISPLAY_MODE_SHELL"
  shows "animates ((console_save s)\<lparr>g_mode := DISPLAY_MODE_GRAPHICS\<rparr>) (nvec_enter_graphics tsc s)" (is "animates ?s1 _")
    and "screen_ok ((console_save s)\<lparr>g_mode := DISPLAY_MODE_GRAPHICS\<rparr>)"
proof -
  show ok: "screen_ok ?s1" using assms(1) by (simp add: console_save_def screen_ok_def stride_def)
  define u where "u = snd (rdtsc tsc (particles_init ?s1))"
  let ?s3 = "u\<lparr>g_tsc_last := fst (rdtsc tsc (particles_init ?s1)), g_frame_count := 0, g_fps_display := 0\<rparr>"
  have a: "animates ?s1 ?s3" using particles_init_animates [of ?s1] by (simp add: animates_def u_def rdtsc_def)
  have "nvec_enter_graphics tsc s = nvec_render_initial ?s3"
    using assms(2,3) by (simp add: nvec_enter_graphics_def Let_def split_def u_def)
  with drawing_animates [OF draws_initial ok a] show "animates ?s1 (nvec_enter_graphics tsc s)" by (simp only:)
qed

text \<open>The keyboard drivers see the mode as a flag that the key flips (theory \<open>Input\<close>); it does.\<close>

lemma toggle_flips_mode:
  assumes "screen_ok s"
  shows "g_mode (nvec_toggle_screen tsc s) = DISPLAY_MODE_GRAPHICS \<longleftrightarrow>
    (if g_ready s then g_mode s \<noteq> DISPLAY_MODE_GRAPHICS else g_mode s = DISPLAY_MODE_GRAPHICS)"
proof (cases "g_ready s \<and> g_mode s = DISPLAY_MODE_SHELL")
  case True
  then show ?thesis using enter_animates(1) [OF assms, of tsc] by (simp add: nvec_toggle_screen_def animates_def)
next
  case False
  then show ?thesis
    by (cases "g_mode s") (auto simp: nvec_toggle_screen_def nvec_enter_graphics_def nvec_exit_graphics_def console_restore_def)
qed

section \<open>Properties\<close>

text \<open>C12. A graphics session gives the shell its screen back: on a screen of at most 1920 by 1080 pixels whose memory the
  indices reach, entering the graphics mode, drawing any number of frames and leaving it again
  leaves every word of the framebuffer, the mode and the geometry as they were.\<close>

theorem graphics_session_restores_screen:
  assumes "screen_ok s" "small_screen s" "g_ready s" "g_mode s = DISPLAY_MODE_SHELL"
  shows "let s' = nvec_exit_graphics ((nvec_tick tsc ^^ n) (nvec_enter_graphics tsc s)) in
    pixels s' = pixels s \<and> g_mode s' = DISPLAY_MODE_SHELL \<and> fb_width s' = fb_width s \<and> fb_height s' = fb_height s \<and> fb_pitch s' = fb_pitch s"
proof -
  obtain b where b: "console_save s = s\<lparr>g_shell_backup := b, g_backup_valid := True\<rparr>"
    "has_backup (s\<lparr>g_shell_backup := b, g_backup_valid := True\<rparr>) (pixels s)" using console_save_backup [OF assms(1,2)] by blast
  let ?s1 = "s\<lparr>g_shell_backup := b, g_backup_valid := True, g_mode := DISPLAY_MODE_GRAPHICS\<rparr>"
  have a4: "animates ?s1 (nvec_enter_graphics tsc s)" and ok1: "screen_ok ?s1"
    using enter_animates [OF assms(1,3,4)] by (simp_all add: b(1))
  have ok4: "screen_ok (nvec_enter_graphics tsc s)" using animates_screen [OF a4] ok1 by blast
  let ?t = "(nvec_tick tsc ^^ n) (nvec_enter_graphics tsc s)"
  have t: "animates ?s1 ?t" by (rule animates_trans [OF a4 ticks_animate [OF ok4]])
  let ?v = "?t\<lparr>g_mode := DISPLAY_MODE_SHELL\<rparr>"
  have v: "screen_ok ?v" "small_screen ?v" "has_backup ?v (pixels s)" "on_screen ?v = on_screen s"
    "\<And>i. \<not> on_screen s i \<Longrightarrow> pixels ?v i = pixels s i" "fb_width ?v = fb_width s" "fb_height ?v = fb_height s" "fb_pitch ?v = fb_pitch s"
    "g_ready ?t" "g_mode ?t \<noteq> DISPLAY_MODE_SHELL"
    using t b(2) assms(1-3) animates_screen [OF t]
    by (simp_all add: animates_def screen_ok_def small_screen_def has_backup_def stride_def on_screen_def fun_eq_iff)
  obtain m where m: "console_restore ?v = ?v\<lparr>pixels := m\<rparr>" "\<forall>i. m i = (if on_screen ?v i then pixels s i else pixels ?v i)"
    using console_restore_backup [OF v(1-3)] by blast
  have "m = pixels s" using m(2) v(4,5) by (auto simp: fun_eq_iff)
  moreover have "nvec_exit_graphics ?t = ?v\<lparr>pixels := m\<rparr>" using m(1) v(9,10) by (simp add: nvec_exit_graphics_def)
  ultimately show ?thesis using v(6-8) by (simp add: Let_def)
qed

definition demo_nvec :: nvec where
  "demo_nvec = \<lparr>reads = 0, events = [], pixels = (\<lambda>i. of_nat i), fb_width = 640, fb_height = 480, fb_pitch = 2560,
     g_ready = True, g_mode = DISPLAY_MODE_SHELL, g_particles = replicate 200 \<lparr>p_angle = 0, p_speed = 0, p_rx = 0, p_ry = 0, p_colour = 0, p_size = 0\<rparr>,
     g_cx = 0, g_cy = 0, g_particles_ready = False, g_rand_state = 0xDEADBEEF, g_tsc_khz = 2000000, g_tsc_last = 0,
     g_frame_count = 0, g_fps_display = 0, fade_skip = 0, g_shell_backup = (\<lambda>_. 0), g_backup_valid = False\<rparr>"

lemma demo_nvec_ok: "screen_ok demo_nvec" "small_screen demo_nvec" "g_ready demo_nvec" "g_mode demo_nvec = DISPLAY_MODE_SHELL"
  by (simp_all add: demo_nvec_def screen_ok_def small_screen_def stride_def BACKUP_MAX_W_def BACKUP_MAX_H_def)

theorem graphics_session_restores_screen_witness:
  "\<forall>tsc. pixels (nvec_exit_graphics ((nvec_tick tsc ^^ 60) (nvec_enter_graphics tsc demo_nvec))) 1234 = 1234"
proof
  fix tsc
  show "pixels (nvec_exit_graphics ((nvec_tick tsc ^^ 60) (nvec_enter_graphics tsc demo_nvec))) 1234 = 1234"
    using graphics_session_restores_screen [OF demo_nvec_ok, where tsc = tsc and n = 60] by (simp add: Let_def demo_nvec_def)
qed

text \<open>C35. A frame of the animation stays on the screen: whatever the layout, the particles and the counter are, \<open>nvec_tick\<close>
  changes no word outside the visible rectangle, and leaves the backup of the shell and the mode alone.\<close>

theorem nvec_tick_stays_on_screen:
  assumes "screen_ok s" "\<forall>x < unat (fb_width s). \<forall>y < unat (fb_height s). i \<noteq> y * stride s + x"
  shows "pixels (nvec_tick tsc s) i = pixels s i \<and> g_shell_backup (nvec_tick tsc s) = g_shell_backup s \<and>
    g_backup_valid (nvec_tick tsc s) = g_backup_valid s \<and> g_mode (nvec_tick tsc s) = g_mode s"
proof -
  have "\<not> on_screen s i" using assms(2) by (auto simp: on_screen_def)
  then show ?thesis using tick_animates [OF assms(1), of tsc] by (simp add: animates_def)
qed

theorem nvec_tick_stays_on_screen_witness:
  "\<forall>tsc. pixels (nvec_tick tsc (demo_nvec\<lparr>fb_width := 600, g_mode := DISPLAY_MODE_GRAPHICS\<rparr>)) 630 = 630"
proof
  fix tsc
  let ?s = "demo_nvec\<lparr>fb_width := 600, g_mode := DISPLAY_MODE_GRAPHICS\<rparr>"
  have "screen_ok ?s" by (simp add: demo_nvec_def screen_ok_def stride_def)
  moreover have "\<forall>x < unat (fb_width ?s). \<forall>y < unat (fb_height ?s). 630 \<noteq> y * stride ?s + x"
  proof (intro allI impI)
    fix x y assume "x < unat (fb_width ?s)"
    then have "x < 600" "stride ?s = 640" by (simp_all add: demo_nvec_def stride_def)
    then show "630 \<noteq> y * stride ?s + x" by (cases y) auto
  qed
  ultimately show "pixels (nvec_tick tsc ?s) 630 = 630"
    using nvec_tick_stays_on_screen [of ?s 630 tsc] by (simp add: demo_nvec_def)
qed

text \<open>The trails end in black: \<open>fade_frame\<close> halves each of the three colours of every visible pixel above the status bar
  (the comment speaks of an eighth) and changes nothing else, so eight of them clear the area above the bar, and the bar is
  as before.\<close>

theorem fade_frames_end_in_black:
  assumes "screen_ok s" "x < unat (fb_width s)" "y < unat (fb_height s)"
  shows "pixels (fade_frame s) (y * stride s + x) =
      (if y + 26 < unat (fb_height s) then drop_bit 1 (pixels s (y * stride s + x)) AND 0x7F7F7F else pixels s (y * stride s + x)) \<and>
    pixels ((fade_frame ^^ 8) s) (y * stride s + x) = (if y + 26 < unat (fb_height s) then 0 else pixels s (y * stride s + x))"
proof -
  have row: "(\<exists>x' < unat (fb_width u). \<exists>y'. y' + 26 < unat (fb_height u) \<and> y * stride u + x = y' * stride u + x') \<longleftrightarrow> y + 26 < unat (fb_height u)"
    if "screen_ok u" "x < unat (fb_width u)" for u
    using that index_inj [of x "unat (fb_width u)" "stride u"] unfolding screen_ok_def by blast
  have one: "pixels (fade_frame u) (y * stride u + x) = (if y + 26 < unat (fb_height u) then fade (pixels u (y * stride u + x)) else pixels u (y * stride u + x))"
    if u: "screen_ok u" "x < unat (fb_width u)" for u
    using row [OF u] unfolding fade_frame_pixels [OF u(1)] by simp
  have many: "draws s ((fade_frame ^^ k) s) \<and>
      pixels ((fade_frame ^^ k) s) (y * stride s + x) = (if y + 26 < unat (fb_height s) then (fade ^^ k) (pixels s (y * stride s + x)) else pixels s (y * stride s + x))" for k
  proof (induction k)
    case (Suc k)
    let ?u = "(fade_frame ^^ k) s"
    have d: "draws s ?u" using Suc by blast
    then have u: "screen_ok ?u" "fb_width ?u = fb_width s" "fb_height ?u = fb_height s" "stride ?u = stride s"
      using draws_screen [OF d assms(1)] by (auto simp: draws_def stride_def)
    have "draws s (fade_frame ?u)" using draws_trans [OF d drawingD [OF draws_fade u(1)]] .
    moreover have "pixels (fade_frame ?u) (y * stride s + x) =
        (if y + 26 < unat (fb_height s) then fade (pixels ?u (y * stride s + x)) else pixels ?u (y * stride s + x))"
      using one [OF u(1)] assms(2) unfolding u(2-4) by blast
    ultimately show ?case using Suc by simp
  qed (simp add: draws_refl)
  from many [of 8] one [OF assms(1,2)] show ?thesis by (simp only: fade_eight) (simp add: fade_def)
qed

theorem fade_frames_end_in_black_witness:
  "pixels ((fade_frame ^^ 8) demo_nvec) 1234 = 0 \<and> pixels ((fade_frame ^^ 8) demo_nvec) 300000 = 300000"
proof -
  have s: "stride demo_nvec = 640" "unat (fb_width demo_nvec) = 640" "unat (fb_height demo_nvec) = 480" by (simp_all add: demo_nvec_def stride_def)
  have "pixels ((fade_frame ^^ 8) demo_nvec) (1 * stride demo_nvec + 594) = 0"
    using fade_frames_end_in_black [OF demo_nvec_ok(1), of 594 1] by (simp add: s)
  moreover have "pixels ((fade_frame ^^ 8) demo_nvec) (468 * stride demo_nvec + 480) = pixels demo_nvec (468 * stride demo_nvec + 480)"
    using fade_frames_end_in_black [OF demo_nvec_ok(1), of 480 468] by (simp add: s)
  ultimately show ?thesis by (simp add: s) (simp add: demo_nvec_def)
qed

end
