(* ===== verification/ShellPath.thy ===== *)
theory ShellPath
  imports CString
begin

text \<open>
  \<open>resolve_path\<close> of the init shell (\<open>init/main.c\<close>): it joins the working directory and a path and
  removes the components \<open>.\<close> and \<open>..\<close>.  The array \<open>temp[128]\<close> with its length is the list of its
  characters; a write behind its end is \<open>None\<close>.
\<close>

section \<open>The code\<close>

abbreviation slash_char :: char where "slash_char \<equiv> CHR ''/''"

definition base_path :: "string \<Rightarrow> string \<Rightarrow> string option" where
  "base_path cwd inp =
     (if inp \<noteq> [] \<and> hd inp = slash_char then Some [slash_char]
      else
        let t = (if cwd = [] \<or> last cwd \<noteq> slash_char then cwd @ [slash_char] else cwd)
        in if length t > 127 then None else Some t)"

definition pop_component :: "string \<Rightarrow> string" where
  "pop_component t = (if length t > 1 then rev (dropWhile (\<lambda>c. c \<noteq> slash_char) (rev (butlast t))) else t)"

definition append_component :: "string \<Rightarrow> string \<Rightarrow> string option" where
  "append_component seg t =
     (let t = (if length t > 1 \<and> last t \<noteq> slash_char then t @ [slash_char] else t);
          t = t @ take (127 - length t) seg
      in if length t > 127 then None else Some t)"

lemma path_rest_shorter:
  assumes "dropWhile (\<lambda>c. c = slash_char) p \<noteq> []"
  shows "length (dropWhile (\<lambda>c. c \<noteq> slash_char) (dropWhile (\<lambda>c. c = slash_char) p)) < length p"
proof -
  let ?p = "dropWhile (\<lambda>c. c = slash_char) p"
  have "hd ?p \<noteq> slash_char" using hd_dropWhile [OF assms] by simp
  with assms have "length (dropWhile (\<lambda>c. c \<noteq> slash_char) ?p) < length ?p"
    by (cases ?p) (auto simp: length_dropWhile_le less_Suc_eq_le)
  also have "\<dots> \<le> length p" by (rule length_dropWhile_le)
  finally show ?thesis .
qed

function path_loop :: "string \<Rightarrow> string \<Rightarrow> string option" where
  "path_loop p t =
     (let p = dropWhile (\<lambda>c. c = slash_char) p in
      if p = [] then Some t
      else
        let seg = takeWhile (\<lambda>c. c \<noteq> slash_char) p; rest = dropWhile (\<lambda>c. c \<noteq> slash_char) p in
        if seg = ''.'' then path_loop rest t
        else if seg = ''..'' then path_loop rest (pop_component t)
        else (case append_component seg t of None \<Rightarrow> None | Some t \<Rightarrow> path_loop rest t))"
  by pat_completeness auto

termination
  by (relation "measure (\<lambda>(p, _). length p)") (auto simp: path_rest_shorter)

declare path_loop.simps [simp del]

definition clean_path :: "string \<Rightarrow> string" where
  "clean_path t = (if length t > 1 \<and> last t = slash_char then butlast t else if t = [] then [slash_char] else t)"

definition resolve_path :: "string \<Rightarrow> string \<Rightarrow> string option" where
  "resolve_path cwd inp =
     (case base_path cwd inp of
        None \<Rightarrow> None
      | Some t \<Rightarrow> map_option clean_path (path_loop (if inp \<noteq> [] \<and> hd inp = slash_char then tl inp else inp) t))"

section \<open>Paths as lists of components\<close>

definition join :: "string list \<Rightarrow> string" where
  "join cs = (if cs = [] then [slash_char] else concat (map (\<lambda>c. slash_char # c) cs))"

definition component_ok :: "string \<Rightarrow> bool" where
  "component_ok c \<longleftrightarrow> c \<noteq> [] \<and> slash_char \<notin> set c \<and> c \<noteq> ''.'' \<and> c \<noteq> ''..''"

text \<open>What \<open>..\<close> and the cut at the end of the array may leave: any name.\<close>

definition name_ok :: "string \<Rightarrow> bool" where "name_ok c \<longleftrightarrow> c \<noteq> [] \<and> slash_char \<notin> set c"

lemma component_name_ok: "\<forall>c \<in> set cs. component_ok c \<Longrightarrow> \<forall>c \<in> set cs. name_ok c"
  by (auto simp: component_ok_def name_ok_def)

definition apply_component :: "string \<Rightarrow> string list \<Rightarrow> string list" where
  "apply_component seg cs = (if seg = ''.'' then cs else if seg = ''..'' then butlast cs else cs @ [seg])"

lemma apply_component_simps:
  "apply_component ''.'' cs = cs" "apply_component ''..'' cs = butlast cs" "component_ok seg \<Longrightarrow> apply_component seg cs = cs @ [seg]"
  by (simp_all add: apply_component_def component_ok_def)

text \<open>The nonempty components of a path.\<close>

fun components :: "string \<Rightarrow> string \<Rightarrow> string list" where
  "components [] acc = (if acc = [] then [] else [acc])"
| "components (c # p) acc =
     (if c = slash_char then (if acc = [] then components p [] else acc # components p [])
      else components p (acc @ [c]))"

lemma components_slashes: "components (dropWhile (\<lambda>c. c = slash_char) p) [] = components p []"
  by (induction p) auto

lemma components_seg:
  "acc @ takeWhile (\<lambda>c. c \<noteq> slash_char) p \<noteq> [] \<Longrightarrow>
     components p acc = (acc @ takeWhile (\<lambda>c. c \<noteq> slash_char) p) # components (dropWhile (\<lambda>c. c \<noteq> slash_char) p) []"
proof (induction p arbitrary: acc)
  case (Cons c p)
  then show ?case
  proof (cases "c = slash_char")
    case False
    then show ?thesis using Cons.IH [of "acc @ [c]"] by simp
  qed simp
qed simp

text \<open>The array holds the path of the components, perhaps with a slash behind it.\<close>

definition holds :: "string list \<Rightarrow> string \<Rightarrow> bool" where
  "holds cs t \<longleftrightarrow> t = join cs \<or> (cs \<noteq> [] \<and> t = join cs @ [slash_char])"

lemma join_snoc: "join (cs @ [c]) = (if cs = [] then [] else join cs) @ slash_char # c"
  by (simp add: join_def)

lemma join_nonempty [simp]: "join cs \<noteq> []"
  by (auto simp: join_def neq_Nil_conv)

lemma last_join: "\<forall>c \<in> set cs. name_ok c \<Longrightarrow> last (join cs) = slash_char \<longleftrightarrow> cs = []"
proof (cases cs rule: rev_exhaust)
  case (snoc cs' c)
  assume "\<forall>c \<in> set cs. name_ok c"
  then have c: "c \<noteq> []" "slash_char \<notin> set c" using snoc by (auto simp: name_ok_def)
  have "last c \<in> set c" using c(1) by (rule last_in_set)
  with c(2) have "last c \<noteq> slash_char" by metis
  then show ?thesis using snoc c by (auto simp: join_snoc)
qed (simp add: join_def)

lemma join_long: "\<forall>c \<in> set cs. name_ok c \<Longrightarrow> cs \<noteq> [] \<Longrightarrow> 1 < length (join cs)"
  by (cases cs rule: rev_exhaust) (auto simp: join_snoc name_ok_def)

lemma holds_last: "\<forall>c \<in> set cs. name_ok c \<Longrightarrow> holds cs t \<Longrightarrow> last t = slash_char \<longleftrightarrow> cs = [] \<or> t = join cs @ [slash_char]"
  by (auto simp: holds_def last_join)

lemma pop_holds:
  assumes "\<forall>c \<in> set cs. name_ok c" "holds cs t"
  shows "holds (butlast cs) (pop_component t)" "length (pop_component t) \<le> length t"
    "last (pop_component t) = slash_char"
proof -
  let ?d = "\<lambda>u. rev (dropWhile (\<lambda>c. c \<noteq> slash_char) (rev u))"
  have dropped: "?d (u @ [slash_char] @ v) = u @ [slash_char]" if "slash_char \<notin> set v" for u v
  proof -
    have "\<forall>x \<in> set (rev v). x \<noteq> slash_char" using that by auto
    then have "dropWhile (\<lambda>c. c \<noteq> slash_char) (rev v @ slash_char # rev u) = slash_char # rev u"
      by (subst dropWhile_append2) auto
    then show ?thesis by simp
  qed
  have "holds (butlast cs) (pop_component t) \<and> length (pop_component t) \<le> length t \<and> last (pop_component t) = slash_char"
  proof (cases cs rule: rev_exhaust)
    case Nil
    then show ?thesis using assms by (simp add: holds_def join_def pop_component_def)
  next
    case (snoc cs' c)
    define u where "u = (if cs' = [] then [] else join cs')"
    have c: "c \<noteq> []" "slash_char \<notin> set c" using assms(1) snoc by (auto simp: name_ok_def)
    have t: "t = u @ [slash_char] @ c \<or> t = (u @ [slash_char] @ c) @ [slash_char]"
      using assms(2) snoc by (auto simp: holds_def join_snoc u_def)
    have "pop_component t = u @ [slash_char]"
    proof -
      have b: "butlast (u @ [slash_char] @ c) = u @ [slash_char] @ butlast c" using c(1) by (simp add: butlast_append)
      have "slash_char \<notin> set (butlast c)" using c(2) by (auto dest: in_set_butlastD)
      then have "?d (butlast t) = u @ [slash_char]" using t
      proof (elim disjE)
        assume "slash_char \<notin> set (butlast c)" "t = u @ [slash_char] @ c"
        then show ?thesis using dropped [of "butlast c" u] by (simp only: b not_False_eq_True)
      next
        assume "t = (u @ [slash_char] @ c) @ [slash_char]"
        then show ?thesis using dropped [OF c(2), of u] by (simp only: butlast_snoc)
      qed
      moreover have "1 < length t" using t c(1) by (auto simp: Suc_le_eq)
      ultimately show ?thesis by (simp add: pop_component_def)
    qed
    then show ?thesis using t snoc by (auto simp: holds_def u_def join_def)
  qed
  then show "holds (butlast cs) (pop_component t)" "length (pop_component t) \<le> length t" "last (pop_component t) = slash_char"
    by auto
qed

text \<open>The walk over the components in an array of 127 characters and a NUL: a name that does not fit is cut, is left out when there is
  no room for its first character, and leads behind the end when there is no room for the slash before it.\<close>

definition push_name :: "string \<Rightarrow> string list \<Rightarrow> string list option" where
  "push_name seg cs =
     (if seg = ''.'' then Some cs else if seg = ''..'' then Some (butlast cs)
      else if cs \<noteq> [] \<and> 127 \<le> length (join cs) then None
      else let room = 127 - (length (join cs) + (if cs = [] then 0 else 1))
        in Some (if room = 0 then cs else cs @ [take room seg]))"

primrec walk_names_in :: "string list \<Rightarrow> string list \<Rightarrow> string list option" where
  "walk_names_in [] cs = Some cs"
| "walk_names_in (seg # segs) cs = (case push_name seg cs of None \<Rightarrow> None | Some cs \<Rightarrow> walk_names_in segs cs)"

lemma append_holds:
  assumes "\<forall>c \<in> set cs. name_ok c" "holds cs t" "length t \<le> 127" "name_ok seg" "seg \<noteq> ''.''" "seg \<noteq> ''..''"
  shows "case push_name seg cs of None \<Rightarrow> append_component seg t = None
    | Some cs' \<Rightarrow> \<exists>t'. append_component seg t = Some t' \<and> holds cs' t' \<and> length t' \<le> 127 \<and> (\<forall>c \<in> set cs'. name_ok c)"
proof -
  define u where "u = (if cs = [] then [] else join cs)"
  have cut: "name_ok (take k seg)" if "0 < k" for k
    using assms(4) that by (auto simp: name_ok_def dest: in_set_takeD)
  show ?thesis
  proof (cases "last t = slash_char")
    case True
    then have t: "t = u @ [slash_char]"
      using assms(1,2) holds_last [OF assms(1,2)] by (auto simp: holds_def join_def u_def)
    let ?room = "127 - length t"
    have room: "127 - (length (join cs) + (if cs = [] then 0 else 1)) = ?room" by (simp add: t u_def join_def)
    have app: "append_component seg t = Some (t @ take ?room seg)" using True assms(3) by (simp add: append_component_def)
    have "\<not> (cs \<noteq> [] \<and> 127 \<le> length (join cs))" using assms(3) by (auto simp: t u_def)
    then have push: "push_name seg cs = Some (if ?room = 0 then cs else cs @ [take ?room seg])"
      using assms(5,6) by (simp add: push_name_def room)
    show ?thesis
    proof (cases "?room = 0")
      case True
      then show ?thesis using push app assms(1-3) by simp
    next
      case False
      then have "holds (cs @ [take ?room seg]) (t @ take ?room seg)" by (simp add: holds_def join_snoc t u_def)
      then show ?thesis using False push app assms(1,3) cut [of ?room] by simp
    qed
  next
    case False
    then have t: "t = join cs" "cs \<noteq> []" using assms(2) holds_last [OF assms(1,2)] by (auto simp: holds_def)
    then have long: "1 < length t" using join_long [OF assms(1)] by simp
    show ?thesis
    proof (cases "length t = 127")
      case True
      then show ?thesis using False long t assms(5,6) by (simp add: push_name_def append_component_def)
    next
      case short: False
      let ?room = "126 - length t"
      have app: "append_component seg t = Some ((t @ [slash_char]) @ take ?room seg)"
        using False long short assms(3) by (simp add: append_component_def Let_def)
      have push: "push_name seg cs = Some (if ?room = 0 then cs else cs @ [take ?room seg])"
        using t short assms(3,5,6) by (simp add: push_name_def)
      show ?thesis
      proof (cases "?room = 0")
        case True
        then have "holds cs ((t @ [slash_char]) @ take ?room seg)" using t by (simp add: holds_def)
        moreover have "length t = 126" using True short assms(3) by simp
        ultimately show ?thesis using True push app assms(1) by simp
      next
        case room: False
        then have "holds (cs @ [take ?room seg]) ((t @ [slash_char]) @ take ?room seg)" using t by (simp add: holds_def join_snoc)
        then show ?thesis using room push app assms(1,3) cut [of ?room] by simp
      qed
    qed
  qed
qed

section \<open>The loop\<close>

lemma takeWhile_ok: "p \<noteq> [] \<Longrightarrow> hd p \<noteq> slash_char \<Longrightarrow>
    takeWhile (\<lambda>c. c \<noteq> slash_char) p \<noteq> [] \<and> slash_char \<notin> set (takeWhile (\<lambda>c. c \<noteq> slash_char) p)"
  by (cases p) (auto dest: set_takeWhileD)

lemma path_loop_exact:
  assumes "\<forall>c \<in> set cs. name_ok c" "holds cs t" "length t \<le> 127"
  shows "case walk_names_in (components p []) cs of None \<Rightarrow> path_loop p t = None
    | Some cs' \<Rightarrow> \<exists>t'. path_loop p t = Some t' \<and> holds cs' t' \<and> length t' \<le> 127 \<and> (\<forall>c \<in> set cs'. name_ok c)"
  using assms
proof (induction p t arbitrary: cs rule: path_loop.induct)
  case (1 p t)
  let ?p = "dropWhile (\<lambda>c. c = slash_char) p"
  let ?seg = "takeWhile (\<lambda>c. c \<noteq> slash_char) ?p" and ?rest = "dropWhile (\<lambda>c. c \<noteq> slash_char) ?p"
  show ?case
  proof (cases "?p = []")
    case True
    have "components p [] = components ?p []" by (rule components_slashes [symmetric])
    then have "components p [] = []" by (simp only: True components.simps simp_thms if_True)
    then show ?thesis using 1 True path_loop.simps [of p t] by simp
  next
    case False
    have hd: "hd ?p \<noteq> slash_char" using hd_dropWhile [OF False] by simp
    then have seg: "name_ok ?seg" unfolding name_ok_def by (rule takeWhile_ok [OF False])
    have comps: "components p [] = ?seg # components ?rest []"
      using components_slashes [of p] components_seg [of "[]" ?p] seg by (simp add: name_ok_def)
    have loop: "path_loop p t = (if ?seg = ''.'' then path_loop ?rest t
        else if ?seg = ''..'' then path_loop ?rest (pop_component t)
        else (case append_component ?seg t of None \<Rightarrow> None | Some t \<Rightarrow> path_loop ?rest t))"
      by (subst path_loop.simps) (simp only: Let_def False if_False)
    consider (dot) "?seg = ''.''" | (up) "?seg \<noteq> ''.''" "?seg = ''..''" | (other) "?seg \<noteq> ''.''" "?seg \<noteq> ''..''" by blast
    then show ?thesis
    proof cases
      case dot
      show ?thesis using 1(1) [OF refl False refl refl dot 1(4-6)] unfolding comps loop by (simp add: dot push_name_def)
    next
      case up
      note pop = pop_holds [OF 1(4,5)]
      have names: "\<forall>c \<in> set (butlast cs). name_ok c" using 1(4) by (auto dest: in_set_butlastD)
      have len: "length (pop_component t) \<le> 127" using pop(2) 1(6) by simp
      show ?thesis using 1(2) [OF refl False refl refl up names pop(1) len] up
        unfolding comps loop by (simp add: push_name_def)
    next
      case other
      note app = append_holds [OF 1(4-6) seg other]
      show ?thesis
      proof (cases "push_name ?seg cs")
        case None
        then show ?thesis using app other unfolding comps loop by simp
      next
        case (Some cs')
        then obtain t' where t': "append_component ?seg t = Some t'" "holds cs' t'" "length t' \<le> 127" "\<forall>c \<in> set cs'. name_ok c"
          using app by auto
        show ?thesis using 1(3) [OF refl False refl refl other t'(1) t'(4,2,3)] Some other
          unfolding comps loop t'(1) option.case by simp
      qed
    qed
  qed
qed

lemma clean_holds: "\<forall>c \<in> set cs. name_ok c \<Longrightarrow> holds cs t \<Longrightarrow> clean_path t = join cs"
  using join_long [of cs] last_join [of cs] by (auto simp: holds_def clean_path_def) (auto simp: join_def)

text \<open>The directory a path leads to from the directory \<open>cs\<close>.\<close>

definition follow_path :: "string list \<Rightarrow> string \<Rightarrow> string list option" where
  "follow_path cs inp =
     (if inp \<noteq> [] \<and> hd inp = slash_char then walk_names_in (components inp []) []
      else if cs \<noteq> [] \<and> length (join cs) = 127 then None
      else walk_names_in (components inp []) cs)"

lemma resolve_path_exact:
  assumes "\<forall>c \<in> set cs. name_ok c" "length (join cs) \<le> 127"
  shows "resolve_path (join cs) inp = map_option join (follow_path cs inp)"
    "follow_path cs inp = Some cs' \<Longrightarrow> length (join cs') \<le> 127 \<and> (\<forall>c \<in> set cs'. name_ok c)"
proof -
  have loop: "map_option clean_path (path_loop p t) = map_option join (walk_names_in (components p []) ds) \<and>
      (walk_names_in (components p []) ds = Some cs' \<longrightarrow> length (join cs') \<le> 127 \<and> (\<forall>c \<in> set cs'. name_ok c))"
    if h: "\<forall>c \<in> set ds. name_ok c" "holds ds t" "length t \<le> 127" for p t ds
  proof (cases "walk_names_in (components p []) ds")
    case None
    then show ?thesis using path_loop_exact [OF h, of p] by simp
  next
    case (Some es)
    then obtain t' where t': "path_loop p t = Some t'" "holds es t'" "length t' \<le> 127" "\<forall>c \<in> set es. name_ok c"
      using path_loop_exact [OF h, of p] by auto
    moreover have "length (join es) \<le> length t'" using t'(2) by (auto simp: holds_def)
    ultimately show ?thesis using Some clean_holds [OF t'(4,2)] by auto
  qed
  have "resolve_path (join cs) inp = map_option join (follow_path cs inp) \<and>
      (follow_path cs inp = Some cs' \<longrightarrow> length (join cs') \<le> 127 \<and> (\<forall>c \<in> set cs'. name_ok c))"
  proof (cases "inp \<noteq> [] \<and> hd inp = slash_char")
    case True
    then obtain p where p: "inp = slash_char # p" by (cases inp) auto
    have "holds [] [slash_char]" by (simp add: holds_def join_def)
    from loop [OF _ this, of p] show ?thesis by (simp add: p resolve_path_def base_path_def follow_path_def)
  next
    case rel: False
    define t where "t = (if last (join cs) = slash_char then join cs else join cs @ [slash_char])"
    have h: "holds cs t" using last_join [OF assms(1)] by (auto simp: holds_def t_def)
    show ?thesis
    proof (cases "cs \<noteq> [] \<and> length (join cs) = 127")
      case True
      then have "last (join cs) \<noteq> slash_char" using last_join [OF assms(1)] by simp
      then show ?thesis using True rel by (auto simp: resolve_path_def base_path_def follow_path_def)
    next
      case False
      then have len: "length t \<le> 127" using assms(2) last_join [OF assms(1)] by (auto simp: join_def t_def)
      then have "base_path (join cs) inp = Some t" using rel by (auto simp: base_path_def Let_def t_def)
      then have "resolve_path (join cs) inp = map_option clean_path (path_loop inp t)" using rel by (auto simp: resolve_path_def)
      moreover have "follow_path cs inp = walk_names_in (components inp []) cs" using rel False by (auto simp: follow_path_def)
      ultimately show ?thesis using loop [OF assms(1) h len, of inp] by simp
    qed
  qed
  then show "resolve_path (join cs) inp = map_option join (follow_path cs inp)"
    "follow_path cs inp = Some cs' \<Longrightarrow> length (join cs') \<le> 127 \<and> (\<forall>c \<in> set cs'. name_ok c)" by blast+
qed

text \<open>Nothing is cut when directory and path fit together.\<close>

lemma components_size: "sum_list (map (\<lambda>c. Suc (length c)) (components p acc)) \<le> length p + length acc + 1"
  by (induction p acc rule: components.induct) auto

lemma components_names: "slash_char \<notin> set acc \<Longrightarrow> c \<in> set (components p acc) \<Longrightarrow> name_ok c"
  by (induction p acc rule: components.induct) (auto simp: name_ok_def split: if_splits)

lemma walk_fits:
  assumes "length (join cs) + sum_list (map (\<lambda>c. Suc (length c)) segs) \<le> 127" "\<forall>c \<in> set segs. name_ok c"
  shows "walk_names_in segs cs = Some (fold apply_component segs cs)"
  using assms
proof (induction segs arbitrary: cs)
  case (Cons seg segs)
  have short: "length (join (butlast cs)) \<le> length (join cs)"
    by (cases cs rule: rev_exhaust) (auto simp: join_snoc, simp add: join_def)
  show ?case
  proof (cases "seg = ''.'' \<or> seg = ''..''")
    case True
    then show ?thesis using Cons.IH [of cs] Cons.IH [of "butlast cs"] Cons.prems short
      by (auto simp: push_name_def apply_component_def)
  next
    case False
    have ne: "1 \<le> length seg" using Cons.prems(2) by (cases seg) (auto simp: name_ok_def)
    have fits: "length seg \<le> 127 - (length (join cs) + (if cs = [] then 0 else 1))" using Cons.prems(1) by auto
    then have "push_name seg cs = Some (cs @ [seg])" using False ne Cons.prems(1) by (auto simp: push_name_def Let_def)
    moreover have "length (join (cs @ [seg])) \<le> length (join cs) + Suc (length seg)" by (simp add: join_snoc)
    ultimately show ?thesis using Cons.IH [of "cs @ [seg]"] Cons.prems False by (simp add: apply_component_def)
  qed
qed simp

section \<open>What holds for any path\<close>

definition path_ok :: "string \<Rightarrow> bool" where
  "path_ok t \<longleftrightarrow> t \<noteq> [] \<and> hd t = slash_char \<and> length t \<le> 127"

lemma pop_path_ok: "path_ok t \<Longrightarrow> path_ok (pop_component t)"
proof (cases "length t > 1")
  case True
  assume ok: "path_ok t"
  note True0 = True
  let ?u = "butlast t"
  obtain r where u: "?u = slash_char # r" using True ok by (cases t) (auto simp: path_ok_def)
  have "\<exists>v. pop_component t = slash_char # v"
  proof (cases "\<exists>x \<in> set (rev r). \<not> (x \<noteq> slash_char)")
    case True
    then have "dropWhile (\<lambda>c. c \<noteq> slash_char) (rev r @ [slash_char]) = dropWhile (\<lambda>c. c \<noteq> slash_char) (rev r) @ [slash_char]"
      by (elim bexE) (rule dropWhile_append1)
    then show ?thesis using True0 by (simp add: u pop_component_def)
  next
    case False
    then have "dropWhile (\<lambda>c. c \<noteq> slash_char) (rev r @ [slash_char]) = [slash_char]"
      by (subst dropWhile_append2) auto
    then show ?thesis using True0 by (simp add: u pop_component_def)
  qed
  then obtain v where v: "pop_component t = slash_char # v" ..
  have "length (rev (dropWhile (\<lambda>c. c \<noteq> slash_char) (rev ?u))) \<le> length ?u"
    using length_dropWhile_le [of _ "rev ?u"] by simp
  then have "length (pop_component t) \<le> length t" using True by (simp add: pop_component_def)
  then show ?thesis using ok v by (simp add: path_ok_def)
qed (simp add: pop_component_def)

lemma append_path_ok: "path_ok t \<Longrightarrow> append_component seg t = Some u \<Longrightarrow> path_ok u"
  by (auto simp: path_ok_def append_component_def Let_def split: if_splits)

lemma path_loop_ok: "path_loop p t = Some u \<Longrightarrow> path_ok t \<Longrightarrow> path_ok u"
proof (induction p t rule: path_loop.induct)
  case (1 p t)
  let ?p = "dropWhile (\<lambda>c. c = slash_char) p"
  let ?seg = "takeWhile (\<lambda>c. c \<noteq> slash_char) ?p" and ?rest = "dropWhile (\<lambda>c. c \<noteq> slash_char) ?p"
  show ?case
  proof (cases "?p = []")
    case True
    have "path_loop p t = Some t" by (subst path_loop.simps) (simp only: Let_def True if_True simp_thms)
    then show ?thesis using 1(4,5) by simp
  next
    case False
    have loop: "path_loop p t = (if ?seg = ''.'' then path_loop ?rest t
        else if ?seg = ''..'' then path_loop ?rest (pop_component t)
        else (case append_component ?seg t of None \<Rightarrow> None | Some t \<Rightarrow> path_loop ?rest t))"
      by (subst path_loop.simps) (simp only: Let_def False if_False)
    consider (dot) "?seg = ''.''" | (up) "?seg \<noteq> ''.''" "?seg = ''..''" | (other) "?seg \<noteq> ''.''" "?seg \<noteq> ''..''" by blast
    then show ?thesis
    proof cases
      case dot
      with 1(4) have "path_loop ?rest t = Some u" unfolding loop by simp
      then show ?thesis by (rule 1(1) [OF refl False refl refl dot _ 1(5)])
    next
      case up
      with 1(4) have "path_loop ?rest (pop_component t) = Some u" unfolding loop by simp
      then show ?thesis by (rule 1(2) [OF refl False refl refl up _ pop_path_ok [OF 1(5)]])
    next
      case other
      then obtain t' where t': "append_component ?seg t = Some t'" "path_loop ?rest t' = Some u"
        using 1(4) unfolding loop by (auto split: option.splits)
      from t'(2) show ?thesis by (rule 1(3) [OF refl False refl refl other t'(1) _ append_path_ok [OF 1(5) t'(1)]])
    qed
  qed
qed

lemma clean_path_ok: "path_ok t \<Longrightarrow> path_ok (clean_path t)"
  by (cases t) (auto simp: path_ok_def clean_path_def)

lemma resolve_path_ok:
  assumes "path_ok cwd" "resolve_path cwd inp = Some p"
  shows "path_ok p"
proof -
  obtain t u where t: "base_path cwd inp = Some t"
      "path_loop (if inp \<noteq> [] \<and> hd inp = slash_char then tl inp else inp) t = Some u" "p = clean_path u"
    using assms(2) by (auto simp: resolve_path_def split: option.splits)
  have "path_ok t" using t(1) assms(1) by (auto simp: base_path_def path_ok_def Let_def split: if_splits)
  then show ?thesis using path_loop_ok [OF t(2)] clean_path_ok t(3) by simp
qed

section \<open>Properties\<close>

text \<open>C23. Path normalisation refines the walk over components: from a working directory without \<open>.\<close>,
  \<open>..\<close> and empty components, \<open>resolve_path\<close> yields the path of the components that remain when the
  path's \<open>.\<close> are skipped and each \<open>..\<close> removes the component before it, starting from the root when
  the path begins with a slash.  The two must fit in 125 characters.\<close>

theorem resolve_path_normalizes:
  assumes "\<forall>c \<in> set cs. component_ok c" "length (join cs) + length inp + 2 \<le> 127"
  shows "resolve_path (join cs) inp =
    Some (join (fold apply_component (components inp []) (if inp \<noteq> [] \<and> hd inp = slash_char then [] else cs)))"
proof -
  have size: "sum_list (map (\<lambda>c. Suc (length c)) (components inp [])) \<le> length inp + 1"
    using components_size [of inp "[]"] by simp
  have "1 \<le> length (join cs)" "length (join []) = 1" by (simp_all add: Suc_le_eq) (simp add: join_def)
  then have "follow_path cs inp = Some (fold apply_component (components inp []) (if inp \<noteq> [] \<and> hd inp = slash_char then [] else cs))"
    using walk_fits [of cs "components inp []"] walk_fits [of "[]" "components inp []"] size assms(2) components_names [of "[]" _ inp]
    by (auto simp: follow_path_def)
  then show ?thesis using resolve_path_exact(1) [OF component_name_ok [OF assms(1)], of inp] assms(2) by simp
qed

theorem resolve_path_normalizes_witness:
  "resolve_path ''/System/Rhoudveine'' ''../.././/bin/x'' = Some ''/bin/x''"
  using resolve_path_normalizes [of "[''System'', ''Rhoudveine'']" "''../.././/bin/x''"]
  by (simp add: join_def component_ok_def apply_component_def)

text \<open>A working directory of 127 characters, which \<open>cd\<close> accepts, makes every relative path write behind
  the end of \<open>temp\<close>.\<close>

lemma resolve_path_overruns:
  "length cwd = 127 \<Longrightarrow> last cwd \<noteq> slash_char \<Longrightarrow> \<not> (inp \<noteq> [] \<and> hd inp = slash_char) \<Longrightarrow> resolve_path cwd inp = None"
  by (auto simp: resolve_path_def base_path_def)

end
