(* ===== verification/Shell.thy ===== *)
theory Shell
  imports ShellPath Vfs Input Console Format Timer Acpi
begin

text \<open>
  The embedded init shell (\<open>main\<close> of \<open>init/main.c\<close>): the line editor and the commands, over the file
  systems, the console, the keyboard, the timer and ACPI.  The kernel links all of them, so the
  tests for missing symbols succeed; \<open>CONFIG_AHCI\<close> is not set.  \<open>kernel_panic_shell\<close> does not return.
  The startup beep and the pauses are left out.
\<close>

section \<open>State\<close>

record shell_env =
  se_font :: "nat \<Rightarrow> u8"
  se_ports :: ports
  se_usb :: "nat \<Rightarrow> input \<Rightarrow> input"    \<comment> \<open>what the \<open>k\<close>-th poll of the USB keyboard does\<close>
  se_hw :: dev_env

record shell =
  sh_fs :: fs_world
  sh_con :: console
  sh_in :: input
  sh_timer :: timer
  sh_acpi :: acpi
  g_cwd :: string
  sh_polls :: nat

datatype line_outcome = NextLine | Panicked string

definition nl :: string where "nl = [CHR 0x0A]"

definition show_cursor :: "shell \<Rightarrow> shell" where "show_cursor s = s\<lparr>sh_con := fb_cursor_show (sh_con s)\<rparr>"
definition hide_cursor :: "shell \<Rightarrow> shell" where "hide_cursor s = s\<lparr>sh_con := fb_cursor_hide (sh_con s)\<rparr>"

definition out_puts :: "shell_env \<Rightarrow> string \<Rightarrow> shell \<Rightarrow> shell" where
  "out_puts e t s = (let s = hide_cursor s in show_cursor (s\<lparr>sh_con := fb_puts (se_font e) t (sh_con s)\<rparr>))"

definition out_putchar :: "shell_env \<Rightarrow> char \<Rightarrow> shell \<Rightarrow> shell" where
  "out_putchar e c s = (let s = hide_cursor s in show_cursor (s\<lparr>sh_con := fb_putc (se_font e) c (sh_con s)\<rparr>))"

definition puts_all :: "shell_env \<Rightarrow> string list \<Rightarrow> shell \<Rightarrow> shell" where
  "puts_all e ts s = fold (out_puts e) ts s"

section \<open>The line editor\<close>

definition BUF_SIZE :: nat where "BUF_SIZE = 128"

text \<open>A character that was read (\<open>c > 0\<close>): the line when it ends, or the buffer.\<close>

definition edit_key :: "shell_env \<Rightarrow> int \<Rightarrow> string \<Rightarrow> shell \<Rightarrow> (string + string) \<times> shell" where
  "edit_key e c buf s =
     (if c = 13 \<or> c = 10 then
        let s = show_cursor (out_putchar e (CHR 0x0A) (hide_cursor s)) in (Inl buf, s)
      else if c = 8 \<or> c = 127 then
        if buf \<noteq> [] then
          let s = hide_cursor s; s = s\<lparr>sh_con := fb_backspace (sh_con s)\<rparr> in (Inr (butlast buf), show_cursor s)
        else (Inr buf, s)
      else if length buf < BUF_SIZE - 1 then
        let ch = char_of (nat c); s = show_cursor (out_putchar e ch (hide_cursor s)) in (Inr (buf @ [ch]), s)
      else (Inr buf, s))"

text \<open>Without input the cursor blinks: the counter, and whether it is shown.\<close>

definition blink :: "nat \<Rightarrow> bool \<Rightarrow> shell \<Rightarrow> nat \<times> bool \<times> shell" where
  "blink counter shown s =
     (if counter + 1 \<ge> 50 then (0, \<not> shown, if \<not> shown then show_cursor s else hide_cursor s)
      else (counter + 1, shown, s))"

partial_function (option) edit_line :: "shell_env \<Rightarrow> string \<Rightarrow> nat \<Rightarrow> bool \<Rightarrow> shell \<Rightarrow> (string \<times> shell) option" where
  "edit_line e buf counter shown s =
     (case try_getchar (se_ports e) (se_usb e (sh_polls s)) (sh_in s) of
        (c, inp) \<Rightarrow>
          let s = s\<lparr>sh_in := inp, sh_polls := sh_polls s + 1\<rparr> in
          if c \<le> 0 then (case blink counter shown s of (n, b, s) \<Rightarrow> edit_line e buf n b s)
          else
            (case edit_key e c buf s of
               (Inl line, s) \<Rightarrow> Some (line, s)
             | (Inr buf, s) \<Rightarrow> edit_line e buf counter shown s))"

definition read_line :: "shell_env \<Rightarrow> shell \<Rightarrow> (string \<times> shell) option" where
  "read_line e s = edit_line e [] 0 False (show_cursor (out_puts e ''init> '' (hide_cursor s)))"

section \<open>Commands\<close>

definition help_text :: "string list" where
  "help_text = map (\<lambda>t. t @ nl)
     [''Available commands:'', ''  help      - show this message'', ''  echo ...  - echo text'',
      ''  cdl [path]- list directory contents'', ''  dump <f>  - display file contents'',
      ''  write <file> <text> - write text to file'', ''  mkdir <dir> - create directory'',
      ''  cd <path> - change directory'', ''  uptime    - show system uptime'',
      ''  diskread <lba> - read sector from disk'', ''  shutdown  - ACPI shutdown'', ''  reboot    - ACPI reboot'']"

text \<open>The digits are collected from the right and turned around in place.\<close>

definition shell_decimal :: "u64 \<Rightarrow> string" where
  "shell_decimal n = rev (if n = 0 then ''0'' else digit_loop 10 n)"

definition uptime_text :: "u64 \<Rightarrow> string list" where
  "uptime_text ms =
     (let seconds = ms div 1000; minutes = seconds div 60; hours = minutes div 60 in
      [''Uptime: '', shell_decimal hours, ''h '', shell_decimal (minutes mod 60), ''m '', shell_decimal (seconds mod 60), ''s'' @ nl])"

text \<open>\<open>write <filename> <text>\<close>: the name ends at a blank.\<close>

definition write_args :: "string \<Rightarrow> string \<times> string" where
  "write_args p =
     (let f = take 127 (takeWhile (\<lambda>c. c \<noteq> CHR '' '') p); r = drop (length f) p
      in (f, if r \<noteq> [] \<and> hd r = CHR '' '' then tl r else r))"

definition cmd_write :: "shell_env \<Rightarrow> string \<Rightarrow> shell \<Rightarrow> shell option" where
  "cmd_write e args s =
     (let (filename, txt) = write_args args in
      do {
        abs_path \<leftarrow> resolve_path (g_cwd s) filename;
        (fd, fs) \<leftarrow> vfs_open abs_path 0x0101 (sh_fs s);
        if fd < 0 then Some (puts_all e [''Failed to open file for writing: '', abs_path, nl] (s\<lparr>sh_fs := fs\<rparr>))
        else do {
          (_, fs) \<leftarrow> vfs_write fd (map of_char txt) fs;
          (_, fs) \<leftarrow> vfs_write fd [10] fs;
          (_, fs) \<leftarrow> vfs_close fd fs;
          Some (puts_all e [''Wrote bytes to '', abs_path, nl] (s\<lparr>sh_fs := fs\<rparr>))
        }
      })"

definition cmd_mkdir :: "shell_env \<Rightarrow> string \<Rightarrow> shell \<Rightarrow> shell option" where
  "cmd_mkdir e path s =
     do {
       abs_path \<leftarrow> resolve_path (g_cwd s) path;
       (r, fs) \<leftarrow> vfs_mkdir abs_path (sh_fs s);
       Some (out_puts e ((if r = 0 then ''Directory created'' else ''Failed to create directory'') @ nl) (s\<lparr>sh_fs := fs\<rparr>))
     }"

text \<open>The loop over the entries; a directory with entries without end is \<open>None\<close>.\<close>

partial_function (option) list_entries :: "shell_env \<Rightarrow> int \<Rightarrow> shell \<Rightarrow> shell option" where
  "list_entries e fd s =
     (case vfs_readdir fd (sh_fs s) of
        (r, ent, fs) \<Rightarrow>
          if r \<noteq> 0 then Some (s\<lparr>sh_fs := fs\<rparr>)
          else (case ent of
                  None \<Rightarrow> None
                | Some d \<Rightarrow>
                    list_entries e fd (puts_all e ([de_name d] @ (if de_type d AND 2 \<noteq> 0 then [''/''] else []) @ [nl]) (s\<lparr>sh_fs := fs\<rparr>))))"

definition cmd_cdl :: "shell_env \<Rightarrow> string \<Rightarrow> shell \<Rightarrow> shell option" where
  "cmd_cdl e input_path s =
     do {
       abs_path \<leftarrow> resolve_path (g_cwd s) input_path;
       (fd, fs) \<leftarrow> vfs_open abs_path 0 (sh_fs s);
       if fd < 0 then Some (puts_all e [''Failed to open directory ('', abs_path, '')'' @ nl] (s\<lparr>sh_fs := fs\<rparr>))
       else do {
         s \<leftarrow> list_entries e fd (s\<lparr>sh_fs := fs\<rparr>);
         (_, fs) \<leftarrow> vfs_close fd (sh_fs s);
         Some (s\<lparr>sh_fs := fs\<rparr>)
       }
     }"

partial_function (option) dump_blocks :: "shell_env \<Rightarrow> int \<Rightarrow> shell \<Rightarrow> shell option" where
  "dump_blocks e fd s =
     (case vfs_read fd 512 (sh_fs s) of
        None \<Rightarrow> None
      | Some (n, bytes, fs) \<Rightarrow>
          if n \<le> 0 then Some (s\<lparr>sh_fs := fs\<rparr>)
          else dump_blocks e fd (fold (\<lambda>b. out_putchar e (char_of (unat b))) (take (nat n) bytes) (s\<lparr>sh_fs := fs\<rparr>)))"

definition cmd_dump :: "shell_env \<Rightarrow> string \<Rightarrow> shell \<Rightarrow> shell option" where
  "cmd_dump e path s =
     do {
       abs_path \<leftarrow> resolve_path (g_cwd s) path;
       (fd, fs) \<leftarrow> vfs_open abs_path 0 (sh_fs s);
       if fd < 0 then Some (puts_all e [''Failed to open file: '', abs_path, nl] (s\<lparr>sh_fs := fs\<rparr>))
       else do {
         s \<leftarrow> dump_blocks e fd (s\<lparr>sh_fs := fs\<rparr>);
         let s = out_putchar e (CHR 0x0A) s in
         do { (_, fs) \<leftarrow> vfs_close fd (sh_fs s); Some (s\<lparr>sh_fs := fs\<rparr>) }
       }
     }"

definition cmd_cd :: "shell_env \<Rightarrow> string \<Rightarrow> shell \<Rightarrow> shell option" where
  "cmd_cd e target s =
     do {
       new_path \<leftarrow> resolve_path (g_cwd s) target;
       (fd, fs) \<leftarrow> vfs_open new_path 0 (sh_fs s);
       if fd \<ge> 0 then do {
         (_, fs) \<leftarrow> vfs_close fd fs;
         Some (out_putchar e (CHR 0x0A) (puts_all e [''Changed directory to: '', new_path] (s\<lparr>sh_fs := fs, g_cwd := new_path\<rparr>)))
       }
       else Some (puts_all e [''Path not found: '', new_path, nl] (s\<lparr>sh_fs := fs\<rparr>))
     }"

definition starts :: "string \<Rightarrow> string \<Rightarrow> bool" where "starts buf p \<longleftrightarrow> my_strncmp buf p (length p) = 0"

text \<open>The argument of a \<open>cd\<close>, written or implied.\<close>

definition cd_target :: "string \<Rightarrow> string option" where
  "cd_target buf =
     (if starts buf ''cd '' then Some (drop 3 buf)
      else if buf \<noteq> [] \<and> hd buf = CHR ''/'' then Some buf
      else if buf \<noteq> [] \<and> last buf = CHR ''/'' then Some buf
      else if my_strcmp buf ''..'' = 0 then Some ''..''
      else None)"

text \<open>A line.  Behind \<open>shutdown\<close> and \<open>reboot\<close> the code goes on to the other commands.\<close>

definition run_line :: "shell_env \<Rightarrow> string \<Rightarrow> shell \<Rightarrow> (line_outcome \<times> shell) option" where
  "run_line e buf s =
     (let next = map_option (\<lambda>s. (NextLine, s)) in
      if buf = [] then next (Some s)
      else if my_strcmp buf ''help'' = 0 then next (Some (puts_all e help_text s))
      else if my_strcmp buf ''uptime'' = 0 then next (Some (puts_all e (uptime_text (timer_get_uptime_ms (sh_timer s))) s))
      else
        let s = (if my_strcmp buf ''shutdown'' = 0 then
                   let s = out_puts e (''Initiating ACPI shutdown...'' @ nl) s
                   in s\<lparr>sh_acpi := acpi_shutdown (se_hw e) (sh_acpi s)\<rparr>
                 else s) in
        if starts buf ''write '' then next (cmd_write e (drop 6 buf) s)
        else if starts buf ''mkdir '' then next (cmd_mkdir e (drop 6 buf) s)
        else if starts buf ''diskread '' then next (Some (out_puts e (''AHCI support disabled in kernel'' @ nl) s))
        else
          let s = (if my_strcmp buf ''reboot'' = 0 then
                     let s = out_puts e (''Initiating ACPI reboot...'' @ nl) s
                     in s\<lparr>sh_acpi := acpi_reboot (se_hw e) (sh_acpi s)\<rparr>
                   else s) in
          if my_strcmp buf ''panic'' = 0 then Some (Panicked ''manual panic from init shell'', s)
          else if starts buf ''panic '' then Some (Panicked (drop 6 buf), s)
          else if starts buf ''echo '' then next (Some (out_putchar e (CHR 0x0A) (out_puts e (drop 5 buf) s)))
          else if my_strcmp buf ''cdl'' = 0 \<or> starts buf ''cdl '' then
            next (cmd_cdl e (if length buf > 3 \<and> buf ! 3 = CHR '' '' then drop 4 buf else []) s)
          else if starts buf ''dump '' then next (cmd_dump e (drop 5 buf) s)
          else
            (case cd_target buf of
               Some target \<Rightarrow> next (cmd_cd e target s)
             | None \<Rightarrow> next (Some (out_puts e (''Unknown command. Type '' @ [CHR 0x27] @ ''help'' @ [CHR 0x27] @ '' for list.'' @ nl) s))))"

text \<open>One round of the main loop, as a relation: a line is read and run.\<close>

inductive shell_step :: "shell_env \<Rightarrow> shell \<Rightarrow> shell \<Rightarrow> bool" for e where
  line: "read_line e s = Some (buf, s1) \<Longrightarrow> run_line e buf s1 = Some (NextLine, s2) \<Longrightarrow> shell_step e s s2"

inductive_cases shell_stepE: "shell_step e s s'"

end
