(* ===== verification/ShellProps.thy ===== *)
theory ShellProps
  imports Shell SyscallProps ConsoleProps AcpiProps
begin

text \<open>
  What the init shell does with a line: the editor returns what was typed, the working directory
  stays a path that fits its array, and \<open>dump\<close> prints a file.
\<close>

section \<open>The line editor\<close>

text \<open>The polls of the keyboard return the numbers \<open>ks\<close> in this order.\<close>

fun feed :: "shell_env \<Rightarrow> int list \<Rightarrow> input \<Rightarrow> nat \<Rightarrow> bool" where
  "feed e [] inp k \<longleftrightarrow> True"
| "feed e (c # cs) inp k \<longleftrightarrow> (case try_getchar (se_ports e) (se_usb e k) inp of (c', inp') \<Rightarrow> c' = c \<and> feed e cs inp' (k + 1))"

text \<open>The buffer after a key that does not end the line.  Nothing, or a negative number, changes
  nothing.\<close>

definition type_key :: "int \<Rightarrow> string \<Rightarrow> string" where
  "type_key c buf =
     (if c \<le> 0 then buf else if c = 8 \<or> c = 127 then butlast buf
      else if length buf < 127 then buf @ [char_of (nat c)] else buf)"

lemma screen_sel [simp]:
  "sh_in (show_cursor s) = sh_in s" "sh_polls (show_cursor s) = sh_polls s" "sh_in (hide_cursor s) = sh_in s"
  "sh_polls (hide_cursor s) = sh_polls s" "sh_in (out_putchar e c s) = sh_in s" "sh_polls (out_putchar e c s) = sh_polls s"
  "sh_in (out_puts e t s) = sh_in s" "sh_polls (out_puts e t s) = sh_polls s"
  "sh_fs (show_cursor s) = sh_fs s" "sh_fs (hide_cursor s) = sh_fs s" "sh_fs (out_putchar e c s) = sh_fs s" "sh_fs (out_puts e t s) = sh_fs s"
  "g_cwd (show_cursor s) = g_cwd s" "g_cwd (hide_cursor s) = g_cwd s" "g_cwd (out_putchar e c s) = g_cwd s" "g_cwd (out_puts e t s) = g_cwd s"
  by (simp_all add: show_cursor_def hide_cursor_def out_putchar_def out_puts_def Let_def)

lemma edit_key_result:
  assumes "0 < c"
  shows "fst (edit_key e c buf s) = (if c = 13 \<or> c = 10 then Inl buf else Inr (type_key c buf))"
    "sh_in (snd (edit_key e c buf s)) = sh_in s" "sh_polls (snd (edit_key e c buf s)) = sh_polls s"
    "sh_fs (snd (edit_key e c buf s)) = sh_fs s" "g_cwd (snd (edit_key e c buf s)) = g_cwd s"
  using assms by (simp_all add: edit_key_def type_key_def BUF_SIZE_def Let_def)

lemma blink_sel:
  "sh_in (snd (snd (blink n b s))) = sh_in s" "sh_polls (snd (snd (blink n b s))) = sh_polls s"
  "g_cwd (snd (snd (blink n b s))) = g_cwd s" "sh_fs (snd (snd (blink n b s))) = sh_fs s"
  by (simp_all add: blink_def)

lemma edit_line_types:
  assumes "feed e (ks @ [c]) (sh_in s) (sh_polls s)" "c = 10 \<or> c = 13" "\<forall>k \<in> set ks. k \<noteq> 10 \<and> k \<noteq> 13"
  shows "\<exists>s'. edit_line e buf n b s = Some (fold type_key ks buf, s') \<and> sh_fs s' = sh_fs s \<and> g_cwd s' = g_cwd s"
  using assms(1,3)
proof (induction ks arbitrary: buf n b s)
  case Nil
  then obtain inp where g: "try_getchar (se_ports e) (se_usb e (sh_polls s)) (sh_in s) = (c, inp)" by (auto split: prod.splits)
  have "0 < c" using assms(2) by auto
  let ?s = "s\<lparr>sh_in := inp, sh_polls := sh_polls s + 1\<rparr>"
  obtain s2 where "edit_key e c buf ?s = (Inl buf, s2)" "sh_fs s2 = sh_fs s" "g_cwd s2 = g_cwd s"
    using edit_key_result [OF \<open>0 < c\<close>, of e buf ?s] assms(2) by (cases "edit_key e c buf ?s") auto
  then show ?case using g \<open>0 < c\<close> by (subst edit_line.simps) (simp add: Let_def)
next
  case (Cons k ks)
  obtain inp where g: "try_getchar (se_ports e) (se_usb e (sh_polls s)) (sh_in s) = (k, inp)"
      "feed e (ks @ [c]) inp (sh_polls s + 1)"
    using Cons.prems(1) by (auto split: prod.splits)
  let ?s = "s\<lparr>sh_in := inp, sh_polls := sh_polls s + 1\<rparr>"
  have k: "k \<noteq> 10" "k \<noteq> 13" using Cons.prems(2) by auto
  show ?case
  proof (cases "k \<le> 0")
    case True
    obtain n' b' s2 where bl: "blink n b ?s = (n', b', s2)" by (metis prod_cases3)
    then have s2: "sh_in s2 = inp" "sh_polls s2 = sh_polls s + 1" "g_cwd s2 = g_cwd s" "sh_fs s2 = sh_fs s"
      using blink_sel [of n b ?s] by simp_all
    have "\<exists>s'. edit_line e buf n' b' s2 = Some (fold type_key ks buf, s') \<and> sh_fs s' = sh_fs s2 \<and> g_cwd s' = g_cwd s2"
      using g(2) Cons.prems(2) s2 by (intro Cons.IH) simp_all
    then show ?thesis using g(1) bl s2(3,4) True by (subst edit_line.simps) (simp add: Let_def type_key_def)
  next
    case False
    obtain s2 where ek: "edit_key e k buf ?s = (Inr (type_key k buf), s2)" "sh_in s2 = inp" "sh_polls s2 = sh_polls s + 1"
        "sh_fs s2 = sh_fs s" "g_cwd s2 = g_cwd s"
      using edit_key_result [of k e buf ?s] k False by (cases "edit_key e k buf ?s") auto
    then have "\<exists>s'. edit_line e (type_key k buf) n b s2 = Some (fold type_key ks (type_key k buf), s') \<and>
        sh_fs s' = sh_fs s2 \<and> g_cwd s' = g_cwd s2"
      using g(2) Cons.prems(2) by (intro Cons.IH) simp_all
    then show ?thesis using g(1) ek(1,4,5) False by (subst edit_line.simps) (simp add: Let_def)
  qed
qed

section \<open>The working directory\<close>

lemma edit_line_cwd: "edit_line e buf n b s = Some r \<Longrightarrow> g_cwd (snd r) = g_cwd s"
proof (erule edit_line.raw_induct [rotated, where P = "\<lambda>e buf n b s r. g_cwd (snd r) = g_cwd s"], goal_cases)
  case (1 edit_line e buf n b s r)
  obtain c inp where g: "try_getchar (se_ports e) (se_usb e (sh_polls s)) (sh_in s) = (c, inp)" by fastforce
  let ?s = "s\<lparr>sh_in := inp, sh_polls := sh_polls s + 1\<rparr>"
  show ?case
  proof (cases "c \<le> 0")
    case True
    obtain n' b' s2 where bl: "blink n b ?s = (n', b', s2)" by (metis prod_cases3)
    then have "edit_line e buf n' b' s2 = Some r" using 1(2) g True by (simp add: Let_def)
    from 1(1) [OF this] show ?thesis using blink_sel(3) [of n b ?s] bl by simp
  next
    case False
    obtain x s2 where ek: "edit_key e c buf ?s = (x, s2)" by fastforce
    then have cwd: "g_cwd s2 = g_cwd s" using edit_key_result(5) [of c e buf ?s] False by simp
    show ?thesis
    proof (cases x)
      case (Inl l)
      then show ?thesis using 1(2) g False ek cwd by (auto simp: Let_def)
    next
      case (Inr buf')
      then have "edit_line e buf' n b s2 = Some r" using 1(2) g False ek by (simp add: Let_def)
      from 1(1) [OF this] show ?thesis using cwd by simp
    qed
  qed
qed

lemma puts_all_sel [simp]: "g_cwd (puts_all e ts s) = g_cwd s" "sh_fs (puts_all e ts s) = sh_fs s"
  by (induction ts arbitrary: s) (simp_all add: puts_all_def)

lemma putchars_sel [simp]:
  "g_cwd (fold (\<lambda>b. out_putchar e (f b)) bs s) = g_cwd s" "sh_fs (fold (\<lambda>b. out_putchar e (f b)) bs s) = sh_fs s"
  by (induction bs arbitrary: s) simp_all

lemma list_entries_cwd: "list_entries e fd s = Some s' \<Longrightarrow> g_cwd s' = g_cwd s"
proof (erule list_entries.raw_induct [rotated, where P = "\<lambda>e fd s s'. g_cwd s' = g_cwd s"], goal_cases)
  case (1 list_entries e fd s s')
  obtain r ent fs where g: "vfs_readdir fd (sh_fs s) = (r, ent, fs)" by (metis prod_cases3)
  show ?case
  proof (cases "r \<noteq> 0")
    case True
    then show ?thesis using 1(2) g by auto
  next
    case False
    then obtain d where d: "ent = Some d" using 1(2) g by (cases ent) auto
    with 1(2) g False have "list_entries e fd (puts_all e ([de_name d] @ (if de_type d AND 2 \<noteq> 0 then [''/''] else []) @ [nl]) (s\<lparr>sh_fs := fs\<rparr>)) = Some s'"
      by simp
    from 1(1) [OF this] show ?thesis by simp
  qed
qed

lemma dump_blocks_cwd: "dump_blocks e fd s = Some s' \<Longrightarrow> g_cwd s' = g_cwd s"
proof (erule dump_blocks.raw_induct [rotated, where P = "\<lambda>e fd s s'. g_cwd s' = g_cwd s"], goal_cases)
  case (1 dump_blocks e fd s s')
  obtain n bytes fs where g: "vfs_read fd 512 (sh_fs s) = Some (n, bytes, fs)"
    using 1(2) by (auto split: option.splits)
  show ?case
  proof (cases "n \<le> 0")
    case True
    then show ?thesis using 1(2) g by auto
  next
    case False
    with 1(2) g have "dump_blocks e fd (fold (\<lambda>b. out_putchar e (char_of (unat b))) (take (nat n) bytes) (s\<lparr>sh_fs := fs\<rparr>)) = Some s'"
      by simp
    from 1(1) [OF this] show ?thesis by simp
  qed
qed

text \<open>The commands change the working directory to a path that \<open>resolve_path\<close> has built, or not at all.\<close>

lemma commands_cwd:
  "cmd_write e args s = Some s' \<Longrightarrow> g_cwd s' = g_cwd s" "cmd_mkdir e p s = Some s' \<Longrightarrow> g_cwd s' = g_cwd s"
  "cmd_cdl e p s = Some s' \<Longrightarrow> g_cwd s' = g_cwd s" "cmd_dump e p s = Some s' \<Longrightarrow> g_cwd s' = g_cwd s"
  "cmd_cd e p s = Some s' \<Longrightarrow> g_cwd s' = g_cwd s \<or> resolve_path (g_cwd s) p = Some (g_cwd s')"
  by (auto simp: cmd_write_def cmd_mkdir_def cmd_cdl_def cmd_dump_def cmd_cd_def Let_def split: prod.splits if_splits bind_splits
      dest!: list_entries_cwd dump_blocks_cwd)

lemma run_line_cwd:
  assumes "run_line e buf s = Some (oc, s')" "path_ok (g_cwd s)"
  shows "path_ok (g_cwd s')"
proof -
  have c: "g_cwd s' = g_cwd s \<or> (\<exists>p. resolve_path (g_cwd s) p = Some (g_cwd s'))"
    using assms(1) unfolding run_line_def Let_def
    by (auto split: if_splits option.splits dest!: commands_cwd)
  then show ?thesis using resolve_path_ok assms(2) by auto
qed

section \<open>Printing a file\<close>

lemma screen_fs_update:
  "show_cursor (s\<lparr>sh_fs := w\<rparr>) = (show_cursor s)\<lparr>sh_fs := w\<rparr>" "hide_cursor (s\<lparr>sh_fs := w\<rparr>) = (hide_cursor s)\<lparr>sh_fs := w\<rparr>"
  "out_putchar e c (s\<lparr>sh_fs := w\<rparr>) = (out_putchar e c s)\<lparr>sh_fs := w\<rparr>"
  by (simp_all add: show_cursor_def hide_cursor_def out_putchar_def Let_def)

definition print_bytes :: "shell_env \<Rightarrow> u8 list \<Rightarrow> shell \<Rightarrow> shell" where
  "print_bytes e bs s = fold (\<lambda>b. out_putchar e (char_of (unat b))) bs s"

lemma print_bytes_fs: "print_bytes e bs (s\<lparr>sh_fs := w\<rparr>) = (print_bytes e bs s)\<lparr>sh_fs := w\<rparr>"
  by (induction bs arbitrary: s) (simp_all add: print_bytes_def screen_fs_update)

lemma print_bytes_append: "print_bytes e bs (print_bytes e as s) = print_bytes e (as @ bs) s"
  by (simp add: print_bytes_def)

text \<open>A descriptor on a regular file of ramfs.\<close>

definition reads_file :: "int \<Rightarrow> node_id \<Rightarrow> nat \<Rightarrow> fs_world \<Rightarrow> bool" where
  "reads_file fd n off w \<longleftrightarrow> ramfs_ok w \<and> \<not> bad_fd fd w \<and> fd_node (g_fds w (nat fd)) = Some n \<and>
     fd_offset (g_fds w (nat fd)) = of_nat off \<and> op_read (nodes w n) = Some RamfsFs \<and> \<not> is_dir (nodes w n) \<and>
     off \<le> length (contents w n)"

lemma read_block:
  assumes "reads_file fd n off w"
  defines "bytes \<equiv> take 512 (drop off (contents w n))"
  shows "\<exists>w'. vfs_read fd 512 w = Some (int (length bytes), bytes, w') \<and> reads_file fd n (off + length bytes) w' \<and>
    nodes w' = nodes w \<and> contents w' = contents w \<and> (\<forall>i. fd_refcount (g_fds w' i) = fd_refcount (g_fds w i)) \<and>
    (\<forall>i. fd_node (g_fds w' i) = fd_node (g_fds w i))"
proof -
  let ?f = "g_fds w (nat fd)"
  note f = assms(1) [unfolded reads_file_def]
  have off: "unat (of_nat off :: u64) = off" using f contents_bound [of w n] by (intro unat_of_nat_small) simp
  have "(ucast (512 :: u64) :: u32) = 512" by simp
  then have rd: "call_read RamfsFs n (of_nat off) (ucast (512 :: u64)) w = Some (int (length bytes), bytes)"
    using f ramfs_read_section [of w n "of_nat off" 512] by (simp add: call_read_def Let_def off bytes_def)
  define w' where "w' = (if int (length bytes) > 0 then set_fd (nat fd) (?f\<lparr>fd_offset := of_nat off + of_int (int (length bytes))\<rparr>) w else w)"
  have read: "vfs_read fd 512 w = Some (int (length bytes), bytes, w')"
    using f rd by (simp add: vfs_read_def Let_def w'_def)
  have L: "length bytes \<le> length (contents w n) - off" by (simp add: bytes_def)
  have ok: "ramfs_ok w'" using f by (simp add: w'_def)
  have sel: "contents w' = contents w" "nodes w' = nodes w" by (auto simp: w'_def fun_eq_iff) (simp add: set_fd_def)
  have fds: "fd_offset (g_fds w' (nat fd)) = of_nat (off + length bytes)" "fd_refcount (g_fds w' i) = fd_refcount (g_fds w i)"
      "fd_node (g_fds w' i) = fd_node (g_fds w i)" for i
    using f by (auto simp: w'_def set_fd_def)
  have "reads_file fd n (off + length bytes) w'"
    using f L unfolding reads_file_def sel fds bad_fd_def by (auto simp: ok)
  then show ?thesis using read sel fds(2,3) by blast
qed

lemma dump_blocks_step:
  "vfs_read fd 512 (sh_fs s) = Some (int (length bytes), bytes, w) \<Longrightarrow> bytes \<noteq> [] \<Longrightarrow>
    dump_blocks e fd s = dump_blocks e fd (print_bytes e bytes (s\<lparr>sh_fs := w\<rparr>))"
  by (subst dump_blocks.simps) (simp add: print_bytes_def)

lemma dump_blocks_prints:
  assumes "reads_file fd n off (sh_fs s)"
  shows "\<exists>w. dump_blocks e fd s = Some ((print_bytes e (drop off (contents (sh_fs s) n)) s)\<lparr>sh_fs := w\<rparr>) \<and>
    \<not> bad_fd fd w \<and> nodes w = nodes (sh_fs s) \<and> contents w = contents (sh_fs s) \<and>
    (\<forall>i. fd_refcount (g_fds w i) = fd_refcount (g_fds (sh_fs s) i)) \<and> (\<forall>i. fd_node (g_fds w i) = fd_node (g_fds (sh_fs s) i))"
  using assms
proof (induction "length (contents (sh_fs s) n) - off" arbitrary: off s rule: less_induct)
  case less
  let ?c = "contents (sh_fs s) n" and ?bytes = "take 512 (drop off (contents (sh_fs s) n))"
  obtain w' where w': "vfs_read fd 512 (sh_fs s) = Some (int (length ?bytes), ?bytes, w')" "reads_file fd n (off + length ?bytes) w'"
      "nodes w' = nodes (sh_fs s)" "contents w' = contents (sh_fs s)" "\<forall>i. fd_refcount (g_fds w' i) = fd_refcount (g_fds (sh_fs s) i)"
      "\<forall>i. fd_node (g_fds w' i) = fd_node (g_fds (sh_fs s) i)"
    using read_block [OF less.prems] by blast
  show ?case
  proof (cases "?bytes = []")
    case True
    then have "dump_blocks e fd s = Some (s\<lparr>sh_fs := w'\<rparr>)" using w'(1) by (subst dump_blocks.simps) simp
    moreover have "\<not> bad_fd fd w'" using w'(2) by (simp add: reads_file_def)
    ultimately show ?thesis using True w' by (intro exI [of _ w']) (simp add: print_bytes_def)
  next
    case False
    let ?s = "print_bytes e ?bytes (s\<lparr>sh_fs := w'\<rparr>)"
    have fs: "sh_fs ?s = w'" by (simp add: print_bytes_fs)
    have step: "dump_blocks e fd s = dump_blocks e fd ?s" by (rule dump_blocks_step [OF w'(1) False])
    have "length (contents (sh_fs ?s) n) - (off + length ?bytes) < length ?c - off"
      using False less.prems by (simp add: fs w'(4)) 
    from less.hyps [OF this] w'(2) obtain w where w:
      "dump_blocks e fd ?s = Some ((print_bytes e (drop (off + length ?bytes) (contents w' n)) ?s)\<lparr>sh_fs := w\<rparr>)"
      "\<not> bad_fd fd w" "nodes w = nodes w'" "contents w = contents w'" "\<forall>i. fd_refcount (g_fds w i) = fd_refcount (g_fds w' i)"
      "\<forall>i. fd_node (g_fds w i) = fd_node (g_fds w' i)"
      unfolding fs by blast
    have "drop (off + length ?bytes) ?c = drop 512 (drop off ?c)"
      by (cases "512 \<le> length ?c - off") (simp_all add: add.commute)
    then have "?bytes @ drop (off + length ?bytes) ?c = drop off ?c" by (simp only: append_take_drop_id)
    then have "print_bytes e (drop (off + length ?bytes) ?c) (print_bytes e ?bytes s) = print_bytes e (drop off ?c) s"
      by (simp only: print_bytes_append)
    then have "dump_blocks e fd s = Some ((print_bytes e (drop off ?c) s)\<lparr>sh_fs := w\<rparr>)"
      using w(1) by (simp only: step w'(4) print_bytes_fs) simp
    with w(2-6) w'(3-6) show ?thesis by (intro exI [of _ w]) simp
  qed
qed

section \<open>A small shell to try\<close>

text \<open>No device is pending; the keyboard ring holds what was typed.\<close>

definition quiet_env :: shell_env where
  "quiet_env = \<lparr>se_font = (\<lambda>_. 0), se_ports = (\<lambda>_ _. 0), se_usb = (\<lambda>_ i. i), se_hw = (\<lambda>_ _ _. 0)\<rparr>"

lemma quiet_take:
  assumes "ring_inv inp" "ring inp = c # cs" "\<not> g_i8042_present inp" "unat c < 128"
  shows "\<exists>t. try_getchar (se_ports quiet_env) (se_usb quiet_env k) inp = (int (unat c), t) \<and> ring_inv t \<and> ring t = cs \<and> \<not> g_i8042_present t"
proof -
  have ne: "in_head inp \<noteq> in_tail inp" using ring_empty_iff [OF assms(1)] assms(2) by simp
  have "sint c = int (unat c)" by (rule sint_byte [OF assms(4)])
  then show ?thesis using assms(3) ne ring_get [OF assms(1,2)]
    by (simp add: try_getchar_def ps2_poll_def quiet_env_def Let_def split_beta) (simp add: take_char_def)
qed

lemma feed_ring:
  assumes "ring_inv inp" "ring inp = cs @ rest" "\<not> g_i8042_present inp" "\<forall>c \<in> set cs. unat c < 128"
  shows "feed quiet_env (map (\<lambda>c. int (unat c)) cs) inp k"
  using assms
proof (induction cs arbitrary: inp k)
  case (Cons c cs inp k)
  have "unat c < 128" using Cons.prems(4) by simp
  then obtain t where t: "try_getchar (se_ports quiet_env) (se_usb quiet_env k) inp = (int (unat c), t)" "ring_inv t"
      "ring t = cs @ rest" "\<not> g_i8042_present t"
    using quiet_take [OF Cons.prems(1) _ Cons.prems(3)] Cons.prems(2) by (metis append_Cons)
  then show ?case using Cons.IH [of t] Cons.prems(4) by simp
qed simp

definition demo_shell :: "u8 list \<Rightarrow> shell" where
  "demo_shell cs = \<lparr>sh_fs = demo_exec_fs, sh_con = demo_console, sh_in = boot_input\<lparr>in_head := of_nat (length cs), in_buf := (\<lambda>i. cs ! i)\<rparr>,
     sh_timer = demo_timer, sh_acpi = demo_acpi (\<lambda>_. 0), g_cwd = ''/'', sh_polls = 0\<rparr>"

lemma demo_shell_ring:
  assumes "length cs < 256"
  shows "ring_inv (sh_in (demo_shell cs))" "ring (sh_in (demo_shell cs)) = cs" "\<not> g_i8042_present (sh_in (demo_shell cs))"
proof -
  have u: "unat (of_nat (length cs) :: u32) = length cs" using assms by (intro unat_of_nat_small) simp
  have "map (\<lambda>k. cs ! (k mod 256)) [0..<length cs] = cs" using assms by (intro nth_equalityI) simp_all
  then show "ring_inv (sh_in (demo_shell cs))" "ring (sh_in (demo_shell cs)) = cs" "\<not> g_i8042_present (sh_in (demo_shell cs))"
    using assms by (simp_all add: demo_shell_def ring_inv_def ring_def boot_input_def u [simplified])
qed

section \<open>Properties\<close>

text \<open>C32. The line editor returns what was typed: when the polls of the keyboard yield the keys
  \<open>ks\<close> and then Enter, with idle polls in between, \<open>read_line\<close> returns the characters of \<open>ks\<close>
  with every backspace applied, at most 127 of them; it touches neither the files nor the working
  directory.\<close>

theorem shell_reads_typed_line:
  assumes "feed e (ks @ [c]) (sh_in s) (sh_polls s)" "c = 10 \<or> c = 13" "\<forall>k \<in> set ks. k \<noteq> 10 \<and> k \<noteq> 13"
  shows "\<exists>s'. read_line e s = Some (fold type_key ks [], s') \<and> length (fold type_key ks []) \<le> 127 \<and>
    sh_fs s' = sh_fs s \<and> g_cwd s' = g_cwd s"
proof -
  have "length b \<le> 127 \<Longrightarrow> length (fold type_key ks b) \<le> 127" for b
    by (induction ks arbitrary: b) (auto simp: type_key_def)
  from this [of "[]"] have "length (fold type_key ks []) \<le> 127" by simp
  moreover have "\<exists>s'. read_line e s = Some (fold type_key ks [], s') \<and> sh_fs s' = sh_fs s \<and> g_cwd s' = g_cwd s"
    using edit_line_types [OF _ assms(2,3), of e "show_cursor (out_puts e ''init> '' (hide_cursor s))" "[]" 0 False] assms(1)
    by (simp add: read_line_def)
  ultimately show ?thesis by blast
qed

theorem shell_reads_typed_line_witness:
  "\<exists>s'. read_line quiet_env (demo_shell [104, 105, 8, 111, 10, 120]) = Some (''ho'', s')"
proof -
  let ?s = "demo_shell [104, 105, 8, 111, 10, 120]"
  have "feed quiet_env (map (\<lambda>c. int (unat c)) [104, 105, 8, 111, 10 :: u8]) (sh_in ?s) (sh_polls ?s)"
    by (rule feed_ring [where rest = "[120]"]) (simp_all add: demo_shell_ring)
  then have "feed quiet_env ([104, 105, 8, 111] @ [10]) (sh_in ?s) (sh_polls ?s)" by simp
  from shell_reads_typed_line [OF this] have "\<exists>s'. read_line quiet_env ?s = Some (fold type_key [104, 105, 8, 111] [], s')" by auto
  moreover have "fold type_key [104, 105, 8, 111] [] = ''ho''" by (simp add: type_key_def char_of_def bit_Suc_0_iff)
  ultimately show ?thesis by simp
qed

text \<open>C24. \<open>cd\<close> from any working directory that fits its array of 128 bytes, to any path, however long: the path is followed component
  by component, a name that does not fit is cut at 127 characters and never written behind the array, and the command overruns
  the array (\<open>None\<close>) exactly where a slash has to go behind a full one.  Otherwise the new path fits again; if it exists
  the command reports it and makes it the working directory, else it reports that, and the working directory stays.  No descriptor
  stays open and no file changes.\<close>

theorem shell_cd_follows_path:
  assumes "\<forall>c \<in> set cs. name_ok c" "length (join cs) \<le> 127" "g_cwd s = join cs"
    and "\<forall>cs'. follow_path cs target = Some cs' \<longrightarrow> vfs_resolve_path (join cs') (sh_fs s) = Some found"
    and "\<forall>n. found = Some n \<longrightarrow> op_open (nodes (sh_fs s) n) = None \<and> op_close (nodes (sh_fs s) n) = None"
    and "3 \<le> j" "j < MAX_FDS" "fd_refcount (g_fds (sh_fs s) j) = 0"
  shows "case follow_path cs target of
      None \<Rightarrow> cmd_cd e target s = None
    | Some cs' \<Rightarrow> length (join cs') \<le> 127 \<and> (\<forall>c \<in> set cs'. name_ok c) \<and>
        (\<exists>w. cmd_cd e target s = Some (case found of
             None \<Rightarrow> puts_all e [''Path not found: '', join cs', nl] s
           | Some n \<Rightarrow> out_putchar e (CHR 0x0A) (puts_all e [''Changed directory to: '', join cs'] (s\<lparr>sh_fs := w, g_cwd := join cs'\<rparr>))) \<and>
         nodes w = nodes (sh_fs s) \<and> contents w = contents (sh_fs s) \<and>
         (\<forall>i. fd_refcount (g_fds w i) = fd_refcount (g_fds (sh_fs s) i)))"
proof (cases "follow_path cs target")
  case None
  then show ?thesis using resolve_path_exact(1) [OF assms(1,2), of target] assms(3) by (simp add: cmd_cd_def)
next
  case (Some cs')
  let ?fs = "sh_fs s"
  have p: "resolve_path (g_cwd s) target = Some (join cs')" using resolve_path_exact(1) [OF assms(1,2), of target] assms(3) Some by simp
  have fits: "length (join cs') \<le> 127 \<and> (\<forall>c \<in> set cs'. name_ok c)" by (rule resolve_path_exact(2) [OF assms(1,2) Some])
  have found: "vfs_resolve_path (join cs') ?fs = Some found" using assms(4) Some by blast
  show ?thesis
  proof (cases found)
    case None
    then have "cmd_cd e target s = Some (puts_all e [''Path not found: '', join cs', nl] s)"
      using p found by (simp add: cmd_cd_def vfs_open_def)
    then show ?thesis using fits Some None by auto
  next
    case n: (Some n)
    obtain fd where slot: "free_fd (MAX_FDS - 3) 3 ?fs = Some fd" "fd < MAX_FDS" "fd_refcount (g_fds ?fs fd) = 0"
      using assms(6-8) by (cases ?fs rule: free_fd_cases) auto
    define w1 where "w1 = set_fd fd \<lparr>fd_node = Some n, fd_offset = 0, fd_flags = 0, fd_refcount = 1\<rparr> ?fs"
    define w2 where "w2 = set_fd fd \<lparr>fd_node = None, fd_offset = 0, fd_flags = 0, fd_refcount = 0\<rparr> w1"
    have "vfs_open (join cs') 0 ?fs = Some (int fd, w1)"
      using found n assms(5) slot(1) by (simp add: vfs_open_def open_node_def w1_def)
    moreover have "vfs_close (int fd) w1 = Some (0, w2)"
      using n assms(5) slot(2) by (simp add: vfs_close_def bad_fd_def w1_def w2_def set_fd_def Let_def)
    ultimately have "cmd_cd e target s =
        Some (out_putchar e (CHR 0x0A) (puts_all e [''Changed directory to: '', join cs'] (s\<lparr>sh_fs := w2, g_cwd := join cs'\<rparr>)))"
      using p by (simp add: cmd_cd_def)
    moreover have "nodes w2 = nodes ?fs" "contents w2 = contents ?fs" by (auto simp: w1_def w2_def fun_eq_iff) (simp add: set_fd_def)
    moreover have "fd_refcount (g_fds w2 i) = fd_refcount (g_fds ?fs i)" for i using slot(3) by (simp add: w1_def w2_def set_fd_def)
    ultimately show ?thesis using fits Some n by auto
  qed
qed

theorem shell_cd_follows_path_witness:
  "\<exists>s'. cmd_cd quiet_env ''./init'' (demo_shell []) = Some s' \<and> g_cwd s' = ''/init''"
proof -
  have fs: "sh_fs (demo_shell []) = demo_exec_fs" "g_cwd (demo_shell []) = join []" by (simp_all add: demo_shell_def join_def)
  have f: "follow_path [] ''./init'' = Some [''init'']" by (simp add: follow_path_def push_name_def join_def)
  have "vfs_resolve_path (join [''init'']) demo_exec_fs = Some (Some (RamfsNode 1))"
    using demo_exec_fs_path by (simp add: join_def)
  with shell_cd_follows_path [of "[]" "demo_shell []" "''./init''" "Some (RamfsNode 1)" 3 quiet_env] demo_exec_fs_node
  obtain w where "cmd_cd quiet_env ''./init'' (demo_shell []) = Some (out_putchar quiet_env (CHR 0x0A)
      (puts_all quiet_env [''Changed directory to: '', join [''init'']] ((demo_shell [])\<lparr>sh_fs := w, g_cwd := join [''init'']\<rparr>)))"
    unfolding f by (auto simp: fs MAX_FDS_def join_def)
  then show ?thesis by (simp add: join_def)
qed

text \<open>In every round that does not overrun an array, whatever the command, the working directory stays an absolute path that fits.\<close>

theorem shell_cwd_stays_path:
  assumes "(shell_step e)\<^sup>*\<^sup>* s s'" "path_ok (g_cwd s)"
  shows "path_ok (g_cwd s')"
  using assms
proof (induction rule: rtranclp_induct)
  case (step t u)
  from step.hyps(2) obtain buf t1 where l: "read_line e t = Some (buf, t1)" "run_line e buf t1 = Some (NextLine, u)"
    by (rule shell_stepE) blast
  from l(1) have "g_cwd t1 = g_cwd t" unfolding read_line_def by (auto dest!: edit_line_cwd)
  then show ?case using run_line_cwd [OF l(2)] step.IH step.prems by simp
qed simp

text \<open>After \<open>cd init\<close>, which accepts a regular file.\<close>

theorem shell_cwd_stays_path_witness:
  "\<exists>s'. shell_step quiet_env (demo_shell [99, 100, 32, 105, 110, 105, 116, 13]) s' \<and> g_cwd s' = ''/init'' \<and> path_ok (g_cwd s')"
proof -
  let ?s = "demo_shell [99, 100, 32, 105, 110, 105, 116, 13]"
  have "feed quiet_env (map (\<lambda>c. int (unat c)) [99, 100, 32, 105, 110, 105, 116, 13 :: u8]) (sh_in ?s) (sh_polls ?s)"
    by (rule feed_ring [where rest = "[]"]) (simp_all add: demo_shell_ring)
  then have f: "feed quiet_env ([99, 100, 32, 105, 110, 105, 116] @ [13]) (sh_in ?s) (sh_polls ?s)" by simp
  have "\<exists>s'. read_line quiet_env ?s = Some (fold type_key [99, 100, 32, 105, 110, 105, 116] [], s') \<and>
      sh_fs s' = sh_fs ?s \<and> g_cwd s' = g_cwd ?s"
    unfolding read_line_def
    using edit_line_types [of quiet_env "[99, 100, 32, 105, 110, 105, 116]" 13 "show_cursor (out_puts quiet_env ''init> '' (hide_cursor ?s))" "[]" 0 False] f
    by simp
  moreover have "fold type_key [99, 100, 32, 105, 110, 105, 116] [] = ''cd init''" by (simp add: type_key_def char_of_def bit_Suc_0_iff)
  ultimately obtain s1 where s1: "read_line quiet_env ?s = Some (''cd init'', s1)" "sh_fs s1 = demo_exec_fs" "g_cwd s1 = ''/''"
    by (auto simp: demo_shell_def)
  have run: "run_line quiet_env ''cd init'' s1 = map_option (\<lambda>s. (NextLine, s)) (cmd_cd quiet_env ''init'' s1)"
    by (simp add: run_line_def Let_def starts_def cd_target_def)
  have p: "resolve_path ''/'' ''init'' = Some ''/init''"
    by (simp add: resolve_path_def base_path_def Let_def path_loop.simps append_component_def clean_path_def)
  obtain fd w where o: "vfs_open ''/init'' 0 demo_exec_fs = Some (int fd, w)" "\<exists>w'. vfs_close (int fd) w = Some (0, w')"
  proof (cases demo_exec_fs rule: free_fd_cases)
    case full
    from full(2) have "fd_refcount (g_fds demo_exec_fs 3) \<noteq> 0" by (simp add: MAX_FDS_def)
    then show ?thesis using demo_exec_fs_node(5) by simp
  next
    case (slot fd)
    define w where "w = set_fd fd \<lparr>fd_node = Some (RamfsNode 1), fd_offset = 0, fd_flags = 0, fd_refcount = 1\<rparr> demo_exec_fs"
    have "vfs_open ''/init'' 0 demo_exec_fs = Some (int fd, w)"
      using slot demo_exec_fs_path demo_exec_fs_node(2) by (simp add: vfs_open_def open_node_def w_def)
    moreover have "\<exists>w'. vfs_close (int fd) w = Some (0, w')"
      using slot(3) demo_exec_fs_node(3) by (simp add: vfs_close_def bad_fd_def w_def set_fd_def Let_def)
    ultimately show ?thesis by (rule that)
  qed
  then obtain s2 where "cmd_cd quiet_env ''init'' s1 = Some s2" "g_cwd s2 = ''/init''"
    using s1(2,3) p by (auto simp: cmd_cd_def)
  then have step: "shell_step quiet_env ?s s2" using s1(1) run by (intro shell_step.line) auto
  have "path_ok (g_cwd ?s)" by (simp add: demo_shell_def path_ok_def)
  from shell_cwd_stays_path [OF r_into_rtranclp [of "shell_step quiet_env", OF step] this] step \<open>g_cwd s2 = ''/init''\<close>
  show ?thesis by auto
qed

text \<open>C25. \<open>dump\<close> prints a file: when the path, resolved against the working directory, leads to a
  regular file of the RAM file system and a descriptor is free, the command prints exactly the bytes of
  the file and a line feed, in blocks of 512, leaves every file as it is and no descriptor open.\<close>

theorem shell_dump_prints_file:
  assumes "resolve_path (g_cwd s) path = Some p" "vfs_resolve_path p (sh_fs s) = Some (Some n)" "ramfs_ok (sh_fs s)"
    and "\<not> is_dir (nodes (sh_fs s) n)" "op_read (nodes (sh_fs s) n) = Some RamfsFs"
    and "op_open (nodes (sh_fs s) n) = None" "op_close (nodes (sh_fs s) n) = None"
    and "3 \<le> j" "j < MAX_FDS" "fd_refcount (g_fds (sh_fs s) j) = 0"
  shows "\<exists>w. cmd_dump e path s =
      Some ((out_putchar e (CHR 0x0A) (print_bytes e (contents (sh_fs s) n) s))\<lparr>sh_fs := w\<rparr>) \<and>
    contents w = contents (sh_fs s) \<and> nodes w = nodes (sh_fs s) \<and>
    (\<forall>i. fd_refcount (g_fds w i) = fd_refcount (g_fds (sh_fs s) i))"
proof -
  let ?fs = "sh_fs s"
  obtain fd where slot: "free_fd (MAX_FDS - 3) 3 ?fs = Some fd" "fd < MAX_FDS" "fd_refcount (g_fds ?fs fd) = 0"
    using assms(8-10) by (cases ?fs rule: free_fd_cases) auto
  define w1 where "w1 = set_fd fd \<lparr>fd_node = Some n, fd_offset = 0, fd_flags = 0, fd_refcount = 1\<rparr> ?fs"
  have opened: "vfs_open p 0 ?fs = Some (int fd, w1)"
    using assms(2,6) slot(1) by (simp add: vfs_open_def open_node_def w1_def)
  have w1: "g_fds w1 fd = \<lparr>fd_node = Some n, fd_offset = 0, fd_flags = 0, fd_refcount = 1\<rparr>" "nodes w1 = nodes ?fs"
      "contents w1 = contents ?fs" "ramfs_ok w1"
    using assms(3) by (auto simp: w1_def fun_eq_iff) (simp_all add: set_fd_def)
  have refs1: "fd_refcount (g_fds w1 i) = (if i = fd then 1 else fd_refcount (g_fds ?fs i))" for i by (simp add: w1_def set_fd_def)
  have "reads_file (int fd) n 0 (sh_fs (s\<lparr>sh_fs := w1\<rparr>))"
    using assms(4,5) slot(2) w1 by (simp add: reads_file_def bad_fd_def)
  from dump_blocks_prints [OF this, of e] obtain w2 where
    w2: "dump_blocks e (int fd) (s\<lparr>sh_fs := w1\<rparr>) = Some ((print_bytes e (contents ?fs n) s)\<lparr>sh_fs := w2\<rparr>)"
      "\<not> bad_fd (int fd) w2" "nodes w2 = nodes ?fs" "contents w2 = contents ?fs"
      "\<forall>i. fd_refcount (g_fds w2 i) = fd_refcount (g_fds w1 i)" "\<forall>i. fd_node (g_fds w2 i) = fd_node (g_fds w1 i)"
    by (auto simp: w1 print_bytes_fs)
  define w3 where "w3 = set_fd fd ((g_fds w2 fd)\<lparr>fd_refcount := 0, fd_node := None\<rparr>) w2"
  have "vfs_close (int fd) w2 = Some (0, w3)"
    using w2(2,3,5,6) assms(7) by (simp add: vfs_close_def w1 w3_def Let_def)
  then have "cmd_dump e path s =
      Some ((out_putchar e (CHR 0x0A) (print_bytes e (contents (sh_fs s) n) s))\<lparr>sh_fs := w3\<rparr>)"
    using assms(1) by (simp add: cmd_dump_def opened w2(1) Let_def screen_fs_update)
  moreover have "contents w3 = contents ?fs" "nodes w3 = nodes ?fs" using w2(3,4) by (auto simp: w3_def fun_eq_iff) (simp add: set_fd_def)
  moreover have "fd_refcount (g_fds w3 i) = fd_refcount (g_fds ?fs i)" for i
    using w2(5) slot(3) refs1 by (simp add: w3_def set_fd_def)
  ultimately show ?thesis by blast
qed

theorem shell_dump_prints_file_witness:
  "\<exists>w. cmd_dump quiet_env ''init'' (demo_shell []) =
    Some ((out_putchar quiet_env (CHR 0x0A) (print_bytes quiet_env demo_elf (demo_shell [])))\<lparr>sh_fs := w\<rparr>)"
proof -
  have fs: "sh_fs (demo_shell []) = demo_exec_fs" by (simp add: demo_shell_def)
  have p: "resolve_path (g_cwd (demo_shell [])) ''init'' = Some ''/init''"
    by (simp add: resolve_path_def base_path_def demo_shell_def Let_def path_loop.simps append_component_def clean_path_def)
  from shell_dump_prints_file [OF p, of "RamfsNode 1" 3 quiet_env] show ?thesis
    using demo_exec_fs_path demo_exec_fs_ok demo_exec_fs_node demo_exec_fs_contents by (auto simp: fs MAX_FDS_def)
qed

end
