(* ===== verification/Tables.thy ===== *)
theory Tables
  imports Timer Input Format
begin

text \<open>
  Descriptor tables and interrupts: the segments and the task state of \<open>init_gdt\<close>
  (\<open>core/main.c\<close>), the interrupt gates and the PIC of \<open>core/idt.c\<close>, the dispatch of
  \<open>core/irq.c\<close> with its entry code (\<open>x86_64/isr.asm\<close>), and the exception reports of
  \<open>core/idt_exceptions.c\<close>.  Where the linker puts tables and handlers is an argument.
  What the processor and the PIC do with the tables (Intel SDM volume 3, 8259A data sheet) is
  written out at the end of each section.
\<close>

section \<open>Segments\<close>

record gdt_entry =
  limit_low :: u16
  base_low :: u16
  base_mid :: u8
  seg_access :: u8
  granularity :: u8
  base_high :: u8

datatype handler = DefaultHandler | IsrIrq0 | IsrIrq1 | ExcStub nat

record idt_entry =
  offset_lo :: u16
  selector :: u16
  ist :: u8
  type_attr :: u8
  offset_mid :: u16
  offset_hi :: u32
  gate_zero :: u32

record layout =
  at_gdt :: u64
  at_idt :: u64
  at_tss :: u64
  at_tss_stack :: u64
  at_handler :: "handler \<Rightarrow> u64"

record tables =
  gdt :: "nat \<Rightarrow> gdt_entry"
  idt :: "nat \<Rightarrow> idt_entry"
  tss_rsp0 :: u64
  tss_iopb_offset :: u16
  gdtr :: "u16 \<times> u64"
  idtr :: "u16 \<times> u64"
  cs_sel :: u16
  data_sel :: u16
  task_reg :: u16
  cr0_reg :: u64
  cr4_reg :: u64
  pic_log :: "(u16 \<times> u8) list"    \<comment> \<open>latest first\<close>

definition set_gdt_entry :: "nat \<Rightarrow> u32 \<Rightarrow> u32 \<Rightarrow> u8 \<Rightarrow> u8 \<Rightarrow> tables \<Rightarrow> tables" where
  "set_gdt_entry i base limit access gran s = s\<lparr>gdt := (gdt s)(i :=
     \<lparr>limit_low = ucast (limit AND 0xFFFF), base_low = ucast (base AND 0xFFFF), base_mid = ucast (drop_bit 16 base AND 0xFF),
      seg_access = access, granularity = ucast (drop_bit 16 limit AND 0x0F) OR (gran AND 0xF0),
      base_high = ucast (drop_bit 24 base AND 0xFF)\<rparr>)\<rparr>"

definition sizeof_tss :: nat where "sizeof_tss = 104"

text \<open>The 16 bytes of the task descriptor lie over the entries 5 and 6: its upper base is the
  first half of entry 6 and \<open>reserved\<close> the second.\<close>

definition set_tss_descriptor :: "u64 \<Rightarrow> u32 \<Rightarrow> tables \<Rightarrow> tables" where
  "set_tss_descriptor base limit s =
     (let upper = ucast (drop_bit 32 base) :: u32 in
      s\<lparr>gdt := (gdt s)(5 :=
          \<lparr>limit_low = ucast (limit AND 0xFFFF), base_low = ucast (base AND 0xFFFF), base_mid = ucast (drop_bit 16 base AND 0xFF),
           seg_access = 0x89, granularity = ucast (drop_bit 16 limit AND 0x0F), base_high = ucast (drop_bit 24 base AND 0xFF)\<rparr>,
        6 := \<lparr>limit_low = ucast upper, base_low = ucast (drop_bit 16 upper), base_mid = 0, seg_access = 0, granularity = 0, base_high = 0\<rparr>)\<rparr>)"

text \<open>\<open>reload_segments\<close> is the assembly that loads the selectors 0x08 and 0x10.\<close>

definition reload_segments :: "tables \<Rightarrow> tables" where
  "reload_segments s = s\<lparr>cs_sel := 0x08, data_sel := 0x10\<rparr>"

definition enable_sse :: "tables \<Rightarrow> tables" where
  "enable_sse s = s\<lparr>cr0_reg := (cr0_reg s AND NOT (push_bit 2 1)) OR push_bit 1 1,
     cr4_reg := cr4_reg s OR push_bit 9 1 OR push_bit 10 1\<rparr>"

definition init_gdt :: "layout \<Rightarrow> tables \<Rightarrow> tables" where
  "init_gdt at s =
     (let s = set_gdt_entry 0 0 0 0 0 s;
          s = set_gdt_entry 1 0 0xFFFFFFFF 0x9A 0xAF s;
          s = set_gdt_entry 2 0 0xFFFFFFFF 0x92 0xCF s;
          s = set_gdt_entry 3 0 0xFFFFFFFF 0xF2 0xCF s;
          s = set_gdt_entry 4 0 0xFFFFFFFF 0xFA 0xAF s;
          s = set_tss_descriptor (at_tss at) (of_nat sizeof_tss - 1) s;
          s = s\<lparr>tss_rsp0 := at_tss_stack at + 16384, tss_iopb_offset := of_nat sizeof_tss\<rparr>;
          s = reload_segments (s\<lparr>gdtr := (8 * 7 - 1, at_gdt at)\<rparr>)
      in enable_sse (s\<lparr>task_reg := 0x28\<rparr>))"

text \<open>How the processor reads a descriptor.\<close>

definition seg_base :: "gdt_entry \<Rightarrow> u32" where
  "seg_base d = ucast (base_low d) OR push_bit 16 (ucast (base_mid d)) OR push_bit 24 (ucast (base_high d))"

definition seg_limit :: "gdt_entry \<Rightarrow> u32" where
  "seg_limit d = ucast (limit_low d) OR push_bit 16 (ucast (granularity d AND 0x0F))"

definition seg_flags :: "gdt_entry \<Rightarrow> u8" where
  "seg_flags d = drop_bit 4 (granularity d)"

definition seg_dpl :: "gdt_entry \<Rightarrow> u8" where "seg_dpl d = drop_bit 5 (seg_access d) AND 3"

text \<open>A present code segment in 64-bit mode (the bits L and not D), and a present writable data
  segment, of a privilege level.\<close>

definition code64 :: "u8 \<Rightarrow> gdt_entry \<Rightarrow> bool" where
  "code64 dpl d \<longleftrightarrow> bit (seg_access d) 7 \<and> bit (seg_access d) 4 \<and> bit (seg_access d) 3 \<and> seg_dpl d = dpl \<and>
     bit (seg_flags d) 1 \<and> \<not> bit (seg_flags d) 2"

definition data_rw :: "u8 \<Rightarrow> gdt_entry \<Rightarrow> bool" where
  "data_rw dpl d \<longleftrightarrow> bit (seg_access d) 7 \<and> bit (seg_access d) 4 \<and> \<not> bit (seg_access d) 3 \<and> bit (seg_access d) 1 \<and> seg_dpl d = dpl"

definition select :: "(nat \<Rightarrow> gdt_entry) \<Rightarrow> u16 \<Rightarrow> gdt_entry" where
  "select g sel = g (unat (drop_bit 3 sel))"

definition task_base :: "(nat \<Rightarrow> gdt_entry) \<Rightarrow> u16 \<Rightarrow> u64" where
  "task_base g sel = (let d = select g sel; u = select g (sel + 8) in
     ucast (seg_base d) OR push_bit 32 (ucast (limit_low u)) OR push_bit 48 (ucast (base_low u)))"

section \<open>Gates\<close>

definition set_idt_entry :: "layout \<Rightarrow> nat \<Rightarrow> handler \<Rightarrow> tables \<Rightarrow> tables" where
  "set_idt_entry at n h s =
     (let addr = at_handler at h in
      s\<lparr>idt := (idt s)(n := \<lparr>offset_lo = ucast (addr AND 0xFFFF), selector = 0x08, ist = 0, type_attr = 0x8E,
         offset_mid = ucast (drop_bit 16 addr AND 0xFFFF), offset_hi = ucast (drop_bit 32 addr AND 0xFFFFFFFF), gate_zero = 0\<rparr>)\<rparr>)"

definition outb_pic :: "u16 \<Rightarrow> u8 \<Rightarrow> tables \<Rightarrow> tables" where
  "outb_pic p v s = s\<lparr>pic_log := (p, v) # pic_log s\<rparr>"

definition PIC1_CMD :: u16 where "PIC1_CMD = 0x20"
definition PIC1_DATA :: u16 where "PIC1_DATA = 0x21"
definition PIC2_CMD :: u16 where "PIC2_CMD = 0xA0"
definition PIC2_DATA :: u16 where "PIC2_DATA = 0xA1"

definition pic_remap :: "tables \<Rightarrow> tables" where
  "pic_remap s =
     fold (\<lambda>(p, v). outb_pic p v)
       [(PIC1_CMD, 0x11), (PIC2_CMD, 0x11), (PIC1_DATA, 0x20), (PIC2_DATA, 0x28), (PIC1_DATA, 0x04), (PIC2_DATA, 0x02),
        (PIC1_DATA, 0x01), (PIC2_DATA, 0x01), (PIC1_DATA, 0xFF AND NOT (push_bit 0 1) AND NOT (push_bit 1 1)), (PIC2_DATA, 0xFF)] s"

definition lidt_load :: "layout \<Rightarrow> tables \<Rightarrow> tables" where
  "lidt_load at s = s\<lparr>idtr := (16 * 256 - 1, at_idt at)\<rparr>"

definition init_idt :: "layout \<Rightarrow> tables \<Rightarrow> tables" where
  "init_idt at s =
     (let s = fold (\<lambda>i. set_idt_entry at i DefaultHandler) [0..<256] s;
          s = set_idt_entry at 32 IsrIrq0 s;
          s = set_idt_entry at 33 IsrIrq1 s
      in lidt_load at (pic_remap s))"

text \<open>\<open>exc_set_gate\<close> is the same code over the second declaration of the structure.\<close>

definition exc_set_gate :: "layout \<Rightarrow> nat \<Rightarrow> handler \<Rightarrow> tables \<Rightarrow> tables" where
  "exc_set_gate at n h = set_idt_entry at n h"

definition exception_handlers_install :: "layout \<Rightarrow> tables \<Rightarrow> tables" where
  "exception_handlers_install at s = fold (\<lambda>n. exc_set_gate at n (ExcStub n)) [0..<22] s"

text \<open>How the processor reads a gate, and the initialisation of a PIC: behind the command with bit
  4 the next three bytes at its data port are the vector offset, the wiring and the mode; later bytes there
  are the mask.\<close>

definition gate_offset :: "idt_entry \<Rightarrow> u64" where
  "gate_offset g = ucast (offset_lo g) OR push_bit 16 (ucast (offset_mid g)) OR push_bit 32 (ucast (offset_hi g))"

definition interrupt_gate :: "idt_entry \<Rightarrow> bool" where
  "interrupt_gate g \<longleftrightarrow> bit (type_attr g) 7 \<and> type_attr g AND 0x0F = 0x0E \<and> ist g = 0"

record pic =
  pic_stage :: nat
  pic_offset :: u8
  pic_mask :: u8

fun pic_write :: "u16 \<Rightarrow> u16 \<Rightarrow> u16 \<times> u8 \<Rightarrow> pic \<Rightarrow> pic" where
  "pic_write cmd dat (p, v) c =
     (if p = cmd \<and> bit v 4 then c\<lparr>pic_stage := 1, pic_mask := 0\<rparr>
      else if p = dat then
        if pic_stage c = 1 then c\<lparr>pic_stage := 2, pic_offset := v AND 0xF8\<rparr>
        else if pic_stage c = 2 then c\<lparr>pic_stage := 3\<rparr>
        else if pic_stage c = 3 then c\<lparr>pic_stage := 0\<rparr>
        else c\<lparr>pic_mask := v\<rparr>
      else c)"

text \<open>The vector that a line of the PIC raises, or nothing when it is masked.\<close>

definition pic_vector :: "pic \<Rightarrow> nat \<Rightarrow> nat option" where
  "pic_vector c line = (if bit (pic_mask c) line then None else Some (unat (pic_offset c) + line))"

section \<open>Interrupt requests\<close>

text \<open>The general registers without the stack pointer.\<close>

record cpu_regs =
  g_r15 :: u64 g_r14 :: u64 g_r13 :: u64 g_r12 :: u64 g_r11 :: u64 g_r10 :: u64 g_r9 :: u64 g_r8 :: u64
  g_rbp :: u64 g_rdi :: u64 g_rsi :: u64 g_rdx :: u64 g_rcx :: u64 g_rbx :: u64 g_rax :: u64

record irq_state =
  irq_regs :: cpu_regs       \<comment> \<open>of the code that is interrupted\<close>
  irq_timer :: timer
  irq_input :: input
  eoi_log :: "(u16 \<times> u8) list"

definition irq_handler :: "ports \<Rightarrow> nat \<Rightarrow> irq_state \<Rightarrow> irq_state" where
  "irq_handler hw irq s =
     (if irq = 0 then s\<lparr>irq_timer := timer_irq_handler (irq_timer s)\<rparr>
      else if irq = 1 then s\<lparr>irq_input := ps2_handle_interrupt hw (irq_input s)\<rparr>
      else s)"

text \<open>The entry code pushes the registers, calls the handler, which may use all of them, and pops them; then it sends the end of
  the interrupt through AL, behind the restored RAX.\<close>

definition set_al :: "u8 \<Rightarrow> cpu_regs \<Rightarrow> cpu_regs" where
  "set_al v r = r\<lparr>g_rax := (g_rax r AND NOT 0xFF) OR ucast v\<rparr>"

definition isr_irq0 :: "ports \<Rightarrow> irq_state \<Rightarrow> irq_state" where
  "isr_irq0 hw s =
     (let saved = irq_regs s;
          s = (irq_handler hw 0 s)\<lparr>irq_regs := saved\<rparr>;
          s = s\<lparr>irq_regs := set_al 0x20 (irq_regs s)\<rparr>
      in s\<lparr>eoi_log := (0x20, 0x20) # eoi_log s\<rparr>)"

definition isr_irq1 :: "ports \<Rightarrow> irq_state \<Rightarrow> irq_state" where
  "isr_irq1 hw s =
     (let saved = irq_regs s;
          s = (irq_handler hw 1 s)\<lparr>irq_regs := saved\<rparr>;
          s = s\<lparr>irq_regs := set_al 0x20 (irq_regs s)\<rparr>
      in s\<lparr>eoi_log := (0x20, 0x20) # (0xA0, 0x20) # eoi_log s\<rparr>)"

text \<open>So an interrupt leaves 0x20 in the low byte of RAX of the code it interrupts.\<close>

lemma irq_overwrites_al:
  "irq_regs (isr_irq0 hw s) = set_al 0x20 (irq_regs s)" "irq_regs (isr_irq1 hw s) = set_al 0x20 (irq_regs s)"
  by (simp_all add: isr_irq0_def isr_irq1_def Let_def)

section \<open>Exceptions\<close>

record exc_frame = cpu_regs +
  x_vector :: u64
  x_error_code :: u64
  x_rip :: u64
  x_cs :: u64
  x_rflags :: u64
  x_rsp :: u64
  x_ss :: u64

definition exc_names :: "string list" where
  "exc_names =
     [''#DE Divide Error'', ''#DB Debug'', ''#NMI'', ''#BP Breakpoint'', ''#OF Overflow'', ''#BR BOUND Exceeded'',
      ''#UD Invalid Opcode'', ''#NM Device Not Available'', ''#DF Double Fault'', ''#09 Coprocessor Overrun'',
      ''#TS Invalid TSS'', ''#NP Segment Not Present'', ''#SS Stack Fault'', ''#GP General Protection'',
      ''#PF Page Fault'', ''#15 Reserved'', ''#MF x87 FP Error'', ''#AC Alignment Check'', ''#MC Machine Check'',
      ''#XF SIMD FP'', ''#VE Virtualization'', ''#CP Control Protection'']"

text \<open>The vectors whose stub is \<open>STUB_ERR\<close>.  The stack is the list of its words, the last one pushed
  first.\<close>

definition stub_err :: "nat set" where "stub_err = {8, 10, 11, 12, 13, 14, 17, 21}"

definition exc_stub :: "nat \<Rightarrow> u64 list \<Rightarrow> u64 list" where
  "exc_stub n stk = (if n \<in> stub_err then of_nat n # stk else of_nat n # 0 # stk)"

definition exc_common :: "cpu_regs \<Rightarrow> u64 list \<Rightarrow> u64 list" where
  "exc_common r stk = fold (#)
     [g_rax r, g_rbx r, g_rcx r, g_rdx r, g_rsi r, g_rdi r, g_rbp r, g_r8 r, g_r9 r, g_r10 r, g_r11 r, g_r12 r, g_r13 r, g_r14 r,
      g_r15 r] stk"

text \<open>The structure \<open>exc_frame_t\<close> at the top of the stack.\<close>

definition read_frame :: "u64 list \<Rightarrow> exc_frame" where
  "read_frame stk = \<lparr>g_r15 = stk ! 0, g_r14 = stk ! 1, g_r13 = stk ! 2, g_r12 = stk ! 3, g_r11 = stk ! 4, g_r10 = stk ! 5,
     g_r9 = stk ! 6, g_r8 = stk ! 7, g_rbp = stk ! 8, g_rdi = stk ! 9, g_rsi = stk ! 10, g_rdx = stk ! 11, g_rcx = stk ! 12,
     g_rbx = stk ! 13, g_rax = stk ! 14, x_vector = stk ! 15, x_error_code = stk ! 16, x_rip = stk ! 17, x_cs = stk ! 18,
     x_rflags = stk ! 19, x_rsp = stk ! 20, x_ss = stk ! 21\<rparr>"

definition newline :: string where "newline = [CHR 0x0A]"

text \<open>The text that \<open>exc_handler_c\<close> prints before it halts, call by call.\<close>

definition fault_lines :: "u64 \<Rightarrow> u64 \<Rightarrow> string list option" where
  "fault_lines err cr2 =
     do {
       a \<leftarrow> kprintf (''Fault addr (CR2): 0x%lx'' @ newline) [NumArg cr2];
       b \<leftarrow> kprintf (''Reason: %s | %s | %s | %s'' @ newline)
              [StrArg (if err AND 1 \<noteq> 0 then ''protection'' else ''not-present''), StrArg (if err AND 2 \<noteq> 0 then ''write'' else ''read''),
               StrArg (if err AND 4 \<noteq> 0 then ''user-mode'' else ''kernel-mode''), StrArg (if err AND 16 \<noteq> 0 then ''ifetch'' else ''data'')];
       Some [a, b]
     }"

definition exc_handler_c :: "u64 \<Rightarrow> exc_frame \<Rightarrow> string list option" where
  "exc_handler_c cr2 f =
     (let vec = ucast (x_vector f) :: u32;
          name = (if vec < 22 then exc_names ! unat vec else ''Unknown'') in
      do {
        l1 \<leftarrow> kprintf (''Vector %u: %s'' @ newline) [NumArg (ucast vec), StrArg name];
        l2 \<leftarrow> kprintf (''Error code : 0x%lx'' @ newline) [NumArg (x_error_code f)];
        l3 \<leftarrow> kprintf (''RIP        : 0x%lx'' @ newline) [NumArg (x_rip f)];
        l4 \<leftarrow> kprintf (''CS         : 0x%lx  RPL=%u'' @ newline) [NumArg (x_cs f), NumArg (ucast (ucast (x_cs f AND 3) :: u32))];
        l5 \<leftarrow> kprintf (''RSP        : 0x%lx'' @ newline) [NumArg (x_rsp f)];
        l6 \<leftarrow> kprintf (''RFLAGS     : 0x%lx'' @ newline) [NumArg (x_rflags f)];
        l7 \<leftarrow> kprintf (''RAX=0x%lx  RBX=0x%lx'' @ newline) [NumArg (g_rax f), NumArg (g_rbx f)];
        l8 \<leftarrow> kprintf (''RCX=0x%lx  RDX=0x%lx'' @ newline) [NumArg (g_rcx f), NumArg (g_rdx f)];
        l9 \<leftarrow> kprintf (''RSI=0x%lx  RDI=0x%lx'' @ newline) [NumArg (g_rsi f), NumArg (g_rdi f)];
        l10 \<leftarrow> kprintf (''RBP=0x%lx'' @ newline) [NumArg (g_rbp f)];
        pf \<leftarrow> (if vec = 14 then fault_lines (x_error_code f) cr2 else Some []);
        Some ([newline @ newline @ ''*** CPU EXCEPTION ***'' @ newline, l1, l2, l3, l4, l5, l6, l7, l8, l9, l10] @ pf @
          (if vec = 13 then [''Tip: #GP at RIP above '' @ map char_of [0xE2 :: nat, 0x80, 0x94] @ '' check segment, alignment, or bad MSR'' @ newline] else []) @
          [newline @ ''System halted. Reset to reboot.'' @ newline])
      })"

text \<open>What the processor pushes: with the vectors of the set an error code.\<close>

definition pushes_error :: "nat set" where "pushes_error = {8, 10, 11, 12, 13, 14, 17, 21}"

definition cpu_push :: "nat \<Rightarrow> u64 \<Rightarrow> u64 \<Rightarrow> u64 \<Rightarrow> u64 \<Rightarrow> u64 \<Rightarrow> u64 \<Rightarrow> u64 list" where
  "cpu_push v err rip cs rflags rsp ss = (if v \<in> pushes_error then [err] else []) @ [rip, cs, rflags, rsp, ss]"

end
