(* ===== verification/TablesProps.thy ===== *)
theory TablesProps
  imports Tables Syscall
begin

text \<open>
  What the descriptor tables promise: every selector that the kernel loads leads to the right segment, every
  vector to its handler, the PIC raises the two unmasked lines at the vectors of their
  handlers, and the exception stubs hand over one uniform frame.
\<close>

section \<open>Fields\<close>

lemma low_masks:
  "(0xFF :: u64) = mask 8" "(0xFFFF :: u64) = mask 16" "(0xFFFFFFFF :: u64) = mask 32"
  by (simp_all add: mask_eq_exp_minus_1)

lemma split_16_16_32: "(ucast (ucast (a AND 0xFFFF) :: u16) OR push_bit 16 (ucast (ucast (drop_bit 16 a AND 0xFFFF) :: u16)) OR
    push_bit 32 (ucast (ucast (drop_bit 32 a AND 0xFFFFFFFF) :: u32)) :: u64) = a" for a :: u64
proof (rule bit_word_eqI)
  fix i assume "i < LENGTH(64)"
  then consider "i < 16" | "16 \<le> i" "i < 32" | "32 \<le> i" "i < 64" by force
  then show "bit (ucast (ucast (a AND 0xFFFF) :: u16) OR push_bit 16 (ucast (ucast (drop_bit 16 a AND 0xFFFF) :: u16)) OR
    push_bit 32 (ucast (ucast (drop_bit 32 a AND 0xFFFFFFFF) :: u32)) :: u64) i = bit a i"
    using \<open>i < LENGTH(64)\<close>
    by cases (auto simp: low_masks bit_simps simp del: mask_numeral)
qed

lemma gate_round_trip: "gate_offset (idt (set_idt_entry at n h s) n) = at_handler at h"
  by (simp add: gate_offset_def set_idt_entry_def Let_def split_16_16_32)

lemma task_round_trip:
  "(ucast (ucast (ucast (a AND 0xFFFF) :: u16) OR push_bit 16 (ucast (ucast (drop_bit 16 a AND 0xFF) :: u8)) OR
      push_bit 24 (ucast (ucast (drop_bit 24 a AND 0xFF) :: u8)) :: u32) OR
    push_bit 32 (ucast (ucast (ucast (drop_bit 32 a) :: u32) :: u16)) OR
    push_bit 48 (ucast (ucast (drop_bit 16 (ucast (drop_bit 32 a) :: u32)) :: u16)) :: u64) = a" for a :: u64
proof (rule bit_word_eqI)
  fix i assume i: "i < LENGTH(64)"
  then consider "i < 16" | "16 \<le> i" "i < 24" | "24 \<le> i" "i < 32" | "32 \<le> i" "i < 48" | "48 \<le> i" "i < 64" by force
  then show "bit (ucast (ucast (ucast (a AND 0xFFFF) :: u16) OR push_bit 16 (ucast (ucast (drop_bit 16 a AND 0xFF) :: u8)) OR
      push_bit 24 (ucast (ucast (drop_bit 24 a AND 0xFF) :: u8)) :: u32) OR
    push_bit 32 (ucast (ucast (ucast (drop_bit 32 a) :: u32) :: u16)) OR
    push_bit 48 (ucast (ucast (drop_bit 16 (ucast (drop_bit 32 a) :: u32)) :: u16)) :: u64) i = bit a i"
    using i by cases (auto simp: low_masks bit_simps simp del: mask_numeral)
qed

section \<open>Gates\<close>

lemma idt_fold:
  "idt (fold (\<lambda>i. set_idt_entry at i (h i)) ns s) n =
    (if n \<in> set ns then idt (set_idt_entry at n (h n) s) n else idt s n)"
  by (induction ns arbitrary: s) (auto simp: set_idt_entry_def Let_def)

definition handler_of :: "nat \<Rightarrow> handler" where
  "handler_of n = (if n < 22 then ExcStub n else if n = 32 then IsrIrq0 else if n = 33 then IsrIrq1 else DefaultHandler)"

lemma installed_gate:
  assumes "n < 256"
  shows "\<exists>t. idt (exception_handlers_install at (init_idt at s)) n = idt (set_idt_entry at n (handler_of n) t) n"
proof (cases "n < 22")
  case True
  then have "n \<in> set [0..<22]" by simp
  with True show ?thesis unfolding exception_handlers_install_def exc_set_gate_def idt_fold
    by (simp del: set_upt upt.simps add: handler_of_def) blast
next
  case False
  then have "n \<notin> set [0..<22]" "n \<in> set [0..<256]" using assms by simp_all
  moreover have "idt (init_idt at s) n = idt (set_idt_entry at n (handler_of n) s) n"
    using \<open>n \<in> set [0..<256]\<close> False
    by (simp add: init_idt_def Let_def lidt_load_def pic_remap_def outb_pic_def handler_of_def idt_fold del: set_upt upt.simps)
      (auto simp: set_idt_entry_def Let_def idt_fold simp del: set_upt upt.simps)
  ultimately show ?thesis unfolding exception_handlers_install_def exc_set_gate_def idt_fold
    by (simp del: set_upt upt.simps) blast
qed

section \<open>The exception frame\<close>

lemma exception_frame:
  assumes "f = read_frame (exc_common r (exc_stub v (cpu_push v err rip cs rflags rsp ss @ rest)))"
  shows "cpu_regs.truncate f = cpu_regs.truncate r" "x_vector f = of_nat v" "x_error_code f = (if v \<in> pushes_error then err else 0)"
    "x_rip f = rip" "x_cs f = cs" "x_rflags f = rflags" "x_rsp f = rsp" "x_ss f = ss"
  by (simp_all add: assms read_frame_def exc_common_def exc_stub_def cpu_push_def pushes_error_def stub_err_def cpu_regs.truncate_def
      split: if_splits)

lemma as_uint_ucast: "as_uint (ucast x) = ucast x" for x :: u32
  by (auto simp: as_uint_def bit_eq_iff bit_simps dest: bit_imp_le_length)

lemma report_lines:
  "kprintf (''Vector %u: %s'' @ newline) [NumArg (ucast (n :: u32)), StrArg t] =
      Some (''Vector '' @ utoa (ucast n) 10 @ '': '' @ t @ newline)"
  "kprintf (''Error code : 0x%lx'' @ newline) [NumArg x] = Some (''Error code : 0x0x'' @ utoa x 16 @ newline)"
  "kprintf (''RIP        : 0x%lx'' @ newline) [NumArg x] = Some (''RIP        : 0x0x'' @ utoa x 16 @ newline)"
  "kprintf (''Fault addr (CR2): 0x%lx'' @ newline) [NumArg x] = Some (''Fault addr (CR2): 0x0x'' @ utoa x 16 @ newline)"
  "kprintf (''CS         : 0x%lx  RPL=%u'' @ newline) [NumArg x, NumArg y] \<noteq> None"
  "kprintf (''RSP        : 0x%lx'' @ newline) [NumArg x] \<noteq> None"
  "kprintf (''RFLAGS     : 0x%lx'' @ newline) [NumArg x] \<noteq> None"
  "kprintf (''RAX=0x%lx  RBX=0x%lx'' @ newline) [NumArg x, NumArg y] \<noteq> None"
  "kprintf (''RCX=0x%lx  RDX=0x%lx'' @ newline) [NumArg x, NumArg y] \<noteq> None"
  "kprintf (''RSI=0x%lx  RDI=0x%lx'' @ newline) [NumArg x, NumArg y] \<noteq> None"
  "kprintf (''RBP=0x%lx'' @ newline) [NumArg x] \<noteq> None"
  "kprintf (''Reason: %s | %s | %s | %s'' @ newline) [StrArg a, StrArg b, StrArg c, StrArg d] \<noteq> None"
  by (simp_all add: newline_def kconv_def as_uint_ucast)

section \<open>Properties\<close>

text \<open>C16. Every selector the kernel gives to the processor leads to its segment: the code selectors of the
  kernel (0x08) and of the users (0x23) to 64-bit code of privilege 0 and 3, their data selectors
  (0x10, 0x1B) to writable data of that privilege; so do the selectors that the processor derives from the
  register \<open>STAR\<close> of \<open>syscall_init\<close> on \<open>syscall\<close> and \<open>sysret\<close>.  The task
  register leads to the task state, whose stack for privilege 0 is the end of \<open>tss_stack\<close> and
  whose port bitmap lies behind its limit, so that no port is open to the users.\<close>

theorem selectors_reach_their_segments:
  "let t = init_gdt at s; g = gdt t; star = s_msr (syscall_init e w) 0xC0000081 in
     code64 0 (select g 0x08) \<and> data_rw 0 (select g 0x10) \<and> data_rw 3 (select g 0x1B) \<and> code64 3 (select g 0x23) \<and>
     cs_sel t = 0x08 \<and> data_sel t = 0x10 \<and>
     code64 0 (select g (ucast (drop_bit 32 star))) \<and> data_rw 0 (select g (ucast (drop_bit 32 star) + 8)) \<and>
     code64 3 (select g (ucast (drop_bit 48 star) + 16)) \<and> data_rw 3 (select g (ucast (drop_bit 48 star) + 8)) \<and>
     task_base g (task_reg t) = at_tss at \<and> seg_limit (select g (task_reg t)) = 103 \<and>
     tss_rsp0 t = at_tss_stack at + 16384 \<and> unat (tss_iopb_offset t) > 103"
proof -
  define t where "t = init_gdt at s"
  have g: "gdt t (Suc 0) = \<lparr>limit_low = 0xFFFF, base_low = 0, base_mid = 0, seg_access = 0x9A, granularity = 0xAF, base_high = 0\<rparr>"
    "gdt t 2 = \<lparr>limit_low = 0xFFFF, base_low = 0, base_mid = 0, seg_access = 0x92, granularity = 0xCF, base_high = 0\<rparr>"
    "gdt t 3 = \<lparr>limit_low = 0xFFFF, base_low = 0, base_mid = 0, seg_access = 0xF2, granularity = 0xCF, base_high = 0\<rparr>"
    "gdt t 4 = \<lparr>limit_low = 0xFFFF, base_low = 0, base_mid = 0, seg_access = 0xFA, granularity = 0xAF, base_high = 0\<rparr>"
    by (simp_all add: t_def init_gdt_def enable_sse_def reload_segments_def set_tss_descriptor_def set_gdt_entry_def Let_def)
  have t: "cs_sel t = 0x08" "data_sel t = 0x10" "task_reg t = 0x28" "tss_rsp0 t = at_tss_stack at + 16384" "tss_iopb_offset t = 104"
    by (simp_all add: t_def init_gdt_def enable_sse_def reload_segments_def set_tss_descriptor_def set_gdt_entry_def Let_def sizeof_tss_def)
  have sel: "select (gdt t) 0x08 = gdt t 1" "select (gdt t) 0x10 = gdt t 2" "select (gdt t) 0x18 = gdt t 3" "select (gdt t) 0x1B = gdt t 3"
    "select (gdt t) 0x20 = gdt t 4" "select (gdt t) 0x23 = gdt t 4" "select (gdt t) 0x28 = gdt t 5" "select (gdt t) 0x30 = gdt t 6"
    "select (gdt t) 0x100008 = gdt t 1" "select (gdt t) 0x100010 = gdt t 2"
    by (simp_all add: select_def)
  have seg: "code64 0 (gdt t 1)" "data_rw 0 (gdt t 2)" "data_rw 3 (gdt t 3)" "code64 3 (gdt t 4)"
    by (simp_all add: g code64_def data_rw_def seg_dpl_def seg_flags_def)
  have task: "task_base (gdt t) 0x28 = at_tss at" "seg_limit (gdt t 5) = 103"
    by (simp_all add: task_base_def sel Let_def seg_base_def seg_limit_def)
      (simp_all add: t_def init_gdt_def enable_sse_def reload_segments_def set_tss_descriptor_def set_gdt_entry_def Let_def sizeof_tss_def
        task_round_trip)
  have star: "s_msr (syscall_init e w) 0xC0000081 = 0x10000800000000" by (simp add: syscall_init_def Let_def)
  show ?thesis
    unfolding Let_def t_def [symmetric] star by (simp add: sel seg [simplified] task t)
qed

text \<open>C14. Interrupts reach their handlers: after \<open>init_idt\<close> and \<open>exception_handlers_install\<close> each of the
  256 vectors has an interrupt gate in the kernel's code segment to its handler, the register
  of the table covers all of them, and the two PICs, whatever they did before, raise the timer
  and the keyboard line at the vectors of their handlers and keep every other line masked.\<close>

theorem interrupts_reach_handlers:
  assumes "n < 256" "line < 8"
  shows "let t = exception_handlers_install at (init_idt at s) in
    interrupt_gate (idt t n) \<and> selector (idt t n) = 0x08 \<and> gate_offset (idt t n) = at_handler at (handler_of n) \<and>
    idtr t = (of_nat (256 * 16 - 1), at_idt at) \<and>
    pic_vector (fold (pic_write PIC1_CMD PIC1_DATA) (rev (pic_log t)) p1) line = (if line < 2 then Some (32 + line) else None) \<and>
    pic_vector (fold (pic_write PIC2_CMD PIC2_DATA) (rev (pic_log t)) p2) line = None"
proof -
  define t where "t = exception_handlers_install at (init_idt at s)"
  obtain u where u: "idt t n = idt (set_idt_entry at n (handler_of n) u) n" using installed_gate [OF assms(1)] t_def by blast
  have gate: "interrupt_gate (idt t n)" "selector (idt t n) = 0x08"
    unfolding u by (simp_all add: interrupt_gate_def set_idt_entry_def Let_def)
  have off: "gate_offset (idt t n) = at_handler at (handler_of n)" unfolding u by (rule gate_round_trip)
  have sel: "idtr (fold (\<lambda>i. set_idt_entry at i (h i)) ns v) = idtr v" "pic_log (fold (\<lambda>i. set_idt_entry at i (h i)) ns v) = pic_log v" for h ns v
    by (induction ns arbitrary: v) (simp_all add: set_idt_entry_def Let_def)
  have idtr: "idtr t = (of_nat (256 * 16 - 1), at_idt at)"
    by (simp add: t_def exception_handlers_install_def exc_set_gate_def sel init_idt_def Let_def lidt_load_def)
  have log: "rev (pic_log t) = rev (pic_log s) @
      [(0x20, 0x11), (0xA0, 0x11), (0x21, 0x20), (0xA1, 0x28), (0x21, 0x04), (0xA1, 0x02), (0x21, 0x01), (0xA1, 0x01), (0x21, 0xFC), (0xA1, 0xFF)]"
    by (simp add: t_def exception_handlers_install_def exc_set_gate_def sel init_idt_def Let_def lidt_load_def pic_remap_def outb_pic_def
        PIC1_CMD_def PIC2_CMD_def PIC1_DATA_def PIC2_DATA_def set_idt_entry_def)
  have "line = 0 \<or> line = 1 \<or> line = 2 \<or> line = 3 \<or> line = 4 \<or> line = 5 \<or> line = 6 \<or> line = 7" using assms(2) by auto
  then have "pic_vector (fold (pic_write PIC1_CMD PIC1_DATA) (rev (pic_log t)) p1) line = (if line < 2 then Some (32 + line) else None)"
      "pic_vector (fold (pic_write PIC2_CMD PIC2_DATA) (rev (pic_log t)) p2) line = None"
    unfolding log by (auto simp: PIC1_CMD_def PIC2_CMD_def PIC1_DATA_def PIC2_DATA_def pic_vector_def)
  then show ?thesis using gate off idtr unfolding Let_def t_def [symmetric] by blast
qed

theorem interrupts_reach_handlers_witness:
  "\<forall>at s. gate_offset (idt (exception_handlers_install at (init_idt at s)) 33) = at_handler at IsrIrq1"
  using interrupts_reach_handlers [of 33 1] by (simp add: Let_def handler_of_def)

text \<open>C15. An exception is reported as it happened: for each of the 22 vectors, whether the processor pushes an
  error code or not, the stubs hand over a frame with the registers at the time of the exception, the
  vector, the error code (or 0) and the pushed state, and the report names the exception and
  prints the vector, the error code, the instruction and, for a page fault, the faulting address.\<close>

theorem exception_is_reported:
  assumes "v < 22"
  shows "let f = read_frame (exc_common r (exc_stub v (cpu_push v err rip cs rflags rsp ss @ rest))) in
    cpu_regs.truncate f = cpu_regs.truncate r \<and> x_vector f = of_nat v \<and> x_error_code f = (if v \<in> pushes_error then err else 0) \<and>
    x_rip f = rip \<and> x_cs f = cs \<and> x_rflags f = rflags \<and> x_rsp f = rsp \<and> x_ss f = ss \<and>
    (\<exists>text. exc_handler_c cr2 f = Some text \<and>
      text ! 1 = ''Vector '' @ utoa (of_nat v) 10 @ '': '' @ exc_names ! v @ newline \<and>
      text ! 2 = ''Error code : 0x0x'' @ utoa (if v \<in> pushes_error then err else 0) 16 @ newline \<and>
      text ! 3 = ''RIP        : 0x0x'' @ utoa rip 16 @ newline \<and>
      (v = 14 \<longrightarrow> text ! 11 = ''Fault addr (CR2): 0x0x'' @ utoa cr2 16 @ newline))"
proof -
  define f where "f = read_frame (exc_common r (exc_stub v (cpu_push v err rip cs rflags rsp ss @ rest)))"
  note frame = exception_frame [OF f_def]
  have vec: "unat (of_nat v :: u32) = v" "unat (of_nat v :: u64) = v" using assms by (auto intro!: unat_of_nat_small)
  have u: "ucast (x_vector f) = (of_nat v :: u32)" using frame(2) vec
    by (simp only: word_unat_eq_iff) (subst unat_ucast_small, use vec assms in simp_all)
  have w: "(ucast (of_nat v :: u32) :: u64) = of_nat v"
    using vec by (simp only: word_unat_eq_iff) (subst unat_ucast_up, simp_all)
  have lt: "(of_nat v :: u32) < 22" using assms vec by (simp add: word_less_nat_alt)
  have is14: "(of_nat v :: u32) = 14 \<longleftrightarrow> v = 14" "(of_nat v :: u32) = 13 \<longleftrightarrow> v = 13" using vec(1)
    by (auto simp: word_unat_eq_iff simp del: unat_of_nat)
  obtain l4 where l4: "kprintf (''CS         : 0x%lx  RPL=%u'' @ newline) [NumArg (x_cs f), NumArg (ucast (ucast (x_cs f AND 3) :: u32))] = Some l4"
    using report_lines(5) by blast
  obtain l5 where l5: "kprintf (''RSP        : 0x%lx'' @ newline) [NumArg (x_rsp f)] = Some l5" using report_lines(6) by blast
  obtain l6 where l6: "kprintf (''RFLAGS     : 0x%lx'' @ newline) [NumArg (x_rflags f)] = Some l6" using report_lines(7) by blast
  obtain l7 where l7: "kprintf (''RAX=0x%lx  RBX=0x%lx'' @ newline) [NumArg (g_rax f), NumArg (g_rbx f)] = Some l7" using report_lines(8) by blast
  obtain l8 where l8: "kprintf (''RCX=0x%lx  RDX=0x%lx'' @ newline) [NumArg (g_rcx f), NumArg (g_rdx f)] = Some l8" using report_lines(9) by blast
  obtain l9 where l9: "kprintf (''RSI=0x%lx  RDI=0x%lx'' @ newline) [NumArg (g_rsi f), NumArg (g_rdi f)] = Some l9" using report_lines(10) by blast
  obtain l10 where l10: "kprintf (''RBP=0x%lx'' @ newline) [NumArg (g_rbp f)] = Some l10" using report_lines(11) by blast
  obtain pf where pf: "(if v = 14 then fault_lines (x_error_code f) cr2 else Some []) = Some pf"
      "v = 14 \<longrightarrow> pf \<noteq> [] \<and> hd pf = ''Fault addr (CR2): 0x0x'' @ utoa cr2 16 @ newline"
  proof (cases "v = 14")
    case True
    obtain b where "kprintf (''Reason: %s | %s | %s | %s'' @ newline)
        [StrArg (if x_error_code f AND 1 \<noteq> 0 then ''protection'' else ''not-present''), StrArg (if x_error_code f AND 2 \<noteq> 0 then ''write'' else ''read''),
         StrArg (if x_error_code f AND 4 \<noteq> 0 then ''user-mode'' else ''kernel-mode''), StrArg (if x_error_code f AND 16 \<noteq> 0 then ''ifetch'' else ''data'')] = Some b"
      using report_lines(12) by blast
    then have "fault_lines (x_error_code f) cr2 = Some [''Fault addr (CR2): 0x0x'' @ utoa cr2 16 @ newline, b]"
      unfolding fault_lines_def report_lines(4) by (simp only: bind.bind_lunit)
    then show ?thesis using that True by simp
  qed (use that in simp)
  have name: "(if (of_nat v :: u32) < 22 then exc_names ! unat (of_nat v :: u32) else ''Unknown'') = exc_names ! v"
    using lt vec(1) by (simp only: if_True)
  have "exc_handler_c cr2 f = Some ([newline @ newline @ ''*** CPU EXCEPTION ***'' @ newline,
      ''Vector '' @ utoa (of_nat v) 10 @ '': '' @ exc_names ! v @ newline,
      ''Error code : 0x0x'' @ utoa (x_error_code f) 16 @ newline, ''RIP        : 0x0x'' @ utoa rip 16 @ newline,
      l4, l5, l6, l7, l8, l9, l10] @ pf @
      (if v = 13 then [''Tip: #GP at RIP above '' @ map char_of [0xE2 :: nat, 0x80, 0x94] @ '' check segment, alignment, or bad MSR'' @ newline] else []) @
      [newline @ ''System halted. Reset to reboot.'' @ newline])"
    unfolding exc_handler_c_def Let_def u is14 name report_lines(1-3) w l4 l5 l6 l7 l8 l9 l10 pf(1) frame(4) by (simp only: bind.bind_lunit)
  then have "\<exists>text. exc_handler_c cr2 f = Some text \<and>
      text ! 1 = ''Vector '' @ utoa (of_nat v) 10 @ '': '' @ exc_names ! v @ newline \<and>
      text ! 2 = ''Error code : 0x0x'' @ utoa (if v \<in> pushes_error then err else 0) 16 @ newline \<and>
      text ! 3 = ''RIP        : 0x0x'' @ utoa rip 16 @ newline \<and>
      (v = 14 \<longrightarrow> text ! 11 = ''Fault addr (CR2): 0x0x'' @ utoa cr2 16 @ newline)"
    using pf(2) frame(3) by (auto simp: nth_append hd_conv_nth)
  then show ?thesis unfolding Let_def f_def [symmetric] using frame by blast
qed

text \<open>A write of the kernel to the page at address 0.\<close>

theorem exception_is_reported_witness:
  "\<forall>r. \<exists>text. exc_handler_c 0 (read_frame (exc_common r (exc_stub 14 (cpu_push 14 2 0x401000 8 0x202 0x9000 0x10)))) = Some text \<and>
     text ! 1 = ''Vector 14: #PF Page Fault'' @ newline"
proof
  fix r
  have "utoa 14 10 = ''14''" by (simp add: utoa_def digit_loop.simps digit_char_def char_of_def bit_Suc_0_iff)
  then show "\<exists>text. exc_handler_c 0 (read_frame (exc_common r (exc_stub 14 (cpu_push 14 2 0x401000 8 0x202 0x9000 0x10)))) = Some text \<and>
     text ! 1 = ''Vector 14: #PF Page Fault'' @ newline"
    using exception_is_reported [of 14 r 2 "0x401000" 8 "0x202" "0x9000" "0x10" "[]" 0]
    by (auto simp: Let_def exc_names_def simp del: kprintf.simps)
qed

end
