(* ===== verification/Cpufreq.thy ===== *)
theory Cpufreq
  imports Prelude "HOL-Library.Signed_Division"
begin

text \<open>
  \<open>drivers/cpufreq.c\<close> with \<open>CONFIG_CPU_FREQ\<close> and \<open>CONFIG_CPU_FREQ_INTEL\<close>, as the repository is configured: the
  frequency governor over the performance registers of the processor.  \<open>msr\<close> is what a register holds; the messages are left out.
  The frequencies are \<open>int\<close>; none of the products below leaves 32 bits, as ratios read from the processor have 8 bits.
\<close>

section \<open>State\<close>

definition MSR_IA32_PERF_STATUS :: u32 where "MSR_IA32_PERF_STATUS = 0x198"
definition MSR_IA32_PERF_CTL :: u32 where "MSR_IA32_PERF_CTL = 0x199"

record cpufreq =
  msr :: "u32 \<Rightarrow> u64"
  current_governor :: int
  min_freq_mhz :: int
  max_freq_mhz :: int

definition boot_cpufreq :: "(u32 \<Rightarrow> u64) \<Rightarrow> cpufreq" where
  "boot_cpufreq m = \<lparr>msr = m, current_governor = 0, min_freq_mhz = 800, max_freq_mhz = 3600\<rparr>"

definition rdmsr :: "u32 \<Rightarrow> cpufreq \<Rightarrow> u64" where "rdmsr r s = msr s r"
definition wrmsr :: "u32 \<Rightarrow> u64 \<Rightarrow> cpufreq \<Rightarrow> cpufreq" where "wrmsr r v s = s\<lparr>msr := (msr s)(r := v)\<rparr>"

definition CPUFREQ_GOV_PERFORMANCE :: int where "CPUFREQ_GOV_PERFORMANCE = 0"
definition CPUFREQ_GOV_POWERSAVE :: int where "CPUFREQ_GOV_POWERSAVE = 1"

section \<open>Operations\<close>

definition status_ratio :: "cpufreq \<Rightarrow> int" where
  "status_ratio s = uint (drop_bit 8 (rdmsr MSR_IA32_PERF_STATUS s) AND 0xFF)"

definition cpufreq_init :: "cpufreq \<Rightarrow> cpufreq" where
  "cpufreq_init s = s\<lparr>max_freq_mhz := status_ratio s * 100\<rparr>"

definition cpufreq_get_cur_freq :: "cpufreq \<Rightarrow> int" where "cpufreq_get_cur_freq s = status_ratio s * 100 * 1000"
definition cpufreq_get_min_freq :: "cpufreq \<Rightarrow> int" where "cpufreq_get_min_freq s = min_freq_mhz s * 1000"
definition cpufreq_get_max_freq :: "cpufreq \<Rightarrow> int" where "cpufreq_get_max_freq s = max_freq_mhz s * 1000"

definition cpufreq_set_freq :: "int \<Rightarrow> cpufreq \<Rightarrow> int \<times> cpufreq" where
  "cpufreq_set_freq freq_khz s =
     (let ratio = freq_khz sdiv 100000;
          ratio = (if ratio < 8 then 8 else ratio);
          perf_ctl = rdmsr MSR_IA32_PERF_CTL s;
          perf_ctl = (perf_ctl AND NOT 0xFF00) OR push_bit 8 (of_int ratio)
      in (0, wrmsr MSR_IA32_PERF_CTL perf_ctl s))"

definition cpufreq_set_governor :: "int \<Rightarrow> cpufreq \<Rightarrow> int \<times> cpufreq" where
  "cpufreq_set_governor governor s =
     (let s = s\<lparr>current_governor := governor\<rparr> in
      if governor = CPUFREQ_GOV_PERFORMANCE then (0, snd (cpufreq_set_freq (max_freq_mhz s * 1000) s))
      else if governor = CPUFREQ_GOV_POWERSAVE then (0, snd (cpufreq_set_freq (min_freq_mhz s * 1000) s))
      else (0, s))"

section \<open>What is requested\<close>

definition requested_ratio :: "cpufreq \<Rightarrow> int" where
  "requested_ratio s = uint (drop_bit 8 (rdmsr MSR_IA32_PERF_CTL s) AND 0xFF)"

lemma byte_field:
  fixes p r :: u64
  assumes "unat r < 256"
  shows "drop_bit 8 ((p AND NOT 0xFF00) OR push_bit 8 r) AND 0xFF = r"
    "((p AND NOT 0xFF00) OR push_bit 8 r) AND NOT 0xFF00 = p AND NOT 0xFF00"
proof -
  have m: "(0xFF :: u64) = mask 8" "(0xFF00 :: u64) = push_bit 8 (mask 8)" by (simp_all add: mask_eq_exp_minus_1)
  have r: "take_bit 8 r = r" using assms by (simp add: word_unat_eq_iff unsigned_take_bit_eq take_bit_nat_eq_self)
  have hi: "n < 8" if "bit r n" for n
    using r that by (metis bit_take_bit_iff)
  show "drop_bit 8 ((p AND NOT 0xFF00) OR push_bit 8 r) AND 0xFF = r"
    unfolding m by (rule bit_word_eqI) (auto simp: bit_simps simp del: mask_numeral dest: hi)
  show "((p AND NOT 0xFF00) OR push_bit 8 r) AND NOT 0xFF00 = p AND NOT 0xFF00"
    unfolding m by (rule bit_word_eqI) (auto simp: bit_simps simp del: mask_numeral dest: hi)
qed

text \<open>Setting a frequency below 25.6 GHz changes the ratio field of the control register only.\<close>

lemma set_freq_ratio:
  assumes "0 \<le> freq" "freq < 25600000"
  shows "fst (cpufreq_set_freq freq s) = 0" "requested_ratio (snd (cpufreq_set_freq freq s)) = max 8 (freq div 100000)"
    "rdmsr MSR_IA32_PERF_CTL (snd (cpufreq_set_freq freq s)) AND NOT 0xFF00 = rdmsr MSR_IA32_PERF_CTL s AND NOT 0xFF00"
    "r \<noteq> MSR_IA32_PERF_CTL \<Longrightarrow> rdmsr r (snd (cpufreq_set_freq freq s)) = rdmsr r s"
proof -
  have d: "freq sdiv 100000 = freq div 100000" using assms(1) by (cases "freq = 0") (simp_all add: signed_divide_int_def)
  define n where "n = max 8 (freq div 100000)"
  have n: "0 \<le> n" "n < 256" using assms by (simp_all add: n_def)
  then have u: "uint (of_int n :: u64) = n" by (simp add: uint_word_of_int)
  have lt: "unat (of_int n :: u64) < 256" using n u by (simp add: unat_eq_nat_uint)
  have set: "cpufreq_set_freq freq s = (0, wrmsr MSR_IA32_PERF_CTL ((rdmsr MSR_IA32_PERF_CTL s AND NOT 0xFF00) OR push_bit 8 (of_int n)) s)"
    by (simp add: cpufreq_set_freq_def Let_def d n_def max_def)
  show "fst (cpufreq_set_freq freq s) = 0" by (simp add: set)
  show "requested_ratio (snd (cpufreq_set_freq freq s)) = max 8 (freq div 100000)"
    using byte_field(1) [OF lt] u by (simp add: set requested_ratio_def rdmsr_def wrmsr_def n_def)
  show "rdmsr MSR_IA32_PERF_CTL (snd (cpufreq_set_freq freq s)) AND NOT 0xFF00 = rdmsr MSR_IA32_PERF_CTL s AND NOT 0xFF00"
    using byte_field(2) [OF lt] by (simp add: set rdmsr_def wrmsr_def)
  show "rdmsr r (snd (cpufreq_set_freq freq s)) = rdmsr r s" if "r \<noteq> MSR_IA32_PERF_CTL"
    using that by (simp add: set rdmsr_def wrmsr_def)
qed

text \<open>After the initialisation the governors ask for the ratio the processor ran at, and for the smallest; neither below 8.\<close>

theorem governors_request_ratios:
  "requested_ratio (snd (cpufreq_set_governor CPUFREQ_GOV_PERFORMANCE (cpufreq_init (boot_cpufreq m)))) = max 8 (status_ratio (boot_cpufreq m)) \<and>
   requested_ratio (snd (cpufreq_set_governor CPUFREQ_GOV_POWERSAVE (cpufreq_init (boot_cpufreq m)))) = 8"
proof -
  let ?r = "status_ratio (boot_cpufreq m)"
  have "?r \<le> 0xFF"
  proof -
    have "(drop_bit 8 (rdmsr MSR_IA32_PERF_STATUS (boot_cpufreq m)) AND 0xFF) \<le> 0xFF" by (rule word_and_le1)
    then show ?thesis by (simp add: status_ratio_def word_le_def)
  qed
  moreover have "0 \<le> ?r" by (simp add: status_ratio_def)
  ultimately have "requested_ratio (snd (cpufreq_set_freq (?r * 100 * 1000) s)) = max 8 ?r" for s
    using set_freq_ratio(2) [of "?r * 100 * 1000" s] by simp
  moreover have "requested_ratio (snd (cpufreq_set_freq 800000 s)) = 8" for s
    using set_freq_ratio(2) [of 800000 s] by simp
  ultimately show ?thesis
    unfolding cpufreq_set_governor_def CPUFREQ_GOV_PERFORMANCE_def CPUFREQ_GOV_POWERSAVE_def cpufreq_init_def Let_def
    by (simp del: mult.assoc) (simp add: boot_cpufreq_def)
qed

end
