(* ===== verification/VgaText.thy ===== *)
theory VgaText
  imports Prelude
begin

text \<open>
  The text console of \<open>x86_64/print.c\<close>: 25 rows of 80 cells at \<open>0xb8000\<close>.  A cell is named by its index from there; the window of
  text memory is larger than the screen, so that indices behind row 24 are cells that are not seen.  The \<open>size_t\<close> values stay small and are \<open>nat\<close>.
\<close>

section \<open>State and operations\<close>

record vga_char =
  character :: u8
  vga_color :: u8

record vga =
  vbuffer :: "nat \<Rightarrow> vga_char"
  vcol :: nat
  vrow :: nat
  vcolor :: u8

definition NUM_COLS :: nat where "NUM_COLS = 80"
definition NUM_ROWS :: nat where "NUM_ROWS = 25"

definition clear_row :: "nat \<Rightarrow> vga \<Rightarrow> vga" where
  "clear_row row s =
     (let empty = \<lparr>character = 0x20, vga_color = vcolor s\<rparr> in
      s\<lparr>vbuffer := fold (\<lambda>col b. b(col + NUM_COLS * row := empty)) [0 ..< NUM_COLS] (vbuffer s)\<rparr>)"

definition print_clear :: "vga \<Rightarrow> vga" where
  "print_clear s = fold clear_row [0 ..< NUM_ROWS] s"

definition scroll :: "(nat \<Rightarrow> vga_char) \<Rightarrow> nat \<Rightarrow> vga_char" where
  "scroll b =
     fold (\<lambda>row. fold (\<lambda>col b. b(col + NUM_COLS * (row - 1) := b (col + NUM_COLS * row))) [0 ..< NUM_COLS]) [1 ..< NUM_ROWS] b"

definition print_newline :: "vga \<Rightarrow> vga" where
  "print_newline s =
     (let s = s\<lparr>vcol := 0\<rparr> in
      if vrow s < NUM_ROWS - 1 then s\<lparr>vrow := vrow s + 1\<rparr>
      else clear_row (NUM_COLS - 1) (s\<lparr>vbuffer := scroll (vbuffer s)\<rparr>))"

definition print_char :: "u8 \<Rightarrow> vga \<Rightarrow> vga" where
  "print_char c s =
     (if c = 0x0A then print_newline s
      else
        let s = (if vcol s > NUM_COLS then print_newline s else s);
            s = s\<lparr>vbuffer := (vbuffer s)(vcol s + NUM_COLS * vrow s := \<lparr>character = c, vga_color = vcolor s\<rparr>)\<rparr>
        in s\<lparr>vcol := vcol s + 1\<rparr>)"

text \<open>A string is its bytes before the NUL.\<close>

definition print_str :: "u8 list \<Rightarrow> vga \<Rightarrow> vga" where "print_str bs s = fold print_char bs s"

definition print_set_color :: "u8 \<Rightarrow> u8 \<Rightarrow> vga \<Rightarrow> vga" where
  "print_set_color foreground background s = s\<lparr>vcolor := foreground + push_bit 4 background\<rparr>"

section \<open>What is on the screen\<close>

text \<open>Text within a row goes to its cells, and nothing else changes.\<close>

lemma print_line:
  assumes "vcol s + length bs \<le> 81" "0x0A \<notin> set bs"
  shows "print_str bs s = s\<lparr>vcol := vcol s + length bs, vbuffer := \<lambda>i.
    if vcol s + 80 * vrow s \<le> i \<and> i < vcol s + length bs + 80 * vrow s
    then \<lparr>character = bs ! (i - (vcol s + 80 * vrow s)), vga_color = vcolor s\<rparr> else vbuffer s i\<rparr>"
  using assms
proof (induction bs arbitrary: s)
  case Nil
  have "(\<lambda>i. if vcol s + 80 * vrow s \<le> i \<and> i < vcol s + length ([] :: u8 list) + 80 * vrow s
    then \<lparr>character = [] ! (i - (vcol s + 80 * vrow s)), vga_color = vcolor s\<rparr> else vbuffer s i) = vbuffer s" by (auto simp: fun_eq_iff)
  then show ?case unfolding print_str_def by (simp only:) simp
next
  case (Cons b bs)
  let ?c = "vcol s + 80 * vrow s"
  have pc: "print_char b s = s\<lparr>vcol := Suc (vcol s), vbuffer := (vbuffer s)(?c := \<lparr>character = b, vga_color = vcolor s\<rparr>)\<rparr>"
    using Cons.prems by (simp add: print_char_def Let_def NUM_COLS_def)
  have "print_str (b # bs) s = print_str bs (print_char b s)" by (simp add: print_str_def)
  also have "\<dots> = (print_char b s)\<lparr>vcol := Suc (vcol s) + length bs, vbuffer := \<lambda>i.
    if Suc ?c \<le> i \<and> i < Suc ?c + length bs
    then \<lparr>character = bs ! (i - Suc ?c), vga_color = vcolor s\<rparr> else vbuffer (print_char b s) i\<rparr>"
    using Cons.IH [of "print_char b s"] Cons.prems by (simp add: pc ac_simps cong: if_cong)
  also have "\<dots> = s\<lparr>vcol := vcol s + length (b # bs), vbuffer := \<lambda>i.
    if ?c \<le> i \<and> i < vcol s + length (b # bs) + 80 * vrow s
    then \<lparr>character = (b # bs) ! (i - ?c), vga_color = vcolor s\<rparr> else vbuffer s i\<rparr>"
  proof -
    have "(if Suc ?c \<le> i \<and> i < Suc ?c + length bs then \<lparr>character = bs ! (i - Suc ?c), vga_color = vcolor s\<rparr> else vbuffer (print_char b s) i) =
        (if ?c \<le> i \<and> i < vcol s + length (b # bs) + 80 * vrow s then \<lparr>character = (b # bs) ! (i - ?c), vga_color = vcolor s\<rparr> else vbuffer s i)" for i
    proof (cases "i = ?c")
      case False
      then show ?thesis by (cases "Suc ?c \<le> i") (auto simp: pc nth_Cons' Suc_diff_le)
    qed (simp add: pc)
    then show ?thesis by (simp only:) (simp add: pc)
  qed
  finally show ?case .
qed

lemma over_long:
  assumes "vcol s = 81" "vrow s < 24" "c \<noteq> 0x0A"
  shows "print_char c s = s\<lparr>vrow := Suc (vrow s), vcol := 1, vbuffer := (vbuffer s)(80 * Suc (vrow s) := \<lparr>character = c, vga_color = vcolor s\<rparr>)\<rparr>"
  using assms by (simp add: print_char_def Let_def NUM_COLS_def NUM_ROWS_def print_newline_def)

text \<open>The 81st character of a line goes to the next row, where the 82nd overwrites it: the test is for more than 80 columns.\<close>

theorem long_line_loses_a_character:
  assumes "vrow s < 24" "vcol s = 0" "length bs = 82" "0x0A \<notin> set bs"
  shows "print_str bs s = s\<lparr>vrow := Suc (vrow s), vcol := 1, vbuffer := \<lambda>i.
    if 80 * vrow s \<le> i \<and> i < 80 * Suc (vrow s) then \<lparr>character = bs ! (i - 80 * vrow s), vga_color = vcolor s\<rparr>
    else if i = 80 * Suc (vrow s) then \<lparr>character = bs ! 81, vga_color = vcolor s\<rparr> else vbuffer s i\<rparr>"
proof -
  obtain as c where bs: "bs = as @ [c]" "length as = 81" using assms(3) by (cases bs rule: rev_cases) auto
  have nl: "0x0A \<notin> set as" "c \<noteq> 0x0A" using assms(4) bs by auto
  let ?b = "\<lambda>i. if 80 * vrow s \<le> i \<and> i < 81 + 80 * vrow s then \<lparr>character = as ! (i - 80 * vrow s), vga_color = vcolor s\<rparr> else vbuffer s i"
  have line: "print_str as s = s\<lparr>vcol := 81, vbuffer := ?b\<rparr>"
    using print_line [of s as] assms(1,2) bs(2) nl by (simp cong: if_cong)
  have "print_str bs s = print_char c (s\<lparr>vcol := 81, vbuffer := ?b\<rparr>)" unfolding line [symmetric] by (simp add: bs print_str_def)
  also have "\<dots> = s\<lparr>vrow := Suc (vrow s), vcol := 1, vbuffer := ?b(80 * Suc (vrow s) := \<lparr>character = c, vga_color = vcolor s\<rparr>)\<rparr>"
    using over_long [of "s\<lparr>vcol := 81, vbuffer := ?b\<rparr>" c] assms(1) nl(2) by simp
  also have "?b(80 * Suc (vrow s) := \<lparr>character = c, vga_color = vcolor s\<rparr>) = (\<lambda>i.
    if 80 * vrow s \<le> i \<and> i < 80 * Suc (vrow s) then \<lparr>character = bs ! (i - 80 * vrow s), vga_color = vcolor s\<rparr>
    else if i = 80 * Suc (vrow s) then \<lparr>character = bs ! 81, vga_color = vcolor s\<rparr> else vbuffer s i)"
    using bs by (auto simp: fun_eq_iff nth_append)
  finally show ?thesis .
qed

text \<open>A line feed in the last row moves the rows up, but the row it clears is row 79, outside the 25: the last row keeps its text.\<close>

lemma fold_row_other: "(\<And>c. c \<in> set cs \<Longrightarrow> i \<noteq> c + k) \<Longrightarrow> fold (\<lambda>c b. b(c + k := g c b)) cs b i = b i"
  by (induction cs arbitrary: b) auto

theorem last_row_is_not_cleared:
  assumes "vrow s = 24" "col < 80"
  shows "vbuffer (print_char 0x0A s) (col + 80 * 24) = vbuffer s (col + 80 * 24)"
proof -
  have "fold (\<lambda>row. fold (\<lambda>col b. b(col + 80 * (row - 1) := b (col + 80 * row))) [0 ..< 80]) rows b (col + 80 * 24) = b (col + 80 * 24)"
    if "\<forall>r \<in> set rows. r \<le> 24" for rows b
    using that
  proof (induction rows arbitrary: b)
    case (Cons r rows)
    have "fold (\<lambda>c b. b(c + 80 * (r - 1) := b (c + 80 * r))) [0 ..< 80] b (col + 80 * 24) = b (col + 80 * 24)"
      by (rule fold_row_other) (use Cons.prems in auto)
    moreover have "\<forall>r \<in> set rows. r \<le> 24" using Cons.prems by simp
    ultimately show ?case by (simp only: fold_simps Cons.IH)
  qed (simp only: fold_simps)
  from this [of "[1 ..< 25]"] have "scroll b (col + 80 * 24) = b (col + 80 * 24)" for b
    unfolding scroll_def NUM_COLS_def NUM_ROWS_def by auto
  moreover have "fold (\<lambda>c b. b(c + 80 * 79 := e)) [0 ..< 80] b (col + 80 * 24) = b (col + 80 * 24)" for b and e :: vga_char
    by (rule fold_row_other) (use assms(2) in auto)
  ultimately show ?thesis using assms(1)
    by (simp only: print_char_def print_newline_def Let_def NUM_ROWS_def clear_row_def NUM_COLS_def if_True simp_thms) simp
qed

end
