(* ===== verification/Spec2Isabelle.thy ===== *)
theory Spec2Isabelle
  imports MemInit VirtMem VfsProps DevProcFs RamfsFiles SchedProps BlkProps Timer InputProps Format ConsoleProps Tar FatExtend FatDirs FatMount SyscallProps AcpiProps Pci AhciProps XhciProps BootProps NvecProps ShellProps TablesProps Cpufreq VgaText
begin

text \<open>
  A verification library for the kernel of rhoudveine_os (x86-64, C), whose sources lie under
  \<open>src/kernel/src/impl/kernel/\<close>.  Paths below are relative to that directory.

  \<^bold>\<open>The program.\<close>  The boot loader enters \<open>core/main.c\<close>, which turns the memory map into a frame
  allocator (\<open>core/mm.c\<close>), starts the console, scans the PCI bus (\<open>drivers/vray.c\<close>), reads the ACPI
  tables (\<open>drivers/acpi.c\<close>), starts the disk driver (\<open>drivers/ahci.c\<close>), mounts the file systems
  (\<open>fs/vfs.c\<close> above \<open>fs/ramfs.c\<close>, \<open>fs/devfs.c\<close>, \<open>fs/procfs.c\<close> and \<open>fs/fat32_vfs.c\<close>), unpacks
  the root archive (\<open>core/tar_extract.c\<close>) and enters the first program (\<open>core/elf.c\<close>), which comes
  back through the system calls (\<open>core/syscall.c\<close>), or the embedded shell of \<open>init/main.c\<close>.  Beside that path stand the descriptor
  tables and interrupts (\<open>core/idt.c\<close>, \<open>core/idt_exceptions.c\<close>, \<open>core/irq.c\<close>, \<open>isr.asm\<close>), the scheduler
  (\<open>core/sched.c\<close>), the block layer (\<open>core/blk.c\<close>), the timer (\<open>core/timer.c\<close>), the keyboards
  (\<open>drivers/ps2.c\<close>, \<open>drivers/usb_hid.c\<close>), the USB controller (\<open>drivers/xhci.c\<close>) and the graphics mode
  (\<open>drivers/nvec.c\<close>).

  \<^bold>\<open>How the code is modelled.\<close>  An operation is a function on a record that holds the file's static
  variables; it returns the result and the new record.  C integers of a fixed width are words,
  so overflow wraps as on the machine; \<open>int\<close> values that only count or signal errors are \<open>int\<close>.
  C strings are lists of characters before the NUL.  A pointer is an address where the code
  computes with it, and the name of an object (a number) where it does not.  \<open>None\<close> as the whole
  result of an operation is a run the C standard or the processor gives no meaning to: an access
  outside an array, through a null or dangling pointer, or to an unmapped page.  Devices are
  functions: \<open>hw k ...\<close> is what the \<open>k\<close>-th read of a run returns, so nothing is assumed of them
  unless a theorem says so.  Stores to devices are logged.  Messages are left out unless they are
  what the operation is for.

  \<^bold>\<open>The theories.\<close>
  \<^item> \<open>Prelude\<close>: machine integers, C arrays, lemmas on words, bits and lists.  \<open>CString\<close>: the copies of
    \<open>strcmp\<close>, \<open>strcpy\<close> and the like that each file carries; the locale \<open>c_string_equality\<close> is what their
    callers need.  \<open>Bytes\<close>: fields of packed structures.  \<open>Chain\<close>: linked lists through a \<open>next\<close>
    pointer.  \<open>Hardware\<close>: memory, ports and device registers seen by a driver.
  \<^item> \<open>Frame_Allocator\<close>: the locale \<open>frame_allocator\<close>, the contract between page allocators and their
    clients.  \<open>PhysMem\<close>: the two bitmaps and counters of \<open>core/mm.c\<close>, \<open>pfa_alloc\<close>, \<open>pfa_alloc_low\<close>,
    \<open>pfa_free\<close>, interpreted as two such allocators.  \<open>MemInit\<close>: \<open>mm_init\<close>,
    and \<open>mm_memset\<close>, by which a store to a frame reaches the bitmaps that \<open>mm_init\<close> leaves in
    frames it releases.  \<open>VirtMem\<close>: the page tables,
    \<open>map_page\<close>, \<open>mmio_map_low\<close>, \<open>mmio_remap\<close>, against the translation the processor does.
  \<^item> \<open>VfsState\<close>: nodes, mounts and the state the file systems share (\<open>include/vfs.h\<close>).  \<open>Ramfs\<close>,
    \<open>RamfsFiles\<close>: \<open>fs/ramfs.c\<close> and its refinement to files as byte lists.  \<open>DevProcFs\<close>: \<open>fs/devfs.c\<close>,
    \<open>fs/procfs.c\<close>.  \<open>Nodes\<close>: \<open>fs/vnode.c\<close>, \<open>fs/nvnode.c\<close>.  \<open>Vfs\<close>, \<open>VfsProps\<close>: \<open>fs/vfs.c\<close>; the function pointers of a node are
    dispatched on the file system that owns it.  \<open>RamTree\<close>: what \<open>vfs_mkdir\<close> does to the tree of nodes.
  \<^item> \<open>FatNames\<close>, \<open>Fat32\<close>, \<open>Fat32Dir\<close>: \<open>fs/fat32_vfs.c\<close> from names to mounting, over pages of the frame
    allocator and an array of sectors; \<open>read_fault\<close> and \<open>write_fault\<close> say which transfers the driver
    fails, and after how many sectors, and \<open>disk_healthy\<close> is the assumption that it fails none.  \<open>FatNameProps\<close> (names survive the directory),
    \<open>FatChains\<close> (chains as lists of clusters, reading), \<open>FatExtend\<close> (allocation and growth),
    \<open>FatDirs\<close> (creation and lookup), \<open>FatMount\<close> (sizes, mounting, leaks).
  \<^item> \<open>Sched\<close>, \<open>SchedProps\<close>: \<open>core/sched.c\<close>; run queues are related to lists by \<open>queues_ok\<close>.
    \<open>Blk\<close>, \<open>BlkProps\<close>: \<open>core/blk.c\<close>; the locale \<open>io_scheduler\<close> is \<open>struct iosched\<close>.  \<open>Timer\<close>:
    \<open>core/timer.c\<close>.
  \<^item> \<open>Input\<close>, \<open>InputProps\<close>: the keyboards and their shared ring, with the locale \<open>char_queue\<close>.
    \<open>Format\<close>: \<open>lib/stdio.c\<close> and the printing functions of \<open>core/main.c\<close>.  \<open>Console\<close>,
    \<open>ConsoleProps\<close>: the framebuffer console of \<open>core/main.c\<close>.
  \<^item> \<open>Tar\<close>: \<open>core/tar_extract.c\<close>, with the locale \<open>archive_consumer\<close> for its callback.  \<open>Elf\<close>,
    \<open>ElfProps\<close>, \<open>ElfLoad\<close>: \<open>core/elf.c\<close> over the page tables.  \<open>Syscall\<close>, \<open>SyscallProps\<close>:
    \<open>core/syscall.c\<close> over the file systems, the console, the keyboard and the loader.
  \<^item> \<open>Acpi\<close>, \<open>AcpiProps\<close>: \<open>drivers/acpi.c\<close>.  \<open>Pci\<close>: \<open>drivers/vray.c\<close>, \<open>drivers/pci_db.c\<close>.  \<open>Ahci\<close>,
    \<open>AhciProps\<close>: \<open>drivers/ahci.c\<close>.  \<open>Xhci\<close>, \<open>XhciProps\<close>: \<open>drivers/xhci.c\<close>, with a controller that
    consumes the rings on its own.  \<open>Cpufreq\<close>: \<open>drivers/cpufreq.c\<close>.
  \<^item> \<open>Tables\<close>, \<open>TablesProps\<close>: segments, gates, interrupt controllers and entry code
    (\<open>core/main.c\<close>, \<open>core/idt.c\<close>, \<open>core/idt_exceptions.c\<close>, \<open>core/irq.c\<close>, \<open>x86_64/isr.asm\<close>), read back the
    way the processor reads them.
  \<^item> \<open>Boot\<close>, \<open>RamUnpack\<close>, \<open>BootProps\<close>: the sections of \<open>kernel_main\<close> that start the file systems, unpack
    the root archive and enter the first program, composed in their order; the tree an archive
    unpacks to is described by \<open>rt_unpack\<close> and \<open>octal_field\<close>, which do not use the code's own routines.
  \<^item> \<open>ShellPath\<close>, \<open>Shell\<close>, \<open>ShellProps\<close>: \<open>init/main.c\<close>, its paths against a walk over names
    (\<open>follow_path\<close>), its commands over the file systems.  \<open>Nvec\<close>, \<open>NvecProps\<close>: \<open>drivers/nvec.c\<close>, every
    drawing routine over the framebuffer.  \<open>VgaText\<close>: \<open>x86_64/print.c\<close>.

  \<^bold>\<open>What the lemmas show.\<close>  Each component has an invariant (\<open>pfa_inv\<close>, \<open>vm_ok\<close>, \<open>vfs_ok\<close>,
  \<open>queues_ok\<close>, \<open>ring_inv\<close>, \<open>fat_ok\<close> and their like), lemmas that its operations keep it, and theorems that
  state what an operation does to an abstract view: the set of free frames, the address
  translation, the bytes of a file, the list of a run queue, the text on the screen, the
  commands in the log of a device.  The theorems numbered C1 to C40 are the ones to read
  first; each stands behind a text that says what it means.  Where the code does not do what
  it means to, the theorem states what it does: \<open>unmount_redirects_nodes\<close>,
  \<open>bitmap_storage_is_allocatable\<close>, \<open>held_frame_handed_out_again\<close>, \<open>ramfs_empty_write_loses_file\<close>,
  \<open>hung_disk_reported_as_success\<close>, \<open>command_list_out_of_reach\<close>, \<open>command_ring_runs_dry\<close>,
  \<open>irq_overwrites_al\<close>, \<open>last_row_is_not_cleared\<close>, \<open>long_line_loses_a_character\<close>.

  \<^bold>\<open>Loops and fuel.\<close>  Most loops are recursion over the list or the counter they run over.  Waiting
  loops with a \<open>timeout\<close> run over that number.  Waits without one, and walks along linked lists,
  are \<open>partial_function\<close>s: not ending is \<open>None\<close>, and theorems that need an end prove it from the
  device (\<open>timer_sleep_waits\<close>) or from the shape of the list (the lemmas of \<open>Chain\<close>).  The walk along
  a cluster chain of the FAT is treated the same way.  The few fuel arguments that remain are the
  bounds of the code's own counters.

  \<^bold>\<open>Not modelled.\<close>
  Of \<open>kernel_main\<close>, the sections that only start hardware and services (the console, PCI, ACPI, AHCI,
  xHCI, the scheduler's first tasks) are not composed with the rest, though what they call is
  modelled.  Left out altogether are the panic screens (\<open>core/panic.c\<close>), the assembly entry
  points \<open>main64.asm\<close> and \<open>syscall.asm\<close>, the generated tables (\<open>pci_db_generated.h\<close>, \<open>usb_db.h\<close>, the
  font), the user programs and their library, the configuration tools, and \<open>fs/fat32.c\<close>, which the
  build excludes and which does not compile.  Memory ordering, caches and the TLB have no
  counterpart; cores run one after the other.  The translation against which \<open>map_page\<close> is
  stated has no large pages.  Timer ticks arrive only at \<open>hlt\<close>.  Whether a disk transfer fails is a
  function of the transfer, so a fault that goes away on a retry is not represented.  The program
  memory of \<open>core/elf.c\<close> and the storage of \<open>fs/ramfs.c\<close> are separate parts of the state.
\<close>

end
